(* ===== verification/Prelude.thy ===== *)
theory Prelude
  imports Main "HOL-Library.Word" "HOL-Library.Monad_Syntax"
begin

text \<open>
  Shared vocabulary of the development.

  The C sources work on NUL-terminated byte strings through pointers.  A string is a
  \<^typ>\<open>string\<close> without its terminator, a pointer into it is an index, and \<open>rd s i\<close> is the
  byte a C program reads there: the characters, the terminator at index \<^term>\<open>length s\<close>, and
  \<^term>\<open>None\<close> outside the object, which is undefined behaviour in C.  A model that reads memory
  lives in the option monad, so that a stray read is visible as \<^term>\<open>None\<close>.

  The theory also holds the generic facts on lists and words the components share and the
  theorem collections they fill.
\<close>

unbundle bit_operations_syntax

named_theorems cstr_simps \<open>reading C strings\<close>
named_theorems inv_intros \<open>operations that keep a component's invariant\<close>

section \<open>C strings\<close>

definition NUL :: char where
  "NUL = CHR 0x00"

definition CR :: char where
  "CR = CHR 0x0D"

definition LF :: char where
  "LF = CHR 0x0A"

text \<open>A valid C string: no byte of its content is the terminator.\<close>

definition cstring :: "string \<Rightarrow> bool" where
  "cstring s \<longleftrightarrow> NUL \<notin> set s"

definition rd :: "string \<Rightarrow> nat \<Rightarrow> char option" where
  "rd s i = (if i < length s then Some (s ! i) else if i = length s then Some NUL else None)"

lemma rd_lt [cstr_simps]: "i < length s \<Longrightarrow> rd s i = Some (s ! i)"
  by (simp add: rd_def)

lemma rd_end [cstr_simps]: "rd s (length s) = Some NUL"
  by (simp add: rd_def)

lemma rd_None_iff: "rd s i = None \<longleftrightarrow> length s < i"
  by (auto simp: rd_def)

lemma cstring_nth: "cstring s \<Longrightarrow> i < length s \<Longrightarrow> s ! i \<noteq> NUL"
  by (metis cstring_def nth_mem)

lemma cstring_Cons [simp]: "cstring (c # s) \<longleftrightarrow> c \<noteq> NUL \<and> cstring s"
  by (auto simp: cstring_def)

lemma cstring_Nil [simp]: "cstring []"
  by (simp add: cstring_def)

lemma cstring_append [simp]: "cstring (s @ t) \<longleftrightarrow> cstring s \<and> cstring t"
  by (auto simp: cstring_def)

lemma rd_NUL_iff:
  assumes "cstring s" and "i \<le> length s"
  shows "rd s i = Some NUL \<longleftrightarrow> i = length s"
  using assms by (auto simp: rd_def dest: cstring_nth)

text \<open>\<open>headc\<close> is the byte under a pointer that walks forwards over the string.\<close>

fun headc :: "string \<Rightarrow> char" where
  "headc [] = NUL"
| "headc (c # _) = c"

section \<open>Library functions on strings\<close>

text \<open>\<^verbatim>\<open>rb_strlcpy(dest, src, sz)\<close> leaves at most \<open>sz - 1\<close> bytes and the terminator in \<open>dest\<close>.\<close>

definition rb_strlcpy :: "string \<Rightarrow> nat \<Rightarrow> string" where
  "rb_strlcpy src sz = take (sz - 1) src"

text \<open>
  The strings before and after the first or last occurrence of a character, as \<^verbatim>\<open>strchr\<close> or
  \<^verbatim>\<open>strrchr\<close> and a terminator written over it leave them.
\<close>

definition strchr_split :: "char \<Rightarrow> string \<Rightarrow> (string \<times> string) option" where
  "strchr_split c s =
     (if c \<in> set s then Some (takeWhile (\<lambda>d. d \<noteq> c) s, tl (dropWhile (\<lambda>d. d \<noteq> c) s)) else None)"

definition strrchr_split :: "char \<Rightarrow> string \<Rightarrow> (string \<times> string) option" where
  "strrchr_split c s =
     (case strchr_split c (rev s) of None \<Rightarrow> None | Some (b, a) \<Rightarrow> Some (rev a, rev b))"

lemma strchr_split_append: "c \<notin> set a \<Longrightarrow> strchr_split c (a @ c # b) = Some (a, b)"
  by (auto simp: strchr_split_def takeWhile_append dropWhile_append)

lemma strrchr_split_append: "c \<notin> set b \<Longrightarrow> strrchr_split c (a @ c # b) = Some (a, b)"
  using strchr_split_append [of c "rev b" "rev a"] by (simp add: strrchr_split_def)

lemma strchr_split_Some: "strchr_split c s = Some (a, b) \<Longrightarrow> s = a @ c # b \<and> c \<notin> set a"
proof -
  assume h: "strchr_split c s = Some (a, b)"
  then have a: "a = takeWhile (\<lambda>d. d \<noteq> c) s" and b: "b = tl (dropWhile (\<lambda>d. d \<noteq> c) s)"
    and ne: "dropWhile (\<lambda>d. d \<noteq> c) s \<noteq> []"
    by (auto simp: strchr_split_def dropWhile_eq_Nil_conv split: if_splits)
  have "hd (dropWhile (\<lambda>d. d \<noteq> c) s) = c" using hd_dropWhile [OF ne] by simp
  then have "dropWhile (\<lambda>d. d \<noteq> c) s = c # b" using b ne by (metis list.collapse)
  then show ?thesis using a by (metis set_takeWhileD takeWhile_dropWhile_id)
qed

text \<open>\<^verbatim>\<open>atoi\<close>: white space, an optional sign, then digits.\<close>

fun atoi_digits :: "int \<Rightarrow> string \<Rightarrow> int" where
  "atoi_digits v [] = v"
| "atoi_digits v (c # s) =
     (if 48 \<le> (of_char c :: int) \<and> (of_char c :: int) \<le> 57
      then atoi_digits (v * 10 + (of_char c - 48)) s else v)"

definition atoi :: "string \<Rightarrow> int" where
  "atoi s0 =
     (let s = dropWhile (\<lambda>c. c = CHR '' '' \<or> 9 \<le> (of_char c :: nat) \<and> (of_char c :: nat) \<le> 13) s0
      in case s of
           [] \<Rightarrow> 0
         | c # s' \<Rightarrow> if c = CHR ''-'' then - atoi_digits 0 s'
                     else if c = CHR ''+'' then atoi_digits 0 s' else atoi_digits 0 s)"

section \<open>Lists\<close>

lemma drop_Suc_tl: "drop (Suc i) xs = tl (drop i xs)"
  by (simp add: drop_Suc tl_drop)

lemma drop_eq_nth_Cons: "i < length xs \<Longrightarrow> drop i xs = xs ! i # drop (Suc i) xs"
  by (simp add: Cons_nth_drop_Suc)

section \<open>Runs of a system\<close>

text \<open>
  A component that is driven by events is an initial condition and a step relation; its states are
  those a run reaches.  The locale is the contract an invariant has to meet.
\<close>

inductive reachable :: "('s \<Rightarrow> bool) \<Rightarrow> ('s \<Rightarrow> 's \<Rightarrow> bool) \<Rightarrow> 's \<Rightarrow> bool" for init step where
  reachable_init: "init s \<Longrightarrow> reachable init step s"
| reachable_step: "reachable init step s \<Longrightarrow> step s t \<Longrightarrow> reachable init step t"

locale run_invariant =
  fixes init :: "'s \<Rightarrow> bool" and step :: "'s \<Rightarrow> 's \<Rightarrow> bool" and inv :: "'s \<Rightarrow> bool"
  assumes inv_init: "init s \<Longrightarrow> inv s"
    and inv_step: "inv s \<Longrightarrow> step s t \<Longrightarrow> inv t"
begin

lemma inv_reachable: "reachable init step s \<Longrightarrow> inv s"
  by (induction rule: reachable.induct) (auto intro: inv_init inv_step)

lemma inv_run: "step\<^sup>*\<^sup>* s t \<Longrightarrow> inv s \<Longrightarrow> inv t"
  by (induction rule: rtranclp_induct) (auto intro: inv_step)

end

end
