(* ===== verification/Char_Tables.thy ===== *)
theory Char_Tables
  imports Prelude
begin

text \<open>
  The character tables of \<^verbatim>\<open>libratboxcore/match.c\<close> and the character macros of
  \<^verbatim>\<open>include/match.h\<close>, entry by entry, with the closed forms the rest of the
  development reasons with.  The tables are indexed with the \<^verbatim>\<open>unsigned char\<close> value of a
  byte, \<open>of_char c\<close>, so no access can leave them.
\<close>

section \<open>Case folding tables\<close>

definition ToLowerTab :: "nat list" where
  "ToLowerTab = [
    0, 1, 2, 3, 4, 5, 6, 7, 8, 9, 10, 11, 12, 13, 14, 15, 16, 17, 18, 19, 20, 21, 22, 23,
    24, 25, 26, 27, 28, 29, 30, 31, 32, 33, 34, 35, 36, 37, 38, 39, 40, 41, 42, 43, 44, 45,
    46, 47, 48, 49, 50, 51, 52, 53, 54, 55, 56, 57, 58, 59, 60, 61, 62, 63, 64, 97, 98, 99,
    100, 101, 102, 103, 104, 105, 106, 107, 108, 109, 110, 111, 112, 113, 114, 115, 116,
    117, 118, 119, 120, 121, 122, 91, 92, 93, 94, 95, 96, 97, 98, 99, 100, 101, 102, 103,
    104, 105, 106, 107, 108, 109, 110, 111, 112, 113, 114, 115, 116, 117, 118, 119, 120,
    121, 122, 123, 124, 125, 126, 127, 128, 129, 130, 131, 132, 133, 134, 135, 136, 137,
    138, 139, 140, 141, 142, 143, 144, 145, 146, 147, 148, 149, 150, 151, 152, 153, 154,
    155, 156, 157, 158, 159, 160, 161, 162, 163, 164, 165, 166, 167, 168, 169, 170, 171,
    172, 173, 174, 175, 176, 177, 178, 179, 180, 181, 182, 183, 184, 185, 186, 187, 188,
    189, 190, 191, 192, 193, 194, 195, 196, 197, 198, 199, 200, 201, 202, 203, 204, 205,
    206, 207, 208, 209, 210, 211, 212, 213, 214, 215, 216, 217, 218, 219, 220, 221, 222,
    223, 224, 225, 226, 227, 228, 229, 230, 231, 232, 233, 234, 235, 236, 237, 238, 239,
    240, 241, 242, 243, 244, 245, 246, 247, 248, 249, 250, 251, 252, 253, 254, 255]"

definition ToUpperTab :: "nat list" where
  "ToUpperTab = [
    0, 1, 2, 3, 4, 5, 6, 7, 8, 9, 10, 11, 12, 13, 14, 15, 16, 17, 18, 19, 20, 21, 22, 23,
    24, 25, 26, 27, 28, 29, 30, 31, 32, 33, 34, 35, 36, 37, 38, 39, 40, 41, 42, 43, 44, 45,
    46, 47, 48, 49, 50, 51, 52, 53, 54, 55, 56, 57, 58, 59, 60, 61, 62, 63, 64, 65, 66, 67,
    68, 69, 70, 71, 72, 73, 74, 75, 76, 77, 78, 79, 80, 81, 82, 83, 84, 85, 86, 87, 88, 89,
    90, 91, 92, 93, 94, 95, 96, 65, 66, 67, 68, 69, 70, 71, 72, 73, 74, 75, 76, 77, 78, 79,
    80, 81, 82, 83, 84, 85, 86, 87, 88, 89, 90, 123, 124, 125, 126, 127, 128, 129, 130, 131,
    132, 133, 134, 135, 136, 137, 138, 139, 140, 141, 142, 143, 144, 145, 146, 147, 148,
    149, 150, 151, 152, 153, 154, 155, 156, 157, 158, 159, 160, 161, 162, 163, 164, 165,
    166, 167, 168, 169, 170, 171, 172, 173, 174, 175, 176, 177, 178, 179, 180, 181, 182,
    183, 184, 185, 186, 187, 188, 189, 190, 191, 192, 193, 194, 195, 196, 197, 198, 199,
    200, 201, 202, 203, 204, 205, 206, 207, 208, 209, 210, 211, 212, 213, 214, 215, 216,
    217, 218, 219, 220, 221, 222, 223, 224, 225, 226, 227, 228, 229, 230, 231, 232, 233,
    234, 235, 236, 237, 238, 239, 240, 241, 242, 243, 244, 245, 246, 247, 248, 249, 250,
    251, 252, 253, 254, 255]"

definition ToLower :: "char \<Rightarrow> char" where
  "ToLower c = char_of (ToLowerTab ! of_char c)"

definition ToUpper :: "char \<Rightarrow> char" where
  "ToUpper c = char_of (ToUpperTab ! of_char c)"

section \<open>Attribute table\<close>

definition PRINT_C :: "32 word" where
  "PRINT_C = 0x001"

definition CNTRL_C :: "32 word" where
  "CNTRL_C = 0x002"

definition ALPHA_C :: "32 word" where
  "ALPHA_C = 0x004"

definition PUNCT_C :: "32 word" where
  "PUNCT_C = 0x008"

definition DIGIT_C :: "32 word" where
  "DIGIT_C = 0x010"

definition SPACE_C :: "32 word" where
  "SPACE_C = 0x020"

definition NICK_C :: "32 word" where
  "NICK_C = 0x040"

definition CHAN_C :: "32 word" where
  "CHAN_C = 0x080"

definition KWILD_C :: "32 word" where
  "KWILD_C = 0x100"

definition CHANPFX_C :: "32 word" where
  "CHANPFX_C = 0x200"

definition USER_C :: "32 word" where
  "USER_C = 0x400"

definition HOST_C :: "32 word" where
  "HOST_C = 0x800"

definition NONEOS_C :: "32 word" where
  "NONEOS_C = 0x1000"

definition SERV_C :: "32 word" where
  "SERV_C = 0x2000"

definition EOL_C :: "32 word" where
  "EOL_C = 0x4000"

definition MWILD_C :: "32 word" where
  "MWILD_C = 0x8000"

definition LET_C :: "32 word" where
  "LET_C = 0x10000"

definition FCHAN_C :: "32 word" where
  "FCHAN_C = 0x20000"

lemmas char_flag_defs =
  PRINT_C_def CNTRL_C_def ALPHA_C_def PUNCT_C_def DIGIT_C_def SPACE_C_def NICK_C_def CHAN_C_def
  KWILD_C_def CHANPFX_C_def USER_C_def HOST_C_def NONEOS_C_def SERV_C_def EOL_C_def MWILD_C_def
  LET_C_def FCHAN_C_def

definition CharAttrs :: "32 word list" where
  "CharAttrs = [
    CNTRL_C,
    CNTRL_C OR CHAN_C OR NONEOS_C,
    CNTRL_C OR CHAN_C OR FCHAN_C OR NONEOS_C,
    CNTRL_C OR CHAN_C OR FCHAN_C OR NONEOS_C,
    CNTRL_C OR CHAN_C OR NONEOS_C,
    CNTRL_C OR CHAN_C OR NONEOS_C,
    CNTRL_C OR CHAN_C OR NONEOS_C,
    CNTRL_C OR NONEOS_C,
    CNTRL_C OR CHAN_C OR NONEOS_C,
    CNTRL_C OR SPACE_C OR CHAN_C OR NONEOS_C,
    CNTRL_C OR SPACE_C OR CHAN_C OR NONEOS_C OR EOL_C,
    CNTRL_C OR SPACE_C OR CHAN_C OR NONEOS_C,
    CNTRL_C OR SPACE_C OR CHAN_C OR NONEOS_C,
    CNTRL_C OR SPACE_C OR CHAN_C OR NONEOS_C OR EOL_C,
    CNTRL_C OR CHAN_C OR NONEOS_C,
    CNTRL_C OR CHAN_C OR NONEOS_C,
    CNTRL_C OR CHAN_C OR NONEOS_C,
    CNTRL_C OR CHAN_C OR NONEOS_C,
    CNTRL_C OR CHAN_C OR NONEOS_C,
    CNTRL_C OR CHAN_C OR NONEOS_C,
    CNTRL_C OR CHAN_C OR NONEOS_C,
    CNTRL_C OR CHAN_C OR NONEOS_C,
    CNTRL_C OR CHAN_C OR FCHAN_C OR NONEOS_C,
    CNTRL_C OR CHAN_C OR NONEOS_C,
    CNTRL_C OR CHAN_C OR NONEOS_C,
    CNTRL_C OR CHAN_C OR NONEOS_C,
    CNTRL_C OR CHAN_C OR NONEOS_C,
    CNTRL_C OR CHAN_C OR NONEOS_C,
    CNTRL_C OR CHAN_C OR NONEOS_C,
    CNTRL_C OR CHAN_C OR NONEOS_C,
    CNTRL_C OR CHAN_C OR NONEOS_C,
    CNTRL_C OR CHAN_C OR FCHAN_C OR NONEOS_C,
    PRINT_C OR SPACE_C,
    PRINT_C OR KWILD_C OR CHAN_C OR NONEOS_C,
    PRINT_C OR CHAN_C OR NONEOS_C,
    PRINT_C OR MWILD_C OR CHANPFX_C OR CHAN_C OR NONEOS_C,
    PRINT_C OR CHAN_C OR NONEOS_C OR USER_C,
    PRINT_C OR CHAN_C OR NONEOS_C,
    PRINT_C OR CHANPFX_C OR CHAN_C OR NONEOS_C,
    PRINT_C OR CHAN_C OR NONEOS_C,
    PRINT_C OR CHAN_C OR NONEOS_C,
    PRINT_C OR CHAN_C OR NONEOS_C,
    PRINT_C OR KWILD_C OR MWILD_C OR CHAN_C OR NONEOS_C OR SERV_C,
    PRINT_C OR CHAN_C OR NONEOS_C,
    PRINT_C OR NONEOS_C,
    PRINT_C OR NICK_C OR CHAN_C OR NONEOS_C OR USER_C OR HOST_C,
    PRINT_C OR KWILD_C OR CHAN_C OR NONEOS_C OR USER_C OR HOST_C OR SERV_C,
    PRINT_C OR KWILD_C OR CHAN_C OR NONEOS_C,
    PRINT_C OR DIGIT_C OR NICK_C OR CHAN_C OR NONEOS_C OR USER_C OR HOST_C,
    PRINT_C OR DIGIT_C OR NICK_C OR CHAN_C OR NONEOS_C OR USER_C OR HOST_C,
    PRINT_C OR DIGIT_C OR NICK_C OR CHAN_C OR NONEOS_C OR USER_C OR HOST_C,
    PRINT_C OR DIGIT_C OR NICK_C OR CHAN_C OR NONEOS_C OR USER_C OR HOST_C,
    PRINT_C OR DIGIT_C OR NICK_C OR CHAN_C OR NONEOS_C OR USER_C OR HOST_C,
    PRINT_C OR DIGIT_C OR NICK_C OR CHAN_C OR NONEOS_C OR USER_C OR HOST_C,
    PRINT_C OR DIGIT_C OR NICK_C OR CHAN_C OR NONEOS_C OR USER_C OR HOST_C,
    PRINT_C OR DIGIT_C OR NICK_C OR CHAN_C OR NONEOS_C OR USER_C OR HOST_C,
    PRINT_C OR DIGIT_C OR NICK_C OR CHAN_C OR NONEOS_C OR USER_C OR HOST_C,
    PRINT_C OR DIGIT_C OR NICK_C OR CHAN_C OR NONEOS_C OR USER_C OR HOST_C,
    PRINT_C OR CHAN_C OR NONEOS_C OR HOST_C,
    PRINT_C OR CHAN_C OR NONEOS_C,
    PRINT_C OR CHAN_C OR NONEOS_C,
    PRINT_C OR CHAN_C OR NONEOS_C,
    PRINT_C OR CHAN_C OR NONEOS_C,
    PRINT_C OR KWILD_C OR MWILD_C OR CHAN_C OR NONEOS_C,
    PRINT_C OR KWILD_C OR MWILD_C OR CHAN_C OR NONEOS_C,
    PRINT_C OR ALPHA_C OR LET_C OR NICK_C OR CHAN_C OR NONEOS_C OR USER_C OR HOST_C,
    PRINT_C OR ALPHA_C OR LET_C OR NICK_C OR CHAN_C OR NONEOS_C OR USER_C OR HOST_C,
    PRINT_C OR ALPHA_C OR LET_C OR NICK_C OR CHAN_C OR NONEOS_C OR USER_C OR HOST_C,
    PRINT_C OR ALPHA_C OR LET_C OR NICK_C OR CHAN_C OR NONEOS_C OR USER_C OR HOST_C,
    PRINT_C OR ALPHA_C OR LET_C OR NICK_C OR CHAN_C OR NONEOS_C OR USER_C OR HOST_C,
    PRINT_C OR ALPHA_C OR LET_C OR NICK_C OR CHAN_C OR NONEOS_C OR USER_C OR HOST_C,
    PRINT_C OR ALPHA_C OR LET_C OR NICK_C OR CHAN_C OR NONEOS_C OR USER_C OR HOST_C,
    PRINT_C OR ALPHA_C OR LET_C OR NICK_C OR CHAN_C OR NONEOS_C OR USER_C OR HOST_C,
    PRINT_C OR ALPHA_C OR LET_C OR NICK_C OR CHAN_C OR NONEOS_C OR USER_C OR HOST_C,
    PRINT_C OR ALPHA_C OR LET_C OR NICK_C OR CHAN_C OR NONEOS_C OR USER_C OR HOST_C,
    PRINT_C OR ALPHA_C OR LET_C OR NICK_C OR CHAN_C OR NONEOS_C OR USER_C OR HOST_C,
    PRINT_C OR ALPHA_C OR LET_C OR NICK_C OR CHAN_C OR NONEOS_C OR USER_C OR HOST_C,
    PRINT_C OR ALPHA_C OR LET_C OR NICK_C OR CHAN_C OR NONEOS_C OR USER_C OR HOST_C,
    PRINT_C OR ALPHA_C OR LET_C OR NICK_C OR CHAN_C OR NONEOS_C OR USER_C OR HOST_C,
    PRINT_C OR ALPHA_C OR LET_C OR NICK_C OR CHAN_C OR NONEOS_C OR USER_C OR HOST_C,
    PRINT_C OR ALPHA_C OR LET_C OR NICK_C OR CHAN_C OR NONEOS_C OR USER_C OR HOST_C,
    PRINT_C OR ALPHA_C OR LET_C OR NICK_C OR CHAN_C OR NONEOS_C OR USER_C OR HOST_C,
    PRINT_C OR ALPHA_C OR LET_C OR NICK_C OR CHAN_C OR NONEOS_C OR USER_C OR HOST_C,
    PRINT_C OR ALPHA_C OR LET_C OR NICK_C OR CHAN_C OR NONEOS_C OR USER_C OR HOST_C,
    PRINT_C OR ALPHA_C OR LET_C OR NICK_C OR CHAN_C OR NONEOS_C OR USER_C OR HOST_C,
    PRINT_C OR ALPHA_C OR LET_C OR NICK_C OR CHAN_C OR NONEOS_C OR USER_C OR HOST_C,
    PRINT_C OR ALPHA_C OR LET_C OR NICK_C OR CHAN_C OR NONEOS_C OR USER_C OR HOST_C,
    PRINT_C OR ALPHA_C OR LET_C OR NICK_C OR CHAN_C OR NONEOS_C OR USER_C OR HOST_C,
    PRINT_C OR ALPHA_C OR LET_C OR NICK_C OR CHAN_C OR NONEOS_C OR USER_C OR HOST_C,
    PRINT_C OR ALPHA_C OR LET_C OR NICK_C OR CHAN_C OR NONEOS_C OR USER_C OR HOST_C,
    PRINT_C OR ALPHA_C OR LET_C OR NICK_C OR CHAN_C OR NONEOS_C OR USER_C OR HOST_C,
    PRINT_C OR ALPHA_C OR NICK_C OR CHAN_C OR NONEOS_C OR USER_C,
    PRINT_C OR ALPHA_C OR NICK_C OR CHAN_C OR NONEOS_C OR USER_C,
    PRINT_C OR ALPHA_C OR NICK_C OR CHAN_C OR NONEOS_C OR USER_C,
    PRINT_C OR ALPHA_C OR NICK_C OR CHAN_C OR NONEOS_C OR USER_C,
    PRINT_C OR NICK_C OR CHAN_C OR NONEOS_C OR USER_C,
    PRINT_C OR NICK_C OR CHAN_C OR NONEOS_C OR USER_C,
    PRINT_C OR ALPHA_C OR LET_C OR NICK_C OR CHAN_C OR NONEOS_C OR USER_C OR HOST_C,
    PRINT_C OR ALPHA_C OR LET_C OR NICK_C OR CHAN_C OR NONEOS_C OR USER_C OR HOST_C,
    PRINT_C OR ALPHA_C OR LET_C OR NICK_C OR CHAN_C OR NONEOS_C OR USER_C OR HOST_C,
    PRINT_C OR ALPHA_C OR LET_C OR NICK_C OR CHAN_C OR NONEOS_C OR USER_C OR HOST_C,
    PRINT_C OR ALPHA_C OR LET_C OR NICK_C OR CHAN_C OR NONEOS_C OR USER_C OR HOST_C,
    PRINT_C OR ALPHA_C OR LET_C OR NICK_C OR CHAN_C OR NONEOS_C OR USER_C OR HOST_C,
    PRINT_C OR ALPHA_C OR LET_C OR NICK_C OR CHAN_C OR NONEOS_C OR USER_C OR HOST_C,
    PRINT_C OR ALPHA_C OR LET_C OR NICK_C OR CHAN_C OR NONEOS_C OR USER_C OR HOST_C,
    PRINT_C OR ALPHA_C OR LET_C OR NICK_C OR CHAN_C OR NONEOS_C OR USER_C OR HOST_C,
    PRINT_C OR ALPHA_C OR LET_C OR NICK_C OR CHAN_C OR NONEOS_C OR USER_C OR HOST_C,
    PRINT_C OR ALPHA_C OR LET_C OR NICK_C OR CHAN_C OR NONEOS_C OR USER_C OR HOST_C,
    PRINT_C OR ALPHA_C OR LET_C OR NICK_C OR CHAN_C OR NONEOS_C OR USER_C OR HOST_C,
    PRINT_C OR ALPHA_C OR LET_C OR NICK_C OR CHAN_C OR NONEOS_C OR USER_C OR HOST_C,
    PRINT_C OR ALPHA_C OR LET_C OR NICK_C OR CHAN_C OR NONEOS_C OR USER_C OR HOST_C,
    PRINT_C OR ALPHA_C OR LET_C OR NICK_C OR CHAN_C OR NONEOS_C OR USER_C OR HOST_C,
    PRINT_C OR ALPHA_C OR LET_C OR NICK_C OR CHAN_C OR NONEOS_C OR USER_C OR HOST_C,
    PRINT_C OR ALPHA_C OR LET_C OR NICK_C OR CHAN_C OR NONEOS_C OR USER_C OR HOST_C,
    PRINT_C OR ALPHA_C OR LET_C OR NICK_C OR CHAN_C OR NONEOS_C OR USER_C OR HOST_C,
    PRINT_C OR ALPHA_C OR LET_C OR NICK_C OR CHAN_C OR NONEOS_C OR USER_C OR HOST_C,
    PRINT_C OR ALPHA_C OR LET_C OR NICK_C OR CHAN_C OR NONEOS_C OR USER_C OR HOST_C,
    PRINT_C OR ALPHA_C OR LET_C OR NICK_C OR CHAN_C OR NONEOS_C OR USER_C OR HOST_C,
    PRINT_C OR ALPHA_C OR LET_C OR NICK_C OR CHAN_C OR NONEOS_C OR USER_C OR HOST_C,
    PRINT_C OR ALPHA_C OR LET_C OR NICK_C OR CHAN_C OR NONEOS_C OR USER_C OR HOST_C,
    PRINT_C OR ALPHA_C OR LET_C OR NICK_C OR CHAN_C OR NONEOS_C OR USER_C OR HOST_C,
    PRINT_C OR ALPHA_C OR LET_C OR NICK_C OR CHAN_C OR NONEOS_C OR USER_C OR HOST_C,
    PRINT_C OR ALPHA_C OR LET_C OR NICK_C OR CHAN_C OR NONEOS_C OR USER_C OR HOST_C,
    PRINT_C OR ALPHA_C OR NICK_C OR CHAN_C OR NONEOS_C OR USER_C,
    PRINT_C OR ALPHA_C OR NICK_C OR CHAN_C OR NONEOS_C OR USER_C,
    PRINT_C OR ALPHA_C OR NICK_C OR CHAN_C OR NONEOS_C OR USER_C,
    PRINT_C OR ALPHA_C OR CHAN_C OR NONEOS_C OR USER_C,
    CHAN_C OR NONEOS_C,
    CHAN_C OR NONEOS_C,
    CHAN_C OR NONEOS_C,
    CHAN_C OR NONEOS_C,
    CHAN_C OR NONEOS_C,
    CHAN_C OR NONEOS_C,
    CHAN_C OR NONEOS_C,
    CHAN_C OR NONEOS_C,
    CHAN_C OR NONEOS_C,
    CHAN_C OR NONEOS_C,
    CHAN_C OR NONEOS_C,
    CHAN_C OR NONEOS_C,
    CHAN_C OR NONEOS_C,
    CHAN_C OR NONEOS_C,
    CHAN_C OR NONEOS_C,
    CHAN_C OR NONEOS_C,
    CHAN_C OR NONEOS_C,
    CHAN_C OR NONEOS_C,
    CHAN_C OR NONEOS_C,
    CHAN_C OR NONEOS_C,
    CHAN_C OR NONEOS_C,
    CHAN_C OR NONEOS_C,
    CHAN_C OR NONEOS_C,
    CHAN_C OR NONEOS_C,
    CHAN_C OR NONEOS_C,
    CHAN_C OR NONEOS_C,
    CHAN_C OR NONEOS_C,
    CHAN_C OR NONEOS_C,
    CHAN_C OR NONEOS_C,
    CHAN_C OR NONEOS_C,
    CHAN_C OR NONEOS_C,
    CHAN_C OR NONEOS_C,
    CHAN_C OR NONEOS_C,
    CHAN_C OR FCHAN_C OR NONEOS_C,
    CHAN_C OR NONEOS_C,
    CHAN_C OR NONEOS_C,
    CHAN_C OR NONEOS_C,
    CHAN_C OR NONEOS_C,
    CHAN_C OR NONEOS_C,
    CHAN_C OR NONEOS_C,
    CHAN_C OR NONEOS_C,
    CHAN_C OR NONEOS_C,
    CHAN_C OR NONEOS_C,
    CHAN_C OR NONEOS_C,
    CHAN_C OR NONEOS_C,
    CHAN_C OR NONEOS_C,
    CHAN_C OR NONEOS_C,
    CHAN_C OR NONEOS_C,
    CHAN_C OR NONEOS_C,
    CHAN_C OR NONEOS_C,
    CHAN_C OR NONEOS_C,
    CHAN_C OR NONEOS_C,
    CHAN_C OR NONEOS_C,
    CHAN_C OR NONEOS_C,
    CHAN_C OR NONEOS_C,
    CHAN_C OR NONEOS_C,
    CHAN_C OR NONEOS_C,
    CHAN_C OR NONEOS_C,
    CHAN_C OR NONEOS_C,
    CHAN_C OR NONEOS_C,
    CHAN_C OR NONEOS_C,
    CHAN_C OR NONEOS_C,
    CHAN_C OR NONEOS_C,
    CHAN_C OR NONEOS_C,
    CHAN_C OR NONEOS_C,
    CHAN_C OR NONEOS_C,
    CHAN_C OR NONEOS_C,
    CHAN_C OR NONEOS_C,
    CHAN_C OR NONEOS_C,
    CHAN_C OR NONEOS_C,
    CHAN_C OR NONEOS_C,
    CHAN_C OR NONEOS_C,
    CHAN_C OR NONEOS_C,
    CHAN_C OR NONEOS_C,
    CHAN_C OR NONEOS_C,
    CHAN_C OR NONEOS_C,
    CHAN_C OR NONEOS_C,
    CHAN_C OR NONEOS_C,
    CHAN_C OR NONEOS_C,
    CHAN_C OR NONEOS_C,
    CHAN_C OR NONEOS_C,
    CHAN_C OR NONEOS_C,
    CHAN_C OR NONEOS_C,
    CHAN_C OR NONEOS_C,
    CHAN_C OR NONEOS_C,
    CHAN_C OR NONEOS_C,
    CHAN_C OR NONEOS_C,
    CHAN_C OR NONEOS_C,
    CHAN_C OR NONEOS_C,
    CHAN_C OR NONEOS_C,
    CHAN_C OR NONEOS_C,
    CHAN_C OR NONEOS_C,
    CHAN_C OR NONEOS_C,
    CHAN_C OR NONEOS_C,
    CHAN_C OR NONEOS_C,
    CHAN_C OR NONEOS_C,
    CHAN_C OR NONEOS_C,
    CHAN_C OR NONEOS_C,
    CHAN_C OR NONEOS_C,
    CHAN_C OR NONEOS_C,
    CHAN_C OR NONEOS_C,
    CHAN_C OR NONEOS_C,
    CHAN_C OR NONEOS_C,
    CHAN_C OR NONEOS_C,
    CHAN_C OR NONEOS_C,
    CHAN_C OR NONEOS_C,
    CHAN_C OR NONEOS_C,
    CHAN_C OR NONEOS_C,
    CHAN_C OR NONEOS_C,
    CHAN_C OR NONEOS_C,
    CHAN_C OR NONEOS_C,
    CHAN_C OR NONEOS_C,
    CHAN_C OR NONEOS_C,
    CHAN_C OR NONEOS_C,
    CHAN_C OR NONEOS_C,
    CHAN_C OR NONEOS_C,
    CHAN_C OR NONEOS_C,
    CHAN_C OR NONEOS_C,
    CHAN_C OR NONEOS_C,
    CHAN_C OR NONEOS_C,
    CHAN_C OR NONEOS_C,
    CHAN_C OR NONEOS_C,
    CHAN_C OR NONEOS_C,
    CHAN_C OR NONEOS_C,
    CHAN_C OR NONEOS_C,
    CHAN_C OR NONEOS_C,
    CHAN_C OR NONEOS_C,
    CHAN_C OR NONEOS_C,
    CHAN_C OR NONEOS_C]"

definition char_attrs :: "char \<Rightarrow> 32 word" where
  "char_attrs c = CharAttrs ! of_char c"

definition IsHostChar :: "char \<Rightarrow> bool" where
  "IsHostChar c \<longleftrightarrow> char_attrs c AND HOST_C \<noteq> 0"

definition IsUserChar :: "char \<Rightarrow> bool" where
  "IsUserChar c \<longleftrightarrow> char_attrs c AND USER_C \<noteq> 0"

definition IsChanPrefix :: "char \<Rightarrow> bool" where
  "IsChanPrefix c \<longleftrightarrow> char_attrs c AND CHANPFX_C \<noteq> 0"

definition IsChanChar :: "char \<Rightarrow> bool" where
  "IsChanChar c \<longleftrightarrow> char_attrs c AND CHAN_C \<noteq> 0"

definition IsFakeChanChar :: "char \<Rightarrow> bool" where
  "IsFakeChanChar c \<longleftrightarrow> char_attrs c AND FCHAN_C \<noteq> 0"

definition IsKWildChar :: "char \<Rightarrow> bool" where
  "IsKWildChar c \<longleftrightarrow> char_attrs c AND KWILD_C \<noteq> 0"

definition IsMWildChar :: "char \<Rightarrow> bool" where
  "IsMWildChar c \<longleftrightarrow> char_attrs c AND MWILD_C \<noteq> 0"

definition IsNickChar :: "char \<Rightarrow> bool" where
  "IsNickChar c \<longleftrightarrow> char_attrs c AND NICK_C \<noteq> 0"

definition IsServChar :: "char \<Rightarrow> bool" where
  "IsServChar c \<longleftrightarrow> char_attrs c AND (NICK_C OR SERV_C) \<noteq> 0"

definition IsIdChar :: "char \<Rightarrow> bool" where
  "IsIdChar c \<longleftrightarrow> char_attrs c AND (DIGIT_C OR LET_C) \<noteq> 0"

definition IsLetter :: "char \<Rightarrow> bool" where
  "IsLetter c \<longleftrightarrow> char_attrs c AND LET_C \<noteq> 0"

definition IsCntrl :: "char \<Rightarrow> bool" where
  "IsCntrl c \<longleftrightarrow> char_attrs c AND CNTRL_C \<noteq> 0"

definition IsAlpha :: "char \<Rightarrow> bool" where
  "IsAlpha c \<longleftrightarrow> char_attrs c AND ALPHA_C \<noteq> 0"

definition IsSpace :: "char \<Rightarrow> bool" where
  "IsSpace c \<longleftrightarrow> char_attrs c AND SPACE_C \<noteq> 0"

definition IsDigit :: "char \<Rightarrow> bool" where
  "IsDigit c \<longleftrightarrow> char_attrs c AND DIGIT_C \<noteq> 0"

definition IsAlNum :: "char \<Rightarrow> bool" where
  "IsAlNum c \<longleftrightarrow> char_attrs c AND (DIGIT_C OR ALPHA_C) \<noteq> 0"

definition IsPrint :: "char \<Rightarrow> bool" where
  "IsPrint c \<longleftrightarrow> char_attrs c AND PRINT_C \<noteq> 0"

definition IsNonEOS :: "char \<Rightarrow> bool" where
  "IsNonEOS c \<longleftrightarrow> char_attrs c AND NONEOS_C \<noteq> 0"

definition IsEol :: "char \<Rightarrow> bool" where
  "IsEol c \<longleftrightarrow> char_attrs c AND EOL_C \<noteq> 0"

section \<open>Closed forms of the tables\<close>

abbreviation code :: "char \<Rightarrow> nat" where
  "code c \<equiv> of_char c"

lemma ToLowerTab_eq: "ToLowerTab = map (\<lambda>n. if 65 \<le> n \<and> n \<le> 90 then n + 32 else n) [0..<256]"
  by code_simp

lemma ToUpperTab_eq: "ToUpperTab = map (\<lambda>n. if 97 \<le> n \<and> n \<le> 122 then n - 32 else n) [0..<256]"
  by code_simp

lemma code_ToLower:
  "code (ToLower c) = (if 65 \<le> code c \<and> code c \<le> 90 then code c + 32 else code c)"
  unfolding ToLower_def ToLowerTab_eq by simp

lemma code_ToUpper:
  "code (ToUpper c) = (if 97 \<le> code c \<and> code c \<le> 122 then code c - 32 else code c)"
proof -
  have "(n - 32) mod 256 = n - 32" if "n \<le> 122" for n :: nat
    using that by (intro mod_less) simp
  then show ?thesis by (auto simp: ToUpper_def ToUpperTab_eq)
qed

lemma char_eq_code: "c = d \<longleftrightarrow> code c = code d"
  by simp

lemma ToUpper_ToLower [simp]: "ToUpper (ToLower c) = ToUpper c"
  unfolding char_eq_code code_ToUpper code_ToLower by simp

lemma ToLower_ToUpper [simp]: "ToLower (ToUpper c) = ToLower c"
  unfolding char_eq_code code_ToUpper code_ToLower by auto

text \<open>The same on the bits of a character, for evaluation.\<close>

lemma ToLower_Char [code]:
  "ToLower (Char b0 b1 b2 b3 b4 b5 b6 b7) =
     Char b0 b1 b2 b3 b4
       (b5 \<or> b6 \<and> \<not> b7 \<and> (b0 \<or> b1 \<or> b2 \<or> b3 \<or> b4) \<and> \<not> (b4 \<and> b3 \<and> (b2 \<or> b1 \<and> b0)))
       b6 b7"
  unfolding char_eq_code code_ToLower
  by (cases b0; cases b1; cases b2; cases b3; cases b4; cases b5; cases b6; cases b7; simp)

lemma ToUpper_Char [code]:
  "ToUpper (Char b0 b1 b2 b3 b4 b5 b6 b7) =
     Char b0 b1 b2 b3 b4
       (b5 \<and> \<not> (b6 \<and> \<not> b7 \<and> (b0 \<or> b1 \<or> b2 \<or> b3 \<or> b4) \<and> \<not> (b4 \<and> b3 \<and> (b2 \<or> b1 \<and> b0))))
       b6 b7"
  unfolding char_eq_code code_ToUpper
  by (cases b0; cases b1; cases b2; cases b3; cases b4; cases b5; cases b6; cases b7; simp)

lemma ToUpper_eq_iff_ToLower_eq: "ToUpper c = ToUpper d \<longleftrightarrow> ToLower c = ToLower d"
  by (metis ToUpper_ToLower ToLower_ToUpper)

lemma ToLower_ToLower [simp]: "ToLower (ToLower c) = ToLower c"
  unfolding char_eq_code code_ToLower by simp

lemma ToUpper_ToUpper [simp]: "ToUpper (ToUpper c) = ToUpper c"
  unfolding char_eq_code code_ToUpper by auto

lemma code_NUL [simp]: "code NUL = 0"
  by (simp add: NUL_def)

lemma ToUpper_eq_NUL [simp]: "ToUpper c = NUL \<longleftrightarrow> c = NUL"
  unfolding char_eq_code code_ToUpper by simp

lemma ToLower_eq_NUL [simp]: "ToLower c = NUL \<longleftrightarrow> c = NUL"
  unfolding char_eq_code code_ToLower by simp

text \<open>The flags of each entry added up, which is what the kernel evaluates with.\<close>

lemma CharAttrs_num [code]:
  "CharAttrs = [
    2, 4226, 135298, 135298, 4226, 4226, 4226, 4098, 4226, 4258, 20642, 4258, 4258, 20642,
    4226, 4226, 4226, 4226, 4226, 4226, 4226, 4226, 135298, 4226, 4226, 4226, 4226, 4226,
    4226, 4226, 4226, 135298, 33, 4481, 4225, 37505, 5249, 4225, 4737, 4225, 4225, 4225,
    45441, 4225, 4097, 7361, 15745, 4481, 7377, 7377, 7377, 7377, 7377, 7377, 7377, 7377,
    7377, 7377, 6273, 4225, 4225, 4225, 4225, 37249, 37249, 72901, 72901, 72901, 72901,
    72901, 72901, 72901, 72901, 72901, 72901, 72901, 72901, 72901, 72901, 72901, 72901,
    72901, 72901, 72901, 72901, 72901, 72901, 72901, 72901, 72901, 72901, 5317, 5317, 5317,
    5317, 5313, 5313, 72901, 72901, 72901, 72901, 72901, 72901, 72901, 72901, 72901, 72901,
    72901, 72901, 72901, 72901, 72901, 72901, 72901, 72901, 72901, 72901, 72901, 72901,
    72901, 72901, 72901, 72901, 5317, 5317, 5317, 5253, 4224, 4224, 4224, 4224, 4224, 4224,
    4224, 4224, 4224, 4224, 4224, 4224, 4224, 4224, 4224, 4224, 4224, 4224, 4224, 4224,
    4224, 4224, 4224, 4224, 4224, 4224, 4224, 4224, 4224, 4224, 4224, 4224, 4224, 135296,
    4224, 4224, 4224, 4224, 4224, 4224, 4224, 4224, 4224, 4224, 4224, 4224, 4224, 4224,
    4224, 4224, 4224, 4224, 4224, 4224, 4224, 4224, 4224, 4224, 4224, 4224, 4224, 4224,
    4224, 4224, 4224, 4224, 4224, 4224, 4224, 4224, 4224, 4224, 4224, 4224, 4224, 4224,
    4224, 4224, 4224, 4224, 4224, 4224, 4224, 4224, 4224, 4224, 4224, 4224, 4224, 4224,
    4224, 4224, 4224, 4224, 4224, 4224, 4224, 4224, 4224, 4224, 4224, 4224, 4224, 4224,
    4224, 4224, 4224, 4224, 4224, 4224, 4224, 4224, 4224, 4224, 4224, 4224, 4224, 4224,
    4224, 4224, 4224, 4224, 4224, 4224, 4224, 4224, 4224, 4224, 4224]"
  by (simp add: CharAttrs_def char_flag_defs)

lemma ToUpper_NUL [simp]: "ToUpper NUL = NUL" and ToLower_NUL [simp]: "ToLower NUL = NUL"
  by simp_all

lemma length_CharAttrs: "length CharAttrs = 256"
  by (simp add: CharAttrs_def)

text \<open>A class is known for every character once it is known along the table.\<close>

lemma CharAttrs_classI:
  assumes "map f CharAttrs = map g [0..<256]"
  shows "f (char_attrs c) = g (code c)"
proof -
  have "f (char_attrs c) = map f CharAttrs ! code c"
    by (simp add: char_attrs_def length_CharAttrs)
  then show ?thesis by (simp add: assms)
qed
lemma IsNickChar_iff:
  "IsNickChar c \<longleftrightarrow>
   code c = 45 \<or> 48 \<le> code c \<and> code c \<le> 57 \<or> 65 \<le> code c \<and> code c \<le> 125"
  unfolding IsNickChar_def by (rule CharAttrs_classI [where f = "\<lambda>w. w AND NICK_C \<noteq> 0"]) code_simp

lemma IsHostChar_iff:
  "IsHostChar c \<longleftrightarrow>
   code c = 45 \<or> code c = 46 \<or> 48 \<le> code c \<and> code c \<le> 58 \<or> 65 \<le> code c \<and> code c \<le> 90 \<or>
   97 \<le> code c \<and> code c \<le> 122"
  unfolding IsHostChar_def by (rule CharAttrs_classI [where f = "\<lambda>w. w AND HOST_C \<noteq> 0"]) code_simp

lemma IsUserChar_iff:
  "IsUserChar c \<longleftrightarrow>
   code c = 36 \<or> code c = 45 \<or> code c = 46 \<or> 48 \<le> code c \<and> code c \<le> 57 \<or> 65 \<le> code c \<and> code c \<le> 126"
  unfolding IsUserChar_def by (rule CharAttrs_classI [where f = "\<lambda>w. w AND USER_C \<noteq> 0"]) code_simp

lemma IsChanPrefix_iff:
  "IsChanPrefix c \<longleftrightarrow>
   code c = 35 \<or> code c = 38"
  unfolding IsChanPrefix_def by (rule CharAttrs_classI [where f = "\<lambda>w. w AND CHANPFX_C \<noteq> 0"]) code_simp

lemma IsChanChar_iff:
  "IsChanChar c \<longleftrightarrow>
   code c \<noteq> 0 \<and> code c \<noteq> 7 \<and> code c \<noteq> 32 \<and> code c \<noteq> 44"
  unfolding IsChanChar_def by (rule CharAttrs_classI [where f = "\<lambda>w. w AND CHAN_C \<noteq> 0"]) code_simp

lemma IsServChar_iff:
  "IsServChar c \<longleftrightarrow>
   code c = 42 \<or> code c = 45 \<or> code c = 46 \<or> 48 \<le> code c \<and> code c \<le> 57 \<or>
   65 \<le> code c \<and> code c \<le> 125"
  unfolding IsServChar_def by (rule CharAttrs_classI [where f = "\<lambda>w. w AND (NICK_C OR SERV_C) \<noteq> 0"]) code_simp

lemma IsDigit_iff:
  "IsDigit c \<longleftrightarrow>
   48 \<le> code c \<and> code c \<le> 57"
  unfolding IsDigit_def by (rule CharAttrs_classI [where f = "\<lambda>w. w AND DIGIT_C \<noteq> 0"]) code_simp

lemma IsLetter_iff:
  "IsLetter c \<longleftrightarrow>
   65 \<le> code c \<and> code c \<le> 90 \<or> 97 \<le> code c \<and> code c \<le> 122"
  unfolding IsLetter_def by (rule CharAttrs_classI [where f = "\<lambda>w. w AND LET_C \<noteq> 0"]) code_simp

lemma IsAlNum_iff:
  "IsAlNum c \<longleftrightarrow>
   48 \<le> code c \<and> code c \<le> 57 \<or> 65 \<le> code c \<and> code c \<le> 94 \<or> 97 \<le> code c \<and> code c \<le> 126"
  unfolding IsAlNum_def by (rule CharAttrs_classI [where f = "\<lambda>w. w AND (DIGIT_C OR ALPHA_C) \<noteq> 0"]) code_simp

lemma IsIdChar_iff:
  "IsIdChar c \<longleftrightarrow>
   48 \<le> code c \<and> code c \<le> 57 \<or> 65 \<le> code c \<and> code c \<le> 90 \<or> 97 \<le> code c \<and> code c \<le> 122"
  unfolding IsIdChar_def by (rule CharAttrs_classI [where f = "\<lambda>w. w AND (DIGIT_C OR LET_C) \<noteq> 0"]) code_simp

lemma IsSpace_iff:
  "IsSpace c \<longleftrightarrow>
   9 \<le> code c \<and> code c \<le> 13 \<or> code c = 32"
  unfolding IsSpace_def by (rule CharAttrs_classI [where f = "\<lambda>w. w AND SPACE_C \<noteq> 0"]) code_simp

lemma IsEol_iff:
  "IsEol c \<longleftrightarrow>
   code c = 10 \<or> code c = 13"
  unfolding IsEol_def by (rule CharAttrs_classI [where f = "\<lambda>w. w AND EOL_C \<noteq> 0"]) code_simp

lemma IsNonEOS_iff:
  "IsNonEOS c \<longleftrightarrow>
   code c \<noteq> 0 \<and> code c \<noteq> 32"
  unfolding IsNonEOS_def by (rule CharAttrs_classI [where f = "\<lambda>w. w AND NONEOS_C \<noteq> 0"]) code_simp

lemma IsKWildChar_iff:
  "IsKWildChar c \<longleftrightarrow>
   code c = 33 \<or> code c = 42 \<or> code c = 46 \<or> code c = 47 \<or> code c = 63 \<or> code c = 64"
  unfolding IsKWildChar_def by (rule CharAttrs_classI [where f = "\<lambda>w. w AND KWILD_C \<noteq> 0"]) code_simp

lemma IsMWildChar_iff:
  "IsMWildChar c \<longleftrightarrow>
   code c = 35 \<or> code c = 42 \<or> code c = 63 \<or> code c = 64"
  unfolding IsMWildChar_def by (rule CharAttrs_classI [where f = "\<lambda>w. w AND MWILD_C \<noteq> 0"]) code_simp

lemma IsFakeChanChar_iff:
  "IsFakeChanChar c \<longleftrightarrow>
   code c = 2 \<or> code c = 3 \<or> code c = 22 \<or> code c = 31 \<or> code c = 160"
  unfolding IsFakeChanChar_def by (rule CharAttrs_classI [where f = "\<lambda>w. w AND FCHAN_C \<noteq> 0"]) code_simp

lemmas char_class_iffs =
  IsNickChar_iff IsHostChar_iff IsUserChar_iff IsChanPrefix_iff IsChanChar_iff IsServChar_iff IsDigit_iff IsLetter_iff
  IsAlNum_iff IsIdChar_iff IsSpace_iff IsEol_iff IsNonEOS_iff IsKWildChar_iff IsMWildChar_iff IsFakeChanChar_iff

end
