(* ===== verification/Glob.thy ===== *)
theory Glob
  imports Char_Tables
begin

text \<open>
  Wildcard matching, \<^verbatim>\<open>match()\<close> and \<^verbatim>\<open>match_esc()\<close> of \<^verbatim>\<open>libratboxcore/match.c\<close>.

  The four roaming pointers of the C function are the indices of the record \<open>match_state\<close>,
  and one turn of its \<^verbatim>\<open>while\<close> loop is \<open>match_step\<close>.  Reads go through \<^const>\<open>rd\<close>, so that
  \<^term>\<open>None\<close> is a read outside the mask or the name.  The specification is the declarative
  \<open>glob\<close>; the theorems relate the bounded backtracking loop to it.
\<close>

section \<open>The matcher as it is written\<close>

definition MATCH_MAX_CALLS :: nat where
  "MATCH_MAX_CALLS = 512"

record match_state =
  mpos :: nat
  npos :: nat
  mback :: nat
  nback :: nat
  wild :: bool

definition match_init :: match_state where
  "match_init = \<lparr>mpos = 0, npos = 0, mback = 0, nback = 0, wild = False\<rparr>"

text \<open>\<^verbatim>\<open>while (*m == '*') m++;\<close>\<close>

definition skip_stars :: "string \<Rightarrow> nat \<Rightarrow> nat" where
  "skip_stars pat i = i + length (takeWhile (\<lambda>c. c = CHR ''*'') (drop i pat))"

text \<open>\<^verbatim>\<open>for (; (m > mask) && (*m == '?'); m--);\<close>\<close>

fun back_quests :: "string \<Rightarrow> nat \<Rightarrow> nat" where
  "back_quests pat 0 = 0"
| "back_quests pat (Suc i) = (if pat ! Suc i = CHR ''?'' then back_quests pat i else Suc i)"

text \<open>\<^verbatim>\<open>m = ma; n = ++na;\<close>\<close>

definition match_retry :: "match_state \<Rightarrow> match_state" where
  "match_retry s = s\<lparr>mpos := mback s, npos := Suc (nback s), nback := Suc (nback s)\<rparr>"

definition match_compare :: "string \<Rightarrow> string \<Rightarrow> match_state \<Rightarrow> (bool + match_state) option" where
  "match_compare pat name s = do {
     cm \<leftarrow> rd pat (mpos s);
     cn \<leftarrow> rd name (npos s);
     if ToLower cm \<noteq> ToLower cn \<and> cm \<noteq> CHR ''?'' then
       (if \<not> wild s then Some (Inl False) else Some (Inr (match_retry s)))
     else Some (Inr (s\<lparr>mpos := (if cm \<noteq> NUL then Suc (mpos s) else mpos s),
                       npos := (if cn \<noteq> NUL then Suc (npos s) else npos s)\<rparr>))
   }"

definition match_star :: "string \<Rightarrow> match_state \<Rightarrow> match_state" where
  "match_star pat s =
     (let i = skip_stars pat (mpos s)
      in s\<lparr>mpos := i, wild := True, mback := i, nback := npos s\<rparr>)"

definition match_step :: "string \<Rightarrow> string \<Rightarrow> match_state \<Rightarrow> (bool + match_state) option" where
  "match_step pat name s0 = do {
     c \<leftarrow> rd pat (mpos s0);
     let s = (if c = CHR ''*'' then match_star pat s0 else s0);
     cm \<leftarrow> rd pat (mpos s);
     cn \<leftarrow> rd name (npos s);
     if cm = NUL then
       (if cn = NUL then Some (Inl True)
        else if mpos s = 0 then None
        else (let i = back_quests pat (mpos s - 1) in
          if pat ! i = CHR ''*'' \<and> 0 < i then Some (Inl True)
          else if \<not> wild s then Some (Inl False)
          else match_compare pat name (match_retry s)))
     else if cn = NUL then Some (Inl (rd pat (skip_stars pat (mpos s)) = Some NUL))
     else match_compare pat name s
   }"

fun match_loop :: "nat \<Rightarrow> string \<Rightarrow> string \<Rightarrow> match_state \<Rightarrow> bool option" where
  "match_loop 0 pat name s = Some False"
| "match_loop (Suc calls) pat name s =
     (case match_step pat name s of
        None \<Rightarrow> None
      | Some (Inl b) \<Rightarrow> Some b
      | Some (Inr s') \<Rightarrow> match_loop calls pat name s')"

definition match :: "string \<Rightarrow> string \<Rightarrow> bool option" where
  "match pat name =
     (if pat = ''*'' then Some True
      else match_loop MATCH_MAX_CALLS pat name match_init)"

section \<open>Specification\<close>

text \<open>
  A mask is a pattern: \<^verbatim>\<open>*\<close> stands for any string, \<^verbatim>\<open>?\<close> for any one character and every other
  character for itself up to case.
\<close>

definition glob_char :: "char \<Rightarrow> char \<Rightarrow> bool" where
  "glob_char c d \<longleftrightarrow> c = CHR ''?'' \<or> ToLower c = ToLower d"

fun glob :: "string \<Rightarrow> string \<Rightarrow> bool" where
  "glob [] ys = (ys = [])"
| "glob (c # cs) ys =
     (if c = CHR ''*'' then glob cs ys \<or> (case ys of [] \<Rightarrow> False | y # ys' \<Rightarrow> glob (c # cs) ys')
      else (case ys of [] \<Rightarrow> False | y # ys' \<Rightarrow> glob_char c y \<and> glob cs ys'))"

abbreviation star :: char where
  "star \<equiv> CHR ''*''"

subsection \<open>Facts on patterns\<close>

lemma glob_star: "glob (star # p) ys \<longleftrightarrow> (\<exists>k \<le> length ys. glob p (drop k ys))"
proof (induction ys)
  case Nil
  then show ?case by simp
next
  case (Cons y ys)
  have "(\<exists>k \<le> length (y # ys). glob p (drop k (y # ys))) \<longleftrightarrow>
        glob p (y # ys) \<or> (\<exists>k \<le> length ys. glob p (drop k ys))" (is "?l \<longleftrightarrow> ?r")
  proof
    assume ?l
    then obtain k where k: "k \<le> length (y # ys)" "glob p (drop k (y # ys))" by blast
    then show ?r by (cases k) auto
  next
    assume ?r
    then show ?l
      by (metis Suc_le_mono drop0 drop_Suc_Cons le0 length_Cons)
  qed
  with Cons show ?case by simp
qed

lemma glob_star_star: "glob (star # star # p) ys = glob (star # p) ys"
proof
  assume "glob (star # star # p) ys"
  then obtain k j where "k \<le> length ys" "j \<le> length (drop k ys)" "glob p (drop j (drop k ys))"
    unfolding glob_star by blast
  then have "k + j \<le> length ys" "glob p (drop (k + j) ys)"
    by (auto simp: add.commute)
  then show "glob (star # p) ys" unfolding glob_star by blast
qed simp

lemma glob_star_drop: "glob (star # p) (drop k ys) \<Longrightarrow> glob (star # p) ys"
  unfolding glob_star
  by (metis drop_all drop_drop le_add_diff_inverse2 length_drop nat_le_linear add_le_imp_le_diff
      diff_le_self drop_eq_Nil order_trans le_diff_conv add.commute)

text \<open>A pattern without stars matches strings of its own length only, position by position.\<close>

lemma glob_nostar:
  "star \<notin> set p \<Longrightarrow> glob p ys \<longleftrightarrow> length ys = length p \<and> list_all2 glob_char p ys"
proof (induction p arbitrary: ys)
  case (Cons c p)
  then show ?case by (cases ys) auto
qed auto

lemma glob_append_nostar:
  "star \<notin> set p \<Longrightarrow>
   glob (p @ q) ys \<longleftrightarrow> length p \<le> length ys \<and> list_all2 glob_char p (take (length p) ys) \<and>
     glob q (drop (length p) ys)"
proof (induction p arbitrary: ys)
  case (Cons c p)
  then show ?case by (cases ys) auto
qed auto

lemma glob_min_length: "glob p ys \<Longrightarrow> length (filter (\<lambda>c. c \<noteq> star) p) \<le> length ys"
proof (induction p ys rule: glob.induct)
  case (2 c cs ys)
  then show ?case by (cases ys) (auto split: if_splits)
qed simp

text \<open>
  Backtracking only ever needs the last star: once the segment before a star has matched, an
  earlier alignment of it can replace a later one.
\<close>

lemma glob_last_star:
  assumes "star \<notin> set seg" and "list_all2 glob_char seg (take (length seg) ys)"
    and "length seg \<le> length ys"
  shows "glob (star # seg @ star # p) ys \<longleftrightarrow> glob (star # p) (drop (length seg) ys)"
proof
  assume "glob (star # seg @ star # p) ys"
  then obtain k where "glob (star # p) (drop (length seg) (drop k ys))"
    unfolding glob_star [of "seg @ star # p"] by (auto simp: glob_append_nostar [OF assms(1)])
  then have "glob (star # p) (drop k (drop (length seg) ys))"
    by (simp add: add.commute)
  then show "glob (star # p) (drop (length seg) ys)" by (rule glob_star_drop)
next
  assume "glob (star # p) (drop (length seg) ys)"
  then have "glob (seg @ star # p) (drop 0 ys)"
    using assms by (simp add: glob_append_nostar)
  then show "glob (star # seg @ star # p) ys" unfolding glob_star by blast
qed

lemma glob_star_advance:
  "\<not> glob p ys \<Longrightarrow> glob (star # p) ys \<longleftrightarrow> ys \<noteq> [] \<and> glob (star # p) (tl ys)"
  by (cases ys) auto

section \<open>The loop invariant\<close>

text \<open>The part of the mask matched since the last star.\<close>

definition match_seg :: "string \<Rightarrow> match_state \<Rightarrow> string" where
  "match_seg pat s = take (mpos s - mback s) (drop (mback s) pat)"

definition match_inv :: "string \<Rightarrow> string \<Rightarrow> match_state \<Rightarrow> bool" where
  "match_inv pat name s \<longleftrightarrow>
     mpos s \<le> length pat \<and> npos s \<le> length name \<and> nback s \<le> npos s \<and>
     (if wild s then
        0 < mback s \<and> pat ! (mback s - 1) = star \<and> mback s \<le> mpos s \<and>
        mpos s + nback s = npos s + mback s \<and>
        star \<notin> set (match_seg pat s) \<and>
        list_all2 glob_char (match_seg pat s) (take (npos s - nback s) (drop (nback s) name)) \<and>
        (glob pat name \<longleftrightarrow> glob (star # drop (mback s) pat) (drop (nback s) name))
      else
        nback s = 0 \<and> npos s = mpos s \<and> star \<notin> set (take (mpos s) pat) \<and>
        (glob pat name \<longleftrightarrow> glob (drop (mpos s) pat) (drop (npos s) name)))"

definition match_measure :: "string \<Rightarrow> string \<Rightarrow> match_state \<Rightarrow> nat" where
  "match_measure pat name s =
     (length name - nback s) * (length pat + 2) - (npos s - nback s)"

lemma match_inv_init: "match_inv pat name match_init"
  by (simp add: match_inv_def match_init_def)

lemma match_inv_wildD:
  assumes "match_inv pat name s" and "wild s"
  shows "0 < mback s" "pat ! (mback s - 1) = star" "mback s \<le> mpos s" "nback s \<le> npos s"
    "length (match_seg pat s) = npos s - nback s" "star \<notin> set (match_seg pat s)"
    "list_all2 glob_char (match_seg pat s) (take (npos s - nback s) (drop (nback s) name))"
    "drop (mback s) pat = match_seg pat s @ drop (mpos s) pat"
    "glob pat name \<longleftrightarrow> glob (star # drop (mback s) pat) (drop (nback s) name)"
proof -
  have "mpos s - mback s = npos s - nback s"
    using assms by (auto simp: match_inv_def)
  with assms show "length (match_seg pat s) = npos s - nback s"
    by (auto simp: match_inv_def match_seg_def)
  show "drop (mback s) pat = match_seg pat s @ drop (mpos s) pat"
    using assms unfolding match_seg_def match_inv_def
    by (metis append_take_drop_id drop_drop le_add_diff_inverse2)
qed (use assms in \<open>auto simp: match_inv_def\<close>)

lemma skip_stars_le: "i \<le> length pat \<Longrightarrow> skip_stars pat i \<le> length pat"
  unfolding skip_stars_def
  by (metis add.commute le_diff_conv2 length_drop length_takeWhile_le)

lemma skip_stars_Suc:
  "i < length pat \<Longrightarrow> pat ! i = star \<Longrightarrow> skip_stars pat i = skip_stars pat (Suc i)"
  by (simp add: skip_stars_def drop_eq_nth_Cons)

lemma skip_stars_id: "i < length pat \<Longrightarrow> pat ! i \<noteq> star \<Longrightarrow> skip_stars pat i = i"
  by (simp add: skip_stars_def drop_eq_nth_Cons)

lemma skip_stars_nth: "skip_stars pat i < length pat \<Longrightarrow> pat ! skip_stars pat i \<noteq> star"
  unfolding skip_stars_def
  by (metis (mono_tags, lifting) add_diff_cancel_left' diff_less_mono le_add1 length_drop
      nth_drop nth_length_takeWhile order_trans less_imp_le)

lemma glob_skip_stars:
  assumes "i < length pat" and "pat ! i = star"
  shows "glob (drop i pat) ys \<longleftrightarrow> glob (star # drop (skip_stars pat i) pat) ys"
  using assms
proof (induction "length pat - i" arbitrary: i)
  case (Suc d)
  have eq: "drop i pat = star # drop (Suc i) pat"
    using Suc.prems by (simp add: drop_eq_nth_Cons)
  show ?case
  proof (cases "Suc i < length pat \<and> pat ! Suc i = star")
    case True
    then have "drop (Suc i) pat = star # drop (Suc (Suc i)) pat"
      by (simp add: drop_eq_nth_Cons)
    then have "glob (drop i pat) ys = glob (drop (Suc i) pat) ys"
      using eq glob_star_star by simp
    moreover have "glob (drop (Suc i) pat) ys = glob (star # drop (skip_stars pat (Suc i)) pat) ys"
      using True Suc.hyps(2) by (intro Suc.hyps(1)) auto
    ultimately show ?thesis using Suc.prems skip_stars_Suc by simp
  next
    case False
    then have "skip_stars pat (Suc i) = Suc i"
      by (cases "Suc i < length pat") (auto simp: skip_stars_id, simp add: skip_stars_def)
    with eq Suc.prems skip_stars_Suc show ?thesis by simp
  qed
qed simp

lemma skip_stars_prev:
  assumes "i < length pat" and "pat ! i = star"
  shows "0 < skip_stars pat i \<and> pat ! (skip_stars pat i - 1) = star"
  using assms
proof (induction "length pat - i" arbitrary: i)
  case (Suc d)
  show ?case
  proof (cases "Suc i < length pat \<and> pat ! Suc i = star")
    case True
    with Suc.hyps(2) have "0 < skip_stars pat (Suc i) \<and> pat ! (skip_stars pat (Suc i) - 1) = star"
      by (intro Suc.hyps(1)) auto
    with Suc.prems skip_stars_Suc show ?thesis by simp
  next
    case False
    then have "skip_stars pat (Suc i) = Suc i"
      by (cases "Suc i < length pat") (auto simp: skip_stars_id, simp add: skip_stars_def)
    with Suc.prems skip_stars_Suc show ?thesis by simp
  qed
qed simp

text \<open>At a star everything before it can be forgotten.\<close>

lemma match_inv_here:
  assumes inv: "match_inv pat name s" and "mpos s < length pat" and "pat ! mpos s = star"
  shows "glob pat name \<longleftrightarrow> glob (drop (mpos s) pat) (drop (npos s) name)"
proof (cases "wild s")
  case True
  note w = match_inv_wildD [OF inv True]
  have eq: "drop (mpos s) pat = star # drop (Suc (mpos s)) pat"
    using assms by (simp add: drop_eq_nth_Cons)
  have "length (match_seg pat s) \<le> length (drop (nback s) name)"
    using inv w(5) by (auto simp: match_inv_def)
  then have "glob (star # match_seg pat s @ star # drop (Suc (mpos s)) pat) (drop (nback s) name) =
      glob (star # drop (Suc (mpos s)) pat) (drop (length (match_seg pat s)) (drop (nback s) name))"
    using w(5,6,7) by (intro glob_last_star) simp_all
  moreover have "drop (length (match_seg pat s)) (drop (nback s) name) = drop (npos s) name"
    using w(4,5) by simp
  ultimately show ?thesis
    by (simp only: w(9) w(8) eq)
next
  case False
  with inv show ?thesis by (simp add: match_inv_def)
qed

lemma match_inv_star:
  assumes inv: "match_inv pat name s" and m: "mpos s < length pat" "pat ! mpos s = star"
  shows "match_inv pat name (match_star pat s)"
proof -
  have "glob pat name = glob (star # drop (skip_stars pat (mpos s)) pat) (drop (npos s) name)"
    using match_inv_here [OF assms] glob_skip_stars [OF m] by simp
  with inv m skip_stars_prev [OF m] skip_stars_le [of "mpos s" pat] show ?thesis
    by (simp add: match_inv_def match_star_def match_seg_def Let_def)
qed

lemma match_inv_retry:
  assumes inv: "match_inv pat name s" and "wild s" and "nback s < length name"
    and "\<not> glob (drop (mback s) pat) (drop (nback s) name)"
  shows "match_inv pat name (match_retry s)"
  using assms glob_star_advance [of "drop (mback s) pat" "drop (nback s) name"]
  by (auto simp: match_inv_def match_retry_def match_seg_def drop_Suc_tl tl_drop drop_Suc)
text \<open>A mismatch under the cursors rules out the alignment they stand for.\<close>

lemma match_inv_mismatch:
  assumes inv: "match_inv pat name s" and "wild s"
    and m: "mpos s < length pat" "pat ! mpos s \<noteq> star"
    and n: "npos s < length name" and mis: "\<not> glob_char (pat ! mpos s) (name ! npos s)"
  shows "\<not> glob (drop (mback s) pat) (drop (nback s) name)"
proof
  note w = match_inv_wildD [OF inv \<open>wild s\<close>]
  assume "glob (drop (mback s) pat) (drop (nback s) name)"
  then have "glob (drop (mpos s) pat) (drop (length (match_seg pat s)) (drop (nback s) name))"
    using w(6,8) glob_append_nostar by metis
  then have "glob (drop (mpos s) pat) (drop (npos s) name)"
    using w(4,5) by simp
  with m n mis show False by (simp add: drop_eq_nth_Cons)
qed

lemma match_measure_retry:
  assumes "match_inv pat name s" and "wild s" and "nback s < length name"
  shows "match_measure pat name (match_retry s) < match_measure pat name s"
proof -
  define d where "d = length name - Suc (nback s)"
  have d: "length name - nback s = Suc d"
    using assms(3) by (simp add: d_def)
  have "npos s - nback s \<le> length pat"
    using assms by (auto simp: match_inv_def)
  then show ?thesis
    by (simp add: match_measure_def match_retry_def d d_def [symmetric] diff_add_assoc2)
qed

lemma glob_char_iff_compare: "glob_char c d \<longleftrightarrow> \<not> (ToLower c \<noteq> ToLower d \<and> c \<noteq> CHR ''?'')"
  by (auto simp: glob_char_def)

lemma match_inv_advance:
  assumes inv: "match_inv pat name s"
    and m: "mpos s < length pat" "pat ! mpos s \<noteq> star"
    and n: "npos s < length name" and hit: "glob_char (pat ! mpos s) (name ! npos s)"
  shows "match_inv pat name (s\<lparr>mpos := Suc (mpos s), npos := Suc (npos s)\<rparr>)"
proof (cases "wild s")
  case True
  let ?s = "s\<lparr>mpos := Suc (mpos s), npos := Suc (npos s)\<rparr>"
  note w = match_inv_wildD [OF inv True]
  have len: "mpos s + nback s = npos s + mback s" using inv True by (simp add: match_inv_def)
  have seg: "match_seg pat ?s = match_seg pat s @ [pat ! mpos s]"
    using w(3) m by (simp add: match_seg_def Suc_diff_le take_Suc_conv_app_nth)
  have "take (Suc (npos s) - nback s) (drop (nback s) name) =
      take (npos s - nback s) (drop (nback s) name) @ [name ! npos s]"
    using w(4) n by (simp add: Suc_diff_le take_Suc_conv_app_nth)
  then have "list_all2 glob_char (match_seg pat ?s)
      (take (Suc (npos s) - nback s) (drop (nback s) name))"
    using w(7) hit by (simp only: seg) (simp add: list_all2_appendI)
  moreover have "star \<notin> set (match_seg pat ?s)" using seg w(6) m(2) by simp
  ultimately show ?thesis
    using w(1-4,9) m n True len by (simp add: match_inv_def)
next
  case False
  with inv m n hit show ?thesis
    by (auto simp: match_inv_def drop_eq_nth_Cons take_Suc_conv_app_nth)
qed

lemma match_measure_advance:
  assumes inv: "match_inv pat name s" and n: "npos s < length name"
  shows "match_measure pat name (s\<lparr>mpos := Suc (mpos s), npos := Suc (npos s)\<rparr>)
         < match_measure pat name s"
proof -
  have "nback s \<le> npos s" using inv by (simp add: match_inv_def)
  moreover have "npos s - nback s < (length name - nback s) * (length pat + 2)"
  proof -
    have "npos s - nback s < length name - nback s" using n \<open>nback s \<le> npos s\<close> by simp
    also have "\<dots> \<le> (length name - nback s) * (length pat + 2)" by simp
    finally show ?thesis .
  qed
  ultimately show ?thesis by (simp add: match_measure_def Suc_diff_le)
qed

text \<open>What one comparison achieves: a decision or progress.\<close>

definition match_outcome ::
  "string \<Rightarrow> string \<Rightarrow> nat \<Rightarrow> (bool + match_state) option \<Rightarrow> bool" where
  "match_outcome pat name bound r =
     (case r of
        None \<Rightarrow> False
      | Some (Inl b) \<Rightarrow> b = glob pat name
      | Some (Inr s) \<Rightarrow> match_inv pat name s \<and> match_measure pat name s < bound)"

lemma match_compare_outcome:
  assumes cs: "cstring pat" "cstring name" and inv: "match_inv pat name s"
    and m: "mpos s < length pat" "pat ! mpos s \<noteq> star" and n: "npos s < length name"
  shows "match_outcome pat name (match_measure pat name s) (match_compare pat name s)"
proof -
  have rds: "rd pat (mpos s) = Some (pat ! mpos s)" "rd name (npos s) = Some (name ! npos s)"
    and nz: "pat ! mpos s \<noteq> NUL" "name ! npos s \<noteq> NUL"
    using m n cs by (auto simp: cstr_simps dest: cstring_nth)
  have nb: "nback s < length name" using inv n by (simp add: match_inv_def)
  consider (hit) "glob_char (pat ! mpos s) (name ! npos s)"
    | (miss) "\<not> glob_char (pat ! mpos s) (name ! npos s)" "wild s"
    | (fail) "\<not> glob_char (pat ! mpos s) (name ! npos s)" "\<not> wild s" by blast
  then show ?thesis
  proof cases
    case hit
    then show ?thesis
      using rds nz match_inv_advance [OF inv m n] match_measure_advance [OF inv n]
      by (auto simp: match_compare_def match_outcome_def glob_char_iff_compare)
  next
    case miss
    then show ?thesis
      using rds match_inv_retry [OF inv _ nb] match_inv_mismatch [OF inv _ m n]
        match_measure_retry [OF inv _ nb]
      by (simp add: match_compare_def match_outcome_def glob_char_iff_compare)
  next
    case fail
    then have "\<not> glob pat name"
      using inv m n by (simp add: match_inv_def drop_eq_nth_Cons)
    with fail rds show ?thesis
      by (simp add: match_compare_def match_outcome_def glob_char_iff_compare)
  qed
qed

lemma back_quests_le: "back_quests pat i \<le> i"
  by (induction i) auto

lemma back_quests_quests:
  "back_quests pat i < j \<Longrightarrow> j \<le> i \<Longrightarrow> pat ! j = CHR ''?''"
proof (induction i)
  case (Suc i)
  then show ?case by (cases "j = Suc i") (auto split: if_splits)
qed simp

lemma glob_star_quests:
  assumes "\<forall>c \<in> set q. c = CHR ''?''" and "length q \<le> length ys"
  shows "glob (star # q) ys"
proof -
  let ?k = "length ys - length q"
  have "list_all2 glob_char q (drop ?k ys)"
    using assms by (auto simp: list_all2_conv_all_nth glob_char_def)
  moreover have "star \<notin> set q" using assms(1) by auto
  ultimately have "glob q (drop ?k ys)" using assms(2) by (simp add: glob_nostar)
  then show ?thesis unfolding glob_star by (meson diff_le_self)
qed

text \<open>The mask is used up and the name is not: decided, or the last star takes one more.\<close>

lemma match_step_mask_end:
  assumes cs: "cstring pat" "cstring name" and inv: "match_inv pat name s"
    and m: "mpos s = length pat" "pat \<noteq> []" "pat \<noteq> [star]" and n: "npos s < length name"
  shows "match_outcome pat name (match_measure pat name s)
     (let i = back_quests pat (mpos s - 1) in
        if pat ! i = star \<and> 0 < i then Some (Inl True)
        else if \<not> wild s then Some (Inl False)
        else match_compare pat name (match_retry s))"
proof (cases "wild s")
  case True
  note w = match_inv_wildD [OF inv True]
  let ?i = "back_quests pat (length pat - 1)"
  have seg: "drop (mback s) pat = match_seg pat s" using w(8) m(1) by simp
  have mb: "mback s \<le> length pat" using w(3) m(1) by simp
  have nostar: "pat ! j \<noteq> star" if "mback s \<le> j" "j < length pat" for j
    using w(6) that seg [symmetric] by (metis drop_eq_nth_Cons in_set_dropD list.set_intros(1)
        set_drop_subset_set_drop subsetD)
  show ?thesis
  proof (cases "pat ! ?i = star \<and> 0 < ?i")
    case hit: True
    have "?i < length pat" using m(2) back_quests_le [of pat "length pat - 1"]
      by (metis Suc_diff_1 le_imp_less_Suc length_greater_0_conv)
    have "\<not> mback s \<le> ?i" using nostar hit \<open>?i < length pat\<close> by blast
    moreover have "\<not> ?i < mback s - 1"
      using back_quests_quests [of pat "length pat - 1" "mback s - 1"] w(2) diff_le_mono [OF mb]
      by auto
    ultimately have i: "?i = mback s - 1" by simp
    have "\<forall>c \<in> set (match_seg pat s). c = CHR ''?''"
    proof
      fix c assume "c \<in> set (match_seg pat s)"
      then obtain j where "j < length (drop (mback s) pat)" "c = pat ! (mback s + j)"
        using seg by (metis in_set_conv_nth nth_drop mb)
      then show "c = CHR ''?''"
        using back_quests_quests [of pat "length pat - 1" "mback s + j"] i w(1) by auto
    qed
    moreover have "length (match_seg pat s) \<le> length (drop (nback s) name)"
      using w(5) n by simp
    ultimately have "glob pat name"
      unfolding w(9) seg by (rule glob_star_quests)
    with hit m(1) show ?thesis by (simp add: match_outcome_def)
  next
    case miss: False
    have lt: "mback s < length pat"
    proof (rule ccontr)
      assume "\<not> mback s < length pat"
      then have mbl: "mback s = length pat" using mb by simp
      have "?i = length pat - 1"
        using w(2) mbl by (cases "length pat - 1") auto
      then have "length pat - 1 = 0" using miss w(2) mbl by auto
      then show False using m(2,3) w(2) mbl by (cases pat) auto
    qed
    have "Suc (nback s) < length name"
      using w(4) lt m(1) n inv True by (auto simp: match_inv_def)
    then have nb: "nback s < length name" by simp
    have "\<not> glob (drop (mback s) pat) (drop (nback s) name)"
      unfolding seg using w(4,5,6) n by (auto simp: glob_nostar)
    then have "match_inv pat name (match_retry s)"
      by (rule match_inv_retry [OF inv True nb])
    then have "match_outcome pat name (match_measure pat name (match_retry s))
        (match_compare pat name (match_retry s))"
      using cs lt nostar \<open>Suc (nback s) < length name\<close>
      by (intro match_compare_outcome) (auto simp: match_retry_def)
    with miss m(1) True match_measure_retry [OF inv True nb] show ?thesis
      by (auto simp: match_outcome_def Let_def split: option.splits sum.splits)
  qed
next
  case False
  then have "star \<notin> set pat" and ng: "\<not> glob pat name"
    using inv m n by (auto simp: match_inv_def)
  then have "pat ! back_quests pat (length pat - 1) \<noteq> star"
    using m(2) back_quests_le [of pat "length pat - 1"]
    by (metis Suc_diff_1 le_imp_less_Suc length_greater_0_conv nth_mem)
  with False ng m(1) show ?thesis by (simp add: match_outcome_def)
qed

lemma match_measure_star:
  assumes "match_inv pat name s"
  shows "match_measure pat name (match_star pat s) \<le> match_measure pat name s"
proof -
  obtain a b where ab: "npos s = nback s + a" "length name = npos s + b"
    using assms by (metis match_inv_def le_Suc_ex)
  have "a \<le> a * (length pat + 2)" by simp
  then have "b * (length pat + 2) \<le> (a + b) * (length pat + 2) - a"
    by (simp add: add_mult_distrib)
  with ab show ?thesis by (simp add: match_measure_def match_star_def Let_def add.commute)
qed

lemma match_inv_ends:
  assumes "match_inv pat name s" and "mpos s = length pat" and "npos s = length name"
  shows "glob pat name"
proof (cases "wild s")
  case True
  note w = match_inv_wildD [OF assms(1) True]
  have "glob (drop (mback s) pat) (drop 0 (drop (nback s) name))"
    using w(5-8) assms(2,3) by (simp add: glob_nostar)
  then show ?thesis unfolding w(9) glob_star by blast
next
  case False
  with assms show ?thesis by (simp add: match_inv_def)
qed

lemma match_inv_name_end:
  assumes inv: "match_inv pat name s" and m: "mpos s < length pat" "pat ! mpos s \<noteq> star"
    and n: "npos s = length name"
  shows "\<not> glob pat name"
proof (cases "wild s")
  case True
  note w = match_inv_wildD [OF inv True]
  have "filter (\<lambda>c. c \<noteq> star) (match_seg pat s) = match_seg pat s"
    using w(6) by (auto intro!: filter_True)
  then have "length (drop (nback s) name) < length (filter (\<lambda>c. c \<noteq> star) (drop (mback s) pat))"
    unfolding w(8) using m w(5) n by (simp add: drop_eq_nth_Cons)
  then have "\<not> glob (star # drop (mback s) pat) (drop (nback s) name)"
    using glob_min_length [of "star # drop (mback s) pat" "drop (nback s) name"] by auto
  then show ?thesis unfolding w(9) .
next
  case False
  with assms show ?thesis by (simp add: match_inv_def drop_eq_nth_Cons)
qed

lemma match_step_outcome:
  assumes cs: "cstring pat" "cstring name" and inv: "match_inv pat name s"
    and p: "pat \<noteq> [star]" "pat = [] \<Longrightarrow> name = []"
  shows "match_outcome pat name (match_measure pat name s) (match_step pat name s)"
proof -
  have le: "mpos s \<le> length pat" using inv by (simp add: match_inv_def)
  then obtain c where c: "rd pat (mpos s) = Some c"
    using rd_None_iff [of pat "mpos s"] by (cases "rd pat (mpos s)") auto
  define t where "t = (if c = star then match_star pat s else s)"
  have st: "mpos s < length pat \<and> pat ! mpos s = star" if "c = star"
    using that c le by (auto simp: rd_def NUL_def split: if_splits)
  have tinv: "match_inv pat name t"
    using inv st match_inv_star by (auto simp: t_def)
  have tm: "match_measure pat name t \<le> match_measure pat name s"
    using inv by (auto simp: t_def intro: match_measure_star)
  obtain cm where cm: "rd pat (mpos t) = Some cm" "mpos t \<le> length pat"
    using tinv rd_None_iff [of pat "mpos t"] by (cases "rd pat (mpos t)") (auto simp: match_inv_def)
  obtain cn where cn: "rd name (npos t) = Some cn" "npos t \<le> length name"
    using tinv rd_None_iff [of name "npos t"] by (cases "rd name (npos t)") (auto simp: match_inv_def)
  have ns: "pat ! mpos t \<noteq> star" if "mpos t < length pat"
    using that c skip_stars_nth [of pat "mpos s"]
    by (auto simp: t_def match_star_def Let_def rd_def split: if_splits)
  have step: "match_step pat name s =
     (if cm = NUL then
       (if cn = NUL then Some (Inl True)
        else if mpos t = 0 then None
        else (let i = back_quests pat (mpos t - 1) in
          if pat ! i = star \<and> 0 < i then Some (Inl True)
          else if \<not> wild t then Some (Inl False)
          else match_compare pat name (match_retry t)))
     else if cn = NUL then Some (Inl (rd pat (skip_stars pat (mpos t)) = Some NUL))
     else match_compare pat name t)"
    using c cm cn by (simp add: match_step_def t_def [symmetric])
  have mend: "cm = NUL \<longleftrightarrow> mpos t = length pat" and nend: "cn = NUL \<longleftrightarrow> npos t = length name"
    using cm cn rd_NUL_iff cs by (metis option.inject)+
  have "match_outcome pat name (match_measure pat name t) (match_step pat name s)"
  proof (cases "cm = NUL"; cases "cn = NUL")
    assume "cm = NUL" "cn = NUL"
    then have "glob pat name" using match_inv_ends [OF tinv] mend nend by simp
    then show ?thesis using \<open>cm = NUL\<close> \<open>cn = NUL\<close> step by (simp add: match_outcome_def)
  next
    assume e: "cm = NUL" "cn \<noteq> NUL"
    then have "npos t < length name" "mpos t = length pat" "pat \<noteq> []"
      using mend nend cn(2) p(2) by auto
    then show ?thesis
      using match_step_mask_end [OF cs tinv _ _ p(1)] e step by simp
  next
    assume e: "cm \<noteq> NUL" "cn = NUL"
    then have lt: "mpos t < length pat" using mend cm(2) by simp
    then have "\<not> glob pat name" using match_inv_name_end [OF tinv] ns nend e by simp
    moreover have "rd pat (skip_stars pat (mpos t)) \<noteq> Some NUL"
      using lt ns cs by (simp add: skip_stars_id cstr_simps cstring_nth)
    ultimately show ?thesis using e step by (simp add: match_outcome_def)
  next
    assume "cm \<noteq> NUL" "cn \<noteq> NUL"
    then show ?thesis
      using match_compare_outcome [OF cs tinv] step mend nend cm(2) cn(2) ns by simp
  qed
  with tm show ?thesis
    by (auto simp: match_outcome_def split: option.splits sum.splits)
qed

lemma match_loop_outcome:
  assumes "cstring pat" "cstring name" "pat \<noteq> [star]" "pat = [] \<Longrightarrow> name = []"
    and "match_inv pat name s"
  shows "(\<exists>b. match_loop calls pat name s = Some b \<and> (b \<longrightarrow> glob pat name)) \<and>
     (match_measure pat name s < calls \<longrightarrow> match_loop calls pat name s = Some (glob pat name))"
  using assms(5)
proof (induction calls arbitrary: s)
  case (Suc calls)
  have "match_outcome pat name (match_measure pat name s) (match_step pat name s)"
    using assms(1-4) Suc.prems by (intro match_step_outcome) auto
  then consider "match_step pat name s = Some (Inl (glob pat name))"
    | s' where "match_step pat name s = Some (Inr s')" "match_inv pat name s'"
        "match_measure pat name s' < match_measure pat name s"
    by (auto simp: match_outcome_def split: option.splits sum.splits)
  then show ?case
  proof cases
    case (2 s')
    with Suc.IH [OF 2(2)] show ?thesis by auto
  qed simp
qed auto

section \<open>What match() guarantees\<close>

text \<open>
  The only stray read is \<^verbatim>\<open>mask[-1]\<close>, made for an empty mask and a name that is not empty.
\<close>

lemma match_empty_mask: "cstring name \<Longrightarrow> name \<noteq> [] \<Longrightarrow> match [] name = None"
  by (cases name)
    (auto simp: match_def MATCH_MAX_CALLS_def match_step_def match_init_def rd_def NUL_def
      numeral_eq_Suc)

text \<open>
  C1: match() reads only inside the two strings and always returns an answer, and a positive
  answer is right: the name matches the mask as a glob pattern with * and ?, letters compared
  without case. The mask is non-empty or the name is empty.
\<close>

theorem match_total:
  assumes "cstring pat" "cstring name" "pat \<noteq> [] \<or> name = []"
  shows "\<exists>b. match pat name = Some b \<and> (b \<longrightarrow> glob pat name)"
proof (cases "pat = [star]")
  case True
  have "glob [star] name" unfolding glob_star by (intro exI [of _ "length name"]) simp
  with True have "match pat name = Some True \<and> glob pat name"
    by (simp add: match_def del: glob.simps)
  then show ?thesis by blast
next
  case False
  with match_loop_outcome [OF assms(1,2) False _ match_inv_init, of MATCH_MAX_CALLS] assms(3)
  show ?thesis by (auto simp: match_def)
qed

text \<open>
  C2: As long as length name * (length mask + 2) stays below the 512 turns of the loop, match()
  decides the glob relation exactly.
\<close>

theorem match_complete:
  assumes "cstring pat" "cstring name" "pat \<noteq> [] \<or> name = []"
    and "length name * (length pat + 2) < MATCH_MAX_CALLS"
  shows "match pat name = Some (glob pat name)"
proof (cases "pat = [star]")
  case True
  have "glob [star] name" unfolding glob_star by (intro exI [of _ "length name"]) simp
  with True show ?thesis by (simp add: match_def)
next
  case False
  have "match_measure pat name match_init < MATCH_MAX_CALLS"
    using assms(4) by (simp add: match_measure_def match_init_def)
  with match_loop_outcome [OF assms(1,2) False _ match_inv_init, of MATCH_MAX_CALLS] assms(3) False
  show ?thesis by (auto simp: match_def)
qed

section \<open>Concrete instances\<close>

theorem match_total_witness: "match ''a*d?'' ''abcde'' = Some True \<and> glob ''a*d?'' ''abcde''"
proof -
  have m: "match ''a*d?'' ''abcde'' = Some True" by code_simp
  have "cstring ''a*d?''" "cstring ''abcde''" by (simp_all add: cstring_def NUL_def)
  from match_total [OF this] m show ?thesis by fastforce
qed

theorem match_complete_witness: "match ''a*d?'' ''abcd'' = Some (glob ''a*d?'' ''abcd'')"
  using match_complete [of "''a*d?''" "''abcd''"] by (simp add: cstring_def NUL_def MATCH_MAX_CALLS_def)

end
