(* ===== verification/Glob_Esc.thy ===== *)
theory Glob_Esc
  imports Glob
begin

text \<open>
  \<^verbatim>\<open>match_esc()\<close> of \<^verbatim>\<open>libratboxcore/match.c\<close>: the matcher with escapes (\<^verbatim>\<open>\\\<close> quotes the next
  character, \<^verbatim>\<open>\s\<close> is a space) and the classes \<^verbatim>\<open>@\<close> (a letter) and \<^verbatim>\<open>#\<close> (a digit).  The loop is
  the one of \<^verbatim>\<open>match()\<close> with the counter \<open>quote\<close>: 1 after an escape, 2 while the escaped character
  is compared.
\<close>

abbreviation backslash :: char where
  "backslash \<equiv> CHR 0x5C"

record esc_state = match_state +
  quote :: nat

definition match_esc_init :: esc_state where
  "match_esc_init =
     \<lparr>mpos = 0, npos = 0, mback = 0, nback = 0, wild = False, quote = 0\<rparr>"

definition esc_retry :: "esc_state \<Rightarrow> esc_state" where
  "esc_retry s = s\<lparr>mpos := mback s, npos := Suc (nback s), nback := Suc (nback s)\<rparr>"

definition match1_esc :: "nat \<Rightarrow> char \<Rightarrow> char \<Rightarrow> bool" where
  "match1_esc q cm cn =
     (if q \<noteq> 0 then (if cm = CHR ''s'' then cn = CHR '' '' else ToLower cm = ToLower cn)
      else if cm = CHR ''?'' then True
      else if cm = CHR ''@'' then IsLetter cn
      else if cm = CHR ''#'' then IsDigit cn
      else ToLower cm = ToLower cn)"

definition match_esc_compare :: "string \<Rightarrow> string \<Rightarrow> esc_state \<Rightarrow> (bool + esc_state) option" where
  "match_esc_compare pat name s = do {
     cm \<leftarrow> rd pat (mpos s);
     cn \<leftarrow> rd name (npos s);
     if match1_esc (quote s) cm cn then
       Some (Inr (s\<lparr>mpos := (if cm \<noteq> NUL then Suc (mpos s) else mpos s),
                    npos := (if cn \<noteq> NUL then Suc (npos s) else npos s)\<rparr>))
     else if \<not> wild s then Some (Inl False)
     else Some (Inr (esc_retry s))
   }"

text \<open>The part of the turn after the star has been handled.\<close>

definition match_esc_body :: "string \<Rightarrow> string \<Rightarrow> esc_state \<Rightarrow> (bool + esc_state) option" where
  "match_esc_body pat name s = do {
     cm \<leftarrow> rd pat (mpos s);
     cn \<leftarrow> rd name (npos s);
     if cm = NUL then
       (if cn = NUL then Some (Inl True)
        else if quote s \<noteq> 0 then Some (Inl False)
        else if mpos s = 0 then None
        else (let i = back_quests pat (mpos s - 1) in
          if pat ! i = CHR ''*'' \<and> 0 < i then Some (Inl True)
          else if \<not> wild s then Some (Inl False)
          else match_esc_compare pat name (esc_retry s)))
     else if cn = NUL then
       (if quote s \<noteq> 0 then Some (Inl False)
        else Some (Inl (rd pat (skip_stars pat (mpos s)) = Some NUL)))
     else match_esc_compare pat name s
   }"

definition next_quote :: "nat \<Rightarrow> nat" where
  "next_quote q = (let q1 = (if q \<noteq> 0 then Suc q else q) in if q1 = 3 then 0 else q1)"

definition match_esc_step :: "string \<Rightarrow> string \<Rightarrow> esc_state \<Rightarrow> (bool + esc_state) option" where
  "match_esc_step pat name s0 = do {
     let s = s0\<lparr>quote := next_quote (quote s0)\<rparr>;
     cm \<leftarrow> rd pat (mpos s);
     if cm = backslash \<and> quote s = 0 then Some (Inr (s\<lparr>mpos := Suc (mpos s), quote := 1\<rparr>))
     else if quote s = 0 \<and> cm = CHR ''*'' then
       (let i = skip_stars pat (mpos s);
            t = s\<lparr>mpos := i, wild := True, mback := i, nback := npos s\<rparr>
        in if rd pat i = Some backslash then
             (if rd pat (Suc i) = Some NUL then Some (Inl False)
              else Some (Inr (t\<lparr>mpos := Suc i, quote := 1\<rparr>)))
           else match_esc_body pat name t)
     else match_esc_body pat name s
   }"

fun match_esc_loop :: "nat \<Rightarrow> string \<Rightarrow> string \<Rightarrow> esc_state \<Rightarrow> bool option" where
  "match_esc_loop 0 pat name s = Some False"
| "match_esc_loop (Suc calls) pat name s =
     (case match_esc_step pat name s of
        None \<Rightarrow> None
      | Some (Inl b) \<Rightarrow> Some b
      | Some (Inr s') \<Rightarrow> match_esc_loop calls pat name s')"

definition match_esc :: "string \<Rightarrow> string \<Rightarrow> bool option" where
  "match_esc pat name =
     (if pat = ''*'' then Some True
      else match_esc_loop MATCH_MAX_CALLS pat name match_esc_init)"

section \<open>Memory safety\<close>

definition esc_bounds :: "string \<Rightarrow> string \<Rightarrow> esc_state \<Rightarrow> bool" where
  "esc_bounds pat name s \<longleftrightarrow>
     mpos s \<le> length pat \<and> npos s \<le> length name \<and> nback s \<le> npos s \<and>
     mback s \<le> mpos s \<and> quote s \<le> 2 \<and>
     (wild s \<longrightarrow> 0 < mback s \<and> pat ! (mback s - 1) = star)"

definition esc_moved :: "esc_state \<Rightarrow> bool" where
  "esc_moved s \<longleftrightarrow> (wild s \<longrightarrow> nback s < npos s \<or> mpos s = mback s)"

definition esc_inv :: "string \<Rightarrow> string \<Rightarrow> esc_state \<Rightarrow> bool" where
  "esc_inv pat name s \<longleftrightarrow>
     esc_bounds pat name s \<and> (quote s = 1 \<or> esc_moved s)"

lemma esc_inv_init: "esc_inv pat name match_esc_init"
  by (simp add: esc_inv_def esc_bounds_def esc_moved_def match_esc_init_def)

definition esc_safe :: "string \<Rightarrow> string \<Rightarrow> (bool + esc_state) option \<Rightarrow> bool" where
  "esc_safe pat name r =
     (case r of None \<Rightarrow> False | Some (Inl _) \<Rightarrow> True | Some (Inr s) \<Rightarrow> esc_inv pat name s)"

lemma rd_SomeI: "i \<le> length s \<Longrightarrow> \<exists>c. rd s i = Some c"
  by (auto simp: rd_def)

lemma match_esc_compare_safe:
  assumes cs: "cstring pat" "cstring name"
    and le: "mpos s < length pat" "npos s < length name" "nback s \<le> npos s" "mback s \<le> mpos s"
      "quote s \<le> 2"
    and w: "wild s \<Longrightarrow> 0 < mback s \<and> pat ! (mback s - 1) = star"
  shows "esc_safe pat name (match_esc_compare pat name s)"
proof -
  have "rd pat (mpos s) = Some (pat ! mpos s)" "rd name (npos s) = Some (name ! npos s)"
    "pat ! mpos s \<noteq> NUL" "name ! npos s \<noteq> NUL"
    using cs le by (auto simp: cstr_simps dest: cstring_nth)
  with le w show ?thesis
    by (auto simp: match_esc_compare_def esc_safe_def esc_inv_def esc_bounds_def esc_moved_def esc_retry_def)
qed

lemma match_esc_body_safe:
  assumes cs: "cstring pat" "cstring name" and p: "pat \<noteq> []" "pat \<noteq> [star]"
    and inv: "esc_bounds pat name s" and q: "quote s = 0 \<Longrightarrow> esc_moved s"
  shows "esc_safe pat name (match_esc_body pat name s)"
proof -
  obtain cm cn where rds: "rd pat (mpos s) = Some cm" "rd name (npos s) = Some cn"
    using inv rd_SomeI by (meson esc_inv_def esc_bounds_def esc_moved_def)
  have le: "mpos s \<le> length pat" "npos s \<le> length name" "nback s \<le> npos s" "mback s \<le> mpos s"
    "quote s \<le> 2" and w: "wild s \<Longrightarrow> 0 < mback s \<and> pat ! (mback s - 1) = star"
    and adv: "quote s = 0 \<Longrightarrow> wild s \<Longrightarrow> nback s < npos s \<or> mpos s = mback s"
    using inv q by (auto simp: esc_inv_def esc_bounds_def esc_moved_def)
  have ends: "cm = NUL \<longleftrightarrow> mpos s = length pat" "cn = NUL \<longleftrightarrow> npos s = length name"
    using rds le rd_NUL_iff cs by (metis option.inject)+
  have retry: "esc_safe pat name (match_esc_compare pat name (esc_retry s))"
    if e: "mpos s = length pat" "npos s < length name" "wild s" "quote s = 0"
      and ns: "\<not> (pat ! back_quests pat (length pat - 1) = star \<and> 0 < back_quests pat (length pat - 1))"
  proof -
    have "mback s \<noteq> length pat"
    proof
      assume mb: "mback s = length pat"
      then have "back_quests pat (length pat - 1) = length pat - 1"
        using w [OF e(3)] by (cases "length pat - 1") auto
      with ns w [OF e(3)] mb p have "length pat = 1" by (cases "length pat") auto
      with w [OF e(3)] mb p show False by (cases pat) auto
    qed
    with e le adv have "nback s < npos s" "mback s < length pat" by auto
    with e le w cs show ?thesis
      by (intro match_esc_compare_safe) (auto simp: esc_retry_def)
  qed
  have cmp: "esc_safe pat name (match_esc_compare pat name s)" if "cm \<noteq> NUL" "cn \<noteq> NUL"
    using that ends le w cs by (intro match_esc_compare_safe) auto
  have ne: "mpos s \<noteq> 0" if "cm = NUL" using that ends(1) p(1) by auto
  show ?thesis
    using rds retry cmp ne ends le by (auto simp: match_esc_body_def esc_safe_def Let_def)
qed

lemma next_quote_cases: "q \<le> 2 \<Longrightarrow> next_quote q = (if q = 1 then 2 else 0)"
  by (auto simp: next_quote_def Let_def)

lemma match_esc_step_safe:
  assumes cs: "cstring pat" "cstring name" and p: "pat \<noteq> []" "pat \<noteq> [star]"
    and inv: "esc_inv pat name s"
  shows "esc_safe pat name (match_esc_step pat name s)"
proof -
  let ?s = "s\<lparr>quote := next_quote (quote s)\<rparr>"
  have q: "next_quote (quote s) = (if quote s = 1 then 2 else 0)"
    using inv by (simp add: esc_inv_def esc_bounds_def esc_moved_def next_quote_cases)
  have b: "esc_bounds pat name s" using inv by (simp add: esc_inv_def)
  then obtain cm where cm: "rd pat (mpos s) = Some cm"
    using rd_SomeI by (meson esc_bounds_def)
  have body: "esc_safe pat name (match_esc_body pat name ?s)"
    using cs p inv q by (intro match_esc_body_safe) (auto simp: esc_inv_def esc_bounds_def esc_moved_def)
  have quoted: "mpos s < length pat" if "cm = backslash \<or> cm = star"
    using that cm b by (auto simp: rd_def NUL_def esc_bounds_def split: if_splits)
  show ?thesis
  proof (cases "cm = star \<and> quote ?s = 0")
    case True
    let ?i = "skip_stars pat (mpos s)"
    let ?t = "?s\<lparr>mpos := ?i, wild := True, mback := ?i, nback := npos s\<rparr>"
    have st: "mpos s < length pat" "pat ! mpos s = star"
      using quoted True cm by (auto simp: rd_def)
    note sk = skip_stars_le [of "mpos s" pat] skip_stars_prev [OF st]
    have "esc_safe pat name (match_esc_body pat name ?t)"
      using cs p sk st b True
      by (intro match_esc_body_safe) (auto simp: esc_bounds_def esc_moved_def)
    moreover have "esc_inv pat name (?t\<lparr>mpos := Suc ?i, quote := 1\<rparr>)" if "rd pat ?i = Some backslash"
    proof -
      have "?i < length pat" using that by (auto simp: rd_def NUL_def split: if_splits)
      with sk b show ?thesis by (auto simp: esc_inv_def esc_bounds_def)
    qed
    ultimately show ?thesis
      using True cm by (auto simp: match_esc_step_def esc_safe_def Let_def)
  next
    case False
    then show ?thesis
      using cm b body quoted
      by (auto simp: match_esc_step_def esc_safe_def Let_def esc_inv_def esc_bounds_def)
  qed
qed

lemma match_esc_loop_safe:
  assumes "cstring pat" "cstring name" "pat \<noteq> []" "pat \<noteq> [star]" "esc_inv pat name s"
  shows "\<exists>b. match_esc_loop calls pat name s = Some b"
  using assms(5)
proof (induction calls arbitrary: s)
  case (Suc calls)
  have "esc_safe pat name (match_esc_step pat name s)"
    using assms(1-4) Suc.prems by (intro match_esc_step_safe) auto
  then show ?case
    using Suc.IH by (auto simp: esc_safe_def split: option.splits sum.splits)
qed auto

theorem match_esc_total:
  assumes "cstring pat" "cstring name" "pat \<noteq> []"
  shows "\<exists>b. match_esc pat name = Some b"
  using match_esc_loop_safe [OF assms _ esc_inv_init] by (auto simp: match_esc_def)

section \<open>Concrete instances\<close>

theorem match_esc_total_witness: "\<exists>b. match_esc (CHR 0x5C # ''s*'') ''s b'' = Some b"
  using match_esc_total [of "CHR 0x5C # ''s*''" "''s b''"] by (simp add: cstring_def NUL_def)

end
