(* ===== verification/Inet.thy ===== *)
theory Inet
  imports Glob_Esc
begin

text \<open>
  Textual Internet addresses, from \<^verbatim>\<open>libratbox/src/commio.c\<close>: printing and parsing of IPv4
  addresses, parsing of IPv6 addresses and \<^verbatim>\<open>rb_inet_pton()\<close>.  An address in network order is a
  list of bytes.  A parser returns \<^term>\<open>None\<close> where the C function returns 0.
\<close>

type_synonym byte = "8 word"

section \<open>Printing IPv4\<close>

definition IpQuadTab :: "string list" where
  "IpQuadTab = [
    ''0'', ''1'', ''2'', ''3'', ''4'', ''5'', ''6'', ''7'', ''8'', ''9'',
    ''10'', ''11'', ''12'', ''13'', ''14'', ''15'', ''16'', ''17'', ''18'', ''19'',
    ''20'', ''21'', ''22'', ''23'', ''24'', ''25'', ''26'', ''27'', ''28'', ''29'',
    ''30'', ''31'', ''32'', ''33'', ''34'', ''35'', ''36'', ''37'', ''38'', ''39'',
    ''40'', ''41'', ''42'', ''43'', ''44'', ''45'', ''46'', ''47'', ''48'', ''49'',
    ''50'', ''51'', ''52'', ''53'', ''54'', ''55'', ''56'', ''57'', ''58'', ''59'',
    ''60'', ''61'', ''62'', ''63'', ''64'', ''65'', ''66'', ''67'', ''68'', ''69'',
    ''70'', ''71'', ''72'', ''73'', ''74'', ''75'', ''76'', ''77'', ''78'', ''79'',
    ''80'', ''81'', ''82'', ''83'', ''84'', ''85'', ''86'', ''87'', ''88'', ''89'',
    ''90'', ''91'', ''92'', ''93'', ''94'', ''95'', ''96'', ''97'', ''98'', ''99'',
    ''100'', ''101'', ''102'', ''103'', ''104'', ''105'', ''106'', ''107'', ''108'', ''109'',
    ''110'', ''111'', ''112'', ''113'', ''114'', ''115'', ''116'', ''117'', ''118'', ''119'',
    ''120'', ''121'', ''122'', ''123'', ''124'', ''125'', ''126'', ''127'', ''128'', ''129'',
    ''130'', ''131'', ''132'', ''133'', ''134'', ''135'', ''136'', ''137'', ''138'', ''139'',
    ''140'', ''141'', ''142'', ''143'', ''144'', ''145'', ''146'', ''147'', ''148'', ''149'',
    ''150'', ''151'', ''152'', ''153'', ''154'', ''155'', ''156'', ''157'', ''158'', ''159'',
    ''160'', ''161'', ''162'', ''163'', ''164'', ''165'', ''166'', ''167'', ''168'', ''169'',
    ''170'', ''171'', ''172'', ''173'', ''174'', ''175'', ''176'', ''177'', ''178'', ''179'',
    ''180'', ''181'', ''182'', ''183'', ''184'', ''185'', ''186'', ''187'', ''188'', ''189'',
    ''190'', ''191'', ''192'', ''193'', ''194'', ''195'', ''196'', ''197'', ''198'', ''199'',
    ''200'', ''201'', ''202'', ''203'', ''204'', ''205'', ''206'', ''207'', ''208'', ''209'',
    ''210'', ''211'', ''212'', ''213'', ''214'', ''215'', ''216'', ''217'', ''218'', ''219'',
    ''220'', ''221'', ''222'', ''223'', ''224'', ''225'', ''226'', ''227'', ''228'', ''229'',
    ''230'', ''231'', ''232'', ''233'', ''234'', ''235'', ''236'', ''237'', ''238'', ''239'',
    ''240'', ''241'', ''242'', ''243'', ''244'', ''245'', ''246'', ''247'', ''248'', ''249'',
    ''250'', ''251'', ''252'', ''253'', ''254'', ''255'']"

text \<open>The static buffer of \<^verbatim>\<open>inetntoa()\<close> holds the bytes of the table entries it copies.\<close>

definition inetntoa :: "byte list \<Rightarrow> string" where
  "inetntoa a =
     IpQuadTab ! unat (a ! 0) @ ''.'' @ IpQuadTab ! unat (a ! 1) @ ''.'' @
     IpQuadTab ! unat (a ! 2) @ ''.'' @ IpQuadTab ! unat (a ! 3)"

definition inet_ntop4 :: "byte list \<Rightarrow> nat \<Rightarrow> string option" where
  "inet_ntop4 src sz = (if sz < 16 then None else Some (inetntoa src))"

section \<open>Parsing IPv4\<close>

text \<open>
  \<open>tmp\<close> holds the octets written so far; its last element is the one under \<^verbatim>\<open>tp\<close>.
\<close>

fun inet_pton4_loop :: "bool \<Rightarrow> nat \<Rightarrow> byte list \<Rightarrow> string \<Rightarrow> byte list option" where
  "inet_pton4_loop saw_digit octets tmp [] = (if octets < 4 then None else Some tmp)"
| "inet_pton4_loop saw_digit octets tmp (ch # src) =
     (if 48 \<le> code ch \<and> code ch \<le> 57 then
        (let new = unat (last tmp) * 10 + (code ch - 48)
         in if new > 255 then None
            else if \<not> saw_digit then
              (if Suc octets > 4 then None
               else inet_pton4_loop True (Suc octets) (butlast tmp @ [of_nat new]) src)
            else inet_pton4_loop saw_digit octets (butlast tmp @ [of_nat new]) src)
      else if ch = CHR ''.'' \<and> saw_digit then
        (if octets = 4 then None else inet_pton4_loop False octets (tmp @ [0]) src)
      else None)"

definition inet_pton4 :: "string \<Rightarrow> byte list option" where
  "inet_pton4 src = inet_pton4_loop False 0 [0] src"

subsection \<open>Print and parse\<close>

definition dec_val :: "nat \<Rightarrow> string \<Rightarrow> nat" where
  "dec_val a s = foldl (\<lambda>a c. a * 10 + (code c - 48)) a s"

definition dec_digits :: "string \<Rightarrow> bool" where
  "dec_digits s \<longleftrightarrow> (\<forall>c \<in> set s. 48 \<le> code c \<and> code c \<le> 57)"

lemma dec_val_ge: "a \<le> dec_val a s"
proof (induction s arbitrary: a)
  case (Cons c s)
  have "a \<le> a * 10 + (code c - 48)" by simp
  also have "\<dots> \<le> dec_val (a * 10 + (code c - 48)) s" by (rule Cons.IH)
  finally show ?case by (simp add: dec_val_def)
qed (simp add: dec_val_def)

lemma unat_of_nat_byte: "n \<le> 255 \<Longrightarrow> unat (of_nat n :: byte) = n"
  by (simp add: unat_of_nat)

lemma inet_pton4_loop_digits:
  assumes "dec_digits s" and "dec_val (unat w) s \<le> 255"
  shows "inet_pton4_loop True k (pre @ [w]) (s @ rest) =
     inet_pton4_loop True k (pre @ [of_nat (dec_val (unat w) s)]) rest"
  using assms
proof (induction s arbitrary: w)
  case (Cons c s)
  let ?n = "unat w * 10 + (code c - 48)"
  have n: "?n \<le> 255"
    using Cons.prems(2) dec_val_ge [of ?n s] by (simp add: dec_val_def)
  have "dec_val (unat (of_nat ?n :: byte)) s = dec_val (unat w) (c # s)"
    using n by (simp add: unat_of_nat_byte del: of_nat_add of_nat_mult) (simp add: dec_val_def)
  with Cons n show ?case
    by (simp add: dec_digits_def Let_def del: of_nat_add of_nat_mult)
qed (simp add: dec_val_def)

lemma inet_pton4_loop_octet:
  assumes "s \<noteq> []" "dec_digits s" "dec_val 0 s \<le> 255" "k < 4"
  shows "inet_pton4_loop False k (pre @ [0]) (s @ rest) =
     inet_pton4_loop True (Suc k) (pre @ [of_nat (dec_val 0 s)]) rest"
proof -
  obtain c s' where s: "s = c # s'" using assms(1) by (cases s) auto
  let ?n = "code c - 48"
  have n: "?n \<le> 255" and d: "dec_digits s'"
    using assms(2) s by (auto simp: dec_digits_def)
  have v: "dec_val (unat (of_nat ?n :: byte)) s' = dec_val 0 s"
    using n s unat_of_nat_byte [OF n] by (simp add: dec_val_def)
  have "inet_pton4_loop False k (pre @ [0]) (s @ rest) =
      inet_pton4_loop True (Suc k) (pre @ [of_nat ?n]) (s' @ rest)"
    using assms(2,4) s n by (simp add: dec_digits_def Let_def)
  with inet_pton4_loop_digits [OF d, of "of_nat ?n" "Suc k" pre rest] v assms(3)
  show ?thesis by simp
qed

lemma inet_pton4_loop_dot:
  "k < 4 \<Longrightarrow> inet_pton4_loop True k tmp (CHR ''.'' # rest) = inet_pton4_loop False k (tmp @ [0]) rest"
  by simp

lemma IpQuadTab_vals: "map (foldl (\<lambda>a c. a * 10 + (code c - 48)) 0) IpQuadTab = [0..<256]"
  by code_simp

lemma IpQuadTab_digits:
  "list_all (\<lambda>s. s \<noteq> [] \<and> list_all (\<lambda>c. 48 \<le> code c \<and> code c \<le> 57) s \<and> length s \<le> 3) IpQuadTab"
  by code_simp

lemma length_IpQuadTab: "length IpQuadTab = 256"
  using arg_cong [OF IpQuadTab_vals, of length] by simp

lemma IpQuadTab_entry:
  assumes "n < 256"
  shows "IpQuadTab ! n \<noteq> []" "dec_digits (IpQuadTab ! n)" "dec_val 0 (IpQuadTab ! n) = n"
    "length (IpQuadTab ! n) \<le> 3"
proof -
  have "IpQuadTab ! n \<in> set IpQuadTab" using assms by (simp add: length_IpQuadTab)
  with IpQuadTab_digits show "IpQuadTab ! n \<noteq> []" "dec_digits (IpQuadTab ! n)"
    "length (IpQuadTab ! n) \<le> 3"
    by (auto simp: list_all_iff dec_digits_def)
  have "dec_val 0 (IpQuadTab ! n) = map (foldl (\<lambda>a c. a * 10 + (code c - 48)) 0) IpQuadTab ! n"
    using assms by (simp add: length_IpQuadTab dec_val_def)
  then show "dec_val 0 (IpQuadTab ! n) = n" using assms by (simp only: IpQuadTab_vals) simp
qed

theorem inet_pton4_inetntoa:
  assumes "length a = 4"
  shows "inet_pton4 (inetntoa a) = Some a"
proof -
  obtain w x y z where a: "a = [w, x, y, z]"
    using assms by (auto simp: length_Suc_conv numeral_eq_Suc)
  have b: "unat (u :: byte) < 256" for u using unsigned_less [of u] by simp
  have o: "inet_pton4_loop False k (pre @ [0]) (IpQuadTab ! unat u @ rest) =
      inet_pton4_loop True (Suc k) (pre @ [u]) rest" if "k < 4" for k pre rest and u :: byte
    using inet_pton4_loop_octet [of "IpQuadTab ! unat u" k pre rest] IpQuadTab_entry [OF b [of u]]
      b [of u] that by simp
  have o0: "inet_pton4_loop False 0 [0] (IpQuadTab ! unat u @ rest) =
      inet_pton4_loop True 1 [u] rest" for u :: byte and rest
    using o [of 0 "[]" u rest] by simp
  have o3: "inet_pton4_loop False 3 (pre @ [0]) (IpQuadTab ! unat u) = Some (pre @ [u])"
    for pre and u :: byte
    using o [of 3 pre u "[]"] by simp
  show ?thesis
    unfolding inet_pton4_def inetntoa_def a
    using o [of 1 "[w]" x] o [of 2 "[w, x]" y] o3 [of "[w, x, y]" z]
    by (simp add: o0 inet_pton4_loop_dot numeral_eq_Suc)
qed

lemma inet_pton4_loop_length:
  "inet_pton4_loop saw k tmp s = Some a \<Longrightarrow> length tmp = (if saw then k else Suc k) \<Longrightarrow>
   (saw \<longrightarrow> 0 < k \<and> k \<le> 4) \<Longrightarrow> (\<not> saw \<longrightarrow> k < 4) \<Longrightarrow> length a = 4"
proof (induction saw k tmp s rule: inet_pton4_loop.induct)
  case (2 saw k tmp ch src)
  then show ?case by (auto simp: Let_def split: if_splits)
qed (auto split: if_splits)

lemma inet_pton4_length: "inet_pton4 s = Some a \<Longrightarrow> length a = 4"
  unfolding inet_pton4_def by (rule inet_pton4_loop_length) auto

lemma inet_pton4_loop_chars:
  "inet_pton4_loop saw k tmp s = Some a \<Longrightarrow> c \<in> set s \<Longrightarrow> c = CHR ''.'' \<or> 48 \<le> code c \<and> code c \<le> 57"
proof (induction saw k tmp s rule: inet_pton4_loop.induct)
  case (2 saw k tmp ch src)
  then show ?case by (auto simp: Let_def split: if_splits)
qed simp

lemma inet_pton4_no_colon: "inet_pton4 s = Some a \<Longrightarrow> CHR '':'' \<notin> set s"
  using inet_pton4_loop_chars [of False 0 "[0]" s a "CHR '':''"] by (auto simp: inet_pton4_def)

lemma inet_pton4_leading_zeros:
  "inet_pton4 (replicate n (CHR ''0'') @ ''1.2.3.4'') = Some [1, 2, 3, 4]"
proof -
  let ?s = "replicate n (CHR ''0'') @ ''1''"
  have d: "dec_digits ?s" by (auto simp: dec_digits_def)
  have "foldl (\<lambda>a c. a * 10 + (code c - 48)) 0 (replicate n (CHR ''0'')) = 0"
    by (induction n) auto
  then have v: "dec_val 0 ?s = 1" by (simp add: dec_val_def)
  have "inet_pton4_loop False 0 [0] (?s @ ''.2.3.4'') = inet_pton4_loop True 1 [1] ''.2.3.4''"
    using inet_pton4_loop_octet [of ?s 0 "[]" "''.2.3.4''"] d v by simp
  also have "\<dots> = Some [1, 2, 3, 4]" by code_simp
  finally show ?thesis by (simp add: inet_pton4_def)
qed

section \<open>Concrete instances\<close>

theorem inet_pton4_inetntoa_witness: "inet_pton4 (inetntoa [10, 0, 255, 1]) = Some [10, 0, 255, 1]"
  by (rule inet_pton4_inetntoa) simp

end
