(* ===== verification/Inet6.thy ===== *)
theory Inet6
  imports Inet
begin

text \<open>
  IPv6 addresses and \<^verbatim>\<open>rb_inet_pton()\<close>, \<^verbatim>\<open>libratbox/src/commio.c\<close>, and the CIDR comparisons of
  \<^verbatim>\<open>libratboxcore/match.c\<close> that rest on them.
\<close>

section \<open>Parsing IPv6\<close>

definition IN6ADDRSZ :: nat where
  "IN6ADDRSZ = 16"

text \<open>\<^verbatim>\<open>strchr(xdigits, ch) - xdigits\<close>, for a character already folded to lower case.\<close>

definition xdigit :: "char \<Rightarrow> 32 word option" where
  "xdigit ch =
     (if 48 \<le> code ch \<and> code ch \<le> 57 then Some (of_nat (code ch - 48))
      else if 97 \<le> code ch \<and> code ch \<le> 102 then Some (of_nat (code ch - 87))
      else None)"

text \<open>
  The loop state: \<open>tp\<close> the bytes written to \<^verbatim>\<open>tmp\<close>, \<open>colonp\<close> the position of \<^verbatim>\<open>::\<close>, \<open>curtok\<close> the
  start of the current group.  A character that is neither a digit, a colon nor a dot takes the
  \<^verbatim>\<open>else continue\<close> branch.
\<close>

fun inet_pton6_loop ::
  "byte list \<Rightarrow> nat option \<Rightarrow> string \<Rightarrow> bool \<Rightarrow> 32 word \<Rightarrow> string \<Rightarrow>
   (byte list \<times> nat option \<times> bool \<times> 32 word) option" where
  "inet_pton6_loop tp colonp curtok saw_xdigit val [] = Some (tp, colonp, saw_xdigit, val)"
| "inet_pton6_loop tp colonp curtok saw_xdigit val (c # src) =
     (let ch = ToLower c in
      case xdigit ch of
        Some d \<Rightarrow>
          (if push_bit 4 val OR d > 0xFFFF then None
           else inet_pton6_loop tp colonp curtok True (push_bit 4 val OR d) src)
      | None \<Rightarrow>
          if ch = CHR '':'' then
            (if \<not> saw_xdigit then
               (if colonp \<noteq> None then None
                else inet_pton6_loop tp (Some (length tp)) src saw_xdigit val src)
             else if src = [] then None
             else if length tp + 2 > IN6ADDRSZ then None
             else inet_pton6_loop (tp @ [ucast (drop_bit 8 val), ucast val]) colonp src False 0 src)
          else if src \<noteq> [] \<and> ch = CHR ''.'' then
            (if length tp + 4 \<le> IN6ADDRSZ then
               (case inet_pton4 curtok of
                  None \<Rightarrow> None
                | Some a \<Rightarrow> Some (tp @ a, colonp, False, val))
             else None)
          else inet_pton6_loop tp colonp curtok saw_xdigit val src)"

text \<open>
  \<^verbatim>\<open>for (i = 1; i <= n; i++) { endp[-i] = colonp[n - i]; colonp[n - i] = 0; }\<close>
\<close>

definition inet_pton6_shift :: "nat \<Rightarrow> nat \<Rightarrow> byte list \<Rightarrow> byte list" where
  "inet_pton6_shift colonp n tmp =
     fold (\<lambda>i tmp. (tmp[IN6ADDRSZ - i := tmp ! (colonp + n - i)])[colonp + n - i := 0])
       [1..<Suc n] tmp"

definition inet_pton6 :: "string \<Rightarrow> byte list option" where
  "inet_pton6 src0 =
     (if headc src0 = CHR '':'' \<and> headc (tl src0) \<noteq> CHR '':'' then None
      else let src = (if headc src0 = CHR '':'' then tl src0 else src0) in
        case inet_pton6_loop [] None src False 0 src of
          None \<Rightarrow> None
        | Some (tp, colonp, saw_xdigit, val) \<Rightarrow>
            (if saw_xdigit \<and> length tp + 2 > IN6ADDRSZ then None
             else let tp = (if saw_xdigit then tp @ [ucast (drop_bit 8 val), ucast val] else tp) in
               case colonp of
                 None \<Rightarrow> if length tp \<noteq> IN6ADDRSZ then None else Some tp
               | Some k \<Rightarrow>
                   if length tp = IN6ADDRSZ then None
                   else Some (inet_pton6_shift k (length tp - k)
                     (tp @ replicate (IN6ADDRSZ - length tp) 0))))"

text \<open>
  \<^verbatim>\<open>rb_inet_pton()\<close> with \<^verbatim>\<open>RB_IPV6\<close>.  The outer \<^term>\<open>None\<close> is a write past \<^verbatim>\<open>char tmp[HOSTIPLEN]\<close>.
\<close>

datatype af = AF_INET | AF_INET6

definition HOSTIPLEN :: nat where
  "HOSTIPLEN = 53"

definition rb_inet_pton :: "af \<Rightarrow> string \<Rightarrow> byte list option option" where
  "rb_inet_pton af src =
     (case af of
        AF_INET \<Rightarrow> Some (inet_pton4 src)
      | AF_INET6 \<Rightarrow>
          (if inet_pton4 src \<noteq> None then
             (if length (''::ffff:'' @ src) + 1 > HOSTIPLEN then None
              else Some (inet_pton6 (''::ffff:'' @ src)))
           else Some (inet_pton6 src)))"

definition inet_pton6_fits :: "byte list \<Rightarrow> nat option \<Rightarrow> bool" where
  "inet_pton6_fits tp colonp \<longleftrightarrow>
     length tp \<le> IN6ADDRSZ \<and> (case colonp of None \<Rightarrow> True | Some k \<Rightarrow> k \<le> length tp)"

lemma inet_pton6_fits_simps:
  "inet_pton6_fits tp None \<longleftrightarrow> length tp \<le> IN6ADDRSZ"
  "inet_pton6_fits tp (Some (length tp)) \<longleftrightarrow> length tp \<le> IN6ADDRSZ"
  "inet_pton6_fits tp k \<Longrightarrow> length tp + length a \<le> IN6ADDRSZ \<Longrightarrow> inet_pton6_fits (tp @ a) k"
  by (auto simp: inet_pton6_fits_def split: option.splits)

lemma inet_pton6_loop_fits:
  "inet_pton6_loop tp colonp curtok saw val s = Some (tp', colonp', saw', val') \<Longrightarrow>
   inet_pton6_fits tp colonp \<Longrightarrow> inet_pton6_fits tp' colonp'"
proof (induction s arbitrary: tp colonp curtok saw val)
  case (Cons c src)
  from Cons.prems show ?case
    by (auto simp: Let_def inet_pton4_length inet_pton6_fits_simps
        split: option.splits if_splits dest!: Cons.IH)
qed auto

lemma length_inet_pton6_shift: "length (inet_pton6_shift k n tmp) = length tmp"
proof -
  have "length (fold (\<lambda>i tmp. (tmp[IN6ADDRSZ - i := tmp ! (k + n - i)])[k + n - i := 0]) is tmp) =
      length tmp" for "is" and tmp :: "byte list"
    by (induction "is" arbitrary: tmp) auto
  then show ?thesis by (simp add: inet_pton6_shift_def)
qed

theorem inet_pton6_length: "inet_pton6 s = Some a \<Longrightarrow> length a = IN6ADDRSZ"
  unfolding inet_pton6_def
  by (auto simp: Let_def length_inet_pton6_shift inet_pton6_fits_def split: if_splits option.splits
      dest!: inet_pton6_loop_fits)

section \<open>Address prefixes\<close>

text \<open>
  \<^verbatim>\<open>comp_with_mask()\<close> compares the first \<open>mask\<close> bits of two byte arrays.  \<^term>\<open>None\<close> is a read past
  the end of one of them.
\<close>

definition comp_with_mask :: "byte list \<Rightarrow> byte list \<Rightarrow> nat \<Rightarrow> bool option" where
  "comp_with_mask addr dest msk =
     (let n = msk div 8; m = push_bit (8 - msk mod 8) (-1 :: byte) in
      if length addr < n \<or> length dest < n then None
      else if take n addr = take n dest then
        (if msk mod 8 = 0 then Some True
         else if length addr \<le> n \<or> length dest \<le> n then None
         else Some (addr ! n AND m = dest ! n AND m))
      else Some False)"

text \<open>The bits of an address, most significant first.\<close>

definition byte_bits :: "byte \<Rightarrow> bool list" where
  "byte_bits b = map (bit b) [7, 6, 5, 4, 3, 2, 1, 0]"

definition addr_bits :: "byte list \<Rightarrow> bool list" where
  "addr_bits a = concat (map byte_bits a)"

lemma length_byte_bits [simp]: "length (byte_bits b) = 8"
  by (simp add: byte_bits_def)

lemma byte_eq_iff: "(x :: byte) = y \<longleftrightarrow> (\<forall>i \<in> {7, 6, 5, 4, 3, 2, 1, 0 :: nat}. bit x i = bit y i)"
proof
  assume r: "\<forall>i \<in> {7, 6, 5, 4, 3, 2, 1, 0 :: nat}. bit x i = bit y i"
  have "bit x i = bit y i" if "i < 8" for i
  proof -
    have "i \<in> {7, 6, 5, 4, 3, 2, 1, 0 :: nat}" using that by auto
    with r show ?thesis by blast
  qed
  then show "x = y" by (intro bit_word_eqI) simp
qed simp

lemma byte_bits_inject [simp]: "byte_bits x = byte_bits y \<longleftrightarrow> x = y"
  unfolding byte_eq_iff by (simp add: byte_bits_def)

lemma masked_byte_eq:
  assumes "0 < r" "r < 8"
  shows "x AND push_bit (8 - r) (-1 :: byte) = y AND push_bit (8 - r) (-1) \<longleftrightarrow>
     take r (byte_bits x) = take r (byte_bits y)"
proof -
  have "r = 1 \<or> r = 2 \<or> r = 3 \<or> r = 4 \<or> r = 5 \<or> r = 6 \<or> r = 7" using assms by auto
  then show ?thesis
    by (elim disjE) (simp_all add: byte_eq_iff byte_bits_def bit_simps)
qed

lemma addr_bits_Cons [simp]: "addr_bits (b # a) = byte_bits b @ addr_bits a"
  and addr_bits_Nil [simp]: "addr_bits [] = []"
  by (simp_all add: addr_bits_def)

lemma length_addr_bits [simp]: "length (addr_bits a) = 8 * length a"
  by (induction a) auto

lemma addr_bits_inject: "length a = length b \<Longrightarrow> addr_bits a = addr_bits b \<longleftrightarrow> a = b"
  by (induction a b rule: list_induct2) auto

lemma take_addr_bits:
  "n < length a \<Longrightarrow> r < 8 \<Longrightarrow>
   take (8 * n + r) (addr_bits a) = addr_bits (take n a) @ take r (byte_bits (a ! n))"
proof (induction n arbitrary: a)
  case 0
  then show ?case by (cases a) auto
next
  case (Suc n)
  then show ?case by (cases a) auto
qed

lemma take_addr_bits_full: "take (8 * n) (addr_bits a) = addr_bits (take n a)"
proof (induction n arbitrary: a)
  case (Suc n)
  then show ?case by (cases a) auto
qed simp

lemma comp_with_mask_prefix:
  assumes "msk \<le> 8 * length addr" "msk \<le> 8 * length dest"
  shows "comp_with_mask addr dest msk =
     Some (take msk (addr_bits addr) = take msk (addr_bits dest))"
proof -
  let ?n = "msk div 8" and ?r = "msk mod 8"
  have m: "msk = 8 * ?n + ?r" by simp
  have le: "?n \<le> length addr" "?n \<le> length dest" using assms by auto
  show ?thesis
  proof (cases "?r = 0")
    case True
    have "take msk (addr_bits a) = addr_bits (take ?n a)" for a
      using m True take_addr_bits_full by (metis add_0_right)
    with True le show ?thesis
      by (auto simp: comp_with_mask_def Let_def addr_bits_inject)
  next
    case False
    have lt: "?n < length addr" "?n < length dest" using False assms m by linarith+
    have eq: "take msk (addr_bits a) = addr_bits (take ?n a) @ take ?r (byte_bits (a ! ?n))"
      if "?n < length a" for a
      using take_addr_bits [OF that, of ?r] m by simp
    have "take msk (addr_bits addr) = take msk (addr_bits dest) \<longleftrightarrow>
        take ?n addr = take ?n dest \<and>
        take ?r (byte_bits (addr ! ?n)) = take ?r (byte_bits (dest ! ?n))"
      unfolding eq [OF lt(1)] eq [OF lt(2)] using lt
      by (subst append_eq_append_conv) (auto simp: addr_bits_inject)
    with False lt show ?thesis
      using masked_byte_eq [of ?r "addr ! ?n" "dest ! ?n"]
      by (auto simp: comp_with_mask_def Let_def)
  qed
qed

section \<open>CIDR masks in text form\<close>

definition BUFSIZE :: nat where
  "BUFSIZE = 512"

definition HOSTLEN :: nat where
  "HOSTLEN = 63"

definition USERLEN :: nat where
  "USERLEN = 10"

definition NICKLEN :: nat where
  "NICKLEN = 30"

text \<open>
  \<^verbatim>\<open>rb_inet_pton()\<close> writes the address over the start of a stack object, or leaves it alone when
  the text is no address; both callers ignore its result.  \<open>mem\<close> is what the object held before,
  from the address field to its end.
\<close>

definition pton_into :: "byte list option \<Rightarrow> byte list \<Rightarrow> byte list" where
  "pton_into r mem = (case r of None \<Rightarrow> mem | Some a \<Rightarrow> a @ drop (length a) mem)"

definition cidr_compare ::
  "(af \<Rightarrow> byte list) \<Rightarrow> (af \<Rightarrow> byte list) \<Rightarrow> af \<Rightarrow> string \<Rightarrow> string \<Rightarrow> int \<Rightarrow> bool option" where
  "cidr_compare ipmem maskmem aftype ip msk cidrlen = do {
     a \<leftarrow> rb_inet_pton aftype ip;
     b \<leftarrow> rb_inet_pton aftype msk;
     comp_with_mask (pton_into a (ipmem aftype)) (pton_into b (maskmem aftype))
       (nat (cidrlen mod 2 ^ 32))
   }"

definition match_ips ::
  "(af \<Rightarrow> byte list) \<Rightarrow> (af \<Rightarrow> byte list) \<Rightarrow> string \<Rightarrow> string \<Rightarrow> bool option" where
  "match_ips ipmem maskmem s1 s2 =
     (let address = rb_strlcpy s2 (HOSTLEN + 1) in
      case strrchr_split (CHR ''/'') (rb_strlcpy s1 BUFSIZE) of
        None \<Rightarrow> Some False
      | Some (msk, len) \<Rightarrow>
          if atoi len = 0 then Some False
          else if CHR '':'' \<in> set msk \<and> CHR '':'' \<in> set address then
            cidr_compare ipmem maskmem AF_INET6 address msk (atoi len)
          else if CHR '':'' \<notin> set msk \<and> CHR '':'' \<notin> set address then
            cidr_compare ipmem maskmem AF_INET address msk (atoi len)
          else Some False)"

definition match_cidr ::
  "(af \<Rightarrow> byte list) \<Rightarrow> (af \<Rightarrow> byte list) \<Rightarrow> string \<Rightarrow> string \<Rightarrow> bool option" where
  "match_cidr ipmem maskmem s1 s2 =
     (case strrchr_split (CHR ''@'') (rb_strlcpy s1 BUFSIZE) of
        None \<Rightarrow> Some False
      | Some (msk, ipmask0) \<Rightarrow>
     (case strrchr_split (CHR ''@'') (rb_strlcpy s2 (NICKLEN + USERLEN + HOSTLEN + 6)) of
        None \<Rightarrow> Some False
      | Some (address, ip) \<Rightarrow>
     (case strrchr_split (CHR ''/'') ipmask0 of
        None \<Rightarrow> Some False
      | Some (ipmask, len) \<Rightarrow>
          if atoi len = 0 then Some False
          else
            (let r = (if CHR '':'' \<in> set ip \<and> CHR '':'' \<in> set ipmask then
                        cidr_compare ipmem maskmem AF_INET6 ip ipmask (atoi len)
                      else if CHR '':'' \<notin> set ip \<and> CHR '':'' \<notin> set ipmask then
                        cidr_compare ipmem maskmem AF_INET ip ipmask (atoi len)
                      else Some False)
             in case r of
                  None \<Rightarrow> None
                | Some b \<Rightarrow> if b then match msk address else Some False))))"

lemma inet_pton4_no_at: "inet_pton4 s = Some a \<Longrightarrow> CHR ''@'' \<notin> set s"
  using inet_pton4_loop_chars [of False 0 "[0]" s a "CHR ''@''"] by (auto simp: inet_pton4_def)

lemma cidr_compare_v4:
  assumes "inet_pton4 ip = Some a" "inet_pton4 msk = Some b" "0 < c" "c \<le> 32"
  shows "cidr_compare ipmem maskmem AF_INET ip msk c =
     Some (take (nat c) (addr_bits a) = take (nat c) (addr_bits b))"
proof -
  have len: "length a = 4" "length b = 4" using assms inet_pton4_length by auto
  have pre: "take (nat c) (addr_bits (x @ y)) = take (nat c) (addr_bits x)"
    if "length x = 4" for x y
    using that assms(4) by (simp add: addr_bits_def length_addr_bits [unfolded addr_bits_def])
  have "c mod 2 ^ 32 = c" using assms(3,4) by simp
  then show ?thesis
    using assms len
    by (simp add: cidr_compare_def rb_inet_pton_def pton_into_def comp_with_mask_prefix pre)
qed

lemma match_ips_v4:
  assumes "inet_pton4 msk = Some b" "inet_pton4 ip = Some a"
    and "CHR ''/'' \<notin> set len" "0 < atoi len" "atoi len \<le> 32"
    and "length msk + length len + 1 < BUFSIZE" "length ip \<le> HOSTLEN"
  shows "match_ips ipmem maskmem (msk @ ''/'' @ len) ip =
     Some (take (nat (atoi len)) (addr_bits a) = take (nat (atoi len)) (addr_bits b))"
  using assms inet_pton4_no_colon [OF assms(1)] inet_pton4_no_colon [OF assms(2)]
    strrchr_split_append [of "CHR ''/''" len msk]
  by (simp add: match_ips_def rb_strlcpy_def cidr_compare_v4)

text \<open>
  C37: match_cidr with an IPv4 mask user@a.b.c.d/len compares exactly the first len bits of the
  two addresses and then matches the user part with match().
\<close>

theorem match_cidr_v4:
  assumes "inet_pton4 ipmask = Some b" "inet_pton4 ip = Some a"
    and "CHR ''/'' \<notin> set len" "CHR ''@'' \<notin> set len" "0 < atoi len" "atoi len \<le> 32"
    and "length msk + length ipmask + length len + 2 < BUFSIZE"
    and "length address + length ip + 1 < NICKLEN + USERLEN + HOSTLEN + 6"
  shows "match_cidr ipmem maskmem (msk @ ''@'' @ ipmask @ ''/'' @ len) (address @ ''@'' @ ip) =
     (if take (nat (atoi len)) (addr_bits a) = take (nat (atoi len)) (addr_bits b)
      then match msk address else Some False)"
proof -
  have at: "CHR ''@'' \<notin> set ip" "CHR ''@'' \<notin> set ipmask"
    using inet_pton4_no_at assms(1,2) by auto
  show ?thesis
    using assms at inet_pton4_no_colon [OF assms(1)] inet_pton4_no_colon [OF assms(2)]
      strrchr_split_append [of "CHR ''/''" len ipmask]
      strrchr_split_append [of "CHR ''@''" "ipmask @ CHR ''/'' # len" msk]
      strrchr_split_append [of "CHR ''@''" ip address]
    by (simp add: match_cidr_def rb_strlcpy_def cidr_compare_v4)
qed

section \<open>Concrete instances\<close>

theorem inet_pton6_length_witness:
  "inet_pton6 ''fe80::1'' = Some [254, 128, 0, 0, 0, 0, 0, 0, 0, 0, 0, 0, 0, 0, 0, 1] \<and> IN6ADDRSZ = 16"
proof -
  have "inet_pton6 ''fe80::1'' = Some [254, 128, 0, 0, 0, 0, 0, 0, 0, 0, 0, 0, 0, 0, 0, 1]" by code_simp
  with inet_pton6_length [OF this] show ?thesis by simp
qed

theorem match_cidr_v4_witness:
  "match_cidr (\<lambda>_. replicate 16 0) (\<lambda>_. replicate 16 0) (''*!*@10.1.0.0/16'') (''n!u@10.1.7.7'') = match ''*!*'' ''n!u''"
proof -
  have a: "inet_pton4 ''10.1.0.0'' = Some [10, 1, 0, 0]" "inet_pton4 ''10.1.7.7'' = Some [10, 1, 7, 7]"
    "atoi ''16'' = 16" by code_simp+
  have "take 16 (addr_bits [10, 1, 7, 7]) = take 16 (addr_bits [10, 1, 0, 0])" by code_simp
  then show ?thesis
    using match_cidr_v4 [OF a(1,2), of "''16''" "''*!*''" "''n!u''" "\<lambda>_. replicate 16 0" "\<lambda>_. replicate 16 0"]
    by (simp add: a(3) BUFSIZE_def NICKLEN_def USERLEN_def HOSTLEN_def)
qed

end
