(* ===== verification/Dlink.thy ===== *)
theory Dlink
  imports Prelude
begin

text \<open>
  The doubly linked lists of \<^verbatim>\<open>libratbox/include/rb_tools.h\<close>, on an explicit store of nodes.
  A node is an address; reading or writing through \<^verbatim>\<open>NULL\<close> or through an address that holds no
  node is \<^term>\<open>None\<close>.  The refinement lemmas say that each routine, on a well-formed list, runs
  without a fault and performs the corresponding operation on the sequence of its nodes.
\<close>

type_synonym addr = nat

record dnode =
  d_data :: nat
  d_prev :: "addr option"
  d_next :: "addr option"

record dlist =
  l_head :: "addr option"
  l_tail :: "addr option"
  l_length :: "64 word"

type_synonym dheap = "addr \<rightharpoonup> dnode"

definition upd :: "dheap \<Rightarrow> addr \<Rightarrow> (dnode \<Rightarrow> dnode) \<Rightarrow> dheap option" where
  "upd h p f = (case h p of None \<Rightarrow> None | Some n \<Rightarrow> Some (h(p \<mapsto> f n)))"

definition updp :: "dheap \<Rightarrow> addr option \<Rightarrow> (dnode \<Rightarrow> dnode) \<Rightarrow> dheap option" where
  "updp h q f = (case q of None \<Rightarrow> None | Some p \<Rightarrow> upd h p f)"

section \<open>The routines\<close>

definition rb_dlinkAdd :: "nat \<Rightarrow> addr \<Rightarrow> dlist \<Rightarrow> dheap \<Rightarrow> (dlist \<times> dheap) option" where
  "rb_dlinkAdd data m list h = do {
     h \<leftarrow> upd h m (\<lambda>n. n\<lparr>d_data := data, d_prev := None, d_next := l_head list\<rparr>);
     h \<leftarrow> (if l_head list \<noteq> None then updp h (l_head list) (\<lambda>n. n\<lparr>d_prev := Some m\<rparr>) else Some h);
     let list = (if l_head list = None \<and> l_tail list = None then list\<lparr>l_tail := Some m\<rparr> else list);
     Some (list\<lparr>l_head := Some m, l_length := l_length list + 1\<rparr>, h)
   }"

definition rb_dlinkAddTail :: "nat \<Rightarrow> addr \<Rightarrow> dlist \<Rightarrow> dheap \<Rightarrow> (dlist \<times> dheap) option" where
  "rb_dlinkAddTail data m list h = do {
     h \<leftarrow> upd h m (\<lambda>n. n\<lparr>d_data := data, d_next := None, d_prev := l_tail list\<rparr>);
     h \<leftarrow> (if l_tail list \<noteq> None then updp h (l_tail list) (\<lambda>n. n\<lparr>d_next := Some m\<rparr>) else Some h);
     let list = (if l_tail list = None \<and> l_head list = None then list\<lparr>l_head := Some m\<rparr> else list);
     Some (list\<lparr>l_tail := Some m, l_length := l_length list + 1\<rparr>, h)
   }"

definition rb_dlinkAddBefore ::
  "addr \<Rightarrow> nat \<Rightarrow> addr \<Rightarrow> dlist \<Rightarrow> dheap \<Rightarrow> (dlist \<times> dheap) option" where
  "rb_dlinkAddBefore b data m list h =
     (if Some b = l_head list then rb_dlinkAdd data m list h
      else do {
        h \<leftarrow> upd h m (\<lambda>n. n\<lparr>d_data := data\<rparr>);
        nb \<leftarrow> h b;
        h \<leftarrow> updp h (d_prev nb) (\<lambda>n. n\<lparr>d_next := Some m\<rparr>);
        nb \<leftarrow> h b;
        h \<leftarrow> upd h m (\<lambda>n. n\<lparr>d_prev := d_prev nb\<rparr>);
        h \<leftarrow> upd h b (\<lambda>n. n\<lparr>d_prev := Some m\<rparr>);
        h \<leftarrow> upd h m (\<lambda>n. n\<lparr>d_next := Some b\<rparr>);
        Some (list\<lparr>l_length := l_length list + 1\<rparr>, h)
      })"

text \<open>The two link updates that take a node out, shared by the deleting and moving routines.\<close>

definition dlink_unlink :: "addr \<Rightarrow> dlist \<Rightarrow> dheap \<Rightarrow> (dlist \<times> dheap) option" where
  "dlink_unlink m list h = do {
     n \<leftarrow> h m;
     (list, h) \<leftarrow> (if d_next n \<noteq> None
        then do { h \<leftarrow> updp h (d_next n) (\<lambda>k. k\<lparr>d_prev := d_prev n\<rparr>); Some (list, h) }
        else Some (list\<lparr>l_tail := d_prev n\<rparr>, h));
     n \<leftarrow> h m;
     (if d_prev n \<noteq> None
        then do { h \<leftarrow> updp h (d_prev n) (\<lambda>k. k\<lparr>d_next := d_next n\<rparr>); Some (list, h) }
        else Some (list\<lparr>l_head := d_next n\<rparr>, h))
   }"

definition rb_dlinkDelete :: "addr \<Rightarrow> dlist \<Rightarrow> dheap \<Rightarrow> (dlist \<times> dheap) option" where
  "rb_dlinkDelete m list h = do {
     (list, h) \<leftarrow> dlink_unlink m list h;
     h \<leftarrow> upd h m (\<lambda>n. n\<lparr>d_prev := None, d_next := None\<rparr>);
     Some (list\<lparr>l_length := l_length list - 1\<rparr>, h)
   }"

definition rb_dlinkMoveNode ::
  "addr \<Rightarrow> dlist \<Rightarrow> dlist \<Rightarrow> dheap \<Rightarrow> (dlist \<times> dlist \<times> dheap) option" where
  "rb_dlinkMoveNode m oldlist newlist h = do {
     (oldlist, h) \<leftarrow> dlink_unlink m oldlist h;
     h \<leftarrow> upd h m (\<lambda>n. n\<lparr>d_prev := None, d_next := l_head newlist\<rparr>);
     h \<leftarrow> (if l_head newlist \<noteq> None
            then updp h (l_head newlist) (\<lambda>n. n\<lparr>d_prev := Some m\<rparr>) else Some h);
     let newlist = (if l_head newlist = None \<and> l_tail newlist = None
                    then newlist\<lparr>l_tail := Some m\<rparr> else newlist);
     Some (oldlist\<lparr>l_length := l_length oldlist - 1\<rparr>,
           newlist\<lparr>l_head := Some m, l_length := l_length newlist + 1\<rparr>, h)
   }"

definition rb_dlinkMoveTail :: "addr \<Rightarrow> dlist \<Rightarrow> dheap \<Rightarrow> (dlist \<times> dheap) option" where
  "rb_dlinkMoveTail m list h =
     (if l_tail list = Some m then Some (list, h)
      else do {
        n \<leftarrow> h m;
        h \<leftarrow> updp h (d_next n) (\<lambda>k. k\<lparr>d_prev := d_prev n\<rparr>);
        n \<leftarrow> h m;
        (list, h) \<leftarrow> (if d_prev n \<noteq> None
           then do { h \<leftarrow> updp h (d_prev n) (\<lambda>k. k\<lparr>d_next := d_next n\<rparr>); Some (list, h) }
           else Some (list\<lparr>l_head := d_next n\<rparr>, h));
        h \<leftarrow> updp h (l_tail list) (\<lambda>k. k\<lparr>d_next := Some m\<rparr>);
        h \<leftarrow> upd h m (\<lambda>k. k\<lparr>d_prev := l_tail list, d_next := None\<rparr>);
        Some (list\<lparr>l_tail := Some m\<rparr>, h)
      })"

definition rb_dlinkMoveList :: "dlist \<Rightarrow> dlist \<Rightarrow> dheap \<Rightarrow> (dlist \<times> dlist \<times> dheap) option" where
  "rb_dlinkMoveList from to h =
     (if l_head from = None then Some (from, to, h)
      else if l_head to = None then
        Some (from\<lparr>l_head := None, l_tail := None, l_length := 0\<rparr>,
              to\<lparr>l_head := l_head from, l_tail := l_tail from, l_length := l_length from\<rparr>, h)
      else do {
        h \<leftarrow> updp h (l_tail from) (\<lambda>n. n\<lparr>d_next := l_head to\<rparr>);
        h \<leftarrow> updp h (l_head to) (\<lambda>n. n\<lparr>d_prev := l_tail from\<rparr>);
        Some (from\<lparr>l_head := None, l_tail := None, l_length := 0\<rparr>,
              to\<lparr>l_head := l_head from, l_length := l_length to + l_length from\<rparr>, h)
      })"

text \<open>
  \<^verbatim>\<open>RB_DLINK_FOREACH\<close> with an early exit; \<open>fuel\<close> bounds the walk, and running out of it is
  \<^term>\<open>None\<close>, as a walk of a cyclic list that never ends.
\<close>

fun dlink_walk :: "nat \<Rightarrow> nat \<Rightarrow> addr option \<Rightarrow> dheap \<Rightarrow> addr option option" where
  "dlink_walk fuel data None h = Some None"
| "dlink_walk 0 data (Some p) h = None"
| "dlink_walk (Suc fuel) data (Some p) h =
     (case h p of
        None \<Rightarrow> None
      | Some n \<Rightarrow> if d_data n = data then Some (Some p) else dlink_walk fuel data (d_next n) h)"

definition rb_dlinkFind :: "nat \<Rightarrow> nat \<Rightarrow> dlist \<Rightarrow> dheap \<Rightarrow> addr option option" where
  "rb_dlinkFind fuel data list h = dlink_walk fuel data (l_head list) h"

definition rb_dlinkFindDelete ::
  "nat \<Rightarrow> nat \<Rightarrow> dlist \<Rightarrow> dheap \<Rightarrow> (addr option \<times> dlist \<times> dheap) option" where
  "rb_dlinkFindDelete fuel data list h = do {
     r \<leftarrow> dlink_walk fuel data (l_head list) h;
     (case r of
        None \<Rightarrow> Some (None, list, h)
      | Some m \<Rightarrow> do { (list, h) \<leftarrow> rb_dlinkDelete m list h; Some (Some m, list, h) })
   }"

text \<open>\<^verbatim>\<open>rb_free_rb_dlink_node()\<close> gives the node back: the store no longer holds it.\<close>

definition rb_dlinkFindDestroy ::
  "nat \<Rightarrow> nat \<Rightarrow> dlist \<Rightarrow> dheap \<Rightarrow> (bool \<times> dlist \<times> dheap) option" where
  "rb_dlinkFindDestroy fuel data list h = do {
     (r, list, h) \<leftarrow> rb_dlinkFindDelete fuel data list h;
     (case r of
        None \<Rightarrow> Some (False, list, h)
      | Some m \<Rightarrow> Some (True, list, h(m := None)))
   }"

section \<open>Well-formed lists\<close>

definition first_of :: "addr list \<Rightarrow> addr option \<Rightarrow> addr option" where
  "first_of ns q = (case ns of [] \<Rightarrow> q | m # _ \<Rightarrow> Some m)"

definition last_of :: "addr option \<Rightarrow> addr list \<Rightarrow> addr option" where
  "last_of p ns = (if ns = [] then p else Some (last ns))"

text \<open>\<open>chain h p ns q\<close>: the nodes \<open>ns\<close> are linked both ways, from \<open>p\<close> on the left to \<open>q\<close> on the right.\<close>

fun chain :: "dheap \<Rightarrow> addr option \<Rightarrow> addr list \<Rightarrow> addr option \<Rightarrow> bool" where
  "chain h p [] q = True"
| "chain h p (n # ns) q =
     ((\<exists>d. h n = Some \<lparr>d_data = d, d_prev = p, d_next = first_of ns q\<rparr>) \<and> chain h (Some n) ns q)"

definition dl_rep :: "dheap \<Rightarrow> dlist \<Rightarrow> addr list \<Rightarrow> bool" where
  "dl_rep h l ns \<longleftrightarrow>
     distinct ns \<and> chain h None ns None \<and> l_head l = first_of ns None \<and> l_tail l = last_of None ns \<and>
     l_length l = of_nat (length ns)"

definition node_data :: "dheap \<Rightarrow> addr \<Rightarrow> nat" where
  "node_data h p = (case h p of None \<Rightarrow> 0 | Some n \<Rightarrow> d_data n)"

lemma first_of_simps [simp]:
  "first_of [] q = q" "first_of (n # ns) q = Some n"
  "ns \<noteq> [] \<Longrightarrow> first_of (ns @ ms) q = first_of ns r"
  "first_of (ns @ ms) q = first_of ns (first_of ms q)"
  by (auto simp: first_of_def split: list.splits)

lemma last_of_simps [simp]:
  "last_of p [] = p" "last_of p (ns @ [n]) = Some n"
  "last_of p (n # ns) = last_of (Some n) ns"
  "last_of p (ns @ ms) = last_of (last_of p ns) ms"
  by (auto simp: last_of_def)

lemma chain_append:
  "chain h p (ns @ ms) q \<longleftrightarrow> chain h p ns (first_of ms q) \<and> chain h (last_of p ns) ms q"
  by (induction ns arbitrary: p) auto

lemma chain_cong: "(\<And>n. n \<in> set ns \<Longrightarrow> h n = h' n) \<Longrightarrow> chain h p ns q = chain h' p ns q"
  by (induction ns arbitrary: p) auto

lemma chain_frame [simp]: "m \<notin> set ns \<Longrightarrow> chain (h(m := v)) p ns q = chain h p ns q"
  by (rule chain_cong) auto

text \<open>Redirecting the outer link of a chain.\<close>

lemma chain_set_prev:
  assumes "chain h p (n # ns) q" "n \<notin> set ns"
  shows "\<exists>h'. upd h n (\<lambda>k. k\<lparr>d_prev := p'\<rparr>) = Some h' \<and> chain h' p' (n # ns) q \<and>
     (\<forall>x. x \<noteq> n \<longrightarrow> h' x = h x) \<and> (\<forall>x. node_data h' x = node_data h x)"
  using assms by (auto simp: upd_def node_data_def)

lemma chain_set_next:
  assumes "chain h p (ns @ [n]) q" "n \<notin> set ns"
  shows "\<exists>h'. upd h n (\<lambda>k. k\<lparr>d_next := q'\<rparr>) = Some h' \<and> chain h' p (ns @ [n]) q' \<and>
     (\<forall>x. x \<noteq> n \<longrightarrow> h' x = h x) \<and> (\<forall>x. node_data h' x = node_data h x)"
  using assms by (auto simp: upd_def chain_append node_data_def)

section \<open>Refinement: the routines are list operations\<close>

lemma dnode_all_fields [simp]:
  "(y :: dnode)\<lparr>d_data := a, d_prev := p, d_next := q\<rparr> = \<lparr>d_data = a, d_prev = p, d_next = q\<rparr>"
  "(y :: dnode)\<lparr>d_data := a, d_next := q, d_prev := p\<rparr> = \<lparr>d_data = a, d_prev = p, d_next = q\<rparr>"
  "(y :: dnode)\<lparr>d_prev := p, d_next := q\<rparr> = \<lparr>d_data = d_data y, d_prev = p, d_next = q\<rparr>"
  by (cases y; simp)+

lemma dlink_unlink_spec:
  assumes "distinct (xs @ m # ys)" "chain h None (xs @ m # ys) None"
    and "l_head l = first_of (xs @ m # ys) None" "l_tail l = last_of None (xs @ m # ys)"
  shows "\<exists>l' h'. dlink_unlink m l h = Some (l', h') \<and> chain h' None (xs @ ys) None \<and>
     l_head l' = first_of (xs @ ys) None \<and> l_tail l' = last_of None (xs @ ys) \<and>
     l_length l' = l_length l \<and> h' m = h m \<and> m \<in> dom h \<and>
     (\<forall>x. x \<notin> set (xs @ ys) \<longrightarrow> h' x = h x) \<and> (\<forall>x. node_data h' x = node_data h x)"
proof (cases ys)
  case Nil
  show ?thesis
  proof (cases xs rule: rev_cases)
    case Nil
    with assms \<open>ys = []\<close> show ?thesis
      by (auto simp: dlink_unlink_def updp_def upd_def node_data_def)
  next
    case (snoc xs' x)
    with assms \<open>ys = []\<close> show ?thesis
      by (auto simp: dlink_unlink_def updp_def upd_def chain_append node_data_def)
  qed
next
  case (Cons y ys')
  show ?thesis
  proof (cases xs rule: rev_cases)
    case Nil
    with assms \<open>ys = y # ys'\<close> show ?thesis
      by (auto simp: dlink_unlink_def updp_def upd_def chain_append node_data_def)
  next
    case (snoc xs' x)
    with assms \<open>ys = y # ys'\<close> show ?thesis
      by (auto simp: dlink_unlink_def updp_def upd_def chain_append node_data_def)
  qed
qed

lemma rb_dlinkDelete_spec:
  assumes "dl_rep h l (xs @ m # ys)"
  shows "\<exists>l' h'. rb_dlinkDelete m l h = Some (l', h') \<and> dl_rep h' l' (xs @ ys) \<and>
     h' m = Some \<lparr>d_data = node_data h m, d_prev = None, d_next = None\<rparr> \<and>
     (\<forall>x. x \<notin> set (xs @ m # ys) \<longrightarrow> h' x = h x) \<and> (\<forall>x. node_data h' x = node_data h x)"
proof -
  obtain l1 h1 where u: "dlink_unlink m l h = Some (l1, h1)" "chain h1 None (xs @ ys) None"
    "l_head l1 = first_of (xs @ ys) None" "l_tail l1 = last_of None (xs @ ys)"
    "l_length l1 = l_length l" "h1 m = h m" "m \<in> dom h"
    "\<forall>x. x \<notin> set (xs @ ys) \<longrightarrow> h1 x = h x" "\<forall>x. node_data h1 x = node_data h x"
    using dlink_unlink_spec [of xs m ys h l] assms by (auto simp: dl_rep_def)
  have "m \<notin> set (xs @ ys)" and "l_length l = of_nat (length (xs @ ys)) + 1"
    using assms by (auto simp: dl_rep_def)
  with u assms show ?thesis
    by (auto simp: rb_dlinkDelete_def upd_def dl_rep_def node_data_def)
qed

lemma rb_dlinkAdd_spec:
  assumes "dl_rep h l ns" "m \<notin> set ns" "m \<in> dom h"
  shows "\<exists>l' h'. rb_dlinkAdd data m l h = Some (l', h') \<and> dl_rep h' l' (m # ns) \<and>
     node_data h' m = data \<and> (\<forall>x. x \<noteq> m \<longrightarrow> node_data h' x = node_data h x) \<and>
     (\<forall>x. x \<notin> set (m # ns) \<longrightarrow> h' x = h x)"
proof (cases ns)
  case Nil
  with assms show ?thesis
    by (auto simp: rb_dlinkAdd_def upd_def updp_def dl_rep_def node_data_def)
next
  case (Cons n ns')
  with assms show ?thesis
    by (auto simp: rb_dlinkAdd_def upd_def updp_def dl_rep_def node_data_def add.commute)
qed

lemma rb_dlinkAddTail_spec:
  assumes "dl_rep h l ns" "m \<notin> set ns" "m \<in> dom h"
  shows "\<exists>l' h'. rb_dlinkAddTail data m l h = Some (l', h') \<and> dl_rep h' l' (ns @ [m]) \<and>
     node_data h' m = data \<and> (\<forall>x. x \<noteq> m \<longrightarrow> node_data h' x = node_data h x) \<and>
     (\<forall>x. x \<notin> set (ns @ [m]) \<longrightarrow> h' x = h x)"
proof (cases ns rule: rev_cases)
  case Nil
  with assms show ?thesis
    by (auto simp: rb_dlinkAddTail_def upd_def updp_def dl_rep_def node_data_def)
next
  case (snoc ns' n)
  with assms show ?thesis
    by (auto simp: rb_dlinkAddTail_def upd_def updp_def dl_rep_def node_data_def chain_append add.commute)
qed

lemma rb_dlinkAddBefore_spec:
  assumes "dl_rep h l (xs @ b # ys)" "m \<notin> set (xs @ b # ys)" "m \<in> dom h"
  shows "\<exists>l' h'. rb_dlinkAddBefore b data m l h = Some (l', h') \<and> dl_rep h' l' (xs @ m # b # ys) \<and>
     node_data h' m = data \<and> (\<forall>x. x \<noteq> m \<longrightarrow> node_data h' x = node_data h x)"
proof (cases xs rule: rev_cases)
  case Nil
  then show ?thesis
    using rb_dlinkAdd_spec [OF assms, of data] assms by (auto simp: rb_dlinkAddBefore_def dl_rep_def)
next
  case (snoc xs' x)
  then have nh: "Some b \<noteq> l_head l" using assms by (cases xs') (auto simp: dl_rep_def)
  from snoc assms nh show ?thesis
    by (auto simp: rb_dlinkAddBefore_def upd_def updp_def dl_rep_def node_data_def chain_append add.commute)
qed

lemma rb_dlinkMoveNode_spec:
  assumes old: "dl_rep h old (xs @ m # ys)" and new: "dl_rep h new ns"
    and dis: "set (xs @ m # ys) \<inter> set ns = {}"
  shows "\<exists>old' new' h'. rb_dlinkMoveNode m old new h = Some (old', new', h') \<and>
     dl_rep h' old' (xs @ ys) \<and> dl_rep h' new' (m # ns) \<and> (\<forall>x. node_data h' x = node_data h x)"
proof -
  obtain o1 h1 where u: "dlink_unlink m old h = Some (o1, h1)" "chain h1 None (xs @ ys) None"
    "l_head o1 = first_of (xs @ ys) None" "l_tail o1 = last_of None (xs @ ys)"
    "l_length o1 = l_length old" "h1 m = h m" "m \<in> dom h"
    "\<forall>x. x \<notin> set (xs @ ys) \<longrightarrow> h1 x = h x" "\<forall>x. node_data h1 x = node_data h x"
    using dlink_unlink_spec [of xs m ys h old] old by (auto simp: dl_rep_def)
  have "h n = h1 n" if "n \<in> set ns" for n using u(8) dis that by auto
  then have new1: "chain h1 None ns None"
    using new chain_cong [of ns h h1 None None] by (simp add: dl_rep_def)
  have m: "m \<notin> set (xs @ ys)" "m \<notin> set ns" and len: "l_length old = of_nat (length (xs @ ys)) + 1"
    using old dis by (auto simp: dl_rep_def)
  show ?thesis
  proof (cases ns)
    case Nil
    with u new new1 m len old show ?thesis
      by (auto simp: rb_dlinkMoveNode_def upd_def updp_def dl_rep_def node_data_def)
  next
    case (Cons n ns')
    have "n \<notin> set (xs @ ys)" using dis Cons by auto
    with Cons u new new1 m len old show ?thesis
      by (auto simp: rb_dlinkMoveNode_def upd_def updp_def dl_rep_def node_data_def add.commute)
  qed
qed

lemma rb_dlinkMoveTail_spec:
  assumes "dl_rep h l (xs @ m # ys)"
  shows "\<exists>l' h'. rb_dlinkMoveTail m l h = Some (l', h') \<and> dl_rep h' l' (xs @ ys @ [m]) \<and>
     (\<forall>x. node_data h' x = node_data h x)"
proof (cases ys rule: rev_cases)
  case Nil
  with assms show ?thesis by (auto simp: rb_dlinkMoveTail_def dl_rep_def)
next
  case (snoc ys' z)
  then have nt: "l_tail l \<noteq> Some m" using assms by (auto simp: dl_rep_def)
  show ?thesis
  proof (cases ys')
    case Nil
    show ?thesis
      using assms snoc nt Nil
      by (cases xs rule: rev_cases)
        (auto simp: rb_dlinkMoveTail_def upd_def updp_def dl_rep_def node_data_def chain_append)
  next
    case (Cons y ys'')
    show ?thesis
      using assms snoc nt Cons
      by (cases xs rule: rev_cases)
        (auto simp: rb_dlinkMoveTail_def upd_def updp_def dl_rep_def node_data_def chain_append)
  qed
qed

theorem rb_dlinkMoveList_spec:
  assumes "dl_rep h from xs" "dl_rep h to ys" "set xs \<inter> set ys = {}"
  shows "\<exists>from' to' h'. rb_dlinkMoveList from to h = Some (from', to', h') \<and>
     dl_rep h' from' [] \<and> dl_rep h' to' (xs @ ys) \<and> (\<forall>x. node_data h' x = node_data h x)"
proof (cases xs rule: rev_cases)
  case Nil
  with assms show ?thesis by (auto simp: rb_dlinkMoveList_def dl_rep_def)
next
  case (snoc xs' x)
  have nh: "l_head from \<noteq> None"
    using snoc assms(1) by (cases xs') (auto simp: dl_rep_def)
  show ?thesis
  proof (cases ys)
    case Nil
    with snoc assms nh show ?thesis by (auto simp: rb_dlinkMoveList_def dl_rep_def)
  next
    case (Cons y ys')
    with snoc assms nh show ?thesis
      by (auto simp: rb_dlinkMoveList_def upd_def updp_def dl_rep_def node_data_def chain_append add.commute)
  qed
qed

text \<open>Walking: as much fuel as the list has nodes is enough.\<close>

lemma dlink_walk_chain:
  "chain h p ns None \<Longrightarrow> length ns \<le> fuel \<Longrightarrow>
   dlink_walk fuel data (first_of ns None) h = Some (find (\<lambda>n. node_data h n = data) ns)"
proof (induction ns arbitrary: p fuel)
  case (Cons n ns)
  then show ?case by (cases fuel) (auto simp: node_data_def)
qed simp

lemma rb_dlinkFind_spec:
  assumes "dl_rep h l ns" "length ns \<le> fuel"
  shows "rb_dlinkFind fuel data l h = Some (find (\<lambda>n. node_data h n = data) ns)"
  using assms dlink_walk_chain by (auto simp: rb_dlinkFind_def dl_rep_def)

lemma rb_dlinkFindDestroy_absent:
  assumes "dl_rep h l ns" "length ns \<le> fuel" "data \<notin> node_data h ` set ns"
  shows "rb_dlinkFindDestroy fuel data l h = Some (False, l, h)"
proof -
  have "find (\<lambda>n. node_data h n = data) ns = None"
    using assms(3) by (auto simp: find_None_iff)
  with dlink_walk_chain [of h None ns fuel data] assms show ?thesis
    by (simp add: rb_dlinkFindDestroy_def rb_dlinkFindDelete_def dl_rep_def)
qed

lemma rb_dlinkFindDestroy_present:
  assumes "dl_rep h l (xs @ m # ys)" "length (xs @ m # ys) \<le> fuel"
    and "node_data h m = data" "data \<notin> node_data h ` set xs"
  shows "\<exists>l' h'. rb_dlinkFindDestroy fuel data l h = Some (True, l', h') \<and> dl_rep h' l' (xs @ ys) \<and>
     h' m = None \<and> (\<forall>x. x \<noteq> m \<longrightarrow> node_data h' x = node_data h x)"
proof -
  have "find (\<lambda>n. node_data h n = data) (xs @ m # ys) = Some m"
    using assms(3,4) by (induction xs) auto
  then have w: "dlink_walk fuel data (l_head l) h = Some (Some m)"
    using dlink_walk_chain [of h None "xs @ m # ys" fuel data] assms(1,2) by (simp add: dl_rep_def)
  obtain l' h' where d: "rb_dlinkDelete m l h = Some (l', h')" "dl_rep h' l' (xs @ ys)"
    "\<forall>x. node_data h' x = node_data h x"
    using rb_dlinkDelete_spec [OF assms(1)] by blast
  have "m \<notin> set (xs @ ys)" using assms(1) by (auto simp: dl_rep_def)
  then have "dl_rep (h'(m := None)) l' (xs @ ys)"
    using d(2) by (simp add: dl_rep_def)
  with w d show ?thesis
    by (auto simp: rb_dlinkFindDestroy_def rb_dlinkFindDelete_def node_data_def)
qed

section \<open>Properties\<close>

text \<open>
  C36: On a list of linked nodes that represents a sequence, the empty one included, the
  insertions at head and tail and, at a node of the list, the insertion before it, its removal and
  its move to the tail do on the sequence what they say, with head, tail, length and all links
  right; an insertion sets the data of the new node, and no other node's data changes.
\<close>

theorem dlink_ops_refine:
  assumes rep: "dl_rep h l ns"
  shows "(\<forall>n data. n \<notin> set ns \<longrightarrow> n \<in> dom h \<longrightarrow>
      (\<exists>l' h'. rb_dlinkAdd data n l h = Some (l', h') \<and> dl_rep h' l' (n # ns) \<and> (\<forall>x. node_data h' x = (if x = n then data else node_data h x))) \<and>
      (\<exists>l' h'. rb_dlinkAddTail data n l h = Some (l', h') \<and> dl_rep h' l' (ns @ [n]) \<and> (\<forall>x. node_data h' x = (if x = n then data else node_data h x)))) \<and>
    (\<forall>xs m ys. ns = xs @ m # ys \<longrightarrow>
      (\<forall>n data. n \<notin> set ns \<longrightarrow> n \<in> dom h \<longrightarrow>
        (\<exists>l' h'. rb_dlinkAddBefore m data n l h = Some (l', h') \<and> dl_rep h' l' (xs @ n # m # ys) \<and> (\<forall>x. node_data h' x = (if x = n then data else node_data h x)))) \<and>
      (\<exists>l' h'. rb_dlinkDelete m l h = Some (l', h') \<and> dl_rep h' l' (xs @ ys) \<and> (\<forall>x. node_data h' x = node_data h x)) \<and>
      (\<exists>l' h'. rb_dlinkMoveTail m l h = Some (l', h') \<and> dl_rep h' l' (xs @ ys @ [m]) \<and> (\<forall>x. node_data h' x = node_data h x)))"
proof (intro conjI allI impI)
  fix n data assume n: "n \<notin> set ns" "n \<in> dom h"
  show "\<exists>l' h'. rb_dlinkAdd data n l h = Some (l', h') \<and> dl_rep h' l' (n # ns) \<and> (\<forall>x. node_data h' x = (if x = n then data else node_data h x))"
    using rb_dlinkAdd_spec [OF rep n, of data] by auto
  show "\<exists>l' h'. rb_dlinkAddTail data n l h = Some (l', h') \<and> dl_rep h' l' (ns @ [n]) \<and> (\<forall>x. node_data h' x = (if x = n then data else node_data h x))"
    using rb_dlinkAddTail_spec [OF rep n, of data] by auto
next
  fix xs m ys assume ns: "ns = xs @ m # ys"
  show "\<exists>l' h'. rb_dlinkDelete m l h = Some (l', h') \<and> dl_rep h' l' (xs @ ys) \<and> (\<forall>x. node_data h' x = node_data h x)"
    using rb_dlinkDelete_spec [OF rep [unfolded ns]] by blast
  show "\<exists>l' h'. rb_dlinkMoveTail m l h = Some (l', h') \<and> dl_rep h' l' (xs @ ys @ [m]) \<and> (\<forall>x. node_data h' x = node_data h x)"
    using rb_dlinkMoveTail_spec [OF rep [unfolded ns]] by blast
  fix n data assume n: "n \<notin> set ns" "n \<in> dom h"
  show "\<exists>l' h'. rb_dlinkAddBefore m data n l h = Some (l', h') \<and> dl_rep h' l' (xs @ n # m # ys) \<and> (\<forall>x. node_data h' x = (if x = n then data else node_data h x))"
    using rb_dlinkAddBefore_spec [OF rep [unfolded ns] n [unfolded ns], of data] by auto
qed

theorem dlink_ops_refine_witness:
  "\<exists>l' h'. rb_dlinkAdd 20 3 \<lparr>l_head = None, l_tail = None, l_length = 0\<rparr> [3 \<mapsto> \<lparr>d_data = 0, d_prev = None, d_next = None\<rparr>] = Some (l', h') \<and>
     dl_rep h' l' [3] \<and> node_data h' 3 = 20"
proof -
  have "dl_rep [3 \<mapsto> \<lparr>d_data = 0, d_prev = None, d_next = None\<rparr>] \<lparr>l_head = None, l_tail = None, l_length = 0\<rparr> []" by (simp add: dl_rep_def)
  from dlink_ops_refine [OF this] show ?thesis by fastforce
qed

theorem rb_dlinkMoveList_spec_witness:
  "\<exists>f t h'. rb_dlinkMoveList \<lparr>l_head = Some 1, l_tail = Some 1, l_length = 1\<rparr>
       \<lparr>l_head = Some 2, l_tail = Some 2, l_length = 1\<rparr>
       [1 \<mapsto> \<lparr>d_data = 10, d_prev = None, d_next = None\<rparr>,
        2 \<mapsto> \<lparr>d_data = 20, d_prev = None, d_next = None\<rparr>] = Some (f, t, h') \<and> dl_rep h' t [1, 2]"
proof -
  let ?h = "[1 \<mapsto> \<lparr>d_data = 10, d_prev = None, d_next = None\<rparr>, 2 \<mapsto> \<lparr>d_data = 20, d_prev = None, d_next = None\<rparr>]"
  have "dl_rep ?h \<lparr>l_head = Some 1, l_tail = Some 1, l_length = 1\<rparr> [1]"
    "dl_rep ?h \<lparr>l_head = Some 2, l_tail = Some 2, l_length = 1\<rparr> [2]"
    by (simp_all add: dl_rep_def)
  from rb_dlinkMoveList_spec [OF this] show ?thesis by auto
qed

end
