(* ===== verification/Tools.thy ===== *)
theory Tools
  imports Prelude
begin

text \<open>
  The string tools of \<^verbatim>\<open>libratbox/src/tools.c\<close>: bounded copy, concatenation and length, splitting
  paths and splitting a line into parameters.  \<^verbatim>\<open>rb_strlcpy\<close> is in the prelude.
\<close>

section \<open>Bounded concatenation\<close>

text \<open>
  \<^verbatim>\<open>rb_strlcat(dest, src, count)\<close> where \<open>dest\<close> lies in a buffer of \<open>count\<close> bytes.  The arithmetic
  is on \<^verbatim>\<open>size_t\<close>; \<^term>\<open>None\<close> is a write outside the buffer.  The result is the new string and the
  length that was asked for.
\<close>

definition rb_strlcat :: "string \<Rightarrow> string \<Rightarrow> 64 word \<Rightarrow> (string \<times> 64 word) option" where
  "rb_strlcat dest src count =
     (let dsize = of_nat (length dest) :: 64 word;
          len = of_nat (length src) :: 64 word;
          res = dsize + len;
          cnt = count - dsize;
          len' = (if len \<ge> cnt then cnt - 1 else len)
      in if unat dsize + unat len' < unat count
         then Some (dest @ take (unat len') src, res) else None)"

definition rb_strnlen :: "string \<Rightarrow> nat \<Rightarrow> nat" where
  "rb_strnlen s count = length (takeWhile (\<lambda>c. c \<noteq> NUL) (take count s))"

lemma unat_len: "length s < 2 ^ 64 \<Longrightarrow> unat (of_nat (length s) :: 64 word) = length s"
  by (simp add: unat_of_nat)

theorem rb_strlcat_fits:
  assumes "length dest < unat count" "length src < 2 ^ 64"
  shows "rb_strlcat dest src count =
           Some (take (unat count - 1) (dest @ src), of_nat (length dest) + of_nat (length src))"
proof -
  have c: "unat count < 2 ^ 64" using unsigned_less [of count] by simp
  then have d: "unat (of_nat (length dest) :: 64 word) = length dest"
    using assms(1) by (intro unat_len) simp
  have sub: "unat (count - of_nat (length dest)) = unat count - length dest"
    using assms(1) d by (simp add: unat_sub word_le_nat_alt)
  have sub1: "unat (count - of_nat (length dest) - 1) = unat count - length dest - 1"
    using assms(1) sub by (subst unat_minus_one) (auto simp: unat_eq_0)
  show ?thesis
  proof (cases "length src \<ge> unat count - length dest")
    case True
    with d sub sub1 assms show ?thesis
      by (simp add: rb_strlcat_def Let_def word_le_nat_alt unat_len)
  next
    case False
    with d sub assms show ?thesis
      by (simp add: rb_strlcat_def Let_def word_le_nat_alt unat_len)
  qed
qed

text \<open>
  When \<open>dest\<close> already fills the count, \<^verbatim>\<open>count -= dsize\<close> is zero or wraps around, and the copy runs
  over the end of the buffer.
\<close>

lemma rb_strlcat_overflow:
  assumes "unat count \<le> length dest" "length dest + length src < 2 ^ 63"
  shows "rb_strlcat dest src count = None"
proof -
  have d: "unat (of_nat (length dest) :: 64 word) = length dest"
    using assms by (intro unat_len) simp
  then show ?thesis using assms(1) by (simp add: rb_strlcat_def Let_def)
qed

section \<open>Paths\<close>

definition rb_basename :: "string \<Rightarrow> string" where
  "rb_basename path = (case strrchr_split CHR ''/'' path of None \<Rightarrow> path | Some (_, s) \<Rightarrow> s)"

text \<open>The index of the last slash, moved left over a run of slashes but never before the start.\<close>

fun back_slashes :: "string \<Rightarrow> nat \<Rightarrow> nat" where
  "back_slashes path 0 = 0"
| "back_slashes path (Suc i) =
     (if rd path (Suc i) = Some CHR ''/'' then back_slashes path i else Suc i)"

definition rb_dirname :: "string \<Rightarrow> string" where
  "rb_dirname path =
     (case strrchr_split CHR ''/'' path of
        None \<Rightarrow> ''.''
      | Some (d, _) \<Rightarrow> rb_strlcpy path (back_slashes path (length d) + 2))"

lemma back_slashes_le: "back_slashes path i \<le> i"
  by (induction path i rule: back_slashes.induct) auto

lemma rb_dirname_basename:
  assumes "CHR ''/'' \<notin> set b" "d \<noteq> []" "last d \<noteq> CHR ''/''"
  shows "rb_dirname (d @ CHR ''/'' # b) = d" and "rb_basename (d @ CHR ''/'' # b) = b"
proof -
  obtain d' c where d: "d = d' @ [c]" "c \<noteq> CHR ''/''" using assms(2,3) by (cases d rule: rev_cases) auto
  have "back_slashes (d @ CHR ''/'' # b) (length d) = length d'"
  proof -
    have "rd (d @ CHR ''/'' # b) (Suc (length d')) = Some CHR ''/''"
      by (simp add: d(1) rd_def nth_append)
    moreover have "back_slashes (d @ CHR ''/'' # b) (length d') = length d'"
      using d(2) by (cases "length d'") (auto simp: d(1) rd_def nth_append)
    ultimately show ?thesis by (simp add: d(1))
  qed
  then show "rb_dirname (d @ CHR ''/'' # b) = d"
    unfolding rb_dirname_def strrchr_split_append [OF assms(1)] by (simp add: rb_strlcpy_def d(1))
  show "rb_basename (d @ CHR ''/'' # b) = b"
    by (simp add: rb_basename_def strrchr_split_append [OF assms(1)])
qed

section \<open>Splitting a line into parameters\<close>

definition skip_spaces :: "string \<Rightarrow> string" where
  "skip_spaces = dropWhile (\<lambda>c. c = CHR '' '')"

lemma length_skip_spaces: "length (skip_spaces s) \<le> length s"
  by (simp add: skip_spaces_def length_dropWhile_le)

lemma strchr_split_length: "strchr_split c s = Some (a, b) \<Longrightarrow> length s = length a + 1 + length b"
  by (auto dest: strchr_split_Some)

text \<open>
  The loop of both splitters, \<^verbatim>\<open>string_to_array()\<close> of \<^verbatim>\<open>parse.c\<close> and \<^verbatim>\<open>rb_string_to_array()\<close>: \<open>x\<close> is the
  index of the next parameter and \<open>lim\<close> the bound in the loop's condition; \<open>buf\<close> is not empty and does
  not start with a space.  When the loop ends by its condition, the rest of the line is the last
  parameter, from \<open>p\<close>, the byte after the space that ended the one before.  The result lists
  the parameters from index \<open>x\<close> on.
\<close>

function split_loop :: "nat \<Rightarrow> nat \<Rightarrow> string \<Rightarrow> string list" where
  "split_loop lim x buf =
     (if headc buf = CHR '':'' then [tl buf]
      else case strchr_split CHR '' '' buf of
             None \<Rightarrow> [buf]
           | Some (w, p) \<Rightarrow>
               if skip_spaces p = [] then [w]
               else if Suc x < lim then w # split_loop lim (Suc x) (skip_spaces p)
               else [w, if headc p = CHR '':'' then tl p else p])"
  by pat_completeness auto
termination
  by (relation "measure (\<lambda>(lim, x, buf). lim - x)") auto

declare split_loop.simps [simp del]

definition rb_string_to_array :: "string option \<Rightarrow> nat \<Rightarrow> string list" where
  "rb_string_to_array string maxpara =
     (case string of
        None \<Rightarrow> []
      | Some s \<Rightarrow> if skip_spaces s = [] then [] else split_loop (maxpara - 1) 0 (skip_spaces s))"

text \<open>The branches of the loop, with the recursive one separate.\<close>

lemma split_loop_cases:
  obtains (last) "split_loop lim x buf = [tl buf]" "headc buf = CHR '':''"
  | (rest) "split_loop lim x buf = [buf]" "headc buf \<noteq> CHR '':''"
  | (one) w p where "split_loop lim x buf = [w]" "strchr_split CHR '' '' buf = Some (w, p)"
      "headc buf \<noteq> CHR '':''"
  | (more) w p where "split_loop lim x buf = w # split_loop lim (Suc x) (skip_spaces p)"
      "strchr_split CHR '' '' buf = Some (w, p)" "headc buf \<noteq> CHR '':''" "skip_spaces p \<noteq> []" "Suc x < lim"
  | (full) w p q where "split_loop lim x buf = [w, q]" "strchr_split CHR '' '' buf = Some (w, p)"
      "headc buf \<noteq> CHR '':''" "\<not> Suc x < lim" "q = (if headc p = CHR '':'' then tl p else p)"
proof -
  note eq = split_loop.simps [of lim x buf]
  show thesis
  proof (cases "headc buf = CHR '':''")
    case True
    then show thesis by (intro last) (simp_all add: eq)
  next
    case col: False
    show thesis
    proof (cases "strchr_split CHR '' '' buf")
      case None
      with col show thesis by (intro rest) (simp_all add: eq)
    next
      case (Some wp)
      obtain w p where wp: "strchr_split CHR '' '' buf = Some (w, p)" using Some by (cases wp) auto
      show thesis
      proof (cases "skip_spaces p = []")
        case True
        with col wp show thesis by (intro one) (simp_all add: eq)
      next
        case sk: False
        show thesis
        proof (cases "Suc x < lim")
          case True
          with col wp sk show thesis by (intro more) (simp_all add: eq)
        next
          case False
          with col wp sk show thesis by (intro full) (simp_all add: eq)
        qed
      qed
    qed
  qed
qed

lemma split_loop_length: "length (split_loop lim x buf) \<le> max 2 (lim - x + 1)"
proof (induction "lim - x" arbitrary: x buf rule: less_induct)
  case less
  show ?case
  proof (cases rule: split_loop_cases [of lim x buf])
    case (more w p)
    have "lim - Suc x < lim - x" using more(5) by simp
    from less [OF this, of "skip_spaces p"] more show ?thesis by auto
  qed auto
qed

lemma rb_string_to_array_length: "2 \<le> maxpara \<Longrightarrow> length (rb_string_to_array s maxpara) \<le> maxpara"
  using split_loop_length [of "maxpara - 1" 0 "skip_spaces (the s)"]
  by (auto simp: rb_string_to_array_def split: option.split)

text \<open>
  The protocol's way of writing a parameter list: middle parameters are not empty, have no space and do
  not start with a colon; the last one is marked by a colon and may hold anything.
\<close>

definition middle_param :: "string \<Rightarrow> bool" where
  "middle_param w \<longleftrightarrow> w \<noteq> [] \<and> CHR '' '' \<notin> set w \<and> headc w \<noteq> CHR '':''"

fun write_params :: "string list \<Rightarrow> string \<Rightarrow> string" where
  "write_params [] trail = CHR '':'' # trail"
| "write_params (w # ws) trail = w @ CHR '' '' # write_params ws trail"

lemma headc_append: "headc (a @ b) = (if a = [] then headc b else headc a)"
  by (cases a) auto

lemma skip_spaces_write:
  "list_all middle_param ws \<Longrightarrow> skip_spaces (write_params ws trail) = write_params ws trail"
proof (cases ws)
  case (Cons w ws')
  assume "list_all middle_param ws"
  then show ?thesis using Cons by (cases w) (auto simp: skip_spaces_def middle_param_def)
qed (simp add: skip_spaces_def)

lemma write_params_ne [simp]: "write_params ws trail \<noteq> []"
  by (cases ws) auto

lemma split_loop_write:
  "list_all middle_param ws \<Longrightarrow> length ws + x \<le> lim \<Longrightarrow>
   split_loop lim x (write_params ws trail) = ws @ [trail]"
proof (induction ws arbitrary: x)
  case Nil
  then show ?case by (simp add: split_loop.simps)
next
  case (Cons w ws)
  let ?p = "write_params ws trail"
  have w: "headc (write_params (w # ws) trail) \<noteq> CHR '':''"
    and split: "strchr_split CHR '' '' (write_params (w # ws) trail) = Some (w, ?p)"
    using Cons.prems by (auto simp: middle_param_def headc_append intro: strchr_split_append)
  have sk: "skip_spaces ?p = ?p" using Cons.prems by (simp add: skip_spaces_write)
  show ?case
  proof (cases ws)
    case Nil
    then show ?thesis
      using w split sk Cons.IH [of "Suc x"] Cons.prems
      by (subst split_loop.simps) (auto simp: split_loop.simps)
  next
    case (Cons w' ws')
    then have "Suc x < lim" using Cons.prems by simp
    then show ?thesis
      using w split sk Cons.IH [of "Suc x"] Cons.prems
      by (subst split_loop.simps) auto
  qed
qed

text \<open>All parameters but the last are middle parameters.\<close>

lemma skip_spaces_head: "headc (skip_spaces p) \<noteq> CHR '' ''"
  unfolding skip_spaces_def by (induction p) (auto simp: NUL_def)

lemma split_loop_middle:
  "headc buf \<noteq> CHR '' '' \<Longrightarrow> list_all middle_param (butlast (split_loop lim x buf))"
proof (induction "lim - x" arbitrary: x buf rule: less_induct)
  case less
  have m: "middle_param w" if "strchr_split CHR '' '' buf = Some (w, p)" "headc buf \<noteq> CHR '':''" for w p
    using strchr_split_Some [OF that(1)] less.prems that(2) by (cases w) (auto simp: middle_param_def)
  show ?case
  proof (cases rule: split_loop_cases [of lim x buf])
    case (more w p)
    have "lim - Suc x < lim - x" using more(5) by simp
    from less(1) [OF this skip_spaces_head [of p]] more m show ?thesis by auto
  qed (use m in auto)
qed

section \<open>Concrete instances\<close>

theorem rb_strlcat_fits_witness:
  "rb_strlcat ''ab'' ''cdef'' 5 = Some (''abcd'', 6)"
  using rb_strlcat_fits [of "''ab''" 5 "''cdef''"] by simp

end
