(* ===== verification/Ident.thy ===== *)
theory Ident
  imports Glob
begin

text \<open>
  The rest of the string layer of \<^verbatim>\<open>libratboxcore/match.c\<close>: collapsing of masks, the
  case-insensitive comparisons and the checks on host, user and server names.
\<close>

section \<open>Collapsing masks\<close>

text \<open>
  \<^verbatim>\<open>collapse()\<close> rewrites the mask in place; its write pointer never passes its read pointer,
  so the result is the list of the bytes written.  Bit 0 of \<open>f\<close> says that the byte before was a
  star, bit 1 (\<^verbatim>\<open>collapse_esc()\<close> only) that it was an escape.
\<close>

fun collapse_loop :: "bool \<Rightarrow> string \<Rightarrow> string" where
  "collapse_loop f [] = []"
| "collapse_loop f (c # p) =
     (if c = CHR ''*'' then (if \<not> f then CHR ''*'' # collapse_loop True p else collapse_loop True p)
      else c # collapse_loop False p)"

definition collapse :: "string \<Rightarrow> string" where
  "collapse pattern = collapse_loop False pattern"

fun collapse_esc_loop :: "bool \<Rightarrow> bool \<Rightarrow> string \<Rightarrow> string" where
  "collapse_esc_loop f1 f2 [] = []"
| "collapse_esc_loop f1 f2 (c # p) =
     (if \<not> f2 \<and> c = CHR ''*'' then
        (if \<not> f1 then CHR ''*'' # collapse_esc_loop True f2 p else collapse_esc_loop True f2 p)
      else if \<not> f2 \<and> c = CHR 0x5C then CHR 0x5C # collapse_esc_loop f1 True p
      else c # collapse_esc_loop False False p)"

definition collapse_esc :: "string \<Rightarrow> string" where
  "collapse_esc pattern = collapse_esc_loop False False pattern"

fun no_double_star :: "string \<Rightarrow> bool" where
  "no_double_star (a # b # s) = (\<not> (a = star \<and> b = star) \<and> no_double_star (b # s))"
| "no_double_star s = True"

lemma no_double_star_Cons:
  "no_double_star (c # s) \<longleftrightarrow> \<not> (c = star \<and> s \<noteq> [] \<and> hd s = star) \<and> no_double_star s"
  by (cases s) auto

lemma collapse_loop_True_hd: "collapse_loop True p \<noteq> [] \<Longrightarrow> hd (collapse_loop True p) \<noteq> star"
  by (induction p) auto

lemma collapse_loop_no_double: "no_double_star (collapse_loop f p)"
proof (induction p arbitrary: f)
  case (Cons c p)
  then show ?case by (auto simp: no_double_star_Cons dest: collapse_loop_True_hd)
qed simp

lemma collapse_loop_fix:
  "no_double_star p \<Longrightarrow> (f \<longrightarrow> p = [] \<or> hd p \<noteq> star) \<Longrightarrow> collapse_loop f p = p"
proof (induction p arbitrary: f)
  case (Cons c p)
  then show ?case by (auto simp: no_double_star_Cons)
qed simp

lemma glob_collapse_loop:
  "glob (collapse_loop False p) ys = glob p ys \<and>
   glob (star # collapse_loop True p) ys = glob (star # p) ys"
proof (induction p arbitrary: ys)
  case (Cons c p)
  show ?case
  proof (cases "c = star")
    case True
    then show ?thesis using Cons glob_star_star by (simp del: glob.simps)
  next
    case False
    have eq: "glob (c # collapse_loop False p) zs = glob (c # p) zs" for zs
      using Cons False by (cases zs) auto
    then have "glob (star # c # collapse_loop False p) ys = glob (star # c # p) ys"
      unfolding glob_star by simp
    with eq False show ?thesis by (simp del: glob.simps)
  qed
qed simp

section \<open>Case-insensitive comparison\<close>

text \<open>
  \<^verbatim>\<open>irccmp()\<close> walks both strings forwards, so the pointers are the rest of each string.  The
  difference of two table entries is a C \<^verbatim>\<open>int\<close> between -255 and 255.
\<close>

definition upper_diff :: "char \<Rightarrow> char \<Rightarrow> int" where
  "upper_diff c d = int (code (ToUpper c)) - int (code (ToUpper d))"

function irccmp :: "string \<Rightarrow> string \<Rightarrow> int" where
  "irccmp s1 s2 =
     (if upper_diff (headc s1) (headc s2) \<noteq> 0 then upper_diff (headc s1) (headc s2)
      else if headc s1 = NUL then 0
      else irccmp (tl s1) (tl s2))"
  by pat_completeness auto
termination
proof (relation "measure (\<lambda>(s1, s2). length s1)")
  show "((tl s1, tl s2), s1, s2) \<in> measure (\<lambda>(s1, s2). length s1)" if "headc s1 \<noteq> NUL" for s1 s2
    using that by (cases s1) auto
qed simp

declare irccmp.simps [simp del]

text \<open>
  \<^verbatim>\<open>ircncmp()\<close> moves both pointers before it looks for the terminator, so its reads are
  checked.
\<close>

function ircncmp_loop :: "string \<Rightarrow> string \<Rightarrow> nat \<Rightarrow> int \<Rightarrow> int option" where
  "ircncmp_loop s1 s2 i n =
     (case rd s1 i of None \<Rightarrow> None | Some c \<Rightarrow>
      (case rd s2 i of None \<Rightarrow> None | Some d \<Rightarrow>
         if upper_diff c d \<noteq> 0 then Some (upper_diff c d)
         else if n - 1 = 0 then Some 0
         else if rd s1 (Suc i) = Some NUL \<and> rd s2 (Suc i) = Some NUL then Some 0
         else ircncmp_loop s1 s2 (Suc i) (n - 1)))"
  by pat_completeness auto
termination
  by (relation "measure (\<lambda>(s1, s2, i, n). Suc (length s1) - i)") (auto simp: rd_def split: if_splits)

declare ircncmp_loop.simps [simp del]

definition ircncmp :: "string \<Rightarrow> string \<Rightarrow> int \<Rightarrow> int option" where
  "ircncmp s1 s2 n = ircncmp_loop s1 s2 0 n"

lemma upper_diff_0 [simp]: "upper_diff c d = 0 \<longleftrightarrow> ToUpper c = ToUpper d"
  by (simp add: upper_diff_def)

lemma upper_diff_swap: "upper_diff d c = - upper_diff c d"
  by (simp add: upper_diff_def)

lemma upper_diff_trans: "upper_diff c e = upper_diff c d + upper_diff d e"
  by (simp add: upper_diff_def)

lemma irccmp_Nil_Nil [simp]: "irccmp [] [] = 0"
  by (subst irccmp.simps) simp

lemma irccmp_Nil_Cons [simp]: "d \<noteq> NUL \<Longrightarrow> irccmp [] (d # t) = upper_diff NUL d"
  by (subst irccmp.simps) (metis ToUpper_eq_NUL headc.simps upper_diff_0)

lemma irccmp_Cons_Nil [simp]: "c \<noteq> NUL \<Longrightarrow> irccmp (c # s) [] = upper_diff c NUL"
  by (subst irccmp.simps) (metis ToUpper_eq_NUL headc.simps upper_diff_0)

lemma irccmp_Cons_Cons [simp]:
  "c \<noteq> NUL \<Longrightarrow> d \<noteq> NUL \<Longrightarrow>
   irccmp (c # s) (d # t) = (if ToUpper c = ToUpper d then irccmp s t else upper_diff c d)"
  by (subst irccmp.simps) simp

lemma irccmp_eq_0_iff:
  "cstring s \<Longrightarrow> cstring t \<Longrightarrow> irccmp s t = 0 \<longleftrightarrow> map ToUpper s = map ToUpper t"
proof (induction s arbitrary: t)
  case Nil
  then show ?case by (cases t) (auto, metis ToUpper_eq_NUL)
next
  case (Cons c s)
  then show ?case by (cases t) auto
qed

lemma irccmp_swap: "cstring s \<Longrightarrow> cstring t \<Longrightarrow> irccmp t s = - irccmp s t"
proof (induction s arbitrary: t)
  case Nil
  then show ?case
    by (cases t) (use upper_diff_swap [of _ NUL] in auto)
next
  case (Cons c s)
  show ?case
  proof (cases t)
    case Nil
    with Cons.prems show ?thesis using upper_diff_swap [of NUL c] by simp
  next
    case t: (Cons d t')
    with Cons show ?thesis using upper_diff_swap [of d c] by auto
  qed
qed

lemma upper_diff_NUL_neg: "c \<noteq> NUL \<Longrightarrow> upper_diff NUL c < 0"
proof -
  assume "c \<noteq> NUL"
  then have "ToUpper c \<noteq> NUL" by simp
  then have "code (ToUpper c) \<noteq> 0" by (metis code_NUL char_eq_code)
  moreover have "ToUpper NUL = NUL" by simp
  ultimately show ?thesis by (simp add: upper_diff_def)
qed

lemma irccmp_trans:
  "cstring s \<Longrightarrow> cstring t \<Longrightarrow> cstring u \<Longrightarrow> irccmp s t \<le> 0 \<Longrightarrow> irccmp t u \<le> 0 \<Longrightarrow> irccmp s u \<le> 0"
proof (induction s arbitrary: t u)
  case Nil
  then show ?case by (cases u) (auto dest: upper_diff_NUL_neg)
next
  case (Cons c s)
  show ?case
  proof (cases t)
    case Nil
    with Cons.prems show ?thesis
      using upper_diff_NUL_neg [of c] upper_diff_swap [of c NUL] by auto
  next
    case t: (Cons d t')
    show ?thesis
    proof (cases u)
      case Nil
      with Cons.prems t show ?thesis
        using upper_diff_NUL_neg [of d] upper_diff_swap [of d NUL] by auto
    next
      case u: (Cons e u')
      have "upper_diff c e = upper_diff c d + upper_diff d e" by (rule upper_diff_trans)
      with Cons.prems t u Cons.IH [of t' u'] show ?thesis
        using upper_diff_0 [of c d] upper_diff_0 [of d e] upper_diff_0 [of c e]
        by (cases "ToUpper c = ToUpper d"; cases "ToUpper d = ToUpper e") (simp_all del: upper_diff_0)
    qed
  qed
qed

section \<open>Host, user and server names\<close>

fun valid_hostname_loop :: "nat \<Rightarrow> string \<Rightarrow> bool" where
  "valid_hostname_loop found_sep [] = (found_sep \<noteq> 0)"
| "valid_hostname_loop found_sep (c # p) =
     (if \<not> IsHostChar c then False
      else valid_hostname_loop (if c = CHR ''.'' \<or> c = CHR '':'' then Suc found_sep else found_sep) p)"

definition valid_hostname :: "string \<Rightarrow> bool" where
  "valid_hostname hostname =
     (if headc hostname = CHR ''.'' \<or> headc hostname = CHR '':'' then False
      else valid_hostname_loop 0 hostname)"

text \<open>\<open>dots_in_ident\<close> is \<^verbatim>\<open>ConfigFileEntry.dots_in_ident\<close>.\<close>

fun valid_username_loop :: "nat \<Rightarrow> nat \<Rightarrow> string \<Rightarrow> bool" where
  "valid_username_loop dots_in_ident dots [] = True"
| "valid_username_loop dots_in_ident dots (c # p) =
     (if c = CHR ''.'' \<and> dots_in_ident \<noteq> 0 then
        (if Suc dots > dots_in_ident then False
         else if \<not> IsUserChar (headc p) then False
         else valid_username_loop dots_in_ident (Suc dots) p)
      else if \<not> IsUserChar c then False
      else valid_username_loop dots_in_ident dots p)"

definition valid_username :: "nat \<Rightarrow> string \<Rightarrow> bool" where
  "valid_username dots_in_ident username =
     (let p = (if headc username = CHR ''~'' then tl username else username)
      in if \<not> IsAlNum (headc p) then False
         else valid_username_loop dots_in_ident 0 (tl p))"

fun valid_servername_loop :: "nat \<Rightarrow> string \<Rightarrow> bool" where
  "valid_servername_loop dots [] = (dots \<noteq> 0)"
| "valid_servername_loop dots (c # s) =
     (if \<not> IsServChar c then False
      else valid_servername_loop (if c = CHR ''.'' then Suc dots else dots) s)"

definition valid_servername :: "string \<Rightarrow> bool" where
  "valid_servername servername = valid_servername_loop 0 servername"

lemma valid_hostname_loop_iff:
  "valid_hostname_loop k p \<longleftrightarrow>
   (\<forall>c \<in> set p. IsHostChar c) \<and> (k \<noteq> 0 \<or> CHR ''.'' \<in> set p \<or> CHR '':'' \<in> set p)"
  by (induction k p rule: valid_hostname_loop.induct) auto

lemma valid_servername_loop_iff:
  "valid_servername_loop k s \<longleftrightarrow> (\<forall>c \<in> set s. IsServChar c) \<and> (k \<noteq> 0 \<or> CHR ''.'' \<in> set s)"
  by (induction k s rule: valid_servername_loop.induct) auto

lemma valid_username_loop_chars:
  "valid_username_loop d k p \<Longrightarrow> \<forall>c \<in> set p. IsUserChar c"
proof (induction d k p rule: valid_username_loop.induct)
  case (2 d k c p)
  have "IsUserChar (CHR ''.'')" by (simp add: IsUserChar_iff)
  with 2 show ?case by (auto split: if_splits)
qed simp

lemma valid_username_loop_dots:
  "valid_username_loop d k p \<Longrightarrow> d \<noteq> 0 \<Longrightarrow> k \<le> d \<Longrightarrow>
   k + length (filter (\<lambda>c. c = CHR ''.'') p) \<le> d \<and> (p \<noteq> [] \<longrightarrow> last p \<noteq> CHR ''.'')"
proof (induction d k p rule: valid_username_loop.induct)
  case (2 d k c p)
  have "\<not> IsUserChar NUL" by (simp add: IsUserChar_iff)
  with 2 show ?case by (cases p) (auto split: if_splits)
qed simp

section \<open>Properties\<close>

text \<open>
  C38: collapse() changes no glob match: the collapsed mask accepts the same names, has no two
  stars in a row, and collapsing again changes nothing.
\<close>

theorem collapse_equiv:
  "glob (collapse p) s = glob p s \<and> no_double_star (collapse p) \<and> collapse (collapse p) = collapse p"
  by (simp add: collapse_def glob_collapse_loop collapse_loop_no_double collapse_loop_fix)

theorem irccmp_order:
  assumes "cstring s" "cstring t" "cstring u"
  shows "(irccmp s t = 0 \<longleftrightarrow> map ToUpper s = map ToUpper t) \<and> irccmp t s = - irccmp s t \<and>
    (irccmp s t \<le> 0 \<and> irccmp t u \<le> 0 \<longrightarrow> irccmp s u \<le> 0)"
  using assms irccmp_eq_0_iff irccmp_swap irccmp_trans by blast

theorem irccmp_order_witness: "irccmp ''Nick'' ''nICK'' = 0 \<and> irccmp ''abc'' ''ABD'' < 0 \<and> irccmp ''abc'' ''b'' \<le> 0"
proof -
  have a: "irccmp ''abc'' ''ABD'' = -1" "irccmp ''ABD'' ''b'' = -1" by code_simp+
  then show ?thesis
    using irccmp_order [of "''Nick''" "''nICK''" "''''"] irccmp_order [of "''abc''" "''ABD''" "''b''"]
    by (simp add: cstring_def NUL_def ToUpper_Char)
qed

theorem valid_names_iff:
  "(valid_hostname h \<longleftrightarrow> h \<noteq> [] \<and> hd h \<noteq> CHR ''.'' \<and> hd h \<noteq> CHR '':'' \<and>
     (\<forall>c \<in> set h. IsHostChar c) \<and> (CHR ''.'' \<in> set h \<or> CHR '':'' \<in> set h)) \<and>
   (valid_servername s \<longleftrightarrow> (\<forall>c \<in> set s. IsServChar c) \<and> CHR ''.'' \<in> set s)"
  by (cases h) (auto simp: valid_hostname_def valid_servername_def valid_hostname_loop_iff valid_servername_loop_iff)

theorem valid_names_iff_witness: "valid_hostname ''irc.az.it'' \<and> \<not> valid_hostname ''.az'' \<and> \<not> valid_servername ''localhost''"
  using valid_names_iff [of "''irc.az.it''" "''localhost''"] valid_names_iff [of "''.az''" "''localhost''"]
  by (simp add: IsHostChar_iff)

theorem valid_username_sound:
  assumes "valid_username d u"
  shows "u \<noteq> [] \<and> (\<forall>c \<in> set u. IsUserChar c) \<and>
    (d \<noteq> 0 \<longrightarrow> length (filter (\<lambda>c. c = CHR ''.'') u) \<le> d \<and> last u \<noteq> CHR ''.'')"
proof -
  define p where "p = (if headc u = CHR ''~'' then tl u else u)"
  from assms have a: "IsAlNum (headc p)" and l: "valid_username_loop d 0 (tl p)"
    by (auto simp: valid_username_def Let_def p_def split: if_splits)
  then obtain h q where p: "p = h # q" by (cases p) (auto simp: IsAlNum_iff)
  have u: "u = p \<or> u = CHR ''~'' # p" using p by (cases u) (auto simp: p_def split: if_splits)
  have hp: "IsUserChar h" "h \<noteq> CHR ''.''" "IsUserChar CHR ''~''"
    using a p by (auto simp: IsAlNum_iff IsUserChar_iff)
  have "\<forall>c \<in> set q. IsUserChar c" using valid_username_loop_chars [OF l] p by simp
  moreover have "d \<noteq> 0 \<Longrightarrow> length (filter (\<lambda>c. c = CHR ''.'') q) \<le> d \<and> (q \<noteq> [] \<longrightarrow> last q \<noteq> CHR ''.'')"
    using valid_username_loop_dots [OF l] p by simp
  ultimately show ?thesis using u hp p by (cases "q = []") auto
qed

theorem valid_username_sound_witness:
  "valid_username 1 ''~john.doe'' \<and> length (filter (\<lambda>c. c = CHR ''.'') ''~john.doe'') \<le> 1"
proof -
  have "valid_username 1 ''~john.doe''" by code_simp
  with valid_username_sound [OF this] show ?thesis by simp
qed

end
