(* ===== verification/Structs.thy ===== *)
theory Structs
  imports Prelude
begin

text \<open>
  The shared structures of the server: \<^verbatim>\<open>struct Client\<close>, \<^verbatim>\<open>struct LocalUser\<close>
  (\<^verbatim>\<open>include/struct.h\<close>), \<^verbatim>\<open>struct Channel\<close>, \<^verbatim>\<open>struct membership\<close>, \<^verbatim>\<open>struct Ban\<close>
  (\<^verbatim>\<open>include/channel.h\<close>), with the status and flag macros of \<^verbatim>\<open>include/client.h\<close> and
  \<^verbatim>\<open>include/channel.h\<close>.  A record has the fields the modelled code uses.  An object is named by its
  address; the store of a type maps the addresses in use to their objects, so that reading
  through a pointer to a freed object is \<^term>\<open>None\<close>.  A \<^verbatim>\<open>rb_dlink_list\<close> held in an object is the
  sequence of its data pointers.  A client that has no name yet (\<^verbatim>\<open>NULL\<close> in C) has the empty name.
\<close>

type_synonym ptr = nat

section \<open>Clients\<close>

record LocalUser =
  lu_fd :: int
  lu_caps :: "32 word"
  lu_localflags :: "32 word"
  lu_invited :: "ptr list"
  lu_last_join_time :: int
  lu_last_leave_time :: int
  lu_join_leave_count :: int
  lu_oper_warn_count_down :: "8 word"
  lu_number_of_nick_changes :: "16 word"
  lu_cork_count :: "16 word"
  lu_firsttime :: int
  lu_lasttime :: int
  lu_allow_read :: "16 word"
  lu_actually_read :: "16 word"
  lu_sent_parsed :: "16 word"
  lu_receiveM :: "32 word"
  lu_receiveB :: "64 word"

record Client =
  cl_name :: string
  cl_id :: string
  cl_username :: string
  cl_host :: string
  cl_virthost :: string
  cl_sockhost :: string
  cl_info :: string
  cl_tsinfo :: int
  cl_status :: "8 word"
  cl_flags :: "32 word"
  cl_umodes :: "32 word"
  cl_operflags :: "32 word"
  cl_handler :: nat
  cl_user :: "ptr list option"  \<comment> \<open>\<^verbatim>\<open>user\<close>: its \<^verbatim>\<open>channel\<close> list of memberships, or \<^verbatim>\<open>NULL\<close>\<close>
  cl_suser :: string  \<comment> \<open>\<^verbatim>\<open>user->suser\<close>, the services login\<close>
  cl_away :: "string option"  \<comment> \<open>\<^verbatim>\<open>user->away\<close>\<close>
  cl_servptr :: "ptr option"
  cl_from :: ptr
  cl_local :: "LocalUser option"

definition STAT_CONNECTING :: "8 word" where "STAT_CONNECTING = 0x01"
definition STAT_HANDSHAKE :: "8 word" where "STAT_HANDSHAKE = 0x02"
definition STAT_ME :: "8 word" where "STAT_ME = 0x04"
definition STAT_UNKNOWN :: "8 word" where "STAT_UNKNOWN = 0x08"
definition STAT_REJECT :: "8 word" where "STAT_REJECT = 0x10"
definition STAT_SERVER :: "8 word" where "STAT_SERVER = 0x20"
definition STAT_CLIENT :: "8 word" where "STAT_CLIENT = 0x40"

definition IsRegistered :: "Client \<Rightarrow> bool" where
  "IsRegistered c \<longleftrightarrow> cl_status c > STAT_UNKNOWN \<and> cl_status c \<noteq> STAT_REJECT"
definition IsMe :: "Client \<Rightarrow> bool" where "IsMe c \<longleftrightarrow> cl_status c = STAT_ME"
definition IsUnknown :: "Client \<Rightarrow> bool" where "IsUnknown c \<longleftrightarrow> cl_status c = STAT_UNKNOWN"
definition IsServer :: "Client \<Rightarrow> bool" where "IsServer c \<longleftrightarrow> cl_status c = STAT_SERVER"
definition IsClient :: "Client \<Rightarrow> bool" where "IsClient c \<longleftrightarrow> cl_status c = STAT_CLIENT"
definition IsHandshake :: "Client \<Rightarrow> bool" where "IsHandshake c \<longleftrightarrow> cl_status c = STAT_HANDSHAKE"
definition IsConnecting :: "Client \<Rightarrow> bool" where "IsConnecting c \<longleftrightarrow> cl_status c = STAT_CONNECTING"
definition IsAnyServer :: "Client \<Rightarrow> bool" where
  "IsAnyServer c \<longleftrightarrow> IsServer c \<or> IsHandshake c \<or> IsConnecting c"

definition FLAGS_DEAD :: "32 word" where "FLAGS_DEAD = 0x00000002"
definition FLAGS_CLOSING :: "32 word" where "FLAGS_CLOSING = 0x00000008"
definition FLAGS_MYCONNECT :: "32 word" where "FLAGS_MYCONNECT = 0x00000400"
definition FLAGS_IOERROR :: "32 word" where "FLAGS_IOERROR = 0x00000800"
definition FLAGS_EXEMPTRESV :: "32 word" where "FLAGS_EXEMPTRESV = 0x00004000"
definition FLAGS_SHUNNED :: "32 word" where "FLAGS_SHUNNED = 0x08000000"
definition UMODE_INVISIBLE :: "32 word" where "UMODE_INVISIBLE = 0x0400"
definition UMODE_OPER :: "32 word" where "UMODE_OPER = 0x100000"
definition UMODE_CRYPTHOST :: "32 word" where "UMODE_CRYPTHOST = 0x1000000"

definition UMODE_SERVICE :: "32 word" where "UMODE_SERVICE = 0x40000"
definition FLAGS_FLOODDONE :: "32 word" where "FLAGS_FLOODDONE = 0x00800000"
definition OPER_SPY :: "32 word" where "OPER_SPY = 0x10000"

definition MyConnect :: "Client \<Rightarrow> bool" where "MyConnect c \<longleftrightarrow> cl_flags c AND FLAGS_MYCONNECT \<noteq> 0"
definition MyClient :: "Client \<Rightarrow> bool" where "MyClient c \<longleftrightarrow> MyConnect c \<and> IsClient c"
definition IsDead :: "Client \<Rightarrow> bool" where "IsDead c \<longleftrightarrow> cl_flags c AND FLAGS_DEAD \<noteq> 0"
definition IsClosing :: "Client \<Rightarrow> bool" where "IsClosing c \<longleftrightarrow> cl_flags c AND FLAGS_CLOSING \<noteq> 0"
definition IsIOError :: "Client \<Rightarrow> bool" where "IsIOError c \<longleftrightarrow> cl_flags c AND FLAGS_IOERROR \<noteq> 0"
definition IsAnyDead :: "Client \<Rightarrow> bool" where "IsAnyDead c \<longleftrightarrow> IsIOError c \<or> IsDead c \<or> IsClosing c"
definition IsShunned :: "Client \<Rightarrow> bool" where "IsShunned c \<longleftrightarrow> cl_flags c AND FLAGS_SHUNNED \<noteq> 0"
definition IsExemptResv :: "Client \<Rightarrow> bool" where "IsExemptResv c \<longleftrightarrow> cl_flags c AND FLAGS_EXEMPTRESV \<noteq> 0"
definition IsOper :: "Client \<Rightarrow> bool" where "IsOper c \<longleftrightarrow> cl_umodes c AND UMODE_OPER \<noteq> 0"
definition IsInvisible :: "Client \<Rightarrow> bool" where "IsInvisible c \<longleftrightarrow> cl_umodes c AND UMODE_INVISIBLE \<noteq> 0"
definition IsCloaked :: "Client \<Rightarrow> bool" where "IsCloaked c \<longleftrightarrow> cl_umodes c AND UMODE_CRYPTHOST \<noteq> 0"

definition IsService :: "Client \<Rightarrow> bool" where "IsService c \<longleftrightarrow> cl_umodes c AND UMODE_SERVICE \<noteq> 0"
definition IsFloodDone :: "Client \<Rightarrow> bool" where "IsFloodDone c \<longleftrightarrow> cl_flags c AND FLAGS_FLOODDONE \<noteq> 0"
definition IsOperSpy :: "Client \<Rightarrow> bool" where "IsOperSpy c \<longleftrightarrow> cl_operflags c AND OPER_SPY \<noteq> 0"

definition FLAGS_EXEMPTSPAMBOT :: "32 word" where "FLAGS_EXEMPTSPAMBOT = 0x01000000"
definition FLAGS_EXEMPTJUPE :: "32 word" where "FLAGS_EXEMPTJUPE = 0x04000000"
definition LFLAGS_SSL :: "32 word" where "LFLAGS_SSL = 0x00000001"
definition IsExemptSpambot :: "Client \<Rightarrow> bool" where "IsExemptSpambot c \<longleftrightarrow> cl_flags c AND FLAGS_EXEMPTSPAMBOT \<noteq> 0"
definition IsExemptJupe :: "Client \<Rightarrow> bool" where "IsExemptJupe c \<longleftrightarrow> cl_flags c AND FLAGS_EXEMPTJUPE \<noteq> 0"
definition IsSSL :: "LocalUser \<Rightarrow> bool" where "IsSSL l \<longleftrightarrow> lu_localflags l AND LFLAGS_SSL \<noteq> 0"

definition has_id :: "Client \<Rightarrow> bool" where "has_id c \<longleftrightarrow> cl_id c \<noteq> []"
definition use_id :: "Client \<Rightarrow> string" where "use_id c = (if cl_id c \<noteq> [] then cl_id c else cl_name c)"

lemmas status_defs =
  STAT_CONNECTING_def STAT_HANDSHAKE_def STAT_ME_def STAT_UNKNOWN_def STAT_REJECT_def
  STAT_SERVER_def STAT_CLIENT_def

lemma status_exclusive:
  "IsServer c \<Longrightarrow> \<not> IsClient c" "IsServer c \<Longrightarrow> \<not> IsMe c" "IsClient c \<Longrightarrow> \<not> IsMe c"
  "IsServer c \<Longrightarrow> \<not> MyClient c" "IsMe c \<Longrightarrow> \<not> MyClient c"
  by (auto simp: IsServer_def IsClient_def IsMe_def MyClient_def status_defs)

section \<open>Channels\<close>

record Mode =
  md_mode :: "32 word"
  md_limit :: int
  md_key :: string

record topic_info =
  tp_topic :: string
  tp_topic_info :: string
  tp_topic_time :: int

record Ban =
  ban_banstr :: string
  ban_who :: string
  ban_when :: int

record Channel =
  ch_mode :: Mode
  ch_topic :: "topic_info option"
  ch_members :: "ptr list"
  ch_locmembers :: "ptr list"
  ch_invites :: "ptr list"
  ch_banlist :: "Ban list"
  ch_exceptlist :: "Ban list"
  ch_invexlist :: "Ban list"
  ch_ban_serial :: "32 word"
  ch_channelts :: int
  ch_chname :: string

record membership =
  ms_chptr :: ptr
  ms_client_p :: ptr
  ms_flags :: "8 word"
  ms_ban_serial :: "32 word"

definition CHANNELLEN :: nat where "CHANNELLEN = 200"

text \<open>\<^verbatim>\<open>rb_bh_alloc()\<close> returns zeroed memory; the zeroed channel block.\<close>

definition zero_Channel :: Channel where
  "zero_Channel =
     \<lparr>ch_mode = \<lparr>md_mode = 0, md_limit = 0, md_key = []\<rparr>, ch_topic = None, ch_members = [],
      ch_locmembers = [], ch_invites = [], ch_banlist = [], ch_exceptlist = [], ch_invexlist = [],
      ch_ban_serial = 0, ch_channelts = 0, ch_chname = []\<rparr>"

text \<open>\<^verbatim>\<open>rb_strndup(x, y)\<close> allocates \<open>y\<close> bytes and copies with \<^verbatim>\<open>rb_strlcpy\<close>.\<close>

definition rb_strndup :: "string \<Rightarrow> nat \<Rightarrow> string" where
  "rb_strndup x y = rb_strlcpy x y"

definition allocate_channel :: "string \<Rightarrow> Channel" where
  "allocate_channel chname = zero_Channel\<lparr>ch_chname := rb_strndup chname CHANNELLEN\<rparr>"

section \<open>Pointers to strings and lists of pointers\<close>

type_synonym cptr = "string option"

definition EmptyString :: "cptr \<Rightarrow> bool" where
  "EmptyString x \<longleftrightarrow> (case x of None \<Rightarrow> True | Some s \<Rightarrow> s = [])"

lemma EmptyString_simps [simp]:
  "EmptyString None" "EmptyString (Some s) \<longleftrightarrow> s = []"
  by (auto simp: EmptyString_def)

text \<open>
  \<^verbatim>\<open>RB_DLINK_FOREACH\<close> over a list of pointers, leaving the loop at the first object with the wanted
  property; a dangling pointer is a fault.
\<close>

fun foreach_find :: "(ptr \<rightharpoonup> 'a) \<Rightarrow> ('a \<Rightarrow> bool) \<Rightarrow> ptr list \<Rightarrow> ptr option option" where
  "foreach_find st P [] = Some None"
| "foreach_find st P (p # ps) =
     (case st p of None \<Rightarrow> None | Some x \<Rightarrow> if P x then Some (Some p) else foreach_find st P ps)"

lemma foreach_find_eq:
  "set ps \<subseteq> dom st \<Longrightarrow> foreach_find st P ps = Some (find (\<lambda>p. P (the (st p))) ps)"
  by (induction ps) auto

lemma foreach_find_Some:
  "foreach_find st P ps = Some (Some p) \<Longrightarrow> p \<in> set ps \<and> (\<exists>x. st p = Some x \<and> P x)"
  by (induction ps) (auto split: option.splits if_splits)

lemma foreach_find_None:
  "foreach_find st P ps = Some None \<longleftrightarrow> (\<forall>p \<in> set ps. \<exists>x. st p = Some x \<and> \<not> P x)"
  by (induction ps) (auto split: option.splits)

lemma foreach_find_cong:
  "(\<And>p x. p \<in> set ps \<Longrightarrow> st p = Some x \<Longrightarrow> P x = Q x) \<Longrightarrow> foreach_find st P ps = foreach_find st Q ps"
  by (induction ps) (auto split: option.splits)

text \<open>Zeroed blocks, as the block heaps hand them out.\<close>

definition zero_LocalUser :: LocalUser where
  "zero_LocalUser =
     \<lparr>lu_fd = 0, lu_caps = 0, lu_localflags = 0, lu_invited = [], lu_last_join_time = 0, lu_last_leave_time = 0,
      lu_join_leave_count = 0, lu_oper_warn_count_down = 0, lu_number_of_nick_changes = 0, lu_cork_count = 0,
      lu_firsttime = 0, lu_lasttime = 0, lu_allow_read = 0, lu_actually_read = 0, lu_sent_parsed = 0, lu_receiveM = 0, lu_receiveB = 0\<rparr>"

definition zero_Client :: Client where
  "zero_Client =
     \<lparr>cl_name = [], cl_id = [], cl_username = [], cl_host = [], cl_virthost = [], cl_sockhost = [], cl_info = [], cl_tsinfo = 0,
      cl_status = 0, cl_flags = 0, cl_umodes = 0, cl_operflags = 0, cl_handler = 0, cl_user = None, cl_suser = [], cl_away = None, cl_servptr = None,
      cl_from = 0, cl_local = None\<rparr>"

end
