(* ===== verification/Hash.thy ===== *)
theory Hash
  imports Ident Structs
begin

text \<open>
  The hash tables of \<^verbatim>\<open>libratboxcore/hash.c\<close>: the FNV hashes on 32-bit words, the table of hash
  functions, insertion and removal, and every lookup.  A table maps an index to the bucket, the
  list of pointers it holds; the index bounds are theorems.  The locale \<open>chained_table\<close> is
  the contract between a hash function and the comparison its lookup uses, and is interpreted for
  each of the tables.
\<close>

section \<open>Hash functions\<close>

definition FNV1_32_INIT :: "32 word" where "FNV1_32_INIT = 0x811c9dc5"
definition U_MAX_BITS :: nat where "U_MAX_BITS = 17"
definition CH_MAX_BITS :: nat where "CH_MAX_BITS = 16"
definition HOST_MAX_BITS :: nat where "HOST_MAX_BITS = 17"
definition R_MAX_BITS :: nat where "R_MAX_BITS = 10"
definition CLI_FD_MAX :: int where "CLI_FD_MAX = 4096"
definition HELP_MAX :: "32 word" where "HELP_MAX = 100"

text \<open>The body of the four loops, on the byte the loop takes in.\<close>

definition fnv_step :: "32 word \<Rightarrow> char \<Rightarrow> 32 word" where
  "fnv_step h c =
     (let h = h XOR of_char c
      in h + (push_bit 1 h + push_bit 4 h + push_bit 7 h + push_bit 8 h + push_bit 24 h))"

text \<open>
  The folding at the end; \<^verbatim>\<open>2 ^ bits\<close> in the source is an exclusive or, not a power.
\<close>

definition fnv_fold :: "nat \<Rightarrow> 32 word \<Rightarrow> 32 word" where
  "fnv_fold bits h = drop_bit bits h XOR (h AND ((2 XOR of_nat bits) - 1))"

definition fnv_hash_upper :: "string \<Rightarrow> nat \<Rightarrow> nat \<Rightarrow> 32 word" where
  "fnv_hash_upper s bits unused = fnv_fold (32 - bits) (foldl fnv_step FNV1_32_INIT (map ToUpper s))"

definition fnv_hash :: "string \<Rightarrow> nat \<Rightarrow> nat \<Rightarrow> 32 word" where
  "fnv_hash s bits unused = fnv_fold (32 - bits) (foldl fnv_step FNV1_32_INIT s)"

definition fnv_hash_len :: "string \<Rightarrow> nat \<Rightarrow> nat \<Rightarrow> 32 word" where
  "fnv_hash_len s bits len = fnv_fold (32 - bits) (foldl fnv_step FNV1_32_INIT (take len s))"

definition fnv_hash_upper_len :: "string \<Rightarrow> nat \<Rightarrow> nat \<Rightarrow> 32 word" where
  "fnv_hash_upper_len s bits len =
     fnv_fold (32 - bits) (foldl fnv_step FNV1_32_INIT (map ToUpper (take len s)))"

definition hash_help :: "string \<Rightarrow> 32 word" where
  "hash_help name = foldl (\<lambda>h c. h + (of_char (ToLower c) AND 0xDF)) 0 name mod HELP_MAX"

definition hash_nick :: "string \<Rightarrow> 32 word" where
  "hash_nick x = fnv_hash_upper x U_MAX_BITS 0"
definition hash_id :: "string \<Rightarrow> 32 word" where
  "hash_id x = fnv_hash x U_MAX_BITS 0"
definition hash_channel :: "string \<Rightarrow> 32 word" where
  "hash_channel x = fnv_hash_upper_len x CH_MAX_BITS 30"
definition hash_hostname :: "string \<Rightarrow> 32 word" where
  "hash_hostname x = fnv_hash_upper_len x HOST_MAX_BITS 30"
definition hash_resv :: "string \<Rightarrow> 32 word" where
  "hash_resv x = fnv_hash_upper_len x R_MAX_BITS 30"

text \<open>C's \<^verbatim>\<open>%\<close> on the descriptor, converted to the \<^verbatim>\<open>unsigned int\<close> index of the callers.\<close>

definition hash_cli_fd :: "int \<Rightarrow> 32 word" where
  "hash_cli_fd x = word_of_int (sgn x * (\<bar>x\<bar> mod CLI_FD_MAX))"

section \<open>The tables\<close>

datatype hash_type = HASH_CLIENT | HASH_ID | HASH_CHANNEL | HASH_HOSTNAME | HASH_RESV

type_synonym table = "32 word \<Rightarrow> ptr list"

record hashtabs =
  clientbyfdTable :: table
  clientTable :: table
  channelTable :: table
  idTable :: table
  resvTable :: table
  hostTable :: table
  helpTable :: table
  ndTable :: table

text \<open>The rows of \<^verbatim>\<open>hash_function[]\<close>: the function with its bits and length, and the table.\<close>

fun hash_func :: "hash_type \<Rightarrow> string \<Rightarrow> 32 word" where
  "hash_func HASH_CLIENT x = fnv_hash_upper x U_MAX_BITS 0"
| "hash_func HASH_ID x = fnv_hash x U_MAX_BITS 0"
| "hash_func HASH_CHANNEL x = fnv_hash_upper_len x CH_MAX_BITS 30"
| "hash_func HASH_HOSTNAME x = fnv_hash_upper_len x HOST_MAX_BITS 30"
| "hash_func HASH_RESV x = fnv_hash_upper_len x R_MAX_BITS 30"

fun hash_table :: "hash_type \<Rightarrow> hashtabs \<Rightarrow> table" where
  "hash_table HASH_CLIENT t = clientTable t"
| "hash_table HASH_ID t = idTable t"
| "hash_table HASH_CHANNEL t = channelTable t"
| "hash_table HASH_HOSTNAME t = hostTable t"
| "hash_table HASH_RESV t = resvTable t"

fun set_hash_table :: "hash_type \<Rightarrow> table \<Rightarrow> hashtabs \<Rightarrow> hashtabs" where
  "set_hash_table HASH_CLIENT b t = t\<lparr>clientTable := b\<rparr>"
| "set_hash_table HASH_ID b t = t\<lparr>idTable := b\<rparr>"
| "set_hash_table HASH_CHANNEL b t = t\<lparr>channelTable := b\<rparr>"
| "set_hash_table HASH_HOSTNAME b t = t\<lparr>hostTable := b\<rparr>"
| "set_hash_table HASH_RESV b t = t\<lparr>resvTable := b\<rparr>"

fun hash_bits :: "hash_type \<Rightarrow> nat" where
  "hash_bits HASH_CLIENT = U_MAX_BITS"
| "hash_bits HASH_ID = U_MAX_BITS"
| "hash_bits HASH_CHANNEL = CH_MAX_BITS"
| "hash_bits HASH_HOSTNAME = HOST_MAX_BITS"
| "hash_bits HASH_RESV = R_MAX_BITS"

text \<open>\<^verbatim>\<open>rb_dlinkAddAlloc\<close> and \<^verbatim>\<open>rb_dlinkFindDestroy\<close> on a bucket.\<close>

definition bucket_add :: "32 word \<Rightarrow> ptr \<Rightarrow> table \<Rightarrow> table" where
  "bucket_add i p b = b(i := p # b i)"

definition bucket_del :: "32 word \<Rightarrow> ptr \<Rightarrow> table \<Rightarrow> table" where
  "bucket_del i p b = b(i := remove1 p (b i))"

definition add_to_hash :: "hash_type \<Rightarrow> cptr \<Rightarrow> ptr option \<Rightarrow> hashtabs \<Rightarrow> hashtabs" where
  "add_to_hash type hashindex pointer t =
     (if EmptyString hashindex \<or> pointer = None then t
      else set_hash_table type
             (bucket_add (hash_func type (the hashindex)) (the pointer) (hash_table type t)) t)"

definition del_from_hash :: "hash_type \<Rightarrow> cptr \<Rightarrow> ptr option \<Rightarrow> hashtabs \<Rightarrow> hashtabs" where
  "del_from_hash type hashindex pointer t =
     (if EmptyString hashindex \<or> pointer = None then t
      else set_hash_table type
             (bucket_del (hash_func type (the hashindex)) (the pointer) (hash_table type t)) t)"

definition add_to_help_hash :: "cptr \<Rightarrow> ptr option \<Rightarrow> hashtabs \<Rightarrow> hashtabs" where
  "add_to_help_hash name hptr t =
     (if EmptyString name \<or> hptr = None then t
      else t\<lparr>helpTable := bucket_add (hash_help (the name)) (the hptr) (helpTable t)\<rparr>)"

record nd_entry =
  nd_name :: string
  nd_hashv :: "32 word"

definition add_to_nd_hash ::
  "string \<Rightarrow> ptr \<Rightarrow> (ptr \<rightharpoonup> nd_entry) \<Rightarrow> hashtabs \<Rightarrow> ((ptr \<rightharpoonup> nd_entry) \<times> hashtabs) option" where
  "add_to_nd_hash name nd nds t = do {
     e \<leftarrow> nds nd;
     Some (nds(nd \<mapsto> e\<lparr>nd_hashv := hash_nick name\<rparr>),
           t\<lparr>ndTable := bucket_add (hash_nick name) nd (ndTable t)\<rparr>)
   }"

record cachefile =
  cf_name :: string
  cf_flags :: "32 word"

text \<open>
  \<^verbatim>\<open>clear_help_hash()\<close> walks the \<^verbatim>\<open>HELP_MAX\<close> buckets, frees each file and takes its node out.
\<close>

fun free_all :: "ptr list \<Rightarrow> (ptr \<rightharpoonup> 'a) \<Rightarrow> (ptr \<rightharpoonup> 'a) option" where
  "free_all [] st = Some st"
| "free_all (p # ps) st = (case st p of None \<Rightarrow> None | Some _ \<Rightarrow> free_all ps (st(p := None)))"

fun clear_help_loop ::
  "nat \<Rightarrow> nat \<Rightarrow> table \<Rightarrow> (ptr \<rightharpoonup> cachefile) \<Rightarrow> (table \<times> (ptr \<rightharpoonup> cachefile)) option" where
  "clear_help_loop i 0 b st = Some (b, st)"
| "clear_help_loop i (Suc n) b st = do {
     st \<leftarrow> free_all (b (of_nat i)) st;
     clear_help_loop (Suc i) n (b(of_nat i := [])) st
   }"

definition clear_help_hash ::
  "hashtabs \<Rightarrow> (ptr \<rightharpoonup> cachefile) \<Rightarrow> (hashtabs \<times> (ptr \<rightharpoonup> cachefile)) option" where
  "clear_help_hash t st = do {
     (b, st) \<leftarrow> clear_help_loop 0 (unat HELP_MAX) (helpTable t) st;
     Some (t\<lparr>helpTable := b\<rparr>, st)
   }"

section \<open>Lookups\<close>

definition find_id :: "(ptr \<rightharpoonup> Client) \<Rightarrow> hashtabs \<Rightarrow> cptr \<Rightarrow> ptr option option" where
  "find_id cls t name =
     (if EmptyString name then Some None
      else foreach_find cls (\<lambda>c. the name = cl_id c) (idTable t (hash_id (the name))))"

text \<open>The first occurrence of a character at or after an index.\<close>

definition strchr_from :: "char \<Rightarrow> string \<Rightarrow> nat \<Rightarrow> nat option" where
  "strchr_from c s p = find (\<lambda>i. s ! i = c) [p..<length s]"

lemma strchr_from_Some: "strchr_from c s p = Some i \<Longrightarrow> p \<le> i \<and> i < length s \<and> s ! i = c"
  by (auto simp: strchr_from_def find_Some_iff nth_append)

text \<open>
  \<^verbatim>\<open>find_server()\<close> and \<^verbatim>\<open>hash_find_masked_server()\<close> call each other.  The masked lookup works on a copy of
  the name: each dot's predecessor becomes a star, and the string from there is looked up.  A dot
  at index 0 would make it write before the buffer, which is the fault \<^term>\<open>None\<close>.
\<close>

function find_server ::
    "(ptr \<rightharpoonup> Client) \<Rightarrow> hashtabs \<Rightarrow> Client option \<Rightarrow> string \<Rightarrow> ptr option option"
  and hash_find_masked_server ::
    "(ptr \<rightharpoonup> Client) \<Rightarrow> hashtabs \<Rightarrow> Client option \<Rightarrow> string \<Rightarrow> ptr option option"
  and masked_server_loop ::
    "(ptr \<rightharpoonup> Client) \<Rightarrow> hashtabs \<Rightarrow> Client option \<Rightarrow> string \<Rightarrow> nat \<Rightarrow> ptr option option"
where
  "find_server cls t source_p name =
     (if EmptyString (Some name) then Some None
      else if (source_p = None \<or> \<not> MyClient (the source_p)) \<and> IsDigit (headc name) \<and> length name = 3
      then find_id cls t (Some name)
      else (case foreach_find cls (\<lambda>c. (IsServer c \<or> IsMe c) \<and> irccmp name (cl_name c) = 0)
                   (clientTable t (hash_nick name)) of
              None \<Rightarrow> None
            | Some (Some p) \<Rightarrow> Some (Some p)
            | Some None \<Rightarrow> hash_find_masked_server cls t source_p name))"
| "hash_find_masked_server cls t source_p name =
     (if headc name = CHR ''*'' \<or> headc name = CHR ''.'' then Some None
      else masked_server_loop cls t source_p (rb_strlcpy name 64) 0)"
| "masked_server_loop cls t source_p buf p =
     (case strchr_from CHR ''.'' buf p of
        None \<Rightarrow> Some None
      | Some i \<Rightarrow>
          if i = 0 then None
          else (case find_server cls t source_p (CHR ''*'' # drop i buf) of
                  None \<Rightarrow> None
                | Some (Some q) \<Rightarrow> Some (Some q)
                | Some None \<Rightarrow> masked_server_loop cls t source_p (buf[i - 1 := CHR ''*'']) (Suc i)))"
  by pat_completeness auto
termination
  by (relation "measure (\<lambda>x. case x of
        Inl (cls, t, src, name) \<Rightarrow> if headc name = CHR ''*'' then 2 else length name + 5
      | Inr (Inl (cls, t, src, name)) \<Rightarrow> if headc name = CHR ''*'' then 1 else length name + 4
      | Inr (Inr (cls, t, src, buf, p)) \<Rightarrow> 3 + (length buf - p))")
    (auto simp: rb_strlcpy_def dest: strchr_from_Some)

declare find_server.simps [simp del] hash_find_masked_server.simps [simp del]
  masked_server_loop.simps [simp del]

definition find_named_client :: "(ptr \<rightharpoonup> Client) \<Rightarrow> hashtabs \<Rightarrow> cptr \<Rightarrow> ptr option option" where
  "find_named_client cls t name =
     (if EmptyString name then Some None
      else foreach_find cls (\<lambda>c. irccmp (the name) (cl_name c) = 0)
             (clientTable t (hash_nick (the name))))"

definition find_client :: "(ptr \<rightharpoonup> Client) \<Rightarrow> hashtabs \<Rightarrow> cptr \<Rightarrow> ptr option option" where
  "find_client cls t name =
     (if EmptyString name then Some None
      else if IsDigit (headc (the name)) then find_id cls t name
      else foreach_find cls (\<lambda>c. irccmp (the name) (cl_name c) = 0)
             (clientTable t (hash_nick (the name))))"

definition find_any_client :: "(ptr \<rightharpoonup> Client) \<Rightarrow> hashtabs \<Rightarrow> cptr \<Rightarrow> ptr option option" where
  "find_any_client cls t name =
     (if EmptyString name then Some None
      else if IsDigit (headc (the name)) then find_id cls t name
      else (case foreach_find cls (\<lambda>c. irccmp (the name) (cl_name c) = 0)
                   (clientTable t (hash_nick (the name))) of
              None \<Rightarrow> None
            | Some (Some p) \<Rightarrow> Some (Some p)
            | Some None \<Rightarrow> hash_find_masked_server cls t None (the name)))"

definition find_hostname :: "hashtabs \<Rightarrow> cptr \<Rightarrow> ptr list" where
  "find_hostname t hostname =
     (if EmptyString hostname then [] else hostTable t (hash_hostname (the hostname)))"

definition find_channel :: "(ptr \<rightharpoonup> Channel) \<Rightarrow> hashtabs \<Rightarrow> cptr \<Rightarrow> ptr option option" where
  "find_channel chs t name =
     (if EmptyString name then Some None
      else foreach_find chs (\<lambda>c. irccmp (the name) (ch_chname c) = 0)
             (channelTable t (hash_channel (the name))))"

text \<open>
  \<^verbatim>\<open>get_or_create_channel()\<close>; \<open>new\<close> is the address the allocator hands out and \<open>now\<close> the current
  time.  The result is the channel with the \<^verbatim>\<open>isnew\<close> flag, the operator notice for an over-long
  name from a server, and the state: the channel store, the global list and the tables.
\<close>

definition get_or_create_channel ::
  "ptr \<Rightarrow> int \<Rightarrow> Client \<Rightarrow> cptr \<Rightarrow> (ptr \<rightharpoonup> Channel) \<Rightarrow> ptr list \<Rightarrow> hashtabs \<Rightarrow>
   ((ptr \<times> bool) option \<times> bool \<times> (ptr \<rightharpoonup> Channel) \<times> ptr list \<times> hashtabs) option" where
  "get_or_create_channel new now client_p chname chs glist t =
     (if EmptyString chname then Some (None, False, chs, glist, t)
      else
        let long = length (the chname) > CHANNELLEN;
            notice = long \<and> IsServer client_p;
            s = (if long then take CHANNELLEN (the chname) else the chname);
            hashv = hash_channel s
        in case foreach_find chs (\<lambda>c. irccmp s (ch_chname c) = 0) (channelTable t hashv) of
             None \<Rightarrow> None
           | Some (Some p) \<Rightarrow> Some (Some (p, False), notice, chs, glist, t)
           | Some None \<Rightarrow>
               Some (Some (new, True), notice,
                     chs(new \<mapsto> (allocate_channel s)\<lparr>ch_channelts := now\<rparr>),
                     new # glist,
                     t\<lparr>channelTable := bucket_add hashv new (channelTable t)\<rparr>))"

record ConfItem =
  conf_host :: string
  conf_port :: "32 word"
  conf_flags :: "32 word"
  conf_passwd :: string

definition CONF_FLAGS_TEMPORARY :: "32 word" where "CONF_FLAGS_TEMPORARY = 0x00010000"

text \<open>\<^verbatim>\<open>hash_find_resv()\<close> counts the hit in the entry's \<^verbatim>\<open>port\<close>.\<close>

definition hash_find_resv ::
  "cptr \<Rightarrow> (ptr \<rightharpoonup> ConfItem) \<Rightarrow> hashtabs \<Rightarrow> (ptr option \<times> (ptr \<rightharpoonup> ConfItem)) option" where
  "hash_find_resv name confs t =
     (if EmptyString name then Some (None, confs)
      else (case foreach_find confs (\<lambda>c. irccmp (the name) (conf_host c) = 0)
                   (resvTable t (hash_resv (the name))) of
              None \<Rightarrow> None
            | Some None \<Rightarrow> Some (None, confs)
            | Some (Some p) \<Rightarrow>
                Some (Some p, confs(p := map_option (\<lambda>c. c\<lparr>conf_port := conf_port c + 1\<rparr>) (confs p)))))"

definition hash_find_help ::
  "(ptr \<rightharpoonup> cachefile) \<Rightarrow> hashtabs \<Rightarrow> cptr \<Rightarrow> 32 word \<Rightarrow> ptr option option" where
  "hash_find_help files t name flags =
     (if EmptyString name then Some None
      else foreach_find files (\<lambda>h. irccmp (the name) (cf_name h) = 0 \<and> cf_flags h AND flags \<noteq> 0)
             (helpTable t (hash_help (the name))))"

text \<open>
  \<^verbatim>\<open>clear_resv_hash()\<close>: the entries of a bucket that are not temporary are freed and unlinked.
\<close>

fun clear_resv_bucket ::
  "ptr list \<Rightarrow> (ptr \<rightharpoonup> ConfItem) \<Rightarrow> (ptr list \<times> (ptr \<rightharpoonup> ConfItem)) option" where
  "clear_resv_bucket [] confs = Some ([], confs)"
| "clear_resv_bucket (p # ps) confs =
     (case confs p of
        None \<Rightarrow> None
      | Some aconf \<Rightarrow>
          if conf_flags aconf AND CONF_FLAGS_TEMPORARY \<noteq> 0
          then do { (qs, confs) \<leftarrow> clear_resv_bucket ps confs; Some (p # qs, confs) }
          else clear_resv_bucket ps (confs(p := None)))"

fun clear_resv_loop ::
  "nat \<Rightarrow> nat \<Rightarrow> table \<Rightarrow> (ptr \<rightharpoonup> ConfItem) \<Rightarrow> (table \<times> (ptr \<rightharpoonup> ConfItem)) option" where
  "clear_resv_loop i 0 b confs = Some (b, confs)"
| "clear_resv_loop i (Suc n) b confs = do {
     (qs, confs) \<leftarrow> clear_resv_bucket (b (of_nat i)) confs;
     clear_resv_loop (Suc i) n (b(of_nat i := qs)) confs
   }"

definition clear_resv_hash ::
  "hashtabs \<Rightarrow> (ptr \<rightharpoonup> ConfItem) \<Rightarrow> (hashtabs \<times> (ptr \<rightharpoonup> ConfItem)) option" where
  "clear_resv_hash t confs = do {
     (b, confs) \<leftarrow> clear_resv_loop 0 (2 ^ R_MAX_BITS) (resvTable t) confs;
     Some (t\<lparr>resvTable := b\<rparr>, confs)
   }"

definition hash_find_nd :: "(ptr \<rightharpoonup> nd_entry) \<Rightarrow> hashtabs \<Rightarrow> cptr \<Rightarrow> ptr option option" where
  "hash_find_nd nds t name =
     (if EmptyString name then Some None
      else foreach_find nds (\<lambda>n. irccmp (the name) (nd_name n) = 0)
             (ndTable t (hash_nick (the name))))"

text \<open>The table of local clients by descriptor; \<^verbatim>\<open>client_p->localClient\<close> must not be \<^verbatim>\<open>NULL\<close>.\<close>

definition client_fd :: "(ptr \<rightharpoonup> Client) \<Rightarrow> ptr \<Rightarrow> int option" where
  "client_fd cls p = do { c \<leftarrow> cls p; l \<leftarrow> cl_local c; Some (lu_fd l) }"

definition add_to_cli_fd_hash :: "(ptr \<rightharpoonup> Client) \<Rightarrow> ptr \<Rightarrow> hashtabs \<Rightarrow> hashtabs option" where
  "add_to_cli_fd_hash cls p t = do {
     fd \<leftarrow> client_fd cls p;
     Some (t\<lparr>clientbyfdTable := bucket_add (hash_cli_fd fd) p (clientbyfdTable t)\<rparr>)
   }"

definition del_from_cli_fd_hash :: "(ptr \<rightharpoonup> Client) \<Rightarrow> ptr \<Rightarrow> hashtabs \<Rightarrow> hashtabs option" where
  "del_from_cli_fd_hash cls p t = do {
     fd \<leftarrow> client_fd cls p;
     Some (t\<lparr>clientbyfdTable := bucket_del (hash_cli_fd fd) p (clientbyfdTable t)\<rparr>)
   }"

definition find_cli_fd_hash :: "(ptr \<rightharpoonup> Client) \<Rightarrow> hashtabs \<Rightarrow> int \<Rightarrow> ptr option option" where
  "find_cli_fd_hash cls t fd =
     foreach_find (client_fd cls) (\<lambda>d. d = fd) (clientbyfdTable t (hash_cli_fd fd))"

section \<open>Index bounds\<close>

lemma uint_pow_32: "k < 32 \<Longrightarrow> uint (2 ^ k :: 32 word) = 2 ^ k"
  by (rule uint_2p) (simp add: word_greater_zero_iff)

lemma word_xor_less:
  fixes a b :: "32 word"
  assumes "a < 2 ^ k" "b < 2 ^ k" "k < 32"
  shows "a XOR b < 2 ^ k"
proof -
  have p: "uint (2 ^ k :: 32 word) = 2 ^ k"
    using assms(3) by (rule uint_pow_32)
  have "uint a < 2 ^ k" "uint b < 2 ^ k"
    using assms(1,2) by (simp_all add: word_less_def p)
  then have "uint a XOR uint b < 2 ^ k" by (simp add: XOR_upper)
  then show ?thesis by (simp add: word_less_def p unsigned_xor_eq)
qed

lemma word_and_less:
  fixes a m :: "32 word"
  assumes "m < n" shows "a AND m < n"
proof -
  have "uint a AND uint m \<le> uint m" by (simp add: AND_upper2)
  then show ?thesis using assms by (simp add: word_less_def unsigned_and_eq)
qed

lemma drop_bit_less:
  fixes h :: "32 word"
  assumes "n \<le> 32" "0 < n"
  shows "drop_bit n h < 2 ^ (32 - n)"
proof -
  have "unat h < 2 ^ (32 - n) * 2 ^ n"
    using unsigned_less [of h, where 'a = nat] assms by (simp flip: power_add)
  then have "int (unat h div 2 ^ n) < int (2 ^ (32 - n))"
    by (simp only: of_nat_less_iff less_mult_imp_div_less)
  then have "uint h div 2 ^ n < 2 ^ (32 - n)" by (simp add: zdiv_int)
  moreover have "take_bit 32 (uint h) = uint h"
    using uint_lt2p [of h] by (intro take_bit_int_eq_self) simp_all
  ultimately show ?thesis
    using assms by (simp add: word_less_def uint_pow_32 unsigned_drop_bit_eq flip: drop_bit_eq_div)
qed

lemma fnv_fold_less:
  assumes "0 < bits" "bits < 32" "((2 XOR of_nat (32 - bits)) - 1 :: 32 word) < 2 ^ bits"
  shows "fnv_fold (32 - bits) h < 2 ^ bits"
proof -
  have "drop_bit (32 - bits) h < 2 ^ bits"
    using drop_bit_less [of "32 - bits" h] assms(1,2) by simp
  then show ?thesis
    unfolding fnv_fold_def by (intro word_xor_less word_and_less assms) 
qed

lemma fnv_fold_sizes:
  "fnv_fold (32 - U_MAX_BITS) h < 2 ^ U_MAX_BITS"
  "fnv_fold (32 - CH_MAX_BITS) h < 2 ^ CH_MAX_BITS"
  "fnv_fold (32 - HOST_MAX_BITS) h < 2 ^ HOST_MAX_BITS"
  "fnv_fold (32 - R_MAX_BITS) h < 2 ^ R_MAX_BITS"
  by (rule fnv_fold_less; simp add: U_MAX_BITS_def CH_MAX_BITS_def HOST_MAX_BITS_def R_MAX_BITS_def)+

lemma hash_func_less: "hash_func type x < 2 ^ hash_bits type"
  by (cases type)
    (simp_all add: fnv_hash_upper_def fnv_hash_def fnv_hash_upper_len_def fnv_fold_sizes)

lemma hash_help_less: "hash_help x < HELP_MAX"
  by (simp add: hash_help_def HELP_MAX_def word_less_def uint_mod_distrib)

lemma hash_cli_fd_less: "0 \<le> fd \<Longrightarrow> hash_cli_fd fd < word_of_int CLI_FD_MAX"
proof -
  assume "0 \<le> fd"
  then have h: "hash_cli_fd fd = word_of_int (fd mod 4096)"
    by (cases "fd = 0") (simp_all add: hash_cli_fd_def CLI_FD_MAX_def)
  have "0 \<le> fd mod 4096" "fd mod 4096 < 4096" by simp_all
  then have "uint (word_of_int (fd mod 4096) :: 32 word) < 4096"
    by (simp add: uint_word_of_int_eq take_bit_int_eq_self)
  then show ?thesis by (simp add: h CLI_FD_MAX_def word_less_def)
qed

section \<open>Hash functions agree with the comparisons\<close>

lemma ToLower_map_eq: "map ToUpper s = map ToUpper t \<Longrightarrow> map ToLower s = map ToLower t"
proof -
  have "map ToLower s = map ToLower (map ToUpper s)" for s by (simp add: comp_def)
  then show "map ToUpper s = map ToUpper t \<Longrightarrow> map ToLower s = map ToLower t" by metis
qed

lemma hash_help_lower:
  "hash_help name = foldl (\<lambda>h c. h + (of_char c AND 0xDF)) 0 (map ToLower name) mod HELP_MAX"
proof -
  have "foldl (\<lambda>h c. h + (of_char (ToLower c) AND 0xDF)) a name =
        foldl (\<lambda>h c. h + (of_char c AND 0xDF)) a (map ToLower name)" for a :: "32 word"
    by (induction name arbitrary: a) auto
  then show ?thesis by (simp add: hash_help_def)
qed

lemma hash_help_cong: "map ToUpper s = map ToUpper t \<Longrightarrow> hash_help s = hash_help t"
  by (simp only: hash_help_lower ToLower_map_eq [of s t])

section \<open>The contract of a chained table\<close>

text \<open>
  \<open>key\<close> gives the string an object is filed under.  A table is well formed when every pointer of
  every bucket has a key that hashes to that bucket, and no bucket holds a pointer twice.
\<close>

definition tab_ok :: "('k \<Rightarrow> 32 word) \<Rightarrow> (ptr \<rightharpoonup> 'k) \<Rightarrow> table \<Rightarrow> bool" where
  "tab_ok hashf key b \<longleftrightarrow>
     (\<forall>i. distinct (b i) \<and> (\<forall>p \<in> set (b i). \<exists>k. key p = Some k \<and> hashf k = i))"

definition tab_set :: "table \<Rightarrow> ptr set" where
  "tab_set b = (\<Union>i. set (b i))"

definition tab_find :: "('k \<Rightarrow> 32 word) \<Rightarrow> ('k \<Rightarrow> 'k \<Rightarrow> bool) \<Rightarrow> (ptr \<rightharpoonup> 'k) \<Rightarrow> table \<Rightarrow> 'k \<Rightarrow> ptr option" where
  "tab_find hashf same key b k = find (\<lambda>p. same k (the (key p))) (b (hashf k))"

definition keys_unique :: "('k \<Rightarrow> 'k \<Rightarrow> bool) \<Rightarrow> (ptr \<rightharpoonup> 'k) \<Rightarrow> table \<Rightarrow> bool" where
  "keys_unique same key b \<longleftrightarrow>
     (\<forall>p \<in> tab_set b. \<forall>q \<in> tab_set b. same (the (key p)) (the (key q)) \<longrightarrow> p = q)"

lemma tab_set_add: "tab_set (bucket_add i p b) = insert p (tab_set b)"
  by (auto simp: tab_set_def bucket_add_def split: if_splits)

lemma find_SomeD: "find P xs = Some x \<Longrightarrow> x \<in> set xs \<and> P x"
  by (auto simp: find_Some_iff)

locale chained_table =
  fixes hashf :: "'k \<Rightarrow> 32 word"
    and same :: "'k \<Rightarrow> 'k \<Rightarrow> bool"
    and valid :: "'k \<Rightarrow> bool"
    and sz :: "32 word"
  assumes hash_bound: "valid k \<Longrightarrow> hashf k < sz"
    and same_hash: "valid k \<Longrightarrow> valid k' \<Longrightarrow> same k k' \<Longrightarrow> hashf k = hashf k'"
    and same_refl: "same k k"
    and same_sym: "valid k \<Longrightarrow> valid k' \<Longrightarrow> same k k' \<Longrightarrow> same k' k"
    and same_trans: "valid k \<Longrightarrow> valid k' \<Longrightarrow> valid k'' \<Longrightarrow> same k k' \<Longrightarrow> same k' k'' \<Longrightarrow> same k k''"
begin

definition keys_valid :: "(ptr \<rightharpoonup> 'k) \<Rightarrow> table \<Rightarrow> bool" where
  "keys_valid key b \<longleftrightarrow> (\<forall>p \<in> tab_set b. \<forall>k. key p = Some k \<longrightarrow> valid k)"

lemma add_ok:
  assumes "tab_ok hashf key b" "key p = Some k" "p \<notin> tab_set b"
  shows "tab_ok hashf key (bucket_add (hashf k) p b)"
  using assms by (auto simp: tab_ok_def bucket_add_def tab_set_def)

lemma del_ok:
  assumes "tab_ok hashf key b"
  shows "tab_ok hashf key (bucket_del i p b)"
  using assms by (auto simp: tab_ok_def bucket_del_def)

lemma del_set:
  assumes "tab_ok hashf key b" "key p = Some k"
  shows "tab_set (bucket_del (hashf k) p b) = tab_set b - {p}"
proof -
  have "p \<in> set (b i) \<Longrightarrow> i = hashf k" for i using assms by (force simp: tab_ok_def)
  moreover have "distinct (b i)" for i using assms by (simp add: tab_ok_def)
  ultimately show ?thesis by (auto simp: tab_set_def bucket_del_def split: if_splits)
qed

lemma find_sound:
  assumes "tab_ok hashf key b" "tab_find hashf same key b k = Some p"
  shows "p \<in> tab_set b \<and> (\<exists>k'. key p = Some k' \<and> same k k')"
  using assms by (fastforce simp: tab_find_def tab_ok_def tab_set_def dest: find_SomeD)

lemma find_complete:
  assumes "tab_ok hashf key b" "keys_valid key b" "p \<in> tab_set b" "key p = Some k'" "valid k" "same k k'"
  shows "tab_find hashf same key b k \<noteq> None"
proof -
  obtain i where i: "p \<in> set (b i)" using assms(3) by (auto simp: tab_set_def)
  have "valid k'" using assms(2,3,4) by (auto simp: keys_valid_def)
  then have "hashf k = hashf k'" using assms by (simp add: same_hash)
  moreover have "i = hashf k'" using assms(1,4) i by (force simp: tab_ok_def)
  ultimately show ?thesis
    using i assms(4,6) by (auto simp: tab_find_def find_None_iff)
qed

lemma find_unique:
  assumes "tab_ok hashf key b" "keys_valid key b" "keys_unique same key b"
    and "p \<in> tab_set b" "key p = Some k'" "valid k" "same k k'"
  shows "tab_find hashf same key b k = Some p"
proof -
  obtain q where q: "tab_find hashf same key b k = Some q"
    using find_complete [OF assms(1,2,4-7)] by auto
  with find_sound [OF assms(1)] obtain k'' where k'': "q \<in> tab_set b" "key q = Some k''" "same k k''"
    by blast
  have v: "valid k'" "valid k''" using assms(2,4,5) k'' by (auto simp: keys_valid_def)
  then have "same k'' k'" using assms(6,7) k''(3) by (meson same_sym same_trans)
  then show ?thesis using assms(3,4,5) k'' q by (force simp: keys_unique_def)
qed

lemma find_add:
  assumes "key p = Some k'" "valid k" "valid k'"
  shows "tab_find hashf same key (bucket_add (hashf k') p b) k =
           (if same k k' then Some p else tab_find hashf same key b k)"
  using assms same_hash [of k k'] by (auto simp: tab_find_def bucket_add_def)

lemma find_del:
  assumes "tab_ok hashf key b" "keys_valid key b" "keys_unique same key b"
    and "p \<in> tab_set b" "key p = Some k'" "valid k"
  shows "tab_find hashf same key (bucket_del (hashf k') p b) k =
           (if same k k' then None else tab_find hashf same key b k)"
proof (cases "same k k'")
  case True
  have set: "tab_set (bucket_del (hashf k') p b) = tab_set b - {p}" by (rule del_set [OF assms(1,5)])
  have "tab_find hashf same key (bucket_del (hashf k') p b) k \<noteq> Some q" for q
  proof
    assume q: "tab_find hashf same key (bucket_del (hashf k') p b) k = Some q"
    from find_sound [OF del_ok [OF assms(1)] q] set
    obtain k'' where k'': "q \<in> tab_set b" "q \<noteq> p" "key q = Some k''" "same k k''" by blast
    have "valid k'" "valid k''" using assms(2,4,5) k'' by (auto simp: keys_valid_def)
    then have "same k'' k'" using assms(6) True k'' by (meson same_sym same_trans)
    then show False using assms(3,4,5) k'' by (force simp: keys_unique_def)
  qed
  then show ?thesis using True by (cases "tab_find hashf same key (bucket_del (hashf k') p b) k") auto
next
  case False
  have "find (\<lambda>q. same k (the (key q))) (remove1 p qs) = find (\<lambda>q. same k (the (key q))) qs" for qs
    using False assms(5) by (induction qs) auto
  then show ?thesis using False by (auto simp: tab_find_def bucket_del_def)
qed

end

definition name_eq :: "string \<Rightarrow> string \<Rightarrow> bool" where
  "name_eq k k' \<longleftrightarrow> irccmp k k' = 0"

lemma name_eq_iff: "cstring k \<Longrightarrow> cstring k' \<Longrightarrow> name_eq k k' \<longleftrightarrow> map ToUpper k = map ToUpper k'"
  by (simp add: name_eq_def irccmp_eq_0_iff)

lemma irccmp_refl [simp]: "irccmp s s = 0"
proof (induction s)
  case (Cons c s)
  then show ?case by (subst irccmp.simps) simp
qed simp

lemma name_eq_refl: "name_eq k k"
  by (simp add: name_eq_def)

interpretation nicks: chained_table "hash_func HASH_CLIENT" name_eq cstring "2 ^ hash_bits HASH_CLIENT"
  by unfold_locales
    (simp_all only: hash_func_less name_eq_refl, simp_all add: name_eq_iff fnv_hash_upper_def)

interpretation ids: chained_table "hash_func HASH_ID" "(=)" cstring "2 ^ hash_bits HASH_ID"
  by unfold_locales (simp_all only: hash_func_less)

interpretation chans: chained_table "hash_func HASH_CHANNEL" name_eq cstring "2 ^ hash_bits HASH_CHANNEL"
  by unfold_locales
    (simp_all only: hash_func_less name_eq_refl,
     simp_all add: name_eq_iff fnv_hash_upper_len_def flip: take_map)

interpretation hosts: chained_table "hash_func HASH_HOSTNAME" name_eq cstring "2 ^ hash_bits HASH_HOSTNAME"
  by unfold_locales
    (simp_all only: hash_func_less name_eq_refl,
     simp_all add: name_eq_iff fnv_hash_upper_len_def flip: take_map)

interpretation resvs: chained_table "hash_func HASH_RESV" name_eq cstring "2 ^ hash_bits HASH_RESV"
  by unfold_locales
    (simp_all only: hash_func_less name_eq_refl,
     simp_all add: name_eq_iff fnv_hash_upper_len_def flip: take_map)

interpretation helps: chained_table hash_help name_eq cstring HELP_MAX
  by unfold_locales
    (simp_all only: hash_help_less name_eq_refl, auto simp: name_eq_iff intro: hash_help_cong)

interpretation fds: chained_table hash_cli_fd "(=)" "\<lambda>fd. 0 \<le> fd" "word_of_int CLI_FD_MAX"
  by unfold_locales (simp_all add: hash_cli_fd_less)

section \<open>The lookups of the tables\<close>

abbreviation (input) nick_key :: "(ptr \<rightharpoonup> Client) \<Rightarrow> ptr \<rightharpoonup> string" where
  "nick_key cls p \<equiv> map_option cl_name (cls p)"

abbreviation (input) id_key :: "(ptr \<rightharpoonup> Client) \<Rightarrow> ptr \<rightharpoonup> string" where
  "id_key cls p \<equiv> map_option cl_id (cls p)"

abbreviation (input) chan_key :: "(ptr \<rightharpoonup> Channel) \<Rightarrow> ptr \<rightharpoonup> string" where
  "chan_key chs p \<equiv> map_option ch_chname (chs p)"

text \<open>
  A lookup that walks the bucket and compares keys is \<^const>\<open>tab_find\<close>, and never faults on a well-formed
  table.
\<close>

lemma tab_ok_dom: "tab_ok hashf (\<lambda>p. map_option f (st p)) b \<Longrightarrow> set (b i) \<subseteq> dom st"
  by (force simp: tab_ok_def)

lemma foreach_tab_find:
  assumes "tab_ok hashf (\<lambda>p. map_option f (st p)) b"
  shows "foreach_find st (\<lambda>x. same k (f x)) (b (hashf k)) =
           Some (tab_find hashf same (\<lambda>p. map_option f (st p)) b k)"
proof -
  note dom = tab_ok_dom [OF assms, of "hashf k"]
  have "find (\<lambda>p. same k (f (the (st p)))) ps = find (\<lambda>p. same k (the (map_option f (st p)))) ps"
    if "set ps \<subseteq> dom st" for ps
    using that by (induction ps) auto
  with dom show ?thesis by (simp add: foreach_find_eq tab_find_def)
qed

lemmas lookup_defs = name_eq_def hash_nick_def hash_id_def hash_channel_def

lemma find_named_client_tab:
  assumes "tab_ok (hash_func HASH_CLIENT) (nick_key cls) (clientTable t)" "name \<noteq> []"
  shows "find_named_client cls t (Some name) =
           Some (tab_find (hash_func HASH_CLIENT) name_eq (nick_key cls) (clientTable t) name)"
  using foreach_tab_find [OF assms(1), of name_eq name] assms(2)
  by (simp add: find_named_client_def lookup_defs)

lemma find_id_tab:
  assumes "tab_ok (hash_func HASH_ID) (id_key cls) (idTable t)" "name \<noteq> []"
  shows "find_id cls t (Some name) =
           Some (tab_find (hash_func HASH_ID) (=) (id_key cls) (idTable t) name)"
  using foreach_tab_find [OF assms(1), of "(=)" name] assms(2)
  by (simp add: find_id_def lookup_defs)

lemma find_channel_tab:
  assumes "tab_ok (hash_func HASH_CHANNEL) (chan_key chs) (channelTable t)" "name \<noteq> []"
  shows "find_channel chs t (Some name) =
           Some (tab_find (hash_func HASH_CHANNEL) name_eq (chan_key chs) (channelTable t) name)"
  using foreach_tab_find [OF assms(1), of name_eq name] assms(2)
  by (simp add: find_channel_def lookup_defs)

lemma find_client_cases:
  "find_client cls t (Some name) =
     (if name \<noteq> [] \<and> IsDigit (headc name) then find_id cls t (Some name)
      else find_named_client cls t (Some name))"
  by (simp add: find_client_def find_named_client_def)

section \<open>Masked server lookup\<close>

lemma find_server_total_aux:
  fixes cls t
  assumes "\<And>i. set (clientTable t i) \<subseteq> dom cls" "\<And>i. set (idTable t i) \<subseteq> dom cls"
  shows "find_server cls t src name \<noteq> None"
    and "hash_find_masked_server cls t src name \<noteq> None"
    and "p > 0 \<or> headc buf \<noteq> CHR ''.'' \<Longrightarrow> masked_server_loop cls t src buf p \<noteq> None"
  using assms
proof (induction cls t src name and cls t src name and cls t src buf p
    rule: find_server_hash_find_masked_server_masked_server_loop.induct)
  case (1 cls t src name)
  note live = foreach_find_eq [OF 1(2)] foreach_find_eq [OF 1(3)]
  show ?case
    using 1(1) 1(2,3) by (subst find_server.simps) (auto simp: find_id_def live split: option.splits)
next
  case (2 cls t src name)
  have "headc (rb_strlcpy name 64) = headc name" by (cases name) (simp_all add: rb_strlcpy_def)
  with 2 show ?case by (subst hash_find_masked_server.simps) auto
next
  case (3 cls t src buf p)
  have "i \<noteq> 0" if "strchr_from CHR ''.'' buf p = Some i" for i
    using strchr_from_Some [OF that] 3(3) by (cases buf; cases i) auto
  with 3 show ?case by (subst masked_server_loop.simps) (auto split: option.splits)
qed

text \<open>
  What a server lookup may return: a server with that identifier, a server with that name, or a
  server whose name is a star in front of a dot of the name and what follows it.
\<close>

definition server_answer :: "(ptr \<rightharpoonup> Client) \<Rightarrow> string \<Rightarrow> ptr \<Rightarrow> bool" where
  "server_answer cls name p \<longleftrightarrow> (\<exists>c. cls p = Some c \<and>
     (cl_id c = name \<or>
      (IsServer c \<or> IsMe c) \<and>
      (irccmp name (cl_name c) = 0 \<or>
       (\<exists>a b. rb_strlcpy name 64 = a @ CHR ''.'' # b \<and> a \<noteq> [] \<and> irccmp (CHR ''*'' # CHR ''.'' # b) (cl_name c) = 0))))"

lemma find_server_star:
  "find_server cls t src (CHR ''*'' # s) =
     foreach_find cls (\<lambda>c. (IsServer c \<or> IsMe c) \<and> irccmp (CHR ''*'' # s) (cl_name c) = 0)
       (clientTable t (hash_nick (CHR ''*'' # s)))"
  by (subst find_server.simps)
    (simp add: hash_find_masked_server.simps IsDigit_iff split: option.splits)

lemma masked_server_loop_sound:
  "masked_server_loop cls t src buf p = Some (Some q) \<Longrightarrow>
   \<exists>c i. cls q = Some c \<and> (IsServer c \<or> IsMe c) \<and> p \<le> i \<and> 0 < i \<and> i < length buf \<and> buf ! i = CHR ''.'' \<and>
     irccmp (CHR ''*'' # drop i buf) (cl_name c) = 0"
proof (induction "length buf - p" arbitrary: buf p rule: less_induct)
  case less
  from less.prems obtain i where i: "strchr_from CHR ''.'' buf p = Some i" and i0: "i \<noteq> 0"
    by (subst (asm) masked_server_loop.simps) (auto split: option.splits if_splits)
  note b = strchr_from_Some [OF i]
  let ?f = "find_server cls t src (CHR ''*'' # drop i buf)"
  consider "?f = Some (Some q)" | "?f = Some None"
      "masked_server_loop cls t src (buf[i - 1 := CHR ''*'']) (Suc i) = Some (Some q)"
    using less.prems i i0 by (subst (asm) masked_server_loop.simps) (auto split: option.splits)
  then show ?case
  proof cases
    case 1
    then show ?thesis using b i0 foreach_find_Some unfolding find_server_star by blast
  next
    case 2
    have "length (buf[i - 1 := CHR ''*'']) - Suc i < length buf - p" using b by auto
    from less.hyps [OF this 2(2)] obtain c j where j: "cls q = Some c" "IsServer c \<or> IsMe c"
      "Suc i \<le> j" "j < length buf" "buf[i - 1 := CHR ''*''] ! j = CHR ''.''"
      "irccmp (CHR ''*'' # drop j (buf[i - 1 := CHR ''*''])) (cl_name c) = 0"
      by auto
    then have "buf ! j = CHR ''.''" "drop j (buf[i - 1 := CHR ''*'']) = drop j buf"
      by (auto simp: drop_update_cancel)
    then show ?thesis using j b by (intro exI [of _ c] exI [of _ j]) auto
  qed
qed

theorem find_server_answer:
  assumes "find_server cls t src name = Some (Some p)"
  shows "server_answer cls name p"
proof -
  let ?P = "\<lambda>c. (IsServer c \<or> IsMe c) \<and> irccmp name (cl_name c) = 0"
  consider "find_id cls t (Some name) = Some (Some p)"
    | "foreach_find cls ?P (clientTable t (hash_nick name)) = Some (Some p)"
    | "hash_find_masked_server cls t src name = Some (Some p)"
    using assms by (subst (asm) find_server.simps) (auto split: if_splits option.splits)
  then show ?thesis
  proof cases
    case 1
    then show ?thesis
      by (auto simp: find_id_def server_answer_def split: if_splits dest: foreach_find_Some)
  next
    case 2
    then show ?thesis by (auto simp: server_answer_def dest: foreach_find_Some)
  next
    case 3
    let ?b = "rb_strlcpy name 64"
    have "masked_server_loop cls t src ?b 0 = Some (Some p)"
      using 3 by (subst (asm) hash_find_masked_server.simps) (auto split: if_splits)
    from masked_server_loop_sound [OF this] obtain c i where c: "cls p = Some c"
      "IsServer c \<or> IsMe c" "0 < i" "i < length ?b" "?b ! i = CHR ''.''"
      "irccmp (CHR ''*'' # drop i ?b) (cl_name c) = 0" by blast
    then have "?b = take i ?b @ CHR ''.'' # drop (Suc i) ?b" "take i ?b \<noteq> []"
      "drop i ?b = CHR ''.'' # drop (Suc i) ?b"
      using id_take_nth_drop [of i ?b] Cons_nth_drop_Suc [of i ?b] by auto
    with c show ?thesis unfolding server_answer_def by metis
  qed
qed

lemma masked_server_loop_None:
  "masked_server_loop cls t src buf p = Some None \<Longrightarrow> p \<le> i \<Longrightarrow> i < length buf \<Longrightarrow> buf ! i = CHR ''.'' \<Longrightarrow>
   find_server cls t src (CHR ''*'' # drop i buf) = Some None"
proof (induction "length buf - p" arbitrary: buf p rule: less_induct)
  case less
  obtain j where j: "strchr_from CHR ''.'' buf p = Some j"
    using less.prems by (cases "strchr_from CHR ''.'' buf p") (auto simp: strchr_from_def find_None_iff)
  note b = strchr_from_Some [OF j]
  have min: "j \<le> i"
  proof (rule ccontr)
    assume "\<not> j \<le> i"
    with j less.prems(2,4) show False
      by (auto simp: strchr_from_def find_Some_iff)
         (metis less_diff_conv2 add.commute le_add_diff_inverse nat_le_linear not_le)
  qed
  have jn: "find_server cls t src (CHR ''*'' # drop j buf) = Some None"
    and rest: "masked_server_loop cls t src (buf[j - 1 := CHR ''*'']) (Suc j) = Some None"
    using less.prems(1) j by (subst (asm) masked_server_loop.simps; auto split: if_splits option.splits)+
  show ?case
  proof (cases "i = j")
    case True
    then show ?thesis using jn by simp
  next
    case False
    with min have ij: "Suc j \<le> i" by simp
    then have nm: "buf[j - 1 := CHR ''*''] ! i = CHR ''.''" "drop i (buf[j - 1 := CHR ''*'']) = drop i buf"
      using less.prems(4) by (auto simp: drop_update_cancel)
    have "length (buf[j - 1 := CHR ''*'']) - Suc j < length buf - p" using b by auto
    from less.hyps [OF this rest ij _ nm(1)] less.prems(3) nm(2) show ?thesis by simp
  qed
qed

text \<open>A failed lookup means that no server of the table has the name, nor a mask of it.\<close>

lemma find_server_none:
  assumes tab: "tab_ok (hash_func HASH_CLIENT) (nick_key cls) (clientTable t)"
    and val: "nicks.keys_valid (nick_key cls) (clientTable t)"
    and none: "find_server cls t src name = Some None"
    and name: "cstring name" "name \<noteq> []" "\<not> IsDigit (headc name)"
    and q: "q \<in> tab_set (clientTable t)" "cls q = Some c" "IsServer c \<or> IsMe c"
  shows "irccmp name (cl_name c) \<noteq> 0"
    and "\<lbrakk>headc name \<noteq> CHR ''*''; headc name \<noteq> CHR ''.''; rb_strlcpy name 64 = a @ CHR ''.'' # b\<rbrakk> \<Longrightarrow>
         irccmp (CHR ''*'' # CHR ''.'' # b) (cl_name c) \<noteq> 0"
proof -
  let ?P = "\<lambda>n c. (IsServer c \<or> IsMe c) \<and> irccmp n (cl_name c) = 0"
  have absent: "irccmp n (cl_name c) \<noteq> 0"
    if n: "cstring n" "foreach_find cls (?P n) (clientTable t (hash_nick n)) = Some None" for n
  proof
    assume eq: "irccmp n (cl_name c) = 0"
    have "cstring (cl_name c)" using val q by (auto simp: nicks.keys_valid_def)
    then have "hash_nick n = hash_nick (cl_name c)"
      using eq n(1) nicks.same_hash [of n "cl_name c"] by (simp add: name_eq_def hash_nick_def)
    moreover have "q \<in> set (clientTable t (hash_nick (cl_name c)))"
      using tab q by (force simp: tab_ok_def tab_set_def hash_nick_def)
    ultimately show False
      using n(2) eq q by (auto simp: foreach_find_None)
  qed
  have fs: "foreach_find cls (?P name) (clientTable t (hash_nick name)) = Some None"
    and ms: "hash_find_masked_server cls t src name = Some None"
    using none name(2,3) by (subst (asm) find_server.simps; auto split: option.splits)+
  show "irccmp name (cl_name c) \<noteq> 0" using absent [OF name(1) fs] .
  assume h: "headc name \<noteq> CHR ''*''" "headc name \<noteq> CHR ''.''" "rb_strlcpy name 64 = a @ CHR ''.'' # b"
  have loop: "masked_server_loop cls t src (rb_strlcpy name 64) 0 = Some None"
    using ms h by (simp add: hash_find_masked_server.simps)
  have "find_server cls t src (CHR ''*'' # CHR ''.'' # b) = Some None"
    using masked_server_loop_None [OF loop, of "length a"] h(3) by simp
  moreover have "cstring (a @ CHR ''.'' # b)"
    using name(1) h(3) by (metis append_take_drop_id cstring_append rb_strlcpy_def)
  then have "cstring (CHR ''*'' # CHR ''.'' # b)" by (simp add: NUL_def)
  ultimately show "irccmp (CHR ''*'' # CHR ''.'' # b) (cl_name c) \<noteq> 0"
    using absent find_server_star by simp
qed

section \<open>Creating channels\<close>

text \<open>The store, the global list and the table of channels agree.\<close>

definition chan_tab_ok :: "(ptr \<rightharpoonup> Channel) \<Rightarrow> ptr list \<Rightarrow> hashtabs \<Rightarrow> bool" where
  "chan_tab_ok chs glist t \<longleftrightarrow>
     tab_ok (hash_func HASH_CHANNEL) (chan_key chs) (channelTable t) \<and>
     tab_set (channelTable t) = dom chs \<and> set glist = dom chs \<and> distinct glist \<and>
     (\<forall>p c. chs p = Some c \<longrightarrow> cstring (ch_chname c) \<and> ch_chname c \<noteq> [])"

lemma allocate_channel_name:
  "length s < CHANNELLEN \<Longrightarrow> ch_chname (allocate_channel s) = s"
  "length s = CHANNELLEN \<Longrightarrow> ch_chname (allocate_channel s) = take (CHANNELLEN - 1) s"
  by (simp_all add: allocate_channel_def rb_strndup_def rb_strlcpy_def)

text \<open>The name a request stands for: names longer than a channel name may be are cut.\<close>

definition chan_request :: "string \<Rightarrow> string" where
  "chan_request s = (if length s > CHANNELLEN then take CHANNELLEN s else s)"

lemma get_or_create_eq:
  "chname \<noteq> [] \<Longrightarrow>
   get_or_create_channel new now cl (Some chname) chs glist t =
     (case foreach_find chs (\<lambda>c. irccmp (chan_request chname) (ch_chname c) = 0)
             (channelTable t (hash_channel (chan_request chname))) of
        None \<Rightarrow> None
      | Some (Some p) \<Rightarrow>
          Some (Some (p, False), length chname > CHANNELLEN \<and> IsServer cl, chs, glist, t)
      | Some None \<Rightarrow>
          Some (Some (new, True), length chname > CHANNELLEN \<and> IsServer cl,
                chs(new \<mapsto> (allocate_channel (chan_request chname))\<lparr>ch_channelts := now\<rparr>), new # glist,
                t\<lparr>channelTable :=
                    bucket_add (hash_channel (chan_request chname)) new (channelTable t)\<rparr>))"
  by (cases "CHANNELLEN < length chname")
    (simp_all add: get_or_create_channel_def chan_request_def Let_def split: option.split)

lemma hash_channel_cut: "hash_channel (take (CHANNELLEN - 1) s) = hash_channel s"
  by (simp add: hash_channel_def fnv_hash_upper_len_def CHANNELLEN_def)

lemma chan_key_update:
  "chan_key (chs(new \<mapsto> c)) = (chan_key chs)(new \<mapsto> ch_chname c)"
  by (rule ext) simp

lemma tab_ok_fresh_key:
  "tab_ok hashf key b \<Longrightarrow> new \<notin> tab_set b \<Longrightarrow> tab_ok hashf (key(new \<mapsto> k)) b"
  by (force simp: tab_ok_def tab_set_def)

lemma chan_request_cstring: "cstring s \<Longrightarrow> cstring (chan_request s)"
  unfolding chan_request_def cstring_def by (auto dest: in_set_takeD)

lemma get_or_create_ok:
  assumes ok: "chan_tab_ok chs glist t" and name: "chname \<noteq> []" "cstring chname"
    and fresh: "chs new = None"
    and step: "get_or_create_channel new now cl (Some chname) chs glist t = Some (r, n, chs', glist', t')"
  shows "chan_tab_ok chs' glist' t'"
proof -
  let ?s = "chan_request chname" and ?b = "channelTable t"
  let ?c = "(allocate_channel ?s)\<lparr>ch_channelts := now\<rparr>"
  consider (same) "chs' = chs" "glist' = glist" "t' = t"
    | (created) "chs' = chs(new \<mapsto> ?c)" "glist' = new # glist"
        "t' = t\<lparr>channelTable := bucket_add (hash_channel ?s) new ?b\<rparr>"
    using step name by (auto simp: get_or_create_eq split: option.splits)
  then show ?thesis
  proof cases
    case same
    with ok show ?thesis by simp
  next
    case created
    have len: "length ?s \<le> CHANNELLEN" and sne: "?s \<noteq> []"
      using name(1) by (auto simp: chan_request_def CHANNELLEN_def)
    have nm: "ch_chname ?c = take (CHANNELLEN - 1) ?s"
      using len by (simp add: allocate_channel_def rb_strndup_def rb_strlcpy_def)
    have hash: "hash_channel ?s = hash_func HASH_CHANNEL (ch_chname ?c)"
      using hash_channel_cut [of ?s] nm by (simp add: hash_channel_def)
    have new: "new \<notin> tab_set ?b" using ok fresh by (auto simp: chan_tab_ok_def)
    have "cstring (ch_chname ?c)"
      using chan_request_cstring [OF name(2)] nm unfolding cstring_def by (metis in_set_takeD)
    moreover have "ch_chname ?c \<noteq> []" using nm sne by (simp add: CHANNELLEN_def)
    moreover have "tab_ok (hash_func HASH_CHANNEL) (chan_key chs') (channelTable t')"
    proof -
      have "tab_ok (hash_func HASH_CHANNEL) (chan_key chs') ?b"
        using ok new unfolding created(1) chan_key_update by (intro tab_ok_fresh_key) (simp_all add: chan_tab_ok_def)
      then have "tab_ok (hash_func HASH_CHANNEL) (chan_key chs') (bucket_add (hash_func HASH_CHANNEL (ch_chname ?c)) new ?b)"
        using new by (intro chans.add_ok) (simp_all add: created(1))
      then show ?thesis unfolding created(3) hash [symmetric] by simp
    qed
    ultimately show ?thesis
      using ok created fresh
      by (auto simp: chan_tab_ok_def tab_set_add)
  qed
qed

theorem get_or_create_found:
  assumes ok: "chan_tab_ok chs glist t" and name: "chname \<noteq> []" "cstring chname" "length chname < CHANNELLEN"
    and fresh: "chs new = None"
  shows "\<exists>p isnew chs' glist' t'.
     get_or_create_channel new now cl (Some chname) chs glist t =
       Some (Some (p, isnew), False, chs', glist', t') \<and>
     find_channel chs' t' (Some chname) = Some (Some p)"
proof -
  have s: "chan_request chname = chname" using name(3) by (simp add: chan_request_def)
  have tab: "tab_ok (hash_func HASH_CHANNEL) (chan_key chs) (channelTable t)"
    using ok by (simp add: chan_tab_ok_def)
  have f: "foreach_find chs (\<lambda>c. irccmp chname (ch_chname c) = 0) (channelTable t (hash_channel chname)) =
      find_channel chs t (Some chname)" using name(1) by (simp add: find_channel_def)
  obtain r where r: "find_channel chs t (Some chname) = Some r"
    using find_channel_tab [OF tab name(1)] by simp
  show ?thesis
  proof (cases r)
    case (Some p)
    with r f s name show ?thesis by (auto simp: get_or_create_eq)
  next
    case None
    then have "foreach_find chs (\<lambda>c. irccmp chname (ch_chname c) = 0) (channelTable t (hash_channel chname)) = Some None"
      using r f by simp
    with s name show ?thesis
      by (auto simp: get_or_create_eq find_channel_def bucket_add_def allocate_channel_name)
  qed
qed

lemma irccmp_length: "cstring s \<Longrightarrow> cstring t \<Longrightarrow> irccmp s t = 0 \<Longrightarrow> length s = length t"
  by (simp add: irccmp_eq_0_iff) (metis length_map)

text \<open>
  A name of \<^const>\<open>CHANNELLEN\<close> characters or more is stored one character short, so the new channel
  does not answer to it: asking again creates another one.
\<close>

lemma foreach_find_fresh:
  "new \<notin> set ps \<Longrightarrow> foreach_find (st(new \<mapsto> x)) P ps = foreach_find st P ps"
  by (induction ps) (auto split: option.splits)

lemma irccmp_shorter: "cstring s \<Longrightarrow> n < length s \<Longrightarrow> irccmp s (take n s) \<noteq> 0"
proof
  assume h: "cstring s" "n < length s" "irccmp s (take n s) = 0"
  have "cstring (take n s)" using h(1) unfolding cstring_def by (meson in_set_takeD)
  then have "length s = length (take n s)" using h by (intro irccmp_length)
  then show False using h(2) by simp
qed

text \<open>
  C35: For a channel name of CHANNELLEN bytes or more, a second get_or_create_channel with the
  same name creates another channel, because the stored name is one byte shorter than the one
  looked up.
\<close>

theorem get_or_create_again:
  assumes name: "cstring chname" "CHANNELLEN \<le> length chname"
    and fresh: "chs new = None"
    and one: "get_or_create_channel new now cl (Some chname) chs glist t = Some (Some (new, True), n, chs1, glist1, t1)"
  shows "\<exists>chs2 glist2 t2. get_or_create_channel new2 now cl (Some chname) chs1 glist1 t1 =
     Some (Some (new2, True), n, chs2, glist2, t2)"
proof -
  let ?s = "chan_request chname"
  have ne: "chname \<noteq> []" using name(2) by (auto simp: CHANNELLEN_def)
  have len: "length ?s = CHANNELLEN" using name(2) by (simp add: chan_request_def)
  have diff: "irccmp ?s (take (CHANNELLEN - 1) ?s) \<noteq> 0"
    using len chan_request_cstring [OF name(1)] by (intro irccmp_shorter) (simp_all add: CHANNELLEN_def)
  let ?c = "(allocate_channel ?s)\<lparr>ch_channelts := now\<rparr>"
  let ?walk = "\<lambda>st. foreach_find st (\<lambda>c. irccmp ?s (ch_chname c) = 0)"
  have w: "?walk chs (channelTable t (hash_channel ?s)) = Some None"
    and st: "chs1 = chs(new \<mapsto> ?c)" "n = (length chname > CHANNELLEN \<and> IsServer cl)"
      "t1 = t\<lparr>channelTable := bucket_add (hash_channel ?s) new (channelTable t)\<rparr>"
    using one ne by (auto simp: get_or_create_eq split: option.splits)
  have "new \<notin> set (channelTable t (hash_channel ?s))"
    using w fresh by (auto simp: foreach_find_None)
  then have "?walk chs1 (channelTable t1 (hash_channel ?s)) = Some None"
    using w diff allocate_channel_name(2) [OF len] st by (simp add: bucket_add_def foreach_find_fresh)
  then show ?thesis using ne st(2) by (simp add: get_or_create_eq)
qed

section \<open>Properties\<close>

text \<open>The tables as the program starts with them.\<close>

definition zero_tabs :: hashtabs where
  "zero_tabs =
     \<lparr>clientbyfdTable = \<lambda>_. [], clientTable = \<lambda>_. [], channelTable = \<lambda>_. [], idTable = \<lambda>_. [],
      resvTable = \<lambda>_. [], hostTable = \<lambda>_. [], helpTable = \<lambda>_. [], ndTable = \<lambda>_. []\<rparr>"

lemma single_tab:
  assumes "key p = Some k"
  shows "tab_ok hashf key ((\<lambda>_. [])(hashf k := [p]))" and "tab_set ((\<lambda>_. [])(i := [p])) = {p}"
    and "keys_unique same key ((\<lambda>_. [])(i := [p]))"
  using assms by (auto simp: tab_ok_def tab_set_def keys_unique_def split: if_splits)

lemma zero_chan_tab_ok: "chan_tab_ok (\<lambda>_. None) [] zero_tabs"
  by (simp add: chan_tab_ok_def tab_ok_def tab_set_def zero_tabs_def)

text \<open>
  C34: After add_to_hash of a client under its nick, find_named_client returns it for every
  spelling of the nick that irccmp calls equal, and answers every other name as before.
\<close>

theorem find_after_add:
  assumes tab: "tab_ok (hash_func HASH_CLIENT) (nick_key cls) (clientTable t)"
    and p: "p \<notin> tab_set (clientTable t)" "cls p = Some c" "cstring (cl_name c)" "cl_name c \<noteq> []"
    and name: "cstring name" "name \<noteq> []"
  shows "find_named_client cls (add_to_hash HASH_CLIENT (Some (cl_name c)) (Some p) t) (Some name) =
    (if irccmp name (cl_name c) = 0 then Some (Some p) else find_named_client cls t (Some name))"
proof -
  have key: "nick_key cls p = Some (cl_name c)" using p by simp
  let ?b = "bucket_add (hash_func HASH_CLIENT (cl_name c)) p (clientTable t)"
  have t': "clientTable (add_to_hash HASH_CLIENT (Some (cl_name c)) (Some p) t) = ?b"
    using p by (simp add: add_to_hash_def)
  have "tab_ok (hash_func HASH_CLIENT) (nick_key cls) ?b" by (rule nicks.add_ok [OF tab key p(1)])
  then show ?thesis
    using nicks.find_add [where key = "nick_key cls", OF key name(1) p(3), of "clientTable t"] find_named_client_tab [OF tab name(2)]
    by (simp add: find_named_client_tab t' name name_eq_def)
qed

theorem find_after_add_witness:
  "find_named_client [7 \<mapsto> zero_Client\<lparr>cl_name := ''Chang''\<rparr>]
     (add_to_hash HASH_CLIENT (Some ''Chang'') (Some 7) zero_tabs) (Some ''cHANG'') = Some (Some 7)"
proof -
  have "irccmp ''cHANG'' ''Chang'' = 0" by code_simp
  then show ?thesis
    using find_after_add [of "[7 \<mapsto> zero_Client\<lparr>cl_name := ''Chang''\<rparr>]" zero_tabs 7 "zero_Client\<lparr>cl_name := ''Chang''\<rparr>" "''cHANG''"]
    by (simp add: tab_ok_def tab_set_def zero_tabs_def cstring_def NUL_def)
qed

theorem find_after_del:
  assumes tab: "tab_ok (hash_func HASH_CLIENT) (nick_key cls) (clientTable t)"
      "nicks.keys_valid (nick_key cls) (clientTable t)" "keys_unique name_eq (nick_key cls) (clientTable t)"
    and p: "p \<in> tab_set (clientTable t)" "cls p = Some c" "cl_name c \<noteq> []"
    and name: "cstring name" "name \<noteq> []"
  shows "find_named_client cls (del_from_hash HASH_CLIENT (Some (cl_name c)) (Some p) t) (Some name) =
    (if irccmp name (cl_name c) = 0 then Some None else find_named_client cls t (Some name))"
proof -
  have key: "nick_key cls p = Some (cl_name c)" using p by simp
  let ?b = "bucket_del (hash_func HASH_CLIENT (cl_name c)) p (clientTable t)"
  have t': "clientTable (del_from_hash HASH_CLIENT (Some (cl_name c)) (Some p) t) = ?b"
    using p by (simp add: del_from_hash_def)
  have "tab_ok (hash_func HASH_CLIENT) (nick_key cls) ?b" by (rule nicks.del_ok [OF tab(1)])
  then show ?thesis
    using nicks.find_del [OF tab p(1) key name(1)] find_named_client_tab [OF tab(1) name(2)]
    by (simp add: find_named_client_tab t' name name_eq_def)
qed

theorem find_after_del_witness:
  "find_named_client [7 \<mapsto> zero_Client\<lparr>cl_name := ''Chang''\<rparr>]
     (del_from_hash HASH_CLIENT (Some ''Chang'') (Some 7)
        (add_to_hash HASH_CLIENT (Some ''Chang'') (Some 7) zero_tabs)) (Some ''cHANG'') = Some None"
proof -
  let ?t = "add_to_hash HASH_CLIENT (Some ''Chang'') (Some 7) zero_tabs"
  let ?c = "zero_Client\<lparr>cl_name := ''Chang''\<rparr>"
  have t: "clientTable ?t = (\<lambda>_. [])(hash_func HASH_CLIENT ''Chang'' := [7])"
    by (simp add: add_to_hash_def zero_tabs_def bucket_add_def del: hash_func.simps)
  have key: "nick_key [7 \<mapsto> ?c] 7 = Some ''Chang''" by simp
  have cs: "cstring ''Chang''" "cstring ''cHANG''" by (simp_all add: cstring_def NUL_def)
  have "irccmp ''cHANG'' ''Chang'' = 0" by code_simp
  moreover have "nicks.keys_valid (nick_key [7 \<mapsto> ?c]) (clientTable ?t)"
    unfolding nicks.keys_valid_def t single_tab(2) [where key = "nick_key [7 \<mapsto> ?c]", OF key] using cs by simp
  ultimately show ?thesis
    using find_after_del [of "[7 \<mapsto> ?c]" ?t 7 ?c "''cHANG''"]
      single_tab [where key = "nick_key [7 \<mapsto> ?c]", OF key] cs by (simp add: t del: hash_func.simps)
qed

theorem hash_index_bounds:
  "hash_func type x < 2 ^ hash_bits type \<and> hash_help x < HELP_MAX"
  by (simp only: hash_func_less hash_help_less simp_thms)

theorem find_server_answer_witness:
  "server_answer [1 \<mapsto> zero_Client\<lparr>cl_name := ''*.it'', cl_status := STAT_SERVER\<rparr>] ''irc.az.it'' 1"
proof (rule find_server_answer)
  show "find_server [1 \<mapsto> zero_Client\<lparr>cl_name := ''*.it'', cl_status := STAT_SERVER\<rparr>]
      (add_to_hash HASH_CLIENT (Some ''*.it'') (Some 1) zero_tabs) None ''irc.az.it'' = Some (Some 1)"
    by code_simp
qed

theorem find_server_complete:
  assumes tab: "tab_ok (hash_func HASH_CLIENT) (nick_key cls) (clientTable t)"
      "nicks.keys_valid (nick_key cls) (clientTable t)"
    and none: "find_server cls t src name = Some None"
    and name: "cstring name" "name \<noteq> []" "\<not> IsDigit (headc name)"
    and q: "q \<in> tab_set (clientTable t)" "cls q = Some c" "IsServer c \<or> IsMe c"
  shows "irccmp name (cl_name c) \<noteq> 0 \<and>
    (\<forall>a b. headc name \<noteq> CHR ''*'' \<and> headc name \<noteq> CHR ''.'' \<and> rb_strlcpy name 64 = a @ CHR ''.'' # b \<longrightarrow>
       irccmp (CHR ''*'' # CHR ''.'' # b) (cl_name c) \<noteq> 0)"
  using find_server_none [OF assms] by blast

theorem find_server_complete_witness: "irccmp ''irc.az.it'' ''*.com'' \<noteq> 0 \<and> irccmp ''*.az.it'' ''*.com'' \<noteq> 0"
proof -
  let ?c = "zero_Client\<lparr>cl_name := ''*.com'', cl_status := STAT_SERVER\<rparr>"
  let ?t = "add_to_hash HASH_CLIENT (Some ''*.com'') (Some 1) zero_tabs"
  have t: "clientTable ?t = (\<lambda>_. [])(hash_func HASH_CLIENT ''*.com'' := [1])"
    by (simp add: add_to_hash_def zero_tabs_def bucket_add_def del: hash_func.simps)
  have key: "nick_key [1 \<mapsto> ?c] 1 = Some ''*.com''" by simp
  note tab = single_tab [where key = "nick_key [1 \<mapsto> ?c]", OF key]
  have cs: "cstring ''*.com''" "cstring ''irc.az.it''" by (simp_all add: cstring_def NUL_def)
  have none: "find_server [1 \<mapsto> ?c] ?t None ''irc.az.it'' = Some None" by code_simp
  have ok: "tab_ok (hash_func HASH_CLIENT) (nick_key [1 \<mapsto> ?c]) (clientTable ?t)"
    "nicks.keys_valid (nick_key [1 \<mapsto> ?c]) (clientTable ?t)" "1 \<in> tab_set (clientTable ?t)"
    unfolding nicks.keys_valid_def t tab(2) by (rule tab(1), simp_all add: NUL_def)
  have c: "[1 \<mapsto> ?c] 1 = Some ?c" "IsServer ?c \<or> IsMe ?c" "\<not> IsDigit (headc ''irc.az.it'')" "''irc.az.it'' \<noteq> []"
    by (simp_all add: IsServer_def IsDigit_iff)
  from find_server_complete [OF ok(1,2) none cs(2) c(4,3) ok(3) c(1,2)] show ?thesis
    by (auto simp: rb_strlcpy_def dest!: spec [of _ "''irc''"] spec [of _ "''az.it''"])
qed

theorem get_or_create_found_witness:
  "\<exists>p isnew chs' glist' t'.
     get_or_create_channel 5 100 zero_Client (Some ''#it'') (\<lambda>_. None) [] zero_tabs =
       Some (Some (p, isnew), False, chs', glist', t') \<and> find_channel chs' t' (Some ''#it'') = Some (Some p)"
  by (rule get_or_create_found [OF zero_chan_tab_ok]) (simp_all add: cstring_def NUL_def CHANNELLEN_def)

theorem get_or_create_again_witness:
  "\<exists>n chs1 glist1 t1 chs2 glist2 t2.
     get_or_create_channel 5 100 zero_Client (Some (CHR ''#'' # replicate 200 CHR ''a'')) (\<lambda>_. None) [] zero_tabs =
       Some (Some (5, True), n, chs1, glist1, t1) \<and>
     get_or_create_channel 6 100 zero_Client (Some (CHR ''#'' # replicate 200 CHR ''a'')) chs1 glist1 t1 =
       Some (Some (6, True), n, chs2, glist2, t2)"
proof -
  let ?n = "CHR ''#'' # replicate 200 CHR ''a''"
  obtain chs1 glist1 t1 where one: "get_or_create_channel 5 100 zero_Client (Some ?n) (\<lambda>_. None) [] zero_tabs =
       Some (Some (5, True), length ?n > CHANNELLEN \<and> IsServer zero_Client, chs1, glist1, t1)"
    by (simp add: get_or_create_eq zero_tabs_def)
  have "cstring ?n" "CHANNELLEN \<le> length ?n" by (simp_all add: cstring_def NUL_def CHANNELLEN_def)
  from get_or_create_again [OF this _ one, of 6] one show ?thesis by blast
qed

end
