(* ===== verification/Parse.thy ===== *)
theory Parse
  imports Hash Tools
begin

text \<open>
  The message parser, \<^verbatim>\<open>libratboxcore/parse.c\<close>: splitting a line into source, command and parameters,
  the command table, the dispatch to a handler, and the treatment of numerics and of unknown or
  misdirected sources.  The handlers of the loadable modules are a parameter of the dispatch; the
  calls that send or log are recorded, in order, as effects with the format string of the source.
\<close>

section \<open>Parameters\<close>

definition MAXPARA :: nat where "MAXPARA = 15"

text \<open>
  \<^verbatim>\<open>string_to_array()\<close>; the result lists \<^verbatim>\<open>parv[1]\<close>, \<^verbatim>\<open>parv[2]\<close>, \dots, so the returned count is one more
  than its length, and that count is the index at which the terminating \<^verbatim>\<open>NULL\<close> is written.
\<close>

definition string_to_array :: "string \<Rightarrow> string list" where
  "string_to_array string =
     (if skip_spaces string = [] then [] else split_loop MAXPARA 1 (skip_spaces string))"

definition string_to_array_count :: "string \<Rightarrow> nat" where
  "string_to_array_count string = Suc (length (string_to_array string))"

section \<open>The command table\<close>

definition MAX_MSG_HASH :: "32 word" where "MAX_MSG_HASH = 512"

fun cmd_hash_loop :: "32 word \<Rightarrow> 32 word \<Rightarrow> string \<Rightarrow> 32 word" where
  "cmd_hash_loop hash_val q [] = hash_val"
| "cmd_hash_loop hash_val q (c # p) =
     (let n = of_char (ToUpper c) :: 32 word
      in cmd_hash_loop (hash_val + ((n + push_bit 1 q) XOR push_bit 2 n)) (q + 1) p)"

definition cmd_hash :: "string \<Rightarrow> 32 word" where
  "cmd_hash p = (let hash_val = cmd_hash_loop 0 1 p
                 in drop_bit (32 - 9) hash_val XOR (hash_val AND (MAX_MSG_HASH - 1)))"

text \<open>\<^verbatim>\<open>strcasecmp(a, b) == 0\<close> in the C locale.\<close>

definition strcasecmp_eq :: "string \<Rightarrow> string \<Rightarrow> bool" where
  "strcasecmp_eq a b \<longleftrightarrow> map ToLower a = map ToLower b"

record Message =
  m_cmd :: cptr
  m_count :: "32 word"
  m_rcount :: "32 word"
  m_bytes :: "64 word"
  m_flags :: "32 word"
  m_handlers :: "(nat \<times> nat) list"  \<comment> \<open>the handler and its \<^verbatim>\<open>min_para\<close>, by \<^verbatim>\<open>HandlerType\<close>\<close>

definition MFLG_UNREG :: "32 word" where "MFLG_UNREG = 2"
definition ENCAP_HANDLER :: nat where "ENCAP_HANDLER = 4"

text \<open>A bucket of \<^verbatim>\<open>msg_hash_table\<close>: the chain of \<^verbatim>\<open>struct MessageHash\<close>, the name and the message.\<close>

type_synonym cmd_table = "32 word \<Rightarrow> (string \<times> ptr) list"

definition clear_hash_parse :: cmd_table where
  "clear_hash_parse = (\<lambda>_. [])"

definition mod_add_cmd ::
  "ptr option \<Rightarrow> (ptr \<rightharpoonup> Message) \<Rightarrow> cmd_table \<Rightarrow> ((ptr \<rightharpoonup> Message) \<times> cmd_table) option" where
  "mod_add_cmd msg msgs tbl =
     (case msg of
        None \<Rightarrow> Some (msgs, tbl)
      | Some mp \<Rightarrow> do {
          m \<leftarrow> msgs mp;
          cmd \<leftarrow> m_cmd m;
          let i = cmd_hash cmd;
          if \<exists>e \<in> set (tbl i). strcasecmp_eq cmd (fst e) then Some (msgs, tbl)
          else Some (msgs(mp \<mapsto> m\<lparr>m_count := 0, m_rcount := 0, m_bytes := 0\<rparr>),
                     tbl(i := tbl i @ [(cmd, mp)]))
        })"

text \<open>Unlinking the first entry of a chain with the name.\<close>

fun chain_del :: "string \<Rightarrow> (string \<times> ptr) list \<Rightarrow> (string \<times> ptr) list" where
  "chain_del cmd [] = []"
| "chain_del cmd (e # es) = (if strcasecmp_eq cmd (fst e) then es else e # chain_del cmd es)"

definition mod_del_cmd :: "ptr option \<Rightarrow> (ptr \<rightharpoonup> Message) \<Rightarrow> cmd_table \<Rightarrow> cmd_table option" where
  "mod_del_cmd msg msgs tbl =
     (case msg of
        None \<Rightarrow> Some tbl
      | Some mp \<Rightarrow> do {
          m \<leftarrow> msgs mp;
          cmd \<leftarrow> m_cmd m;
          let i = cmd_hash cmd;
          Some (tbl(i := chain_del cmd (tbl i)))
        })"

definition hash_parse :: "cmd_table \<Rightarrow> string \<Rightarrow> ptr option" where
  "hash_parse tbl cmd = map_option snd (find (\<lambda>e. strcasecmp_eq cmd (fst e)) (tbl (cmd_hash cmd)))"

section \<open>State and effects\<close>

datatype arg = S string | I int

datatype effect =
    Sendto_one ptr string "arg list"
  | Sendto_realops_flags string "arg list"
  | Sendto_channel_local ptr string "arg list"
  | Ilog string "arg list"
  | Exit_client ptr string
  | Send_pop_queue ptr

record pworld =
  pw_clients :: "ptr \<rightharpoonup> Client"
  pw_channels :: "ptr \<rightharpoonup> Channel"
  pw_tabs :: hashtabs
  pw_me :: Client
  pw_msgs :: "ptr \<rightharpoonup> Message"
  pw_cmds :: cmd_table
  pw_is_unpf :: "32 word"
  pw_is_wrdi :: "32 word"
  pw_is_empt :: "32 word"
  pw_is_num :: "32 word"
  pw_is_unco :: "32 word"
  pw_now :: int
  pw_last_warning :: int
  pw_out :: "effect list"

definition emit :: "effect list \<Rightarrow> pworld \<Rightarrow> pworld" where
  "emit es w = w\<lparr>pw_out := pw_out w @ es\<rparr>"

text \<open>The type of a handler call: connection, source, count and array, on the state.\<close>

type_synonym handler_call = "nat \<Rightarrow> ptr \<Rightarrow> ptr \<Rightarrow> nat \<Rightarrow> cptr list \<Rightarrow> pworld \<Rightarrow> pworld"

definition nth_opt :: "'a list \<Rightarrow> nat \<Rightarrow> 'a option" where
  "nth_opt xs i = (if i < length xs then Some (xs ! i) else None)"

section \<open>Dispatch\<close>

definition CAP_ZIP :: "32 word" where "CAP_ZIP = 0x000100"

text \<open>
  The parameter check of \<^verbatim>\<open>handle_command()\<close> and \<^verbatim>\<open>handle_encap()\<close>: too few parameters, or an empty one at the
  last required position.  Reading the array outside its entries is \<^term>\<open>None\<close>.
\<close>

definition short_params :: "nat \<Rightarrow> nat \<Rightarrow> cptr list \<Rightarrow> bool option" where
  "short_params i min_para hpara =
     (if i < min_para then Some True
      else if min_para = 0 then Some False
      else map_option EmptyString (nth_opt hpara (min_para - 1)))"

definition is_cork :: "(ptr \<rightharpoonup> Client) \<Rightarrow> Client \<Rightarrow> bool option" where
  "is_cork cls c = do {
     l \<leftarrow> (if MyConnect c then cl_local c else do { f \<leftarrow> cls (cl_from c); cl_local f });
     Some (lu_cork_count l \<noteq> 0)
   }"

definition uncork_check :: "ptr \<Rightarrow> string \<Rightarrow> pworld \<Rightarrow> pworld option" where
  "uncork_check client_p cmd w = do {
     c \<leftarrow> pw_clients w client_p;
     if IsAnyDead c then Some w
     else do {
       corked \<leftarrow> is_cork (pw_clients w) c;
       if \<not> corked then Some w
       else do {
         l \<leftarrow> cl_local c;
         if lu_caps l AND CAP_ZIP = CAP_ZIP then Some w
         else
           let w = (if pw_last_warning w + 300 \<le> pw_now w
                    then (emit [Sendto_realops_flags
                            ''Bug: client %s was left corked after command %s'' [S (cl_name c), S cmd]] w)
                         \<lparr>pw_last_warning := pw_now w\<rparr>
                    else w)
           in Some (emit [Send_pop_queue client_p]
                (w\<lparr>pw_clients := (pw_clients w)
                     (client_p \<mapsto> c\<lparr>cl_local := Some (l\<lparr>lu_cork_count := 0\<rparr>)\<rparr>)\<rparr>))
       }
     }
   }"

definition handle_command ::
  "handler_call \<Rightarrow> ptr \<Rightarrow> ptr \<Rightarrow> ptr \<Rightarrow> nat \<Rightarrow> cptr list \<Rightarrow> pworld \<Rightarrow> (int \<times> pworld) option" where
  "handle_command run mptr client_p from i hpara w = do {
     c \<leftarrow> pw_clients w client_p;
     if IsAnyDead c then Some (-1, w)
     else do {
       m \<leftarrow> pw_msgs w mptr;
       let m = (if IsServer c then m\<lparr>m_rcount := m_rcount m + 1\<rparr> else m);
       let m = m\<lparr>m_count := m_count m + 1\<rparr>;
       let w = w\<lparr>pw_msgs := (pw_msgs w)(mptr \<mapsto> m)\<rparr>;
       if \<not> IsRegistered c \<and> IsAnyServer c \<and> m_flags m AND MFLG_UNREG = 0 then Some (1, w)
       else do {
         f \<leftarrow> pw_clients w from;
         (handler, min_para) \<leftarrow> nth_opt (m_handlers m) (cl_handler f);
         cmd \<leftarrow> m_cmd m;
         short \<leftarrow> short_params i min_para hpara;
         if short then
           if \<not> IsServer c then
             Some (if MyClient c then 1 else -1,
                   emit [Sendto_one client_p ''461''
                           [S (cl_name (pw_me w)),
                            S (if EmptyString (Some (cl_name c)) then ''*'' else cl_name c), S cmd]] w)
           else
             Some (-1,
                   emit [Sendto_realops_flags
                           (''Dropping server %s due to (invalid) command '' @ CHR 0x27 # ''%s'' @ CHR 0x27 #
                            '' with only %d arguments (expecting %d).'')
                           [S (cl_name c), S cmd, I (int i), I (int min_para)],
                         Ilog (''Insufficient parameters (%d) for command '' @ CHR 0x27 # ''%s'' @ CHR 0x27 # '' from %s.'')
                           [I (int i), S cmd, S (cl_name c)],
                         Exit_client client_p ''Not enough arguments to server command.''] w)
         else do {
           w \<leftarrow> uncork_check client_p cmd (run handler client_p from i hpara w);
           Some (1, w)
         }
       }
     }
   }"

definition handle_encap ::
  "handler_call \<Rightarrow> ptr \<Rightarrow> ptr \<Rightarrow> string \<Rightarrow> nat \<Rightarrow> cptr list \<Rightarrow> pworld \<Rightarrow> pworld option" where
  "handle_encap run client_p source_p command parc parv w = do {
     s \<leftarrow> pw_clients w source_p;
     let parv = parv[0 := Some (cl_name s)];
     case hash_parse (pw_cmds w) command of
       None \<Rightarrow> Some w
     | Some mptr \<Rightarrow> do {
         m \<leftarrow> pw_msgs w mptr;
         if m_cmd m = None then Some w
         else do {
           (handler, min_para) \<leftarrow> nth_opt (m_handlers m) ENCAP_HANDLER;
           short \<leftarrow> short_params parc min_para parv;
           if short then Some w else Some (run handler client_p source_p parc parv w)
         }
       }
   }"

section \<open>Sources that are unknown or come from the wrong side\<close>

text \<open>\<^verbatim>\<open>get_id(source, target)\<close>: the identifier when the target's side speaks it, else the name.\<close>

definition get_id :: "(ptr \<rightharpoonup> Client) \<Rightarrow> Client \<Rightarrow> Client \<Rightarrow> string option" where
  "get_id cls source target = do {
     f \<leftarrow> cls (cl_from target);
     Some (if IsServer f \<and> has_id f then use_id source else cl_name source)
   }"

definition cancel_clients :: "ptr \<Rightarrow> ptr \<Rightarrow> pworld \<Rightarrow> pworld option" where
  "cancel_clients client_p source_p w = do {
     c \<leftarrow> pw_clients w client_p;
     s \<leftarrow> pw_clients w source_p;
     f \<leftarrow> pw_clients w (cl_from s);
     Some (emit [if IsServer s \<or> IsMe s
                 then Sendto_realops_flags ''Message for %s[%s] from %s''
                        [S (cl_name s), S (cl_name f), S (cl_name c)]
                 else Sendto_realops_flags ''Message for %s[%s@%s!%s] from %s (TS, ignored)''
                        [S (cl_name s), S (cl_username s), S (cl_host s), S (cl_name f), S (cl_name c)]] w)
   }"

definition remove_unknown :: "ptr \<Rightarrow> string \<Rightarrow> string \<Rightarrow> pworld \<Rightarrow> pworld option" where
  "remove_unknown client_p lsender lbuffer w = do {
     c \<leftarrow> pw_clients w client_p;
     me \<leftarrow> get_id (pw_clients w) (pw_me w) c;
     Some (if IsDigit (headc lsender) \<and> length lsender = 3 \<or> CHR ''.'' \<in> set lsender
           then emit [Sendto_realops_flags ''Unknown prefix (%s) from %s, Squitting %s''
                        [S lbuffer, S (cl_name c), S lsender],
                      Sendto_one client_p '':%s SQUIT %s :(Unknown prefix (%s) from %s)''
                        [S me, S lsender, S lbuffer, S (cl_name c)]] w
           else emit [Sendto_one client_p '':%s KILL %s :%s (Unknown Client)''
                        [S me, S lsender, S (cl_name (pw_me w))]] w)
   }"

section \<open>Numerics\<close>

definition ERR_NOSUCHNICK :: int where "ERR_NOSUCHNICK = 401"
definition ERR_NOSUCHSERVER :: int where "ERR_NOSUCHSERVER = 402"
definition ERR_UMODEUNKNOWNFLAG :: int where "ERR_UMODEUNKNOWNFLAG = 501"

text \<open>The text built in \<^verbatim>\<open>buffer[1024]\<close> from \<^verbatim>\<open>parv[2]\<close> to \<^verbatim>\<open>parv[parc - 1]\<close>; \<open>ps\<close> lists \<^verbatim>\<open>parv[1]\<close> onwards.\<close>

definition numeric_buffer :: "string list \<Rightarrow> string" where
  "numeric_buffer ps = concat (map (\<lambda>p. CHR '' '' # p) (butlast (tl ps))) @ '' :'' @ last ps"

definition do_numeric :: "string \<Rightarrow> ptr \<Rightarrow> ptr \<Rightarrow> string list \<Rightarrow> pworld \<Rightarrow> pworld option" where
  "do_numeric num client_p source_p ps w = do {
     s \<leftarrow> pw_clients w source_p;
     if Suc (length ps) < 2 \<or> \<not> IsServer s then Some w
     else do {
       c \<leftarrow> pw_clients w client_p;
       let num = (if headc num = CHR ''0'' then CHR ''1'' # tl num else num);
       let buffer = numeric_buffer ps;
       target \<leftarrow> find_client (pw_clients w) (pw_tabs w) (Some (hd ps));
       case target of
         Some target_p \<Rightarrow> do {
           t \<leftarrow> pw_clients w target_p;
           if IsMe t then
             Some (if atoi num \<noteq> ERR_NOSUCHNICK \<and> atoi num \<noteq> ERR_NOSUCHSERVER
                   then emit [Sendto_realops_flags ''*** %s(via %s) sent a %s numeric to me: %s''
                                [S (cl_name s), S (cl_name c), S num, S buffer]] w
                   else w)
           else if cl_from t = client_p then Some w
           else if atoi num = ERR_UMODEUNKNOWNFLAG \<and> MyClient t then Some w
           else do {
             sid \<leftarrow> get_id (pw_clients w) s t;
             tid \<leftarrow> get_id (pw_clients w) t t;
             Some (emit [Sendto_one target_p '':%s %s %s%s'' [S sid, S num, S tid, S buffer]] w)
           }
         }
       | None \<Rightarrow> do {
           chan \<leftarrow> find_channel (pw_channels w) (pw_tabs w) (Some (hd ps));
           case chan of
             None \<Rightarrow> Some w
           | Some chptr \<Rightarrow> do {
               ch \<leftarrow> pw_channels w chptr;
               Some (emit [Sendto_channel_local chptr '':%s %s %s %s''
                             [S (cl_name s), S num, S (ch_chname ch), S buffer]] w)
             }
         }
     }
   }"

section \<open>Parsing a line\<close>

text \<open>
  The source prefix: the text after a leading colon up to a space.  The second component is what
  \<open>ch\<close> points to afterwards; without a space it still points to the source itself.
\<close>

definition split_prefix :: "string \<Rightarrow> cptr \<times> string" where
  "split_prefix ch =
     (if headc ch = CHR '':''
      then (case strchr_split CHR '' '' (tl ch) of
              None \<Rightarrow> (Some (tl ch), tl ch)
            | Some (sender, rest) \<Rightarrow> (Some sender, rest))
      else (None, ch))"

text \<open>What the buffer reads as once the terminator is written after the source.\<close>

definition prefix_text :: "string \<Rightarrow> string \<Rightarrow> string" where
  "prefix_text pbuffer sender = takeWhile (\<lambda>c. c = CHR '' '') pbuffer @ CHR '':'' # sender"

text \<open>
  The test for a numeric looks at the fourth byte first; \<open>mem\<close> is what the buffer holds after the
  terminator.
\<close>

definition at :: "string \<Rightarrow> string \<Rightarrow> nat \<Rightarrow> char" where
  "at s mem i = (if i < length (s @ NUL # mem) then (s @ NUL # mem) ! i else NUL)"

definition is_numeric :: "string \<Rightarrow> string \<Rightarrow> bool" where
  "is_numeric mem ch \<longleftrightarrow>
     at ch mem 3 = CHR '' '' \<and> IsDigit (at ch mem 0) \<and> IsDigit (at ch mem 1) \<and> IsDigit (at ch mem 2)"

text \<open>The removal of a line end that is still in the parameters.\<close>

definition trim_eol :: "string \<Rightarrow> string" where
  "trim_eol s =
     (let s = (if s \<noteq> [] \<and> last s = LF then butlast s else s)
      in if s \<noteq> [] \<and> last s = CR then butlast s else s)"

text \<open>
  The part of \<^verbatim>\<open>parse()\<close> after the source is known, from the test for an empty message on.  The command is
  looked up and the parameters are split.  The message is not empty at the error reply, so the test
  of \<^verbatim>\<open>pbuffer[0]\<close> before it always holds; the result of \<^verbatim>\<open>handle_command()\<close> is never below -1
  (lemma \<open>handle_command_result\<close>), so the dump of the line that would follow is left out.
\<close>

definition parse_command :: "handler_call \<Rightarrow> string \<Rightarrow> ptr \<Rightarrow> ptr \<Rightarrow> string \<Rightarrow> pworld \<Rightarrow> pworld option" where
  "parse_command run mem client_p from_p ch w = do {
     f \<leftarrow> pw_clients w from_p;
     if ch = [] then Some (w\<lparr>pw_is_empt := pw_is_empt w + 1\<rparr>)
     else if is_numeric mem ch then
       do_numeric (take 3 ch) client_p from_p (string_to_array (trim_eol (drop 4 ch)))
         (w\<lparr>pw_is_num := pw_is_num w + 1\<rparr>)
     else do {
       let (cmd, s) = (case strchr_split CHR '' '' ch of
                         None \<Rightarrow> (ch, None) | Some (a, b) \<Rightarrow> (a, Some b));
       let unknown = (if IsClient f
                      then emit [Sendto_one from_p ''421''
                                   [S (cl_name (pw_me w)), S (cl_name f), S cmd]] w
                      else w);
       let unknown = unknown\<lparr>pw_is_unco := pw_is_unco w + 1\<rparr>;
       case hash_parse (pw_cmds w) cmd of
         None \<Rightarrow> Some unknown
       | Some mptr \<Rightarrow> do {
           m \<leftarrow> pw_msgs w mptr;
           if m_cmd m = None then Some unknown
           else do {
             let ii = (case s of None \<Rightarrow> length cmd | Some b \<Rightarrow> length b);
             let w = w\<lparr>pw_msgs := (pw_msgs w)
                         (mptr \<mapsto> m\<lparr>m_bytes := m_bytes m + of_nat ii\<rparr>)\<rparr>;
             let ps = (case s of None \<Rightarrow> [] | Some b \<Rightarrow> string_to_array (trim_eol b));
             let name = (if cl_name f = [] then None else Some (cl_name f));
             (r, w) \<leftarrow> handle_command run mptr client_p from_p (Suc (length ps))
                         (name # map Some ps @ [None]) w;
             Some w
           }
         }
     }
   }"

definition parse :: "handler_call \<Rightarrow> string \<Rightarrow> ptr \<Rightarrow> string \<Rightarrow> pworld \<Rightarrow> pworld option" where
  "parse run mem client_p pbuffer w = do {
     c \<leftarrow> pw_clients w client_p;
     if IsAnyDead c then Some w
     else
       case split_prefix (skip_spaces pbuffer) of
         (None, ch) \<Rightarrow> parse_command run mem client_p client_p ch w
       | (Some sender, ch) \<Rightarrow>
           if sender \<noteq> [] \<and> IsServer c then do {
             from \<leftarrow> find_any_client (pw_clients w) (pw_tabs w) (Some sender);
             case from of
               None \<Rightarrow>
                 remove_unknown client_p sender (prefix_text pbuffer sender)
                   (w\<lparr>pw_is_unpf := pw_is_unpf w + 1\<rparr>)
             | Some from_p \<Rightarrow> do {
                 f \<leftarrow> pw_clients w from_p;
                 if cl_from f \<noteq> client_p
                 then cancel_clients client_p from_p (w\<lparr>pw_is_wrdi := pw_is_wrdi w + 1\<rparr>)
                 else parse_command run mem client_p from_p (skip_spaces ch) w
               }
           }
           else parse_command run mem client_p client_p (skip_spaces ch) w
   }"

section \<open>Generic handlers\<close>

definition m_not_oper :: "ptr \<Rightarrow> pworld \<Rightarrow> pworld" where
  "m_not_oper source_p w = emit [Sendto_one source_p ''481'' []] w"

definition m_unregistered :: "ptr \<Rightarrow> pworld \<Rightarrow> pworld option" where
  "m_unregistered client_p w = do {
     c \<leftarrow> pw_clients w client_p;
     l \<leftarrow> cl_local c;
     Some (if lu_number_of_nick_changes l = 0
           then emit [Sendto_one client_p ''451'' [S (cl_name (pw_me w))]]
                  (w\<lparr>pw_clients := (pw_clients w)(client_p \<mapsto> c\<lparr>cl_local :=
                       Some (l\<lparr>lu_number_of_nick_changes := lu_number_of_nick_changes l + 1\<rparr>)\<rparr>)\<rparr>)
           else w)
   }"

definition m_registered :: "ptr \<Rightarrow> ptr \<Rightarrow> pworld \<Rightarrow> pworld option" where
  "m_registered client_p source_p w = do {
     s \<leftarrow> pw_clients w source_p;
     Some (emit [Sendto_one client_p ''462'' [S (cl_name (pw_me w)), S (cl_name s)]] w)
   }"

definition m_ignore :: "pworld \<Rightarrow> pworld" where
  "m_ignore w = w"

section \<open>Lemmas\<close>

lemma string_to_array_length: "length (string_to_array s) \<le> MAXPARA"
  using split_loop_length [of MAXPARA 1 "skip_spaces s"]
  by (auto simp: string_to_array_def MAXPARA_def)

text \<open>
  C33: Writing up to 14 middle parameters and a trailing one in IRC form and splitting the text
  with string_to_array gives the parameters back, spaces in the trailing one included.
\<close>

theorem string_to_array_write:
  "list_all middle_param ws \<Longrightarrow> length ws < MAXPARA \<Longrightarrow>
   string_to_array (write_params ws trail) = ws @ [trail]"
  by (simp add: string_to_array_def skip_spaces_write split_loop_write)

lemma split_loop_total_length: "sum_list (map length (split_loop lim x buf)) + length (split_loop lim x buf) \<le> length buf + 1"
proof (induction "lim - x" arbitrary: x buf rule: less_induct)
  case less
  show ?case
  proof (cases rule: split_loop_cases [of lim x buf])
    case last
    then show ?thesis by (cases buf) auto
  next
    case (one w p)
    then show ?thesis by (auto dest: strchr_split_length)
  next
    case (more w p)
    have "lim - Suc x < lim - x" using more(5) by simp
    from less [OF this, of "skip_spaces p"] more(1) strchr_split_length [OF more(2)] length_skip_spaces [of p]
    show ?thesis by auto
  next
    case (full w p q)
    have "length q \<le> length p" using full(5) by (cases p) auto
    with full(1) strchr_split_length [OF full(2)] show ?thesis by auto
  qed simp
qed

lemma string_to_array_total_length:
  "sum_list (map length (string_to_array s)) + length (string_to_array s) \<le> length s + 1"
proof (cases "skip_spaces s = []")
  case False
  then show ?thesis
    using split_loop_total_length [of MAXPARA 1 "skip_spaces s"] length_skip_spaces [of s]
    by (simp add: string_to_array_def)
qed (simp add: string_to_array_def)

lemma sum_list_butlast_last:
  "ps \<noteq> [] \<Longrightarrow> sum_list (map length (butlast ps)) + length (last ps) = sum_list (map length ps)"
  by (induction ps) auto

lemma length_numeric_buffer:
  assumes "ps \<noteq> []"
  shows "length (numeric_buffer ps) \<le> sum_list (map length ps) + length ps + 1"
proof -
  have b: "length (concat (map (\<lambda>p. CHR '' '' # p) qs)) = sum_list (map length qs) + length qs" for qs
    by (induction qs) auto
  have t: "sum_list (map length (butlast (tl ps))) \<le> sum_list (map length (butlast ps))"
    by (cases ps) auto
  have "length (numeric_buffer ps) =
      sum_list (map length (butlast (tl ps))) + length (butlast (tl ps)) + 2 + length (last ps)"
    by (simp add: numeric_buffer_def b)
  moreover have "length (butlast (tl ps)) \<le> length ps - 1" by simp
  ultimately show ?thesis
    using t sum_list_butlast_last [OF assms] assms by (cases ps) auto
qed

text \<open>The bytes after the terminator do not matter for the numeric test.\<close>

lemma IsDigit_not_NUL: "IsDigit c \<Longrightarrow> c \<noteq> NUL"
  by (auto simp: IsDigit_iff)

lemma is_numeric_iff:
  "is_numeric mem ch \<longleftrightarrow>
     (\<exists>a b c rest. ch = a # b # c # CHR '' '' # rest \<and> IsDigit a \<and> IsDigit b \<and> IsDigit c)"
proof
  assume n: "is_numeric mem ch"
  then have d: "at ch mem 0 \<noteq> NUL" "at ch mem 1 \<noteq> NUL" "at ch mem 2 \<noteq> NUL" "at ch mem 3 = CHR '' ''"
    by (auto simp: is_numeric_def IsDigit_not_NUL)
  have "ch = [] \<or> (\<exists>a. ch = [a]) \<or> (\<exists>a b. ch = [a, b]) \<or> (\<exists>a b c. ch = [a, b, c]) \<or>
        (\<exists>a b c e rest. ch = a # b # c # e # rest)"
    by (metis list.exhaust)
  with d n show "\<exists>a b c rest. ch = a # b # c # CHR '' '' # rest \<and> IsDigit a \<and> IsDigit b \<and> IsDigit c"
    by (auto simp: at_def is_numeric_def NUL_def)
qed (auto simp: is_numeric_def at_def)

section \<open>The command table as a chained table\<close>

lemma cmd_hash_less: "cmd_hash p < MAX_MSG_HASH"
proof -
  have "drop_bit (32 - 9) h < (2 ^ 9 :: 32 word)" for h :: "32 word"
    using drop_bit_less [of 23 h] by simp
  moreover have "h AND (MAX_MSG_HASH - 1) < (2 ^ 9 :: 32 word)" for h
    by (intro word_and_less) (simp add: MAX_MSG_HASH_def)
  ultimately have "drop_bit (32 - 9) h XOR (h AND (MAX_MSG_HASH - 1)) < (2 ^ 9 :: 32 word)" for h
    by (intro word_xor_less) simp_all
  then show ?thesis by (simp add: cmd_hash_def Let_def MAX_MSG_HASH_def)
qed

lemma cmd_hash_loop_lower: "cmd_hash_loop h q s = cmd_hash_loop h q (map ToLower s)"
  by (induction s arbitrary: h q) auto

lemma cmd_hash_cong: "strcasecmp_eq a b \<Longrightarrow> cmd_hash a = cmd_hash b"
  unfolding cmd_hash_def strcasecmp_eq_def by (metis cmd_hash_loop_lower)

interpretation cmds: chained_table cmd_hash strcasecmp_eq cstring MAX_MSG_HASH
  by unfold_locales
    (rule cmd_hash_less | (rule cmd_hash_cong, assumption) | simp add: strcasecmp_eq_def)+

text \<open>
  A well-formed command table: an entry is filed under the hash of its name, and no two entries of a
  chain have the same name.
\<close>

definition cmd_table_ok :: "cmd_table \<Rightarrow> bool" where
  "cmd_table_ok tbl \<longleftrightarrow>
     (\<forall>i. distinct (map (\<lambda>e. map ToLower (fst e)) (tbl i)) \<and> (\<forall>e \<in> set (tbl i). cmd_hash (fst e) = i))"

lemma clear_hash_parse_ok [inv_intros]: "cmd_table_ok clear_hash_parse"
  by (simp add: cmd_table_ok_def clear_hash_parse_def)

lemma hash_parse_None_iff:
  "hash_parse tbl cmd = None \<longleftrightarrow> (\<forall>e \<in> set (tbl (cmd_hash cmd)). \<not> strcasecmp_eq cmd (fst e))"
  by (auto simp: hash_parse_def find_None_iff)

lemma find_append: "find P (xs @ ys) = (case find P xs of None \<Rightarrow> find P ys | Some x \<Rightarrow> Some x)"
  by (induction xs) auto

lemma mod_add_cmd_ok [inv_intros]:
  assumes "cmd_table_ok tbl" "mod_add_cmd msg msgs tbl = Some (msgs', tbl')"
  shows "cmd_table_ok tbl'"
  using assms
  by (fastforce simp: mod_add_cmd_def cmd_table_ok_def strcasecmp_eq_def Let_def
      split: option.splits if_splits bind_splits)

theorem mod_add_cmd_new:
  assumes "msgs mp = Some m" "m_cmd m = Some cmd" "hash_parse tbl cmd = None"
  shows "\<exists>tbl'. mod_add_cmd (Some mp) msgs tbl =
      Some (msgs(mp \<mapsto> m\<lparr>m_count := 0, m_rcount := 0, m_bytes := 0\<rparr>), tbl') \<and>
    (\<forall>c. hash_parse tbl' c = (if strcasecmp_eq c cmd then Some mp else hash_parse tbl c))"
proof -
  let ?t = "tbl(cmd_hash cmd := tbl (cmd_hash cmd) @ [(cmd, mp)])"
  have none: "\<not> (\<exists>e \<in> set (tbl (cmd_hash cmd)). strcasecmp_eq cmd (fst e))"
    using assms(3) by (simp add: hash_parse_None_iff)
  have "hash_parse ?t c = (if strcasecmp_eq c cmd then Some mp else hash_parse tbl c)" for c
  proof (cases "strcasecmp_eq c cmd")
    case True
    then have h: "cmd_hash c = cmd_hash cmd" by (rule cmd_hash_cong)
    have "find (\<lambda>e. strcasecmp_eq c (fst e)) (tbl (cmd_hash cmd)) = None"
      using none True by (auto simp: find_None_iff strcasecmp_eq_def)
    with True h show ?thesis by (simp add: hash_parse_def find_append)
  next
    case False
    then show ?thesis by (auto simp: hash_parse_def find_append split: option.splits)
  qed
  then show ?thesis using assms none by (auto simp: mod_add_cmd_def Let_def)
qed

lemma mod_add_cmd_again:
  assumes "msgs mp = Some m" "m_cmd m = Some cmd" "hash_parse tbl cmd \<noteq> None"
  shows "mod_add_cmd (Some mp) msgs tbl = Some (msgs, tbl)"
proof -
  have "\<exists>e \<in> set (tbl (cmd_hash cmd)). strcasecmp_eq cmd (fst e)"
    using assms(3) by (auto simp: hash_parse_None_iff)
  then show ?thesis using assms(1,2) by (simp add: mod_add_cmd_def Let_def)
qed

lemma chain_del_find_other:
  "\<not> strcasecmp_eq c cmd \<Longrightarrow>
   find (\<lambda>e. strcasecmp_eq c (fst e)) (chain_del cmd es) = find (\<lambda>e. strcasecmp_eq c (fst e)) es"
  by (induction es) (auto simp: strcasecmp_eq_def)

lemma chain_del_find_same:
  "distinct (map (\<lambda>e. map ToLower (fst e)) es) \<Longrightarrow> strcasecmp_eq c cmd \<Longrightarrow>
   find (\<lambda>e. strcasecmp_eq c (fst e)) (chain_del cmd es) = None"
  by (induction es) (force simp: strcasecmp_eq_def find_None_iff)+

lemma chain_del_subset: "set (chain_del cmd es) \<subseteq> set es"
  by (induction es) auto

lemma chain_del_distinct: "distinct (map f es) \<Longrightarrow> distinct (map f (chain_del cmd es))"
proof (induction es)
  case (Cons e es)
  then show ?case using chain_del_subset [of cmd es] by (auto simp: image_iff)
qed simp

theorem mod_del_cmd_spec:
  assumes "cmd_table_ok tbl" "msgs mp = Some m" "m_cmd m = Some cmd"
  shows "\<exists>tbl'. mod_del_cmd (Some mp) msgs tbl = Some tbl' \<and> cmd_table_ok tbl' \<and>
    (\<forall>c. hash_parse tbl' c = (if strcasecmp_eq c cmd then None else hash_parse tbl c))"
proof -
  let ?t = "tbl(cmd_hash cmd := chain_del cmd (tbl (cmd_hash cmd)))"
  have "cmd_table_ok ?t"
    using assms(1) chain_del_subset by (fastforce simp: cmd_table_ok_def intro: chain_del_distinct)
  moreover have "hash_parse ?t c = (if strcasecmp_eq c cmd then None else hash_parse tbl c)" for c
  proof (cases "strcasecmp_eq c cmd")
    case True
    then have "cmd_hash c = cmd_hash cmd" by (rule cmd_hash_cong)
    with True assms(1) show ?thesis
      by (simp add: hash_parse_def chain_del_find_same cmd_table_ok_def)
  next
    case False
    then show ?thesis by (simp add: hash_parse_def chain_del_find_other)
  qed
  ultimately show ?thesis using assms by (auto simp: mod_del_cmd_def Let_def)
qed

section \<open>Dispatch and parsing\<close>

lemma handle_command_result:
  assumes "handle_command run mptr client_p from i hpara w = Some (r, w')"
  shows "r = 1 \<or> r = -1"
  using assms
  by (auto simp: handle_command_def Let_def split: bind_splits if_splits)

text \<open>
  A handler only ever sees a parameter array that has its required entries: otherwise the outcome does
  not depend on the handlers.
\<close>

lemma handle_command_short:
  assumes "pw_clients w from = Some f" "pw_msgs w mptr = Some m" "cl_handler f < length (m_handlers m)"
    and "m_handlers m ! cl_handler f = (h, min_para)" "short_params i min_para hpara = Some True"
  shows "handle_command run mptr client_p from i hpara w = handle_command run' mptr client_p from i hpara w"
  using assms
  by (cases "pw_clients w client_p") (auto simp: handle_command_def Let_def nth_opt_def)

lemma short_params_False:
  assumes "short_params i min_para hpara = Some False"
  shows "min_para \<le> i" and "0 < min_para \<Longrightarrow> \<exists>s. hpara ! (min_para - 1) = Some s \<and> s \<noteq> []"
  using assms
  by (auto simp: short_params_def nth_opt_def EmptyString_def split: if_splits option.splits)

text \<open>Only servers may speak for others: anybody else's source prefix is skipped.\<close>

lemma skip_spaces_idem [simp]: "skip_spaces (skip_spaces s) = skip_spaces s"
  by (simp add: skip_spaces_def)

lemma split_prefix_with:
  "CHR '' '' \<notin> set sender \<Longrightarrow>
   split_prefix (skip_spaces (CHR '':'' # sender @ CHR '' '' # rest)) = (Some sender, rest)"
  by (simp add: split_prefix_def skip_spaces_def strchr_split_append)

lemma split_prefix_without:
  "headc s \<noteq> CHR '':'' \<Longrightarrow> split_prefix s = (None, s)"
  by (simp add: split_prefix_def)

text \<open>
  C30: A local connection that is not a server cannot speak for somebody else: with any prefix in
  front, parse() does exactly what it does without the prefix.
\<close>

theorem parse_prefix_ignored:
  assumes "pw_clients w client_p = Some c" "\<not> IsServer c" "CHR '' '' \<notin> set sender"
    and "headc (skip_spaces rest) \<noteq> CHR '':''"
  shows "parse run mem client_p (CHR '':'' # sender @ CHR '' '' # rest) w = parse run mem client_p rest w"
  using assms(1,2) unfolding parse_def split_prefix_with [OF assms(3)] split_prefix_without [OF assms(4)]
  by simp

lemma cancel_clients_keeps:
  "cancel_clients client_p p w = Some w' \<Longrightarrow>
     \<exists>e. w' = emit [e] w"
  by (auto simp: cancel_clients_def split: bind_splits)

section \<open>The parser does not fault\<close>

text \<open>
  What the rest of the server guarantees to the parser: every pointer in the tables, and every
  \<^verbatim>\<open>from\<close>, is a live object, a registered command has a handler for each handler type, and every client's
  \<^verbatim>\<open>handler\<close> is one of these types.
\<close>

definition pworld_ok :: "pworld \<Rightarrow> bool" where
  "pworld_ok w \<longleftrightarrow>
     (\<forall>i. set (clientTable (pw_tabs w) i) \<subseteq> dom (pw_clients w)) \<and>
     (\<forall>i. set (idTable (pw_tabs w) i) \<subseteq> dom (pw_clients w)) \<and>
     (\<forall>i. set (channelTable (pw_tabs w) i) \<subseteq> dom (pw_channels w)) \<and>
     (\<forall>i. \<forall>e \<in> set (pw_cmds w i). \<exists>m. pw_msgs w (snd e) = Some m \<and> length (m_handlers m) = 6) \<and>
     (\<forall>p c. pw_clients w p = Some c \<longrightarrow> cl_from c \<in> dom (pw_clients w) \<and> cl_handler c < 6)"

text \<open>What the parser relies on of a handler: the connection is still there, with its local part.\<close>

definition connected :: "pworld \<Rightarrow> ptr \<Rightarrow> bool" where
  "connected w p \<longleftrightarrow> (\<exists>c. pw_clients w p = Some c \<and> cl_local c \<noteq> None \<and> MyConnect c)"

definition handler_keeps :: "handler_call \<Rightarrow> ptr \<Rightarrow> bool" where
  "handler_keeps run client_p \<longleftrightarrow>
     (\<forall>h from i hpara w. connected w client_p \<longrightarrow> connected (run h client_p from i hpara w) client_p)"

lemma uncork_check_total:
  assumes "pw_clients w client_p = Some c" "cl_local c \<noteq> None" "MyConnect c"
  shows "uncork_check client_p cmd w \<noteq> None"
  using assms by (auto simp: uncork_check_def is_cork_def Let_def)

lemma short_params_total:
  "i < length hpara \<Longrightarrow> short_params i min_para hpara \<noteq> None"
  by (auto simp: short_params_def nth_opt_def)

lemma handle_command_total:
  assumes "pw_clients w client_p = Some c" "pw_clients w from = Some f" "pw_msgs w mptr = Some m"
    and "cl_handler f < length (m_handlers m)" "m_cmd m \<noteq> None" "i < length hpara" "handler_keeps run client_p"
    and "connected w client_p"
  shows "handle_command run mptr client_p from i hpara w \<noteq> None"
proof -
  obtain h mn where h: "nth_opt (m_handlers m) (cl_handler f) = Some (h, mn)"
    using assms(4) by (cases "m_handlers m ! cl_handler f") (simp add: nth_opt_def)
  obtain sh where sh: "short_params i mn hpara = Some sh" using short_params_total [OF assms(6)] by blast
  have run: "uncork_check client_p cmd (run h client_p from i hpara (w\<lparr>pw_msgs := ms\<rparr>)) \<noteq> None" for cmd ms
  proof -
    have "connected (w\<lparr>pw_msgs := ms\<rparr>) client_p" using assms(8) by (simp add: connected_def)
    then have "connected (run h client_p from i hpara (w\<lparr>pw_msgs := ms\<rparr>)) client_p"
      using assms(7) by (simp add: handler_keeps_def)
    then show ?thesis using uncork_check_total unfolding connected_def by metis
  qed
  define F where "F cmd ms = the (uncork_check client_p cmd (run h client_p from i hpara (w\<lparr>pw_msgs := ms\<rparr>)))" for cmd ms
  have F: "uncork_check client_p cmd (run h client_p from i hpara (w\<lparr>pw_msgs := ms\<rparr>)) = Some (F cmd ms)" for cmd ms
    using run [of cmd ms] by (simp add: F_def)
  obtain cmd where "m_cmd m = Some cmd" using assms(5) by blast
  with assms h sh F show ?thesis
    by (auto simp: handle_command_def Let_def)
qed

lemma get_id_total: "pworld_ok w \<Longrightarrow> pw_clients w p = Some t \<Longrightarrow> \<exists>i. get_id (pw_clients w) s t = Some i"
  by (fastforce simp: pworld_ok_def get_id_def)

lemma find_client_total:
  assumes "pworld_ok w"
  shows "\<exists>r. find_client (pw_clients w) (pw_tabs w) (Some name) = Some r"
    and "\<exists>r. find_any_client (pw_clients w) (pw_tabs w) (Some name) = Some r"
    and "\<exists>r. find_channel (pw_channels w) (pw_tabs w) (Some name) = Some r"
proof -
  have cl: "foreach_find (pw_clients w) P (clientTable (pw_tabs w) i) = Some (find (\<lambda>p. P (the (pw_clients w p))) (clientTable (pw_tabs w) i))"
    and id: "foreach_find (pw_clients w) P (idTable (pw_tabs w) i) = Some (find (\<lambda>p. P (the (pw_clients w p))) (idTable (pw_tabs w) i))"
    and ch: "foreach_find (pw_channels w) Q (channelTable (pw_tabs w) i) = Some (find (\<lambda>p. Q (the (pw_channels w p))) (channelTable (pw_tabs w) i))"
    for P Q i using assms by (auto simp: pworld_ok_def intro!: foreach_find_eq)
  have m: "\<exists>r. hash_find_masked_server (pw_clients w) (pw_tabs w) None name = Some r"
    using find_server_total_aux(2) [of "pw_tabs w" "pw_clients w" None name] assms by (auto simp: pworld_ok_def)
  show "\<exists>r. find_client (pw_clients w) (pw_tabs w) (Some name) = Some r"
    and "\<exists>r. find_channel (pw_channels w) (pw_tabs w) (Some name) = Some r"
    by (simp_all add: find_client_def find_id_def find_channel_def cl id ch)
  show "\<exists>r. find_any_client (pw_clients w) (pw_tabs w) (Some name) = Some r"
    using m by (auto simp: find_any_client_def find_id_def cl id split: option.splits)
qed

lemma find_client_live:
  "find_client (pw_clients w) tabs (Some name) = Some (Some p) \<Longrightarrow> p \<in> dom (pw_clients w)"
  by (auto simp: find_client_def find_id_def split: if_splits dest!: foreach_find_Some)

lemma do_numeric_total:
  assumes ok: "pworld_ok w" and "pw_clients w client_p = Some c" "pw_clients w from_p = Some f"
  shows "do_numeric n client_p from_p ps w \<noteq> None"
proof -
  obtain r where r: "find_client (pw_clients w) (pw_tabs w) (Some (hd ps)) = Some r"
    using find_client_total(1) [OF ok] by blast
  obtain q where q: "find_channel (pw_channels w) (pw_tabs w) (Some (hd ps)) = Some q"
    using find_client_total(3) [OF ok] by blast
  have chan: "p \<in> dom (pw_channels w)" if "q = Some p" for p
    using q that by (auto simp: find_channel_def split: if_splits dest!: foreach_find_Some)
  show ?thesis
  proof (cases r)
    case None
    then show ?thesis using assms r q chan
      by (cases q) (auto simp: do_numeric_def Let_def)
  next
    case (Some p)
    then obtain t where t: "pw_clients w p = Some t" using r find_client_live by fastforce
    obtain i j where "get_id (pw_clients w) f t = Some i" "get_id (pw_clients w) t t = Some j"
      using get_id_total [OF ok t] by metis
    with Some t r assms show ?thesis by (auto simp: do_numeric_def Let_def)
  qed
qed

lemma parse_command_total:
  assumes ok: "pworld_ok w" and cl: "pw_clients w client_p = Some c" "pw_clients w from_p = Some f"
    and h: "handler_keeps run client_p" "connected w client_p"
  shows "parse_command run mem client_p from_p ch w \<noteq> None"
proof -
  let ?w = "w\<lparr>pw_is_num := pw_is_num w + 1\<rparr>"
  have "pworld_ok ?w" using ok by (simp add: pworld_ok_def)
  then have num: "do_numeric n client_p from_p ps ?w \<noteq> None" for n ps
    using do_numeric_total [of ?w client_p c from_p f] cl by simp
  have msg: "\<exists>m. pw_msgs w mp = Some m \<and> length (m_handlers m) = 6" if "hash_parse (pw_cmds w) cmd = Some mp" for cmd mp
    using ok that by (fastforce simp: pworld_ok_def hash_parse_def dest!: find_SomeD)
  have hc: "handle_command run mp client_p from_p (Suc (length ps)) (name # map Some ps @ [None])
      (w\<lparr>pw_msgs := (pw_msgs w)(mp \<mapsto> m\<lparr>m_bytes := b\<rparr>)\<rparr>) \<noteq> None"
    if "pw_msgs w mp = Some m" "length (m_handlers m) = 6" "m_cmd m \<noteq> None" for mp m ps name b
    using that cl h ok
    by (intro handle_command_total [of _ _ c _ f _ "m\<lparr>m_bytes := b\<rparr>"]) (auto simp: pworld_ok_def connected_def)
  obtain cmd s where cs: "(case strchr_split CHR '' '' ch of None \<Rightarrow> (ch, None) | Some (a, b) \<Rightarrow> (a, Some b)) = (cmd, s)"
    by fastforce
  show ?thesis
  proof (cases "hash_parse (pw_cmds w) cmd")
    case None
    then show ?thesis using cl num by (simp add: parse_command_def cs)
  next
    case (Some mp)
    then obtain m where m: "pw_msgs w mp = Some m" "length (m_handlers m) = 6" using msg by blast
    show ?thesis
    proof (cases "m_cmd m = None")
      case True
      then show ?thesis using cl num Some m by (simp add: parse_command_def cs)
    next
      case False
      have "\<And>x f. x \<noteq> None \<Longrightarrow> Option.bind x (\<lambda>(r :: int, w :: pworld). Some w) \<noteq> None" by auto
      from this [OF hc [OF m False]] show ?thesis
        using cl num Some m False by (simp add: parse_command_def cs Let_def del: not_None_eq)
    qed
  qed
qed

lemma find_any_client_live:
  assumes "find_any_client cls tabs (Some name) = Some (Some p)"
  shows "p \<in> dom cls"
proof -
  have "p \<in> dom cls" if "hash_find_masked_server cls tabs None name = Some (Some p)"
    using that by (subst (asm) hash_find_masked_server.simps)
      (auto split: if_splits dest: masked_server_loop_sound)
  with assms show ?thesis
    by (auto simp: find_any_client_def find_id_def split: if_splits option.splits dest!: foreach_find_Some)
qed

lemma parse_returns:
  assumes ok: "pworld_ok w" and cl: "pw_clients w client_p = Some c"
    and h: "handler_keeps run client_p" "connected w client_p"
  shows "parse run mem client_p pbuffer w \<noteq> None"
proof -
  note pc = parse_command_total [OF ok cl _ h]
  have ru: "remove_unknown client_p s l (w\<lparr>pw_is_unpf := x\<rparr>) \<noteq> None" for s l x
    using get_id_total [OF ok cl, of "pw_me w"] cl by (auto simp: remove_unknown_def)
  have cc: "cancel_clients client_p p (w\<lparr>pw_is_wrdi := x\<rparr>) \<noteq> None" if "pw_clients w p = Some f" for p f x
    using ok that cl by (fastforce simp: cancel_clients_def pworld_ok_def)
  obtain sender ch where sp: "split_prefix (skip_spaces pbuffer) = (sender, ch)" by fastforce
  show ?thesis
  proof (cases sender)
    case None
    then show ?thesis using cl pc [OF cl] by (simp add: parse_def sp)
  next
    case (Some s)
    obtain r where r: "find_any_client (pw_clients w) (pw_tabs w) (Some s) = Some r"
      using find_client_total(2) [OF ok] by blast
    show ?thesis
    proof (cases r)
      case None
      then show ?thesis using Some cl pc [OF cl] r ru by (simp add: parse_def sp)
    next
      case (Some p)
      then obtain f where f: "pw_clients w p = Some f" using r find_any_client_live by fastforce
      then show ?thesis using Some \<open>sender = Some s\<close> cl pc [OF cl] pc [OF f] r cc [OF f] by (simp add: parse_def sp)
    qed
  qed
qed

text \<open>
  C32: In a world whose tables hold live clients, channels and commands, parse() returns on every
  input line of a connected client, for any handlers that keep the client's record alive.
\<close>

theorem parse_total:
  assumes ok: "pworld_ok w" and cl: "pw_clients w client_p = Some c"
    and h: "handler_keeps run client_p" "connected w client_p"
  shows "parse run mem client_p pbuffer w \<noteq> None"
  by (rule parse_returns [OF assms])

section \<open>Properties\<close>

definition zero_pworld :: pworld where
  "zero_pworld =
     \<lparr>pw_clients = \<lambda>_. None, pw_channels = \<lambda>_. None, pw_tabs = zero_tabs, pw_me = zero_Client, pw_msgs = \<lambda>_. None,
      pw_cmds = clear_hash_parse, pw_is_unpf = 0, pw_is_wrdi = 0, pw_is_empt = 0, pw_is_num = 0, pw_is_unco = 0,
      pw_now = 0, pw_last_warning = 0, pw_out = []\<rparr>"

definition sample_cmd :: "string \<Rightarrow> Message" where
  "sample_cmd c =
     \<lparr>m_cmd = Some c, m_count = 0, m_rcount = 0, m_bytes = 0, m_flags = 0, m_handlers = replicate 6 (0, 2)\<rparr>"

theorem string_to_array_write_witness: "string_to_array '' x''  = [''x''] \<and> string_to_array (write_params [''#it'', ''+k''] ''a key'') = [''#it'', ''+k'', ''a key'']"
  using string_to_array_write [of "[''#it'', ''+k'']" "''a key''"]
  by (simp add: middle_param_def MAXPARA_def string_to_array_def skip_spaces_def split_loop.simps strchr_split_def)

theorem string_to_array_bounds:
  "length (string_to_array s) \<le> MAXPARA \<and>
   sum_list (map length (string_to_array s)) + length (string_to_array s) \<le> length s + 1"
  by (simp only: string_to_array_length string_to_array_total_length simp_thms)

theorem mod_add_cmd_new_witness:
  "\<exists>msgs' tbl'. mod_add_cmd (Some 3) [3 \<mapsto> sample_cmd ''JOIN''] clear_hash_parse = Some (msgs', tbl') \<and>
     hash_parse tbl' ''join'' = Some 3 \<and> hash_parse tbl' ''part'' = None"
proof -
  have "hash_parse clear_hash_parse ''JOIN'' = None" by (simp add: hash_parse_def clear_hash_parse_def)
  from mod_add_cmd_new [of "[3 \<mapsto> sample_cmd ''JOIN'']" 3 "sample_cmd ''JOIN''", OF _ _ this]
  obtain msgs' tbl' where "mod_add_cmd (Some 3) [3 \<mapsto> sample_cmd ''JOIN''] clear_hash_parse = Some (msgs', tbl')"
    and f: "\<forall>c. hash_parse tbl' c = (if strcasecmp_eq c ''JOIN'' then Some 3 else hash_parse clear_hash_parse c)"
    by (auto simp: sample_cmd_def)
  moreover have "strcasecmp_eq ''join'' ''JOIN''" "\<not> strcasecmp_eq ''part'' ''JOIN''" by code_simp+
  moreover have "hash_parse clear_hash_parse ''part'' = None" by (simp add: hash_parse_def clear_hash_parse_def)
  ultimately show ?thesis by (metis (full_types))
qed

theorem mod_del_cmd_spec_witness:
  "\<exists>tbl'. mod_del_cmd (Some 3) [3 \<mapsto> sample_cmd ''JOIN''] (clear_hash_parse (cmd_hash ''join'' := [(''join'', 4)])) =
     Some tbl' \<and> hash_parse tbl' ''Join'' = None"
proof -
  have "cmd_table_ok (clear_hash_parse (cmd_hash ''join'' := [(''join'', 4)]))"
    by (simp add: cmd_table_ok_def clear_hash_parse_def)
  from mod_del_cmd_spec [OF this, of "[3 \<mapsto> sample_cmd ''JOIN'']" 3 "sample_cmd ''JOIN''" "''JOIN''"]
  obtain tbl' where "mod_del_cmd (Some 3) [3 \<mapsto> sample_cmd ''JOIN''] (clear_hash_parse (cmd_hash ''join'' := [(''join'', 4)])) = Some tbl'"
    and "\<forall>c. hash_parse tbl' c = (if strcasecmp_eq c ''JOIN'' then None
           else hash_parse (clear_hash_parse (cmd_hash ''join'' := [(''join'', 4)])) c)"
    by (auto simp: sample_cmd_def)
  moreover have "strcasecmp_eq ''Join'' ''JOIN''" by code_simp
  ultimately show ?thesis by (metis (full_types))
qed

text \<open>
  C31: A server link that uses as prefix a client which is reached through another link gets its
  message dropped, in a world whose tables hold live records: parse() returns, counts the message
  in is_wrdi, adds the one report to the operators that fits the client (a server or a user), and
  changes nothing else; no command handler runs.
\<close>

theorem parse_wrong_direction:
  assumes ok: "pworld_ok w" and c: "pw_clients w client_p = Some c" "IsServer c" "\<not> IsAnyDead c"
    and s: "CHR '' '' \<notin> set sender" "sender \<noteq> []" "find_any_client (pw_clients w) (pw_tabs w) (Some sender) = Some (Some p)"
    and f: "pw_clients w p = Some f" "cl_from f \<noteq> client_p"
  shows "\<exists>link. pw_clients w (cl_from f) = Some link \<and>
    parse run mem client_p (CHR '':'' # sender @ CHR '' '' # rest) w =
      Some (w\<lparr>pw_is_wrdi := pw_is_wrdi w + 1, pw_out := pw_out w @
        [if IsServer f \<or> IsMe f
         then Sendto_realops_flags ''Message for %s[%s] from %s'' [S (cl_name f), S (cl_name link), S (cl_name c)]
         else Sendto_realops_flags ''Message for %s[%s@%s!%s] from %s (TS, ignored)''
                [S (cl_name f), S (cl_username f), S (cl_host f), S (cl_name link), S (cl_name c)]]\<rparr>)"
proof -
  obtain link where link: "pw_clients w (cl_from f) = Some link" using ok f(1) by (fastforce simp: pworld_ok_def)
  have "parse run mem client_p (CHR '':'' # sender @ CHR '' '' # rest) w = cancel_clients client_p p (w\<lparr>pw_is_wrdi := pw_is_wrdi w + 1\<rparr>)"
    using c s f unfolding parse_def split_prefix_with [OF s(1)] by simp
  then show ?thesis using c(1) f(1) link by (simp add: cancel_clients_def emit_def)
qed

theorem parse_prefix_ignored_witness:
  "parse (\<lambda>_ _ _ _ _ w. w) [] 1 '':admin JOIN #it'' (zero_pworld\<lparr>pw_clients := [1 \<mapsto> zero_Client\<lparr>cl_status := STAT_CLIENT\<rparr>]\<rparr>) =
   parse (\<lambda>_ _ _ _ _ w. w) [] 1 ''JOIN #it'' (zero_pworld\<lparr>pw_clients := [1 \<mapsto> zero_Client\<lparr>cl_status := STAT_CLIENT\<rparr>]\<rparr>)"
  using parse_prefix_ignored [of "zero_pworld\<lparr>pw_clients := [1 \<mapsto> zero_Client\<lparr>cl_status := STAT_CLIENT\<rparr>]\<rparr>" 1
      "zero_Client\<lparr>cl_status := STAT_CLIENT\<rparr>" "''admin''" "''JOIN #it''" "\<lambda>_ _ _ _ _ w. w" "[]"]
  by (simp add: IsServer_def STAT_CLIENT_def STAT_SERVER_def skip_spaces_def)

theorem parse_wrong_direction_witness:
  "parse (\<lambda>_ _ _ _ _ w. w) [] 1 '':bob QUIT''
     (zero_pworld\<lparr>pw_clients := [1 \<mapsto> zero_Client\<lparr>cl_name := ''a.it'', cl_status := STAT_SERVER, cl_from := 1\<rparr>,
        2 \<mapsto> zero_Client\<lparr>cl_name := ''bob'', cl_from := 3\<rparr>, 3 \<mapsto> zero_Client\<lparr>cl_name := ''b.it'', cl_from := 3\<rparr>],
        pw_tabs := add_to_hash HASH_CLIENT (Some ''bob'') (Some 2) zero_tabs\<rparr>) =
   Some (zero_pworld\<lparr>pw_clients := [1 \<mapsto> zero_Client\<lparr>cl_name := ''a.it'', cl_status := STAT_SERVER, cl_from := 1\<rparr>,
        2 \<mapsto> zero_Client\<lparr>cl_name := ''bob'', cl_from := 3\<rparr>, 3 \<mapsto> zero_Client\<lparr>cl_name := ''b.it'', cl_from := 3\<rparr>],
        pw_tabs := add_to_hash HASH_CLIENT (Some ''bob'') (Some 2) zero_tabs, pw_is_wrdi := 1,
        pw_out := [Sendto_realops_flags ''Message for %s[%s@%s!%s] from %s (TS, ignored)'' [S ''bob'', S [], S [], S ''b.it'', S ''a.it'']]\<rparr>)"
proof -
  let ?a = "zero_Client\<lparr>cl_name := ''a.it'', cl_status := STAT_SERVER, cl_from := 1\<rparr>" and ?bob = "zero_Client\<lparr>cl_name := ''bob'', cl_from := 3\<rparr>"
  let ?b = "zero_Client\<lparr>cl_name := ''b.it'', cl_from := 3\<rparr>"
  let ?cls = "[1 \<mapsto> ?a, 2 \<mapsto> ?bob, 3 \<mapsto> ?b]"
  let ?t = "add_to_hash HASH_CLIENT (Some ''bob'') (Some 2) zero_tabs"
  let ?w = "zero_pworld\<lparr>pw_clients := ?cls, pw_tabs := ?t\<rparr>"
  have f: "find_any_client ?cls ?t (Some ''bob'') = Some (Some 2)" by code_simp
  have d: "\<not> IsAnyDead ?a" "\<not> (IsServer ?bob \<or> IsMe ?bob)" by code_simp+
  have "set (clientTable ?t i) \<subseteq> dom ?cls" "idTable ?t i = []" "channelTable ?t i = []" for i
    by (auto simp: add_to_hash_def zero_tabs_def bucket_add_def split: if_split_asm)
  then have ok: "pworld_ok ?w" by (auto simp: pworld_ok_def zero_pworld_def clear_hash_parse_def zero_Client_def split: if_split_asm)
  from parse_wrong_direction [OF ok, of 1 ?a "''bob''" 2 ?bob "\<lambda>_ _ _ _ _ w. w" "[]" "''QUIT''"] d f
  show ?thesis by (simp add: IsServer_def zero_pworld_def zero_Client_def del: add_to_hash_def)
qed

theorem parse_total_witness:
  "\<exists>w'. parse (\<lambda>_ _ _ _ _ w. w) [] 1 ''PING :x''
     (zero_pworld\<lparr>pw_clients := [1 \<mapsto> zero_Client\<lparr>cl_from := 1, cl_flags := FLAGS_MYCONNECT,
        cl_local := Some zero_LocalUser\<rparr>]\<rparr>) = Some w'"
proof -
  let ?c = "zero_Client\<lparr>cl_from := 1, cl_flags := FLAGS_MYCONNECT, cl_local := Some zero_LocalUser\<rparr>"
  let ?w = "zero_pworld\<lparr>pw_clients := [1 \<mapsto> ?c]\<rparr>"
  have "pworld_ok ?w" by (simp add: pworld_ok_def zero_pworld_def zero_tabs_def clear_hash_parse_def zero_Client_def)
  moreover have "connected ?w 1" by (simp add: connected_def MyConnect_def FLAGS_MYCONNECT_def)
  ultimately have "parse (\<lambda>_ _ _ _ _ w. w) [] 1 ''PING :x'' ?w \<noteq> None"
    by (intro parse_total) (simp_all add: handler_keeps_def)
  then show ?thesis by simp
qed

end
