(* ===== verification/Linebuf.thy ===== *)
theory Linebuf
  imports Prelude
begin

text \<open>
  The line buffers of \<^verbatim>\<open>libratbox/src/linebuf.c\<close>, through which every byte of a connection passes.  A
  \<^verbatim>\<open>buf_line_t\<close> is an object in a store, shared between queues by reference counts; its \<^verbatim>\<open>buf\<close> is
  the whole array of 513 bytes, and a write outside it is a fault (\<^term>\<open>None\<close>).  A
  \<^verbatim>\<open>buf_head_t\<close> holds the pointers to its lines in order.  The allocator is the parameter \<open>fresh\<close>,
  which gives an address outside the store; it returns zeroed memory.  Counters are integers.
\<close>

type_synonym lptr = nat

definition BUF_DATA_SIZE :: nat where "BUF_DATA_SIZE = 511"

record buf_line =
  bl_buf :: string
  bl_terminated :: bool
  bl_raw :: bool
  bl_len :: nat
  bl_refcount :: int

record buf_head =
  bh_list :: "lptr list"
  bh_len :: int
  bh_alloclen :: int
  bh_writeofs :: nat
  bh_numlines :: int

type_synonym lstore = "lptr \<rightharpoonup> buf_line"

record lstate =
  ls_lines :: lstore
  ls_bufline_count :: int

definition zero_line :: buf_line where
  "zero_line = \<lparr>bl_buf = replicate (BUF_DATA_SIZE + 2) NUL, bl_terminated = False, bl_raw = False,
                bl_len = 0, bl_refcount = 0\<rparr>"

section \<open>Writing into an array\<close>

definition put_bytes :: "string \<Rightarrow> nat \<Rightarrow> string \<Rightarrow> string option" where
  "put_bytes buf ofs bs =
     (if ofs + length bs \<le> length buf
      then Some (take ofs buf @ bs @ drop (ofs + length bs) buf) else None)"

definition is_crlf :: "char \<Rightarrow> bool" where
  "is_crlf c \<longleftrightarrow> c = CR \<or> c = LF"

lemma put_bytes_Some:
  "ofs + length bs \<le> length buf \<Longrightarrow>
   put_bytes buf ofs bs = Some (take ofs buf @ bs @ drop (ofs + length bs) buf)"
  by (simp add: put_bytes_def)

lemma put_bytes_length: "put_bytes buf ofs bs = Some buf' \<Longrightarrow> length buf' = length buf"
  by (auto simp: put_bytes_def split: if_splits)

section \<open>Lines and queues\<close>

definition rb_linebuf_new_line ::
  "(lstore \<Rightarrow> lptr) \<Rightarrow> buf_head \<Rightarrow> lstate \<Rightarrow> lptr \<times> buf_head \<times> lstate" where
  "rb_linebuf_new_line fresh bufhead st =
     (let p = fresh (ls_lines st)
      in (p,
          bufhead\<lparr>bh_list := bh_list bufhead @ [p], bh_alloclen := bh_alloclen bufhead + 1,
                  bh_numlines := bh_numlines bufhead + 1\<rparr>,
          st\<lparr>ls_lines := (ls_lines st)(p \<mapsto> zero_line\<lparr>bl_refcount := 1\<rparr>),
             ls_bufline_count := ls_bufline_count st + 1\<rparr>))"

text \<open>\<^verbatim>\<open>rb_linebuf_done_line()\<close> is only ever called on the head of the list.\<close>

definition rb_linebuf_done_line :: "buf_head \<Rightarrow> lstate \<Rightarrow> (buf_head \<times> lstate) option" where
  "rb_linebuf_done_line bufhead st =
     (case bh_list bufhead of
        [] \<Rightarrow> None
      | p # ps \<Rightarrow> do {
          l \<leftarrow> ls_lines st p;
          let h = bufhead\<lparr>bh_list := ps, bh_alloclen := bh_alloclen bufhead - 1,
                          bh_len := bh_len bufhead - int (bl_len l),
                          bh_numlines := bh_numlines bufhead - 1\<rparr>;
          let rc = bl_refcount l - 1;
          if rc = 0
          then Some (h, st\<lparr>ls_lines := (ls_lines st)(p := None),
                           ls_bufline_count := ls_bufline_count st - 1\<rparr>)
          else Some (h, st\<lparr>ls_lines := (ls_lines st)(p \<mapsto> l\<lparr>bl_refcount := rc\<rparr>)\<rparr>)
        })"

definition rb_linebuf_skip_crlf :: "string \<Rightarrow> nat" where
  "rb_linebuf_skip_crlf data =
     (let line = takeWhile (\<lambda>c. \<not> is_crlf c) data;
          eol = takeWhile is_crlf (drop (length line) data)
      in length line + length eol)"

definition rb_linebuf_newbuf :: buf_head where
  "rb_linebuf_newbuf = \<lparr>bh_list = [], bh_len = 0, bh_alloclen = 0, bh_writeofs = 0, bh_numlines = 0\<rparr>"

fun donebuf_loop :: "nat \<Rightarrow> buf_head \<Rightarrow> lstate \<Rightarrow> (buf_head \<times> lstate) option" where
  "donebuf_loop 0 bufhead st = (if bh_list bufhead = [] then Some (bufhead, st) else None)"
| "donebuf_loop (Suc n) bufhead st =
     (if bh_list bufhead = [] then Some (bufhead, st)
      else do { (h, st) \<leftarrow> rb_linebuf_done_line bufhead st; donebuf_loop n h st })"

text \<open>Each iteration takes one line off the list, so its length bounds the iterations.\<close>

definition rb_linebuf_donebuf :: "buf_head \<Rightarrow> lstate \<Rightarrow> (buf_head \<times> lstate) option" where
  "rb_linebuf_donebuf bufhead st = donebuf_loop (length (bh_list bufhead)) bufhead st"

section \<open>Cutting input into lines\<close>

text \<open>
  The loops that overwrite trailing line-end bytes with terminators, going down from index \<open>k - 1\<close>, at
  most \<open>cpylen\<close> of them; the result is the array and what is left of \<open>cpylen\<close>.  Looking below the
  start of the array is a fault.
\<close>

fun yank_crlf :: "string \<Rightarrow> nat \<Rightarrow> nat \<Rightarrow> (string \<times> nat) option" where
  "yank_crlf buf k 0 = Some (buf, 0)"
| "yank_crlf buf 0 (Suc n) = None"
| "yank_crlf buf (Suc k) (Suc n) =
     (if length buf \<le> k then None
      else if is_crlf (buf ! k) then yank_crlf (buf[k := NUL]) k n else Some (buf, Suc n))"

definition rb_linebuf_copy_line ::
  "buf_head \<Rightarrow> lptr \<Rightarrow> string \<Rightarrow> lstate \<Rightarrow> (nat \<times> buf_head \<times> lstate) option" where
  "rb_linebuf_copy_line bufhead p data st = do {
     l \<leftarrow> ls_lines st p;
     let l = l\<lparr>bl_raw := False\<rparr>;
     if bl_terminated l then Some (0, bufhead, st\<lparr>ls_lines := (ls_lines st)(p \<mapsto> l)\<rparr>)
     else do {
       let clen = rb_linebuf_skip_crlf data;
       let room = BUF_DATA_SIZE - bl_len l - 1;
       if clen > room then do {
         buf \<leftarrow> put_bytes (bl_buf l) (bl_len l) (take room data);
         buf \<leftarrow> put_bytes buf (BUF_DATA_SIZE - 1) [NUL];
         (buf, cpylen) \<leftarrow> yank_crlf buf (BUF_DATA_SIZE - 1) clen;
         let l = l\<lparr>bl_buf := buf, bl_terminated := True, bl_len := BUF_DATA_SIZE - 1\<rparr>;
         Some (clen, bufhead\<lparr>bh_len := bh_len bufhead + int (BUF_DATA_SIZE - 1)\<rparr>,
               st\<lparr>ls_lines := (ls_lines st)(p \<mapsto> l)\<rparr>)
       }
       else do {
         buf \<leftarrow> put_bytes (bl_buf l) (bl_len l) (take clen data);
         buf \<leftarrow> put_bytes buf (bl_len l + clen) [NUL];
         if bl_len l + clen = 0 then None
         else if \<not> is_crlf (buf ! (bl_len l + clen - 1))
         then Some (clen, bufhead\<lparr>bh_len := bh_len bufhead + int clen\<rparr>,
                    st\<lparr>ls_lines := (ls_lines st)
                         (p \<mapsto> l\<lparr>bl_buf := buf, bl_len := bl_len l + clen, bl_terminated := False\<rparr>)\<rparr>)
         else do {
           (buf, cpylen) \<leftarrow> yank_crlf buf (bl_len l + clen) clen;
           Some (clen, bufhead\<lparr>bh_len := bh_len bufhead + int cpylen\<rparr>,
                 st\<lparr>ls_lines := (ls_lines st)
                      (p \<mapsto> l\<lparr>bl_buf := buf, bl_len := bl_len l + cpylen, bl_terminated := True\<rparr>)\<rparr>)
         }
       }
     }
   }"

definition rb_linebuf_copy_raw ::
  "buf_head \<Rightarrow> lptr \<Rightarrow> string \<Rightarrow> lstate \<Rightarrow> (nat \<times> buf_head \<times> lstate) option" where
  "rb_linebuf_copy_raw bufhead p data st = do {
     l \<leftarrow> ls_lines st p;
     let l = l\<lparr>bl_raw := True\<rparr>;
     if bl_terminated l then Some (0, bufhead, st\<lparr>ls_lines := (ls_lines st)(p \<mapsto> l)\<rparr>)
     else do {
       let cpylen = rb_linebuf_skip_crlf data;
       let room = BUF_DATA_SIZE - bl_len l - 1;
       if cpylen > room then do {
         buf \<leftarrow> put_bytes (bl_buf l) (bl_len l) (take room data);
         buf \<leftarrow> put_bytes buf (BUF_DATA_SIZE - 1) [NUL];
         let l = l\<lparr>bl_buf := buf, bl_terminated := True, bl_len := BUF_DATA_SIZE - 1\<rparr>;
         Some (room, bufhead\<lparr>bh_len := bh_len bufhead + int (BUF_DATA_SIZE - 1)\<rparr>,
               st\<lparr>ls_lines := (ls_lines st)(p \<mapsto> l)\<rparr>)
       }
       else do {
         buf \<leftarrow> put_bytes (bl_buf l) (bl_len l) (take cpylen data);
         buf \<leftarrow> put_bytes buf (bl_len l + cpylen) [NUL];
         if bl_len l + cpylen = 0 then None
         else Some (cpylen, bufhead\<lparr>bh_len := bh_len bufhead + int cpylen\<rparr>,
                    st\<lparr>ls_lines := (ls_lines st)
                         (p \<mapsto> l\<lparr>bl_buf := buf, bl_len := bl_len l + cpylen,
                                bl_terminated := is_crlf (buf ! (bl_len l + cpylen - 1))\<rparr>)\<rparr>)
       }
     }
   }"

definition copy_into ::
  "bool \<Rightarrow> buf_head \<Rightarrow> lptr \<Rightarrow> string \<Rightarrow> lstate \<Rightarrow> (nat \<times> buf_head \<times> lstate) option" where
  "copy_into raw bufhead p data st =
     (if \<not> raw then rb_linebuf_copy_line bufhead p data st else rb_linebuf_copy_raw bufhead p data st)"

text \<open>
  The loop of \<^verbatim>\<open>rb_linebuf_parse()\<close>; a fresh line takes at least one byte, so the length of the data is
  enough fuel, and running out of it is \<^term>\<open>None\<close>.
\<close>

fun parse_loop ::
  "nat \<Rightarrow> (lstore \<Rightarrow> lptr) \<Rightarrow> bool \<Rightarrow> buf_head \<Rightarrow> string \<Rightarrow> int \<Rightarrow> lstate \<Rightarrow> (int \<times> buf_head \<times> lstate) option" where
  "parse_loop fuel fresh raw bufhead [] linecnt st = Some (linecnt, bufhead, st)"
| "parse_loop 0 fresh raw bufhead (c # data) linecnt st = None"
| "parse_loop (Suc fuel) fresh raw bufhead (c # data) linecnt st = do {
     let (p, h, st) = rb_linebuf_new_line fresh bufhead st;
     (n, h, st) \<leftarrow> copy_into raw h p (c # data) st;
     parse_loop fuel fresh raw h (drop n (c # data)) (linecnt + 1) st
   }"

definition rb_linebuf_parse ::
  "(lstore \<Rightarrow> lptr) \<Rightarrow> buf_head \<Rightarrow> string \<Rightarrow> bool \<Rightarrow> lstate \<Rightarrow> (int \<times> buf_head \<times> lstate) option" where
  "rb_linebuf_parse fresh bufhead data raw st =
     (if bh_list bufhead = [] then parse_loop (length data) fresh raw bufhead data 0 st
      else do {
        (n, h, st) \<leftarrow> copy_into raw bufhead (last (bh_list bufhead)) data st;
        if n = length data then Some (1, h, st)
        else parse_loop (length data) fresh raw h (drop n data) 1 st
      })"

section \<open>Taking lines out\<close>

text \<open>
  \<^verbatim>\<open>rb_linebuf_get()\<close> into a destination of \<open>buflen\<close> bytes, of which it returns the contents; writing past
  its end is a fault.
\<close>

definition rb_linebuf_get ::
  "buf_head \<Rightarrow> nat \<Rightarrow> bool \<Rightarrow> bool \<Rightarrow> lstate \<Rightarrow> (string \<times> nat \<times> buf_head \<times> lstate) option" where
  "rb_linebuf_get bufhead buflen partial raw st =
     (case bh_list bufhead of
        [] \<Rightarrow> Some ([], 0, bufhead, st)
      | p # _ \<Rightarrow> do {
          l \<leftarrow> ls_lines st p;
          if \<not> (partial \<or> bl_terminated l) then Some ([], 0, bufhead, st)
          else do {
            cpylen \<leftarrow> (if buflen < bl_len l then (if buflen = 0 then None else Some (buflen - 1))
                      else Some (bl_len l));
            let bytes = take cpylen (bl_buf l);
            let bytes = (if bl_raw l \<and> \<not> raw
                         then rev (dropWhile is_crlf (rev (dropWhile is_crlf bytes))) else bytes);
            if length bytes + (if raw then 0 else 1) > buflen then None
            else do {
              (h, st) \<leftarrow> rb_linebuf_done_line bufhead st;
              Some (bytes, length bytes, h, st)
            }
          }
        })"

fun attach_loop :: "lptr list \<Rightarrow> buf_head \<Rightarrow> lstate \<Rightarrow> (buf_head \<times> lstate) option" where
  "attach_loop [] bufhead st = Some (bufhead, st)"
| "attach_loop (p # ps) bufhead st = do {
     l \<leftarrow> ls_lines st p;
     attach_loop ps
       (bufhead\<lparr>bh_list := bh_list bufhead @ [p], bh_alloclen := bh_alloclen bufhead + 1,
                bh_len := bh_len bufhead + int (bl_len l), bh_numlines := bh_numlines bufhead + 1\<rparr>)
       (st\<lparr>ls_lines := (ls_lines st)(p \<mapsto> l\<lparr>bl_refcount := bl_refcount l + 1\<rparr>)\<rparr>)
   }"

definition rb_linebuf_attach :: "buf_head \<Rightarrow> buf_head \<Rightarrow> lstate \<Rightarrow> (buf_head \<times> lstate) option" where
  "rb_linebuf_attach bufhead new st = attach_loop (bh_list new) bufhead st"

section \<open>Adding a line\<close>

text \<open>
  The end of \<^verbatim>\<open>rb_linebuf_putmsg()\<close>, \<^verbatim>\<open>rb_linebuf_putbuf()\<close> and \<^verbatim>\<open>rb_linebuf_put()\<close>: with \<open>len\<close> the length of the
  text, it is cut, or its trailing line ends are chopped, and a line end is written.  The
  chopping loop goes down from index \<open>len\<close> and has no lower bound: below the array it faults.
\<close>

fun chop_index :: "string \<Rightarrow> nat \<Rightarrow> nat option" where
  "chop_index buf 0 = (if is_crlf (buf ! 0) \<or> buf ! 0 = NUL then None else Some 0)"
| "chop_index buf (Suc k) =
     (if is_crlf (buf ! Suc k) \<or> buf ! Suc k = NUL then chop_index buf k else Some (Suc k))"

definition finish_line :: "string \<Rightarrow> nat \<Rightarrow> (string \<times> nat) option" where
  "finish_line buf len =
     (if len > 510 then do { buf \<leftarrow> put_bytes buf 510 [CR, LF]; Some (buf, 512) }
      else if len = 0 then do { buf \<leftarrow> put_bytes buf 0 [CR, LF, NUL]; Some (buf, 2) }
      else do {
        k \<leftarrow> chop_index buf len;
        buf \<leftarrow> put_bytes buf (k + 1) [CR, LF, NUL];
        Some (buf, k + 3)
      })"

text \<open>
  \<^verbatim>\<open>rb_vsnprintf\<close> of a text into the array at an offset, with the size argument an \<^verbatim>\<open>int\<close> that may be negative:
  nothing is written then, and the result is 0.
\<close>

definition vsnprintf_at :: "string \<Rightarrow> nat \<Rightarrow> int \<Rightarrow> string \<Rightarrow> (string \<times> nat) option" where
  "vsnprintf_at buf ofs sz txt =
     (if sz < 0 then Some (buf, 0)
      else if sz = 0 then Some (buf, length txt)
      else do { buf \<leftarrow> put_bytes buf ofs (take (nat sz - 1) txt @ [NUL]); Some (buf, length txt) })"

definition add_line ::
  "(lstore \<Rightarrow> lptr) \<Rightarrow> buf_head \<Rightarrow> (string \<Rightarrow> (string \<times> nat) option) \<Rightarrow> lstate \<Rightarrow> (buf_head \<times> lstate) option" where
  "add_line fresh bufhead fill st = do {
     let (p, h, st) = rb_linebuf_new_line fresh bufhead st;
     l \<leftarrow> ls_lines st p;
     (buf, len) \<leftarrow> fill (bl_buf l);
     (buf, len) \<leftarrow> finish_line buf len;
     Some (h\<lparr>bh_len := bh_len h + int len\<rparr>,
           st\<lparr>ls_lines := (ls_lines st)(p \<mapsto> l\<lparr>bl_buf := buf, bl_terminated := True, bl_len := len\<rparr>)\<rparr>)
   }"

text \<open>\<open>prefix\<close> and \<open>body\<close> are what the two formats expand to, when they are given.\<close>

definition rb_linebuf_putmsg ::
  "(lstore \<Rightarrow> lptr) \<Rightarrow> buf_head \<Rightarrow> string option \<Rightarrow> string option \<Rightarrow> lstate \<Rightarrow> (buf_head \<times> lstate) option" where
  "rb_linebuf_putmsg fresh bufhead body prefix st =
     add_line fresh bufhead
       (\<lambda>buf. do {
          (buf, len) \<leftarrow> (case prefix of None \<Rightarrow> Some (buf, 0)
                         | Some txt \<Rightarrow> vsnprintf_at buf 0 (int BUF_DATA_SIZE) txt);
          (case body of None \<Rightarrow> Some (buf, len)
           | Some txt \<Rightarrow> do {
               (buf, n) \<leftarrow> vsnprintf_at buf len (int BUF_DATA_SIZE - int len) txt;
               Some (buf, len + n)
             })
        }) st"

definition rb_linebuf_putbuf ::
  "(lstore \<Rightarrow> lptr) \<Rightarrow> buf_head \<Rightarrow> string option \<Rightarrow> lstate \<Rightarrow> (buf_head \<times> lstate) option" where
  "rb_linebuf_putbuf fresh bufhead buffer st =
     add_line fresh bufhead
       (\<lambda>buf. case buffer of None \<Rightarrow> Some (buf, 0)
              | Some s \<Rightarrow> do {
                  buf \<leftarrow> put_bytes buf 0 (take (BUF_DATA_SIZE - 1) s @ [NUL]);
                  Some (buf, length s)
                }) st"

definition rb_linebuf_put ::
  "(lstore \<Rightarrow> lptr) \<Rightarrow> buf_head \<Rightarrow> string option \<Rightarrow> lstate \<Rightarrow> (buf_head \<times> lstate) option" where
  "rb_linebuf_put fresh bufhead body st =
     add_line fresh bufhead
       (\<lambda>buf. case body of None \<Rightarrow> Some (buf, 0)
              | Some txt \<Rightarrow> vsnprintf_at buf 0 (int BUF_DATA_SIZE) txt) st"

section \<open>Flushing\<close>

text \<open>
  The scatter list of the \<^verbatim>\<open>writev\<close> path: the unsent part of the first line, then the following
  terminated lines, at most \<open>maxiov\<close> entries.
\<close>

fun flush_rest :: "nat \<Rightarrow> lptr list \<Rightarrow> lstore \<Rightarrow> string list option" where
  "flush_rest 0 ps st = Some []"
| "flush_rest (Suc n) [] st = Some []"
| "flush_rest (Suc n) (p # ps) st = do {
     l \<leftarrow> st p;
     if \<not> bl_terminated l then Some []
     else do { vs \<leftarrow> flush_rest n ps st; Some (take (bl_len l) (bl_buf l) # vs) }
   }"

text \<open>
  The loop that takes what was written off the queue; \<open>x\<close> is the number of entries sent.  The differences with the write
  offset are written as sums, so that they mean the same on natural numbers as on the signed \<^verbatim>\<open>int\<close> of the source.
\<close>

fun flush_done :: "nat \<Rightarrow> nat \<Rightarrow> buf_head \<Rightarrow> lstate \<Rightarrow> (buf_head \<times> lstate) option" where
  "flush_done 0 xret bufhead st = Some (bufhead, st)"
| "flush_done (Suc x) xret bufhead st =
     (case bh_list bufhead of
        [] \<Rightarrow> None
      | p # _ \<Rightarrow> do {
          l \<leftarrow> ls_lines st p;
          if xret + bh_writeofs bufhead \<ge> bl_len l
          then do {
            (h, st) \<leftarrow> rb_linebuf_done_line bufhead st;
            flush_done x (xret + bh_writeofs bufhead - bl_len l) (h\<lparr>bh_writeofs := 0\<rparr>) st
          }
          else Some (bufhead\<lparr>bh_writeofs := bh_writeofs bufhead + xret\<rparr>, st)
        })"

text \<open>
  \<^verbatim>\<open>rb_linebuf_flush()\<close> on a plain connection with \<^verbatim>\<open>writev\<close>: \<open>wr\<close> is the result of the system call on the
  scatter list.  \<^term>\<open>-1\<close> with an unchanged queue stands for \<^verbatim>\<open>EWOULDBLOCK\<close>.
\<close>

definition rb_linebuf_flush_writev ::
  "nat \<Rightarrow> (string list \<Rightarrow> int) \<Rightarrow> buf_head \<Rightarrow> lstate \<Rightarrow> (int \<times> buf_head \<times> lstate) option" where
  "rb_linebuf_flush_writev maxiov wr bufhead st =
     (case bh_list bufhead of
        [] \<Rightarrow> Some (-1, bufhead, st)
      | p # ps \<Rightarrow> do {
          l \<leftarrow> ls_lines st p;
          if \<not> bl_terminated l then Some (-1, bufhead, st)
          else do {
            rest \<leftarrow> flush_rest (maxiov - 1) ps (ls_lines st);
            let vec = drop (bh_writeofs bufhead) (take (bl_len l) (bl_buf l)) # rest;
            let retval = wr vec;
            if retval \<le> 0 then Some (retval, bufhead, st)
            else do {
              (h, st) \<leftarrow> flush_done (length vec) (nat retval) bufhead st;
              Some (retval, h, st)
            }
          }
        })"

text \<open>The path without \<^verbatim>\<open>writev\<close>, which TLS connections take: one line at a time.\<close>

definition rb_linebuf_flush_write ::
  "(string \<Rightarrow> int) \<Rightarrow> buf_head \<Rightarrow> lstate \<Rightarrow> (int \<times> buf_head \<times> lstate) option" where
  "rb_linebuf_flush_write wr bufhead st =
     (case bh_list bufhead of
        [] \<Rightarrow> Some (-1, bufhead, st)
      | p # _ \<Rightarrow> do {
          l \<leftarrow> ls_lines st p;
          if \<not> bl_terminated l then Some (-1, bufhead, st)
          else do {
            let retval = wr (drop (bh_writeofs bufhead) (take (bl_len l) (bl_buf l)));
            if retval \<le> 0 then Some (retval, bufhead, st)
            else do {
              let h = bufhead\<lparr>bh_writeofs := bh_writeofs bufhead + nat retval\<rparr>;
              if bh_writeofs h = bl_len l
              then do {
                (h, st) \<leftarrow> rb_linebuf_done_line (h\<lparr>bh_writeofs := 0\<rparr>) st;
                Some (retval, h, st)
              }
              else Some (retval, h, st)
            }
          }
        })"

section \<open>Well-formed lines\<close>

definition line_data :: "buf_line \<Rightarrow> string" where
  "line_data l = take (bl_len l) (bl_buf l)"

text \<open>
  A line's array has its size and the length stays inside; a line that waits for more input holds at most
  510 bytes, none of them a line end.
\<close>

definition line_ok :: "buf_line \<Rightarrow> bool" where
  "line_ok l \<longleftrightarrow> length (bl_buf l) = BUF_DATA_SIZE + 2 \<and> bl_len l \<le> BUF_DATA_SIZE + 1 \<and>
     (\<not> bl_terminated l \<longrightarrow> bl_len l \<le> BUF_DATA_SIZE - 1 \<and> list_all (\<lambda>c. \<not> is_crlf c) (line_data l))"

lemma zero_line_ok [simp]: "line_ok (zero_line\<lparr>bl_refcount := n\<rparr>)"
  by (simp add: line_ok_def zero_line_def line_data_def)

lemma length_line_data [simp]: "line_ok l \<Longrightarrow> length (line_data l) = bl_len l"
  by (simp add: line_data_def line_ok_def)

text \<open>The first line of some data, and the run of line ends after it.\<close>

definition line_body :: "string \<Rightarrow> string" where
  "line_body data = takeWhile (\<lambda>c. \<not> is_crlf c) data"

definition line_eol :: "string \<Rightarrow> string" where
  "line_eol data = takeWhile is_crlf (dropWhile (\<lambda>c. \<not> is_crlf c) data)"

lemma drop_takeWhile_length: "drop (length (takeWhile P xs)) xs = dropWhile P xs"
  by (metis append_eq_conv_conj takeWhile_dropWhile_id)

lemma skip_crlf_eq: "rb_linebuf_skip_crlf data = length (line_body data) + length (line_eol data)"
  by (simp add: rb_linebuf_skip_crlf_def Let_def line_body_def line_eol_def drop_takeWhile_length)

lemma take_skip_crlf: "take (rb_linebuf_skip_crlf data) data = line_body data @ line_eol data"
proof -
  have "data = line_body data @ line_eol data @ dropWhile is_crlf (dropWhile (\<lambda>c. \<not> is_crlf c) data)"
    by (simp add: line_body_def line_eol_def)
  then show ?thesis
    by (metis append_assoc append_eq_conv_conj length_append skip_crlf_eq)
qed

lemma skip_crlf_le: "rb_linebuf_skip_crlf data \<le> length data"
  by (metis append_take_drop_id le_add1 length_append length_take min.cobounded2 min_def skip_crlf_eq take_skip_crlf)

lemma skip_crlf_pos: "data \<noteq> [] \<Longrightarrow> 0 < rb_linebuf_skip_crlf data"
  unfolding skip_crlf_eq
  by (cases data) (auto simp: line_body_def line_eol_def)

lemma line_eol_crlf: "list_all is_crlf (line_eol data)"
  by (auto simp: line_eol_def list_all_iff dest: set_takeWhileD)

lemma line_body_clean: "list_all (\<lambda>c. \<not> is_crlf c) (line_body data)"
  by (auto simp: line_body_def list_all_iff dest: set_takeWhileD)

text \<open>Yanking a run of line ends at the end of what was written.\<close>

lemma yank_run:
  assumes "list_all is_crlf eol" "length eol \<le> n"
    and "n = length eol \<or> a \<noteq> [] \<and> \<not> is_crlf (last a)"
  shows "yank_crlf (a @ eol @ b) (length a + length eol) n =
           Some (a @ replicate (length eol) NUL @ b, n - length eol)"
  using assms
proof (induction eol arbitrary: n b rule: rev_induct)
  case Nil
  show ?case
  proof (cases n)
    case (Suc m)
    with Nil have "a \<noteq> []" "\<not> is_crlf (last a)" by auto
    then obtain a' c where "a = a' @ [c]" "\<not> is_crlf c" by (cases a rule: rev_cases) auto
    then show ?thesis using Suc by (simp add: nth_append)
  qed simp
next
  case (snoc c eol)
  then obtain m where n: "n = Suc m" by (cases n) auto
  have "yank_crlf (a @ (eol @ [c]) @ b) (length a + length (eol @ [c])) n =
      yank_crlf (a @ eol @ NUL # b) (length a + length eol) m"
    using snoc.prems(1) by (simp add: n nth_append list_update_append)
  also have "\<dots> = Some (a @ replicate (length eol) NUL @ NUL # b, m - length eol)"
    using snoc.prems n by (intro snoc.IH) auto
  finally show ?case
    by (simp add: n replicate_app_Cons_same)
qed

lemma put_line_bytes:
  assumes "line_ok l" "bl_len l + length bs \<le> BUF_DATA_SIZE + 1"
  shows "\<exists>rest. put_bytes (bl_buf l) (bl_len l) bs = Some (line_data l @ bs @ rest) \<and>
     length (line_data l @ bs @ rest) = BUF_DATA_SIZE + 2 \<and>
     put_bytes (line_data l @ bs @ rest) (bl_len l + length bs) [NUL] = Some (line_data l @ bs @ NUL # tl rest) \<and>
     rest \<noteq> []"
proof -
  let ?rest = "drop (bl_len l + length bs) (bl_buf l)"
  have len: "length (bl_buf l) = BUF_DATA_SIZE + 2" "bl_len l \<le> BUF_DATA_SIZE + 1" using assms(1) by (auto simp: line_ok_def)
  have "put_bytes (bl_buf l) (bl_len l) bs = Some (line_data l @ bs @ ?rest)"
    using assms(2) len by (simp add: put_bytes_def line_data_def)
  moreover have "length (line_data l @ bs @ ?rest) = BUF_DATA_SIZE + 2"
    using assms len by simp
  moreover have "put_bytes (line_data l @ bs @ ?rest) (bl_len l + length bs) [NUL] = Some (line_data l @ bs @ NUL # tl ?rest)"
    using assms len by (auto simp: put_bytes_def drop_Suc_tl)
  moreover have "?rest \<noteq> []" using assms(2) len by simp
  ultimately show ?thesis by blast
qed

section \<open>Copying one line\<close>

abbreviation (input) set_line :: "lptr \<Rightarrow> buf_line \<Rightarrow> lstate \<Rightarrow> lstate" where
  "set_line p l st \<equiv> st\<lparr>ls_lines := (ls_lines st)(p \<mapsto> l)\<rparr>"

text \<open>The two writes both branches start with: the bytes up to the line end, and a terminator.\<close>

lemma copy_line_written:
  assumes l: "\<not> bl_terminated l" "line_ok l"
    and fits: "rb_linebuf_skip_crlf data \<le> BUF_DATA_SIZE - bl_len l - 1"
  obtains rest buf where
    "put_bytes (bl_buf l) (bl_len l) (line_body data @ line_eol data) = Some buf"
    "put_bytes buf (bl_len l + rb_linebuf_skip_crlf data) [NUL] =
       Some (line_data l @ line_body data @ line_eol data @ NUL # rest)"
    "length (line_data l @ line_body data @ line_eol data @ NUL # rest) = BUF_DATA_SIZE + 2"
    "bl_len l + rb_linebuf_skip_crlf data \<le> BUF_DATA_SIZE - 1"
proof -
  let ?bs = "line_body data @ line_eol data"
  have n: "rb_linebuf_skip_crlf data = length ?bs" by (simp add: skip_crlf_eq)
  have "bl_len l \<le> BUF_DATA_SIZE - 1" using l by (auto simp: line_ok_def)
  then have sz: "bl_len l + length ?bs \<le> BUF_DATA_SIZE - 1" using fits n by (simp add: BUF_DATA_SIZE_def)
  then have "bl_len l + length ?bs \<le> BUF_DATA_SIZE + 1" by simp
  from put_line_bytes [OF l(2) this] obtain rest where
    r: "put_bytes (bl_buf l) (bl_len l) ?bs = Some (line_data l @ ?bs @ rest)"
    "length (line_data l @ ?bs @ rest) = BUF_DATA_SIZE + 2"
    "put_bytes (line_data l @ ?bs @ rest) (bl_len l + length ?bs) [NUL] =
       Some (line_data l @ ?bs @ NUL # tl rest)" "rest \<noteq> []"
    by blast
  obtain c rest' where "rest = c # rest'" using r(4) by (cases rest) auto
  with r sz n show thesis by (intro that [OF r(1), of rest']) auto
qed

text \<open>Input without a line end is kept in the line, which stays open.\<close>

lemma copy_line_partial:
  assumes l: "ls_lines st p = Some l" "\<not> bl_terminated l" "line_ok l" and ne: "data \<noteq> []"
    and fits: "rb_linebuf_skip_crlf data \<le> BUF_DATA_SIZE - bl_len l - 1" and noeol: "line_eol data = []"
  shows "\<exists>l'. rb_linebuf_copy_line bufhead p data st =
      Some (rb_linebuf_skip_crlf data,
            bufhead\<lparr>bh_len := bh_len bufhead + int (length (line_body data))\<rparr>, set_line p l' st) \<and>
    line_data l' = line_data l @ line_body data \<and> bl_len l' = bl_len l + length (line_body data) \<and>
    \<not> bl_terminated l' \<and> line_ok l' \<and> bl_refcount l' = bl_refcount l"
proof -
  let ?b = "line_body data"
  have n: "rb_linebuf_skip_crlf data = length ?b" using noeol by (simp add: skip_crlf_eq)
  obtain rest buf where r: "put_bytes (bl_buf l) (bl_len l) ?b = Some buf"
    "put_bytes buf (bl_len l + length ?b) [NUL] = Some (line_data l @ ?b @ NUL # rest)"
    "length (line_data l @ ?b @ NUL # rest) = BUF_DATA_SIZE + 2" "bl_len l + length ?b \<le> BUF_DATA_SIZE - 1"
    using copy_line_written [OF l(2,3) fits] noeol n by (metis append_Nil append_Nil2)
  let ?buf = "line_data l @ ?b @ NUL # rest"
  have dl: "length (line_data l) = bl_len l" using l(3) by simp
  have bne: "?b \<noteq> []" using skip_crlf_pos [OF ne] n by auto
  have clean: "list_all (\<lambda>c. \<not> is_crlf c) (line_data l @ ?b)"
    using line_body_clean [of data] l by (simp add: line_ok_def)
  have "?buf ! (length (line_data l) + (length ?b - 1)) = ?b ! (length ?b - 1)" using bne by (simp add: nth_append)
  then have "?buf ! (bl_len l + length ?b - 1) = last ?b"
    using bne dl by (metis Nat.add_diff_assoc One_nat_def Suc_leI last_conv_nth length_greater_0_conv)
  then have nc: "\<not> is_crlf (?buf ! (bl_len l + length ?b - 1))" using clean bne by (auto simp: list_all_iff)
  let ?l = "l\<lparr>bl_raw := False, bl_buf := ?buf, bl_len := bl_len l + length ?b, bl_terminated := False\<rparr>"
  have "rb_linebuf_copy_line bufhead p data st =
      Some (length ?b, bufhead\<lparr>bh_len := bh_len bufhead + int (length ?b)\<rparr>, set_line p ?l st)"
    using l fits r(1,2) nc bne noeol take_skip_crlf [of data] by (simp add: rb_linebuf_copy_line_def Let_def n)
  moreover have "line_data ?l = line_data l @ ?b" using dl by (simp add: line_data_def)
  moreover have "line_ok ?l" using clean r(3,4) dl by (simp add: line_ok_def line_data_def [of ?l])
  ultimately show ?thesis using n by (intro exI [of _ ?l]) simp
qed

text \<open>Input with a line end completes the line; the line end itself is not kept.\<close>

lemma copy_line_complete:
  assumes l: "ls_lines st p = Some l" "\<not> bl_terminated l" "line_ok l"
    and fits: "rb_linebuf_skip_crlf data \<le> BUF_DATA_SIZE - bl_len l - 1" and eol: "line_eol data \<noteq> []"
  shows "\<exists>l'. rb_linebuf_copy_line bufhead p data st =
      Some (rb_linebuf_skip_crlf data,
            bufhead\<lparr>bh_len := bh_len bufhead + int (length (line_body data))\<rparr>, set_line p l' st) \<and>
    line_data l' = line_data l @ line_body data \<and> bl_len l' = bl_len l + length (line_body data) \<and>
    bl_terminated l' \<and> line_ok l' \<and> bl_refcount l' = bl_refcount l"
proof -
  let ?n = "rb_linebuf_skip_crlf data" and ?b = "line_body data" and ?e = "line_eol data"
  have n: "?n = length ?b + length ?e" by (rule skip_crlf_eq)
  obtain rest buf where r: "put_bytes (bl_buf l) (bl_len l) (?b @ ?e) = Some buf"
    "put_bytes buf (bl_len l + ?n) [NUL] = Some (line_data l @ ?b @ ?e @ NUL # rest)"
    "length (line_data l @ ?b @ ?e @ NUL # rest) = BUF_DATA_SIZE + 2" "bl_len l + ?n \<le> BUF_DATA_SIZE - 1"
    using copy_line_written [OF l(2,3) fits] by metis
  let ?buf = "line_data l @ ?b @ ?e @ NUL # rest"
  have dl: "length (line_data l) = bl_len l" using l(3) by simp
  have "?buf ! (length (line_data l @ ?b) + (length ?e - 1)) = ?e ! (length ?e - 1)"
    using eol by (simp add: nth_append)
  moreover have "length (line_data l @ ?b) + (length ?e - 1) = bl_len l + ?n - 1"
    using eol n dl by (cases ?e) auto
  ultimately have c: "is_crlf (?buf ! (bl_len l + ?n - 1))"
    using eol line_eol_crlf [of data] by (metis last_conv_nth last_in_set list_all_iff)
  let ?buf' = "(line_data l @ ?b) @ replicate (length ?e) NUL @ NUL # rest"
  have "yank_crlf ((line_data l @ ?b) @ ?e @ NUL # rest) (length (line_data l @ ?b) + length ?e) ?n =
      Some (?buf', ?n - length ?e)"
  proof (rule yank_run)
    show "?n = length ?e \<or> line_data l @ ?b \<noteq> [] \<and> \<not> is_crlf (last (line_data l @ ?b))"
      using line_body_clean [of data] n by (cases "?b = []") (auto simp: list_all_iff)
  qed (use n line_eol_crlf in auto)
  then have y: "yank_crlf ?buf (bl_len l + ?n) ?n = Some (?buf', length ?b)"
    using n dl by (simp add: add.assoc)
  let ?l = "l\<lparr>bl_raw := False, bl_buf := ?buf', bl_len := bl_len l + length ?b, bl_terminated := True\<rparr>"
  have "rb_linebuf_copy_line bufhead p data st =
      Some (?n, bufhead\<lparr>bh_len := bh_len bufhead + int (length ?b)\<rparr>, set_line p ?l st)"
    using l fits r(1,2) c y eol n take_skip_crlf [of data] by (simp add: rb_linebuf_copy_line_def Let_def)
  moreover have "line_data ?l = line_data l @ ?b" using dl by (simp add: line_data_def)
  moreover have "line_ok ?l" using r(3,4) n by (simp add: line_ok_def)
  ultimately show ?thesis by (intro exI [of _ ?l]) simp
qed

lemmas copy_line_fits = copy_line_partial copy_line_complete

section \<open>Lines that are too long\<close>

text \<open>The trailing line ends of a string become terminators.\<close>

definition nul_eol :: "string \<Rightarrow> string" where
  "nul_eol s = (let e = length (takeWhile is_crlf (rev s)) in take (length s - e) s @ replicate e NUL)"

lemma length_nul_eol [simp]: "length (nul_eol s) = length s"
proof -
  have "length (takeWhile is_crlf (rev s)) \<le> length s" using length_takeWhile_le [of is_crlf "rev s"] by simp
  then show ?thesis by (simp add: nul_eol_def Let_def)
qed

lemma trailing_split:
  obtains a eol where "s = a @ eol" "list_all is_crlf eol" "a = [] \<or> \<not> is_crlf (last a)"
    "nul_eol s = a @ replicate (length eol) NUL"
proof -
  let ?e = "takeWhile is_crlf (rev s)" and ?d = "dropWhile is_crlf (rev s)"
  have s: "s = rev ?d @ rev ?e" by (metis rev_append rev_rev_ident takeWhile_dropWhile_id)
  have "rev ?d = [] \<or> \<not> is_crlf (last (rev ?d))"
    using hd_dropWhile [of is_crlf "rev s"] by (auto simp: last_rev)
  moreover have "list_all is_crlf (rev ?e)" by (auto simp: list_all_iff dest: set_takeWhileD)
  moreover have "nul_eol s = rev ?d @ replicate (length (rev ?e)) NUL"
  proof -
    have "length s - length ?e = length (rev ?d)" by (metis add_diff_cancel_right' length_append length_rev s)
    then have "take (length s - length ?e) s = rev ?d" by (metis append_eq_conv_conj s)
    then show ?thesis by (simp add: nul_eol_def Let_def)
  qed
  ultimately show thesis using s that by blast
qed

lemma yank_all:
  "list_all is_crlf eol \<Longrightarrow> length eol < n \<Longrightarrow> yank_crlf (eol @ b) (length eol) n = None"
proof (induction eol arbitrary: n b rule: rev_induct)
  case Nil
  then show ?case by (cases n) auto
next
  case (snoc c eol)
  then obtain m where n: "n = Suc m" by (cases n) auto
  have "yank_crlf ((eol @ [c]) @ b) (length (eol @ [c])) n = yank_crlf (eol @ NUL # b) (length eol) m"
    using snoc.prems(1) by (simp add: n nth_append list_update_append)
  then show ?case using snoc n by simp
qed

lemma line_body_crlf: "is_crlf c \<Longrightarrow> line_body (c # data) = []" "is_crlf c \<Longrightarrow> line_eol (c # data) = takeWhile is_crlf (c # data)"
  by (simp_all add: line_body_def line_eol_def)

lemma yank_cut:
  assumes d: "list_all (\<lambda>c. \<not> is_crlf c) d" and n: "length t < n" and safe: "d \<noteq> [] \<or> \<not> list_all is_crlf t"
  shows "\<exists>m. yank_crlf ((d @ t) @ b) (length (d @ t)) n = Some (nul_eol (d @ t) @ b, m)"
proof -
  obtain a eol where ae: "d @ t = a @ eol" "list_all is_crlf eol" "a = [] \<or> \<not> is_crlf (last a)"
    "nul_eol (d @ t) = a @ replicate (length eol) NUL" using trailing_split .
  from ae(1) consider us where "d = a @ us" "us @ t = eol" | us where "d @ us = a" "t = us @ eol"
    by (auto simp: append_eq_append_conv2)
  then have "\<exists>us. d @ us = a \<and> t = us @ eol"
  proof cases
    case 1
    then have "us = []" using d ae(2) by (cases us) auto
    with 1 show ?thesis by auto
  qed auto
  then obtain us where us: "d @ us = a" "t = us @ eol" by blast
  have "a \<noteq> []"
  proof
    assume "a = []"
    then have "d = []" "t = eol" using us by auto
    with safe ae(2) show False by simp
  qed
  then have "yank_crlf (a @ eol @ b) (length a + length eol) n =
      Some (a @ replicate (length eol) NUL @ b, n - length eol)"
    using ae(2,3) us(2) n by (intro yank_run) auto
  then show ?thesis using ae(1,4) by simp
qed

lemma flood_run:
  assumes "list_all is_crlf (take k data)" "0 < k" "k < rb_linebuf_skip_crlf data"
  shows "k < length (takeWhile is_crlf data)"
proof (cases data)
  case (Cons c ds)
  then have "is_crlf c" using assms(1,2) by (cases k) auto
  then show ?thesis using assms(3) Cons by (simp add: skip_crlf_eq line_body_crlf)
qed (use assms in \<open>simp add: skip_crlf_eq line_body_def line_eol_def\<close>)

text \<open>An open line that cannot take the input and its line end is cut at 510 bytes.\<close>

lemma copy_line_cut:
  assumes l: "ls_lines st p = Some l" "\<not> bl_terminated l" "line_ok l"
    and long: "rb_linebuf_skip_crlf data > BUF_DATA_SIZE - bl_len l - 1"
    and safe: "bl_len l > 0 \<or> length (takeWhile is_crlf data) < BUF_DATA_SIZE"
  shows "\<exists>l'. rb_linebuf_copy_line bufhead p data st =
      Some (rb_linebuf_skip_crlf data, bufhead\<lparr>bh_len := bh_len bufhead + int (BUF_DATA_SIZE - 1)\<rparr>, set_line p l' st) \<and>
    line_data l' = nul_eol (take (BUF_DATA_SIZE - 1) (line_data l @ data)) \<and> bl_len l' = BUF_DATA_SIZE - 1 \<and>
    bl_terminated l' \<and> line_ok l' \<and> bl_refcount l' = bl_refcount l"
proof -
  let ?n = "rb_linebuf_skip_crlf data" and ?room = "BUF_DATA_SIZE - bl_len l - 1"
  let ?s = "line_data l @ take ?room data"
  have dl: "length (line_data l) = bl_len l" and len: "bl_len l \<le> BUF_DATA_SIZE - 1"
    and clean: "list_all (\<lambda>c. \<not> is_crlf c) (line_data l)" using l by (auto simp: line_ok_def)
  have room: "length (take ?room data) = ?room" using long skip_crlf_le [of data] by simp
  have s: "?s = take (BUF_DATA_SIZE - 1) (line_data l @ data)" using dl len by simp
  have slen: "length ?s = BUF_DATA_SIZE - 1" "bl_len l + length (take ?room data) = BUF_DATA_SIZE - 1"
    using dl len room by (auto simp: BUF_DATA_SIZE_def)
  have "bl_len l + length (take ?room data) \<le> BUF_DATA_SIZE + 1" using slen(2) by simp
  from put_line_bytes [OF l(3) this] obtain rest where
    r: "put_bytes (bl_buf l) (bl_len l) (take ?room data) = Some (?s @ rest)"
    "length (?s @ rest) = BUF_DATA_SIZE + 2"
    "put_bytes (?s @ rest) (BUF_DATA_SIZE - 1) [NUL] = Some (?s @ NUL # tl rest)" "rest \<noteq> []"
    unfolding slen(2) by auto
  have "line_data l \<noteq> [] \<or> \<not> list_all is_crlf (take ?room data)"
  proof (cases "bl_len l = 0")
    case True
    then show ?thesis using safe long flood_run [of ?room data] by (auto simp: BUF_DATA_SIZE_def)
  next
    case False
    then show ?thesis using dl by auto
  qed
  from yank_cut [OF clean _ this, of ?n "NUL # tl rest"] long room slen(1) obtain m where
    y: "yank_crlf (?s @ NUL # tl rest) (BUF_DATA_SIZE - 1) ?n = Some (nul_eol ?s @ NUL # tl rest, m)" by auto
  let ?l = "l\<lparr>bl_raw := False, bl_buf := nul_eol ?s @ NUL # tl rest, bl_terminated := True, bl_len := BUF_DATA_SIZE - 1\<rparr>"
  have "rb_linebuf_copy_line bufhead p data st =
      Some (?n, bufhead\<lparr>bh_len := bh_len bufhead + int (BUF_DATA_SIZE - 1)\<rparr>, set_line p ?l st)"
    using l long r(1,3) y by (simp add: rb_linebuf_copy_line_def Let_def)
  moreover have "line_data ?l = nul_eol ?s" using slen(1) by (simp add: line_data_def)
  moreover have "line_ok ?l" using r(2,4) slen(1) by (cases rest) (auto simp: line_ok_def)
  ultimately show ?thesis using s by (intro exI [of _ ?l]) simp
qed

text \<open>
  On a fresh line, 511 or more line-end bytes in a row make the loop that strips them look, and possibly
  write, before the start of the array.
\<close>

theorem copy_line_flood:
  assumes l: "ls_lines st p = Some l" "\<not> bl_terminated l" "line_ok l" "bl_len l = 0"
    and flood: "BUF_DATA_SIZE \<le> length (takeWhile is_crlf data)"
  shows "rb_linebuf_copy_line bufhead p data st = None"
proof -
  obtain c ds where data: "data = c # ds" "is_crlf c"
    using flood by (cases data) (auto simp: BUF_DATA_SIZE_def split: if_splits)
  have n: "rb_linebuf_skip_crlf data = length (takeWhile is_crlf data)"
    using data by (simp add: skip_crlf_eq line_body_crlf)
  let ?t = "take (BUF_DATA_SIZE - 1) data"
  have pre: "?t = take (BUF_DATA_SIZE - 1) (takeWhile is_crlf data)"
    using flood by (metis diff_le_self le_trans takeWhile_eq_take take_take min_absorb1)
  then have crlf: "list_all is_crlf ?t" by (auto simp: list_all_iff dest!: in_set_takeD set_takeWhileD)
  have tl: "length ?t = BUF_DATA_SIZE - 1" using flood pre by simp
  have dl: "line_data l = []" using l(4) by (simp add: line_data_def)
  have "bl_len l + length ?t \<le> BUF_DATA_SIZE + 1" using l(4) tl by simp
  from put_line_bytes [OF l(3) this] obtain rest where
    r: "put_bytes (bl_buf l) 0 ?t = Some (?t @ rest)"
    "put_bytes (?t @ rest) (BUF_DATA_SIZE - 1) [NUL] = Some (?t @ NUL # tl rest)"
    using l(4) tl dl by auto
  have "yank_crlf (?t @ NUL # tl rest) (BUF_DATA_SIZE - 1) (rb_linebuf_skip_crlf data) = None"
    using yank_all [OF crlf, of "rb_linebuf_skip_crlf data" "NUL # tl rest"] flood n tl
    by (simp add: BUF_DATA_SIZE_def)
  then show ?thesis
    using l r flood n by (simp add: rb_linebuf_copy_line_def Let_def BUF_DATA_SIZE_def)
qed

section \<open>Parsing input\<close>

text \<open>
  An intermediate form that follows the loop, with the number of bytes the loop takes: input that starts a line is cut at
  each run of line ends; a piece is complete when a line end follows it, and a piece that does not fit is cut.  The
  reference of the property is \<open>text_lines\<close> below, which reads the text byte by byte.
\<close>

function parsed_lines :: "string \<Rightarrow> (string \<times> bool) list" where
  "parsed_lines data =
     (if data = [] then []
      else (if rb_linebuf_skip_crlf data \<le> BUF_DATA_SIZE - 1
            then (line_body data, line_eol data \<noteq> [])
            else (nul_eol (take (BUF_DATA_SIZE - 1) data), True))
           # parsed_lines (drop (rb_linebuf_skip_crlf data) data))"
  by pat_completeness auto
termination
  by (relation "measure length") (auto simp: skip_crlf_pos)

declare parsed_lines.simps [simp del]

definition no_flood :: "string \<Rightarrow> bool" where
  "no_flood data \<longleftrightarrow> (\<forall>k. length (takeWhile is_crlf (drop k data)) < BUF_DATA_SIZE)"

lemma no_flood_drop: "no_flood data \<Longrightarrow> no_flood (drop n data)"
  by (simp add: no_flood_def)

lemma no_flood_short: "length data < BUF_DATA_SIZE \<Longrightarrow> no_flood data"
  unfolding no_flood_def
  by (metis diff_le_self le_less_trans length_drop length_takeWhile_le)

definition lines_ok :: "lstore \<Rightarrow> bool" where
  "lines_ok st \<longleftrightarrow> (\<forall>p l. st p = Some l \<longrightarrow> line_ok l)"

definition line_view :: "lstore \<Rightarrow> lptr \<Rightarrow> string \<times> bool" where
  "line_view st p = (case st p of None \<Rightarrow> ([], False) | Some l \<Rightarrow> (line_data l, bl_terminated l))"

text \<open>A fresh line takes the first piece of the input.\<close>

lemma copy_fresh:
  assumes st: "ls_lines st p = Some (zero_line\<lparr>bl_refcount := 1\<rparr>)" and ne: "data \<noteq> []" and nf: "no_flood data"
  shows "\<exists>l'. rb_linebuf_copy_line h p data st =
      Some (rb_linebuf_skip_crlf data, h\<lparr>bh_len := bh_len h + int (bl_len l')\<rparr>, set_line p l' st) \<and>
    (line_data l', bl_terminated l') = hd (parsed_lines data) \<and> line_ok l' \<and> bl_refcount l' = 1"
proof -
  let ?l = "zero_line\<lparr>bl_refcount := 1\<rparr>"
  have l: "\<not> bl_terminated ?l" "line_ok ?l" "bl_len ?l = 0" "line_data ?l = []" "bl_refcount ?l = 1"
    using zero_line_ok [of 1] by (simp_all add: zero_line_def line_data_def)
  have hd: "hd (parsed_lines data) =
      (if rb_linebuf_skip_crlf data \<le> BUF_DATA_SIZE - 1 then (line_body data, line_eol data \<noteq> [])
       else (nul_eol (take (BUF_DATA_SIZE - 1) data), True))"
    using ne by (subst parsed_lines.simps) simp
  show ?thesis
  proof (cases "rb_linebuf_skip_crlf data \<le> BUF_DATA_SIZE - 1")
    case True
    then have fits: "rb_linebuf_skip_crlf data \<le> BUF_DATA_SIZE - bl_len ?l - 1" using l(3) by simp
    show ?thesis
      using copy_line_partial [OF st l(1,2) ne fits, of h] copy_line_complete [OF st l(1,2) fits, of h] hd True l(3,4,5)
      by (cases "line_eol data = []") force+
  next
    case False
    have "length (takeWhile is_crlf data) < BUF_DATA_SIZE" using nf by (simp add: no_flood_def) (metis drop0)
    then show ?thesis
      using copy_line_cut [OF st l(1,2), of data h] False l(3,4,5) hd by force
  qed
qed

text \<open>What the line allocator promises: a line that is not in use.\<close>

definition allocator :: "(lstore \<Rightarrow> lptr) \<Rightarrow> bool" where
  "allocator fresh \<longleftrightarrow> (\<forall>s. finite (dom s) \<longrightarrow> fresh s \<notin> dom s)"

lemma allocatorD: "allocator fresh \<Longrightarrow> finite (dom s) \<Longrightarrow> s (fresh s) = None"
  by (auto simp: allocator_def)

lemma parse_loop_spec:
  assumes "length data \<le> fuel" "no_flood data" "lines_ok (ls_lines st)" "finite (dom (ls_lines st))" "allocator fresh"
  shows "\<exists>h' st' ps. parse_loop fuel fresh False h data c st = Some (c + int (length ps), h', st') \<and>
     bh_list h' = bh_list h @ ps \<and> map (line_view (ls_lines st')) ps = parsed_lines data \<and>
     bh_len h' = bh_len h + int (sum_list (map (length \<circ> fst) (parsed_lines data))) \<and>
     lines_ok (ls_lines st') \<and> (\<forall>p l. ls_lines st p = Some l \<longrightarrow> p \<notin> set ps \<and> ls_lines st' p = Some l)"
  using assms(1-4)
proof (induction fuel arbitrary: h data c st)
  case 0
  then show ?case by (simp add: parsed_lines.simps)
next
  case (Suc fuel)
  show ?case
  proof (cases "data = []")
    case True
    then show ?thesis using Suc.prems by (simp add: parsed_lines.simps)
  next
    case False
    let ?n = "rb_linebuf_skip_crlf data" and ?p = "fresh (ls_lines st)"
    let ?h = "h\<lparr>bh_list := bh_list h @ [?p], bh_alloclen := bh_alloclen h + 1, bh_numlines := bh_numlines h + 1\<rparr>"
    let ?st = "st\<lparr>ls_lines := (ls_lines st)(?p \<mapsto> zero_line\<lparr>bl_refcount := 1\<rparr>), ls_bufline_count := ls_bufline_count st + 1\<rparr>"
    have new: "rb_linebuf_new_line fresh h st = (?p, ?h, ?st)" by (simp add: rb_linebuf_new_line_def Let_def)
    have p: "ls_lines st ?p = None" using allocatorD [OF assms(5) Suc.prems(4)] .
    obtain l where l: "rb_linebuf_copy_line ?h ?p data ?st =
        Some (?n, ?h\<lparr>bh_len := bh_len ?h + int (bl_len l)\<rparr>, set_line ?p l ?st)"
      "(line_data l, bl_terminated l) = hd (parsed_lines data)" "line_ok l"
      using copy_fresh [of ?st ?p data ?h] False Suc.prems(2) by auto
    let ?st2 = "set_line ?p l ?st" and ?h2 = "?h\<lparr>bh_len := bh_len ?h + int (bl_len l)\<rparr>"
    have ok2: "lines_ok (ls_lines ?st2)" using Suc.prems(3) l(3) by (simp add: lines_ok_def)
    have len2: "length (drop ?n data) \<le> fuel" using Suc.prems(1) skip_crlf_pos [OF False] False by simp
    have fin2: "finite (dom (ls_lines ?st2))" using Suc.prems(4) by simp
    from Suc.IH [OF len2 no_flood_drop [OF Suc.prems(2)] ok2 fin2, of ?h2 "c + 1"] obtain h' st' ps where
      ih: "parse_loop fuel fresh False ?h2 (drop ?n data) (c + 1) ?st2 = Some (c + 1 + int (length ps), h', st')"
      "bh_list h' = bh_list ?h2 @ ps" "map (line_view (ls_lines st')) ps = parsed_lines (drop ?n data)"
      "bh_len h' = bh_len ?h2 + int (sum_list (map (length \<circ> fst) (parsed_lines (drop ?n data))))"
      "lines_ok (ls_lines st')" "\<forall>p l. ls_lines ?st2 p = Some l \<longrightarrow> p \<notin> set ps \<and> ls_lines st' p = Some l" by blast
    have pl: "parsed_lines data = hd (parsed_lines data) # parsed_lines (drop ?n data)"
      using False by (subst (1 2) parsed_lines.simps) simp
    have st'p: "ls_lines st' ?p = Some l" using ih(6) by simp
    have run: "parse_loop (Suc fuel) fresh False h data c st = Some (c + 1 + int (length ps), h', st')"
      using False new l(1) ih(1) by (cases data) (simp_all add: copy_into_def)
    have view: "map (line_view (ls_lines st')) (?p # ps) = parsed_lines data"
      using ih(3) l(2) st'p by (subst pl) (simp add: line_view_def)
    have blen: "bl_len l = length (fst (hd (parsed_lines data)))" using l(2,3) by (metis fst_conv length_line_data)
    have sum: "sum_list (map (length \<circ> fst) (parsed_lines data)) =
        bl_len l + sum_list (map (length \<circ> fst) (parsed_lines (drop ?n data)))"
      by (subst pl) (simp add: blen)
    have old: "q \<notin> set (?p # ps) \<and> ls_lines st' q = Some m" if "ls_lines st q = Some m" for q m
    proof -
      have "q \<noteq> ?p" using p that by auto
      then have "ls_lines ?st2 q = Some m" using that by simp
      with ih(6) \<open>q \<noteq> ?p\<close> show ?thesis by auto
    qed
    have len: "bh_len h' = bh_len h + int (sum_list (map (length \<circ> fst) (parsed_lines data)))"
      using ih(4) sum by simp
    show ?thesis
      using run view ih(2,5) old len by (intro exI [of _ h'] exI [of _ st'] exI [of _ "?p # ps"]) (simp add: comp_def)
  qed
qed

section \<open>The length of a queue\<close>

text \<open>What the queue's \<^verbatim>\<open>len\<close> is meant to be, and how far it is off.\<close>

definition queued :: "lstore \<Rightarrow> lptr list \<Rightarrow> int" where
  "queued st ps = sum_list (map (\<lambda>p. case st p of None \<Rightarrow> 0 | Some l \<Rightarrow> int (bl_len l)) ps)"

definition len_error :: "buf_head \<Rightarrow> lstate \<Rightarrow> int" where
  "len_error h st = bh_len h - queued (ls_lines st) (bh_list h)"

lemma queued_append [simp]: "queued st (ps @ qs) = queued st ps + queued st qs"
  by (simp add: queued_def)

lemma queued_other: "p \<notin> set ps \<Longrightarrow> queued (st(p := x)) ps = queued st ps"
  by (induction ps) (auto simp: queued_def)

text \<open>
  Cutting an open line counts its bytes a second time: the queue's length is off by what the line
  already held.
\<close>

theorem copy_line_cut_error:
  assumes "ls_lines st p = Some l" "\<not> bl_terminated l" "line_ok l"
    and "rb_linebuf_skip_crlf data > BUF_DATA_SIZE - bl_len l - 1" "bl_len l > 0"
    and h: "bh_list h = ps @ [p]" "p \<notin> set ps"
  shows "\<exists>n h' st'. rb_linebuf_copy_line h p data st = Some (n, h', st') \<and>
     len_error h' st' = len_error h st + int (bl_len l)"
proof -
  obtain l' where l': "rb_linebuf_copy_line h p data st =
      Some (rb_linebuf_skip_crlf data, h\<lparr>bh_len := bh_len h + int (BUF_DATA_SIZE - 1)\<rparr>, set_line p l' st)"
    "bl_len l' = BUF_DATA_SIZE - 1"
    using copy_line_cut [OF assms(1-4), of h] assms(5) by blast
  have "queued ((ls_lines st)(p \<mapsto> l')) [p] = queued (ls_lines st) [p] + int (BUF_DATA_SIZE - 1) - int (bl_len l)"
    using assms(1) l'(2) by (simp add: queued_def)
  with l' h show ?thesis by (auto simp: len_error_def queued_other)
qed

text \<open>Otherwise the length is kept exact.\<close>

lemma copy_line_fits_error:
  assumes l: "ls_lines st p = Some l" "\<not> bl_terminated l" "line_ok l" and "data \<noteq> []"
    and fits: "rb_linebuf_skip_crlf data \<le> BUF_DATA_SIZE - bl_len l - 1"
    and h: "bh_list h = ps @ [p]" "p \<notin> set ps"
  shows "\<exists>n h' st'. rb_linebuf_copy_line h p data st = Some (n, h', st') \<and> len_error h' st' = len_error h st"
proof -
  obtain l' where l': "rb_linebuf_copy_line h p data st =
      Some (rb_linebuf_skip_crlf data, h\<lparr>bh_len := bh_len h + int (length (line_body data))\<rparr>, set_line p l' st)"
    "bl_len l' = bl_len l + length (line_body data)"
    using copy_line_partial [OF l assms(4) fits, of h] copy_line_complete [OF l fits, of h]
    by (cases "line_eol data = []") blast+
  have "queued ((ls_lines st)(p \<mapsto> l')) [p] = queued (ls_lines st) [p] + int (length (line_body data))"
    using l(1) l'(2) by (simp add: queued_def)
  with l' h show ?thesis by (auto simp: len_error_def queued_other)
qed

section \<open>Taking lines out, and references\<close>

lemma done_line_spec:
  assumes "bh_list h = p # ps" "ls_lines st p = Some l"
  shows "\<exists>h' st'. rb_linebuf_done_line h st = Some (h', st') \<and> bh_list h' = ps \<and>
     bh_len h' = bh_len h - int (bl_len l) \<and> bh_writeofs h' = bh_writeofs h \<and>
     bh_alloclen h' = bh_alloclen h - 1 \<and> bh_numlines h' = bh_numlines h - 1 \<and>
     (\<forall>q. q \<noteq> p \<longrightarrow> ls_lines st' q = ls_lines st q) \<and>
     ls_lines st' p = (if bl_refcount l = 1 then None else Some (l\<lparr>bl_refcount := bl_refcount l - 1\<rparr>)) \<and>
     ls_bufline_count st' = ls_bufline_count st - (if bl_refcount l = 1 then 1 else 0)"
  using assms by (simp add: rb_linebuf_done_line_def Let_def)

text \<open>
  \<open>hs\<close> are all the queues.  A line is in the store exactly as long as some queue holds it, its
  \<^verbatim>\<open>refcount\<close> is the number of places it has in the queues, and \<^verbatim>\<open>bufline_count\<close> is the number of lines.
\<close>

definition refs :: "buf_head list \<Rightarrow> lptr \<Rightarrow> nat" where
  "refs hs p = sum_list (map (\<lambda>h. count_list (bh_list h) p) hs)"

definition refs_ok :: "buf_head list \<Rightarrow> lstate \<Rightarrow> bool" where
  "refs_ok hs st \<longleftrightarrow>
     (\<forall>p. case ls_lines st p of
            None \<Rightarrow> refs hs p = 0
          | Some l \<Rightarrow> bl_refcount l = int (refs hs p) \<and> refs hs p > 0) \<and>
     finite (dom (ls_lines st)) \<and> ls_bufline_count st = int (card (dom (ls_lines st)))"

lemma refs_Cons: "refs (h # hs) p = count_list (bh_list h) p + refs hs p"
  by (simp add: refs_def)

lemma refs_ok_None: "refs_ok hs st \<Longrightarrow> ls_lines st p = None \<Longrightarrow> refs hs p = 0"
  by (auto simp: refs_ok_def dest!: spec [of _ p])

lemma refs_ok_Some: "refs_ok hs st \<Longrightarrow> ls_lines st p = Some l \<Longrightarrow> bl_refcount l = int (refs hs p) \<and> refs hs p > 0"
  by (auto simp: refs_ok_def dest!: spec [of _ p])

lemma refs_ok_live: "refs_ok (h # hs) st \<Longrightarrow> p \<in> set (bh_list h) \<Longrightarrow> ls_lines st p \<noteq> None"
  using refs_ok_None [of "h # hs" st p] by (auto simp: refs_Cons count_list_0_iff)

lemma refs_okI:
  assumes "\<And>p. ls_lines st p = None \<Longrightarrow> refs hs p = 0"
    and "\<And>p l. ls_lines st p = Some l \<Longrightarrow> bl_refcount l = int (refs hs p) \<and> refs hs p > 0"
    and "finite (dom (ls_lines st))" "ls_bufline_count st = int (card (dom (ls_lines st)))"
  shows "refs_ok hs st"
  using assms by (auto simp: refs_ok_def split: option.split)

lemma new_line_refs [inv_intros]:
  assumes ok: "refs_ok (h # hs) st" and fresh: "fresh (ls_lines st) \<notin> dom (ls_lines st)"
    and new: "rb_linebuf_new_line fresh h st = (p, h', st')"
  shows "refs_ok (h' # hs) st'"
proof (rule refs_okI)
  have p: "p = fresh (ls_lines st)" "ls_lines st p = None"
    and st': "ls_lines st' = (ls_lines st)(p \<mapsto> zero_line\<lparr>bl_refcount := 1\<rparr>)"
      "ls_bufline_count st' = ls_bufline_count st + 1"
    and h': "\<And>q. refs (h' # hs) q = refs (h # hs) q + (if q = p then 1 else 0)"
    using new fresh by (auto simp: rb_linebuf_new_line_def Let_def refs_Cons)
  note z = refs_ok_None [OF ok]
  show "refs (h' # hs) q = 0" if "ls_lines st' q = None" for q
    using that z [of q] by (auto simp: st' h' split: if_splits)
  show "bl_refcount l = int (refs (h' # hs) q) \<and> refs (h' # hs) q > 0" if "ls_lines st' q = Some l" for q l
    using that z [OF p(2)] refs_ok_Some [OF ok, of q l] by (auto simp: st' h' split: if_splits)
  show "finite (dom (ls_lines st'))" using ok by (simp add: st' refs_ok_def)
  show "ls_bufline_count st' = int (card (dom (ls_lines st')))"
    using ok p(2) by (simp add: st' refs_ok_def card_insert_if domIff)
qed

lemma done_line_refs [inv_intros]:
  assumes ok: "refs_ok (h # hs) st" and run: "rb_linebuf_done_line h st = Some (h', st')"
  shows "refs_ok (h' # hs) st'"
proof -
  obtain p ps l where h: "bh_list h = p # ps" and l: "ls_lines st p = Some l"
    using run by (auto simp: rb_linebuf_done_line_def split: list.splits bind_splits)
  have d: "bh_list h' = ps" "\<And>q. q \<noteq> p \<Longrightarrow> ls_lines st' q = ls_lines st q"
    "ls_lines st' p = (if bl_refcount l = 1 then None else Some (l\<lparr>bl_refcount := bl_refcount l - 1\<rparr>))"
    "ls_bufline_count st' = ls_bufline_count st - (if bl_refcount l = 1 then 1 else 0)"
    using done_line_spec [OF h l] run by auto
  have r: "refs (h # hs) q = refs (h' # hs) q + (if q = p then 1 else 0)" for q
    by (simp add: refs_Cons h d(1))
  have rp: "bl_refcount l = int (refs (h' # hs) p) + 1" using refs_ok_Some [OF ok l] r [of p] by simp
  have dom: "dom (ls_lines st') = (if bl_refcount l = 1 then dom (ls_lines st) - {p} else dom (ls_lines st))"
    using d(2,3) l by (auto simp: dom_def split: if_splits) (metis option.distinct(1) option.exhaust)+
  show ?thesis
  proof (rule refs_okI)
    show "refs (h' # hs) q = 0" if "ls_lines st' q = None" for q
      using that d(2,3) rp refs_ok_None [OF ok, of q] r [of q] by (cases "q = p") (auto split: if_splits)
    show "bl_refcount m = int (refs (h' # hs) q) \<and> refs (h' # hs) q > 0" if "ls_lines st' q = Some m" for q m
      using that d(2,3) rp refs_ok_Some [OF ok, of q m] r [of q] by (cases "q = p") (auto split: if_splits)
    show "finite (dom (ls_lines st'))" using ok dom by (simp add: refs_ok_def)
    have "card (dom (ls_lines st)) > 0" using ok l by (auto simp: refs_ok_def card_gt_0_iff)
    then show "ls_bufline_count st' = int (card (dom (ls_lines st')))"
      using ok d(4) dom l by (auto simp: refs_ok_def card_Diff_singleton domI)
  qed
qed

lemma attach_loop_refs:
  assumes "refs_ok (h # hs) st" "set ps \<subseteq> dom (ls_lines st)"
  shows "\<exists>h' st'. attach_loop ps h st = Some (h', st') \<and> refs_ok (h' # hs) st' \<and>
     bh_list h' = bh_list h @ ps \<and> bh_len h' = bh_len h + queued (ls_lines st) ps \<and>
     bh_alloclen h' = bh_alloclen h + int (length ps) \<and> bh_numlines h' = bh_numlines h + int (length ps) \<and>
     bh_writeofs h' = bh_writeofs h \<and> line_view (ls_lines st') = line_view (ls_lines st)"
  using assms
proof (induction ps arbitrary: h st)
  case Nil
  then show ?case by (simp add: queued_def)
next
  case (Cons p ps)
  obtain l where l: "ls_lines st p = Some l" using Cons.prems(2) by auto
  let ?h = "h\<lparr>bh_list := bh_list h @ [p], bh_alloclen := bh_alloclen h + 1,
              bh_len := bh_len h + int (bl_len l), bh_numlines := bh_numlines h + 1\<rparr>"
  let ?st = "set_line p (l\<lparr>bl_refcount := bl_refcount l + 1\<rparr>) st"
  have r: "refs (?h # hs) q = refs (h # hs) q + (if q = p then 1 else 0)" for q by (simp add: refs_Cons)
  have ok1: "refs_ok (?h # hs) ?st"
  proof (rule refs_okI)
    show "refs (?h # hs) q = 0" if "ls_lines ?st q = None" for q
      using that refs_ok_None [OF Cons.prems(1), of q] r [of q] by (auto split: if_splits)
    show "bl_refcount m = int (refs (?h # hs) q) \<and> refs (?h # hs) q > 0" if "ls_lines ?st q = Some m" for q m
      using that refs_ok_Some [OF Cons.prems(1), of q] r [of q] l by (auto split: if_splits)
  qed (use Cons.prems l in \<open>auto simp: refs_ok_def insert_absorb domI\<close>)
  have sub1: "set ps \<subseteq> dom (ls_lines ?st)" using Cons.prems(2) by auto
  have q1: "queued (ls_lines ?st) qs = queued (ls_lines st) qs" for qs
    using l by (induction qs) (auto simp: queued_def)
  have v1: "line_view (ls_lines ?st) = line_view (ls_lines st)"
    using l by (auto simp: line_view_def line_data_def fun_eq_iff)
  obtain h' st' where ih: "attach_loop ps ?h ?st = Some (h', st')" "refs_ok (h' # hs) st'"
    "bh_list h' = bh_list ?h @ ps" "bh_len h' = bh_len ?h + queued (ls_lines st) ps"
    "bh_alloclen h' = bh_alloclen ?h + int (length ps)" "bh_numlines h' = bh_numlines ?h + int (length ps)"
    "bh_writeofs h' = bh_writeofs ?h" "line_view (ls_lines st') = line_view (ls_lines st)"
    using Cons.IH [OF ok1 sub1] unfolding q1 v1 by blast
  then show ?case using l by (simp add: queued_def)
qed

lemma attach_refs:
  assumes "refs_ok (h # hs) st" "set (bh_list new) \<subseteq> dom (ls_lines st)"
  shows "\<exists>h' st'. rb_linebuf_attach h new st = Some (h', st') \<and> refs_ok (h' # hs) st' \<and>
     bh_list h' = bh_list h @ bh_list new \<and> bh_len h' = bh_len h + queued (ls_lines st) (bh_list new) \<and>
     line_view (ls_lines st') = line_view (ls_lines st)"
  using attach_loop_refs [OF assms] by (auto simp: rb_linebuf_attach_def)

lemma donebuf_loop_refs:
  "refs_ok (h # hs) st \<Longrightarrow> length (bh_list h) \<le> n \<Longrightarrow>
   \<exists>h' st'. donebuf_loop n h st = Some (h', st') \<and> refs_ok (h' # hs) st' \<and> bh_list h' = []"
proof (induction n arbitrary: h st)
  case 0
  then show ?case by simp
next
  case (Suc n)
  show ?case
  proof (cases "bh_list h")
    case Nil
    then show ?thesis using Suc.prems by simp
  next
    case (Cons p ps)
    obtain l where l: "ls_lines st p = Some l" using refs_ok_live [OF Suc.prems(1), of p] Cons by auto
    obtain h1 st1 where d: "rb_linebuf_done_line h st = Some (h1, st1)" "bh_list h1 = ps"
      using done_line_spec [OF Cons l] by blast
    have "refs_ok (h1 # hs) st1" by (rule done_line_refs [OF Suc.prems(1) d(1)])
    then show ?thesis using Suc.IH [of h1 st1] Suc.prems(2) d Cons by auto
  qed
qed

theorem donebuf_refs:
  assumes "refs_ok (h # hs) st"
  shows "\<exists>h' st'. rb_linebuf_donebuf h st = Some (h', st') \<and> refs_ok (h' # hs) st' \<and> bh_list h' = []"
  using donebuf_loop_refs [OF assms, of "length (bh_list h)"] by (auto simp: rb_linebuf_donebuf_def)

text \<open>What a reader of the queue gets.\<close>

theorem get_spec:
  assumes h: "bh_list h = p # ps" and l: "ls_lines st p = Some l" "line_ok l" "bl_terminated l" "\<not> bl_raw l"
    and room: "bl_len l < buflen"
  shows "\<exists>h' st'. rb_linebuf_get h buflen partial False st = Some (line_data l, bl_len l, h', st') \<and>
     rb_linebuf_done_line h st = Some (h', st')"
  using done_line_spec [OF h l(1)] l room h
  by (auto simp: rb_linebuf_get_def Let_def line_data_def line_ok_def BUF_DATA_SIZE_def)

text \<open>A destination exactly as long as the line is overrun by the terminator.\<close>

lemma get_overrun:
  assumes "bh_list h = p # ps" "ls_lines st p = Some l" "line_ok l" "bl_terminated l" "\<not> bl_raw l"
  shows "rb_linebuf_get h (bl_len l) partial False st = None"
  using assms by (auto simp: rb_linebuf_get_def Let_def line_ok_def BUF_DATA_SIZE_def)

section \<open>Adding lines\<close>

text \<open>The text a line holds: trailing line ends are dropped and one is added.\<close>

definition chop_eol :: "string \<Rightarrow> string" where
  "chop_eol s = rev (dropWhile is_crlf (rev s))"

definition chop_stop :: "char \<Rightarrow> bool" where
  "chop_stop c \<longleftrightarrow> is_crlf c \<or> c = NUL"

lemma chop_index_found:
  "a \<noteq> [] \<Longrightarrow> \<not> chop_stop (last a) \<Longrightarrow> list_all chop_stop z \<Longrightarrow> length a \<le> Suc k \<Longrightarrow> k < length (a @ z) \<Longrightarrow>
   chop_index (a @ z) k = Some (length a - 1)"
proof (induction k)
  case 0
  then have "length a = 1" by (cases a) auto
  with 0 show ?case by (auto simp: chop_stop_def length_Suc_conv)
next
  case (Suc k)
  show ?case
  proof (cases "length a = Suc (Suc k)")
    case True
    then have "(a @ z) ! Suc k = last a" using Suc.prems(1) by (simp add: nth_append last_conv_nth)
    with Suc.prems True show ?thesis by (simp add: chop_stop_def)
  next
    case False
    then have le: "length a \<le> Suc k" using Suc.prems by simp
    then have "(a @ z) ! Suc k \<in> set z" using Suc.prems(5) by (simp add: nth_append)
    then have "chop_stop ((a @ z) ! Suc k)" using Suc.prems(3) by (auto simp: list_all_iff)
    with Suc le show ?thesis by (simp add: chop_stop_def)
  qed
qed

lemma chop_index_none:
  "list_all chop_stop (take (Suc k) buf) \<Longrightarrow> k < length buf \<Longrightarrow> chop_index buf k = None"
proof (induction k)
  case 0
  then show ?case by (cases buf) (auto simp: chop_stop_def)
next
  case (Suc k)
  then have "chop_stop (buf ! Suc k)" by (simp add: take_Suc_conv_app_nth)
  with Suc show ?case by (simp add: chop_stop_def take_Suc_conv_app_nth)
qed

text \<open>The array after a text of at most 510 bytes was written into a zeroed line.\<close>

lemma zero_buf_written:
  assumes "length s \<le> 510"
  shows "put_bytes (bl_buf (zero_line\<lparr>bl_refcount := n\<rparr>)) 0 (s @ [NUL]) = Some (s @ replicate (513 - length s) NUL)"
proof -
  have "513 - length s = Suc (512 - length s)" using assms by linarith
  then have "replicate (513 - length s) NUL = NUL # replicate (512 - length s) NUL" by simp
  then show ?thesis using assms by (simp add: put_bytes_def zero_line_def BUF_DATA_SIZE_def)
qed

lemma chop_eol_split:
  assumes "chop_eol s \<noteq> []"
  obtains e where "s = chop_eol s @ e" "list_all is_crlf e" "\<not> is_crlf (last (chop_eol s))"
proof -
  let ?e = "rev (takeWhile is_crlf (rev s))"
  have "s = chop_eol s @ ?e" unfolding chop_eol_def by (metis rev_append rev_rev_ident takeWhile_dropWhile_id)
  moreover have "list_all is_crlf ?e" by (auto simp: list_all_iff dest: set_takeWhileD)
  moreover have "\<not> is_crlf (last (chop_eol s))"
    using assms hd_dropWhile [of is_crlf "rev s"] by (simp add: chop_eol_def last_rev)
  ultimately show thesis using that by blast
qed

lemma finish_line_text:
  assumes "cstring s" "length s \<le> 510" "chop_eol s \<noteq> []"
  shows "\<exists>rest. finish_line (s @ replicate (513 - length s) NUL) (length s) =
     Some (chop_eol s @ [CR, LF] @ rest, length (chop_eol s) + 2) \<and>
     length (chop_eol s @ [CR, LF] @ rest) = 513"
proof -
  obtain e where e: "s = chop_eol s @ e" "list_all is_crlf e" "\<not> is_crlf (last (chop_eol s))"
    using chop_eol_split [OF assms(3)] .
  let ?a = "chop_eol s" and ?z = "e @ replicate (513 - length s) NUL"
  have len: "length ?a \<le> 510" "length ?a + length e = length s" using assms(2) e(1) by (metis le_add1 le_trans length_append)+
  have "last ?a \<in> set s" using assms(3) e(1) by (metis Un_iff last_in_set set_append)
  then have "\<not> chop_stop (last ?a)" using assms(1) e(3) by (auto simp: chop_stop_def cstring_def)
  moreover have "list_all chop_stop ?z" using e(2) by (auto simp: list_all_iff chop_stop_def)
  ultimately have ci: "chop_index (?a @ ?z) (length s) = Some (length ?a - 1)"
    using assms(2,3) len by (intro chop_index_found) auto
  have pos: "0 < length ?a" using assms(3) by simp
  have "put_bytes (?a @ ?z) (length ?a) [CR, LF, NUL] = Some (?a @ [CR, LF, NUL] @ drop 3 ?z)"
    using len assms(2) by (simp add: put_bytes_def)
  moreover have "s \<noteq> []" using pos len(2) by auto
  ultimately have "finish_line (?a @ ?z) (length s) = Some (?a @ [CR, LF] @ NUL # drop 3 ?z, length ?a + 2)"
    using ci pos assms(2,3) len by (simp add: finish_line_def)
  moreover have "length (?a @ [CR, LF] @ NUL # drop 3 ?z) = 513" using len assms(2) by simp
  moreover have "?a @ ?z = s @ replicate (513 - length s) NUL" using e(1) by simp
  ultimately show ?thesis by metis
qed

lemma finish_line_only_eol:
  assumes "s \<noteq> []" "length s \<le> 510" "chop_eol s = []"
  shows "finish_line (s @ replicate (513 - length s) NUL) (length s) = None"
proof -
  have "list_all is_crlf (rev s)" using assms(3) by (simp add: chop_eol_def dropWhile_eq_Nil_conv list_all_iff)
  then have "list_all chop_stop (take (Suc (length s)) (s @ replicate (513 - length s) NUL))"
    by (auto simp: list_all_iff chop_stop_def dest: in_set_takeD)
  then have "chop_index (s @ replicate (513 - length s) NUL) (length s) = None"
    using assms(2) by (intro chop_index_none) auto
  then show ?thesis using assms by (simp add: finish_line_def)
qed

text \<open>What the three ways of adding a line write for a text.\<close>

definition put_text :: "string \<Rightarrow> string" where
  "put_text s = (if length s > 510 then take 510 s @ [CR, LF] else chop_eol s @ [CR, LF])"

lemma length_put_text: "length (put_text s) \<le> 512"
proof -
  have "length (chop_eol s) \<le> length s"
    using length_dropWhile_le [of is_crlf "rev s"] by (simp add: chop_eol_def)
  then show ?thesis by (simp add: put_text_def)
qed

lemma finish_putbuf:
  assumes "cstring s" "s = [] \<or> chop_eol (take 510 s) \<noteq> []"
  shows "\<exists>buf b. put_bytes (bl_buf (zero_line\<lparr>bl_refcount := n\<rparr>)) 0 (take 510 s @ [NUL]) = Some b \<and>
     finish_line b (length s) = Some (buf, length (put_text s)) \<and>
     take (length (put_text s)) buf = put_text s \<and> length buf = 513"
proof -
  let ?z = "bl_buf (zero_line\<lparr>bl_refcount := n\<rparr>)"
  consider (long) "length s > 510" | (empty) "s = []" | (short) "s \<noteq> []" "length s \<le> 510" by fastforce
  then show ?thesis
  proof cases
    case long
    have z: "put_bytes ?z 0 (take 510 s @ [NUL]) = Some (take 510 s @ replicate 3 NUL)"
      using zero_buf_written [of "take 510 s" n] long by simp
    have f: "finish_line (take 510 s @ replicate 3 NUL) (length s) = Some (take 510 s @ [CR, LF, NUL], 512)"
      using long by (simp add: finish_line_def put_bytes_def numeral_3_eq_3)
    show ?thesis
      by (rule exI [of _ "take 510 s @ [CR, LF, NUL]"], rule exI [of _ "take 510 s @ replicate 3 NUL"])
        (use z f long in \<open>simp add: put_text_def\<close>)
  next
    case empty
    have z: "put_bytes ?z 0 [NUL] = Some (replicate 513 NUL)" using zero_buf_written [of "[]" n] by simp
    have f: "finish_line (replicate 513 NUL) 0 = Some ([CR, LF, NUL] @ replicate 510 NUL, 2)"
      by (simp add: finish_line_def put_bytes_def)
    show ?thesis
      by (rule exI [of _ "[CR, LF, NUL] @ replicate 510 NUL"], rule exI [of _ "replicate 513 NUL"])
        (use z f empty in \<open>simp add: put_text_def chop_eol_def\<close>)
  next
    case short
    then have s: "take 510 s = s" by simp
    obtain rest where "finish_line (s @ replicate (513 - length s) NUL) (length s) =
        Some (chop_eol s @ [CR, LF] @ rest, length (chop_eol s) + 2)" "length (chop_eol s @ [CR, LF] @ rest) = 513"
      using finish_line_text [OF assms(1) short(2)] assms(2) short s by auto
    then show ?thesis using zero_buf_written [OF short(2), of n] short s
      by (simp add: put_text_def)
  qed
qed

theorem putbuf_spec:
  assumes s: "cstring s" "s = [] \<or> chop_eol (take 510 s) \<noteq> []"
  shows "\<exists>l h' st'. rb_linebuf_putbuf fresh h (Some s) st = Some (h', st') \<and>
     bh_list h' = bh_list h @ [fresh (ls_lines st)] \<and> bh_len h' = bh_len h + int (length (put_text s)) \<and>
     ls_lines st' = (ls_lines st)(fresh (ls_lines st) \<mapsto> l) \<and> line_data l = put_text s \<and> bl_terminated l \<and>
     bl_refcount l = 1 \<and> line_ok l"
proof -
  obtain buf b where b: "put_bytes (bl_buf (zero_line\<lparr>bl_refcount := 1\<rparr>)) 0 (take 510 s @ [NUL]) = Some b"
    "finish_line b (length s) = Some (buf, length (put_text s))" "take (length (put_text s)) buf = put_text s"
    "length buf = 513" using finish_putbuf [OF s] by blast
  let ?l = "zero_line\<lparr>bl_refcount := 1, bl_buf := buf, bl_terminated := True, bl_len := length (put_text s)\<rparr>"
  have "rb_linebuf_putbuf fresh h (Some s) st = Some
      (h\<lparr>bh_list := bh_list h @ [fresh (ls_lines st)], bh_alloclen := bh_alloclen h + 1,
         bh_numlines := bh_numlines h + 1, bh_len := bh_len h + int (length (put_text s))\<rparr>,
       st\<lparr>ls_lines := (ls_lines st)(fresh (ls_lines st) \<mapsto> ?l), ls_bufline_count := ls_bufline_count st + 1\<rparr>)"
    using b by (simp add: rb_linebuf_putbuf_def add_line_def rb_linebuf_new_line_def Let_def BUF_DATA_SIZE_def)
  moreover have "line_data ?l = put_text s" using b(3) by (simp add: line_data_def)
  moreover have "line_ok ?l" using b(4) length_put_text [of s] by (simp add: line_ok_def BUF_DATA_SIZE_def)
  ultimately show ?thesis by (intro exI [of _ ?l]) simp
qed

text \<open>\<^verbatim>\<open>rb_linebuf_put()\<close> on the expanded text is the same as \<^verbatim>\<open>rb_linebuf_putbuf()\<close>.\<close>

lemma put_eq_putbuf: "rb_linebuf_put fresh h s st = rb_linebuf_putbuf fresh h s st"
  by (cases s) (simp_all add: rb_linebuf_put_def rb_linebuf_putbuf_def vsnprintf_at_def BUF_DATA_SIZE_def)

lemma putbuf_only_eol:
  assumes "s \<noteq> []" "length s \<le> 510" "list_all is_crlf s"
  shows "rb_linebuf_putbuf fresh h (Some s) st = None"
proof -
  have c: "chop_eol s = []" using assms(3) by (simp add: chop_eol_def dropWhile_eq_Nil_conv list_all_iff)
  show ?thesis
    using zero_buf_written [OF assms(2), of 1] finish_line_only_eol [OF assms(1,2) c] assms(2)
    by (simp add: rb_linebuf_putbuf_def add_line_def rb_linebuf_new_line_def Let_def BUF_DATA_SIZE_def)
qed

section \<open>Flushing\<close>

definition line_bytes :: "lstore \<Rightarrow> lptr \<Rightarrow> string" where
  "line_bytes st p = fst (line_view st p)"

lemma line_bytes_view [simp]: "line_view st p = (d, t) \<Longrightarrow> line_bytes st p = d"
  by (simp add: line_bytes_def)

lemma line_bytes_cong:
  "map (line_view st) ps = map (line_view st') ps \<Longrightarrow> set qs \<subseteq> set ps \<Longrightarrow>
   map (line_bytes st) qs = map (line_bytes st') qs"
  by (auto simp: line_bytes_def)

text \<open>The bytes a queue still has to send.\<close>

definition pending :: "buf_head \<Rightarrow> lstate \<Rightarrow> string" where
  "pending h st = drop (bh_writeofs h) (concat (map (line_bytes (ls_lines st)) (bh_list h)))"

text \<open>A queue's invariant: references are counted, lines are well formed, and the offset is inside the first line.\<close>

definition queue_ok :: "buf_head \<Rightarrow> buf_head list \<Rightarrow> lstate \<Rightarrow> bool" where
  "queue_ok h hs st \<longleftrightarrow> refs_ok (h # hs) st \<and> lines_ok (ls_lines st) \<and>
     (case bh_list h of [] \<Rightarrow> bh_writeofs h = 0
      | p # _ \<Rightarrow> bh_writeofs h \<le> length (line_bytes (ls_lines st) p))"

lemma refs_ok_writeofs [simp]: "refs_ok (h\<lparr>bh_writeofs := n\<rparr> # hs) st = refs_ok (h # hs) st"
proof -
  have "refs (h\<lparr>bh_writeofs := n\<rparr> # hs) = refs (h # hs)" by (rule ext) (simp add: refs_Cons)
  then show ?thesis by (simp only: refs_ok_def)
qed

lemma queue_live:
  assumes "queue_ok h hs st" "p \<in> set (bh_list h)"
  obtains l where "ls_lines st p = Some l" "line_ok l" "line_view (ls_lines st) p = (line_data l, bl_terminated l)"
  using assms refs_ok_live [of h hs st p] that by (fastforce simp: queue_ok_def lines_ok_def line_view_def)

lemma done_line_view:
  assumes ok: "refs_ok (h # hs) st" and h: "bh_list h = p # ps"
    and run: "rb_linebuf_done_line h st = Some (h', st')" and q: "q \<in> set ps"
  shows "line_view (ls_lines st') q = line_view (ls_lines st) q"
proof -
  obtain l where l: "ls_lines st p = Some l" using run h by (auto simp: rb_linebuf_done_line_def split: bind_splits)
  have d: "\<And>q. q \<noteq> p \<Longrightarrow> ls_lines st' q = ls_lines st q"
    "ls_lines st' p = (if bl_refcount l = 1 then None else Some (l\<lparr>bl_refcount := bl_refcount l - 1\<rparr>))"
    using done_line_spec [OF h l] run by auto
  show ?thesis
  proof (cases "q = p")
    case True
    then have "count_list ps p > 0" using q by (metis count_list_0_iff gr0I)
    then have "bl_refcount l > 1" using refs_ok_Some [OF ok l] by (simp add: refs_Cons h)
    then show ?thesis using True d(2) l by (simp add: line_view_def line_data_def)
  next
    case False
    then show ?thesis using d(1) by (simp add: line_view_def)
  qed
qed

lemma done_line_queue [inv_intros]:
  assumes ok: "queue_ok h hs st" and h: "bh_list h = p # ps"
  shows "\<exists>h' st'. rb_linebuf_done_line h st = Some (h', st') \<and> queue_ok (h'\<lparr>bh_writeofs := 0\<rparr>) hs st' \<and>
     bh_list h' = ps \<and> len_error h' st' = len_error h st \<and>
     map (line_view (ls_lines st')) ps = map (line_view (ls_lines st)) ps"
proof -
  obtain l where l: "ls_lines st p = Some l" "line_ok l" using queue_live [OF ok, of p] h by auto
  obtain h' st' where d: "rb_linebuf_done_line h st = Some (h', st')" "bh_list h' = ps"
    "bh_len h' = bh_len h - int (bl_len l)" "\<And>q. q \<noteq> p \<Longrightarrow> ls_lines st' q = ls_lines st q"
    "ls_lines st' p = (if bl_refcount l = 1 then None else Some (l\<lparr>bl_refcount := bl_refcount l - 1\<rparr>))"
    using done_line_spec [OF h l(1)] by blast
  have r: "refs_ok (h # hs) st" using ok by (simp add: queue_ok_def)
  note v = done_line_view [OF r h d(1)]
  have "line_ok (l\<lparr>bl_refcount := n\<rparr>)" for n using l(2) by (simp add: line_ok_def line_data_def)
  then have "lines_ok (ls_lines st')"
    using ok d(4,5) unfolding lines_ok_def queue_ok_def by (metis option.distinct(1) option.inject)
  moreover have "refs_ok (h'\<lparr>bh_writeofs := 0\<rparr> # hs) st'"
    using done_line_refs [OF r d(1)] by simp
  moreover have "queued (ls_lines st') ps = queued (ls_lines st) ps"
  proof -
    have "(case ls_lines st' q of None \<Rightarrow> 0 | Some l \<Rightarrow> int (bl_len l)) =
        (case ls_lines st q of None \<Rightarrow> 0 | Some l \<Rightarrow> int (bl_len l))" if "q \<in> set ps" for q
    proof (cases "q = p")
      case True
      then have "count_list ps p > 0" using that by (metis count_list_0_iff gr0I)
      then have "bl_refcount l \<noteq> 1" using refs_ok_Some [OF r l(1)] h by (simp add: refs_Cons)
      then show ?thesis using True d(5) l(1) by simp
    qed (simp add: d(4))
    then show ?thesis by (simp add: queued_def cong: map_cong)
  qed
  moreover have "queued (ls_lines st) [p] = int (bl_len l)" using l(1) by (simp add: queued_def)
  ultimately show ?thesis
    using d(1,2,3) v h queued_append [of "ls_lines st" "[p]" ps]
    by (auto simp: queue_ok_def len_error_def split: list.splits)
qed

lemma flush_done_spec:
  "queue_ok h hs st \<Longrightarrow> x \<le> length (bh_list h) \<Longrightarrow>
   bh_writeofs h + xret \<le> length (concat (map (line_bytes (ls_lines st)) (take x (bh_list h)))) \<Longrightarrow>
   \<exists>h' st'. flush_done x xret h st = Some (h', st') \<and> queue_ok h' hs st' \<and>
     pending h' st' = drop xret (pending h st) \<and> len_error h' st' = len_error h st"
proof (induction x arbitrary: xret h st)
  case 0
  then show ?case by simp
next
  case (Suc x)
  then obtain p ps where h: "bh_list h = p # ps" by (cases "bh_list h") auto
  obtain l where l: "ls_lines st p = Some l" "line_ok l" "line_view (ls_lines st) p = (line_data l, bl_terminated l)"
    using queue_live [OF Suc.prems(1), of p] h by auto
  let ?rest = "concat (map (line_bytes (ls_lines st)) ps)"
  have wo: "bh_writeofs h \<le> bl_len l" using Suc.prems(1) h l by (simp add: queue_ok_def)
  have pend: "pending h st = drop (bh_writeofs h) (line_data l) @ ?rest"
    using wo l by (simp add: pending_def h)
  show ?case
  proof (cases "xret + bh_writeofs h \<ge> bl_len l")
    case True
    obtain h1 st1 where d: "rb_linebuf_done_line h st = Some (h1, st1)" "queue_ok (h1\<lparr>bh_writeofs := 0\<rparr>) hs st1"
      "bh_list h1 = ps" "len_error h1 st1 = len_error h st"
      "map (line_view (ls_lines st1)) ps = map (line_view (ls_lines st)) ps"
      using done_line_queue [OF Suc.prems(1) h] by blast
    let ?h = "h1\<lparr>bh_writeofs := 0\<rparr>" and ?x = "xret + bh_writeofs h - bl_len l"
    have same: "map (line_bytes (ls_lines st1)) qs = map (line_bytes (ls_lines st)) qs" if "set qs \<subseteq> set ps" for qs
      using line_bytes_cong [OF d(5) that] .
    have "pending ?h st1 = ?rest" using same [of ps] d(3) by (simp add: pending_def del: map_eq_conv)
    then have p1: "drop ?x (pending ?h st1) = drop xret (pending h st)"
      using True wo l(2) by (simp add: pend)
    have bound: "bh_writeofs ?h + ?x \<le> length (concat (map (line_bytes (ls_lines st1)) (take x (bh_list ?h))))"
      using Suc.prems(3) True h l wo same [of "take x ps"] d(3) set_take_subset [of x ps]
      by (simp del: length_concat map_eq_conv)
    have "x \<le> length (bh_list ?h)" using Suc.prems(2) h d(3) by simp
    from Suc.IH [OF d(2) this bound] obtain h' st' where "flush_done x ?x ?h st1 = Some (h', st')" "queue_ok h' hs st'"
      "pending h' st' = drop ?x (pending ?h st1)" "len_error h' st' = len_error ?h st1"
      by blast
    then show ?thesis using True h l(1) d(1,4) p1 by (simp add: len_error_def)
  next
    case False
    let ?h = "h\<lparr>bh_writeofs := bh_writeofs h + xret\<rparr>"
    have "pending ?h st = drop xret (pending h st)" by (simp add: pending_def add.commute)
    moreover have "queue_ok ?h hs st"
      using Suc.prems(1) False h l by (simp add: queue_ok_def)
    ultimately show ?thesis using False h l(1) by (simp add: len_error_def)
  qed
qed

text \<open>The scatter list is a prefix of the pending bytes, line by line.\<close>

lemma flush_rest_exact:
  "set ps \<subseteq> dom st \<Longrightarrow> flush_rest n ps st = Some (map (line_bytes st) (take n (takeWhile (\<lambda>p. snd (line_view st p)) ps)))"
  by (induction n ps st rule: flush_rest.induct) (auto simp: line_bytes_def line_view_def line_data_def)

lemma take_takeWhile_prefix: "take n (takeWhile P xs) = take (length (take n (takeWhile P xs))) xs"
  by (induction xs arbitrary: n) (auto simp: take_Cons split: nat.splits)

lemma take_takeWhile_le: "length (take n (takeWhile P xs)) \<le> length xs"
  using length_takeWhile_le [of P xs] by simp

text \<open>The part of the queue that is offered to \<^verbatim>\<open>writev\<close>: the unsent end of the first line and the complete lines behind it.\<close>

definition writev_vec :: "nat \<Rightarrow> buf_head \<Rightarrow> lstate \<Rightarrow> string list" where
  "writev_vec maxiov h st =
     (case map (line_bytes (ls_lines st)) (take maxiov (takeWhile (\<lambda>p. snd (line_view (ls_lines st) p)) (bh_list h))) of
        [] \<Rightarrow> [] | s # ss \<Rightarrow> drop (bh_writeofs h) s # ss)"

text \<open>
  C4: Flushing a send queue hands the kernel the completed lines at its front, at most maxiov (at
  least 1) of them, the first one from the write offset on, which are the first bytes of the
  pending output; it returns -1 when there are none and otherwise what the write returned, removes
  exactly the accepted bytes from the front of the pending output, whatever part of the vector was
  accepted, keeps the queue's invariant (reference counts, line buffers, write offset), and
  changes nothing when the write fails.
\<close>

theorem flush_writev_spec:
  assumes ok: "queue_ok h hs st" and wr: "\<And>v. wr v \<le> int (length (concat v))" and iov: "0 < maxiov"
  shows "\<exists>r h' st'. rb_linebuf_flush_writev maxiov wr h st = Some (r, h', st') \<and> queue_ok h' hs st' \<and> len_error h' st' = len_error h st \<and>
     (\<exists>rest. pending h st = concat (writev_vec maxiov h st) @ rest) \<and>
     r = (if writev_vec maxiov h st = [] then -1 else wr (writev_vec maxiov h st)) \<and>
     (if r \<le> 0 then h' = h \<and> st' = st else pending h' st' = drop (nat r) (pending h st))"
proof (cases "bh_list h")
  case Nil
  then show ?thesis using ok by (simp add: rb_linebuf_flush_writev_def writev_vec_def)
next
  case (Cons p ps)
  obtain l where l: "ls_lines st p = Some l" "line_ok l" "line_view (ls_lines st) p = (line_data l, bl_terminated l)"
    using queue_live [OF ok, of p] Cons by auto
  show ?thesis
  proof (cases "bl_terminated l")
    case False
    then show ?thesis using ok Cons l by (simp add: rb_linebuf_flush_writev_def writev_vec_def)
  next
    case True
    define k where "k = length (take (maxiov - 1) (takeWhile (\<lambda>p. snd (line_view (ls_lines st) p)) ps))"
    have ps: "set ps \<subseteq> dom (ls_lines st)" using refs_ok_live [of h hs st] ok Cons by (auto simp: queue_ok_def)
    have k: "take (maxiov - 1) (takeWhile (\<lambda>p. snd (line_view (ls_lines st) p)) ps) = take k ps" "k \<le> length ps"
      unfolding k_def by (rule take_takeWhile_prefix, rule take_takeWhile_le)
    let ?vec = "drop (bh_writeofs h) (line_data l) # map (line_bytes (ls_lines st)) (take k ps)"
    have vec: "writev_vec maxiov h st = ?vec"
      using iov True Cons l(3) k(1) by (cases maxiov) (simp_all add: writev_vec_def)
    have f: "flush_rest (maxiov - 1) ps (ls_lines st) = Some (map (line_bytes (ls_lines st)) (take k ps))"
      using flush_rest_exact [OF ps] k(1) by simp
    have wo: "bh_writeofs h \<le> length (line_data l)" using ok Cons l by (simp add: queue_ok_def)
    have pend: "pending h st = concat ?vec @ concat (map (line_bytes (ls_lines st)) (drop k ps))"
    proof -
      have "concat (map (line_bytes (ls_lines st)) ps) =
          concat (map (line_bytes (ls_lines st)) (take k ps)) @ concat (map (line_bytes (ls_lines st)) (drop k ps))"
        by (metis append_take_drop_id concat_append map_append)
      then show ?thesis using Cons l(3) wo by (simp add: pending_def)
    qed
    show ?thesis
    proof (cases "wr ?vec > 0")
      case False
      then show ?thesis using ok Cons l f True vec pend by (auto simp: rb_linebuf_flush_writev_def Let_def line_data_def)
    next
      case pos: True
      have tk: "concat (map (line_bytes (ls_lines st)) (take (Suc k) (bh_list h))) =
          line_data l @ concat (map (line_bytes (ls_lines st)) (take k ps))" using Cons l(3) by simp
      have "nat (wr ?vec) \<le> length (concat ?vec)" using wr [of ?vec] by linarith
      then have "bh_writeofs h + nat (wr ?vec) \<le> length (concat (map (line_bytes (ls_lines st)) (take (Suc k) (bh_list h))))"
        unfolding tk using wo by (simp del: length_concat)
      then obtain h' st' where d: "flush_done (Suc k) (nat (wr ?vec)) h st = Some (h', st')" "queue_ok h' hs st'"
        "pending h' st' = drop (nat (wr ?vec)) (pending h st)" "len_error h' st' = len_error h st"
        using flush_done_spec [OF ok, of "Suc k" "nat (wr ?vec)"] k(2) Cons by auto
      have "rb_linebuf_flush_writev maxiov wr h st = Some (wr ?vec, h', st')"
        using d(1) pos True Cons l f k(2) by (simp add: rb_linebuf_flush_writev_def Let_def line_data_def)
      then show ?thesis using d(2,3,4) pos vec pend by auto
    qed
  qed
qed

lemma flush_write_spec:
  assumes ok: "queue_ok h hs st" and wr: "\<And>v. wr v \<le> int (length v)"
  shows "\<exists>r h' st'. rb_linebuf_flush_write wr h st = Some (r, h', st') \<and> queue_ok h' hs st' \<and>
     len_error h' st' = len_error h st \<and>
     (if r \<le> 0 then h' = h \<and> st' = st else pending h' st' = drop (nat r) (pending h st))"
proof (cases "bh_list h")
  case Nil
  then show ?thesis using ok by (simp add: rb_linebuf_flush_write_def)
next
  case (Cons p ps)
  obtain l where l: "ls_lines st p = Some l" "line_ok l" "line_view (ls_lines st) p = (line_data l, bl_terminated l)"
    using queue_live [OF ok, of p] Cons by auto
  let ?v = "drop (bh_writeofs h) (line_data l)"
  let ?h = "h\<lparr>bh_writeofs := bh_writeofs h + nat (wr ?v)\<rparr>"
  have wo: "bh_writeofs h \<le> bl_len l" using ok Cons l by (simp add: queue_ok_def)
  have n: "bh_writeofs h + nat (wr ?v) \<le> bl_len l" using wr [of ?v] wo l(2) by simp
  have pend: "pending ?h st = drop (nat (wr ?v)) (pending h st)" by (simp add: pending_def add.commute)
  have okh: "queue_ok ?h hs st" using ok Cons l n by (simp add: queue_ok_def)
  show ?thesis
  proof (cases "bl_terminated l \<and> wr ?v > 0")
    case False
    then show ?thesis using ok Cons l by (auto simp: rb_linebuf_flush_write_def Let_def line_data_def)
  next
    case True
    show ?thesis
    proof (cases "bh_writeofs ?h = bl_len l")
      case False
      then show ?thesis
        using True okh Cons l pend by (simp add: rb_linebuf_flush_write_def Let_def line_data_def len_error_def)
    next
      case full: True
      have "queue_ok (h\<lparr>bh_writeofs := 0\<rparr>) hs st" using ok Cons by (simp add: queue_ok_def)
      from done_line_queue [OF this, of p ps] Cons obtain h' st' where
        d: "rb_linebuf_done_line (h\<lparr>bh_writeofs := 0\<rparr>) st = Some (h', st')" "queue_ok (h'\<lparr>bh_writeofs := 0\<rparr>) hs st'"
        "bh_list h' = ps" "len_error h' st' = len_error (h\<lparr>bh_writeofs := 0\<rparr>) st"
        "map (line_view (ls_lines st')) ps = map (line_view (ls_lines st)) ps" by auto
      have w0: "h'\<lparr>bh_writeofs := 0\<rparr> = h'"
        using d(1) Cons l(1) by (auto simp: rb_linebuf_done_line_def Let_def split: if_splits)
      have "pending h' st' = concat (map (line_bytes (ls_lines st)) ps)"
      proof -
        have "bh_writeofs h' = 0" using w0 by (metis buf_head.select_convs(4) buf_head.surjective buf_head.update_convs(4))
        moreover have "map (line_bytes (ls_lines st')) ps = map (line_bytes (ls_lines st)) ps"
          using line_bytes_cong [OF d(5) order_refl] .
        ultimately show ?thesis using d(3) by (simp add: pending_def del: map_eq_conv)
      qed
      also have "\<dots> = drop (nat (wr ?v)) (pending h st)"
        unfolding pend [symmetric] using full Cons l by (simp add: pending_def)
      finally show ?thesis
        using True full Cons l d(1,2,4) w0
        by (simp add: rb_linebuf_flush_write_def Let_def line_data_def len_error_def)
    qed
  qed
qed


section \<open>Parsing a stream\<close>

text \<open>Bytes without an end of line, put in front of the data, only lengthen the first line.\<close>

lemma open_line_append:
  assumes "list_all (\<lambda>c. \<not> is_crlf c) d"
  shows "line_body (d @ data) = d @ line_body data" and "line_eol (d @ data) = line_eol data"
    and "rb_linebuf_skip_crlf (d @ data) = length d + rb_linebuf_skip_crlf data"
proof -
  have d: "\<forall>c \<in> set d. \<not> is_crlf c" using assms by (simp add: list_all_iff)
  show b: "line_body (d @ data) = d @ line_body data" using d by (simp add: line_body_def)
  show e: "line_eol (d @ data) = line_eol data" using d by (simp add: line_eol_def)
  show "rb_linebuf_skip_crlf (d @ data) = length d + rb_linebuf_skip_crlf data"
    by (simp add: skip_crlf_eq b e)
qed

lemma parsed_lines_open:
  assumes "list_all (\<lambda>c. \<not> is_crlf c) d" "data \<noteq> []"
  shows "parsed_lines (d @ data) =
     (if length d + rb_linebuf_skip_crlf data \<le> BUF_DATA_SIZE - 1
      then (d @ line_body data, line_eol data \<noteq> [])
      else (nul_eol (take (BUF_DATA_SIZE - 1) (d @ data)), True))
     # parsed_lines (drop (rb_linebuf_skip_crlf data) data)"
  using assms(2) by (subst parsed_lines.simps) (simp add: open_line_append [OF assms(1)])

lemma copy_open:
  assumes l: "ls_lines st p = Some l" "\<not> bl_terminated l" "line_ok l"
    and ne: "data \<noteq> []" and nf: "no_flood (line_data l @ data)"
  shows "\<exists>l' h'. rb_linebuf_copy_line h p data st = Some (rb_linebuf_skip_crlf data, h', set_line p l' st) \<and>
    (line_data l', bl_terminated l') = hd (parsed_lines (line_data l @ data)) \<and> line_ok l' \<and> bh_list h' = bh_list h"
proof -
  have len: "length (line_data l) = bl_len l" using l(3) by simp
  have d: "list_all (\<lambda>c. \<not> is_crlf c) (line_data l)" using l(2,3) by (simp add: line_ok_def)
  have le: "bl_len l < BUF_DATA_SIZE" using l(2,3) by (simp add: line_ok_def BUF_DATA_SIZE_def)
  show ?thesis
  proof (cases "rb_linebuf_skip_crlf data \<le> BUF_DATA_SIZE - bl_len l - 1")
    case True
    then have "length (line_data l) + rb_linebuf_skip_crlf data \<le> BUF_DATA_SIZE - 1" using le len by simp
    then show ?thesis
      using copy_line_partial [OF l ne True, of h] copy_line_complete [OF l True, of h] parsed_lines_open [OF d ne]
      by (cases "line_eol data = []") force+
  next
    case False
    then have cut: "\<not> length (line_data l) + rb_linebuf_skip_crlf data \<le> BUF_DATA_SIZE - 1" using len by simp
    have "takeWhile is_crlf (drop (length (line_data l)) (line_data l @ data)) = takeWhile is_crlf data" by simp
    then have "length (takeWhile is_crlf data) < BUF_DATA_SIZE" using nf unfolding no_flood_def by metis
    then show ?thesis
      using copy_line_cut [OF l, of data h] False cut parsed_lines_open [OF d ne] by force
  qed
qed

text \<open>
  Reading in pieces: when the last queued line is still open, the bytes that arrive continue it,
  and the queue holds the lines of the joined text.
\<close>

lemma parse_stream:
  assumes q: "bh_list h = qs @ [p]" "p \<notin> set qs" "set qs \<subseteq> dom (ls_lines st)"
    and l: "ls_lines st p = Some l" "\<not> bl_terminated l"
    and data: "data \<noteq> []" "no_flood (line_data l @ data)"
    and st: "lines_ok (ls_lines st)" "finite (dom (ls_lines st))" "allocator fresh"
  shows "\<exists>n h' st' ps. rb_linebuf_parse fresh h data False st = Some (n, h', st') \<and> bh_list h' = qs @ p # ps \<and>
     map (line_view (ls_lines st')) (p # ps) = parsed_lines (line_data l @ data) \<and>
     n = int (length (p # ps)) \<and> map (line_view (ls_lines st')) qs = map (line_view (ls_lines st)) qs"
proof -
  have lok: "line_ok l" using st(1) l(1) by (simp add: lines_ok_def)
  have d: "list_all (\<lambda>c. \<not> is_crlf c) (line_data l)" using l(2) lok by (simp add: line_ok_def)
  let ?n = "rb_linebuf_skip_crlf data"
  obtain l' h1 where c: "rb_linebuf_copy_line h p data st = Some (?n, h1, set_line p l' st)"
    "(line_data l', bl_terminated l') = hd (parsed_lines (line_data l @ data))" "line_ok l'" "bh_list h1 = bh_list h"
    using copy_open [OF l lok data] by blast
  let ?st = "set_line p l' st"
  have pl: "parsed_lines (line_data l @ data) = hd (parsed_lines (line_data l @ data)) # parsed_lines (drop ?n data)"
    using parsed_lines_open [OF d data(1)] by simp
  have keep: "map (line_view (ls_lines s)) qs = map (line_view (ls_lines st)) qs"
    if "\<forall>q m. ls_lines ?st q = Some m \<longrightarrow> ls_lines s q = Some m" for s
  proof (rule map_cong [OF refl])
    fix x assume "x \<in> set qs"
    then obtain m where "ls_lines st x = Some m" "x \<noteq> p" using q by blast
    with that show "line_view (ls_lines s) x = line_view (ls_lines st) x" by (simp add: line_view_def)
  qed
  show ?thesis
  proof (cases "?n = length data")
    case True
    then have "rb_linebuf_parse fresh h data False st = Some (1, h1, ?st)"
      using c(1) q(1) by (simp add: rb_linebuf_parse_def copy_into_def)
    moreover have "map (line_view (ls_lines ?st)) [p] = parsed_lines (line_data l @ data)"
      using c(2) True by (subst pl) (simp add: line_view_def parsed_lines.simps)
    ultimately show ?thesis using c(4) q(1) keep [of ?st]
      by (intro exI [of _ 1] exI [of _ h1] exI [of _ ?st] exI [of _ "[]"]) simp
  next
    case False
    have "no_flood (drop ?n data)"
      using no_flood_drop [OF data(2), of "length (line_data l) + ?n"] by simp
    moreover have "lines_ok (ls_lines ?st)" "finite (dom (ls_lines ?st))" using st(1,2) c(3) by (simp_all add: lines_ok_def)
    ultimately obtain h' st' ps where
      r: "parse_loop (length data) fresh False h1 (drop ?n data) 1 ?st = Some (1 + int (length ps), h', st')"
      "bh_list h' = bh_list h1 @ ps" "map (line_view (ls_lines st')) ps = parsed_lines (drop ?n data)"
      "\<forall>q m. ls_lines ?st q = Some m \<longrightarrow> q \<notin> set ps \<and> ls_lines st' q = Some m"
      using parse_loop_spec [of "drop ?n data" "length data" ?st fresh h1 1] st(3) by auto
    have "rb_linebuf_parse fresh h data False st = Some (1 + int (length ps), h', st')"
      using c(1) q(1) r(1) False by (simp add: rb_linebuf_parse_def copy_into_def)
    moreover have "ls_lines st' p = Some l'" using r(4) by simp
    then have "map (line_view (ls_lines st')) (p # ps) = parsed_lines (line_data l @ data)"
      using c(2) r(3) by (subst pl) (simp add: line_view_def)
    ultimately show ?thesis using r(2,4) c(4) q(1) keep [of st']
      by (intro exI [of _ "1 + int (length ps)"] exI [of _ h'] exI [of _ st'] exI [of _ ps]) auto
  qed
qed

text \<open>The reference reads the text character by character: a piece is a run of other bytes with the run of line ends behind it.\<close>

fun text_pieces :: "string \<Rightarrow> string \<Rightarrow> string \<Rightarrow> (string \<times> string) list" where
  "text_pieces b e [] = (if b = [] \<and> e = [] then [] else [(b, e)])"
| "text_pieces b e (c # cs) =
     (if c = CR \<or> c = LF then text_pieces b (e @ [c]) cs
      else if e = [] then text_pieces (b @ [c]) [] cs
      else (b, e) # text_pieces [c] [] cs)"

definition piece_line :: "string \<times> string \<Rightarrow> string \<times> bool" where
  "piece_line p = (case p of (b, e) \<Rightarrow>
     if length b + length e \<le> 510 then (b, e \<noteq> []) else (take 510 (b @ replicate (length e) NUL), True))"

definition text_lines :: "string \<Rightarrow> (string \<times> bool) list" where
  "text_lines text = map piece_line (text_pieces [] [] text)"

lemma text_pieces_eol:
  "list_all is_crlf e \<Longrightarrow> e \<noteq> [] \<Longrightarrow>
   text_pieces b e data = (b, e @ takeWhile is_crlf data) # text_pieces [] [] (dropWhile is_crlf data)"
  by (induction data arbitrary: e) (auto simp: is_crlf_def)

lemma text_pieces_body:
  "list_all (\<lambda>c. \<not> is_crlf c) b \<Longrightarrow> b @ data \<noteq> [] \<Longrightarrow>
   text_pieces b [] data = (b @ line_body data, line_eol data) # text_pieces [] [] (drop (rb_linebuf_skip_crlf data) data)"
proof (induction data arbitrary: b)
  case Nil
  then show ?case by (simp add: line_body_def line_eol_def)
next
  case (Cons c cs)
  show ?case
  proof (cases "is_crlf c")
    case True
    then have "text_pieces b [] (c # cs) = text_pieces b [c] cs" by (auto simp: is_crlf_def)
    moreover have "drop (rb_linebuf_skip_crlf (c # cs)) (c # cs) = dropWhile is_crlf cs"
      using True by (simp add: rb_linebuf_skip_crlf_def Let_def drop_takeWhile_length)
    ultimately show ?thesis using True text_pieces_eol [of "[c]" b cs] by (simp add: line_body_def line_eol_def)
  next
    case False
    then have "text_pieces b [] (c # cs) = text_pieces (b @ [c]) [] cs" by (auto simp: is_crlf_def)
    then show ?thesis using Cons.IH [of "b @ [c]"] Cons.prems False
      by (simp add: line_body_def line_eol_def rb_linebuf_skip_crlf_def Let_def)
  qed
qed

lemma nul_eol_take:
  assumes "list_all (\<lambda>c. \<not> is_crlf c) b" "list_all is_crlf e"
  shows "nul_eol (take n (b @ e)) = take n (b @ replicate (length e) NUL)"
proof -
  have "takeWhile is_crlf (rev (take n b) ) = []" if "n \<noteq> 0 \<or> True"
    using assms(1) by (cases "rev (take n b)") (auto simp: list_all_iff dest!: in_set_takeD arg_cong [where f = set])
  moreover have "takeWhile is_crlf (rev (take k e) @ rev (take n b)) = rev (take k e)" for k
  proof -
    have "list_all is_crlf (rev (take k e))" using assms(2) by (auto simp: list_all_iff dest: in_set_takeD)
    then show ?thesis using calculation by (simp add: takeWhile_append list_all_iff)
  qed
  ultimately show ?thesis by (simp add: nul_eol_def Let_def take_replicate min_def)
qed

lemma parsed_text_lines: "parsed_lines data = text_lines data"
proof (induction data rule: length_induct)
  case (1 data)
  show ?case
  proof (cases "data = []")
    case True
    then show ?thesis by (simp add: parsed_lines.simps text_lines_def)
  next
    case False
    let ?n = "rb_linebuf_skip_crlf data"
    have "length (drop ?n data) < length data" using False skip_crlf_pos [OF False] by simp
    then have ih: "parsed_lines (drop ?n data) = text_lines (drop ?n data)" using 1 by blast
    have p: "text_pieces [] [] data = (line_body data, line_eol data) # text_pieces [] [] (drop ?n data)"
      using text_pieces_body [of "[]" data] False by simp
    have n: "?n = length (line_body data) + length (line_eol data)" by (rule skip_crlf_eq)
    have b: "list_all (\<lambda>c. \<not> is_crlf c) (line_body data)" by (auto simp: line_body_def list_all_iff dest: set_takeWhileD)
    have cut: "take 510 data = take 510 (line_body data @ line_eol data)" if "\<not> ?n \<le> 510"
      using that take_skip_crlf [of data] by (metis min_def nat_le_linear take_take)
    show ?thesis
      using False ih p cut nul_eol_take [OF b line_eol_crlf, of 510 data]
      by (subst parsed_lines.simps) (auto simp: text_lines_def piece_line_def n BUF_DATA_SIZE_def)
  qed
qed

text \<open>
  C3: When bytes arrive for a connection that is read in parsed mode (raw is 0) while the last
  queued line is still open, rb_linebuf_parse continues that line, and the queue then holds
  exactly the lines of the joined text, read byte by byte: runs of CR and LF separate the lines, a
  line that does not fit 510 bytes with its line end is cut there (line-end bytes inside it are
  NULs), the last one is open when no end of line was seen; earlier lines are untouched and the
  count returned is the number of lines. No run of 511 or more CR/LF bytes is in the text.
\<close>

theorem linebuf_parse_stream:
  assumes "bh_list h = qs @ [p]" "p \<notin> set qs" "set qs \<subseteq> dom (ls_lines st)"
    and "ls_lines st p = Some l" "\<not> bl_terminated l"
    and "data \<noteq> []" "no_flood (line_data l @ data)"
    and "lines_ok (ls_lines st)" "finite (dom (ls_lines st))" "allocator fresh"
  shows "\<exists>n h' st' ps. rb_linebuf_parse fresh h data False st = Some (n, h', st') \<and> bh_list h' = qs @ p # ps \<and>
     map (line_view (ls_lines st')) (p # ps) = text_lines (line_data l @ data) \<and>
     n = int (length (p # ps)) \<and> map (line_view (ls_lines st')) qs = map (line_view (ls_lines st)) qs"
  using parse_stream [OF assms] unfolding parsed_text_lines .

definition next_line :: "lstore \<Rightarrow> lptr" where
  "next_line s = Suc (Max (insert 0 (dom s)))"

lemma allocator_next_line: "allocator next_line"
proof (unfold allocator_def, intro allI impI)
  fix s :: lstore assume f: "finite (dom s)"
  have "q < next_line s" if "q \<in> dom s" for q
    using f that unfolding next_line_def by (meson Max_ge finite_insert insertCI le_imp_less_Suc)
  then show "next_line s \<notin> dom s" by blast
qed

definition open_line :: "string \<Rightarrow> buf_line" where
  "open_line s = zero_line\<lparr>bl_buf := s @ replicate (513 - length s) NUL, bl_len := length s, bl_refcount := 1\<rparr>"

theorem linebuf_parse_stream_witness:
  "\<exists>n h' st'. rb_linebuf_parse next_line (rb_linebuf_newbuf\<lparr>bh_list := [0]\<rparr>) (''NG'' @ CR # LF # ''X'') False
       \<lparr>ls_lines = [0 \<mapsto> open_line ''PI''], ls_bufline_count = 1\<rparr> = Some (n, h', st') \<and>
     map (line_view (ls_lines st')) (bh_list h') = [(''PING'', True), (''X'', False)]"
proof -
  let ?st = "\<lparr>ls_lines = [0 \<mapsto> open_line ''PI''], ls_bufline_count = 1\<rparr>"
  have d: "line_data (open_line ''PI'') = ''PI''" by (simp add: open_line_def line_data_def)
  have ok: "line_ok (open_line ''PI'')" "\<not> bl_terminated (open_line ''PI'')"
    by (simp_all add: line_ok_def d is_crlf_def CR_def LF_def)
      (simp_all add: open_line_def zero_line_def BUF_DATA_SIZE_def)
  have "no_flood (''PI'' @ ''NG'' @ CR # LF # ''X'')" by (rule no_flood_short) (simp add: BUF_DATA_SIZE_def)
  moreover have "text_lines (''PI'' @ ''NG'' @ CR # LF # ''X'') = [(''PING'', True), (''X'', False)]"
    by (simp add: text_lines_def piece_line_def CR_def LF_def)
  moreover have "lines_ok (ls_lines ?st)" using ok by (simp add: lines_ok_def)
  ultimately show ?thesis
    using linebuf_parse_stream [of "rb_linebuf_newbuf\<lparr>bh_list := [0]\<rparr>" "[]" 0 ?st "open_line ''PI''" "''NG'' @ CR # LF # ''X''" next_line]
      ok(2) allocator_next_line by (auto simp: d)
qed

lemma open_line_facts:
  assumes "list_all (\<lambda>c. \<not> is_crlf c) s" "length s < BUF_DATA_SIZE"
  shows "line_data (open_line s) = s" "line_ok (open_line s)" "\<not> bl_terminated (open_line s)" "\<not> bl_raw (open_line s)"
    "bl_len (open_line s) = length s" "bl_refcount (open_line s) = 1"
  using assms by (simp_all add: open_line_def line_data_def line_ok_def zero_line_def BUF_DATA_SIZE_def)

theorem copy_line_flood_witness:
  "rb_linebuf_copy_line rb_linebuf_newbuf 0 (replicate 511 LF) \<lparr>ls_lines = [0 \<mapsto> open_line []], ls_bufline_count = 1\<rparr> = None"
proof (rule copy_line_flood)
  show "ls_lines \<lparr>ls_lines = [0 \<mapsto> open_line []], ls_bufline_count = 1\<rparr> 0 = Some (open_line [])" by simp
  have "takeWhile is_crlf (replicate 511 LF) = replicate 511 LF"
    by (simp only: takeWhile_eq_all_conv set_replicate_conv_if) (simp add: is_crlf_def)
  then show "BUF_DATA_SIZE \<le> length (takeWhile is_crlf (replicate 511 LF))"
    by (simp only: BUF_DATA_SIZE_def length_replicate order_refl)
qed (simp_all add: open_line_facts BUF_DATA_SIZE_def)

theorem copy_line_cut_error_witness:
  "\<exists>n h' st'. rb_linebuf_copy_line (rb_linebuf_newbuf\<lparr>bh_list := [0]\<rparr>) 0 (replicate 600 CHR ''x'')
       \<lparr>ls_lines = [0 \<mapsto> open_line ''PI''], ls_bufline_count = 1\<rparr> = Some (n, h', st') \<and>
     len_error h' st' = len_error (rb_linebuf_newbuf\<lparr>bh_list := [0]\<rparr>)
       \<lparr>ls_lines = [0 \<mapsto> open_line ''PI''], ls_bufline_count = 1\<rparr> + 2"
proof -
  have o: "list_all (\<lambda>c. \<not> is_crlf c) ''PI''" by (simp add: is_crlf_def CR_def LF_def)
  have "line_body (replicate 600 CHR ''x'') = replicate 600 CHR ''x''"
    unfolding line_body_def by (simp only: takeWhile_eq_all_conv set_replicate_conv_if) (simp add: is_crlf_def CR_def LF_def)
  then have "rb_linebuf_skip_crlf (replicate 600 CHR ''x'') \<ge> 600" unfolding skip_crlf_eq by (simp only: length_replicate le_add1)
  then show ?thesis
    using copy_line_cut_error [of "\<lparr>ls_lines = [0 \<mapsto> open_line ''PI''], ls_bufline_count = 1\<rparr>" 0 "open_line ''PI''"
        "replicate 600 CHR ''x''" "rb_linebuf_newbuf\<lparr>bh_list := [0]\<rparr>" "[]"]
    by (simp add: open_line_facts [OF o] BUF_DATA_SIZE_def)
qed

theorem donebuf_refs_witness:
  "\<exists>h' st'. rb_linebuf_donebuf (rb_linebuf_newbuf\<lparr>bh_list := [0]\<rparr>)
       \<lparr>ls_lines = [0 \<mapsto> open_line ''PI''], ls_bufline_count = 1\<rparr> = Some (h', st') \<and> refs_ok [h'] st' \<and> bh_list h' = []"
proof (rule donebuf_refs)
  show "refs_ok [rb_linebuf_newbuf\<lparr>bh_list := [0]\<rparr>] \<lparr>ls_lines = [0 \<mapsto> open_line ''PI''], ls_bufline_count = 1\<rparr>"
    by (simp add: refs_ok_def refs_def open_line_def)
qed

definition sent_line :: "string \<Rightarrow> buf_line" where
  "sent_line s = (open_line s)\<lparr>bl_terminated := True\<rparr>"

lemma sent_line_facts:
  assumes "length s < BUF_DATA_SIZE"
  shows "line_data (sent_line s) = s" "line_ok (sent_line s)" "bl_terminated (sent_line s)" "\<not> bl_raw (sent_line s)"
    "bl_len (sent_line s) = length s" "bl_refcount (sent_line s) = 1"
  using assms by (simp_all add: sent_line_def open_line_def line_data_def line_ok_def zero_line_def BUF_DATA_SIZE_def)

theorem get_spec_witness:
  "\<exists>h' st'. rb_linebuf_get (rb_linebuf_newbuf\<lparr>bh_list := [0]\<rparr>) 512 False False
     \<lparr>ls_lines = [0 \<mapsto> sent_line ''PING''], ls_bufline_count = 1\<rparr> = Some (''PING'', 4, h', st')"
  using get_spec [of "rb_linebuf_newbuf\<lparr>bh_list := [0]\<rparr>" 0 "[]"
      "\<lparr>ls_lines = [0 \<mapsto> sent_line ''PING''], ls_bufline_count = 1\<rparr>" "sent_line ''PING''" 512 False]
  by (auto simp: sent_line_facts BUF_DATA_SIZE_def)

theorem putbuf_spec_witness:
  "\<exists>l h' st'. rb_linebuf_putbuf next_line rb_linebuf_newbuf (Some ''PONG x'') \<lparr>ls_lines = (\<lambda>_. None), ls_bufline_count = 0\<rparr> = Some (h', st') \<and>
     ls_lines st' 1 = Some l \<and> line_data l = ''PONG x'' @ [CR, LF]"
  using putbuf_spec [of "''PONG x''" next_line rb_linebuf_newbuf "\<lparr>ls_lines = (\<lambda>_. None), ls_bufline_count = 0\<rparr>"]
  by (auto simp: cstring_def NUL_def chop_eol_def is_crlf_def CR_def LF_def next_line_def put_text_def)

theorem flush_writev_spec_witness:
  "\<exists>h' st'. rb_linebuf_flush_writev 8 (\<lambda>v. min 3 (int (length (concat v)))) (rb_linebuf_newbuf\<lparr>bh_list := [0]\<rparr>)
       \<lparr>ls_lines = [0 \<mapsto> sent_line ''PING''], ls_bufline_count = 1\<rparr> = Some (3, h', st') \<and> queue_ok h' [] st' \<and> pending h' st' = ''G''"
proof -
  let ?h = "rb_linebuf_newbuf\<lparr>bh_list := [0]\<rparr>" and ?st = "\<lparr>ls_lines = [0 \<mapsto> sent_line ''PING''], ls_bufline_count = 1\<rparr>"
  let ?wr = "\<lambda>v. min 3 (int (length (concat v)))"
  have "queue_ok ?h [] ?st"
    by (simp add: queue_ok_def refs_ok_def refs_def lines_ok_def sent_line_facts BUF_DATA_SIZE_def rb_linebuf_newbuf_def)
  then obtain r h' st' where f: "rb_linebuf_flush_writev 8 ?wr ?h ?st = Some (r, h', st')" "queue_ok h' [] st'"
    "r = (if writev_vec 8 ?h ?st = [] then -1 else ?wr (writev_vec 8 ?h ?st))"
    "if r \<le> 0 then h' = ?h \<and> st' = ?st else pending h' st' = drop (nat r) (pending ?h ?st)"
    using flush_writev_spec [of ?h "[]" ?st ?wr 8] by force
  have "writev_vec 8 ?h ?st = [''PING'']" and p: "pending ?h ?st = ''PING''"
    by (simp_all add: writev_vec_def pending_def line_bytes_def line_view_def sent_line_facts BUF_DATA_SIZE_def rb_linebuf_newbuf_def)
  with f(3) have r: "r = 3" by simp
  show ?thesis using f(1,2,4) p unfolding r by simp
qed

end
