(* ===== verification/Channel.thy ===== *)
theory Channel
  imports Hash
begin

text \<open>
  Channels and memberships, \<^verbatim>\<open>libratboxcore/channel.c\<close>.  The state is the store of clients, channels and
  memberships with the global list of channels and the hash tables.  A membership is linked in
  three lists: the user's, the channel's, and the channel's local one; \<^verbatim>\<open>rb_dlinkDelete\<close> of a node that is
  not in the list is a fault.
\<close>

record cworld =
  cw_clients :: "ptr \<rightharpoonup> Client"
  cw_channels :: "ptr \<rightharpoonup> Channel"
  cw_members :: "ptr \<rightharpoonup> membership"
  cw_glist :: "ptr list"
  cw_tabs :: hashtabs
  cw_confs :: "ptr \<rightharpoonup> ConfItem"
  cw_me :: ptr

definition CHFL_PEON :: "8 word" where "CHFL_PEON = 0"
definition CHFL_CHANOP :: "8 word" where "CHFL_CHANOP = 0x01"
definition CHFL_HALFOP :: "8 word" where "CHFL_HALFOP = 0x02"
definition CHFL_VOICE :: "8 word" where "CHFL_VOICE = 0x04"
definition CHFL_DEOPPED :: "8 word" where "CHFL_DEOPPED = 0x08"
definition CHFL_BANNED :: "8 word" where "CHFL_BANNED = 0x10"

definition is_chanop :: "membership \<Rightarrow> bool" where "is_chanop m \<longleftrightarrow> ms_flags m AND CHFL_CHANOP \<noteq> 0"
definition is_halfop :: "membership \<Rightarrow> bool" where "is_halfop m \<longleftrightarrow> ms_flags m AND CHFL_HALFOP \<noteq> 0"
definition is_voiced :: "membership \<Rightarrow> bool" where "is_voiced m \<longleftrightarrow> ms_flags m AND CHFL_VOICE \<noteq> 0"
definition is_chanop_voiced :: "membership \<Rightarrow> bool" where
  "is_chanop_voiced m \<longleftrightarrow> ms_flags m AND (CHFL_CHANOP OR CHFL_HALFOP OR CHFL_VOICE) \<noteq> 0"
definition can_send_banned :: "membership \<Rightarrow> bool" where
  "can_send_banned m \<longleftrightarrow> ms_flags m AND CHFL_BANNED \<noteq> 0"

definition MODE_PRIVATE :: "32 word" where "MODE_PRIVATE = 0x0001"
definition MODE_SECRET :: "32 word" where "MODE_SECRET = 0x0002"
definition MODE_MODERATED :: "32 word" where "MODE_MODERATED = 0x0004"
definition MODE_TOPICLIMIT :: "32 word" where "MODE_TOPICLIMIT = 0x0008"
definition MODE_INVITEONLY :: "32 word" where "MODE_INVITEONLY = 0x0010"
definition MODE_NOPRIVMSGS :: "32 word" where "MODE_NOPRIVMSGS = 0x0020"
definition MODE_REGONLY :: "32 word" where "MODE_REGONLY = 0x0040"
definition MODE_SSLONLY :: "32 word" where "MODE_SSLONLY = 0x0080"
definition MODE_SPAMPLEASE :: "32 word" where "MODE_SPAMPLEASE = 0x0100"

section \<open>Store access\<close>

definition set_client :: "ptr \<Rightarrow> Client \<Rightarrow> cworld \<Rightarrow> cworld" where
  "set_client p c w = w\<lparr>cw_clients := (cw_clients w)(p \<mapsto> c)\<rparr>"

definition set_channel :: "ptr \<Rightarrow> Channel \<Rightarrow> cworld \<Rightarrow> cworld" where
  "set_channel p c w = w\<lparr>cw_channels := (cw_channels w)(p \<mapsto> c)\<rparr>"

lemma set_client_fields [simp]:
  "cw_clients (set_client p c w) = (cw_clients w)(p \<mapsto> c)" "cw_channels (set_client p c w) = cw_channels w"
  "cw_members (set_client p c w) = cw_members w" "cw_glist (set_client p c w) = cw_glist w"
  "cw_tabs (set_client p c w) = cw_tabs w" "cw_confs (set_client p c w) = cw_confs w"
  "cw_me (set_client p c w) = cw_me w"
  by (simp_all add: set_client_def)

lemma set_channel_fields [simp]:
  "cw_channels (set_channel p c w) = (cw_channels w)(p \<mapsto> c)" "cw_clients (set_channel p c w) = cw_clients w"
  "cw_members (set_channel p c w) = cw_members w" "cw_glist (set_channel p c w) = cw_glist w"
  "cw_tabs (set_channel p c w) = cw_tabs w" "cw_confs (set_channel p c w) = cw_confs w"
  "cw_me (set_channel p c w) = cw_me w"
  by (simp_all add: set_channel_def)

lemma set_commute:
  "set_client p c (w\<lparr>cw_members := ms\<rparr>) = (set_client p c w)\<lparr>cw_members := ms\<rparr>"
  "set_channel q d (w\<lparr>cw_members := ms\<rparr>) = (set_channel q d w)\<lparr>cw_members := ms\<rparr>"
  "set_client p c (set_channel q d w) = set_channel q d (set_client p c w)"
  by (cases w; simp add: set_client_def set_channel_def)+

text \<open>\<^verbatim>\<open>rb_dlinkDelete\<close> of the node that holds \<open>x\<close>.\<close>

definition dlink_del :: "ptr \<Rightarrow> ptr list \<Rightarrow> ptr list option" where
  "dlink_del x xs = (if x \<in> set xs then Some (remove1 x xs) else None)"

section \<open>Finding memberships\<close>

definition find_channel_membership :: "ptr \<Rightarrow> ptr \<Rightarrow> cworld \<Rightarrow> ptr option option" where
  "find_channel_membership chptr client_p w = do {
     c \<leftarrow> cw_clients w client_p;
     if \<not> IsClient c then Some None
     else do {
       ch \<leftarrow> cw_channels w chptr;
       chans \<leftarrow> cl_user c;
       if length (ch_members ch) < length chans
       then foreach_find (cw_members w) (\<lambda>m. ms_client_p m = client_p) (ch_members ch)
       else foreach_find (cw_members w) (\<lambda>m. ms_chptr m = chptr) chans
     }
   }"

definition find_channel_status :: "membership \<Rightarrow> bool \<Rightarrow> string" where
  "find_channel_status m combine =
     (if is_chanop m \<and> \<not> combine then ''@''
      else let p = (if is_chanop m then ''@'' else [])
           in if is_halfop m \<and> \<not> combine then ''%''
              else let p = p @ (if is_halfop m then ''%'' else [])
                   in p @ (if is_voiced m then ''+'' else []))"

section \<open>Joining\<close>

definition add_user_to_channel :: "ptr \<Rightarrow> ptr \<Rightarrow> ptr \<Rightarrow> 8 word \<Rightarrow> cworld \<Rightarrow> cworld option" where
  "add_user_to_channel new chptr client_p flags w = do {
     c \<leftarrow> cw_clients w client_p;
     case cl_user c of
       None \<Rightarrow> Some w
     | Some chans \<Rightarrow> do {
         ch \<leftarrow> cw_channels w chptr;
         let m = \<lparr>ms_chptr = chptr, ms_client_p = client_p, ms_flags = flags, ms_ban_serial = 0\<rparr>;
         let ch = ch\<lparr>ch_members := new # ch_members ch\<rparr>;
         let ch = (if MyClient c then ch\<lparr>ch_locmembers := new # ch_locmembers ch\<rparr> else ch);
         Some (set_client client_p (c\<lparr>cl_user := Some (new # chans)\<rparr>)
                (set_channel chptr ch (w\<lparr>cw_members := (cw_members w)(new \<mapsto> m)\<rparr>)))
       }
   }"

section \<open>Destroying channels\<close>

text \<open>\<^verbatim>\<open>del_invite()\<close>: both directions of the invitation; \<open>who\<close> must be a local client.\<close>

definition del_invite :: "ptr \<Rightarrow> ptr \<Rightarrow> cworld \<Rightarrow> cworld option" where
  "del_invite chptr who w = do {
     ch \<leftarrow> cw_channels w chptr;
     c \<leftarrow> cw_clients w who;
     l \<leftarrow> cl_local c;
     Some (set_client who (c\<lparr>cl_local := Some (l\<lparr>lu_invited := remove1 chptr (lu_invited l)\<rparr>)\<rparr>)
            (set_channel chptr (ch\<lparr>ch_invites := remove1 who (ch_invites ch)\<rparr>) w))
   }"

fun del_invites :: "ptr \<Rightarrow> ptr list \<Rightarrow> cworld \<Rightarrow> cworld option" where
  "del_invites chptr [] w = Some w"
| "del_invites chptr (who # ws) w = do { w \<leftarrow> del_invite chptr who w; del_invites chptr ws w }"

definition free_topic :: "Channel \<Rightarrow> Channel" where
  "free_topic ch = ch\<lparr>ch_topic := None\<rparr>"

definition destroy_channel :: "ptr \<Rightarrow> cworld \<Rightarrow> cworld option" where
  "destroy_channel chptr w = do {
     ch \<leftarrow> cw_channels w chptr;
     w \<leftarrow> del_invites chptr (ch_invites ch) w;
     ch \<leftarrow> cw_channels w chptr;
     let ch = free_topic (ch\<lparr>ch_banlist := [], ch_exceptlist := [], ch_invexlist := []\<rparr>);
     glist \<leftarrow> dlink_del chptr (cw_glist w);
     let tabs = del_from_hash HASH_CHANNEL (Some (ch_chname ch)) (Some chptr) (cw_tabs w);
     Some (w\<lparr>cw_channels := (cw_channels w)(chptr := None), cw_glist := glist, cw_tabs := tabs\<rparr>)
   }"

section \<open>Leaving\<close>

text \<open>
  Both removals take the membership out of the channel's lists, destroy the channel when nobody is left,
  and free the membership.
\<close>

definition leave_channel :: "ptr \<Rightarrow> membership \<Rightarrow> Client \<Rightarrow> cworld \<Rightarrow> cworld option" where
  "leave_channel msptr m c w = do {
     ch \<leftarrow> cw_channels w (ms_chptr m);
     members \<leftarrow> dlink_del msptr (ch_members ch);
     locmembers \<leftarrow> (if cl_servptr c = Some (cw_me w) then dlink_del msptr (ch_locmembers ch)
                     else Some (ch_locmembers ch));
     let w = set_channel (ms_chptr m) (ch\<lparr>ch_members := members, ch_locmembers := locmembers\<rparr>) w;
     w \<leftarrow> (if members = [] then destroy_channel (ms_chptr m) w else Some w);
     Some (w\<lparr>cw_members := (cw_members w)(msptr := None)\<rparr>)
   }"

definition remove_user_from_channel :: "ptr option \<Rightarrow> cworld \<Rightarrow> cworld option" where
  "remove_user_from_channel msptr w =
     (case msptr of
        None \<Rightarrow> Some w
      | Some mp \<Rightarrow> do {
          m \<leftarrow> cw_members w mp;
          c \<leftarrow> cw_clients w (ms_client_p m);
          chans \<leftarrow> cl_user c;
          chans \<leftarrow> dlink_del mp chans;
          leave_channel mp m c (set_client (ms_client_p m) (c\<lparr>cl_user := Some chans\<rparr>) w)
        })"

fun leave_all :: "ptr list \<Rightarrow> Client \<Rightarrow> cworld \<Rightarrow> cworld option" where
  "leave_all [] c w = Some w"
| "leave_all (mp # mps) c w = do {
     m \<leftarrow> cw_members w mp;
     w \<leftarrow> leave_channel mp m c w;
     leave_all mps c w
   }"

definition remove_user_from_channels :: "ptr option \<Rightarrow> cworld \<Rightarrow> cworld option" where
  "remove_user_from_channels client_p w =
     (case client_p of
        None \<Rightarrow> Some w
      | Some cp \<Rightarrow> do {
          c \<leftarrow> cw_clients w cp;
          chans \<leftarrow> cl_user c;
          w \<leftarrow> leave_all chans c w;
          c \<leftarrow> cw_clients w cp;
          Some (set_client cp (c\<lparr>cl_user := Some []\<rparr>) w)
        })"

fun invalidate_loop :: "ptr list \<Rightarrow> (ptr \<rightharpoonup> membership) \<Rightarrow> (ptr \<rightharpoonup> membership) option" where
  "invalidate_loop [] ms = Some ms"
| "invalidate_loop (p # ps) ms = do {
     m \<leftarrow> ms p;
     invalidate_loop ps (ms(p \<mapsto> m\<lparr>ms_ban_serial := 0, ms_flags := ms_flags m AND NOT CHFL_BANNED\<rparr>))
   }"

definition invalidate_bancache_user :: "ptr option \<Rightarrow> cworld \<Rightarrow> cworld option" where
  "invalidate_bancache_user client_p w =
     (case client_p of
        None \<Rightarrow> Some w
      | Some cp \<Rightarrow> do {
          c \<leftarrow> cw_clients w cp;
          chans \<leftarrow> cl_user c;
          ms \<leftarrow> invalidate_loop chans (cw_members w);
          Some (w\<lparr>cw_members := ms\<rparr>)
        })"

section \<open>The membership invariant\<close>

text \<open>The lists of memberships by owner, empty for an owner that does not exist.\<close>

definition chans_of :: "cworld \<Rightarrow> ptr \<Rightarrow> ptr list" where
  "chans_of w cp = (case cw_clients w cp of None \<Rightarrow> [] | Some c \<Rightarrow> (case cl_user c of None \<Rightarrow> [] | Some l \<Rightarrow> l))"

definition members_of :: "cworld \<Rightarrow> ptr \<Rightarrow> ptr list" where
  "members_of w chp = (case cw_channels w chp of None \<Rightarrow> [] | Some ch \<Rightarrow> ch_members ch)"

definition locals_of :: "cworld \<Rightarrow> ptr \<Rightarrow> ptr list" where
  "locals_of w chp = (case cw_channels w chp of None \<Rightarrow> [] | Some ch \<Rightarrow> ch_locmembers ch)"

definition local_user :: "cworld \<Rightarrow> ptr \<Rightarrow> bool" where
  "local_user w cp \<longleftrightarrow> (case cw_clients w cp of None \<Rightarrow> False | Some c \<Rightarrow> MyClient c)"

text \<open>The memberships of the store by owner.\<close>

definition mems_user :: "(ptr \<rightharpoonup> membership) \<Rightarrow> ptr \<Rightarrow> ptr set" where
  "mems_user ms cp = {mp. \<exists>m. ms mp = Some m \<and> ms_client_p m = cp}"

definition mems_chan :: "(ptr \<rightharpoonup> membership) \<Rightarrow> ptr \<Rightarrow> ptr set" where
  "mems_chan ms chp = {mp. \<exists>m. ms mp = Some m \<and> ms_chptr m = chp}"

definition mems_local :: "(ptr \<rightharpoonup> membership) \<Rightarrow> (ptr \<Rightarrow> bool) \<Rightarrow> ptr \<Rightarrow> ptr set" where
  "mems_local ms loc chp = {mp. \<exists>m. ms mp = Some m \<and> ms_chptr m = chp \<and> loc (ms_client_p m)}"

definition is_list_of :: "ptr list \<Rightarrow> ptr set \<Rightarrow> bool" where
  "is_list_of xs A \<longleftrightarrow> distinct xs \<and> set xs = A"

lemma is_list_of_Cons: "is_list_of xs A \<Longrightarrow> x \<notin> A \<Longrightarrow> is_list_of (x # xs) (insert x A)"
  by (auto simp: is_list_of_def)

lemma is_list_of_remove1: "is_list_of xs A \<Longrightarrow> is_list_of (remove1 x xs) (A - {x})"
  by (simp add: is_list_of_def)

text \<open>
  Each list holds exactly the memberships it should; a client is in a channel at most once; only
  registered clients are in channels, and the local ones are those whose server is this one;
  invitations are held by live local clients.
\<close>

definition mem_lists :: "cworld \<Rightarrow> bool" where
  "mem_lists w \<longleftrightarrow>
     (\<forall>cp. is_list_of (chans_of w cp) (mems_user (cw_members w) cp)) \<and>
     (\<forall>chp. is_list_of (members_of w chp) (mems_chan (cw_members w) chp)) \<and>
     (\<forall>chp. is_list_of (locals_of w chp) (mems_local (cw_members w) (local_user w) chp))"

definition mem_unique :: "cworld \<Rightarrow> bool" where
  "mem_unique w \<longleftrightarrow> (\<forall>mp m mp' m'. cw_members w mp = Some m \<longrightarrow> cw_members w mp' = Some m' \<longrightarrow>
     ms_client_p m = ms_client_p m' \<longrightarrow> ms_chptr m = ms_chptr m' \<longrightarrow> mp = mp')"

definition users_ok :: "cworld \<Rightarrow> bool" where
  "users_ok w \<longleftrightarrow> (\<forall>cp c. cw_clients w cp = Some c \<longrightarrow>
     (chans_of w cp \<noteq> [] \<longrightarrow> IsClient c) \<and> (IsClient c \<longrightarrow> (MyClient c \<longleftrightarrow> cl_servptr c = Some (cw_me w))))"

definition invites_ok :: "cworld \<Rightarrow> bool" where
  "invites_ok w \<longleftrightarrow> (\<forall>chp ch. cw_channels w chp = Some ch \<longrightarrow>
     (\<forall>who \<in> set (ch_invites ch). \<exists>c. cw_clients w who = Some c \<and> cl_local c \<noteq> None))"

definition cworld_ok :: "cworld \<Rightarrow> bool" where
  "cworld_ok w \<longleftrightarrow> mem_lists w \<and> mem_unique w \<and> users_ok w \<and> invites_ok w \<and>
     chan_tab_ok (cw_channels w) (cw_glist w) (cw_tabs w)"

lemma cworld_okD:
  assumes "cworld_ok w"
  shows "is_list_of (chans_of w cp) (mems_user (cw_members w) cp)"
    "is_list_of (members_of w chp) (mems_chan (cw_members w) chp)"
    "is_list_of (locals_of w chp) (mems_local (cw_members w) (local_user w) chp)"
    "mem_unique w" "users_ok w" "invites_ok w" "chan_tab_ok (cw_channels w) (cw_glist w) (cw_tabs w)"
  using assms by (auto simp: cworld_ok_def mem_lists_def)

lemma lists_of_simps [simp]:
  "chans_of (set_channel p ch w) = chans_of w" "local_user (set_channel p ch w) = local_user w"
  "members_of (set_client p c w) = members_of w" "locals_of (set_client p c w) = locals_of w"
  "chans_of (w\<lparr>cw_members := ms\<rparr>) = chans_of w" "local_user (w\<lparr>cw_members := ms\<rparr>) = local_user w"
  "members_of (w\<lparr>cw_members := ms\<rparr>) = members_of w" "locals_of (w\<lparr>cw_members := ms\<rparr>) = locals_of w"
  "chans_of (set_client p c w) = (chans_of w)(p := (case cl_user c of None \<Rightarrow> [] | Some l \<Rightarrow> l))"
  "local_user (set_client p c w) = (local_user w)(p := MyClient c)"
  "members_of (set_channel p ch w) = (members_of w)(p := ch_members ch)"
  "locals_of (set_channel p ch w) = (locals_of w)(p := ch_locmembers ch)"
  by (auto simp: fun_eq_iff chans_of_def members_of_def locals_of_def local_user_def)

lemma mems_add:
  assumes "ms new = None"
  shows "mems_user (ms(new \<mapsto> m)) cp = (if ms_client_p m = cp then insert new (mems_user ms cp) else mems_user ms cp)"
    "mems_chan (ms(new \<mapsto> m)) chp = (if ms_chptr m = chp then insert new (mems_chan ms chp) else mems_chan ms chp)"
    "mems_local (ms(new \<mapsto> m)) loc chp =
       (if ms_chptr m = chp \<and> loc (ms_client_p m) then insert new (mems_local ms loc chp) else mems_local ms loc chp)"
    "new \<notin> mems_user ms cp" "new \<notin> mems_chan ms chp" "new \<notin> mems_local ms loc chp"
  using assms by (auto simp: mems_user_def mems_chan_def mems_local_def)

lemma mems_del:
  "mems_user (ms(mp := None)) cp = mems_user ms cp - {mp}"
  "mems_chan (ms(mp := None)) chp = mems_chan ms chp - {mp}"
  "mems_local (ms(mp := None)) loc chp = mems_local ms loc chp - {mp}"
  by (auto simp: mems_user_def mems_chan_def mems_local_def)

lemma mems_in:
  assumes "ms mp = Some m"
  shows "mp \<in> mems_user ms cp \<longleftrightarrow> ms_client_p m = cp" "mp \<in> mems_chan ms chp \<longleftrightarrow> ms_chptr m = chp"
    "mp \<in> mems_local ms loc chp \<longleftrightarrow> ms_chptr m = chp \<and> loc (ms_client_p m)"
  using assms by (auto simp: mems_user_def mems_chan_def mems_local_def)

lemma mems_local_subset: "mems_local ms loc chp \<subseteq> mems_chan ms chp"
  by (auto simp: mems_local_def mems_chan_def)

text \<open>What the invariant says of one membership.\<close>

lemma membership_live:
  assumes ok: "cworld_ok w" and m: "cw_members w mp = Some m"
  obtains c chans ch where "cw_clients w (ms_client_p m) = Some c" "IsClient c" "cl_user c = Some chans"
    "mp \<in> set chans" "cw_channels w (ms_chptr m) = Some ch" "mp \<in> set (ch_members ch)"
    "mp \<in> set (ch_locmembers ch) \<longleftrightarrow> MyClient c" "MyClient c \<longleftrightarrow> cl_servptr c = Some (cw_me w)"
proof -
  note inv = cworld_okD [OF ok]
  have u: "mp \<in> set (chans_of w (ms_client_p m))" and k: "mp \<in> set (members_of w (ms_chptr m))"
    using inv(1) inv(2) mems_in [of "cw_members w", OF m] by (simp_all add: is_list_of_def)
  from u obtain c where c0: "cw_clients w (ms_client_p m) = Some c"
    by (cases "cw_clients w (ms_client_p m)") (auto simp: chans_of_def)
  with u obtain chans where c: "cw_clients w (ms_client_p m) = Some c" "cl_user c = Some chans" "mp \<in> set chans"
    by (cases "cl_user c") (auto simp: chans_of_def)
  from k obtain ch where ch: "cw_channels w (ms_chptr m) = Some ch" "mp \<in> set (ch_members ch)"
    by (cases "cw_channels w (ms_chptr m)") (auto simp: members_of_def)
  have "IsClient c" "MyClient c \<longleftrightarrow> cl_servptr c = Some (cw_me w)"
    using inv(5) c u unfolding users_ok_def by (metis empty_iff list.set(1))+
  moreover have "mp \<in> set (ch_locmembers ch) \<longleftrightarrow> MyClient c"
    using inv(3) [of "ms_chptr m"] mems_in(3) [of "cw_members w", OF m] c ch by (simp add: is_list_of_def locals_of_def local_user_def)
  ultimately show thesis using that c ch by blast
qed

text \<open>Both lists a search may use give the same answer: the one membership of the pair, if there is one.\<close>

definition membership_of :: "ptr \<Rightarrow> ptr \<Rightarrow> cworld \<Rightarrow> ptr \<Rightarrow> bool" where
  "membership_of chptr client_p w mp \<longleftrightarrow>
     (\<exists>m. cw_members w mp = Some m \<and> ms_client_p m = client_p \<and> ms_chptr m = chptr)"

lemma membership_unique:
  "cworld_ok w \<Longrightarrow> membership_of chptr client_p w mp \<Longrightarrow> membership_of chptr client_p w mp' \<Longrightarrow> mp = mp'"
  unfolding cworld_ok_def mem_unique_def membership_of_def by metis

lemma foreach_find_member:
  assumes "is_list_of xs A" "\<And>mp. mp \<in> A \<Longrightarrow> \<exists>m. st mp = Some m"
    and "\<And>mp m. mp \<in> A \<Longrightarrow> st mp = Some m \<Longrightarrow> P m \<longleftrightarrow> Q mp" "\<And>mp. Q mp \<Longrightarrow> mp \<in> A"
    and uniq: "\<And>mp mp'. Q mp \<Longrightarrow> Q mp' \<Longrightarrow> mp = mp'"
  shows "\<exists>r. foreach_find st P xs = Some r \<and> (\<forall>mp. r = Some mp \<longleftrightarrow> Q mp)"
proof -
  have xs: "set xs = A" using assms(1) by (simp add: is_list_of_def)
  have "set xs \<subseteq> dom st" using assms(2) xs by auto
  then obtain r where r: "foreach_find st P xs = Some r" using foreach_find_eq by blast
  show ?thesis
  proof (cases r)
    case None
    then have "\<not> Q mp" for mp
      using r assms(3,4) xs unfolding foreach_find_None by (metis None foreach_find_None)
    then show ?thesis using r None by auto
  next
    case (Some x)
    then have "Q x" using foreach_find_Some [of st P xs x] r assms(3) xs by blast
    then show ?thesis using r Some uniq by auto
  qed
qed

lemma find_channel_membership_spec:
  assumes ok: "cworld_ok w" and c: "cw_clients w client_p = Some c" "IsClient c" "cl_user c = Some chans"
    and ch: "cw_channels w chptr = Some ch"
  shows "\<exists>r. find_channel_membership chptr client_p w = Some r \<and>
     (\<forall>mp. r = Some mp \<longleftrightarrow> membership_of chptr client_p w mp)"
proof -
  note inv = cworld_okD [OF ok]
  have u: "is_list_of chans (mems_user (cw_members w) client_p)" using inv(1) [of client_p] c by (simp add: chans_of_def)
  have k: "is_list_of (ch_members ch) (mems_chan (cw_members w) chptr)" using inv(2) [of chptr] ch by (simp add: members_of_def)
  have uniq: "\<And>mp mp'. membership_of chptr client_p w mp \<Longrightarrow> membership_of chptr client_p w mp' \<Longrightarrow> mp = mp'"
    using membership_unique [OF ok] by blast
  have "\<exists>r. foreach_find (cw_members w) (\<lambda>m. ms_client_p m = client_p) (ch_members ch) = Some r \<and>
      (\<forall>mp. r = Some mp \<longleftrightarrow> membership_of chptr client_p w mp)"
    by (rule foreach_find_member [OF k _ _ _ uniq]) (auto simp: mems_chan_def membership_of_def)
  moreover have "\<exists>r. foreach_find (cw_members w) (\<lambda>m. ms_chptr m = chptr) chans = Some r \<and>
      (\<forall>mp. r = Some mp \<longleftrightarrow> membership_of chptr client_p w mp)"
    by (rule foreach_find_member [OF u _ _ _ uniq]) (auto simp: mems_user_def membership_of_def)
  ultimately show ?thesis using c ch by (simp add: find_channel_membership_def)
qed

section \<open>Joining keeps the invariant\<close>

lemma chan_tab_ok_update:
  assumes "chs p = Some ch" "ch_chname ch' = ch_chname ch"
  shows "chan_tab_ok (chs(p \<mapsto> ch')) glist t = chan_tab_ok chs glist t"
proof -
  have k: "chan_key (chs(p \<mapsto> ch')) = chan_key chs" using assms by (auto simp: fun_eq_iff)
  have d: "dom (chs(p \<mapsto> ch')) = dom chs" using assms by auto
  have "(\<forall>q c. (chs(p \<mapsto> ch')) q = Some c \<longrightarrow> cstring (ch_chname c) \<and> ch_chname c \<noteq> []) \<longleftrightarrow>
      (\<forall>q c. chs q = Some c \<longrightarrow> cstring (ch_chname c) \<and> ch_chname c \<noteq> [])" using assms by auto
  then show ?thesis unfolding chan_tab_ok_def k d by simp
qed

lemma client_user_simps [simp]:
  "IsClient (c\<lparr>cl_user := u\<rparr>) = IsClient c" "MyClient (c\<lparr>cl_user := u\<rparr>) = MyClient c"
  "IsClient (c\<lparr>cl_local := l\<rparr>) = IsClient c" "MyClient (c\<lparr>cl_local := l\<rparr>) = MyClient c"
  by (simp_all add: IsClient_def MyClient_def MyConnect_def)

lemma local_user_same:
  "cw_clients w p = Some c \<Longrightarrow> MyClient c' = MyClient c \<Longrightarrow> (local_user w)(p := MyClient c') = local_user w"
  by (auto simp: fun_eq_iff local_user_def)

text \<open>The step shared by joining and leaving: one client and one channel get new lists.\<close>

lemma cworld_ok_lists:
  assumes ok: "cworld_ok w" and c: "cw_clients w cp = Some c" "IsClient c" and ch: "cw_channels w chp = Some ch"
    and u: "is_list_of chans (mems_user ms cp)" "\<And>q. q \<noteq> cp \<Longrightarrow> mems_user ms q = mems_user (cw_members w) q"
    and k: "is_list_of mem (mems_chan ms chp)" "\<And>q. q \<noteq> chp \<Longrightarrow> mems_chan ms q = mems_chan (cw_members w) q"
    and l: "is_list_of loc (mems_local ms (local_user w) chp)"
      "\<And>q. q \<noteq> chp \<Longrightarrow> mems_local ms (local_user w) q = mems_local (cw_members w) (local_user w) q"
    and uq: "mem_unique (w\<lparr>cw_members := ms\<rparr>)"
  shows "cworld_ok (set_client cp (c\<lparr>cl_user := Some chans\<rparr>)
           (set_channel chp (ch\<lparr>ch_members := mem, ch_locmembers := loc\<rparr>) (w\<lparr>cw_members := ms\<rparr>)))" (is "cworld_ok ?w")
proof -
  note inv = cworld_okD [OF ok]
  have loc: "local_user ?w = local_user w" using c by (simp add: local_user_same)
  have "mem_lists ?w"
    unfolding mem_lists_def loc using inv(1,2,3) u k l by (simp add: fun_upd_apply)
  moreover have "mem_unique ?w" using uq by (simp add: mem_unique_def)
  moreover have "users_ok ?w" using inv(5) c by (auto simp: users_ok_def)
  moreover have "invites_ok ?w" using inv(6) ch c by (fastforce simp: invites_ok_def)
  moreover have "chan_tab_ok (cw_channels ?w) (cw_glist ?w) (cw_tabs ?w)" using inv(7) ch by (simp add: chan_tab_ok_update)
  ultimately show ?thesis by (simp add: cworld_ok_def)
qed

lemma add_user_to_channel_ok [inv_intros]:
  assumes ok: "cworld_ok w" and c: "cw_clients w client_p = Some c" "IsClient c" "cl_user c = Some chans"
    and ch: "cw_channels w chptr = Some ch" and fresh: "cw_members w new = None"
    and notin: "\<And>mp. \<not> membership_of chptr client_p w mp"
  shows "\<exists>w'. add_user_to_channel new chptr client_p flags w = Some w' \<and> cworld_ok w' \<and>
     membership_of chptr client_p w' new \<and> cw_members w' = (cw_members w)(new \<mapsto>
       \<lparr>ms_chptr = chptr, ms_client_p = client_p, ms_flags = flags, ms_ban_serial = 0\<rparr>)"
proof -
  let ?m = "\<lparr>ms_chptr = chptr, ms_client_p = client_p, ms_flags = flags, ms_ban_serial = 0\<rparr>"
  let ?ms = "(cw_members w)(new \<mapsto> ?m)"
  let ?loc = "(if MyClient c then [new] else []) @ ch_locmembers ch"
  let ?w = "set_client client_p (c\<lparr>cl_user := Some (new # chans)\<rparr>)
     (set_channel chptr (ch\<lparr>ch_members := new # ch_members ch, ch_locmembers := ?loc\<rparr>) (w\<lparr>cw_members := ?ms\<rparr>))"
  note inv = cworld_okD [OF ok] and add = mems_add [of "cw_members w", OF fresh]
  have lu: "local_user w client_p = MyClient c" using c by (simp add: local_user_def)
  have old: "is_list_of chans (mems_user (cw_members w) client_p)"
    "is_list_of (ch_members ch) (mems_chan (cw_members w) chptr)"
    "is_list_of (ch_locmembers ch) (mems_local (cw_members w) (local_user w) chptr)"
    using inv(1) [of client_p] inv(2) [of chptr] inv(3) [of chptr] c ch
    by (simp_all add: chans_of_def members_of_def locals_of_def)
  have run: "add_user_to_channel new chptr client_p flags w = Some ?w"
    using c ch by (simp add: add_user_to_channel_def Let_def)
  have uq: "mem_unique (w\<lparr>cw_members := ?ms\<rparr>)"
    using inv(4) notin unfolding mem_unique_def membership_of_def by (auto split: if_splits) blast
  have "cworld_ok ?w"
  proof (rule cworld_ok_lists [OF ok c(1,2) ch _ _ _ _ _ _ uq])
    show "is_list_of ?loc (mems_local ?ms (local_user w) chptr)"
      using old(3) add by (simp add: lu is_list_of_Cons)
  qed (use old add in \<open>simp_all add: is_list_of_Cons lu\<close>)
  then show ?thesis using run by (auto simp: membership_of_def)
qed

section \<open>Leaving keeps the invariant\<close>

text \<open>The invariant reads only some fields of a client; invitations do not touch them.\<close>

definition same_user :: "Client \<Rightarrow> Client \<Rightarrow> bool" where
  "same_user c c' \<longleftrightarrow> IsClient c' = IsClient c \<and> MyClient c' = MyClient c \<and> cl_user c' = cl_user c \<and>
     cl_servptr c' = cl_servptr c \<and> (cl_local c' = None \<longleftrightarrow> cl_local c = None)"

definition users_sim :: "(ptr \<rightharpoonup> Client) \<Rightarrow> (ptr \<rightharpoonup> Client) \<Rightarrow> bool" where
  "users_sim f f' \<longleftrightarrow> (\<forall>q. rel_option same_user (f q) (f' q))"

lemma same_user_refl [simp]: "same_user c c"
  by (simp add: same_user_def)

lemma same_user_local: "cl_local c \<noteq> None \<Longrightarrow> same_user c (c\<lparr>cl_local := Some l\<rparr>)"
  by (simp add: same_user_def)

lemma users_sim_refl [simp]: "users_sim f f"
  by (simp add: users_sim_def option.rel_refl)

lemma users_sim_Some: "users_sim f f' \<Longrightarrow> f' q = Some c' \<Longrightarrow> \<exists>c. f q = Some c \<and> same_user c c'"
  unfolding users_sim_def by (metis option_rel_Some2)

lemma users_sim_Some1: "users_sim f f' \<Longrightarrow> f q = Some c \<Longrightarrow> \<exists>c'. f' q = Some c' \<and> same_user c c'"
  unfolding users_sim_def by (metis option_rel_Some1)

lemma users_sim_None: "users_sim f f' \<Longrightarrow> f q = None \<longleftrightarrow> f' q = None"
  unfolding users_sim_def by (metis option.rel_distinct option.exhaust)

lemma users_sim_upd:
  assumes "users_sim f f'" "f' q = Some c" "same_user c c'"
  shows "users_sim f (f'(q \<mapsto> c'))"
proof -
  obtain c0 where "f q = Some c0" "same_user c0 c" using users_sim_Some [OF assms(1,2)] by blast
  then have "same_user c0 c'" using assms(3) by (simp add: same_user_def)
  then show ?thesis using assms(1) \<open>f q = Some c0\<close> by (simp add: users_sim_def)
qed

lemma users_sim_trans:
  assumes "users_sim f g" "users_sim g h"
  shows "users_sim f h"
proof -
  have "rel_option same_user (f q) (h q)" for q
  proof -
    have "rel_option same_user (f q) (g q)" "rel_option same_user (g q) (h q)" using assms by (simp_all add: users_sim_def)
    then show ?thesis by (cases "f q"; cases "g q"; cases "h q") (auto simp: same_user_def)
  qed
  then show ?thesis by (simp add: users_sim_def)
qed

lemma users_sim_views:
  assumes "users_sim (cw_clients w) (cw_clients w')"
  shows "chans_of w' = chans_of w" "local_user w' = local_user w"
proof -
  have "chans_of w' q = chans_of w q \<and> local_user w' q = local_user w q" for q
    using users_sim_Some [OF assms, of q] users_sim_None [OF assms, of q]
    by (cases "cw_clients w' q") (auto simp: chans_of_def local_user_def same_user_def)
  then show "chans_of w' = chans_of w" "local_user w' = local_user w" by auto
qed

lemma cworld_ok_users_sim:
  assumes ok: "cworld_ok w" and sim: "users_sim (cw_clients w) (cw_clients w')"
    and same: "cw_members w' = cw_members w" "cw_me w' = cw_me w"
    and lists: "members_of w' = members_of w" "locals_of w' = locals_of w"
    and invs: "\<And>p ch'. cw_channels w' p = Some ch' \<Longrightarrow> \<exists>ch. cw_channels w p = Some ch \<and> set (ch_invites ch') \<subseteq> set (ch_invites ch)"
    and tab: "chan_tab_ok (cw_channels w') (cw_glist w') (cw_tabs w')"
  shows "cworld_ok w'"
proof -
  note inv = cworld_okD [OF ok] and v = users_sim_views [OF sim]
  have "mem_lists w'" using inv(1,2,3) by (simp add: mem_lists_def v lists same)
  moreover have "mem_unique w'" using inv(4) by (simp add: mem_unique_def same)
  moreover have "users_ok w'" unfolding users_ok_def v same
    using inv(5) users_sim_Some [OF sim] unfolding users_ok_def same_user_def by metis
  moreover have "invites_ok w'" unfolding invites_ok_def
  proof (intro allI impI ballI)
    fix chp ch' who assume "cw_channels w' chp = Some ch'" "who \<in> set (ch_invites ch')"
    then obtain c where "cw_clients w who = Some c" "cl_local c \<noteq> None"
      using invs inv(6) unfolding invites_ok_def by blast
    then show "\<exists>c. cw_clients w' who = Some c \<and> cl_local c \<noteq> None"
      using users_sim_Some1 [OF sim] unfolding same_user_def by metis
  qed
  ultimately show ?thesis using tab by (simp add: cworld_ok_def)
qed

lemma del_invites_spec:
  assumes "cw_channels w p = Some ch" "\<forall>who \<in> set ws. \<exists>c. cw_clients w who = Some c \<and> cl_local c \<noteq> None"
  shows "\<exists>w' inv. del_invites p ws w = Some w' \<and> users_sim (cw_clients w) (cw_clients w') \<and>
     cw_channels w' = (cw_channels w)(p \<mapsto> ch\<lparr>ch_invites := inv\<rparr>) \<and> set inv \<subseteq> set (ch_invites ch) \<and>
     cw_members w' = cw_members w \<and> cw_glist w' = cw_glist w \<and> cw_tabs w' = cw_tabs w \<and> cw_me w' = cw_me w"
  using assms
proof (induction ws arbitrary: w ch)
  case Nil
  then show ?case by (auto intro!: exI [of _ "ch_invites ch"] simp: fun_upd_idem)
next
  case (Cons who ws)
  then obtain c l where c: "cw_clients w who = Some c" "cl_local c = Some l" by auto
  let ?c = "c\<lparr>cl_local := Some (l\<lparr>lu_invited := remove1 p (lu_invited l)\<rparr>)\<rparr>"
  let ?ch = "ch\<lparr>ch_invites := remove1 who (ch_invites ch)\<rparr>"
  let ?w = "set_client who ?c (set_channel p ?ch w)"
  have one: "del_invite p who w = Some ?w" using c Cons.prems by (simp add: del_invite_def)
  have su: "same_user c ?c" using c by (simp add: same_user_local)
  have sim: "users_sim (cw_clients w) (cw_clients ?w)" using users_sim_upd [of "cw_clients w" "cw_clients w", OF users_sim_refl c(1) su] by simp
  have "\<forall>who \<in> set ws. \<exists>c. cw_clients ?w who = Some c \<and> cl_local c \<noteq> None" using Cons.prems(2) c by auto
  moreover have "cw_channels ?w p = Some ?ch" by simp
  ultimately obtain w' inv where
    r: "del_invites p ws ?w = Some w'" "users_sim (cw_clients ?w) (cw_clients w')"
    "cw_channels w' = (cw_channels ?w)(p \<mapsto> ?ch\<lparr>ch_invites := inv\<rparr>)" "set inv \<subseteq> set (ch_invites ?ch)"
    "cw_members w' = cw_members ?w" "cw_glist w' = cw_glist ?w" "cw_tabs w' = cw_tabs ?w" "cw_me w' = cw_me ?w"
    using Cons.IH [of ?w ?ch] by blast
  have "users_sim (cw_clients w) (cw_clients w')"
    by (rule users_sim_trans [OF sim r(2)])
  moreover have "set inv \<subseteq> set (ch_invites ch)" using r(4) set_remove1_subset by fastforce
  ultimately show ?case using one r by (intro exI [of _ w'] exI [of _ inv]) simp
qed

lemma chan_tab_ok_del:
  assumes ok: "chan_tab_ok chs glist t" and ch: "chs p = Some ch"
  shows "chan_tab_ok (chs(p := None)) (remove1 p glist) (del_from_hash HASH_CHANNEL (Some (ch_chname ch)) (Some p) t)"
proof -
  have key: "chan_key chs p = Some (ch_chname ch)" using ch by simp
  have ne: "ch_chname ch \<noteq> []" using ok ch by (simp add: chan_tab_ok_def)
  let ?b = "bucket_del (hash_func HASH_CHANNEL (ch_chname ch)) p (channelTable t)"
  have tab: "tab_ok (hash_func HASH_CHANNEL) (chan_key chs) (channelTable t)" using ok by (simp add: chan_tab_ok_def)
  have s: "tab_set ?b = tab_set (channelTable t) - {p}"
    by (rule chans.del_set [where key = "chan_key chs", OF tab key])
  have "tab_ok (hash_func HASH_CHANNEL) (chan_key chs) ?b" by (rule chans.del_ok [OF tab])
  moreover have "p \<notin> set (?b i)" for i using s by (auto simp: tab_set_def)
  ultimately have "tab_ok (hash_func HASH_CHANNEL) (chan_key (chs(p := None))) ?b"
    by (auto simp: tab_ok_def)
  moreover have "channelTable (del_from_hash HASH_CHANNEL (Some (ch_chname ch)) (Some p) t) = ?b"
    using ne by (simp add: del_from_hash_def)
  ultimately show ?thesis using ok s unfolding chan_tab_ok_def by auto
qed

lemma destroy_channel_ok [inv_intros]:
  assumes ok: "cworld_ok w" and ch: "cw_channels w p = Some ch" "ch_members ch = []"
  shows "\<exists>w'. destroy_channel p w = Some w' \<and> cworld_ok w' \<and> cw_members w' = cw_members w \<and>
     cw_channels w' = (cw_channels w)(p := None) \<and> users_sim (cw_clients w) (cw_clients w')"
proof -
  note inv = cworld_okD [OF ok]
  have "\<forall>who \<in> set (ch_invites ch). \<exists>c. cw_clients w who = Some c \<and> cl_local c \<noteq> None"
    using inv(6) ch by (simp add: invites_ok_def)
  from del_invites_spec [OF ch(1) this] obtain w1 invs where
    d: "del_invites p (ch_invites ch) w = Some w1" "users_sim (cw_clients w) (cw_clients w1)"
    "cw_channels w1 = (cw_channels w)(p \<mapsto> ch\<lparr>ch_invites := invs\<rparr>)"
    "cw_members w1 = cw_members w" "cw_glist w1 = cw_glist w" "cw_tabs w1 = cw_tabs w" "cw_me w1 = cw_me w" by blast
  have "p \<in> set (cw_glist w)" using inv(7) ch by (auto simp: chan_tab_ok_def)
  then have run: "destroy_channel p w = Some (w1\<lparr>cw_channels := (cw_channels w)(p := None), cw_glist := remove1 p (cw_glist w),
      cw_tabs := del_from_hash HASH_CHANNEL (Some (ch_chname ch)) (Some p) (cw_tabs w)\<rparr>)" (is "_ = Some ?w")
    using ch d by (simp add: destroy_channel_def dlink_del_def free_topic_def Let_def)
  have empty: "mems_chan (cw_members w) p = {}" using inv(2) [of p] ch by (simp add: is_list_of_def members_of_def)
  have "set (locals_of w p) = {}"
    using inv(3) [of p] empty mems_local_subset [of "cw_members w" "local_user w" p] by (simp add: is_list_of_def)
  then have l: "members_of ?w = members_of w" "locals_of ?w = locals_of w"
    using ch by (auto simp: fun_eq_iff members_of_def locals_of_def)
  have "cworld_ok ?w"
    by (rule cworld_ok_users_sim [OF ok _ _ _ l])
      (use d chan_tab_ok_del [OF inv(7) ch(1)] in \<open>auto split: if_splits\<close>)
  then show ?thesis using run d by simp
qed

text \<open>Destroying a channel does not look at the memberships, so freeing one first changes nothing.\<close>

lemma del_invite_members:
  "del_invite p who (w\<lparr>cw_members := ms\<rparr>) = map_option (\<lambda>w. w\<lparr>cw_members := ms\<rparr>) (del_invite p who w)"
  by (cases w; cases "cw_channels w p"; cases "cw_clients w who")
    (auto simp: del_invite_def set_client_def set_channel_def split: Option.bind_splits)

lemma del_invites_members:
  "del_invites p ws (w\<lparr>cw_members := ms\<rparr>) = map_option (\<lambda>w. w\<lparr>cw_members := ms\<rparr>) (del_invites p ws w)"
  by (induction ws arbitrary: w) (simp_all add: del_invite_members option.map_comp map_option_case split: option.splits)

lemma destroy_channel_members:
  "destroy_channel p (w\<lparr>cw_members := ms\<rparr>) = map_option (\<lambda>w. w\<lparr>cw_members := ms\<rparr>) (destroy_channel p w)"
  by (cases "cw_channels w p")
    (auto simp: destroy_channel_def del_invites_members dlink_del_def Let_def split: Option.bind_splits)

lemma destroy_channel_keeps: "destroy_channel p w = Some w' \<Longrightarrow> cw_members w' = cw_members w"
proof -
  assume d: "destroy_channel p w = Some w'"
  have "w\<lparr>cw_members := cw_members w\<rparr> = w" by simp
  with d destroy_channel_members [where p = p and w = w and ms = "cw_members w"] have "w' = w'\<lparr>cw_members := cw_members w\<rparr>" by simp
  then show ?thesis by (metis cworld.select_convs(3) cworld.surjective cworld.update_convs(3))
qed

lemma leave_lists_ok:
  assumes ok: "cworld_ok w" and m: "cw_members w mp = Some m"
    and c: "cw_clients w (ms_client_p m) = Some c" "cl_user c = Some chans" and ch: "cw_channels w (ms_chptr m) = Some ch"
  shows "cworld_ok (set_client (ms_client_p m) (c\<lparr>cl_user := Some (remove1 mp chans)\<rparr>)
     (set_channel (ms_chptr m) (ch\<lparr>ch_members := remove1 mp (ch_members ch), ch_locmembers := remove1 mp (ch_locmembers ch)\<rparr>)
       (w\<lparr>cw_members := (cw_members w)(mp := None)\<rparr>)))"
proof -
  note inv = cworld_okD [OF ok] and mi = mems_in [of "cw_members w", OF m]
  have cl: "IsClient c" using membership_live [OF ok m] c by (metis option.inject)
  have "is_list_of chans (mems_user (cw_members w) (ms_client_p m))"
    "is_list_of (ch_members ch) (mems_chan (cw_members w) (ms_chptr m))"
    "is_list_of (ch_locmembers ch) (mems_local (cw_members w) (local_user w) (ms_chptr m))"
    using inv(1) [of "ms_client_p m"] inv(2) [of "ms_chptr m"] inv(3) [of "ms_chptr m"] c ch
    by (simp_all add: chans_of_def members_of_def locals_of_def)
  note del = this [THEN is_list_of_remove1]
  have uq: "mem_unique (w\<lparr>cw_members := (cw_members w)(mp := None)\<rparr>)"
    using inv(4) unfolding mem_unique_def by (auto split: if_splits)
  show ?thesis
    by (rule cworld_ok_lists [OF ok c(1) cl ch _ _ _ _ _ _ uq]) (use del mi in \<open>auto simp: mems_del\<close>)
qed

text \<open>
  Leaving a channel never faults: the membership is freed, the channel disappears with its last
  member, and every other membership stays.
\<close>

lemma remove_user_from_channel_ok [inv_intros]:
  assumes ok: "cworld_ok w" and m: "cw_members w mp = Some m"
  shows "\<exists>w'. remove_user_from_channel (Some mp) w = Some w' \<and> cworld_ok w' \<and>
     cw_members w' = (cw_members w)(mp := None) \<and>
     (cw_channels w' (ms_chptr m) = None \<longleftrightarrow> members_of w (ms_chptr m) = [mp]) \<and>
     (\<forall>p. p \<noteq> ms_chptr m \<longrightarrow> cw_channels w' p = cw_channels w p) \<and>
     users_sim ((cw_clients w)(ms_client_p m := map_option
       (\<lambda>c. c\<lparr>cl_user := Some (remove1 mp (chans_of w (ms_client_p m)))\<rparr>) (cw_clients w (ms_client_p m)))) (cw_clients w')"
proof -
  obtain c chans ch where l: "cw_clients w (ms_client_p m) = Some c" "cl_user c = Some chans" "mp \<in> set chans"
    "cw_channels w (ms_chptr m) = Some ch" "mp \<in> set (ch_members ch)"
    "mp \<in> set (ch_locmembers ch) \<longleftrightarrow> MyClient c" "MyClient c \<longleftrightarrow> cl_servptr c = Some (cw_me w)"
    using membership_live [OF ok m] by metis
  let ?ch = "ch\<lparr>ch_members := remove1 mp (ch_members ch), ch_locmembers := remove1 mp (ch_locmembers ch)\<rparr>"
  let ?c = "c\<lparr>cl_user := Some (remove1 mp chans)\<rparr>"
  let ?w1 = "set_channel (ms_chptr m) ?ch (set_client (ms_client_p m) ?c w)"
  let ?ms = "(cw_members w)(mp := None)"
  have ok1: "cworld_ok (?w1\<lparr>cw_members := ?ms\<rparr>)"
    using leave_lists_ok [OF ok m l(1,2,4)] by (simp add: set_commute)
  have loc: "(if cl_servptr c = Some (cw_me w) then dlink_del mp (ch_locmembers ch) else Some (ch_locmembers ch)) =
      Some (remove1 mp (ch_locmembers ch))"
    using l(6,7) by (simp add: dlink_del_def remove1_idem)
  have run: "remove_user_from_channel (Some mp) w =
      Option.bind (if remove1 mp (ch_members ch) = [] then destroy_channel (ms_chptr m) ?w1 else Some ?w1)
        (\<lambda>w'. Some (w'\<lparr>cw_members := (cw_members w')(mp := None)\<rparr>))"
    using m l loc by (simp add: remove_user_from_channel_def leave_channel_def dlink_del_def)
  have last: "remove1 mp (ch_members ch) = [] \<longleftrightarrow> members_of w (ms_chptr m) = [mp]"
    using l(4,5) by (cases "ch_members ch") (auto simp: members_of_def)
  show ?thesis
  proof (cases "remove1 mp (ch_members ch) = []")
    case True
    have "cw_channels (?w1\<lparr>cw_members := ?ms\<rparr>) (ms_chptr m) = Some ?ch" "ch_members ?ch = []" using True by simp_all
    from destroy_channel_ok [OF ok1 this] obtain w2 where
      d: "destroy_channel (ms_chptr m) (?w1\<lparr>cw_members := ?ms\<rparr>) = Some w2" "cworld_ok w2" "cw_members w2 = ?ms"
      "cw_channels w2 = (cw_channels ?w1)(ms_chptr m := None)" "users_sim (cw_clients ?w1) (cw_clients w2)" by auto
    then obtain w3 where w3: "destroy_channel (ms_chptr m) ?w1 = Some w3" "w2 = w3\<lparr>cw_members := ?ms\<rparr>"
      by (auto simp: destroy_channel_members)
    have "cw_members w3 = cw_members w"
      using destroy_channel_keeps [OF w3(1)] by simp
    then show ?thesis using run True w3 d last l(1,2) by (intro exI [of _ w2]) (simp add: chans_of_def)
  next
    case False
    then show ?thesis using run ok1 last l(1,2) by (intro exI [of _ "?w1\<lparr>cw_members := ?ms\<rparr>"]) (simp add: chans_of_def)
  qed
qed

section \<open>Leaving all channels\<close>

text \<open>
  \<^verbatim>\<open>remove_user_from_channels()\<close> does not keep the client's list up to date while it walks it.  With the list
  it will have in the end, each turn is one \<^verbatim>\<open>remove_user_from_channel()\<close>.
\<close>

definition with_chans :: "ptr \<Rightarrow> ptr list \<Rightarrow> cworld \<Rightarrow> cworld" where
  "with_chans cp l w = w\<lparr>cw_clients := (cw_clients w)(cp := map_option (\<lambda>c. c\<lparr>cl_user := Some l\<rparr>) (cw_clients w cp))\<rparr>"

lemma with_chans_fields [simp]:
  "cw_channels (with_chans cp l w) = cw_channels w" "cw_members (with_chans cp l w) = cw_members w"
  "cw_glist (with_chans cp l w) = cw_glist w" "cw_tabs (with_chans cp l w) = cw_tabs w" "cw_me (with_chans cp l w) = cw_me w"
  "cw_clients (with_chans cp l w) cp = map_option (\<lambda>c. c\<lparr>cl_user := Some l\<rparr>) (cw_clients w cp)"
  by (simp_all add: with_chans_def)

lemma with_chans_twice [simp]: "with_chans cp l (with_chans cp l' w) = with_chans cp l w"
  by (simp add: with_chans_def option.map_comp comp_def)

lemma with_chans_set: "cw_clients w cp = Some c \<Longrightarrow> set_client cp (c\<lparr>cl_user := Some l\<rparr>) w = with_chans cp l w"
  by (simp add: with_chans_def set_client_def)

lemma with_chans_set_channel: "with_chans cp l (set_channel p ch w) = set_channel p ch (with_chans cp l w)"
  by (cases w) (simp add: with_chans_def set_channel_def)

lemma del_invite_with_chans:
  "del_invite p who (with_chans cp l w) = map_option (with_chans cp l) (del_invite p who w)"
  by (cases w; cases "cw_channels w p"; cases "cw_clients w who"; cases "cw_clients w cp")
    (auto simp: del_invite_def with_chans_def set_client_def set_channel_def fun_upd_twist split: Option.bind_splits)

lemma del_invites_with_chans:
  "del_invites p ws (with_chans cp l w) = map_option (with_chans cp l) (del_invites p ws w)"
  by (induction ws arbitrary: w) (simp_all add: del_invite_with_chans map_option_case split: option.splits)

lemma destroy_channel_with_chans:
  "destroy_channel p (with_chans cp l w) = map_option (with_chans cp l) (destroy_channel p w)"
proof -
  have u: "with_chans cp l (w'\<lparr>cw_channels := a, cw_glist := b, cw_tabs := d\<rparr>) =
      (with_chans cp l w')\<lparr>cw_channels := a, cw_glist := b, cw_tabs := d\<rparr>" for w' a b d
    by (cases w') (simp add: with_chans_def)
  show ?thesis
    by (cases "cw_channels w p")
      (auto simp: destroy_channel_def del_invites_with_chans dlink_del_def Let_def u split: Option.bind_splits)
qed

lemma leave_channel_with_chans:
  "leave_channel mp m c (with_chans cp l w) = map_option (with_chans cp l) (leave_channel mp m c w)"
proof -
  have ms: "with_chans cp l (w'\<lparr>cw_members := x\<rparr>) = (with_chans cp l w')\<lparr>cw_members := x\<rparr>" for w' x
    by (cases w') (simp add: with_chans_def)
  show ?thesis
    by (cases "cw_channels w (ms_chptr m)")
      (auto simp: leave_channel_def destroy_channel_with_chans ms with_chans_set_channel [symmetric] Let_def
        split: Option.bind_splits if_splits)
qed

lemma leave_all_ok:
  assumes "cworld_ok (with_chans cp mps w)" "cw_clients w cp = Some c0" "cl_servptr c = cl_servptr c0"
    and "mems_user (cw_members w) cp = set mps"
  shows "\<exists>w'. leave_all mps c w = Some w' \<and> cworld_ok (with_chans cp [] w') \<and> mems_user (cw_members w') cp = {} \<and>
     (\<exists>c'. cw_clients w' cp = Some c') \<and> (\<forall>q. q \<noteq> cp \<longrightarrow> mems_user (cw_members w') q = mems_user (cw_members w) q)"
  using assms
proof (induction mps arbitrary: w c0)
  case Nil
  then show ?case by simp
next
  case (Cons mp mps)
  have "mp \<in> mems_user (cw_members w) cp" using Cons.prems(4) by simp
  then obtain m where m: "cw_members w mp = Some m" "ms_client_p m = cp" by (auto simp: mems_user_def)
  let ?v = "with_chans cp (mp # mps) w"
  have mv: "cw_members ?v mp = Some m" using m by simp
  from remove_user_from_channel_ok [OF Cons.prems(1) mv] obtain v' where
    r: "remove_user_from_channel (Some mp) ?v = Some v'" "cworld_ok v'" "cw_members v' = (cw_members w)(mp := None)"
    and sim: "users_sim ((cw_clients ?v)(cp := map_option (\<lambda>c. c\<lparr>cl_user := Some (remove1 mp (chans_of ?v cp))\<rparr>)
      (cw_clients ?v cp))) (cw_clients v')" using m(2) by auto
  have cv: "cw_clients ?v cp = Some (c0\<lparr>cl_user := Some (mp # mps)\<rparr>)" using Cons.prems(2) by simp
  have "remove_user_from_channel (Some mp) ?v =
      leave_channel mp m (c0\<lparr>cl_user := Some (mp # mps)\<rparr>) (with_chans cp mps w)"
    using mv m Cons.prems(2) with_chans_set [OF cv, of mps] by (simp add: remove_user_from_channel_def dlink_del_def)
  also have "\<dots> = leave_channel mp m c (with_chans cp mps w)"
    using Cons.prems(3) by (simp add: leave_channel_def)
  finally have "Some v' = map_option (with_chans cp mps) (leave_channel mp m c w)"
    using r(1) by (simp add: leave_channel_with_chans)
  then obtain w1 where w1: "leave_channel mp m c w = Some w1" "v' = with_chans cp mps w1"
    by (cases "leave_channel mp m c w") auto
  have ms1: "cw_members w1 = (cw_members w)(mp := None)" using r(3) w1(2) by simp
  have dm: "distinct (mp # mps)" 
    using cworld_okD(1) [OF Cons.prems(1), of cp] Cons.prems(2) by (simp add: is_list_of_def chans_of_def)
  have u1: "mems_user (cw_members w1) cp = set mps" using Cons.prems(4) dm by (simp add: ms1 mems_del)
  obtain c1 where c1: "cw_clients w1 cp = Some c1" "cl_servptr c1 = cl_servptr c0"
    using users_sim_Some1 [OF sim, of cp] Cons.prems(2) w1(2) by (auto simp: same_user_def)
  from Cons.IH [OF _ c1(1) _ u1] r(2) w1 Cons.prems(3) c1(2) obtain w' where
    ih: "leave_all mps c w1 = Some w'" "cworld_ok (with_chans cp [] w')" "mems_user (cw_members w') cp = {}"
    "\<exists>c'. cw_clients w' cp = Some c'" "\<forall>q. q \<noteq> cp \<longrightarrow> mems_user (cw_members w') q = mems_user (cw_members w1) q" by auto
  have "mems_user (cw_members w1) q = mems_user (cw_members w) q" if "q \<noteq> cp" for q
    using that mems_in(1) [of "cw_members w", OF m(1)] m(2) by (auto simp: ms1 mems_del)
  with ih show ?case using m w1(1) by simp
qed

lemma remove_user_from_channels_ok [inv_intros]:
  assumes ok: "cworld_ok w" and c: "cw_clients w cp = Some c" "cl_user c = Some chans"
  shows "\<exists>w'. remove_user_from_channels (Some cp) w = Some w' \<and> cworld_ok w' \<and> chans_of w' cp = [] \<and>
     mems_user (cw_members w') cp = {} \<and>
     (\<forall>q. q \<noteq> cp \<longrightarrow> mems_user (cw_members w') q = mems_user (cw_members w) q)"
proof -
  have "c\<lparr>cl_user := Some chans\<rparr> = c" using c(2) by simp
  then have "with_chans cp chans w = w" using c(1) by (simp add: with_chans_def fun_upd_idem)
  moreover have "mems_user (cw_members w) cp = set chans"
    using cworld_okD(1) [OF ok, of cp] c by (simp add: is_list_of_def chans_of_def)
  ultimately obtain w' c' where r: "leave_all chans c w = Some w'" "cworld_ok (with_chans cp [] w')"
    "mems_user (cw_members w') cp = {}" "cw_clients w' cp = Some c'"
    "\<forall>q. q \<noteq> cp \<longrightarrow> mems_user (cw_members w') q = mems_user (cw_members w) q"
    using leave_all_ok [of cp chans w c c] ok c(1) by auto
  have "remove_user_from_channels (Some cp) w = Some (with_chans cp [] w')"
    using c r by (simp add: remove_user_from_channels_def with_chans_set)
  then show ?thesis using r by (intro exI [of _ "with_chans cp [] w'"]) (simp add: chans_of_def)
qed

end
