(* ===== verification/Bans.thy ===== *)
theory Bans
  imports Channel Inet6
begin

text \<open>
  Channel bans: \<^verbatim>\<open>is_banned()\<close> and \<^verbatim>\<open>can_send()\<close> of \<^verbatim>\<open>libratboxcore/channel.c\<close> and the list operations \<^verbatim>\<open>add_id()\<close> and
  \<^verbatim>\<open>del_id()\<close> of \<^verbatim>\<open>modules/core/m_mode.c\<close>.  Every membership caches whether its user is banned, under the serial
  number the channel's ban lists had; the main result is that the cache never disagrees with the
  lists, as long as the 32-bit serial has not wrapped round.
\<close>

section \<open>Checking bans\<close>

definition CHFL_BAN :: int where "CHFL_BAN = 0x0200"
definition CHFL_EXCEPTION :: int where "CHFL_EXCEPTION = 0x0400"
definition CHFL_INVEX :: int where "CHFL_INVEX = 0x0800"

text \<open>
  What the two address buffers of a \<^verbatim>\<open>match_cidr()\<close> call hold before it, by its arguments: they are not
  initialised in the source.
\<close>

type_synonym stack_mem = "string \<Rightarrow> string \<Rightarrow> (af \<Rightarrow> byte list) \<times> (af \<Rightarrow> byte list)"

definition ban_matches :: "stack_mem \<Rightarrow> string \<Rightarrow> string \<times> string \<times> string \<Rightarrow> bool option" where
  "ban_matches mem banstr ss =
     (case ss of (s, s2, s3) \<Rightarrow> do {
        a \<leftarrow> match banstr s;
        if a then Some True else do {
        b \<leftarrow> match banstr s2;
        if b then Some True else do {
        c \<leftarrow> match banstr s3;
        if c then Some True
        else match_cidr (fst (mem banstr s3)) (snd (mem banstr s3)) banstr s3
      }}})"

text \<open>The loop over a list, up to the first entry that matches.\<close>

fun ban_loop :: "stack_mem \<Rightarrow> string \<times> string \<times> string \<Rightarrow> Ban list \<Rightarrow> bool option" where
  "ban_loop mem ss [] = Some False"
| "ban_loop mem ss (b # bs) = do {
     m \<leftarrow> ban_matches mem (ban_banstr b) ss;
     if m then Some True else ban_loop mem ss bs
   }"

text \<open>\<^verbatim>\<open>rb_sprintf()\<close> into a fixed array faults when the text does not fit.\<close>

definition src_size :: nat where
  "src_size = NICKLEN + USERLEN + HOSTLEN + 6"

definition src_mask :: "Client \<Rightarrow> string \<Rightarrow> string option" where
  "src_mask who h =
     (let s = cl_name who @ ''!'' @ cl_username who @ ''@'' @ h
      in if length s < src_size then Some s else None)"

definition src_masks :: "Client \<Rightarrow> (string \<times> string \<times> string) option" where
  "src_masks who = do {
     s \<leftarrow> src_mask who (cl_host who);
     s2 \<leftarrow> src_mask who (cl_virthost who);
     s3 \<leftarrow> src_mask who (cl_sockhost who);
     Some (s, s2, s3)
   }"

definition is_banned ::
  "stack_mem \<Rightarrow> bool \<Rightarrow> Channel \<Rightarrow> Client \<Rightarrow> membership option \<Rightarrow> (string \<times> string \<times> string) option \<Rightarrow>
   (int \<times> membership option) option" where
  "is_banned mem use_except chptr who msptr ss =
     (if \<not> MyClient who then Some (0, msptr)
      else do {
        ss \<leftarrow> (case ss of None \<Rightarrow> src_masks who | Some ss \<Rightarrow> Some ss);
        actualBan \<leftarrow> ban_loop mem ss (ch_banlist chptr);
        exempt \<leftarrow> (if actualBan \<and> use_except then ban_loop mem ss (ch_exceptlist chptr) else Some False);
        let cached = (\<lambda>b. map_option (\<lambda>m. m\<lparr>ms_ban_serial := ch_ban_serial chptr,
               ms_flags := (if b then ms_flags m OR CHFL_BANNED else ms_flags m AND NOT CHFL_BANNED)\<rparr>) msptr);
        if exempt then Some (CHFL_EXCEPTION, cached False)
        else Some (if actualBan then CHFL_BAN else 0, cached actualBan)
      })"

section \<open>Who may speak\<close>

definition CAN_SEND_NO :: int where "CAN_SEND_NO = 0"
definition CAN_SEND_NONOP :: int where "CAN_SEND_NONOP = 1"
definition CAN_SEND_OPV :: int where "CAN_SEND_OPV = 2"

text \<open>The tests after the membership is known.\<close>

definition can_send_member ::
  "stack_mem \<Rightarrow> bool \<Rightarrow> bool \<Rightarrow> ptr \<Rightarrow> Client \<Rightarrow> ptr \<Rightarrow> cworld \<Rightarrow> (int \<times> cworld) option" where
  "can_send_member mem use_except quiet_on_ban chptr src mp w = do {
     ch \<leftarrow> cw_channels w chptr;
     m \<leftarrow> cw_members w mp;
     if is_chanop_voiced m then Some (CAN_SEND_OPV, w)
     else if md_mode (ch_mode ch) AND MODE_MODERATED \<noteq> 0 then Some (CAN_SEND_NO, w)
     else if quiet_on_ban \<and> MyClient src then
       if ms_ban_serial m = ch_ban_serial ch then
         Some (if can_send_banned m then CAN_SEND_NO else CAN_SEND_NONOP, w)
       else do {
         (r, m') \<leftarrow> is_banned mem use_except ch src (Some m) None;
         m' \<leftarrow> m';
         Some (if r = CHFL_BAN then CAN_SEND_NO else CAN_SEND_NONOP,
               w\<lparr>cw_members := (cw_members w)(mp \<mapsto> m')\<rparr>)
       }
     else Some (CAN_SEND_NONOP, w)
   }"

definition can_send ::
  "stack_mem \<Rightarrow> bool \<Rightarrow> bool \<Rightarrow> ptr \<Rightarrow> ptr \<Rightarrow> ptr option \<Rightarrow> cworld \<Rightarrow> (int \<times> cworld) option" where
  "can_send mem use_except quiet_on_ban chptr source_p msptr w = do {
     src \<leftarrow> cw_clients w source_p;
     ch \<leftarrow> cw_channels w chptr;
     if IsServer src then Some (CAN_SEND_OPV, w)
     else do {
       (resv, confs) \<leftarrow> (if MyClient src then hash_find_resv (Some (ch_chname ch)) (cw_confs w) (cw_tabs w)
                         else Some (None, cw_confs w));
       let w = w\<lparr>cw_confs := confs\<rparr>;
       if resv \<noteq> None \<and> \<not> IsOper src \<and> \<not> IsExemptResv src then Some (CAN_SEND_NO, w)
       else do {
         msptr \<leftarrow> (case msptr of None \<Rightarrow> find_channel_membership chptr source_p w | Some mp \<Rightarrow> Some (Some mp));
         case msptr of
           None \<Rightarrow>
             Some (if md_mode (ch_mode ch) AND MODE_NOPRIVMSGS \<noteq> 0 \<or> md_mode (ch_mode ch) AND MODE_MODERATED \<noteq> 0
                   then CAN_SEND_NO else CAN_SEND_NONOP, w)
         | Some mp \<Rightarrow> can_send_member mem use_except quiet_on_ban chptr src mp w
       }
     }
   }"

section \<open>Changing the lists\<close>

definition BANLEN :: nat where "BANLEN = NICKLEN + USERLEN + HOSTLEN + 6"

definition allocate_ban :: "string \<Rightarrow> string \<Rightarrow> Ban" where
  "allocate_ban banstr who = \<lparr>ban_banstr = rb_strndup banstr BANLEN, ban_who = rb_strndup who BANLEN, ban_when = 0\<rparr>"

datatype ban_list = Banlist | Exceptlist | Invexlist

fun bans_in :: "ban_list \<Rightarrow> Channel \<Rightarrow> Ban list" where
  "bans_in Banlist ch = ch_banlist ch"
| "bans_in Exceptlist ch = ch_exceptlist ch"
| "bans_in Invexlist ch = ch_invexlist ch"

fun set_bans :: "ban_list \<Rightarrow> Ban list \<Rightarrow> Channel \<Rightarrow> Channel" where
  "set_bans Banlist bs ch = ch\<lparr>ch_banlist := bs\<rparr>"
| "set_bans Exceptlist bs ch = ch\<lparr>ch_exceptlist := bs\<rparr>"
| "set_bans Invexlist bs ch = ch\<lparr>ch_invexlist := bs\<rparr>"

fun match_any :: "Ban list \<Rightarrow> string \<Rightarrow> bool option" where
  "match_any [] s = Some False"
| "match_any (b # bs) s = do { m \<leftarrow> match (ban_banstr b) s; if m then Some True else match_any bs s }"

definition bump_serial :: "int \<Rightarrow> Channel \<Rightarrow> Channel" where
  "bump_serial mode_type ch =
     (if mode_type = CHFL_BAN \<or> mode_type = CHFL_EXCEPTION then ch\<lparr>ch_ban_serial := ch_ban_serial ch + 1\<rparr> else ch)"

text \<open>The result is 0 or 1 with the channel; \<open>full\<close> says that \<^verbatim>\<open>ERR_BANLISTFULL\<close> was sent.\<close>

definition add_id ::
  "int \<Rightarrow> int \<Rightarrow> Client \<Rightarrow> Channel \<Rightarrow> string \<Rightarrow> ban_list \<Rightarrow> int \<Rightarrow> (int \<times> bool \<times> Channel) option" where
  "add_id max_bans now source_p chptr banid l mode_type =
     (if MyClient source_p \<and>
         int (length (ch_banlist chptr) + length (ch_exceptlist chptr) + length (ch_invexlist chptr))
           \<ge> max_bans mod 2 ^ 64
      then Some (0, True, chptr)
      else do {
        dup \<leftarrow> (if MyClient source_p then match_any (bans_in l chptr) banid
               else Some (\<exists>b \<in> set (bans_in l chptr). irccmp (ban_banstr b) banid = 0));
        if dup then Some (0, False, chptr)
        else do {
          who \<leftarrow> (if IsClient source_p
                 then src_mask source_p (if IsCloaked source_p then cl_virthost source_p else cl_host source_p)
                 else Some (rb_strlcpy (cl_name source_p) BANLEN));
          let b = (allocate_ban banid who)\<lparr>ban_when := now\<rparr>;
          Some (1, False, bump_serial mode_type (set_bans l (b # bans_in l chptr) chptr))
        }
      })"

fun del_first :: "string \<Rightarrow> Ban list \<Rightarrow> Ban list option" where
  "del_first banid [] = None"
| "del_first banid (b # bs) =
     (if irccmp banid (ban_banstr b) = 0 then Some bs else map_option ((#) b) (del_first banid bs))"

definition del_id :: "Channel \<Rightarrow> cptr \<Rightarrow> ban_list \<Rightarrow> int \<Rightarrow> int \<times> Channel" where
  "del_id chptr banid l mode_type =
     (if EmptyString banid then (0, chptr)
      else case del_first (the banid) (bans_in l chptr) of
             None \<Rightarrow> (0, chptr)
           | Some bs \<Rightarrow> (1, bump_serial mode_type (set_bans l bs chptr)))"

section \<open>The lists as sets of masks\<close>

lemma bans_in_set [simp]:
  "bans_in l (set_bans l bs ch) = bs" "l \<noteq> l' \<Longrightarrow> bans_in l' (set_bans l bs ch) = bans_in l' ch"
  "ch_ban_serial (set_bans l bs ch) = ch_ban_serial ch"
  "bans_in l (bump_serial mt ch) = bans_in l ch"
  by (cases l; cases l'; simp add: bump_serial_def)+

lemma set_bans_keeps [simp]:
  "ch_members (set_bans l bs ch) = ch_members ch" "ch_locmembers (set_bans l bs ch) = ch_locmembers ch"
  "ch_chname (set_bans l bs ch) = ch_chname ch" "ch_invites (set_bans l bs ch) = ch_invites ch"
  "ch_members (bump_serial mt ch) = ch_members ch" "ch_locmembers (bump_serial mt ch) = ch_locmembers ch"
  "ch_chname (bump_serial mt ch) = ch_chname ch" "ch_invites (bump_serial mt ch) = ch_invites ch"
  by (cases l; simp add: bump_serial_def)+

lemma add_id_result:
  assumes "add_id max_bans now src ch banid l mt = Some (r, full, ch')"
  shows "(r = 0 \<and> ch' = ch) \<or>
    (r = 1 \<and> \<not> full \<and> (\<exists>who. ch' =
       bump_serial mt (set_bans l ((allocate_ban banid who)\<lparr>ban_when := now\<rparr> # bans_in l ch) ch)))"
  using assms by (auto simp: add_id_def Let_def split: if_splits Option.bind_splits)

lemma del_id_result:
  "del_id ch banid l mt = (r, ch') \<Longrightarrow>
   (r = 0 \<and> ch' = ch) \<or> (r = 1 \<and> (\<exists>bs. ch' = bump_serial mt (set_bans l bs ch)))"
  by (auto simp: del_id_def split: if_splits option.splits)

section \<open>The ban cache\<close>

text \<open>The full check, without the cache.\<close>

definition ban_verdict :: "stack_mem \<Rightarrow> bool \<Rightarrow> Channel \<Rightarrow> Client \<Rightarrow> bool option" where
  "ban_verdict mem use_except ch who = do {
     ss \<leftarrow> src_masks who;
     a \<leftarrow> ban_loop mem ss (ch_banlist ch);
     e \<leftarrow> (if a \<and> use_except then ban_loop mem ss (ch_exceptlist ch) else Some False);
     Some (a \<and> \<not> e)
   }"

lemma banned_flag [simp]:
  "can_send_banned (m\<lparr>ms_ban_serial := s, ms_flags := f OR CHFL_BANNED\<rparr>)"
  "\<not> can_send_banned (m\<lparr>ms_ban_serial := s, ms_flags := f AND NOT CHFL_BANNED\<rparr>)"
proof -
  have "(f OR CHFL_BANNED) AND CHFL_BANNED = CHFL_BANNED"
    by (rule bit_eqI) (auto simp: bit_simps)
  moreover have "CHFL_BANNED \<noteq> 0" by (simp add: CHFL_BANNED_def)
  ultimately show "can_send_banned (m\<lparr>ms_ban_serial := s, ms_flags := f OR CHFL_BANNED\<rparr>)"
    by (simp add: can_send_banned_def)
  show "\<not> can_send_banned (m\<lparr>ms_ban_serial := s, ms_flags := f AND NOT CHFL_BANNED\<rparr>)"
    by (simp add: can_send_banned_def and.assoc)
qed

lemma is_banned_verdict:
  assumes "MyClient who" "is_banned mem ue ch who (Some m) None = Some (r, m')"
  shows "ban_verdict mem ue ch who = Some (r = CHFL_BAN) \<and>
    (\<exists>f. m' = Some (m\<lparr>ms_ban_serial := ch_ban_serial ch, ms_flags := f\<rparr>) \<and>
         can_send_banned (m\<lparr>ms_ban_serial := ch_ban_serial ch, ms_flags := f\<rparr>) = (r = CHFL_BAN))"
  using assms
  by (auto simp: is_banned_def ban_verdict_def CHFL_BAN_def CHFL_EXCEPTION_def split: if_splits Option.bind_splits)

definition cache_ok :: "bool \<Rightarrow> Channel \<Rightarrow> Client \<Rightarrow> membership \<Rightarrow> bool" where
  "cache_ok ue ch c m \<longleftrightarrow> ms_ban_serial m \<le> ch_ban_serial ch \<and>
     (ms_ban_serial m = 0 \<longrightarrow> \<not> can_send_banned m) \<and>
     (ms_ban_serial m = ch_ban_serial ch \<and> ms_ban_serial m \<noteq> 0 \<longrightarrow>
        (MyClient c \<longrightarrow> (\<exists>mem. ban_verdict mem ue ch c = Some (can_send_banned m))))"

definition bans_ok :: "bool \<Rightarrow> cworld \<Rightarrow> bool" where
  "bans_ok ue w \<longleftrightarrow>
     (\<forall>p ch. cw_channels w p = Some ch \<longrightarrow> ch_ban_serial ch = 0 \<longrightarrow> ch_banlist ch = []) \<and>
     (\<forall>mp m c ch. cw_members w mp = Some m \<longrightarrow> cw_clients w (ms_client_p m) = Some c \<longrightarrow>
        cw_channels w (ms_chptr m) = Some ch \<longrightarrow> cache_ok ue ch c m)"

text \<open>
  Leaving and destroying only take memberships and channels away and touch no field the check
  reads.
\<close>

definition same_bans :: "Channel \<Rightarrow> Channel \<Rightarrow> bool" where
  "same_bans ch ch' \<longleftrightarrow> ch_banlist ch' = ch_banlist ch \<and> ch_exceptlist ch' = ch_exceptlist ch \<and>
     ch_ban_serial ch' = ch_ban_serial ch"

definition same_masks :: "Client \<Rightarrow> Client \<Rightarrow> bool" where
  "same_masks c c' \<longleftrightarrow> src_masks c' = src_masks c \<and> MyClient c' = MyClient c"

definition shrinks :: "cworld \<Rightarrow> cworld \<Rightarrow> bool" where
  "shrinks w w' \<longleftrightarrow> cw_members w' \<subseteq>\<^sub>m cw_members w \<and>
     (\<forall>p ch'. cw_channels w' p = Some ch' \<longrightarrow> (\<exists>ch. cw_channels w p = Some ch \<and> same_bans ch ch')) \<and>
     (\<forall>p c'. cw_clients w' p = Some c' \<longrightarrow> (\<exists>c. cw_clients w p = Some c \<and> same_masks c c'))"

lemma shrinksD:
  assumes "shrinks w w'"
  shows "cw_members w' mp = Some m \<Longrightarrow> cw_members w mp = Some m"
    "cw_channels w' p = Some ch' \<Longrightarrow> \<exists>ch. cw_channels w p = Some ch \<and> same_bans ch ch'"
    "cw_clients w' p = Some c' \<Longrightarrow> \<exists>c. cw_clients w p = Some c \<and> same_masks c c'"
  using assms unfolding shrinks_def by (auto simp: map_le_def dom_def)

lemma shrinks_refl [simp]: "shrinks w w"
  by (simp add: shrinks_def same_bans_def same_masks_def)

lemma shrinks_trans [trans]: "shrinks w w' \<Longrightarrow> shrinks w' w'' \<Longrightarrow> shrinks w w''"
proof -
  assume s: "shrinks w w'" "shrinks w' w''"
  have "same_bans a b \<Longrightarrow> same_bans b c \<Longrightarrow> same_bans a c" for a b c by (simp add: same_bans_def)
  moreover have "same_masks a b \<Longrightarrow> same_masks b c \<Longrightarrow> same_masks a c" for a b c by (simp add: same_masks_def)
  moreover have "cw_members w'' \<subseteq>\<^sub>m cw_members w" using s map_le_trans unfolding shrinks_def by blast
  ultimately show ?thesis
    unfolding shrinks_def using shrinksD(2,3) [OF s(1)] shrinksD(2,3) [OF s(2)] by (intro conjI allI impI) (assumption, meson, meson)
qed

lemma ban_verdict_same: "same_bans ch ch' \<Longrightarrow> same_masks c c' \<Longrightarrow> ban_verdict mem ue ch' c' = ban_verdict mem ue ch c"
  by (simp add: same_bans_def same_masks_def ban_verdict_def cong: if_cong)

lemma cache_ok_same: "cache_ok ue ch c m \<Longrightarrow> same_bans ch ch' \<Longrightarrow> same_masks c c' \<Longrightarrow> cache_ok ue ch' c' m"
  using ban_verdict_same [of ch ch' c c'] by (auto simp: cache_ok_def same_bans_def same_masks_def)

lemma bans_ok_shrinks:
  assumes "bans_ok ue w" "shrinks w w'"
  shows "bans_ok ue w'"
  unfolding bans_ok_def
proof (intro conjI allI impI)
  fix p ch' assume "cw_channels w' p = Some ch'" "ch_ban_serial ch' = 0"
  then show "ch_banlist ch' = []"
    using shrinksD(2) [OF assms(2)] assms(1) unfolding bans_ok_def same_bans_def by metis
next
  fix mp m c' ch' assume h: "cw_members w' mp = Some m" "cw_clients w' (ms_client_p m) = Some c'" "cw_channels w' (ms_chptr m) = Some ch'"
  obtain c ch where "cw_clients w (ms_client_p m) = Some c" "same_masks c c'" "cw_channels w (ms_chptr m) = Some ch" "same_bans ch ch'"
    using shrinksD(2,3) [OF assms(2)] h by metis
  then show "cache_ok ue ch' c' m"
    using shrinksD(1) [OF assms(2) h(1)] assms(1) cache_ok_same unfolding bans_ok_def by metis
qed

lemma masks_simps [simp]:
  "src_masks (c\<lparr>cl_user := u\<rparr>) = src_masks c" "src_masks (c\<lparr>cl_local := l\<rparr>) = src_masks c"
  by (simp_all add: src_masks_def src_mask_def)

lemma shrinks_set_client: "cw_clients w p = Some c \<Longrightarrow> same_masks c c' \<Longrightarrow> shrinks w (set_client p c' w)"
  by (auto simp: shrinks_def same_bans_def) (simp add: same_masks_def)

lemma shrinks_set_channel: "cw_channels w p = Some ch \<Longrightarrow> same_bans ch ch' \<Longrightarrow> shrinks w (set_channel p ch' w)"
  by (auto simp: shrinks_def same_masks_def) (simp add: same_bans_def)

lemma shrinks_upd:
  "shrinks w (w\<lparr>cw_members := (cw_members w)(mp := None)\<rparr>)"
  "shrinks w (w\<lparr>cw_channels := (cw_channels w)(p := None), cw_glist := g, cw_tabs := t\<rparr>)"
  by (auto simp: shrinks_def same_bans_def same_masks_def map_le_def split: if_splits)

lemma del_invite_shrinks: "del_invite p who w = Some w' \<Longrightarrow> shrinks w w'"
proof -
  assume d: "del_invite p who w = Some w'"
  then obtain ch c l where h: "cw_channels w p = Some ch" "cw_clients w who = Some c" "cl_local c = Some l"
    "w' = set_client who (c\<lparr>cl_local := Some (l\<lparr>lu_invited := remove1 p (lu_invited l)\<rparr>)\<rparr>)
            (set_channel p (ch\<lparr>ch_invites := remove1 who (ch_invites ch)\<rparr>) w)"
    by (auto simp: del_invite_def split: Option.bind_splits)
  have "shrinks w (set_channel p (ch\<lparr>ch_invites := remove1 who (ch_invites ch)\<rparr>) w)"
    by (rule shrinks_set_channel [OF h(1)]) (simp add: same_bans_def)
  also have "shrinks \<dots> w'" unfolding h(4)
    by (rule shrinks_set_client [of _ _ c]) (simp_all add: h(2) same_masks_def)
  finally show ?thesis .
qed

lemma del_invites_shrinks: "del_invites p ws w = Some w' \<Longrightarrow> shrinks w w'"
  by (induction ws arbitrary: w) (auto split: Option.bind_splits dest!: del_invite_shrinks intro: shrinks_trans)

lemma destroy_channel_shrinks: "destroy_channel p w = Some w' \<Longrightarrow> shrinks w w'"
  by (auto simp: destroy_channel_def Let_def split: Option.bind_splits
      intro: shrinks_trans [OF del_invites_shrinks shrinks_upd(2)])

lemma leave_channel_shrinks: "leave_channel mp m c w = Some w' \<Longrightarrow> shrinks w w'"
proof -
  assume "leave_channel mp m c w = Some w'"
  then obtain ch mem loc w1 where h: "cw_channels w (ms_chptr m) = Some ch"
    "(if mem = [] then destroy_channel (ms_chptr m) (set_channel (ms_chptr m) (ch\<lparr>ch_members := mem, ch_locmembers := loc\<rparr>) w)
      else Some (set_channel (ms_chptr m) (ch\<lparr>ch_members := mem, ch_locmembers := loc\<rparr>) w)) = Some w1"
    "w' = w1\<lparr>cw_members := (cw_members w1)(mp := None)\<rparr>"
    by (auto simp: leave_channel_def Let_def split: Option.bind_splits)
  have "shrinks w (set_channel (ms_chptr m) (ch\<lparr>ch_members := mem, ch_locmembers := loc\<rparr>) w)"
    by (rule shrinks_set_channel [OF h(1)]) (simp add: same_bans_def)
  also have "shrinks \<dots> w1" using h(2) destroy_channel_shrinks by (auto split: if_splits)
  also have "shrinks w1 w'" unfolding h(3) by (rule shrinks_upd(1))
  finally show ?thesis .
qed

lemma remove_user_from_channel_shrinks: "remove_user_from_channel (Some mp) w = Some w' \<Longrightarrow> shrinks w w'"
proof -
  assume "remove_user_from_channel (Some mp) w = Some w'"
  then obtain m c chans where h: "cw_clients w (ms_client_p m) = Some c"
    "leave_channel mp m c (set_client (ms_client_p m) (c\<lparr>cl_user := Some chans\<rparr>) w) = Some w'"
    by (auto simp: remove_user_from_channel_def split: Option.bind_splits)
  have "shrinks w (set_client (ms_client_p m) (c\<lparr>cl_user := Some chans\<rparr>) w)"
    by (rule shrinks_set_client [OF h(1)]) (simp add: same_masks_def)
  also have "shrinks \<dots> w'" by (rule leave_channel_shrinks [OF h(2)])
  finally show ?thesis .
qed

lemma leave_all_shrinks: "leave_all mps c w = Some w' \<Longrightarrow> shrinks w w'"
  by (induction mps arbitrary: w) (auto split: Option.bind_splits dest!: leave_channel_shrinks intro: shrinks_trans)

lemma remove_user_from_channels_shrinks: "remove_user_from_channels (Some cp) w = Some w' \<Longrightarrow> shrinks w w'"
proof -
  assume "remove_user_from_channels (Some cp) w = Some w'"
  then obtain chans c c' w1 where h: "leave_all chans c w = Some w1" "cw_clients w1 cp = Some c'"
    "w' = set_client cp (c'\<lparr>cl_user := Some []\<rparr>) w1"
    by (auto simp: remove_user_from_channels_def split: Option.bind_splits)
  have "shrinks w w1" by (rule leave_all_shrinks [OF h(1)])
  also have "shrinks w1 w'" unfolding h(3) by (rule shrinks_set_client [OF h(2)]) (simp add: same_masks_def)
  finally show ?thesis .
qed

section \<open>Runs of the channel subsystem\<close>

text \<open>
  Memberships whose cache was just invalidated satisfy the contract with any client; this is why a
  change to another nick invalidates before the name changes.
\<close>

definition same_pairs :: "(ptr \<rightharpoonup> membership) \<Rightarrow> (ptr \<rightharpoonup> membership) \<Rightarrow> bool" where
  "same_pairs ms ms' \<longleftrightarrow> (\<forall>p. map_option (\<lambda>m. (ms_client_p m, ms_chptr m)) (ms' p) = map_option (\<lambda>m. (ms_client_p m, ms_chptr m)) (ms p))"

lemma same_pairs_Some: "same_pairs ms ms' \<Longrightarrow> ms' p = Some m' \<Longrightarrow>
    \<exists>m. ms p = Some m \<and> ms_client_p m = ms_client_p m' \<and> ms_chptr m = ms_chptr m'"
  unfolding same_pairs_def by (metis (mono_tags, lifting) map_option_eq_Some option.map(2) prod.inject)

lemma same_pairs_sym: "same_pairs ms ms' \<Longrightarrow> same_pairs ms' ms"
  by (simp add: same_pairs_def)

lemma same_pairs_mems:
  assumes "same_pairs ms ms'"
  shows "mems_user ms' = mems_user ms" "mems_chan ms' = mems_chan ms" "mems_local ms' = mems_local ms"
proof -
  note s = same_pairs_Some [OF assms] same_pairs_Some [OF same_pairs_sym [OF assms]]
  show "mems_user ms' = mems_user ms" using s by (fastforce simp: fun_eq_iff mems_user_def)
  show "mems_chan ms' = mems_chan ms" using s by (fastforce simp: fun_eq_iff mems_chan_def)
  show "mems_local ms' = mems_local ms" using s unfolding fun_eq_iff mems_local_def by (intro allI Collect_cong) metis
qed

lemma cworld_ok_pairs:
  assumes ok: "cworld_ok w" and sp: "same_pairs (cw_members w) ms"
  shows "cworld_ok (w\<lparr>cw_members := ms\<rparr>)"
proof -
  have "mem_unique (w\<lparr>cw_members := ms\<rparr>)"
    unfolding mem_unique_def
  proof (intro allI impI)
    fix mp m mp' m' assume h: "cw_members (w\<lparr>cw_members := ms\<rparr>) mp = Some m" "cw_members (w\<lparr>cw_members := ms\<rparr>) mp' = Some m'"
      "ms_client_p m = ms_client_p m'" "ms_chptr m = ms_chptr m'"
    obtain n n' where "cw_members w mp = Some n" "cw_members w mp' = Some n'" "ms_client_p n = ms_client_p m" "ms_chptr n = ms_chptr m"
      "ms_client_p n' = ms_client_p m'" "ms_chptr n' = ms_chptr m'"
      using same_pairs_Some [OF sp, of mp m] same_pairs_Some [OF sp, of mp' m'] h(1,2) by auto
    then show "mp = mp'" using cworld_okD(4) [OF ok] h(3,4) unfolding mem_unique_def by metis
  qed
  then show ?thesis
    using ok by (simp add: cworld_ok_def mem_lists_def same_pairs_mems [OF sp] users_ok_def invites_ok_def)
qed

text \<open>
  A nick that differs from the old one only in case gives the same verdicts: \<^verbatim>\<open>match()\<close> compares up to
  case, and the address \<^verbatim>\<open>match_cidr()\<close> compares follows the last \<^verbatim>\<open>@\<close> of a mask, behind the nick.
\<close>

lemma rd_recase:
  assumes "map ToLower s = map ToLower t"
  shows "rel_option (\<lambda>x y. ToLower x = ToLower y) (rd s i) (rd t i)"
proof -
  have l: "length s = length t" using assms by (rule map_eq_imp_length_eq)
  have "ToLower (s ! i) = ToLower (t ! i)" if "i < length s" using assms l that by (metis nth_map)
  then show ?thesis using l by (simp add: rd_def)
qed

lemma ToLower_NUL_iff: "ToLower x = ToLower y \<Longrightarrow> x = NUL \<longleftrightarrow> y = NUL"
  by (metis ToLower_eq_NUL)

lemma match_compare_recase:
  assumes "map ToLower s = map ToLower t"
  shows "match_compare pat s st = match_compare pat t st"
  using rd_recase [OF assms, of "npos st"]
  by (cases "rd s (npos st)"; cases "rd t (npos st)") (auto simp: match_compare_def dest: ToLower_NUL_iff split: Option.bind_splits)

lemma bind_rd_recase:
  assumes "map ToLower s = map ToLower t" "\<And>x y. (x = NUL \<longleftrightarrow> y = NUL) \<Longrightarrow> f x = g y"
  shows "Option.bind (rd s i) f = Option.bind (rd t i) g"
proof (cases "rd s i"; cases "rd t i")
  fix x y assume "rd s i = Some x" "rd t i = Some y"
  then show ?thesis using rd_recase [OF assms(1), of i] assms(2) [OF ToLower_NUL_iff [of x y]] by simp
qed (use rd_recase [OF assms(1), of i] in simp_all)

lemma match_step_recase:
  assumes "map ToLower s = map ToLower t"
  shows "match_step pat s st = match_step pat t st"
  unfolding match_step_def match_compare_recase [OF assms] Let_def
  by (intro Option.bind_cong [OF refl] bind_rd_recase [OF assms]) simp

lemma match_recase:
  assumes "map ToLower s = map ToLower t"
  shows "match pat s = match pat t"
proof -
  have "match_loop n pat s st = match_loop n pat t st" for n st
    by (induction n arbitrary: st) (simp_all add: match_step_recase [OF assms] split: option.splits sum.splits)
  then show ?thesis by (simp add: match_def)
qed

lemma last_at: "\<exists>x y. b @ ''@'' @ h = x @ CHR ''@'' # y \<and> CHR ''@'' \<notin> set y"
  using split_list_last [of "CHR ''@''" "b @ ''@'' @ h"] by simp

lemma match_cidr_recase:
  assumes "map ToLower n' = map ToLower n" "length (n @ b @ ''@'' @ h) < src_size"
  shows "match_cidr ip mk s1 (n' @ b @ ''@'' @ h) = match_cidr ip mk s1 (n @ b @ ''@'' @ h)"
proof -
  obtain x y where xy: "b @ ''@'' @ h = x @ CHR ''@'' # y" "CHR ''@'' \<notin> set y" using last_at by blast
  have l: "length n' = length n" using assms(1) by (rule map_eq_imp_length_eq)
  have "rb_strlcpy (n' @ b @ ''@'' @ h) (NICKLEN + USERLEN + HOSTLEN + 6) = (n' @ x) @ CHR ''@'' # y"
    "rb_strlcpy (n @ b @ ''@'' @ h) (NICKLEN + USERLEN + HOSTLEN + 6) = (n @ x) @ CHR ''@'' # y"
    using assms(2) l by (simp_all add: rb_strlcpy_def src_size_def flip: xy(1))
  moreover have "match msk (n' @ x) = match msk (n @ x)" for msk by (rule match_recase) (simp add: assms(1))
  ultimately show ?thesis using xy(2) by (simp add: match_cidr_def strrchr_split_append del: append_assoc cong: if_cong option.case_cong)
qed

definition recased :: "Client \<Rightarrow> Client \<Rightarrow> bool" where
  "recased c c' \<longleftrightarrow> map ToLower (cl_name c') = map ToLower (cl_name c) \<and> cl_username c' = cl_username c \<and>
     cl_host c' = cl_host c \<and> cl_virthost c' = cl_virthost c \<and> cl_sockhost c' = cl_sockhost c"

lemma src_mask_eq: "src_mask c h = Some s \<Longrightarrow>
    s = cl_name c @ (''!'' @ cl_username c) @ ''@'' @ h \<and> length (cl_name c @ (''!'' @ cl_username c) @ ''@'' @ h) < src_size"
  by (auto simp: src_mask_def Let_def split: if_splits)

lemma src_mask_recase:
  assumes "recased c c'" "src_mask c h = Some s"
  shows "\<exists>s'. src_mask c' h = Some s' \<and> map ToLower s' = map ToLower s \<and>
    (\<forall>ip mk m. match_cidr ip mk m s' = match_cidr ip mk m s)"
proof -
  note s = src_mask_eq [OF assms(2)]
  have l: "length (cl_name c') = length (cl_name c)" using assms(1) unfolding recased_def by (blast intro: map_eq_imp_length_eq)
  let ?s = "cl_name c' @ (''!'' @ cl_username c) @ ''@'' @ h"
  have "src_mask c' h = Some ?s" using s l assms(1) by (simp add: src_mask_def Let_def recased_def)
  moreover have "match_cidr ip mk m ?s = match_cidr ip mk m s" for ip mk m
    using match_cidr_recase [of "cl_name c'" "cl_name c" "''!'' @ cl_username c" h ip mk m] s assms(1) unfolding recased_def by metis
  ultimately show ?thesis using s assms(1) by (intro exI [of _ ?s]) (simp add: recased_def)
qed

lemma ban_loop_recase:
  assumes "map ToLower s' = map ToLower s" "map ToLower s2' = map ToLower s2" "map ToLower s3' = map ToLower s3"
    and "\<And>ip mk m. match_cidr ip mk m s3' = match_cidr ip mk m s3"
  shows "ban_loop (\<lambda>b _. mem b s3) (s', s2', s3') bs = ban_loop mem (s, s2, s3) bs"
  by (induction bs) (simp_all add: ban_matches_def assms(4) match_recase [OF assms(1)] match_recase [OF assms(2)] match_recase [OF assms(3)] cong: if_cong)

lemma ban_verdict_recase:
  assumes "recased c c'" "ban_verdict mem ue ch c = Some b"
  shows "\<exists>mem'. ban_verdict mem' ue ch c' = Some b"
proof -
  obtain s s2 s3 where m: "src_mask c (cl_host c) = Some s" "src_mask c (cl_virthost c) = Some s2" "src_mask c (cl_sockhost c) = Some s3"
    using assms(2) by (auto simp: ban_verdict_def src_masks_def split: Option.bind_splits)
  from src_mask_recase [OF assms(1) m(1)] src_mask_recase [OF assms(1) m(2)] src_mask_recase [OF assms(1) m(3)]
  obtain s' s2' s3' where m': "src_mask c' (cl_host c) = Some s'" "src_mask c' (cl_virthost c) = Some s2'" "src_mask c' (cl_sockhost c) = Some s3'"
    and e: "map ToLower s' = map ToLower s" "map ToLower s2' = map ToLower s2" "map ToLower s3' = map ToLower s3"
      "\<And>ip mk m. match_cidr ip mk m s3' = match_cidr ip mk m s3" by blast
  have "ban_verdict (\<lambda>b _. mem b s3) ue ch c' = ban_verdict mem ue ch c"
    using m m' assms(1) by (simp add: ban_verdict_def src_masks_def recased_def ban_loop_recase [OF e] cong: if_cong)
  then show ?thesis using assms(2) by auto
qed

lemma cache_ok_recase:
  assumes "map ToLower nick = map ToLower (cl_name c)" "cache_ok ue ch c m"
  shows "cache_ok ue ch (c\<lparr>cl_name := nick\<rparr>) m"
proof -
  have "recased c (c\<lparr>cl_name := nick\<rparr>)" using assms(1) by (simp add: recased_def)
  moreover have "MyClient (c\<lparr>cl_name := nick\<rparr>) = MyClient c" by (simp add: MyClient_def IsClient_def MyConnect_def)
  ultimately show ?thesis using assms(2) ban_verdict_recase unfolding cache_ok_def by blast
qed

definition fresh_cache :: "membership \<Rightarrow> membership" where
  "fresh_cache m = m\<lparr>ms_ban_serial := 0, ms_flags := ms_flags m AND NOT CHFL_BANNED\<rparr>"

lemma fresh_cache_ok [simp]: "cache_ok ue ch c (fresh_cache m)"
  by (simp add: cache_ok_def fresh_cache_def)

lemma fresh_cache_pair [simp]: "ms_client_p (fresh_cache m) = ms_client_p m" "ms_chptr (fresh_cache m) = ms_chptr m"
  "fresh_cache (fresh_cache m) = fresh_cache m"
  by (simp_all add: fresh_cache_def and.assoc)

lemma invalidate_loop_spec:
  "set ps \<subseteq> dom ms \<Longrightarrow> \<exists>ms'. invalidate_loop ps ms = Some ms' \<and>
     (\<forall>p. ms' p = (if p \<in> set ps then map_option fresh_cache (ms p) else ms p))"
proof (induction ps arbitrary: ms)
  case (Cons p ps)
  then obtain m where m: "ms p = Some m" by auto
  have "set ps \<subseteq> dom (ms(p \<mapsto> fresh_cache m))" using Cons.prems by auto
  from Cons.IH [OF this] obtain ms' where
    r: "invalidate_loop ps (ms(p \<mapsto> fresh_cache m)) = Some ms'"
    "\<forall>q. ms' q = (if q \<in> set ps then map_option fresh_cache ((ms(p \<mapsto> fresh_cache m)) q) else (ms(p \<mapsto> fresh_cache m)) q)"
    by blast
  have "ms' q = (if q \<in> set (p # ps) then map_option fresh_cache (ms q) else ms q)" for q
    using r(2) m by (cases "q = p") auto
  then show ?case using r(1) m by (simp add: fresh_cache_def)
qed simp

lemma invalidate_spec:
  assumes ok: "cworld_ok w" and c: "cw_clients w cp = Some c" "cl_user c = Some chans"
  shows "\<exists>ms. invalidate_bancache_user (Some cp) w = Some (w\<lparr>cw_members := ms\<rparr>) \<and> same_pairs (cw_members w) ms \<and>
    (\<forall>p m. ms p = Some m \<longrightarrow> (if ms_client_p m = cp then m = fresh_cache (the (cw_members w p)) else cw_members w p = Some m))"
proof -
  have l: "set chans = mems_user (cw_members w) cp"
    using cworld_okD(1) [OF ok, of cp] c by (simp add: is_list_of_def chans_of_def)
  have "set chans \<subseteq> dom (cw_members w)" unfolding l by (auto simp: mems_user_def)
  from invalidate_loop_spec [OF this] obtain ms where
    r: "invalidate_loop chans (cw_members w) = Some ms"
    "\<And>p. ms p = (if p \<in> set chans then map_option fresh_cache (cw_members w p) else cw_members w p)" by blast
  have "same_pairs (cw_members w) ms" by (simp add: same_pairs_def r(2) option.map_comp comp_def)
  moreover have "if ms_client_p m = cp then m = fresh_cache (the (cw_members w p)) else cw_members w p = Some m"
    if "ms p = Some m" for p m
    using that r(2) [of p] unfolding l by (cases "cw_members w p") (auto simp: mems_user_def split: if_splits)
  ultimately show ?thesis using c r(1) by (intro exI [of _ ms]) (simp add: invalidate_bancache_user_def)
qed

text \<open>
  The events.  Handlers give a mode letter with its own list, and the serial number does not reach its
  last value (a channel would need more than four thousand million ban changes in its lifetime).  A
  local nick change (\<^verbatim>\<open>change_local_nick()\<close>) drops the cached verdicts unless only the case of the nick
  changes, a remote one (\<^verbatim>\<open>change_remote_nick()\<close>) never does, and a change by services
  (\<^verbatim>\<open>me_rsfnc()\<close>) always does.
\<close>

fun mode_of :: "ban_list \<Rightarrow> int" where
  "mode_of Banlist = CHFL_BAN"
| "mode_of Exceptlist = CHFL_EXCEPTION"
| "mode_of Invexlist = CHFL_INVEX"

inductive chan_step :: "bool \<Rightarrow> cworld \<Rightarrow> cworld \<Rightarrow> bool" for ue where
  create: "\<lbrakk>name \<noteq> []; cstring name; cw_channels w new = None;
      get_or_create_channel new now cl (Some name) (cw_channels w) (cw_glist w) (cw_tabs w) = Some (r, n, chs, gl, t)\<rbrakk> \<Longrightarrow>
    chan_step ue w (w\<lparr>cw_channels := chs, cw_glist := gl, cw_tabs := t\<rparr>)"
| join: "\<lbrakk>cw_clients w cp = Some c; IsClient c; cl_user c = Some chans; cw_channels w chp = Some ch;
      find_channel_membership chp cp w = Some None; cw_members w new = None; flags AND CHFL_BANNED = 0;
      add_user_to_channel new chp cp flags w = Some w'\<rbrakk> \<Longrightarrow> chan_step ue w w'"
| part: "\<lbrakk>cw_members w mp = Some m; remove_user_from_channel (Some mp) w = Some w'\<rbrakk> \<Longrightarrow> chan_step ue w w'"
| quit: "\<lbrakk>cw_clients w cp = Some c; cl_user c = Some chans; remove_user_from_channels (Some cp) w = Some w'\<rbrakk> \<Longrightarrow> chan_step ue w w'"
| nick: "\<lbrakk>cw_clients w cp = Some c; cl_user c = Some chans; MyClient c; cstring (cl_name c); cstring nick;
      (if irccmp (cl_name c) nick = 0 then Some w else invalidate_bancache_user (Some cp) w) = Some w'\<rbrakk> \<Longrightarrow>
    chan_step ue w (set_client cp (c\<lparr>cl_name := nick\<rparr>) w')"
| remote_nick: "\<lbrakk>cw_clients w cp = Some c; \<not> MyClient c\<rbrakk> \<Longrightarrow> chan_step ue w (set_client cp (c\<lparr>cl_name := nick\<rparr>) w)"
| regain: "\<lbrakk>cw_clients w cp = Some c; cl_user c = Some chans; invalidate_bancache_user (Some cp) w = Some w'\<rbrakk> \<Longrightarrow>
    chan_step ue w (set_client cp (c\<lparr>cl_name := nick\<rparr>) w')"
| ban: "\<lbrakk>cw_channels w chp = Some ch; ch_ban_serial ch \<noteq> -1;
      add_id max_bans now src ch banid l (mode_of l) = Some (r, full, ch')\<rbrakk> \<Longrightarrow> chan_step ue w (set_channel chp ch' w)"
| unban: "\<lbrakk>cw_channels w chp = Some ch; ch_ban_serial ch \<noteq> -1; del_id ch banid l (mode_of l) = (r, ch')\<rbrakk> \<Longrightarrow>
    chan_step ue w (set_channel chp ch' w)"
| speak: "\<lbrakk>msptr = None \<or> msptr = Some mp \<and> membership_of chp cp w mp;
      can_send mem ue quiet_on_ban chp cp msptr w = Some (r, w')\<rbrakk> \<Longrightarrow> chan_step ue w w'"

definition chan_init :: "cworld \<Rightarrow> bool" where
  "chan_init w \<longleftrightarrow> cw_channels w = (\<lambda>_. None) \<and> cw_members w = (\<lambda>_. None) \<and> cw_glist w = [] \<and>
     channelTable (cw_tabs w) = (\<lambda>_. []) \<and> (\<forall>cp. chans_of w cp = []) \<and> users_ok w"

definition chan_inv :: "bool \<Rightarrow> cworld \<Rightarrow> bool" where
  "chan_inv ue w \<longleftrightarrow> cworld_ok w \<and> bans_ok ue w"

lemma chan_init_inv: "chan_init w \<Longrightarrow> chan_inv ue w"
  by (simp add: chan_init_def chan_inv_def cworld_ok_def mem_lists_def is_list_of_def mems_user_def mems_chan_def
      mems_local_def members_of_def locals_of_def mem_unique_def invites_ok_def chan_tab_ok_def tab_ok_def tab_set_def bans_ok_def)

text \<open>A serial number that has not reached its last value grows.\<close>

lemma serial_grows: "s \<noteq> -1 \<Longrightarrow> s < s + (1 :: 32 word)"
  using inc_less_eq_iff by blast

lemma serial_nonzero: "s \<noteq> -1 \<Longrightarrow> s + (1 :: 32 word) \<noteq> 0"
  by (simp add: eq_neg_iff_add_eq_0)

lemma cache_ok_bumped:
  assumes "cache_ok ue ch c m" "ch_ban_serial ch' = ch_ban_serial ch + 1" "ch_ban_serial ch \<noteq> -1"
  shows "cache_ok ue ch' c m"
proof -
  have "ms_ban_serial m < ch_ban_serial ch + 1"
    using assms(1) serial_grows [OF assms(3)] unfolding cache_ok_def by (meson order_le_less_trans)
  then show ?thesis using assms(1,2) by (auto simp: cache_ok_def)
qed

lemma bans_ok_channel:
  assumes ok: "bans_ok ue w" and ch: "cw_channels w p = Some ch"
    and empty: "ch_ban_serial ch' = 0 \<Longrightarrow> ch_banlist ch' = []"
    and cache: "\<And>m c. cache_ok ue ch c m \<Longrightarrow> cache_ok ue ch' c m"
  shows "bans_ok ue (set_channel p ch' w)"
  using ok ch empty cache unfolding bans_ok_def by (auto split: if_splits)

lemma bans_ok_list_change:
  assumes ok: "bans_ok ue w" and ch: "cw_channels w p = Some ch" "ch_ban_serial ch \<noteq> -1"
  shows "bans_ok ue (set_channel p (bump_serial (mode_of l) (set_bans l bs ch)) w)"
proof (cases l)
  case Invexlist
  then have "same_bans ch (bump_serial (mode_of l) (set_bans l bs ch))"
    by (simp add: same_bans_def bump_serial_def CHFL_BAN_def CHFL_EXCEPTION_def CHFL_INVEX_def)
  then show ?thesis using bans_ok_shrinks [OF ok shrinks_set_channel [OF ch(1)]] by blast
next
  case Banlist
  then have s: "ch_ban_serial (bump_serial (mode_of l) (set_bans l bs ch)) = ch_ban_serial ch + 1" by (simp add: bump_serial_def)
  show ?thesis
    by (rule bans_ok_channel [OF ok ch(1)])
      (use s cache_ok_bumped [OF _ s ch(2)] serial_nonzero [OF ch(2)] in auto)
next
  case Exceptlist
  then have s: "ch_ban_serial (bump_serial (mode_of l) (set_bans l bs ch)) = ch_ban_serial ch + 1" by (simp add: bump_serial_def)
  show ?thesis
    by (rule bans_ok_channel [OF ok ch(1)])
      (use s cache_ok_bumped [OF _ s ch(2)] serial_nonzero [OF ch(2)] in auto)
qed

lemma cworld_ok_list_change:
  assumes ok: "cworld_ok w" and ch: "cw_channels w p = Some ch"
    and same: "ch_members ch' = ch_members ch" "ch_locmembers ch' = ch_locmembers ch" "ch_chname ch' = ch_chname ch"
      "ch_invites ch' = ch_invites ch"
  shows "cworld_ok (set_channel p ch' w)"
proof (rule cworld_ok_users_sim [OF ok])
  show "members_of (set_channel p ch' w) = members_of w" "locals_of (set_channel p ch' w) = locals_of w"
    using ch same by (auto simp: fun_eq_iff members_of_def locals_of_def)
  show "chan_tab_ok (cw_channels (set_channel p ch' w)) (cw_glist (set_channel p ch' w)) (cw_tabs (set_channel p ch' w))"
    using cworld_okD(7) [OF ok] ch same by (simp add: chan_tab_ok_update)
qed (use ch same in \<open>auto split: if_splits\<close>)

lemma ban_inv:
  assumes "chan_inv ue w" "cw_channels w chp = Some ch" "ch_ban_serial ch \<noteq> -1"
    and "ch' = ch \<or> ch' = bump_serial (mode_of l) (set_bans l bs ch)"
  shows "chan_inv ue (set_channel chp ch' w)"
proof -
  have "set_channel chp ch w = w" using assms(2) by (cases w) (simp add: set_channel_def fun_upd_idem)
  then show ?thesis using assms bans_ok_list_change cworld_ok_list_change unfolding chan_inv_def by auto
qed

lemma join_inv:
  assumes inv: "chan_inv ue w" and c: "cw_clients w cp = Some c" "IsClient c" "cl_user c = Some chans"
    and ch: "cw_channels w chp = Some ch" and none: "find_channel_membership chp cp w = Some None"
    and new: "cw_members w new = None" "flags AND CHFL_BANNED = 0"
    and run: "add_user_to_channel new chp cp flags w = Some w'"
  shows "chan_inv ue w'"
proof -
  have ok: "cworld_ok w" and b: "bans_ok ue w" using inv by (simp_all add: chan_inv_def)
  have "\<not> membership_of chp cp w mp" for mp
    using find_channel_membership_spec [OF ok c ch] none by auto
  then have ok': "cworld_ok w'"
    using add_user_to_channel_ok [OF ok c ch new(1), of flags] run by auto
  let ?m = "\<lparr>ms_chptr = chp, ms_client_p = cp, ms_flags = flags, ms_ban_serial = 0\<rparr>"
  have w': "cw_members w' = (cw_members w)(new \<mapsto> ?m)" "cw_clients w' = (cw_clients w)(cp \<mapsto> c\<lparr>cl_user := Some (new # chans)\<rparr>)"
    using run c ch by (auto simp: add_user_to_channel_def Let_def)
  obtain ch' where chs: "cw_channels w' = (cw_channels w)(chp \<mapsto> ch')" "same_bans ch ch'"
    using run c ch by (force simp: add_user_to_channel_def Let_def same_bans_def)
  have sh: "shrinks w (w'\<lparr>cw_members := cw_members w\<rparr>)"
    using c ch w'(2) chs by (auto simp: shrinks_def same_bans_def same_masks_def)
  have m: "cache_ok ue x y ?m" for x y using new(2) by (simp add: cache_ok_def can_send_banned_def)
  have "bans_ok ue w'"
    using bans_ok_shrinks [OF b sh] m w'(1) unfolding bans_ok_def by (auto split: if_splits)
  then show ?thesis using ok' by (simp add: chan_inv_def)
qed

lemma create_inv:
  assumes inv: "chan_inv ue w" and name: "name \<noteq> []" "cstring name" and new: "cw_channels w new = None"
    and run: "get_or_create_channel new now cl (Some name) (cw_channels w) (cw_glist w) (cw_tabs w) = Some (r, n, chs, gl, t)"
  shows "chan_inv ue (w\<lparr>cw_channels := chs, cw_glist := gl, cw_tabs := t\<rparr>)" (is "chan_inv ue ?w")
proof -
  have ok: "cworld_ok w" and b: "bans_ok ue w" using inv by (simp_all add: chan_inv_def)
  note i = cworld_okD [OF ok]
  have tab: "chan_tab_ok chs gl t" by (rule get_or_create_ok [OF i(7) name new run])
  define ch' where "ch' = (allocate_channel (chan_request name))\<lparr>ch_channelts := now\<rparr>"
  have chs: "chs = cw_channels w \<or> chs = (cw_channels w)(new \<mapsto> ch')"
    using run name by (auto simp: get_or_create_eq ch'_def split: option.splits)
  have z: "ch_members ch' = []" "ch_locmembers ch' = []" "ch_invites ch' = []" "ch_banlist ch' = []"
    by (simp_all add: ch'_def allocate_channel_def zero_Channel_def)
  have l: "members_of ?w = members_of w" "locals_of ?w = locals_of w"
    using chs new z by (auto simp: fun_eq_iff members_of_def locals_of_def)
  have v: "chans_of ?w = chans_of w" "local_user ?w = local_user w"
    by (auto simp: fun_eq_iff chans_of_def local_user_def)
  have "cworld_ok ?w"
    using ok chs z tab
    by (auto simp: cworld_ok_def mem_lists_def l v mem_unique_def users_ok_def invites_ok_def split: if_splits)
  moreover have none: "ms_chptr m \<noteq> new" if "cw_members w mp = Some m" for mp m
    using membership_live [OF ok that] new by (metis option.distinct(1))
  have "bans_ok ue ?w" using b chs z none unfolding bans_ok_def by (auto split: if_splits)
  ultimately show ?thesis by (simp add: chan_inv_def)
qed

lemma regain_inv:
  assumes inv: "chan_inv ue w" and c: "cw_clients w cp = Some c" "cl_user c = Some chans"
    and run: "invalidate_bancache_user (Some cp) w = Some w'"
  shows "chan_inv ue (set_client cp (c\<lparr>cl_name := nick\<rparr>) w')" (is "chan_inv ue ?w")
proof -
  have ok: "cworld_ok w" and b: "bans_ok ue w" using inv by (simp_all add: chan_inv_def)
  from invalidate_spec [OF ok c] run obtain ms where w': "w' = w\<lparr>cw_members := ms\<rparr>" and sp: "same_pairs (cw_members w) ms"
    and ms: "\<And>p m. ms p = Some m \<Longrightarrow>
      (if ms_client_p m = cp then m = fresh_cache (the (cw_members w p)) else cw_members w p = Some m)" by auto
  have ok1: "cworld_ok w'" unfolding w' by (rule cworld_ok_pairs [OF ok sp])
  have su: "same_user c (c\<lparr>cl_name := nick\<rparr>)" by (simp add: same_user_def IsClient_def MyClient_def MyConnect_def)
  have "cworld_ok ?w"
  proof (rule cworld_ok_users_sim [OF ok1])
    show "users_sim (cw_clients w') (cw_clients ?w)"
      using users_sim_upd [of "cw_clients w'" "cw_clients w'", OF users_sim_refl _ su] c(1) w' by simp
  qed (use cworld_okD(7) [OF ok1] in simp_all)
  moreover have "bans_ok ue ?w"
    unfolding bans_ok_def
  proof (intro conjI allI impI)
    fix p ch assume "cw_channels ?w p = Some ch" "ch_ban_serial ch = 0"
    then show "ch_banlist ch = []" using b w' by (simp add: bans_ok_def)
  next
    fix mp m d ch assume h: "cw_members ?w mp = Some m" "cw_clients ?w (ms_client_p m) = Some d" "cw_channels ?w (ms_chptr m) = Some ch"
    have m: "ms mp = Some m" using h(1) w' by simp
    show "cache_ok ue ch d m"
    proof (cases "ms_client_p m = cp")
      case True
      then have "m = fresh_cache (the (cw_members w mp))" using ms [OF m] by simp
      then show ?thesis by (metis fresh_cache_ok)
    next
      case False
      then show ?thesis using ms [OF m] h w' b by (simp add: bans_ok_def)
    qed
  qed
  ultimately show ?thesis by (simp add: chan_inv_def)
qed

lemma rename_same_user: "same_user c (c\<lparr>cl_name := nick\<rparr>)"
  by (simp add: same_user_def IsClient_def MyClient_def MyConnect_def)

lemma rename_inv:
  assumes inv: "chan_inv ue w" and c: "cw_clients w cp = Some c"
    and cache: "\<And>ch m. cache_ok ue ch c m \<Longrightarrow> cache_ok ue ch (c\<lparr>cl_name := nick\<rparr>) m"
  shows "chan_inv ue (set_client cp (c\<lparr>cl_name := nick\<rparr>) w)" (is "chan_inv ue ?w")
proof -
  have ok: "cworld_ok w" and b: "bans_ok ue w" using inv by (simp_all add: chan_inv_def)
  have "cworld_ok ?w"
  proof (rule cworld_ok_users_sim [OF ok])
    show "users_sim (cw_clients w) (cw_clients ?w)"
      using users_sim_upd [of "cw_clients w" "cw_clients w", OF users_sim_refl _ rename_same_user] c by simp
  qed (use cworld_okD(7) [OF ok] in simp_all)
  moreover have "bans_ok ue ?w" using b c cache unfolding bans_ok_def by (auto split: if_splits)
  ultimately show ?thesis by (simp add: chan_inv_def)
qed

lemma remote_nick_inv:
  assumes "chan_inv ue w" "cw_clients w cp = Some c" "\<not> MyClient c"
  shows "chan_inv ue (set_client cp (c\<lparr>cl_name := nick\<rparr>) w)"
  by (rule rename_inv [OF assms(1,2)]) (use assms(3) rename_same_user [of c nick] in \<open>simp add: cache_ok_def same_user_def\<close>)

lemma nick_inv:
  assumes "chan_inv ue w" "cw_clients w cp = Some c" "cl_user c = Some chans" "cstring (cl_name c)" "cstring nick"
    and run: "(if irccmp (cl_name c) nick = 0 then Some w else invalidate_bancache_user (Some cp) w) = Some w'"
  shows "chan_inv ue (set_client cp (c\<lparr>cl_name := nick\<rparr>) w')"
proof (cases "irccmp (cl_name c) nick = 0")
  case True
  then have "map ToLower nick = map ToLower (cl_name c)" using assms(4,5) by (metis ToLower_map_eq irccmp_eq_0_iff)
  then show ?thesis using rename_inv [OF assms(1,2) cache_ok_recase] run True by simp
qed (use regain_inv [OF assms(1-3)] run in simp)

lemma speak_member_inv:
  assumes inv: "chan_inv ue w" and mo: "membership_of chp cp w mp" and c: "cw_clients w cp = Some c"
    and run: "can_send_member mem ue q chp c mp w = Some (r, w')"
  shows "chan_inv ue w'"
proof -
  have ok: "cworld_ok w" and b: "bans_ok ue w" using inv by (simp_all add: chan_inv_def)
  obtain m where m: "cw_members w mp = Some m" "ms_client_p m = cp" "ms_chptr m = chp" using mo by (auto simp: membership_of_def)
  from run obtain ch where ch: "cw_channels w chp = Some ch" by (auto simp: can_send_member_def split: Option.bind_splits)
  have "w' = w \<or> (MyClient c \<and> (\<exists>r m'. is_banned mem ue ch c (Some m) None = Some (r, Some m') \<and>
      w' = w\<lparr>cw_members := (cw_members w)(mp \<mapsto> m')\<rparr>))"
    using run ch m by (auto simp: can_send_member_def split: if_splits Option.bind_splits)
  then show ?thesis
  proof
    assume "MyClient c \<and> (\<exists>r m'. is_banned mem ue ch c (Some m) None = Some (r, Some m') \<and>
      w' = w\<lparr>cw_members := (cw_members w)(mp \<mapsto> m')\<rparr>)"
    then obtain r m' where h: "MyClient c" "is_banned mem ue ch c (Some m) None = Some (r, Some m')"
      "w' = w\<lparr>cw_members := (cw_members w)(mp \<mapsto> m')\<rparr>" by blast
    from is_banned_verdict [OF h(1,2)] obtain f where f: "ban_verdict mem ue ch c = Some (r = CHFL_BAN)"
      "m' = m\<lparr>ms_ban_serial := ch_ban_serial ch, ms_flags := f\<rparr>" "can_send_banned m' = (r = CHFL_BAN)" by auto
    have "same_pairs (cw_members w) ((cw_members w)(mp \<mapsto> m'))" using m f(2) by (simp add: same_pairs_def)
    then have "cworld_ok w'" unfolding h(3) by (rule cworld_ok_pairs [OF ok])
    moreover have "\<not> can_send_banned m'" if "ch_ban_serial ch = 0"
    proof -
      have "ch_banlist ch = []" using b ch that by (simp add: bans_ok_def)
      then show ?thesis using f(1,3) by (auto simp: ban_verdict_def split: Option.bind_splits)
    qed
    then have "cache_ok ue ch c m'" using f by (auto simp: cache_ok_def)
    then have "bans_ok ue w'" using b ch c m f(2) unfolding bans_ok_def h(3) by (auto split: if_splits)
    ultimately show ?thesis by (simp add: chan_inv_def)
  qed (use inv in simp)
qed

lemma chan_inv_confs: "chan_inv ue w \<Longrightarrow> chan_inv ue (w\<lparr>cw_confs := x\<rparr>)"
proof -
  have "chans_of (w\<lparr>cw_confs := x\<rparr>) = chans_of w" "members_of (w\<lparr>cw_confs := x\<rparr>) = members_of w"
    "locals_of (w\<lparr>cw_confs := x\<rparr>) = locals_of w" "local_user (w\<lparr>cw_confs := x\<rparr>) = local_user w"
    by (auto simp: fun_eq_iff chans_of_def members_of_def locals_of_def local_user_def)
  moreover assume "chan_inv ue w"
  ultimately show ?thesis
    by (simp add: chan_inv_def cworld_ok_def mem_lists_def mem_unique_def users_ok_def invites_ok_def bans_ok_def)
qed

lemma can_send_cases:
  assumes run: "can_send mem ue q chp cp msptr w = Some (r, w')" and c: "cw_clients w cp = Some c"
  obtains (same) "w' = w"
  | (confs) x where "w' = w\<lparr>cw_confs := x\<rparr>"
  | (member) x mp where "can_send_member mem ue q chp c mp (w\<lparr>cw_confs := x\<rparr>) = Some (r, w')"
      "msptr = Some mp \<or> find_channel_membership chp cp (w\<lparr>cw_confs := x\<rparr>) = Some (Some mp)"
proof -
  from run c obtain ch where ch: "cw_channels w chp = Some ch" by (auto simp: can_send_def split: Option.bind_splits)
  show thesis
  proof (cases "IsServer c")
    case True
    then show thesis using run c ch same by (simp add: can_send_def)
  next
    case False
    then obtain resv x where h: "(if MyClient c then hash_find_resv (Some (ch_chname ch)) (cw_confs w) (cw_tabs w)
        else Some (None, cw_confs w)) = Some (resv, x)"
      using run c ch by (auto simp: can_send_def split: Option.bind_splits)
    show thesis
    proof (cases "resv \<noteq> None \<and> \<not> IsOper c \<and> \<not> IsExemptResv c")
      case True
      then show thesis using run c ch h \<open>\<not> IsServer c\<close> confs [of x] by (simp add: can_send_def)
    next
      case no: False
      let ?f = "(case msptr of None \<Rightarrow> find_channel_membership chp cp (w\<lparr>cw_confs := x\<rparr>) | Some mp \<Rightarrow> Some (Some mp))"
      have "Option.bind ?f (\<lambda>msptr. case msptr of
             None \<Rightarrow> Some (if md_mode (ch_mode ch) AND MODE_NOPRIVMSGS \<noteq> 0 \<or> md_mode (ch_mode ch) AND MODE_MODERATED \<noteq> 0
                   then CAN_SEND_NO else CAN_SEND_NONOP, w\<lparr>cw_confs := x\<rparr>)
           | Some mp \<Rightarrow> can_send_member mem ue q chp c mp (w\<lparr>cw_confs := x\<rparr>)) = Some (r, w')"
        using run c ch h \<open>\<not> IsServer c\<close> no by (auto simp: can_send_def Let_def)
      then show thesis using confs [of x] member [of _ x]
        by (cases ?f) (auto split: option.splits)
    qed
  qed
qed

lemma speak_inv:
  assumes inv: "chan_inv ue w" and mp: "msptr = None \<or> msptr = Some mp \<and> membership_of chp cp w mp"
    and run: "can_send mem ue q chp cp msptr w = Some (r, w')"
  shows "chan_inv ue w'"
proof -
  from run obtain c ch where c: "cw_clients w cp = Some c" and ch: "cw_channels w chp = Some ch"
    by (auto simp: can_send_def split: Option.bind_splits)
  from run c show ?thesis
  proof (cases rule: can_send_cases)
    case (member x mp')
    let ?w = "w\<lparr>cw_confs := x\<rparr>"
    have ok: "chan_inv ue ?w" using chan_inv_confs [OF inv] .
    have "membership_of chp cp ?w mp'"
    proof (cases "msptr = Some mp'")
      case True
      then show ?thesis using mp by (simp add: membership_of_def)
    next
      case False
      then have f: "find_channel_membership chp cp ?w = Some (Some mp')" using member(2) by blast
      then obtain chans where "IsClient c" "cl_user c = Some chans"
        using c by (auto simp: find_channel_membership_def split: if_splits Option.bind_splits)
      then show ?thesis
        using find_channel_membership_spec [of ?w cp c chans chp ch] ok c ch f by (auto simp: chan_inv_def)
    qed
    then show ?thesis using speak_member_inv [OF ok _ _ member(1)] c by simp
  qed (use inv chan_inv_confs in auto)
qed

interpretation chan_runs: run_invariant chan_init "chan_step ue" "chan_inv ue" for ue
proof
  show "chan_init s \<Longrightarrow> chan_inv ue s" for s by (rule chan_init_inv)
  show "chan_inv ue t" if "chan_inv ue s" "chan_step ue s t" for s t
    using that(2,1)
  proof (induction rule: chan_step.induct)
    case (part w mp m w')
    then show ?case
      using remove_user_from_channel_ok [of w mp m] bans_ok_shrinks remove_user_from_channel_shrinks
      unfolding chan_inv_def by fastforce
  next
    case (quit w cp c chans w')
    then show ?case
      using remove_user_from_channels_ok [of w cp c chans] bans_ok_shrinks remove_user_from_channels_shrinks
      unfolding chan_inv_def by fastforce
  next
    case (ban w chp ch max_bans now src banid l r full ch')
    then show ?case using add_id_result [OF ban(3)] ban_inv by blast
  next
    case (unban w chp ch banid l r ch')
    then show ?case using del_id_result [OF unban(3)] ban_inv by blast
  qed (blast intro: create_inv join_inv nick_inv remote_nick_inv regain_inv speak_inv)+
qed

subsection \<open>Channels that lose their last member\<close>

text \<open>A channel that loses its members in a change is released by it.\<close>

definition emptied_gone :: "cworld \<Rightarrow> cworld \<Rightarrow> bool" where
  "emptied_gone w w' \<longleftrightarrow> (\<forall>p. members_of w p \<noteq> [] \<longrightarrow> members_of w' p = [] \<longrightarrow> cw_channels w' p = None)"

definition no_new_empty :: "cworld \<Rightarrow> cworld \<Rightarrow> bool" where
  "no_new_empty w w' \<longleftrightarrow> (\<forall>p ch'. cw_channels w' p = Some ch' \<longrightarrow> ch_members ch' = [] \<longrightarrow>
     (\<exists>ch. cw_channels w p = Some ch \<and> ch_members ch = []))"

lemma no_new_empty_trans: "no_new_empty w w' \<Longrightarrow> no_new_empty w' w'' \<Longrightarrow> no_new_empty w w''"
  unfolding no_new_empty_def by metis

lemma no_new_empty_gone: "no_new_empty w w' \<Longrightarrow> emptied_gone w w'"
  unfolding no_new_empty_def emptied_gone_def members_of_def by (fastforce split: option.splits)

lemma emptied_gone_same: "members_of w' = members_of w \<Longrightarrow> emptied_gone w w'"
  by (simp add: emptied_gone_def)

lemma del_invites_others: "del_invites p ws w = Some w' \<Longrightarrow> q \<noteq> p \<Longrightarrow> cw_channels w' q = cw_channels w q"
  by (induction ws arbitrary: w) (auto simp: del_invite_def split: Option.bind_splits)

lemma destroy_channel_others: "destroy_channel p w = Some w' \<Longrightarrow> cw_channels w' q = (if q = p then None else cw_channels w q)"
  by (auto simp: destroy_channel_def Let_def del_invites_others split: Option.bind_splits)

lemma leave_channel_empty: "leave_channel mp m c w = Some w' \<Longrightarrow> no_new_empty w w'"
  by (auto simp: leave_channel_def Let_def no_new_empty_def destroy_channel_others split: Option.bind_splits if_splits)

lemma leave_all_empty: "leave_all mps c w = Some w' \<Longrightarrow> no_new_empty w w'"
proof (induction mps arbitrary: w)
  case (Cons mp mps)
  then show ?case using leave_channel_empty no_new_empty_trans by (auto split: Option.bind_splits) blast
qed (simp add: no_new_empty_def)

lemma remove_user_from_channel_empty: "remove_user_from_channel (Some mp) w = Some w' \<Longrightarrow> no_new_empty w w'"
  by (auto simp: remove_user_from_channel_def no_new_empty_def split: Option.bind_splits dest!: leave_channel_empty)

lemma remove_user_from_channels_empty: "remove_user_from_channels (Some cp) w = Some w' \<Longrightarrow> no_new_empty w w'"
  by (auto simp: remove_user_from_channels_def no_new_empty_def split: Option.bind_splits dest!: leave_all_empty)

lemma can_send_members:
  assumes "can_send mem ue q chp cp msptr w = Some (r, w')"
  shows "members_of w' = members_of w"
proof -
  have "cw_channels w' = cw_channels w"
    using assms by (auto simp: can_send_def can_send_member_def Let_def split: if_splits Option.bind_splits option.splits)
  then show ?thesis by (simp add: fun_eq_iff members_of_def)
qed

lemma chan_step_emptied: "chan_step ue w w' \<Longrightarrow> emptied_gone w w'"
proof (induction rule: chan_step.induct)
  case (create name w new now cl r n chs gl t)
  then have "chs = cw_channels w \<or> (\<exists>ch. chs = (cw_channels w)(new \<mapsto> ch))"
    by (auto simp: get_or_create_eq split: option.splits)
  then show ?case using create(3) by (auto simp: emptied_gone_def members_of_def split: option.splits if_splits)
next
  case (join w cp c chans chp ch new flags w')
  then show ?case by (auto simp: add_user_to_channel_def Let_def emptied_gone_def members_of_def split: option.splits if_splits)
next
  case (part w mp m w')
  then show ?case using remove_user_from_channel_empty no_new_empty_gone by blast
next
  case (quit w cp c chans w')
  then show ?case using remove_user_from_channels_empty no_new_empty_gone by blast
next
  case (nick w cp c chans nick w')
  then show ?case by (auto intro!: emptied_gone_same simp: fun_eq_iff members_of_def invalidate_bancache_user_def split: if_splits Option.bind_splits)
next
  case (remote_nick w cp c nick)
  then show ?case by (auto intro!: emptied_gone_same simp: fun_eq_iff members_of_def)
next
  case (regain w cp c chans w' nick)
  then show ?case by (auto intro!: emptied_gone_same simp: fun_eq_iff members_of_def invalidate_bancache_user_def split: Option.bind_splits)
next
  case (ban w chp ch max_bans now src banid l r full ch')
  then have "ch_members ch' = ch_members ch" using add_id_result [OF ban(3)] by (cases l) (auto simp: bump_serial_def)
  then show ?case using ban(1) by (intro emptied_gone_same) (auto simp: fun_eq_iff members_of_def)
next
  case (unban w chp ch banid l r ch')
  then have "ch_members ch' = ch_members ch" using del_id_result [OF unban(3)] by (cases l) (auto simp: bump_serial_def)
  then show ?case using unban(1) by (intro emptied_gone_same) (auto simp: fun_eq_iff members_of_def)
next
  case (speak msptr mp chp cp w mem quiet_on_ban r w')
  then show ?case using can_send_members emptied_gone_same by blast
qed

section \<open>Properties\<close>

text \<open>
  C7: In every state the channel subsystem reaches by creating channels, joining, leaving,
  quitting, nick changes, setting and removing bans and speaking, each membership is in exactly
  the lists it belongs to, a client is in a channel at most once, the hash table and the global
  list hold exactly the live channels, and every cached ban verdict agrees with the ban lists; and
  a channel that loses its last member in the next step is released by it and gone from the table
  and the list (one that was created and never joined stays). The ban serial is assumed not to
  reach its last 32-bit value.
\<close>

theorem chan_runs_ok:
  assumes "reachable chan_init (chan_step ue) w"
  shows "cworld_ok w \<and> bans_ok ue w \<and>
    (\<forall>w' p. chan_step ue w w' \<longrightarrow> members_of w p \<noteq> [] \<longrightarrow> members_of w' p = [] \<longrightarrow>
       cw_channels w' p = None \<and> p \<notin> set (cw_glist w') \<and> p \<notin> tab_set (channelTable (cw_tabs w')))"
proof -
  have inv: "chan_inv ue w" by (rule chan_runs.inv_reachable [OF assms])
  moreover have "cw_channels w' p = None \<and> p \<notin> set (cw_glist w') \<and> p \<notin> tab_set (channelTable (cw_tabs w'))"
    if step: "chan_step ue w w'" and m: "members_of w p \<noteq> []" "members_of w' p = []" for w' p
  proof -
    have "cw_channels w' p = None" using chan_step_emptied [OF step] m by (simp add: emptied_gone_def)
    moreover have "cworld_ok w'" using chan_runs.inv_step [OF inv step] by (simp add: chan_inv_def)
    ultimately show ?thesis using cworld_okD(7) [of w'] by (auto simp: chan_tab_ok_def)
  qed
  ultimately show ?thesis unfolding chan_inv_def by blast
qed

text \<open>
  C8: With quiet_on_ban, whether a local member without status may speak in an unmoderated,
  unreserved channel is what a full check of the ban and exception lists gives, also when can_send
  answers from the cached verdict.
\<close>

theorem can_send_bans:
  assumes run: "reachable chan_init (chan_step ue) w"
    and m: "cw_members w mp = Some m" "ms_client_p m = cp" "ms_chptr m = chp"
    and c: "cw_clients w cp = Some c" "MyClient c" "src_masks c \<noteq> None"
    and ch: "cw_channels w chp = Some ch" "md_mode (ch_mode ch) AND MODE_MODERATED = 0"
    and v: "\<not> is_chanop_voiced m"
    and resv: "hash_find_resv (Some (ch_chname ch)) (cw_confs w) (cw_tabs w) = Some (None, confs)"
    and send: "can_send mem ue True chp cp (Some mp) w = Some (r, w')"
  shows "\<exists>mem' b. ban_verdict mem' ue ch c = Some b \<and> r = (if b then CAN_SEND_NO else CAN_SEND_NONOP)"
proof -
  have b: "bans_ok ue w" using chan_runs.inv_reachable [OF run] by (simp add: chan_inv_def)
  then have cache: "cache_ok ue ch c m" using m c ch by (simp add: bans_ok_def)
  have "\<not> IsServer c" using c(2) status_exclusive(4) by blast
  then have s: "can_send_member mem ue True chp c mp (w\<lparr>cw_confs := confs\<rparr>) = Some (r, w')"
    using send c(1,2) ch(1) resv by (simp add: can_send_def)
  show ?thesis
  proof (cases "ms_ban_serial m = ch_ban_serial ch")
    case True
    then have r: "r = (if can_send_banned m then CAN_SEND_NO else CAN_SEND_NONOP)"
      using s m ch v c(2) by (auto simp: can_send_member_def)
    show ?thesis
    proof (cases "ms_ban_serial m = 0")
      case zero: True
      then have "ch_banlist ch = []" using b ch(1) True by (simp add: bans_ok_def)
      then have "ban_verdict mem ue ch c = Some False" using c(3) by (auto simp: ban_verdict_def)
      moreover have "\<not> can_send_banned m" using cache zero unfolding cache_ok_def by blast
      ultimately show ?thesis using r by (intro exI [of _ mem] exI [of _ False]) simp
    next
      case False
      then obtain mem' where "ban_verdict mem' ue ch c = Some (can_send_banned m)"
        using cache True c(2) unfolding cache_ok_def by blast
      then show ?thesis using r by blast
    qed
  next
    case False
    then obtain r' m' where "is_banned mem ue ch c (Some m) None = Some (r', m')"
      "r = (if r' = CHFL_BAN then CAN_SEND_NO else CAN_SEND_NONOP)"
      using s m ch v c(2) by (auto simp: can_send_member_def split: Option.bind_splits)
    then show ?thesis using is_banned_verdict [OF c(2)] by blast
  qed
qed

theorem add_del_id:
  assumes add: "add_id max_bans now src ch banid l mt = Some (1, full, ch')"
    and len: "length banid < BANLEN" "banid \<noteq> []"
  shows "del_id ch' (Some banid) l mt = (1, bump_serial mt (bump_serial mt ch))"
proof -
  obtain who where ch': "ch' = bump_serial mt (set_bans l ((allocate_ban banid who)\<lparr>ban_when := now\<rparr> # bans_in l ch) ch)"
    using add_id_result [OF add] by auto
  have "ban_banstr (allocate_ban banid who) = banid"
    using len by (simp add: allocate_ban_def rb_strndup_def rb_strlcpy_def)
  then have "del_first banid (bans_in l ch') = Some (bans_in l ch)" by (simp add: ch')
  moreover have "set_bans l (bans_in l ch) ch' = bump_serial mt ch"
    by (cases l; cases ch) (simp_all add: ch' bump_serial_def)
  ultimately show ?thesis using len by (simp add: del_id_def)
qed

theorem long_ban_stays:
  assumes add: "add_id max_bans now src ch banid l mt = Some (1, full, ch')"
    and len: "BANLEN \<le> length banid" "cstring banid" and none: "del_first banid (bans_in l ch) = None"
  shows "del_id ch' (Some banid) l mt = (0, ch')"
proof -
  obtain who where ch': "ch' = bump_serial mt (set_bans l ((allocate_ban banid who)\<lparr>ban_when := now\<rparr> # bans_in l ch) ch)"
    using add_id_result [OF add] by auto
  have "irccmp banid (take (BANLEN - 1) banid) \<noteq> 0"
    by (rule irccmp_shorter) (use len in \<open>simp_all add: BANLEN_def NICKLEN_def USERLEN_def HOSTLEN_def\<close>)
  then have "irccmp banid (ban_banstr (allocate_ban banid who)) \<noteq> 0"
    by (simp add: allocate_ban_def rb_strndup_def rb_strlcpy_def)
  then show ?thesis using none by (simp add: del_id_def ch')
qed

section \<open>A concrete run\<close>

definition sample_user :: Client where
  "sample_user = zero_Client\<lparr>cl_name := ''bob'', cl_username := ''b'', cl_host := ''h.it'', cl_virthost := ''v.it'',
     cl_sockhost := ''10.0.0.1'', cl_status := STAT_CLIENT, cl_flags := FLAGS_MYCONNECT, cl_user := Some [],
     cl_servptr := Some 0, cl_local := Some zero_LocalUser\<rparr>"

definition sample_chan :: Channel where
  "sample_chan = (allocate_channel ''#it'')\<lparr>ch_channelts := 100\<rparr>"

definition sample_start :: cworld where
  "sample_start = \<lparr>cw_clients = [1 \<mapsto> sample_user], cw_channels = (\<lambda>_. None), cw_members = (\<lambda>_. None), cw_glist = [],
     cw_tabs = zero_tabs, cw_confs = (\<lambda>_. None), cw_me = 0\<rparr>"

definition sample_created :: cworld where
  "sample_created = sample_start\<lparr>cw_channels := [5 \<mapsto> sample_chan], cw_glist := [5],
     cw_tabs := zero_tabs\<lparr>channelTable := bucket_add (hash_channel ''#it'') 5 (channelTable zero_tabs)\<rparr>\<rparr>"

definition sample_member :: membership where
  "sample_member = \<lparr>ms_chptr = 5, ms_client_p = 1, ms_flags = CHFL_PEON, ms_ban_serial = 0\<rparr>"

definition sample_joined :: cworld where
  "sample_joined = set_client 1 (sample_user\<lparr>cl_user := Some [7]\<rparr>)
     (set_channel 5 (sample_chan\<lparr>ch_members := [7], ch_locmembers := [7]\<rparr>)
       (sample_created\<lparr>cw_members := [7 \<mapsto> sample_member]\<rparr>))"

lemma sample_user_local: "MyClient sample_user" "IsClient sample_user"
  by (simp_all add: sample_user_def MyClient_def MyConnect_def IsClient_def FLAGS_MYCONNECT_def STAT_CLIENT_def)

lemma sample_start_init: "chan_init sample_start"
  using sample_user_local
  by (simp add: chan_init_def sample_start_def zero_tabs_def chans_of_def users_ok_def sample_user_def)

lemma sample_create: "chan_step ue sample_start sample_created"
proof -
  have "get_or_create_channel 5 100 zero_Client (Some ''#it'') (cw_channels sample_start) (cw_glist sample_start) (cw_tabs sample_start) =
    Some (Some (5, True), False, [5 \<mapsto> sample_chan], [5],
      zero_tabs\<lparr>channelTable := bucket_add (hash_channel ''#it'') 5 (channelTable zero_tabs)\<rparr>)"
    by (simp add: get_or_create_eq sample_start_def zero_tabs_def chan_request_def CHANNELLEN_def sample_chan_def)
  from chan_step.create [OF _ _ _ this] show ?thesis
    by (simp add: cstring_def NUL_def sample_start_def sample_created_def)
qed

lemma sample_join: "chan_step ue sample_created sample_joined"
proof (rule chan_step.join)
  show "cw_clients sample_created 1 = Some sample_user" "cl_user sample_user = Some []"
    "cw_channels sample_created 5 = Some sample_chan" "cw_members sample_created 7 = None"
    "find_channel_membership 5 1 sample_created = Some None"
    by (simp_all add: sample_created_def sample_start_def find_channel_membership_def sample_user_local)
      (simp_all add: sample_user_def)
  show "IsClient sample_user" by (rule sample_user_local)
  show "add_user_to_channel 7 5 1 CHFL_PEON sample_created = Some sample_joined"
    using sample_user_local
    by (simp add: add_user_to_channel_def sample_joined_def sample_created_def sample_start_def sample_member_def Let_def)
      (simp add: sample_user_def sample_chan_def allocate_channel_def zero_Channel_def)
qed (simp add: CHFL_PEON_def)

lemma sample_reachable: "reachable chan_init (chan_step ue) sample_joined"
  using sample_start_init sample_create sample_join by (blast intro: reachable.intros)

theorem chan_runs_ok_witness:
  "cworld_ok sample_joined \<and> bans_ok True sample_joined \<and>
   (\<exists>w'. remove_user_from_channel (Some 7) sample_joined = Some w' \<and>
      cw_channels w' 5 = None \<and> 5 \<notin> set (cw_glist w') \<and> 5 \<notin> tab_set (channelTable (cw_tabs w')))"
proof -
  note w = chan_runs_ok [OF sample_reachable, of True]
  have m: "cw_members sample_joined 7 = Some sample_member" "members_of sample_joined 5 = [7]" "ms_chptr sample_member = 5"
    by (simp_all add: members_of_def sample_joined_def sample_member_def)
  obtain w' where r: "remove_user_from_channel (Some 7) sample_joined = Some w'" "cw_channels w' 5 = None"
    using remove_user_from_channel_ok [OF conjunct1 [OF w] m(1)] m(2,3) by auto
  then have "members_of w' 5 = []" by (simp add: members_of_def)
  then show ?thesis using w chan_step.part [OF m(1) r(1), of True] r(1) m(2) by (metis list.distinct(1))
qed

theorem can_send_bans_witness:
  "\<exists>mem' b. ban_verdict mem' True (sample_chan\<lparr>ch_members := [7], ch_locmembers := [7]\<rparr>) (sample_user\<lparr>cl_user := Some [7]\<rparr>) = Some b \<and>
     CAN_SEND_NONOP = (if b then CAN_SEND_NO else CAN_SEND_NONOP)"
proof (rule can_send_bans [OF sample_reachable])
  show "cw_members sample_joined 7 = Some sample_member" "ms_client_p sample_member = 1" "ms_chptr sample_member = 5"
    "cw_clients sample_joined 1 = Some (sample_user\<lparr>cl_user := Some [7]\<rparr>)" "MyClient (sample_user\<lparr>cl_user := Some [7]\<rparr>)"
    "cw_channels sample_joined 5 = Some (sample_chan\<lparr>ch_members := [7], ch_locmembers := [7]\<rparr>)"
    using sample_user_local by (simp_all add: sample_joined_def sample_member_def)
  show "src_masks (sample_user\<lparr>cl_user := Some [7]\<rparr>) \<noteq> None"
    by (simp add: src_masks_def src_mask_def src_size_def sample_user_def NICKLEN_def USERLEN_def HOSTLEN_def)
  show "md_mode (ch_mode (sample_chan\<lparr>ch_members := [7], ch_locmembers := [7]\<rparr>)) AND MODE_MODERATED = 0"
    "\<not> is_chanop_voiced sample_member"
    by (simp_all add: sample_chan_def allocate_channel_def zero_Channel_def sample_member_def is_chanop_voiced_def CHFL_PEON_def)
  show resv: "hash_find_resv (Some (ch_chname (sample_chan\<lparr>ch_members := [7], ch_locmembers := [7]\<rparr>))) (cw_confs sample_joined)
      (cw_tabs sample_joined) = Some (None, (\<lambda>_. None))"
    by (simp add: hash_find_resv_def sample_joined_def sample_created_def sample_start_def zero_tabs_def)
  have "\<not> IsServer (sample_user\<lparr>cl_user := Some [7]\<rparr>)"
    by (simp add: IsServer_def sample_user_def STAT_CLIENT_def STAT_SERVER_def)
  then show "can_send (\<lambda>_ _. (\<lambda>_. [], \<lambda>_. [])) True True 5 1 (Some 7) sample_joined =
      Some (CAN_SEND_NONOP, sample_joined\<lparr>cw_confs := (\<lambda>_. None)\<rparr>)"
    using resv sample_user_local
    by (simp add: can_send_def can_send_member_def sample_joined_def sample_member_def is_chanop_voiced_def can_send_banned_def
        CHFL_PEON_def sample_chan_def allocate_channel_def zero_Channel_def)
qed

theorem add_del_id_witness:
  "\<exists>ch'. add_id 25 0 zero_Client sample_chan ''*!*@evil'' Banlist CHFL_BAN = Some (1, False, ch') \<and>
     del_id ch' (Some ''*!*@evil'') Banlist CHFL_BAN = (1, bump_serial CHFL_BAN (bump_serial CHFL_BAN sample_chan))"
proof -
  have "add_id 25 0 zero_Client sample_chan ''*!*@evil'' Banlist CHFL_BAN \<noteq> None \<and>
    (\<exists>ch'. add_id 25 0 zero_Client sample_chan ''*!*@evil'' Banlist CHFL_BAN = Some (1, False, ch'))"
    by (simp add: add_id_def sample_chan_def allocate_channel_def zero_Channel_def zero_Client_def MyClient_def MyConnect_def
        IsClient_def STAT_CLIENT_def)
  then obtain ch' where a: "add_id 25 0 zero_Client sample_chan ''*!*@evil'' Banlist CHFL_BAN = Some (1, False, ch')" by blast
  from add_del_id [OF a] a show ?thesis by (simp add: BANLEN_def NICKLEN_def USERLEN_def HOSTLEN_def)
qed

theorem long_ban_stays_witness:
  "\<exists>ch'. add_id 25 0 zero_Client sample_chan (replicate 109 CHR ''a'') Banlist CHFL_BAN = Some (1, False, ch') \<and>
     del_id ch' (Some (replicate 109 CHR ''a'')) Banlist CHFL_BAN = (0, ch')"
proof -
  have "\<exists>ch'. add_id 25 0 zero_Client sample_chan (replicate 109 CHR ''a'') Banlist CHFL_BAN = Some (1, False, ch')"
    by (simp add: add_id_def sample_chan_def allocate_channel_def zero_Channel_def zero_Client_def MyClient_def MyConnect_def
        IsClient_def STAT_CLIENT_def)
  then obtain ch' where a: "add_id 25 0 zero_Client sample_chan (replicate 109 CHR ''a'') Banlist CHFL_BAN = Some (1, False, ch')" by blast
  have "del_first (replicate 109 CHR ''a'') (bans_in Banlist sample_chan) = None"
    by (simp add: sample_chan_def allocate_channel_def zero_Channel_def)
  from long_ban_stays [OF a _ _ this] a show ?thesis
    by (simp add: BANLEN_def NICKLEN_def USERLEN_def HOSTLEN_def cstring_def NUL_def)
qed

end
