(* ===== verification/Chan_Info.thy ===== *)
theory Chan_Info
  imports Bans
begin

text \<open>
  The rest of \<^verbatim>\<open>libratboxcore/channel.c\<close>: channel names and visibility, the NAMES listing, topics, the mode
  summary \<^verbatim>\<open>channel_modes\<close>, the spambot and netsplit counters, and the counts of linked servers per
  combination of channel capabilities.  Text that \<^verbatim>\<open>rb_sprintf\<close> writes into a fixed buffer is
  \<^term>\<open>None\<close> when it does not fit.

  The properties: NAMES shows exactly the visible members, in order, in lines that fit the protocol's limit, and
  the capability counts are right for every sequence of links and splits of servers.
\<close>

section \<open>Decimal numbers\<close>

text \<open>\<^verbatim>\<open>%d\<close> and \<^verbatim>\<open>%ld\<close>.\<close>

fun nat_str :: "nat \<Rightarrow> string" where
  "nat_str n = (if n < 10 then [char_of (48 + n)] else nat_str (n div 10) @ [char_of (48 + n mod 10)])"

declare nat_str.simps [simp del]

definition int_str :: "int \<Rightarrow> string" where
  "int_str i = (if i < 0 then CHR ''-'' # nat_str (nat (- i)) else nat_str (nat i))"

definition digit_char :: "char \<Rightarrow> bool" where
  "digit_char c \<longleftrightarrow> 48 \<le> (of_char c :: nat) \<and> (of_char c :: nat) \<le> 57"

lemma nat_str_digits: "c \<in> set (nat_str n) \<Longrightarrow> digit_char c"
  by (induction n rule: nat_str.induct) (subst (asm) (2) nat_str.simps, auto simp: digit_char_def split: if_splits)

lemma nat_str_ne [simp]: "nat_str n \<noteq> []"
  by (subst nat_str.simps) simp

lemma of_char_digit: "digit_char c \<longleftrightarrow> 48 \<le> (of_char c :: int) \<and> (of_char c :: int) \<le> 57"
proof -
  have "(of_char c :: int) = int (of_char c)" by (simp only: of_nat_of_char)
  then show ?thesis unfolding digit_char_def by linarith
qed

lemma atoi_digits_append:
  "(\<And>c. c \<in> set a \<Longrightarrow> digit_char c) \<Longrightarrow> atoi_digits v (a @ s) = atoi_digits (atoi_digits v a) s"
  by (induction a arbitrary: v) (auto simp: of_char_digit)

lemma atoi_nat_str: "atoi_digits 0 (nat_str n) = int n"
proof (induction n rule: nat_str.induct)
  case (1 n)
  have d: "atoi_digits v [char_of (48 + k)] = v * 10 + int k" if "k < 10" for v k
  proof -
    have "(of_char (char_of (48 + k) :: char) :: int) = int (of_char (char_of (48 + k) :: char))"
      by (simp only: of_nat_of_char)
    also have "\<dots> = 48 + int k" using that by simp
    finally show ?thesis using that by simp
  qed
  show ?case
  proof (cases "n < 10")
    case True
    then show ?thesis using d [of n 0] by (simp add: nat_str.simps [of n])
  next
    case False
    then have "atoi_digits 0 (nat_str n) = atoi_digits (int (n div 10)) [char_of (48 + n mod 10)]"
      using 1 by (simp add: nat_str.simps [of n] atoi_digits_append nat_str_digits del: atoi_digits.simps)
    also have "\<dots> = int (n div 10) * 10 + int (n mod 10)" by (rule d) simp
    finally show ?thesis by (metis div_mult_mod_eq of_nat_add of_nat_mult of_nat_numeral)
  qed
qed

lemma nat_str_length: "n < 10 ^ k \<Longrightarrow> 0 < k \<Longrightarrow> length (nat_str n) \<le> k"
proof (induction k arbitrary: n)
  case (Suc k)
  show ?case
  proof (cases "n < 10")
    case False
    then have "k \<noteq> 0" using Suc.prems by (cases k) auto
    then have "length (nat_str (n div 10)) \<le> k" using Suc by (auto simp: less_mult_imp_div_less)
    then show ?thesis using False by (simp add: nat_str.simps [of n])
  qed (simp add: nat_str.simps [of n])
qed simp

section \<open>Names and visibility\<close>

definition check_channel_name :: "cptr \<Rightarrow> bool" where
  "check_channel_name name = (case name of None \<Rightarrow> False | Some s \<Rightarrow> list_all IsChanChar s)"

definition SecretChannel :: "Channel \<Rightarrow> bool" where
  "SecretChannel ch \<longleftrightarrow> md_mode (ch_mode ch) AND MODE_SECRET \<noteq> 0"

definition HiddenChannel :: "Channel \<Rightarrow> bool" where
  "HiddenChannel ch \<longleftrightarrow> md_mode (ch_mode ch) AND MODE_PRIVATE \<noteq> 0"

definition PubChannel :: "Channel \<Rightarrow> bool" where
  "PubChannel ch \<longleftrightarrow> md_mode (ch_mode ch) AND (MODE_PRIVATE OR MODE_SECRET) = 0"

definition IsMember :: "ptr \<Rightarrow> ptr \<Rightarrow> cworld \<Rightarrow> bool option" where
  "IsMember who chan w = do {
     c \<leftarrow> cw_clients w who;
     if cl_user c = None then Some False
     else do { m \<leftarrow> find_channel_membership chan who w; Some (m \<noteq> None) }
   }"

definition ShowChannel :: "ptr \<Rightarrow> ptr \<Rightarrow> cworld \<Rightarrow> bool option" where
  "ShowChannel v c w = do {
     ch \<leftarrow> cw_channels w c;
     if PubChannel ch then Some True else IsMember v c w
   }"

definition channel_pub_or_secret :: "Channel \<Rightarrow> string" where
  "channel_pub_or_secret ch = (if PubChannel ch then ''='' else if SecretChannel ch then ''@'' else ''*'')"

section \<open>NAMES\<close>

definition CLICAP_MULTI_PREFIX :: "32 word" where "CLICAP_MULTI_PREFIX = 0x0001"

definition IsCapable :: "LocalUser \<Rightarrow> 32 word \<Rightarrow> bool" where
  "IsCapable x cap \<longleftrightarrow> lu_caps x AND cap = cap"

definition NotCapable :: "LocalUser \<Rightarrow> 32 word \<Rightarrow> bool" where
  "NotCapable x cap \<longleftrightarrow> lu_caps x AND cap = 0"

text \<open>The formats of \<^verbatim>\<open>RPL_NAMREPLY\<close> and \<^verbatim>\<open>RPL_ENDOFNAMES\<close> in \<^verbatim>\<open>messages.tab\<close>.\<close>

definition namreply :: "string \<Rightarrow> string \<Rightarrow> Channel \<Rightarrow> string" where
  "namreply me nick ch =
     '':'' @ me @ '' 353 '' @ nick @ '' '' @ channel_pub_or_secret ch @ '' '' @ ch_chname ch @ '' :''"

definition endofnames :: "string \<Rightarrow> string \<Rightarrow> Channel \<Rightarrow> string" where
  "endofnames me nick ch = '':'' @ me @ '' 366 '' @ nick @ '' '' @ ch_chname ch @ '' :End of /NAMES list.''"

text \<open>
  The loop over the members: \<open>lbuf\<close> is the text in the buffer, \<open>mlen\<close> the length of its header and \<open>out\<close> the
  lines sent so far; \<open>cur_len\<close> is the length of \<open>lbuf\<close>.
\<close>

fun names_loop ::
  "bool \<Rightarrow> bool \<Rightarrow> cworld \<Rightarrow> nat \<Rightarrow> ptr list \<Rightarrow> string \<Rightarrow> string list \<Rightarrow> (string \<times> string list) option" where
  "names_loop stack is_member w mlen [] lbuf out = Some (lbuf, out)"
| "names_loop stack is_member w mlen (mp # mps) lbuf out = do {
     msptr \<leftarrow> cw_members w mp;
     target_p \<leftarrow> cw_clients w (ms_client_p msptr);
     if IsInvisible target_p \<and> \<not> is_member then names_loop stack is_member w mlen mps lbuf out
     else do {
       let (lbuf, out) = (if length lbuf + length (cl_name target_p) + 4 \<ge> BUFSIZE - 4
                          then (take mlen lbuf, out @ [butlast lbuf]) else (lbuf, out));
       let lbuf = lbuf @ find_channel_status msptr stack @ cl_name target_p @ '' '';
       if length lbuf < BUFSIZE then names_loop stack is_member w mlen mps lbuf out else None
     }
   }"

text \<open>
  The lines sent to the client.  \<^verbatim>\<open>SetCork\<close> and \<^verbatim>\<open>ClearCork\<close> hold its output back meanwhile and leave the cork
  count as it was.
\<close>

definition channel_member_names :: "string \<Rightarrow> ptr \<Rightarrow> ptr \<Rightarrow> bool \<Rightarrow> cworld \<Rightarrow> string list option" where
  "channel_member_names me chptr client_p show_eon w = do {
     c \<leftarrow> cw_clients w client_p;
     ch \<leftarrow> cw_channels w chptr;
     lu \<leftarrow> cl_local c;
     let stack = IsCapable lu CLICAP_MULTI_PREFIX;
     shown \<leftarrow> ShowChannel client_p chptr w;
     out \<leftarrow> (if shown then do {
         is_member \<leftarrow> IsMember client_p chptr w;
         let lbuf = namreply me (cl_name c) ch;
         let mlen = length lbuf;
         if mlen < BUFSIZE then do {
           (lbuf, out) \<leftarrow> names_loop stack is_member w mlen (ch_members ch) lbuf [];
           Some (if length lbuf \<noteq> mlen then out @ [butlast lbuf] else out)
         } else None
       } else Some []);
     Some (if show_eon then out @ [endofnames me (cl_name c) ch] else out)
   }"

section \<open>Topics\<close>

definition USERHOST_REPLYLEN :: nat where "USERHOST_REPLYLEN = NICKLEN + HOSTLEN + USERLEN + 5"

definition allocate_topic :: "Channel \<Rightarrow> Channel" where
  "allocate_topic ch = ch\<lparr>ch_topic := Some \<lparr>tp_topic = [], tp_topic_info = [], tp_topic_time = 0\<rparr>\<rparr>"

definition set_channel_topic :: "nat \<Rightarrow> Channel \<Rightarrow> string \<Rightarrow> string \<Rightarrow> int \<Rightarrow> Channel option" where
  "set_channel_topic topiclen ch topic topic_info topicts =
     (if topic \<noteq> [] then do {
        let ch = (if ch_topic ch = None then allocate_topic ch else ch);
        tp \<leftarrow> ch_topic ch;
        Some (ch\<lparr>ch_topic := Some (tp\<lparr>tp_topic := rb_strndup topic (topiclen + 1),
          tp_topic_info := rb_strlcpy topic_info USERHOST_REPLYLEN, tp_topic_time := topicts\<rparr>)\<rparr>)
      }
      else Some (if ch_topic ch \<noteq> None then free_topic ch else ch))"

section \<open>The mode summary\<close>

definition mode_letters :: "32 word \<Rightarrow> string" where
  "mode_letters m =
     (if m AND MODE_SECRET \<noteq> 0 then ''s'' else []) @
     (if m AND MODE_PRIVATE \<noteq> 0 then ''p'' else []) @
     (if m AND MODE_MODERATED \<noteq> 0 then ''m'' else []) @
     (if m AND MODE_TOPICLIMIT \<noteq> 0 then ''t'' else []) @
     (if m AND MODE_INVITEONLY \<noteq> 0 then ''i'' else []) @
     (if m AND MODE_NOPRIVMSGS \<noteq> 0 then ''n'' else []) @
     (if m AND MODE_REGONLY \<noteq> 0 then ''r'' else []) @
     (if m AND MODE_SSLONLY \<noteq> 0 then ''S'' else []) @
     (if m AND MODE_SPAMPLEASE \<noteq> 0 then ''x'' else [])"

definition channel_modes :: "ptr \<Rightarrow> ptr \<Rightarrow> cworld \<Rightarrow> string option" where
  "channel_modes chptr client_p w = do {
     ch \<leftarrow> cw_channels w chptr;
     c \<leftarrow> cw_clients w client_p;
     let md = ch_mode ch;
     let mbuf = ''+'' @ mode_letters (md_mode md);
     full \<leftarrow> (if md_limit md = 0 \<and> md_key md = [] then Some False
              else if IsMe c \<or> \<not> MyClient c then Some True else IsMember client_p chptr w);
     let s = (if md_limit md \<noteq> 0 \<and> md_key md \<noteq> [] then
                (if full then ''lk '' @ int_str (md_limit md) @ '' '' @ md_key md else ''lk'')
              else if md_limit md \<noteq> 0 then (if full then ''l '' @ int_str (md_limit md) else ''l'')
              else if md_key md \<noteq> [] then (if full then ''k '' @ md_key md else ''k'')
              else []);
     if length (mbuf @ s) < BUFSIZE then Some (mbuf @ s) else None
   }"

section \<open>Spambots and netsplits\<close>

definition OPER_SPAM_COUNTDOWN :: "8 word" where "OPER_SPAM_COUNTDOWN = 5"
definition JOIN_LEAVE_COUNT_EXPIRE_TIME :: int where "JOIN_LEAVE_COUNT_EXPIRE_TIME = 120"

text \<open>The result says whether the operators are warned; \<open>joining\<close> is \<^verbatim>\<open>name != NULL\<close>.\<close>

definition check_spambot_warning :: "int \<Rightarrow> int \<Rightarrow> int \<Rightarrow> bool \<Rightarrow> LocalUser \<Rightarrow> LocalUser \<times> bool" where
  "check_spambot_warning spam_num spam_time now joining u =
     (if spam_num \<noteq> 0 \<and> lu_join_leave_count u \<ge> spam_num then
        let n = (if lu_oper_warn_count_down u > 0 then lu_oper_warn_count_down u - 1 else 0)
        in if n = 0 then (u\<lparr>lu_oper_warn_count_down := OPER_SPAM_COUNTDOWN\<rparr>, True)
           else (u\<lparr>lu_oper_warn_count_down := n\<rparr>, False)
      else
        let t_delta = sint (word_of_int (now - lu_last_leave_time u) :: 32 word);
            u = (if t_delta > JOIN_LEAVE_COUNT_EXPIRE_TIME then
                   let decrement_count = t_delta div JOIN_LEAVE_COUNT_EXPIRE_TIME
                   in if decrement_count > lu_join_leave_count u then u\<lparr>lu_join_leave_count := 0\<rparr>
                      else u\<lparr>lu_join_leave_count := lu_join_leave_count u - decrement_count\<rparr>
                 else if now - lu_last_join_time u < spam_time
                 then u\<lparr>lu_join_leave_count := lu_join_leave_count u + 1\<rparr> else u)
        in (if joining then u\<lparr>lu_last_join_time := now\<rparr> else u\<lparr>lu_last_leave_time := now\<rparr>, False))"

record split_state =
  sp_splitmode :: bool
  sp_checksplit_ev :: bool  \<comment> \<open>the timer that calls \<^verbatim>\<open>check_splitmode\<close> every five seconds\<close>

definition check_splitmode :: "bool \<Rightarrow> bool \<Rightarrow> bool \<Rightarrow> int \<Rightarrow> int \<Rightarrow> int \<Rightarrow> int \<Rightarrow> split_state \<Rightarrow> split_state" where
  "check_splitmode splitchecking no_join_on_split no_create_on_split eob_count split_servers usercount split_users s =
     (if splitchecking \<and> (no_join_on_split \<or> no_create_on_split) then
        if \<not> sp_splitmode s then
          if eob_count < split_servers \<or> usercount < split_users
          then s\<lparr>sp_splitmode := True, sp_checksplit_ev := True\<rparr> else s
        else if eob_count \<ge> split_servers \<and> usercount \<ge> split_users
        then s\<lparr>sp_splitmode := False, sp_checksplit_ev := False\<rparr> else s
      else s)"

section \<open>Capability combinations\<close>

definition CAP_EX :: "32 word" where "CAP_EX = 0x000004"
definition CAP_IE :: "32 word" where "CAP_IE = 0x000010"
definition CAP_SERVICE :: "32 word" where "CAP_SERVICE = 0x010000"
definition CAP_TS6 :: "32 word" where "CAP_TS6 = 0x008000"

lemmas cap_defs = CAP_EX_def CAP_IE_def CAP_SERVICE_def CAP_TS6_def

definition channel_capabs :: "32 word list" where
  "channel_capabs = [CAP_EX, CAP_IE, CAP_SERVICE, CAP_TS6]"

definition NCHCAPS :: nat where "NCHCAPS = length channel_capabs"
definition NCHCAP_COMBOS :: nat where "NCHCAP_COMBOS = 2 ^ NCHCAPS"

record ChCapCombo =
  cc_count :: int
  cc_cap_yes :: "32 word"
  cc_cap_no :: "32 word"

definition combo_caps :: "nat \<Rightarrow> 32 word \<times> 32 word" where
  "combo_caps m = foldl (\<lambda>(y, n) c. if m AND push_bit c 1 = 0 then (y, n OR channel_capabs ! c)
                                     else (y OR channel_capabs ! c, n)) (0, 0) [0..<NCHCAPS]"

definition init_chcap_usage_counts :: "ChCapCombo list" where
  "init_chcap_usage_counts =
     map (\<lambda>m. \<lparr>cc_count = 0, cc_cap_yes = fst (combo_caps m), cc_cap_no = snd (combo_caps m)\<rparr>) [0..<NCHCAP_COMBOS]"

text \<open>The search loops stop at the first combination of the server's capabilities.\<close>

fun upd_first :: "('a \<Rightarrow> bool) \<Rightarrow> ('a \<Rightarrow> 'a) \<Rightarrow> 'a list \<Rightarrow> 'a list" where
  "upd_first P f [] = []"
| "upd_first P f (x # xs) = (if P x then f x # xs else x # upd_first P f xs)"

definition combo_of :: "LocalUser \<Rightarrow> ChCapCombo \<Rightarrow> bool" where
  "combo_of u x \<longleftrightarrow> IsCapable u (cc_cap_yes x) \<and> NotCapable u (cc_cap_no x)"

definition set_chcap_usage_counts :: "LocalUser \<Rightarrow> ChCapCombo list \<Rightarrow> ChCapCombo list" where
  "set_chcap_usage_counts serv_p = upd_first (combo_of serv_p) (\<lambda>x. x\<lparr>cc_count := cc_count x + 1\<rparr>)"

definition unset_chcap_usage_counts :: "LocalUser \<Rightarrow> ChCapCombo list \<Rightarrow> ChCapCombo list" where
  "unset_chcap_usage_counts serv_p =
     upd_first (combo_of serv_p) (\<lambda>x. if cc_count x > 0 then x\<lparr>cc_count := cc_count x - 1\<rparr> else x)"

section \<open>What NAMES shows\<close>

definition visible :: "cworld \<Rightarrow> bool \<Rightarrow> ptr \<Rightarrow> bool" where
  "visible w is_member mp \<longleftrightarrow>
     is_member \<or> \<not> IsInvisible (the (cw_clients w (ms_client_p (the (cw_members w mp)))))"

definition name_entry :: "cworld \<Rightarrow> bool \<Rightarrow> ptr \<Rightarrow> string" where
  "name_entry w stack mp =
     (let m = the (cw_members w mp) in find_channel_status m stack @ cl_name (the (cw_clients w (ms_client_p m))))"

definition names_text :: "string list \<Rightarrow> string" where
  "names_text es = concat (map (\<lambda>e. e @ '' '') es)"

definition names_line :: "string \<Rightarrow> string list \<Rightarrow> string" where
  "names_line hdr es = butlast (hdr @ names_text es)"

definition named_members :: "cworld \<Rightarrow> ptr list \<Rightarrow> bool" where
  "named_members w mps \<longleftrightarrow> (\<forall>mp \<in> set mps. \<exists>m c. cw_members w mp = Some m \<and> cw_clients w (ms_client_p m) = Some c \<and>
     length (cl_name c) \<le> NICKLEN)"

definition short_names :: "cworld \<Rightarrow> ptr list \<Rightarrow> bool" where
  "short_names w mps \<longleftrightarrow> (\<forall>mp \<in> set mps. \<forall>m c. cw_members w mp = Some m \<longrightarrow> cw_clients w (ms_client_p m) = Some c \<longrightarrow>
     length (cl_name c) \<le> NICKLEN)"

lemma names_text_snoc: "names_text (es @ [e]) = names_text es @ e @ '' ''"
  by (simp add: names_text_def)

lemma status_length: "length (find_channel_status m stack) \<le> 3"
  by (auto simp: find_channel_status_def Let_def)

lemma names_loop_spec:
  assumes "named_members w mps" "length hdr + NICKLEN + 4 < BUFSIZE - 4" "length (hdr @ names_text es) < BUFSIZE - 4"
  shows "\<exists>gs es'. names_loop stack is_member w (length hdr) mps (hdr @ names_text es) out =
      Some (hdr @ names_text es', out @ map (names_line hdr) gs) \<and>
    concat gs @ es' = es @ map (name_entry w stack) (filter (visible w is_member) mps) \<and> [] \<notin> set gs \<and>
    (\<forall>g \<in> set gs. length (names_line hdr g) < BUFSIZE - 4) \<and> length (hdr @ names_text es') < BUFSIZE - 4"
  using assms
proof (induction mps arbitrary: es out)
  case Nil
  then show ?case by (intro exI [of _ "[]"] exI [of _ es]) simp
next
  case (Cons mp mps)
  obtain m c where m: "cw_members w mp = Some m" "cw_clients w (ms_client_p m) = Some c" "length (cl_name c) \<le> NICKLEN"
    using Cons.prems(1) by (auto simp: named_members_def)
  have n: "named_members w mps" using Cons.prems(1) by (simp add: named_members_def)
  define e where "e = name_entry w stack mp"
  have e: "e = find_channel_status m stack @ cl_name c" "length e \<le> 3 + length (cl_name c)"
    using m status_length [of m stack] by (simp_all add: e_def name_entry_def)
  show ?case
  proof (cases "visible w is_member mp")
    case False
    then have "IsInvisible c \<and> \<not> is_member" using m by (simp add: visible_def)
    then show ?thesis using Cons.IH [OF n Cons.prems(2,3), of out] False m by simp
  next
    case True
    then have v: "\<not> (IsInvisible c \<and> \<not> is_member)" using m by (auto simp: visible_def)
    show ?thesis
    proof (cases "length (hdr @ names_text es) + length (cl_name c) + 4 \<ge> BUFSIZE - 4")
      case big: True
      then have es: "es \<noteq> []" using Cons.prems(2) m(3) by (auto simp: names_text_def)
      have l: "length (hdr @ names_text [e]) < BUFSIZE - 4"
        using e(2) Cons.prems(2) m(3) by (simp add: names_text_def)
      obtain gs es' where ih: "names_loop stack is_member w (length hdr) mps (hdr @ names_text [e]) (out @ [names_line hdr es]) =
          Some (hdr @ names_text es', (out @ [names_line hdr es]) @ map (names_line hdr) gs)"
        "concat gs @ es' = [e] @ map (name_entry w stack) (filter (visible w is_member) mps)" "[] \<notin> set gs"
        "\<forall>g \<in> set gs. length (names_line hdr g) < BUFSIZE - 4" "length (hdr @ names_text es') < BUFSIZE - 4"
        using Cons.IH [OF n Cons.prems(2) l] by blast
      have "names_loop stack is_member w (length hdr) (mp # mps) (hdr @ names_text es) out =
          names_loop stack is_member w (length hdr) mps (hdr @ names_text [e]) (out @ [names_line hdr es])"
        using m v big l e(1) by (auto simp: names_line_def names_text_def)
      then show ?thesis
        using ih es True Cons.prems(3) by (intro exI [of _ "es # gs"] exI [of _ es']) (auto simp: e_def names_line_def)
    next
      case small: False
      have l: "length (hdr @ names_text (es @ [e])) < BUFSIZE - 4"
        using small e(2) by (simp add: names_text_snoc)
      have "names_loop stack is_member w (length hdr) (mp # mps) (hdr @ names_text es) out =
          names_loop stack is_member w (length hdr) mps (hdr @ names_text (es @ [e])) out"
        using m v small l e(1) by (auto simp: names_text_snoc)
      then show ?thesis using Cons.IH [OF n Cons.prems(2) l, of out] True by (simp add: e_def)
    qed
  qed
qed

lemma names_line_text: "names_text es \<noteq> [] \<Longrightarrow> names_line hdr es = hdr @ butlast (names_text es)"
  by (simp add: names_line_def butlast_append)

lemma names_text_Nil_iff: "names_text es = [] \<longleftrightarrow> es = []"
  by (cases es) (auto simp: names_text_def)

lemma members_alive:
  assumes "cworld_ok w" "cw_channels w chptr = Some ch" "mp \<in> set (ch_members ch)"
  shows "\<exists>m c. cw_members w mp = Some m \<and> ms_chptr m = chptr \<and> cw_clients w (ms_client_p m) = Some c"
proof -
  have l: "is_list_of (members_of w chptr) (mems_chan (cw_members w) chptr)"
    "\<And>cp. is_list_of (chans_of w cp) (mems_user (cw_members w) cp)"
    using assms(1) by (auto simp: cworld_ok_def mem_lists_def)
  obtain m where m: "cw_members w mp = Some m" "ms_chptr m = chptr"
    using l(1) assms(2,3) by (auto simp: is_list_of_def members_of_def mems_chan_def)
  have "mp \<in> set (chans_of w (ms_client_p m))" using l(2) [of "ms_client_p m"] m by (auto simp: is_list_of_def mems_user_def)
  then have "cw_clients w (ms_client_p m) \<noteq> None" unfolding chans_of_def by (cases "cw_clients w (ms_client_p m)") simp_all
  then show ?thesis using m by blast
qed

text \<open>
  C25: channel_member_names lists every member the client may see exactly once, with its status
  prefix, in the order of the member list, in lines of less than BUFSIZE bytes, followed by the
  end-of-list reply.
\<close>

theorem names_shown:
  assumes ok: "cworld_ok w" and ch: "cw_channels w chptr = Some ch" and c: "cw_clients w client_p = Some c" "cl_local c = Some lu"
    and mem: "IsMember client_p chptr w = Some is_member"
    and shown: "PubChannel ch \<or> is_member"
    and names: "short_names w (ch_members ch)"
    and len: "length me \<le> HOSTLEN" "length (cl_name c) \<le> NICKLEN" "length (ch_chname ch) < CHANNELLEN"
  shows "\<exists>gs. channel_member_names me chptr client_p eon w =
      Some (map (names_line (namreply me (cl_name c) ch)) gs @ (if eon then [endofnames me (cl_name c) ch] else [])) \<and>
    concat gs = map (name_entry w (IsCapable lu CLICAP_MULTI_PREFIX)) (filter (visible w is_member) (ch_members ch)) \<and>
    (\<forall>g \<in> set gs. g \<noteq> [] \<and> length (names_line (namreply me (cl_name c) ch) g) \<le> 510)"
proof -
  let ?h = "namreply me (cl_name c) ch" and ?s = "IsCapable lu CLICAP_MULTI_PREFIX"
  have nm: "named_members w (ch_members ch)"
    unfolding named_members_def using members_alive [OF ok ch] names unfolding short_names_def by blast
  have h: "length ?h \<le> 311" using len by (simp add: namreply_def channel_pub_or_secret_def HOSTLEN_def NICKLEN_def CHANNELLEN_def)
  obtain gs es' where l: "names_loop ?s is_member w (length ?h) (ch_members ch) ?h [] = Some (?h @ names_text es', map (names_line ?h) gs)"
    and g: "concat gs @ es' = map (name_entry w ?s) (filter (visible w is_member) (ch_members ch))" "[] \<notin> set gs"
      "\<forall>g \<in> set gs. length (names_line ?h g) < BUFSIZE - 4" "length (?h @ names_text es') < BUFSIZE - 4"
    using names_loop_spec [OF nm, of ?h "[]" ?s is_member "[]"] h by (auto simp: names_text_def NICKLEN_def BUFSIZE_def)
  define gs' where "gs' = (if es' = [] then gs else gs @ [es'])"
  have "ShowChannel client_p chptr w = Some True" using ch mem shown by (auto simp: ShowChannel_def)
  then have "channel_member_names me chptr client_p eon w =
      Some (map (names_line ?h) gs' @ (if eon then [endofnames me (cl_name c) ch] else []))"
    using ch c mem l h names_text_Nil_iff [of es']
    by (auto simp: channel_member_names_def gs'_def BUFSIZE_def names_line_def Let_def)
  moreover have "concat gs' = map (name_entry w ?s) (filter (visible w is_member) (ch_members ch))"
    using g(1) by (auto simp: gs'_def)
  moreover have "\<forall>g \<in> set gs'. g \<noteq> [] \<and> length (names_line ?h g) \<le> 510"
  proof
    fix x assume "x \<in> set gs'"
    moreover have "length (names_line ?h es') < BUFSIZE - 4" using g(4) by (simp add: names_line_def)
    ultimately show "x \<noteq> [] \<and> length (names_line ?h x) \<le> 510"
      using g(2,3) by (auto simp: gs'_def BUFSIZE_def split: if_splits dest: bspec)
  qed
  ultimately show ?thesis by blast
qed

section \<open>Counting capability combinations\<close>

lemma and_or_yes: "c AND (a OR b) = a OR b \<longleftrightarrow> c AND a = a \<and> c AND b = b" for a b c :: "32 word"
  by (auto simp: bit_eq_iff bit_simps)

lemma and_or_no: "c AND (a OR b) = 0 \<longleftrightarrow> c AND a = 0 \<and> c AND b = 0" for a b c :: "32 word"
  by (auto simp: bit_eq_iff bit_simps)

lemma and_exp_yes: "c AND 2 ^ n = 2 ^ n \<longleftrightarrow> \<not> c AND 2 ^ n = 0" if "n < 32" for c :: "32 word"
proof -
  have "c AND 2 ^ n = (if bit c n then 2 ^ n else 0)" by (rule bit_eqI) (auto simp: bit_simps)
  moreover have "(2 :: 32 word) ^ n \<noteq> 0" using that by (simp add: not_le)
  ultimately show ?thesis by auto
qed

lemma cap_yes:
  "c AND CAP_EX = CAP_EX \<longleftrightarrow> \<not> c AND CAP_EX = 0" "c AND CAP_IE = CAP_IE \<longleftrightarrow> \<not> c AND CAP_IE = 0"
  "c AND CAP_SERVICE = CAP_SERVICE \<longleftrightarrow> \<not> c AND CAP_SERVICE = 0" "c AND CAP_TS6 = CAP_TS6 \<longleftrightarrow> \<not> c AND CAP_TS6 = 0"
  using and_exp_yes [of 2 c] and_exp_yes [of 4 c] and_exp_yes [of 16 c] and_exp_yes [of 15 c] by (simp_all add: cap_defs)

text \<open>The combination of a capability set: its number has the bits of the capabilities it holds.\<close>

definition combo_no :: "32 word \<Rightarrow> nat" where
  "combo_no c = of_bool (c AND CAP_EX \<noteq> 0) + 2 * of_bool (c AND CAP_IE \<noteq> 0) +
     4 * of_bool (c AND CAP_SERVICE \<noteq> 0) + 8 * of_bool (c AND CAP_TS6 \<noteq> 0)"

definition caps_fit :: "32 word \<Rightarrow> 32 word \<times> 32 word \<Rightarrow> bool" where
  "caps_fit c yn \<longleftrightarrow> c AND fst yn = fst yn \<and> c AND snd yn = 0"

lemma nat_cases16: "(m :: nat) < 16 \<Longrightarrow> m \<in> {0, 1, 2, 3, 4, 5, 6, 7, 8, 9, 10, 11, 12, 13, 14, 15}"
  by (simp only: insert_iff empty_iff) presburger

lemma combo_fits_iff: "m < NCHCAP_COMBOS \<Longrightarrow> caps_fit c (combo_caps m) \<longleftrightarrow> m = combo_no c"
proof -
  assume "m < NCHCAP_COMBOS"
  then have "m \<in> {0, 1, 2, 3, 4, 5, 6, 7, 8, 9, 10, 11, 12, 13, 14, 15}"
    by (intro nat_cases16) (simp add: NCHCAP_COMBOS_def NCHCAPS_def channel_capabs_def)
  then show ?thesis
    by (elim insertE; simp add: caps_fit_def combo_no_def combo_caps_def NCHCAPS_def channel_capabs_def upt_rec
        and_or_yes and_or_no cap_yes of_bool_def)
qed

definition combos_ok :: "LocalUser list \<Rightarrow> ChCapCombo list \<Rightarrow> bool" where
  "combos_ok us cs \<longleftrightarrow> map (\<lambda>x. (cc_cap_yes x, cc_cap_no x)) cs = map combo_caps [0..<NCHCAP_COMBOS] \<and>
     (\<forall>m < NCHCAP_COMBOS. cc_count (cs ! m) = int (length (filter (\<lambda>u. combo_no (lu_caps u) = m) us)))"

lemma combo_no_less: "combo_no c < NCHCAP_COMBOS"
  by (simp add: combo_no_def NCHCAP_COMBOS_def NCHCAPS_def channel_capabs_def of_bool_def)

lemma combos_ok_caps:
  assumes "combos_ok us cs" "m < NCHCAP_COMBOS"
  shows "length cs = NCHCAP_COMBOS" "(cc_cap_yes (cs ! m), cc_cap_no (cs ! m)) = combo_caps m"
    "combo_of u (cs ! m) \<longleftrightarrow> m = combo_no (lu_caps u)"
proof -
  have e: "map (\<lambda>x. (cc_cap_yes x, cc_cap_no x)) cs = map combo_caps [0..<NCHCAP_COMBOS]"
    using assms(1) by (simp add: combos_ok_def)
  show l: "length cs = NCHCAP_COMBOS" using arg_cong [OF e, of length] by simp
  have "map (\<lambda>x. (cc_cap_yes x, cc_cap_no x)) cs ! m = map combo_caps [0..<NCHCAP_COMBOS] ! m" by (simp only: e)
  then show c: "(cc_cap_yes (cs ! m), cc_cap_no (cs ! m)) = combo_caps m" using l assms(2) by simp
  show "combo_of u (cs ! m) \<longleftrightarrow> m = combo_no (lu_caps u)"
    using combo_fits_iff [OF assms(2), of "lu_caps u"] unfolding c [symmetric]
    by (simp add: caps_fit_def combo_of_def IsCapable_def NotCapable_def)
qed

lemma upd_first_nth:
  "j < length xs \<Longrightarrow> P (xs ! j) \<Longrightarrow> (\<And>i. i < j \<Longrightarrow> \<not> P (xs ! i)) \<Longrightarrow> upd_first P f xs = xs[j := f (xs ! j)]"
proof (induction xs arbitrary: j)
  case (Cons x xs)
  then show ?case
  proof (cases j)
    case (Suc k)
    have "\<not> P x" using Cons.prems(3) [of 0] Suc by simp
    moreover have "\<And>i. i < k \<Longrightarrow> \<not> P (xs ! i)" using Cons.prems(3) [of "Suc i" for i] Suc by auto
    ultimately show ?thesis using Cons Suc by simp
  qed simp
qed simp

lemma combos_ok_upd:
  assumes ok: "combos_ok us cs"
  shows "upd_first (combo_of u) f cs = cs[combo_no (lu_caps u) := f (cs ! combo_no (lu_caps u))]"
proof (rule upd_first_nth)
  note j = combo_no_less [of "lu_caps u"]
  show "combo_no (lu_caps u) < length cs" using combos_ok_caps(1) [OF ok j] j by simp
  show "combo_of u (cs ! combo_no (lu_caps u))" using combos_ok_caps(3) [OF ok j] by simp
  fix i assume "i < combo_no (lu_caps u)"
  then show "\<not> combo_of u (cs ! i)" using combos_ok_caps(3) [OF ok, of i u] j by simp
qed

lemma combos_ok_list_update:
  assumes ok: "combos_ok us cs" and f: "cc_cap_yes (f x) = cc_cap_yes x" "cc_cap_no (f x) = cc_cap_no x" "x = cs ! j"
  shows "map (\<lambda>x. (cc_cap_yes x, cc_cap_no x)) (cs[j := f x]) = map combo_caps [0..<NCHCAP_COMBOS]"
proof -
  have "map (\<lambda>x. (cc_cap_yes x, cc_cap_no x)) (cs[j := f x]) = map (\<lambda>x. (cc_cap_yes x, cc_cap_no x)) cs"
    using f by (cases "j < length cs") (simp_all add: map_update list_update_same_conv list_update_beyond)
  then show ?thesis using ok by (simp add: combos_ok_def)
qed

lemma set_chcap_ok: "combos_ok us cs \<Longrightarrow> combos_ok (u # us) (set_chcap_usage_counts u cs)"
  using combos_ok_list_update [of us cs "\<lambda>x. x\<lparr>cc_count := cc_count x + 1\<rparr>" "cs ! combo_no (lu_caps u)" "combo_no (lu_caps u)"]
    combos_ok_caps(1) [of us cs]
  unfolding set_chcap_usage_counts_def by (auto simp: combos_ok_upd nth_list_update) (auto simp: combos_ok_def nth_list_update)

lemma length_filter_remove1:
  "x \<in> set xs \<Longrightarrow> length (filter P (remove1 x xs)) = (if P x then length (filter P xs) - 1 else length (filter P xs))"
  by (simp add: filter_remove1 length_remove1)

lemma unset_chcap_ok: "combos_ok us cs \<Longrightarrow> u \<in> set us \<Longrightarrow> combos_ok (remove1 u us) (unset_chcap_usage_counts u cs)"
proof -
  assume ok: "combos_ok us cs" and u: "u \<in> set us"
  let ?j = "combo_no (lu_caps u)"
  let ?f = "\<lambda>x. if cc_count x > 0 then x\<lparr>cc_count := cc_count x - 1\<rparr> else x"
  have len: "length cs = NCHCAP_COMBOS" by (rule combos_ok_caps(1) [OF ok combo_no_less])
  have "u \<in> set (filter (\<lambda>v. combo_no (lu_caps v) = ?j) us)" using u by simp
  then have "0 < length (filter (\<lambda>v. combo_no (lu_caps v) = ?j) us)" by (metis length_pos_if_in_set)
  moreover have cnt: "m < NCHCAP_COMBOS \<Longrightarrow> cc_count (cs ! m) = int (length (filter (\<lambda>u. combo_no (lu_caps u) = m) us))" for m
    using ok by (simp add: combos_ok_def)
  ultimately have "cc_count (cs ! ?j) > 0" using combo_no_less [of "lu_caps u"] by simp
  moreover have "map (\<lambda>x. (cc_cap_yes x, cc_cap_no x)) (cs[?j := ?f (cs ! ?j)]) = map combo_caps [0..<NCHCAP_COMBOS]"
    by (rule combos_ok_list_update [OF ok]) simp_all
  ultimately show ?thesis
    using len cnt u
    by (auto simp: unset_chcap_usage_counts_def combos_ok_upd [OF ok] combos_ok_def nth_list_update length_filter_remove1
        Suc_le_eq of_nat_diff)
qed

inductive chcap_step :: "LocalUser list \<times> ChCapCombo list \<Rightarrow> LocalUser list \<times> ChCapCombo list \<Rightarrow> bool" where
  link: "chcap_step (us, cs) (u # us, set_chcap_usage_counts u cs)"
| split: "u \<in> set us \<Longrightarrow> chcap_step (us, cs) (remove1 u us, unset_chcap_usage_counts u cs)"

definition chcap_init :: "LocalUser list \<times> ChCapCombo list \<Rightarrow> bool" where
  "chcap_init s \<longleftrightarrow> s = ([], init_chcap_usage_counts)"

definition chcap_inv :: "LocalUser list \<times> ChCapCombo list \<Rightarrow> bool" where
  "chcap_inv s \<longleftrightarrow> combos_ok (fst s) (snd s)"

interpretation chcap_runs: run_invariant chcap_init chcap_step chcap_inv
proof
  fix s assume "chcap_init s"
  then show "chcap_inv s" by (simp add: chcap_init_def chcap_inv_def combos_ok_def init_chcap_usage_counts_def comp_def)
next
  fix s t assume "chcap_inv s" "chcap_step s t"
  then show "chcap_inv t" by (auto simp: chcap_inv_def elim!: chcap_step.cases intro: set_chcap_ok unset_chcap_ok)
qed

text \<open>
  C26: In every state reached by linking and unlinking servers, the capability combinations are
  counted exactly: each of the sixteen combinations has as count the number of linked servers with
  these capabilities.
\<close>

theorem chcap_counts:
  assumes "reachable chcap_init chcap_step (us, cs)"
  shows "length cs = NCHCAP_COMBOS \<and>
    (\<forall>m < NCHCAP_COMBOS. cc_count (cs ! m) = int (length (filter (\<lambda>u. combo_of u (cs ! m)) us))) \<and>
    (\<forall>u. \<exists>!m. m < NCHCAP_COMBOS \<and> combo_of u (cs ! m))"
proof -
  have ok: "combos_ok us cs" using chcap_runs.inv_reachable [OF assms] by (simp add: chcap_inv_def)
  have "filter (\<lambda>u. combo_of u (cs ! m)) us = filter (\<lambda>u. combo_no (lu_caps u) = m) us" if "m < NCHCAP_COMBOS" for m
    by (rule filter_cong) (auto simp: combos_ok_caps(3) [OF ok that])
  moreover have "\<exists>!m. m < NCHCAP_COMBOS \<and> combo_of u (cs ! m)" for u
    using combos_ok_caps(3) [OF ok, of _ u] combo_no_less [of "lu_caps u"] by (intro ex1I [of _ "combo_no (lu_caps u)"]) auto
  ultimately show ?thesis using ok combos_ok_caps(1) [OF ok combo_no_less] by (simp add: combos_ok_def)
qed

section \<open>Instances\<close>

theorem chcap_counts_witness:
  "cc_count (set_chcap_usage_counts (zero_LocalUser\<lparr>lu_caps := CAP_TS6\<rparr>) init_chcap_usage_counts ! 8) = 1"
proof -
  let ?u = "zero_LocalUser\<lparr>lu_caps := CAP_TS6\<rparr>"
  let ?cs = "set_chcap_usage_counts ?u init_chcap_usage_counts"
  have r: "reachable chcap_init chcap_step ([?u], ?cs)"
    using reachable_step [of chcap_init chcap_step "([], init_chcap_usage_counts)", OF _ link]
    by (simp add: reachable_init chcap_init_def)
  have "combo_of ?u (?cs ! 8)" by code_simp
  then show ?thesis using chcap_counts [OF r] by (auto simp: NCHCAP_COMBOS_def NCHCAPS_def channel_capabs_def)
qed

theorem names_shown_witness:
  "\<exists>gs. channel_member_names ''irc.it'' 5 1 True sample_joined =
      Some (map (names_line (namreply ''irc.it'' ''bob'' sample_chan)) gs @ [endofnames ''irc.it'' ''bob'' sample_chan]) \<and>
    concat gs = [''bob'']"
proof -
  let ?c = "sample_user\<lparr>cl_user := Some [7]\<rparr>"
  let ?ch = "sample_chan\<lparr>ch_members := [7], ch_locmembers := [7]\<rparr>"
  have w: "cw_channels sample_joined 5 = Some ?ch" "cw_clients sample_joined 1 = Some ?c" "cw_members sample_joined 7 = Some sample_member"
    by (simp_all add: sample_joined_def set_client_def set_channel_def)
  have mem: "IsMember 1 5 sample_joined = Some True"
    using w by (simp add: IsMember_def find_channel_membership_def sample_user_def sample_member_def IsClient_def)
  have ok: "cworld_ok sample_joined" using chan_runs.inv_reachable [OF sample_reachable] by (simp add: chan_inv_def)
  have c: "cl_local ?c = Some zero_LocalUser" "cl_name ?c = ''bob''" by (simp_all add: sample_user_def)
  have len: "length ''irc.it'' \<le> HOSTLEN" "length (cl_name ?c) \<le> NICKLEN" "length (ch_chname ?ch) < CHANNELLEN"
    by (simp_all add: sample_user_def sample_chan_def allocate_channel_def rb_strndup_def rb_strlcpy_def HOSTLEN_def NICKLEN_def CHANNELLEN_def)
  have names: "short_names sample_joined (ch_members ?ch)"
    using w len(2) by (simp add: sample_member_def short_names_def)
  have hdr: "namreply ''irc.it'' ''bob'' ?ch = namreply ''irc.it'' ''bob'' sample_chan" "endofnames ''irc.it'' ''bob'' ?ch = endofnames ''irc.it'' ''bob'' sample_chan"
    by (simp_all add: namreply_def endofnames_def channel_pub_or_secret_def PubChannel_def SecretChannel_def)
  obtain gs where gs: "channel_member_names ''irc.it'' 5 1 True sample_joined =
      Some (map (names_line (namreply ''irc.it'' ''bob'' sample_chan)) gs @ [endofnames ''irc.it'' ''bob'' sample_chan])"
    "concat gs = map (name_entry sample_joined (IsCapable zero_LocalUser CLICAP_MULTI_PREFIX)) (filter (visible sample_joined True) (ch_members ?ch))"
    using names_shown [where me = "''irc.it''" and eon = True, OF ok w(1,2) c(1) mem disjI2 [OF TrueI] names len]
    unfolding c(2) hdr by auto
  moreover have "name_entry sample_joined s 7 = ''bob''" for s
    using w by (simp add: name_entry_def sample_member_def sample_user_def find_channel_status_def is_chanop_def is_halfop_def is_voiced_def CHFL_PEON_def)
  ultimately show ?thesis by (intro exI [of _ gs]) (simp add: visible_def)
qed

end
