(* ===== verification/Mode_Lines.thy ===== *)
theory Mode_Lines
  imports Chan_Info
begin

text \<open>
  Telling others about mode changes.  The changes one MODE command has made are in the array
  \<^verbatim>\<open>mode_changes\<close>; \<^verbatim>\<open>set_channel_mode\<close> (\<^verbatim>\<open>modules/core/m_mode.c\<close>) packs them into lines for the local
  members and \<^verbatim>\<open>send_cap_mode_changes\<close> (\<^verbatim>\<open>libratboxcore/channel.c\<close>) into lines for the servers of every
  capability combination.  The static buffers \<^verbatim>\<open>modebuf\<close> and \<^verbatim>\<open>parabuf\<close> have \<^verbatim>\<open>BUFSIZE\<close> bytes, and a store
  outside them is \<^term>\<open>None\<close>.

  The properties: when the header leaves room, the lines hold exactly the applicable changes, in order, and read
  back as the same directions and letters; and a run of parameterless changes longer than that leaves the buffer,
  because only changes with a parameter are checked against its size.
\<close>

section \<open>Mode changes\<close>

definition MODE_QUERY :: int where "MODE_QUERY = 0"
definition MODE_ADD :: int where "MODE_ADD = 1"
definition MODE_DEL :: int where "MODE_DEL = -1"

lemmas dir_defs = MODE_QUERY_def MODE_ADD_def MODE_DEL_def

definition MODEBUFLEN :: nat where "MODEBUFLEN = 200"
definition MAXMODEPARAMS :: int where "MAXMODEPARAMS = 4"
definition MAXMODEPARAMSSERV :: nat where "MAXMODEPARAMSSERV = 10"

definition ALL_MEMBERS :: "8 word" where "ALL_MEMBERS = CHFL_PEON"
definition ONLY_CHANOPS :: "8 word" where "ONLY_CHANOPS = CHFL_CHANOP"
definition ONLY_SERVERS :: "8 word" where "ONLY_SERVERS = 0x20"

record ChModeChange =
  mc_letter :: char
  mc_arg :: cptr
  mc_id :: cptr
  mc_dir :: int
  mc_caps :: "32 word"
  mc_nocaps :: "32 word"
  mc_mems :: "8 word"

section \<open>Packing\<close>

text \<open>
  \<open>ln_mode\<close> and \<open>ln_para\<close> are the texts in \<^verbatim>\<open>modebuf\<close> and \<^verbatim>\<open>parabuf\<close>, \<open>ln_count\<close> the number of parameters and
  \<open>ln_nc\<close> the number of changes in the line, \<open>ln_out\<close> the lines sent.
\<close>

record packer =
  ln_mode :: string
  ln_para :: string
  ln_count :: nat
  ln_nc :: nat
  ln_dir :: int
  ln_out :: "string list"

definition fresh_line :: "string \<Rightarrow> string list \<Rightarrow> packer" where
  "fresh_line pre out = \<lparr>ln_mode = pre, ln_para = [], ln_count = 0, ln_nc = 0, ln_dir = MODE_QUERY, ln_out = out\<rparr>"

definition send_line :: "packer \<Rightarrow> string" where
  "send_line p = ln_mode p @ '' '' @ ln_para p"

text \<open>The common end of the two loop bodies: the sign, the letter, the parameter.\<close>

definition put_change :: "ChModeChange \<Rightarrow> cptr \<Rightarrow> packer \<Rightarrow> packer option" where
  "put_change c arg p =
     (let sign = (if ln_dir p \<noteq> mc_dir c then (if mc_dir c = MODE_ADD then ''+'' else ''-'') else []);
          m = ln_mode p @ sign @ [mc_letter c];
          a = (case arg of None \<Rightarrow> ln_para p | Some x \<Rightarrow> ln_para p @ x @ '' '')
      in if length m < BUFSIZE \<and> length a < BUFSIZE
         then Some (p\<lparr>ln_mode := m, ln_para := a, ln_count := ln_count p + (if arg = None then 0 else 1),
                     ln_nc := ln_nc p + 1, ln_dir := mc_dir c\<rparr>)
         else None)"

definition arglen :: "cptr \<Rightarrow> nat" where
  "arglen arg = (case arg of None \<Rightarrow> 0 | Some x \<Rightarrow> length x)"

definition line_full :: "cptr \<Rightarrow> packer \<Rightarrow> bool" where
  "line_full arg p \<longleftrightarrow> arg \<noteq> None \<and>
     (ln_count p = MAXMODEPARAMSSERV \<or> length (ln_mode p) + length (ln_para p) + arglen arg + 4 > BUFSIZE - 3)"

definition local_change :: "string \<Rightarrow> 8 word \<Rightarrow> ChModeChange \<Rightarrow> packer \<Rightarrow> packer option" where
  "local_change pre flags c p =
     (if mc_letter c = NUL \<or> mc_mems c \<noteq> flags then Some p
      else if mc_arg c \<noteq> None \<and> arglen (mc_arg c) > MODEBUFLEN - 5 then Some p
      else if line_full (mc_arg c) p then
        if length (ln_mode p) > length pre
        then put_change c (mc_arg c) (fresh_line pre (ln_out p @ [send_line p]))
        else Some p
      else put_change c (mc_arg c) p)"

fun local_changes :: "string \<Rightarrow> 8 word \<Rightarrow> ChModeChange list \<Rightarrow> packer \<Rightarrow> packer option" where
  "local_changes pre flags [] p = Some p"
| "local_changes pre flags (c # cs) p = do { p \<leftarrow> local_change pre flags c p; local_changes pre flags cs p }"

text \<open>A trailing space in \<^verbatim>\<open>parabuf\<close> is cut before the last line is sent.\<close>

definition cut_space :: "string \<Rightarrow> string" where
  "cut_space s = (if s \<noteq> [] \<and> last s = CHR '' '' then butlast s else s)"

definition local_lines :: "string \<Rightarrow> 8 word \<Rightarrow> ChModeChange list \<Rightarrow> string list option" where
  "local_lines pre flags cs = do {
     p \<leftarrow> local_changes pre flags cs (fresh_line pre []);
     let p = p\<lparr>ln_para := cut_space (ln_para p)\<rparr>;
     Some (if length (ln_mode p) > length pre then ln_out p @ [send_line p] else ln_out p)
   }"

section \<open>Servers\<close>

definition server_arg :: "32 word \<Rightarrow> ChModeChange \<Rightarrow> cptr" where
  "server_arg cap c = (if cap AND CAP_TS6 \<noteq> 0 \<and> \<not> EmptyString (mc_id c) then mc_id c else mc_arg c)"

definition server_change :: "string \<Rightarrow> 32 word \<Rightarrow> 32 word \<Rightarrow> ChModeChange \<Rightarrow> packer \<Rightarrow> packer option" where
  "server_change pre cap nocap c p =
     (if mc_letter c = NUL \<or> cap AND mc_caps c \<noteq> mc_caps c \<or> nocap AND mc_nocaps c \<noteq> mc_nocaps c then Some p
      else let arg = server_arg cap c
           in if arg \<noteq> None \<and> arglen arg > MODEBUFLEN - 5 then Some p
              else if line_full arg p
              then put_change c arg (fresh_line pre (if ln_nc p \<noteq> 0 then ln_out p @ [send_line p] else ln_out p))
              else put_change c arg p)"

fun server_changes :: "string \<Rightarrow> 32 word \<Rightarrow> 32 word \<Rightarrow> ChModeChange list \<Rightarrow> packer \<Rightarrow> packer option" where
  "server_changes pre cap nocap [] p = Some p"
| "server_changes pre cap nocap (c # cs) p = do { p \<leftarrow> server_change pre cap nocap c p; server_changes pre cap nocap cs p }"

definition server_header :: "Client \<Rightarrow> Channel \<Rightarrow> 32 word \<Rightarrow> string" where
  "server_header source_p ch cap =
     (if cap AND CAP_TS6 \<noteq> 0
      then '':'' @ use_id source_p @ '' TMODE '' @ int_str (ch_channelts ch) @ '' '' @ ch_chname ch @ '' ''
      else '':'' @ cl_name source_p @ '' MODE '' @ ch_chname ch @ '' '')"

definition server_lines :: "string \<Rightarrow> 32 word \<Rightarrow> 32 word \<Rightarrow> ChModeChange list \<Rightarrow> string list option" where
  "server_lines pre cap nocap cs =
     (if length pre < BUFSIZE then do {
        p \<leftarrow> server_changes pre cap nocap cs (fresh_line pre []);
        let p = p\<lparr>ln_para := cut_space (ln_para p)\<rparr>;
        Some (if ln_nc p \<noteq> 0 then ln_out p @ [send_line p] else ln_out p)
      } else None)"

text \<open>
  For every combination in use, the lines and the capabilities they are sent under; \<^verbatim>\<open>sendto_server\<close> delivers
  them to the servers of \<open>sendto_server\<close> below.
\<close>

fun cap_mode_loop ::
  "Client \<Rightarrow> Channel \<Rightarrow> ChModeChange list \<Rightarrow> ChCapCombo list \<Rightarrow> (32 word \<times> 32 word \<times> string list) list option" where
  "cap_mode_loop source_p ch cs [] = Some []"
| "cap_mode_loop source_p ch cs (x # xs) =
     (if cc_count x = 0 then cap_mode_loop source_p ch cs xs
      else do {
        ls \<leftarrow> server_lines (server_header source_p ch (cc_cap_yes x)) (cc_cap_yes x) (cc_cap_no x) cs;
        rest \<leftarrow> cap_mode_loop source_p ch cs xs;
        Some ((cc_cap_yes x, cc_cap_no x, ls) # rest)
      })"

definition send_cap_mode_changes ::
  "ChCapCombo list \<Rightarrow> Client \<Rightarrow> Channel \<Rightarrow> ChModeChange list \<Rightarrow> (32 word \<times> 32 word \<times> string list) list option" where
  "send_cap_mode_changes combos source_p ch cs = cap_mode_loop source_p ch cs combos"

text \<open>
  \<^verbatim>\<open>sendto_server\<close> (\<^verbatim>\<open>send.c\<close>): the servers of the list that get a line, by address and capabilities.  \<open>one\<close> is the
  link the message came from (\<^verbatim>\<open>one->from\<close>), if any, and \<open>chname\<close> the channel's name, if any.
\<close>

definition sendto_server ::
  "(ptr \<times> LocalUser) list \<Rightarrow> ptr option \<Rightarrow> cptr \<Rightarrow> 32 word \<Rightarrow> 32 word \<Rightarrow> ptr list" where
  "sendto_server serv_list one chname caps nocaps =
     (if serv_list = [] then []
      else if chname \<noteq> None \<and> headc (the chname) \<noteq> CHR ''#'' then []
      else map fst (filter (\<lambda>(p, u). one \<noteq> Some p \<and> IsCapable u caps \<and> NotCapable u nocaps) serv_list))"

section \<open>What a line says\<close>

text \<open>Reading a run of mode letters, the way the receivers do.\<close>

fun read_modes :: "int \<Rightarrow> string \<Rightarrow> (int \<times> char) list" where
  "read_modes d [] = []"
| "read_modes d (x # xs) =
     (if x = CHR ''+'' then read_modes MODE_ADD xs else if x = CHR ''-'' then read_modes MODE_DEL xs
      else (d, x) # read_modes d xs)"

type_synonym told = "ChModeChange \<times> cptr"

fun letters :: "int \<Rightarrow> told list \<Rightarrow> string" where
  "letters d [] = []"
| "letters d ((c, a) # g) =
     (if d \<noteq> mc_dir c then (if mc_dir c = MODE_ADD then ''+'' else ''-'') else []) @ mc_letter c # letters (mc_dir c) g"

definition params :: "told list \<Rightarrow> string" where
  "params g = concat (map (\<lambda>(c, a). case a of None \<Rightarrow> [] | Some x \<Rightarrow> x @ '' '') g)"

definition proper_change :: "ChModeChange \<Rightarrow> bool" where
  "proper_change c \<longleftrightarrow> mc_letter c \<notin> {CHR ''+'', CHR ''-''} \<and> mc_dir c \<in> {MODE_ADD, MODE_DEL}"

text \<open>\<open>tells pre l g\<close>: after its header the line \<open>l\<close> has the signs and letters of \<open>g\<close> and then its parameters.\<close>

definition tells :: "string \<Rightarrow> string \<Rightarrow> told list \<Rightarrow> bool" where
  "tells pre l g \<longleftrightarrow> (\<exists>m a. l = pre @ m @ '' '' @ a \<and>
     read_modes MODE_QUERY m = map (\<lambda>(c, a). (mc_dir c, mc_letter c)) g \<and> (a = params g \<or> a = cut_space (params g)))"

lemma read_letters:
  "(\<And>x. x \<in> set g \<Longrightarrow> proper_change (fst x)) \<Longrightarrow> read_modes d (letters d g) = map (\<lambda>(c, a). (mc_dir c, mc_letter c)) g"
proof (induction g arbitrary: d)
  case (Cons x g)
  obtain c a where x: "x = (c, a)" by (cases x)
  have "proper_change c" using Cons.prems [of x] x by simp
  then show ?case using Cons x by (auto simp: proper_change_def dir_defs)
qed simp

definition last_dir :: "int \<Rightarrow> told list \<Rightarrow> int" where
  "last_dir d g = (if g = [] then d else mc_dir (fst (last g)))"

lemma letters_snoc:
  "letters d (g @ [(c, a)]) =
     letters d g @ (if last_dir d g \<noteq> mc_dir c then (if mc_dir c = MODE_ADD then ''+'' else ''-'') else []) @ [mc_letter c]"
  by (induction d g rule: letters.induct) (auto simp: last_dir_def)

lemma letters_length: "length (letters d g) \<le> 2 * length g"
  by (induction d g rule: letters.induct) auto

lemma params_snoc: "params (g @ [(c, a)]) = params g @ (case a of None \<Rightarrow> [] | Some x \<Rightarrow> x @ '' '')"
  by (simp add: params_def)

definition packed :: "string \<Rightarrow> told list \<Rightarrow> packer \<Rightarrow> bool" where
  "packed pre g p \<longleftrightarrow> ln_mode p = pre @ letters MODE_QUERY g \<and> ln_para p = params g \<and> ln_nc p = length g \<and>
     ln_dir p = last_dir MODE_QUERY g \<and> ln_count p = length (filter (\<lambda>x. snd x \<noteq> None) g)"

lemma packed_fresh: "packed pre [] (fresh_line pre out)"
  by (simp add: packed_def fresh_line_def params_def last_dir_def)

lemma put_change_packed:
  assumes "packed pre g p" "length pre + 2 * Suc (length g) < BUFSIZE" "length (ln_para p) + arglen a + 1 < BUFSIZE"
  shows "\<exists>p'. put_change c a p = Some p' \<and> packed pre (g @ [(c, a)]) p' \<and> ln_out p' = ln_out p"
proof -
  have "length (letters MODE_QUERY (g @ [(c, a)])) \<le> 2 * Suc (length g)"
    using letters_length [of MODE_QUERY "g @ [(c, a)]"] by simp
  then have m: "length (pre @ letters MODE_QUERY (g @ [(c, a)])) < BUFSIZE" using assms(2) by simp
  have l: "length (params (g @ [(c, a)])) < BUFSIZE"
    using assms(1,3) by (auto simp: packed_def params_snoc arglen_def split: option.splits)
  have e: "(case a of None \<Rightarrow> ln_para p | Some x \<Rightarrow> ln_para p @ x @ '' '') = params (g @ [(c, a)])"
    using assms(1) by (simp add: packed_def params_snoc split: option.split)
  show ?thesis
    using assms(1) m l unfolding put_change_def e Let_def
    by (auto simp: packed_def letters_snoc last_dir_def params_snoc)
qed

section \<open>The lines hold the changes\<close>

definition pack_step :: "string \<Rightarrow> ChModeChange \<Rightarrow> cptr \<Rightarrow> packer \<Rightarrow> packer option" where
  "pack_step pre c a p =
     (if line_full a p then put_change c a (fresh_line pre (ln_out p @ [send_line p])) else put_change c a p)"

fun pack_all :: "string \<Rightarrow> told list \<Rightarrow> packer \<Rightarrow> packer option" where
  "pack_all pre [] p = Some p"
| "pack_all pre ((c, a) # xs) p = do { p \<leftarrow> pack_step pre c a p; pack_all pre xs p }"

definition short_args :: "told list \<Rightarrow> bool" where
  "short_args xs \<longleftrightarrow> (\<forall>x \<in> set xs. arglen (snd x) \<le> MODEBUFLEN - 5)"

lemma line_full_packed:
  assumes "packed pre [] p" "length pre \<le> 310" "arglen a \<le> MODEBUFLEN - 5"
  shows "\<not> line_full a p"
  using assms by (auto simp: line_full_def packed_def params_def MODEBUFLEN_def MAXMODEPARAMSSERV_def BUFSIZE_def)

lemma pack_step_spec:
  assumes p: "packed pre g p" "length (params g) \<le> 506"
    and pre: "length pre \<le> 310" "length pre + 2 * Suc (length g) < BUFSIZE" and a: "arglen a \<le> MODEBUFLEN - 5"
  obtains (same) p' where "pack_step pre c a p = Some p'" "packed pre (g @ [(c, a)]) p'" "ln_out p' = ln_out p"
      "length (params (g @ [(c, a)])) \<le> 506"
  | (next_line) p' where "pack_step pre c a p = Some p'" "packed pre [(c, a)] p'" "ln_out p' = ln_out p @ [send_line p]" "g \<noteq> []"
      "length (params [(c, a)]) \<le> 506"
proof (cases "line_full a p")
  case True
  then have g: "g \<noteq> []" using line_full_packed [of pre p a] p pre a by auto
  have "arglen a + 1 < BUFSIZE" using a by (simp add: MODEBUFLEN_def BUFSIZE_def)
  then obtain p' where "put_change c a (fresh_line pre (ln_out p @ [send_line p])) = Some p'" "packed pre [(c, a)] p'"
    "ln_out p' = ln_out p @ [send_line p]"
    using put_change_packed [OF packed_fresh [of pre "ln_out p @ [send_line p]"], of a c] pre
    by (auto simp: fresh_line_def)
  moreover have "length (params [(c, a)]) \<le> 506"
    using a by (auto simp: params_def arglen_def MODEBUFLEN_def split: option.split)
  ultimately show ?thesis using next_line True g by (simp add: pack_step_def)
next
  case False
  have l: "length (params (g @ [(c, a)])) \<le> 506" "length (ln_para p) + arglen a + 1 < BUFSIZE"
    using p False by (cases a; auto simp: packed_def params_snoc arglen_def line_full_def BUFSIZE_def)+
  then show ?thesis using put_change_packed [OF p(1) pre(2), of a c] same False by (auto simp: pack_step_def)
qed

lemma pack_all_spec:
  assumes "packed pre g p" "length (params g) \<le> 506" "length pre \<le> 310"
    "length pre + 2 * (length g + length xs) < BUFSIZE" "short_args xs"
  shows "\<exists>p' gs g'. pack_all pre xs p = Some p' \<and> packed pre g' p' \<and> concat gs @ g' = g @ xs \<and> [] \<notin> set gs \<and>
    ln_out p' = ln_out p @ map (\<lambda>g. pre @ letters MODE_QUERY g @ '' '' @ params g) gs"
  using assms
proof (induction xs arbitrary: g p)
  case Nil
  then show ?case by (intro exI [of _ p] exI [of _ "[]"] exI [of _ g]) simp
next
  case (Cons x xs)
  obtain c a where x: "x = (c, a)" by (cases x)
  have a: "arglen a \<le> MODEBUFLEN - 5" and s: "short_args xs" using Cons.prems(5) by (simp_all add: short_args_def x)
  have l: "length pre + 2 * Suc (length g) < BUFSIZE" using Cons.prems(4) by simp
  show ?case
  proof (cases rule: pack_step_spec [OF Cons.prems(1,2,3) l a, of c])
    case (1 p')
    obtain p'' gs g' where "pack_all pre xs p' = Some p''" "packed pre g' p''" "concat gs @ g' = (g @ [x]) @ xs" "[] \<notin> set gs"
      "ln_out p'' = ln_out p' @ map (\<lambda>g. pre @ letters MODE_QUERY g @ '' '' @ params g) gs"
      using Cons.IH [of "g @ [x]" p'] 1 Cons.prems(3,4) s by (auto simp: x)
    then show ?thesis using 1(1,3) by (auto simp: x)
  next
    case (2 p')
    obtain p'' gs g' where "pack_all pre xs p' = Some p''" "packed pre g' p''" "concat gs @ g' = [x] @ xs" "[] \<notin> set gs"
      "ln_out p'' = ln_out p' @ map (\<lambda>g. pre @ letters MODE_QUERY g @ '' '' @ params g) gs"
      using Cons.IH [of "[x]" p'] 2 Cons.prems(3,4) s by (auto simp: x)
    then show ?thesis using 2 Cons.prems(1)
      by (intro exI [of _ p''] exI [of _ "g # gs"] exI [of _ g']) (simp add: x send_line_def packed_def)
  qed
qed

text \<open>With room after the header the two loops pack the changes they do not skip.\<close>

definition local_told :: "8 word \<Rightarrow> ChModeChange \<Rightarrow> bool" where
  "local_told flags c \<longleftrightarrow> mc_letter c \<noteq> NUL \<and> mc_mems c = flags \<and> arglen (mc_arg c) \<le> MODEBUFLEN - 5"

definition server_told :: "32 word \<Rightarrow> 32 word \<Rightarrow> ChModeChange \<Rightarrow> bool" where
  "server_told cap nocap c \<longleftrightarrow> mc_letter c \<noteq> NUL \<and> cap AND mc_caps c = mc_caps c \<and> nocap AND mc_nocaps c = mc_nocaps c \<and>
     arglen (server_arg cap c) \<le> MODEBUFLEN - 5"

lemma packed_empty: "packed pre g p \<Longrightarrow> (length (ln_mode p) > length pre \<longleftrightarrow> g \<noteq> []) \<and> (ln_nc p = 0 \<longleftrightarrow> g = [])"
  by (cases g) (auto simp: packed_def)

lemma local_change_pack:
  assumes "packed pre g p" "length pre \<le> 310"
  shows "local_change pre flags c p = (if local_told flags c then pack_step pre c (mc_arg c) p else Some p)"
  using assms packed_empty [OF assms(1)] line_full_packed [of pre p "mc_arg c"]
  by (auto simp: local_change_def local_told_def pack_step_def arglen_def MODEBUFLEN_def split: option.splits)

lemma server_change_pack:
  assumes "packed pre g p" "length pre \<le> 310"
  shows "server_change pre cap nocap c p = (if server_told cap nocap c then pack_step pre c (server_arg cap c) p else Some p)"
  using assms packed_empty [OF assms(1)] line_full_packed [of pre p "server_arg cap c"]
  by (auto simp: server_change_def server_told_def pack_step_def arglen_def Let_def MODEBUFLEN_def split: option.splits)

text \<open>The contract the two loops share: they pack what they tell and skip the rest.\<close>

locale change_packer =
  fixes pre :: string and told :: "ChModeChange \<Rightarrow> bool" and arg :: "ChModeChange \<Rightarrow> cptr"
    and step :: "ChModeChange \<Rightarrow> packer \<Rightarrow> packer option" and loop :: "ChModeChange list \<Rightarrow> packer \<Rightarrow> packer option"
  assumes step: "packed pre g p \<Longrightarrow> length pre \<le> 310 \<Longrightarrow> step c p = (if told c then pack_step pre c (arg c) p else Some p)"
    and told_short: "told c \<Longrightarrow> arglen (arg c) \<le> MODEBUFLEN - 5"
    and loop_Nil: "loop [] p = Some p"
    and loop_Cons: "loop (c # cs) p = do { p \<leftarrow> step c p; loop cs p }"
begin

abbreviation told_of :: "ChModeChange list \<Rightarrow> told list" where
  "told_of cs \<equiv> map (\<lambda>c. (c, arg c)) (filter told cs)"

lemma loop_pack:
  assumes "packed pre g p" "length (params g) \<le> 506" "length pre \<le> 310" "length pre + 2 * (length g + length cs) < BUFSIZE"
  shows "loop cs p = pack_all pre (told_of cs) p"
  using assms
proof (induction cs arbitrary: g p)
  case (Cons c cs)
  show ?case
  proof (cases "told c")
    case True
    have l: "length pre + 2 * Suc (length g) < BUFSIZE" using Cons.prems(4) by simp
    have s: "step c p = pack_step pre c (arg c) p" using step [OF Cons.prems(1,3)] True by simp
    show ?thesis
    proof (cases rule: pack_step_spec [OF Cons.prems(1,2,3) l told_short [OF True], of c])
      case (1 p')
      then show ?thesis using Cons.IH [of "g @ [(c, arg c)]" p'] Cons.prems(3,4) True s by (simp add: loop_Cons)
    next
      case (2 p')
      then show ?thesis using Cons.IH [of "[(c, arg c)]" p'] Cons.prems(3,4) True s by (simp add: loop_Cons)
    qed
  next
    case False
    then show ?thesis using Cons.IH [OF Cons.prems(1,2,3)] Cons.prems(4) step [OF Cons.prems(1,3)] by (simp add: loop_Cons)
  qed
qed (simp add: loop_Nil)

text \<open>\<open>finish\<close> is what both callers do at the end.\<close>

lemma loop_tells:
  assumes pre: "length pre \<le> 310" "length pre + 2 * length cs < BUFSIZE" and proper: "\<And>c. c \<in> set cs \<Longrightarrow> proper_change c"
  shows "\<exists>p gs. loop cs (fresh_line pre []) = Some p \<and> concat gs = told_of cs \<and> [] \<notin> set gs \<and>
    (length (ln_mode p) > length pre \<longleftrightarrow> ln_nc p \<noteq> 0) \<and>
    list_all2 (tells pre) (if ln_nc p \<noteq> 0 then ln_out p @ [send_line (p\<lparr>ln_para := cut_space (ln_para p)\<rparr>)] else ln_out p) gs"
proof -
  have "loop cs (fresh_line pre []) = pack_all pre (told_of cs) (fresh_line pre [])"
    using loop_pack [OF packed_fresh [of pre "[]"] _ pre(1), of cs] pre(2) by (simp add: params_def)
  moreover have "length (told_of cs) \<le> length cs" by simp
  then have "length pre + 2 * (length ([] :: told list) + length (told_of cs)) < BUFSIZE"
    using pre(2) by (simp del: length_map)
  then obtain p gs g where p: "pack_all pre (told_of cs) (fresh_line pre []) = Some p" "packed pre g p"
    "concat gs @ g = told_of cs" "[] \<notin> set gs" "ln_out p = map (\<lambda>g. pre @ letters MODE_QUERY g @ '' '' @ params g) gs"
    using pack_all_spec [OF packed_fresh [of pre "[]"] _ pre(1), of "told_of cs"] told_short
    by (auto simp: params_def short_args_def fresh_line_def)
  moreover have t: "tells pre (pre @ letters MODE_QUERY x @ '' '' @ params x) x \<and>
      tells pre (pre @ letters MODE_QUERY x @ '' '' @ cut_space (params x)) x" if "set x \<subseteq> set (told_of cs)" for x
  proof -
    have "read_modes MODE_QUERY (letters MODE_QUERY x) = map (\<lambda>(c, a). (mc_dir c, mc_letter c)) x"
      using that proper by (intro read_letters) auto
    then show ?thesis unfolding tells_def by blast
  qed
  have sub: "set g \<subseteq> set (told_of cs)" "\<And>x. x \<in> set gs \<Longrightarrow> set x \<subseteq> set (told_of cs)"
    using arg_cong [OF p(3), of set] by auto
  have "list_all2 (tells pre) (ln_out p) gs"
    using t sub(2) unfolding p(5) by (simp add: list_all2_conv_all_nth)
  ultimately show ?thesis
    using packed_empty [OF p(2)] t [OF sub(1)]
    by (intro exI [of _ p] exI [of _ "if g = [] then gs else gs @ [g]"])
      (auto simp: send_line_def packed_def intro: list_all2_appendI)
qed

end

interpretation local_packer: change_packer pre "local_told flags" mc_arg "local_change pre flags" "local_changes pre flags"
  for pre flags
  by unfold_locales (simp_all add: local_change_pack local_told_def)

interpretation server_packer: change_packer pre "server_told cap nocap" "server_arg cap" "server_change pre cap nocap"
    "server_changes pre cap nocap"
  for pre cap nocap
  by unfold_locales (simp_all add: server_change_pack server_told_def)

lemma local_lines_tell:
  assumes "length pre \<le> 310" "length pre + 2 * length cs < BUFSIZE" "\<And>c. c \<in> set cs \<Longrightarrow> proper_change c"
  shows "\<exists>ls gs. local_lines pre flags cs = Some ls \<and> list_all2 (tells pre) ls gs \<and> [] \<notin> set gs \<and>
    concat gs = map (\<lambda>c. (c, mc_arg c)) (filter (local_told flags) cs)"
proof -
  from local_packer.loop_tells [of pre cs flags, OF assms] obtain p gs where
    "local_changes pre flags cs (fresh_line pre []) = Some p"
    "concat gs = map (\<lambda>c. (c, mc_arg c)) (filter (local_told flags) cs)" "[] \<notin> set gs"
    "length (ln_mode p) > length pre \<longleftrightarrow> ln_nc p \<noteq> 0"
    "list_all2 (tells pre) (if ln_nc p \<noteq> 0 then ln_out p @ [send_line (p\<lparr>ln_para := cut_space (ln_para p)\<rparr>)] else ln_out p) gs"
    by blast
  then show ?thesis unfolding local_lines_def by (auto simp: Let_def split: if_splits)
qed

lemma server_lines_tell:
  assumes "length pre \<le> 310" "length pre + 2 * length cs < BUFSIZE" "\<And>c. c \<in> set cs \<Longrightarrow> proper_change c"
  shows "\<exists>ls gs. server_lines pre cap nocap cs = Some ls \<and> list_all2 (tells pre) ls gs \<and> [] \<notin> set gs \<and>
    concat gs = map (\<lambda>c. (c, server_arg cap c)) (filter (server_told cap nocap) cs)"
proof -
  from server_packer.loop_tells [of pre cs cap nocap, OF assms] obtain p gs where
    "server_changes pre cap nocap cs (fresh_line pre []) = Some p"
    "concat gs = map (\<lambda>c. (c, server_arg cap c)) (filter (server_told cap nocap) cs)" "[] \<notin> set gs"
    "list_all2 (tells pre) (if ln_nc p \<noteq> 0 then ln_out p @ [send_line (p\<lparr>ln_para := cut_space (ln_para p)\<rparr>)] else ln_out p) gs"
    by blast
  then show ?thesis using assms(1) unfolding server_lines_def by (auto simp: Let_def BUFSIZE_def split: if_splits)
qed

section \<open>Every server is told what it can understand\<close>

text \<open>The capabilities a change may need are those of \<^verbatim>\<open>channel_capabs\<close>.\<close>

definition chan_caps :: "32 word" where "chan_caps = CAP_EX OR CAP_IE OR CAP_SERVICE OR CAP_TS6"

definition sendable :: "ChModeChange \<Rightarrow> bool" where
  "sendable c \<longleftrightarrow> proper_change c \<and> mc_nocaps c = 0 \<and> mc_caps c AND NOT chan_caps = 0"

lemma combo_yes: "fst (combo_caps (combo_no c)) = c AND chan_caps"
proof -
  have "caps_fit c (combo_caps (combo_no c))" using combo_fits_iff [OF combo_no_less] by blast
  then have f: "c AND fst (combo_caps (combo_no c)) = fst (combo_caps (combo_no c))" "c AND snd (combo_caps (combo_no c)) = 0"
    by (auto simp: caps_fit_def)
  have m: "combo_no c \<in> {0, 1, 2, 3, 4, 5, 6, 7, 8, 9, 10, 11, 12, 13, 14, 15}"
    using combo_no_less [of c] by (intro nat_cases16) (simp add: NCHCAP_COMBOS_def NCHCAPS_def channel_capabs_def)
  then have s: "fst (combo_caps (combo_no c)) OR snd (combo_caps (combo_no c)) = chan_caps"
    by (elim insertE; simp add: combo_caps_def NCHCAPS_def channel_capabs_def upt_rec chan_caps_def cap_defs)
  have "c AND chan_caps = (c AND fst (combo_caps (combo_no c))) OR (c AND snd (combo_caps (combo_no c)))"
    unfolding s [symmetric] by (rule bit.conj_disj_distrib)
  then show ?thesis using f by simp
qed

lemma chan_caps_sub: "x AND NOT chan_caps = 0 \<Longrightarrow> (c AND chan_caps) AND x = c AND x" for c x :: "32 word"
  by (auto simp: bit_eq_iff bit_simps)

lemma ts6_sub: "(c AND chan_caps) AND CAP_TS6 = c AND CAP_TS6"
  by (rule chan_caps_sub) (simp add: chan_caps_def cap_defs)

lemma cap_mode_loop_spec:
  assumes "\<And>x. x \<in> set xs \<Longrightarrow> cc_count x \<noteq> 0 \<Longrightarrow>
    \<exists>ls. server_lines (server_header src ch (cc_cap_yes x)) (cc_cap_yes x) (cc_cap_no x) cs = Some ls"
  shows "\<exists>res. cap_mode_loop src ch cs xs = Some res \<and> map (\<lambda>(y, n, ls). (y, n)) res =
      map (\<lambda>x. (cc_cap_yes x, cc_cap_no x)) (filter (\<lambda>x. cc_count x \<noteq> 0) xs) \<and>
    (\<forall>y n ls. (y, n, ls) \<in> set res \<longrightarrow> server_lines (server_header src ch y) y n cs = Some ls)"
  using assms
proof (induction xs)
  case (Cons x xs)
  then obtain res where res: "cap_mode_loop src ch cs xs = Some res"
    "map (\<lambda>(y, n, ls). (y, n)) res = map (\<lambda>x. (cc_cap_yes x, cc_cap_no x)) (filter (\<lambda>x. cc_count x \<noteq> 0) xs)"
    "\<forall>y n ls. (y, n, ls) \<in> set res \<longrightarrow> server_lines (server_header src ch y) y n cs = Some ls"
    by (meson list.set_intros(2))
  show ?case
  proof (cases "cc_count x = 0")
    case False
    then obtain ls where "server_lines (server_header src ch (cc_cap_yes x)) (cc_cap_yes x) (cc_cap_no x) cs = Some ls"
      using Cons.prems [of x] by auto
    then show ?thesis using res False by auto
  qed (use res in auto)
qed simp

lemma filter_unique:
  assumes "j < length xs" "\<And>i. i < length xs \<Longrightarrow> P (xs ! i) \<longleftrightarrow> i = j"
  shows "filter P xs = [xs ! j]"
proof -
  have "filter P (take j xs) = []" "filter P (drop (Suc j) xs) = []"
    using assms by (auto simp: filter_empty_conv in_set_conv_nth)
  moreover have "filter P xs = filter P (take j xs) @ filter P (xs ! j # drop (Suc j) xs)"
    using id_take_nth_drop [OF assms(1)] by (metis filter_append)
  ultimately show ?thesis using assms by simp
qed

text \<open>A server's combination says of it what its own capabilities say.\<close>

lemma combo_same:
  assumes "sendable c"
  shows "server_arg (k AND chan_caps) c = server_arg k c" "server_told (k AND chan_caps) n c = server_told k 0 c"
    "server_header src ch (k AND chan_caps) = server_header src ch k"
  using assms by (auto simp: server_arg_def server_told_def server_header_def sendable_def ts6_sub chan_caps_sub)

lemma servers_told:
  assumes r: "reachable chcap_init chcap_step (us, combos)"
    and hdr: "\<And>cap. length (server_header src ch cap) \<le> 310"
      "\<And>cap. length (server_header src ch cap) + 2 * length cs < BUFSIZE"
    and cs: "\<And>c. c \<in> set cs \<Longrightarrow> sendable c"
  shows "\<exists>res. send_cap_mode_changes combos src ch cs = Some res \<and>
    (\<forall>u \<in> set us. \<exists>y n ls gs. filter (\<lambda>(y, n, ls). IsCapable u y \<and> NotCapable u n) res = [(y, n, ls)] \<and>
       list_all2 (tells (server_header src ch (lu_caps u))) ls gs \<and>
       concat gs = map (\<lambda>c. (c, server_arg (lu_caps u) c)) (filter (server_told (lu_caps u) 0) cs))"
proof -
  have ok: "combos_ok us combos" using chcap_runs.inv_reachable [OF r] by (simp add: chcap_inv_def)
  have proper: "c \<in> set cs \<Longrightarrow> proper_change c" for c using cs by (simp add: sendable_def)
  note lines = server_lines_tell [OF hdr proper]
  from cap_mode_loop_spec [of combos src ch cs] lines obtain res where res: "cap_mode_loop src ch cs combos = Some res"
    "map (\<lambda>(y, n, ls). (y, n)) res = map (\<lambda>x. (cc_cap_yes x, cc_cap_no x)) (filter (\<lambda>x. cc_count x \<noteq> 0) combos)"
    "\<forall>y n ls. (y, n, ls) \<in> set res \<longrightarrow> server_lines (server_header src ch y) y n cs = Some ls"
    by blast
  have "\<exists>y n ls gs. filter (\<lambda>(y, n, ls). IsCapable u y \<and> NotCapable u n) res = [(y, n, ls)] \<and>
       list_all2 (tells (server_header src ch (lu_caps u))) ls gs \<and>
       concat gs = map (\<lambda>c. (c, server_arg (lu_caps u) c)) (filter (server_told (lu_caps u) 0) cs)" if u: "u \<in> set us" for u
  proof -
    let ?m = "combo_no (lu_caps u)" and ?P = "\<lambda>(y, n, ls :: string list). IsCapable u y \<and> NotCapable u n"
    note m = combo_no_less [of "lu_caps u"]
    have len: "length combos = NCHCAP_COMBOS" by (rule combos_ok_caps(1) [OF ok m])
    have "u \<in> set (filter (\<lambda>v. combo_no (lu_caps v) = ?m) us)" using u by simp
    then have "filter (\<lambda>v. combo_no (lu_caps v) = ?m) us \<noteq> []" by (metis empty_iff empty_set)
    then have cnt: "cc_count (combos ! ?m) \<noteq> 0" using ok m by (simp add: combos_ok_def)
    have "map (\<lambda>(y, n, ls). (y, n)) (filter ?P res) =
        filter (\<lambda>(y, n). IsCapable u y \<and> NotCapable u n) (map (\<lambda>(y, n, ls). (y, n)) res)"
      by (simp add: filter_map comp_def case_prod_unfold)
    also have "\<dots> = map (\<lambda>x. (cc_cap_yes x, cc_cap_no x)) (filter (\<lambda>x. combo_of u x \<and> cc_count x \<noteq> 0) combos)"
      unfolding res(2) by (simp add: filter_map comp_def combo_of_def conj_commute)
    also have "filter (\<lambda>x. combo_of u x \<and> cc_count x \<noteq> 0) combos = [combos ! ?m]"
      using combos_ok_caps(3) [OF ok] cnt len m by (intro filter_unique) auto
    finally obtain y n ls where f: "filter ?P res = [(y, n, ls)]" and y: "y = cc_cap_yes (combos ! ?m)"
      by (cases "filter ?P res") auto
    then have "(y, n, ls) \<in> set (filter ?P res)" by simp
    then have ls: "server_lines (server_header src ch y) y n cs = Some ls" using res(3) by simp
    have y': "y = lu_caps u AND chan_caps" using combos_ok_caps(2) [OF ok m] combo_yes [of "lu_caps u"] y by (metis fst_conv)
    obtain gs where "list_all2 (tells (server_header src ch y)) ls gs"
      "concat gs = map (\<lambda>c. (c, server_arg y c)) (filter (server_told y n) cs)"
      using lines [of y y n] ls by auto
    moreover have "filter (server_told y n) cs = filter (server_told (lu_caps u) 0) cs"
      using cs by (intro filter_cong) (auto simp: y' combo_same)
    moreover have "map (\<lambda>c. (c, server_arg y c)) (filter (server_told (lu_caps u) 0) cs) =
        map (\<lambda>c. (c, server_arg (lu_caps u) c)) (filter (server_told (lu_caps u) 0) cs)"
      using cs by (intro map_cong) (auto simp: y' combo_same)
    moreover have "server_header src ch y = server_header src ch (lu_caps u)"
      by (simp add: server_header_def y' ts6_sub)
    ultimately show ?thesis using f by auto
  qed
  then show ?thesis using res(1) by (auto simp: send_cap_mode_changes_def)
qed

section \<open>Changes without a parameter\<close>

text \<open>They are stored without a look at the space left.\<close>

lemma put_argless:
  assumes "packed pre g p" "length (params g) < BUFSIZE"
  shows "put_change c None p = (if length (pre @ letters MODE_QUERY (g @ [(c, None)])) < BUFSIZE
     then Some (p\<lparr>ln_mode := pre @ letters MODE_QUERY (g @ [(c, None)]), ln_nc := ln_nc p + 1, ln_dir := mc_dir c\<rparr>) else None)"
  using assms by (auto simp: put_change_def packed_def letters_snoc Let_def)

lemma argless_overflow:
  assumes "packed pre g p" "length (params g) < BUFSIZE" "\<And>c. c \<in> set cs \<Longrightarrow> local_told flags c \<and> mc_arg c = None"
    "length pre + length (letters MODE_QUERY (g @ map (\<lambda>c. (c, None)) cs)) \<ge> BUFSIZE" "cs \<noteq> []"
  shows "local_changes pre flags cs p = None"
  using assms
proof (induction cs arbitrary: g p)
  case (Cons c cs)
  have c: "local_change pre flags c p = put_change c None p"
    using Cons.prems(3) [of c] by (simp add: local_change_def local_told_def line_full_def)
  show ?case
  proof (cases "length (pre @ letters MODE_QUERY (g @ [(c, None)])) < BUFSIZE")
    case True
    define p' where "p' = p\<lparr>ln_mode := pre @ letters MODE_QUERY (g @ [(c, None)]), ln_nc := ln_nc p + 1, ln_dir := mc_dir c\<rparr>"
    have p': "packed pre (g @ [(c, None)]) p'"
      using Cons.prems(1) by (simp add: packed_def p'_def params_snoc last_dir_def)
    have "cs \<noteq> []" using Cons.prems(4) True by auto
    then have "local_changes pre flags cs p' = None"
      using Cons.IH [OF p'] Cons.prems by (simp add: params_snoc)
    then show ?thesis using put_argless [OF Cons.prems(1,2), of c] True c by (simp add: p'_def)
  next
    case False
    then show ?thesis using put_argless [OF Cons.prems(1,2), of c] c by simp
  qed
qed simp

end
