(* ===== verification/Mode_Args.thy ===== *)
theory Mode_Args
  imports Mode_Lines
begin

text \<open>
  The parameters of mode changes (\<^verbatim>\<open>modules/core/m_mode.c\<close>): ban masks are completed to \<^verbatim>\<open>nick!user@host\<close> by
  \<^verbatim>\<open>pretty_mask\<close>, keys are cleaned by \<^verbatim>\<open>fix_key\<close> and \<^verbatim>\<open>fix_key_remote\<close>, limits are read by \<^verbatim>\<open>atoi\<close>.

  \<^verbatim>\<open>pretty_mask\<close> writes its results one after the other into a static buffer, at \<open>mask_pos\<close>, and returns \<^verbatim>\<open>NULL\<close>
  (here \<^term>\<open>None\<close>) when it takes the rest for too small.  Its result always fits the buffer and has the
  full form, with every part cut to its limit; a mask that has the full form already comes back unchanged.
\<close>

definition check_string :: "cptr \<Rightarrow> string" where
  "check_string s = (if EmptyString s then ''*'' else takeWhile (\<lambda>c. \<not> IsSpace c) (the s))"

definition star_if_empty :: "string \<Rightarrow> string" where
  "star_if_empty s = (if s \<noteq> [] then s else ''*'')"

text \<open>The nick, user and host of a msk, before they are cut.\<close>

definition mask_parts :: "string \<Rightarrow> string \<times> string \<times> string" where
  "mask_parts msk =
     (case strchr_split (CHR ''@'') msk of
        Some (b, h) \<Rightarrow>
          (case strchr_split (CHR ''!'') b of
             Some (n, u) \<Rightarrow> (star_if_empty n, star_if_empty u, star_if_empty h)
           | None \<Rightarrow> (''*'', star_if_empty b, star_if_empty h))
      | None \<Rightarrow>
          (case strchr_split (CHR ''!'') msk of
             Some (n, u) \<Rightarrow> (star_if_empty n, star_if_empty u, ''*'')
           | None \<Rightarrow> if CHR ''.'' \<in> set msk \<or> CHR '':'' \<in> set msk then (''*'', ''*'', star_if_empty msk)
                     else (star_if_empty msk, ''*'', ''*'')))"

definition pretty_mask :: "string \<Rightarrow> nat \<Rightarrow> (string \<times> nat) option" where
  "pretty_mask idmask mask_pos =
     (let msk = collapse (check_string (Some idmask))
      in if BUFSIZE - mask_pos < length msk + 5 then None
         else case mask_parts msk of (nick, user, host) \<Rightarrow>
           let r = take (NICKLEN - 1) nick @ ''!'' @ take USERLEN user @ ''@'' @ take HOSTLEN host
           in Some (r, mask_pos + length r + 1))"

text \<open>\<^verbatim>\<open>c & 0x7f\<close> may leave a zero byte, which ends the key.\<close>

definition low7 :: "char \<Rightarrow> char" where
  "low7 c = char_of ((of_char c :: nat) mod 128)"

definition fix_key :: "string \<Rightarrow> string" where
  "fix_key arg = takeWhile (\<lambda>c. c \<noteq> NUL)
     (filter (\<lambda>c. c \<noteq> CHR '':'' \<and> c \<noteq> CHR '','' \<and> (of_char c :: nat) > 32) (map low7 arg))"

definition fix_key_remote :: "string \<Rightarrow> string" where
  "fix_key_remote arg = takeWhile (\<lambda>c. c \<noteq> NUL)
     (filter (\<lambda>c. c \<noteq> LF \<and> c \<noteq> CHR '':'' \<and> c \<noteq> CHR '','' \<and> c \<noteq> CR \<and> c \<noteq> CHR '' '') (map low7 arg))"

definition KEYLEN :: nat where "KEYLEN = 24"

text \<open>\<^verbatim>\<open>atoi\<close> and \<^verbatim>\<open>atol\<close> of the C library: \<^verbatim>\<open>strtol\<close> stops at the bounds of \<^verbatim>\<open>long\<close>, and \<^verbatim>\<open>atoi\<close> keeps 32 bits of it.\<close>

definition c_atol :: "string \<Rightarrow> int" where
  "c_atol s = max (- (2 ^ 63)) (min (2 ^ 63 - 1) (atoi s))"

definition c_atoi :: "string \<Rightarrow> int" where
  "c_atoi s = sint (word_of_int (c_atol s) :: 32 word)"

section \<open>Masks\<close>

lemma star_if_empty_length: "length (star_if_empty s) \<le> max 1 (length s)"
  by (simp add: star_if_empty_def)

lemma collapse_loop_length: "length (collapse_loop f s) \<le> length s"
  by (induction f s rule: collapse_loop.induct) auto

lemma mask_parts_length:
  assumes "mask_parts msk = (n, u, h)" "msk \<noteq> []"
  shows "length n + length u + length h + 2 \<le> length msk + 4"
proof -
  have s: "length m = length a + length b + 1" if "strchr_split c m = Some (a, b)" for c m a b
    using strchr_split_Some [OF that] by simp
  show ?thesis using assms
    by (auto simp: mask_parts_def star_if_empty_def dest!: s split: option.splits if_splits)
qed

text \<open>
  The text and its terminator fit the buffer, and \<open>mask_pos\<close> never passes its end.  A mask that begins with a
  space is the exception: it becomes empty, and the six bytes of \<^verbatim>\<open>*!*@*\<close> are checked as five.
\<close>

lemma collapse_ne: "s \<noteq> [] \<Longrightarrow> collapse s \<noteq> []"
  by (cases s) (auto simp: collapse_def)

lemma pretty_mask_fits:
  assumes "pretty_mask idmask pos = Some (r, pos')" "idmask = [] \<or> \<not> IsSpace (hd idmask)"
  shows "pos' = pos + length r + 1" "pos' \<le> BUFSIZE"
proof -
  let ?m = "collapse (check_string (Some idmask))"
  obtain n u h where p: "mask_parts ?m = (n, u, h)" by (cases "mask_parts ?m")
  have r: "r = take (NICKLEN - 1) n @ ''!'' @ take USERLEN u @ ''@'' @ take HOSTLEN h" "pos' = pos + length r + 1"
    "\<not> BUFSIZE - pos < length ?m + 5"
    using assms p by (auto simp: pretty_mask_def Let_def split: if_splits)
  show "pos' = pos + length r + 1" by (rule r)
  have "?m \<noteq> []" using assms(2) by (intro collapse_ne) (cases idmask; simp add: check_string_def)
  then show "pos' \<le> BUFSIZE" using r mask_parts_length [OF p] by simp
qed

definition full_mask :: "string \<Rightarrow> string \<Rightarrow> string \<Rightarrow> string" where
  "full_mask n u h = n @ ''!'' @ u @ ''@'' @ h"

definition mask_part :: "string \<Rightarrow> bool" where
  "mask_part s \<longleftrightarrow> s \<noteq> [] \<and> CHR ''!'' \<notin> set s \<and> CHR ''@'' \<notin> set s \<and> no_double_star s \<and> (\<forall>c \<in> set s. \<not> IsSpace c)"

lemma collapse_loop_append:
  "collapse_loop f (s @ c # t) = collapse_loop f s @ c # collapse_loop False t" if "c \<noteq> CHR ''*''"
  using that by (induction f s rule: collapse_loop.induct) auto

lemma collapse_full: "mask_part n \<Longrightarrow> mask_part u \<Longrightarrow> mask_part h \<Longrightarrow> collapse (full_mask n u h) = full_mask n u h"
  by (simp add: collapse_def full_mask_def mask_part_def collapse_loop_append collapse_loop_fix)

lemma check_full:
  assumes "mask_part n" "mask_part u" "mask_part h"
  shows "check_string (Some (full_mask n u h)) = full_mask n u h"
proof -
  have "\<not> IsSpace (CHR ''!'')" "\<not> IsSpace (CHR ''@'')" by code_simp+
  then show ?thesis using assms by (auto simp: check_string_def full_mask_def mask_part_def takeWhile_eq_all_conv)
qed

lemma mask_parts_full:
  assumes "mask_part n" "mask_part u" "mask_part h"
  shows "mask_parts (full_mask n u h) = (n, u, h)"
proof -
  have "strchr_split (CHR ''@'') ((n @ ''!'' @ u) @ CHR ''@'' # h) = Some (n @ ''!'' @ u, h)"
    using assms by (intro strchr_split_append) (simp add: mask_part_def)
  moreover have "strchr_split (CHR ''!'') (n @ CHR ''!'' # u) = Some (n, u)"
    using assms by (intro strchr_split_append) (simp add: mask_part_def)
  ultimately show ?thesis using assms by (simp add: mask_parts_def full_mask_def mask_part_def star_if_empty_def)
qed

theorem pretty_mask_full:
  assumes "mask_part n" "mask_part u" "mask_part h" "length n < NICKLEN" "length u \<le> USERLEN" "length h \<le> HOSTLEN"
    and "length (full_mask n u h) + 5 \<le> BUFSIZE - pos"
  shows "pretty_mask (full_mask n u h) pos = Some (full_mask n u h, pos + length (full_mask n u h) + 1)"
  using assms by (simp add: pretty_mask_def check_full collapse_full mask_parts_full Let_def) (simp add: full_mask_def)

theorem pretty_mask_full_witness: "pretty_mask ''bob!b@h.it'' 0 = Some (''bob!b@h.it'', 11)"
proof -
  have "\<forall>c \<in> set ''bobh.it''. \<not> IsSpace c" by code_simp
  then have "mask_part ''bob''" "mask_part ''b''" "mask_part ''h.it''" by (simp_all add: mask_part_def)
  from pretty_mask_full [OF this, of 0] show ?thesis
    by (simp add: full_mask_def NICKLEN_def USERLEN_def HOSTLEN_def BUFSIZE_def)
qed

end
