(* ===== verification/Whowas.thy ===== *)
theory Whowas
  imports Hash Inet6 Dlink
begin

text \<open>
  The nick name history of \<^verbatim>\<open>libratboxcore/whowas.c\<close>: a ring of entries, each linked into the chain
  of its hash bucket and, while the client is online, into the chain of the client.  The links are
  modelled as the code has them, as indices into the ring; a chain is related to the sequence of
  its entries by \<open>links\<close>.  The client's own pointer \<^verbatim>\<open>client_p->whowas\<close> is the field
  \<open>wh_clist\<close>, by the client's address.

  The properties: in every run of the history the chains are what the entries say, a lookup under a
  nick that was just left returns the client that left it, and no lookup returns a client after
  \<^verbatim>\<open>off_history\<close> has been called for it, so that no pointer to a released client is followed.
\<close>

section \<open>Entries and the ring\<close>

record Whowas =
  ww_hashv :: int
  ww_name :: string
  ww_username :: string
  ww_hostname :: string
  ww_virthost :: string
  ww_servername :: "ptr option"  \<comment> \<open>the server whose \<^verbatim>\<open>name\<close> array it points into\<close>
  ww_realname :: string
  ww_cloak :: bool
  ww_logoff :: int
  ww_online :: "ptr option"
  ww_next :: "nat option"
  ww_prev :: "nat option"
  ww_cnext :: "nat option"
  ww_cprev :: "nat option"

definition NICKNAMEHISTORYLENGTH :: nat where "NICKNAMEHISTORYLENGTH = 30000"
definition WW_MAX_BITS :: nat where "WW_MAX_BITS = 16"
definition REALLEN :: nat where "REALLEN = 50"

definition hash_whowas_name :: "string \<Rightarrow> 32 word" where
  "hash_whowas_name x = fnv_hash_upper x WW_MAX_BITS 0"

record history =
  wh_tab :: "nat \<Rightarrow> Whowas"
  wh_hash :: "nat \<Rightarrow> nat option"
  wh_clist :: "ptr \<Rightarrow> nat option"
  wh_pos :: nat

definition zero_Whowas :: Whowas where
  "zero_Whowas =
     \<lparr>ww_hashv = 0, ww_name = [], ww_username = [], ww_hostname = [], ww_virthost = [], ww_servername = None,
      ww_realname = [], ww_cloak = False, ww_logoff = 0, ww_online = None, ww_next = None, ww_prev = None,
      ww_cnext = None, ww_cprev = None\<rparr>"

definition initwhowas :: "history \<Rightarrow> history" where
  "initwhowas h = h\<lparr>wh_tab := (\<lambda>i. if i < NICKNAMEHISTORYLENGTH then zero_Whowas\<lparr>ww_hashv := -1\<rparr> else wh_tab h i),
     wh_hash := (\<lambda>b. if b < 2 ^ WW_MAX_BITS then None else wh_hash h b)\<rparr>"

definition set_ww :: "nat \<Rightarrow> (Whowas \<Rightarrow> Whowas) \<Rightarrow> history \<Rightarrow> history" where
  "set_ww i f h = h\<lparr>wh_tab := (wh_tab h)(i := f (wh_tab h i))\<rparr>"

definition add_whowas_to_clist :: "ptr \<Rightarrow> nat \<Rightarrow> history \<Rightarrow> history" where
  "add_whowas_to_clist cp i h =
     (let bucket = wh_clist h cp;
          h = set_ww i (\<lambda>e. e\<lparr>ww_cprev := None, ww_cnext := bucket\<rparr>) h;
          h = (case bucket of None \<Rightarrow> h | Some y \<Rightarrow> set_ww y (\<lambda>e. e\<lparr>ww_cprev := Some i\<rparr>) h)
      in h\<lparr>wh_clist := (wh_clist h)(cp := Some i)\<rparr>)"

definition del_whowas_from_clist :: "ptr \<Rightarrow> nat \<Rightarrow> history \<Rightarrow> history" where
  "del_whowas_from_clist cp i h =
     (let h = (case ww_cprev (wh_tab h i) of
                 Some p \<Rightarrow> set_ww p (\<lambda>e. e\<lparr>ww_cnext := ww_cnext (wh_tab h i)\<rparr>) h
               | None \<Rightarrow> h\<lparr>wh_clist := (wh_clist h)(cp := ww_cnext (wh_tab h i))\<rparr>)
      in case ww_cnext (wh_tab h i) of
           Some n \<Rightarrow> set_ww n (\<lambda>e. e\<lparr>ww_cprev := ww_cprev (wh_tab h i)\<rparr>) h
         | None \<Rightarrow> h)"

definition add_whowas_to_list :: "nat \<Rightarrow> nat \<Rightarrow> history \<Rightarrow> history" where
  "add_whowas_to_list b i h =
     (let bucket = wh_hash h b;
          h = set_ww i (\<lambda>e. e\<lparr>ww_prev := None, ww_next := bucket\<rparr>) h;
          h = (case bucket of None \<Rightarrow> h | Some y \<Rightarrow> set_ww y (\<lambda>e. e\<lparr>ww_prev := Some i\<rparr>) h)
      in h\<lparr>wh_hash := (wh_hash h)(b := Some i)\<rparr>)"

definition del_whowas_from_list :: "nat \<Rightarrow> nat \<Rightarrow> history \<Rightarrow> history" where
  "del_whowas_from_list b i h =
     (let h = (case ww_prev (wh_tab h i) of
                 Some p \<Rightarrow> set_ww p (\<lambda>e. e\<lparr>ww_next := ww_next (wh_tab h i)\<rparr>) h
               | None \<Rightarrow> h\<lparr>wh_hash := (wh_hash h)(b := ww_next (wh_tab h i))\<rparr>)
      in case ww_next (wh_tab h i) of
           Some n \<Rightarrow> set_ww n (\<lambda>e. e\<lparr>ww_prev := ww_prev (wh_tab h i)\<rparr>) h
         | None \<Rightarrow> h)"

text \<open>
  The \<^verbatim>\<open>strcpy\<close> calls of \<^verbatim>\<open>add_history\<close> write into the fixed arrays of the entry: a longer text is
  a fault.  The time is the argument \<open>now\<close>.
\<close>

definition who_fits :: "Client \<Rightarrow> bool" where
  "who_fits c \<longleftrightarrow> length (cl_name c) \<le> NICKLEN \<and> length (cl_username c) \<le> USERLEN \<and> length (cl_host c) \<le> HOSTLEN \<and>
     length (cl_virthost c) \<le> HOSTLEN \<and> length (cl_info c) \<le> REALLEN"

definition who_fields :: "Client \<Rightarrow> ptr \<Rightarrow> int \<Rightarrow> Whowas \<Rightarrow> Whowas option" where
  "who_fields c servptr now e =
     (if who_fits c
      then Some (e\<lparr>ww_hashv := uint (hash_whowas_name (cl_name c)), ww_logoff := now, ww_name := cl_name c,
        ww_username := cl_username c, ww_hostname := cl_host c, ww_virthost := cl_virthost c,
        ww_realname := cl_info c, ww_cloak := IsCloaked c, ww_servername := Some servptr\<rparr>)
      else None)"

definition forget_who :: "nat \<Rightarrow> history \<Rightarrow> history" where
  "forget_who i h =
     (if ww_hashv (wh_tab h i) \<noteq> -1 then
        let h = (case ww_online (wh_tab h i) of None \<Rightarrow> h | Some cp \<Rightarrow> del_whowas_from_clist cp i h)
        in del_whowas_from_list (nat (ww_hashv (wh_tab h i))) i h
      else h)"

definition enter_who :: "ptr \<Rightarrow> bool \<Rightarrow> nat \<Rightarrow> Whowas \<Rightarrow> history \<Rightarrow> history" where
  "enter_who client_p online i e h =
     (let h = set_ww i (\<lambda>_. e) h;
          h = (if online then add_whowas_to_clist client_p i (set_ww i (\<lambda>e. e\<lparr>ww_online := Some client_p\<rparr>) h)
               else set_ww i (\<lambda>e. e\<lparr>ww_online := None\<rparr>) h);
          h = add_whowas_to_list (nat (ww_hashv (wh_tab h i))) i h
      in h\<lparr>wh_pos := (if wh_pos h + 1 = NICKNAMEHISTORYLENGTH then 0 else wh_pos h + 1)\<rparr>)"

definition add_history :: "(ptr \<rightharpoonup> Client) \<Rightarrow> int \<Rightarrow> ptr \<Rightarrow> bool \<Rightarrow> history \<Rightarrow> history option" where
  "add_history cls now client_p online h = do {
     let i = wh_pos h;
     let h = forget_who i h;
     c \<leftarrow> cls client_p;
     sp \<leftarrow> cl_servptr c;
     e \<leftarrow> who_fields c sp now (wh_tab h i);
     Some (enter_who client_p online i e h)
   }"

text \<open>The walks along the links take fuel; running out of it is \<^term>\<open>None\<close>.\<close>

fun off_loop :: "nat \<Rightarrow> ptr \<Rightarrow> nat option \<Rightarrow> history \<Rightarrow> history option" where
  "off_loop fuel cp None h = Some h"
| "off_loop 0 cp (Some i) h = None"
| "off_loop (Suc fuel) cp (Some i) h =
     (let nxt = ww_cnext (wh_tab h i)
      in off_loop fuel cp nxt (del_whowas_from_clist cp i (set_ww i (\<lambda>e. e\<lparr>ww_online := None\<rparr>) h)))"

definition off_history :: "ptr \<Rightarrow> history \<Rightarrow> history option" where
  "off_history client_p h = off_loop NICKNAMEHISTORYLENGTH client_p (wh_clist h client_p) h"

fun get_loop :: "nat \<Rightarrow> string \<Rightarrow> int \<Rightarrow> nat option \<Rightarrow> history \<Rightarrow> ptr option option" where
  "get_loop fuel nick timelimit None h = Some None"
| "get_loop 0 nick timelimit (Some i) h = None"
| "get_loop (Suc fuel) nick timelimit (Some i) h =
     (let temp = wh_tab h i
      in if irccmp nick (ww_name temp) \<noteq> 0 then get_loop fuel nick timelimit (ww_next temp) h
         else if ww_logoff temp < timelimit then get_loop fuel nick timelimit (ww_next temp) h
         else Some (ww_online temp))"

definition get_history :: "int \<Rightarrow> string \<Rightarrow> int \<Rightarrow> history \<Rightarrow> ptr option option" where
  "get_history now nick timelimit h =
     get_loop NICKNAMEHISTORYLENGTH nick (now - timelimit) (wh_hash h (unat (hash_whowas_name nick))) h"

definition count_whowas_memory :: "nat \<Rightarrow> history \<Rightarrow> nat \<times> nat" where
  "count_whowas_memory sz h =
     (let u = length (filter (\<lambda>i. ww_hashv (wh_tab h i) \<noteq> -1) [0..<NICKNAMEHISTORYLENGTH]) in (u, u * sz))"

section \<open>Linked chains\<close>

text \<open>\<open>linked nx pv p is q\<close>: the entries \<open>is\<close> are linked both ways, with \<open>p\<close> on the left and \<open>q\<close> on the right.\<close>

fun linked :: "(nat \<Rightarrow> nat option) \<Rightarrow> (nat \<Rightarrow> nat option) \<Rightarrow> nat option \<Rightarrow> nat list \<Rightarrow> nat option \<Rightarrow> bool" where
  "linked nx pv p [] q \<longleftrightarrow> True"
| "linked nx pv p (i # is) q \<longleftrightarrow> pv i = p \<and> nx i = first_of is q \<and> linked nx pv (Some i) is q"

definition links :: "(nat \<Rightarrow> nat option) \<Rightarrow> (nat \<Rightarrow> nat option) \<Rightarrow> nat option \<Rightarrow> nat list \<Rightarrow> bool" where
  "links nx pv h is \<longleftrightarrow> h = first_of is None \<and> linked nx pv None is None \<and> distinct is"

lemma linked_append:
  "linked nx pv p (is @ js) q \<longleftrightarrow> linked nx pv p is (first_of js q) \<and> linked nx pv (last_of p is) js q"
  by (induction "is" arbitrary: p) auto

lemma linked_cong:
  "(\<And>j. j \<in> set is \<Longrightarrow> nx' j = nx j \<and> pv' j = pv j) \<Longrightarrow> linked nx' pv' p is q = linked nx pv p is q"
  by (induction "is" arbitrary: p) auto

lemma links_cong:
  "(\<And>j. j \<in> set is \<Longrightarrow> nx' j = nx j \<and> pv' j = pv j) \<Longrightarrow> links nx' pv' h is = links nx pv h is"
  using linked_cong [of "is" nx' nx pv' pv None None] unfolding links_def by blast

lemma links_split:
  assumes "links nx pv h is" "i \<in> set is"
  obtains as bs where "is = as @ i # bs" "i \<notin> set as" "i \<notin> set bs" "distinct (as @ bs)" "pv i = last_of None as"
    "nx i = first_of bs None" "linked nx pv None as (Some i)" "linked nx pv (Some i) bs None" "h = first_of is None"
proof -
  obtain as bs where s: "is = as @ i # bs" using assms(2) by (meson split_list)
  from assms(1) have "linked nx pv None (as @ i # bs) None" "distinct (as @ i # bs)" "h = first_of is None"
    unfolding links_def s by simp_all
  then show ?thesis by (intro that [OF s]) (simp_all add: linked_append)
qed

lemma links_neighbours:
  assumes "links nx pv h is" "i \<in> set is"
  shows "pv i = Some j \<Longrightarrow> j \<in> set is" and "nx i = Some j \<Longrightarrow> j \<in> set is"
proof -
  from assms obtain as bs where s: "is = as @ i # bs" "pv i = last_of None as" "nx i = first_of bs None"
    by (rule links_split)
  show "pv i = Some j \<Longrightarrow> j \<in> set is" unfolding s by (auto simp: last_of_def split: if_splits)
  show "nx i = Some j \<Longrightarrow> j \<in> set is" unfolding s by (auto simp: first_of_def split: list.splits)
qed

lemma links_add:
  assumes l: "links nx pv h is" and i: "i \<notin> set is"
    and nx: "\<And>j. nx' j = (if j = i then h else nx j)"
    and pv: "\<And>j. pv' j = (if h = Some j then Some i else if j = i then None else pv j)"
  shows "links nx' pv' (Some i) (i # is)"
proof (cases "is")
  case Nil
  then show ?thesis using l nx pv by (simp add: links_def)
next
  case (Cons k ks)
  have "linked nx' pv' (Some k) ks None = linked nx pv (Some k) ks None"
    using l i Cons by (intro linked_cong) (auto simp: nx pv links_def)
  then show ?thesis using l i Cons by (auto simp: links_def nx pv)
qed

lemma links_del:
  assumes l: "links nx pv h is" and i: "i \<in> set is"
    and nx: "\<And>j. nx' j = (if pv i = Some j then nx i else nx j)"
    and pv: "\<And>j. pv' j = (if nx i = Some j then pv i else pv j)"
  shows "links nx' pv' (if pv i = None then nx i else h) (remove1 i is)"
proof -
  from l i obtain as bs where s: "is = as @ i # bs" "i \<notin> set as" "i \<notin> set bs" "distinct (as @ bs)"
    "pv i = last_of None as" "nx i = first_of bs None" "linked nx pv None as (Some i)"
    "linked nx pv (Some i) bs None" "h = first_of is None" by (rule links_split)
  have pvi: "pv i = Some j \<Longrightarrow> as \<noteq> [] \<and> j = last as" for j using s(5) by (auto simp: last_of_def split: if_splits)
  have nxi: "nx i = Some j \<Longrightarrow> bs \<noteq> [] \<and> j = hd bs" for j using s(6) by (auto simp: first_of_def split: list.splits)
  have nxi': "nx i = Some j \<Longrightarrow> j \<in> set bs" for j using nxi by force
  have a: "linked nx' pv' None as (first_of bs None)"
  proof (cases as rule: rev_cases)
    case (snoc as' a)
    have "linked nx' pv' None as' (Some a) = linked nx pv None as' (Some a)"
    proof (rule linked_cong)
      fix j assume "j \<in> set as'"
      then show "nx' j = nx j \<and> pv' j = pv j" using s(4) snoc pvi [of j] nxi' [of j] by (auto simp: nx pv)
    qed
    moreover have "linked nx pv None as' (Some a)" "pv a = last_of None as'"
      using s(7) unfolding snoc linked_append by simp_all
    moreover have "pv i = Some a" using s(5) snoc by (simp add: last_of_def)
    moreover have "pv' a = pv a" using s(4) snoc nxi' [of a] by (auto simp: pv)
    ultimately show ?thesis using s(6) unfolding snoc linked_append by (simp add: nx)
  qed simp
  have b: "linked nx' pv' (last_of None as) bs None"
  proof (cases bs)
    case (Cons b bs')
    have "linked nx' pv' (Some b) bs' None = linked nx pv (Some b) bs' None"
    proof (rule linked_cong)
      fix j assume "j \<in> set bs'"
      then show "nx' j = nx j \<and> pv' j = pv j"
        using s(4) Cons pvi [of j] nxi [of j] by (auto simp: nx pv dest: last_in_set)
    qed
    moreover have "linked nx pv (Some b) bs' None" "nx b = first_of bs' None" using s(8) Cons by simp_all
    moreover have "nx' b = nx b" using s(4) Cons pvi [of b] by (auto simp: nx dest: last_in_set)
    moreover have "pv' b = pv i" using s(6) Cons by (simp add: pv)
    ultimately show ?thesis using s(5) Cons by simp
  qed simp
  have "remove1 i is = as @ bs" using s by (simp add: remove1_append)
  moreover have "(if pv i = None then nx i else h) = first_of (as @ bs) None"
    unfolding s(5,6,9) s(1) by (cases as) (simp_all add: last_of_def)
  ultimately show ?thesis using a b s by (simp add: links_def linked_append)
qed

text \<open>
  A family of disjoint chains with a head for every key, and the contract of the routines that insert an
  entry at the head of a chain and take one out.  The two families of the history are its instances.
\<close>

definition chains ::
  "('k \<Rightarrow> nat option) \<Rightarrow> (nat \<Rightarrow> nat option) \<Rightarrow> (nat \<Rightarrow> nat option) \<Rightarrow> ('k \<Rightarrow> nat list) \<Rightarrow> bool" where
  "chains heads nx pv L \<longleftrightarrow> (\<forall>k. links nx pv (heads k) (L k)) \<and> (\<forall>k k'. k \<noteq> k' \<longrightarrow> set (L k) \<inter> set (L k') = {})"

text \<open>
  The chain of a key holds the entries of the ring with that key, apart from those in \<open>X\<close> that are being
  moved.
\<close>

definition indexed ::
  "('k \<Rightarrow> nat option) \<Rightarrow> (nat \<Rightarrow> nat option) \<Rightarrow> (nat \<Rightarrow> nat option) \<Rightarrow> (nat \<Rightarrow> 'k option) \<Rightarrow> nat set \<Rightarrow>
   ('k \<Rightarrow> nat list) \<Rightarrow> bool" where
  "indexed heads nx pv key X L \<longleftrightarrow> chains heads nx pv L \<and>
     (\<forall>k. set (L k) = {j. j < NICKNAMEHISTORYLENGTH \<and> j \<notin> X \<and> key j = Some k})"

lemma indexed_none: "key i = None \<Longrightarrow> indexed heads nx pv key {i} L = indexed heads nx pv key {} L"
proof -
  assume "key i = None"
  then have "{j. j < NICKNAMEHISTORYLENGTH \<and> j \<notin> {i} \<and> key j = Some k} =
      {j. j < NICKNAMEHISTORYLENGTH \<and> j \<notin> {} \<and> key j = Some k}" for k
    by auto
  then show ?thesis by (simp add: indexed_def)
qed

lemma indexed_cong:
  assumes "\<And>j. j \<notin> X \<Longrightarrow> nx' j = nx j \<and> pv' j = pv j \<and> key' j = key j"
  shows "indexed heads nx' pv' key' X L = indexed heads nx pv key X L"
proof (cases "\<forall>k. set (L k) = {j. j < NICKNAMEHISTORYLENGTH \<and> j \<notin> X \<and> key j = Some k}")
  case True
  have "links nx' pv' (heads k) (L k) = links nx pv (heads k) (L k)" for k
    using assms True by (intro links_cong) auto
  moreover have "{j. j < NICKNAMEHISTORYLENGTH \<and> j \<notin> X \<and> key' j = Some k} =
      {j. j < NICKNAMEHISTORYLENGTH \<and> j \<notin> X \<and> key j = Some k}" for k
    using assms by auto
  ultimately show ?thesis by (simp add: indexed_def chains_def)
next
  case False
  then show ?thesis using assms by (auto simp: indexed_def)
qed

lemma indexed_head:
  assumes "indexed heads nx pv key X L"
  shows "heads k = first_of (L k) None" "linked nx pv None (L k) None" "distinct (L k)"
    "length (L k) \<le> NICKNAMEHISTORYLENGTH"
proof -
  show "heads k = first_of (L k) None" "linked nx pv None (L k) None" and d: "distinct (L k)"
    using assms by (auto simp: indexed_def chains_def links_def)
  have "set (L k) \<subseteq> {..<NICKNAMEHISTORYLENGTH}" using assms by (auto simp: indexed_def)
  then show "length (L k) \<le> NICKNAMEHISTORYLENGTH"
    using d by (metis card_lessThan card_mono distinct_card finite_lessThan)
qed

locale link_table =
  fixes heads :: "'s \<Rightarrow> 'k \<Rightarrow> nat option" and nx pv :: "'s \<Rightarrow> nat \<Rightarrow> nat option"
    and add del :: "'k \<Rightarrow> nat \<Rightarrow> 's \<Rightarrow> 's"
  assumes nx_add: "nx (add k i s) j = (if j = i then heads s k else nx s j)"
    and pv_add: "pv (add k i s) j = (if heads s k = Some j then Some i else if j = i then None else pv s j)"
    and heads_add: "heads (add k i s) = (heads s)(k := Some i)"
    and nx_del: "nx (del k i s) j = (if pv s i = Some j then nx s i else nx s j)"
    and pv_del: "pv (del k i s) j = (if nx s i = Some j then pv s i else pv s j)"
    and heads_del: "heads (del k i s) = (if pv s i = None then (heads s)(k := nx s i) else heads s)"
begin

lemma chains_add:
  assumes c: "chains (heads s) (nx s) (pv s) L" and new: "\<And>k. i \<notin> set (L k)"
  shows "chains (heads (add k i s)) (nx (add k i s)) (pv (add k i s)) (L(k := i # L k))"
proof -
  have l: "links (nx s) (pv s) (heads s k') (L k')" for k' using c by (simp add: chains_def)
  have d: "j \<in> set (L k) \<Longrightarrow> j \<in> set (L k') \<Longrightarrow> k' = k" for k' j using c by (auto simp: chains_def)
  have "links (nx (add k i s)) (pv (add k i s)) (heads (add k i s) k') ((L(k := i # L k)) k')" for k'
  proof (cases "k' = k")
    case True
    then show ?thesis using links_add [OF l new nx_add pv_add] by (simp add: heads_add)
  next
    case False
    have "heads s k = Some j \<Longrightarrow> j \<in> set (L k)" for j
      using l [of k] by (auto simp: links_def first_of_def split: list.splits)
    then have "links (nx (add k i s)) (pv (add k i s)) (heads s k') (L k') = links (nx s) (pv s) (heads s k') (L k')"
      using False new by (intro links_cong) (auto simp: nx_add pv_add dest: d)
    then show ?thesis using l False by (simp add: heads_add)
  qed
  then show ?thesis using c new by (auto simp: chains_def)
qed

lemma chains_del:
  assumes c: "chains (heads s) (nx s) (pv s) L" and i: "i \<in> set (L k)"
  shows "chains (heads (del k i s)) (nx (del k i s)) (pv (del k i s)) (L(k := remove1 i (L k)))"
proof -
  have l: "links (nx s) (pv s) (heads s k') (L k')" for k' using c by (simp add: chains_def)
  have d: "j \<in> set (L k) \<Longrightarrow> j \<in> set (L k') \<Longrightarrow> k' = k" for k' j using c by (auto simp: chains_def)
  have "links (nx (del k i s)) (pv (del k i s)) (heads (del k i s) k') ((L(k := remove1 i (L k))) k')" for k'
  proof (cases "k' = k")
    case True
    then show ?thesis using links_del [OF l [of k] i nx_del pv_del] by (auto simp: heads_del split: if_splits)
  next
    case False
    have "links (nx (del k i s)) (pv (del k i s)) (heads s k') (L k') = links (nx s) (pv s) (heads s k') (L k')"
      using False by (intro links_cong) (auto simp: nx_del pv_del dest: links_neighbours [OF l i] d)
    then show ?thesis using l False by (simp add: heads_del)
  qed
  moreover have "set (remove1 i (L k)) \<subseteq> set (L k)" by (rule set_remove1_subset)
  ultimately show ?thesis using c by (fastforce simp: chains_def)
qed

lemma indexed_add:
  assumes h: "indexed (heads s) (nx s) (pv s) key {i} L" and i: "i < NICKNAMEHISTORYLENGTH" "key i = Some k"
  shows "indexed (heads (add k i s)) (nx (add k i s)) (pv (add k i s)) key {} (L(k := i # L k))"
  using h i chains_add [of s L i k] by (auto simp: indexed_def)

lemma indexed_del:
  assumes h: "indexed (heads s) (nx s) (pv s) key {} L" and i: "i < NICKNAMEHISTORYLENGTH" "key i = Some k"
  shows "indexed (heads (del k i s)) (nx (del k i s)) (pv (del k i s)) key {i} (L(k := remove1 i (L k)))"
proof -
  have "i \<in> set (L k)" "distinct (L k)" using h i indexed_head(3) [OF h] by (auto simp: indexed_def)
  then show ?thesis using h i chains_del [of s L i k] by (auto simp: indexed_def)
qed

end

text \<open>Reading the entries after the updates.\<close>

abbreviation hash_next :: "history \<Rightarrow> nat \<Rightarrow> nat option" where "hash_next h i \<equiv> ww_next (wh_tab h i)"
abbreviation hash_prev :: "history \<Rightarrow> nat \<Rightarrow> nat option" where "hash_prev h i \<equiv> ww_prev (wh_tab h i)"
abbreviation cli_next :: "history \<Rightarrow> nat \<Rightarrow> nat option" where "cli_next h i \<equiv> ww_cnext (wh_tab h i)"
abbreviation cli_prev :: "history \<Rightarrow> nat \<Rightarrow> nat option" where "cli_prev h i \<equiv> ww_cprev (wh_tab h i)"

definition who_data :: "Whowas \<Rightarrow> int \<times> string \<times> int \<times> ptr option" where
  "who_data e = (ww_hashv e, ww_name e, ww_logoff e, ww_online e)"

lemmas link_ops = add_whowas_to_clist_def del_whowas_from_clist_def add_whowas_to_list_def
  del_whowas_from_list_def set_ww_def Let_def

lemma hash_ops_frame [simp]:
  "wh_clist (add_whowas_to_list b i h) = wh_clist h" "wh_clist (del_whowas_from_list b i h) = wh_clist h"
  "wh_pos (add_whowas_to_list b i h) = wh_pos h" "wh_pos (del_whowas_from_list b i h) = wh_pos h"
  "cli_next (add_whowas_to_list b i h) j = cli_next h j" "cli_next (del_whowas_from_list b i h) j = cli_next h j"
  "cli_prev (add_whowas_to_list b i h) j = cli_prev h j" "cli_prev (del_whowas_from_list b i h) j = cli_prev h j"
  "who_data (wh_tab (add_whowas_to_list b i h) j) = who_data (wh_tab h j)"
  "who_data (wh_tab (del_whowas_from_list b i h) j) = who_data (wh_tab h j)"
  by (auto simp: link_ops who_data_def split: option.split)

lemma client_ops_frame [simp]:
  "wh_hash (add_whowas_to_clist p i h) = wh_hash h" "wh_hash (del_whowas_from_clist p i h) = wh_hash h"
  "wh_pos (add_whowas_to_clist p i h) = wh_pos h" "wh_pos (del_whowas_from_clist p i h) = wh_pos h"
  "hash_next (add_whowas_to_clist p i h) j = hash_next h j" "hash_next (del_whowas_from_clist p i h) j = hash_next h j"
  "hash_prev (add_whowas_to_clist p i h) j = hash_prev h j" "hash_prev (del_whowas_from_clist p i h) j = hash_prev h j"
  "who_data (wh_tab (add_whowas_to_clist p i h) j) = who_data (wh_tab h j)"
  "who_data (wh_tab (del_whowas_from_clist p i h) j) = who_data (wh_tab h j)"
  by (auto simp: link_ops who_data_def split: option.split)

interpretation hash_links: link_table wh_hash hash_next hash_prev add_whowas_to_list del_whowas_from_list
  by unfold_locales (auto simp: link_ops split: option.split)

interpretation client_links: link_table wh_clist cli_next cli_prev add_whowas_to_clist del_whowas_from_clist
  by unfold_locales (auto simp: link_ops split: option.split)

section \<open>The invariant\<close>

definition hash_key :: "history \<Rightarrow> nat \<Rightarrow> nat option" where
  "hash_key h i = (if ww_hashv (wh_tab h i) = -1 then None else Some (nat (ww_hashv (wh_tab h i))))"

abbreviation cli_key :: "history \<Rightarrow> nat \<Rightarrow> ptr option" where "cli_key h i \<equiv> ww_online (wh_tab h i)"

definition hash_ok :: "history \<Rightarrow> nat set \<Rightarrow> (nat \<Rightarrow> nat list) \<Rightarrow> bool" where
  "hash_ok h X B \<longleftrightarrow> indexed (wh_hash h) (hash_next h) (hash_prev h) (hash_key h) X B"

definition cli_ok :: "history \<Rightarrow> nat set \<Rightarrow> (ptr \<Rightarrow> nat list) \<Rightarrow> bool" where
  "cli_ok h X C \<longleftrightarrow> indexed (wh_clist h) (cli_next h) (cli_prev h) (cli_key h) X C"

definition entry_ok :: "Whowas \<Rightarrow> bool" where
  "entry_ok e \<longleftrightarrow> (ww_hashv e = -1 \<and> ww_online e = None) \<or> ww_hashv e = uint (hash_whowas_name (ww_name e))"

definition hist_ok :: "history \<Rightarrow> bool" where
  "hist_ok h \<longleftrightarrow> wh_pos h < NICKNAMEHISTORYLENGTH \<and> (\<forall>i < NICKNAMEHISTORYLENGTH. entry_ok (wh_tab h i)) \<and>
     (\<exists>B. hash_ok h {} B) \<and> (\<exists>C. cli_ok h {} C)"

lemma uint_not_minus_one [simp]: "uint (x :: 32 word) \<noteq> -1" "- 1 \<noteq> uint (x :: 32 word)"
  using uint_ge_0 [of x] by linarith+

lemma who_data_eq:
  assumes "who_data e' = who_data e"
  shows "ww_hashv e' = ww_hashv e" "ww_name e' = ww_name e" "ww_logoff e' = ww_logoff e" "ww_online e' = ww_online e"
    "entry_ok e' = entry_ok e"
  using assms by (auto simp: who_data_def entry_ok_def)

lemmas hash_ops_data = hash_ops_frame(9,10) [THEN who_data_eq(1)] hash_ops_frame(9,10) [THEN who_data_eq(2)]
  hash_ops_frame(9,10) [THEN who_data_eq(3)] hash_ops_frame(9,10) [THEN who_data_eq(4)]
  hash_ops_frame(9,10) [THEN who_data_eq(5)]
lemmas client_ops_data = client_ops_frame(9,10) [THEN who_data_eq(1)] client_ops_frame(9,10) [THEN who_data_eq(2)]
  client_ops_frame(9,10) [THEN who_data_eq(3)] client_ops_frame(9,10) [THEN who_data_eq(4)]
  client_ops_frame(9,10) [THEN who_data_eq(5)]

declare hash_ops_data [simp] client_ops_data [simp]

lemma key_frame [simp]:
  "hash_key (add_whowas_to_list b i h) = hash_key h" "hash_key (del_whowas_from_list b i h) = hash_key h"
  "hash_key (add_whowas_to_clist p i h) = hash_key h" "hash_key (del_whowas_from_clist p i h) = hash_key h"
  by (auto simp: hash_key_def fun_eq_iff)

lemma ok_frame [simp]:
  "cli_ok (add_whowas_to_list b i h) = cli_ok h" "cli_ok (del_whowas_from_list b i h) = cli_ok h"
  "hash_ok (add_whowas_to_clist p i h) = hash_ok h" "hash_ok (del_whowas_from_clist p i h) = hash_ok h"
  by (auto simp: cli_ok_def hash_ok_def fun_eq_iff)

lemma set_ww_frame [simp]:
  "wh_hash (set_ww i f h) = wh_hash h" "wh_clist (set_ww i f h) = wh_clist h" "wh_pos (set_ww i f h) = wh_pos h"
  "wh_tab (set_ww i f h) j = (if j = i then f (wh_tab h i) else wh_tab h j)"
  by (auto simp: set_ww_def)

lemma ok_set_ww [simp]: "hash_ok (set_ww i f h) {i} B = hash_ok h {i} B" "cli_ok (set_ww i f h) {i} C = cli_ok h {i} C"
  unfolding hash_ok_def cli_ok_def set_ww_frame(1,2) by (rule indexed_cong; simp add: hash_key_def)+

lemma hash_key_Some: "hash_key h i = Some (nat (ww_hashv (wh_tab h i))) \<longleftrightarrow> ww_hashv (wh_tab h i) \<noteq> -1"
  by (simp add: hash_key_def)

lemma ok_pos [simp]: "hash_ok (h\<lparr>wh_pos := n\<rparr>) = hash_ok h" "cli_ok (h\<lparr>wh_pos := n\<rparr>) = cli_ok h"
proof -
  have k: "hash_key (h\<lparr>wh_pos := n\<rparr>) = hash_key h" by (simp add: fun_eq_iff hash_key_def)
  show "hash_ok (h\<lparr>wh_pos := n\<rparr>) = hash_ok h" by (intro ext) (simp add: hash_ok_def k)
  show "cli_ok (h\<lparr>wh_pos := n\<rparr>) = cli_ok h" by (intro ext) (simp add: cli_ok_def)
qed

lemma cli_ok_add:
  "cli_ok h {i} C \<Longrightarrow> i < NICKNAMEHISTORYLENGTH \<Longrightarrow> cli_key h i = Some cp \<Longrightarrow>
   cli_ok (add_whowas_to_clist cp i h) {} (C(cp := i # C cp))"
  using client_links.indexed_add [of h "cli_key h" i C cp] by (simp add: cli_ok_def)

lemma cli_ok_del:
  "cli_ok h {} C \<Longrightarrow> i < NICKNAMEHISTORYLENGTH \<Longrightarrow> cli_key h i = Some cp \<Longrightarrow>
   cli_ok (del_whowas_from_clist cp i h) {i} (C(cp := remove1 i (C cp)))"
  using client_links.indexed_del [of h "cli_key h" C i cp] by (simp add: cli_ok_def)

lemma cli_ok_none: "cli_key h i = None \<Longrightarrow> cli_ok h {i} C = cli_ok h {} C"
  by (simp add: cli_ok_def indexed_none)

lemma hash_ok_add:
  "hash_ok h {i} B \<Longrightarrow> i < NICKNAMEHISTORYLENGTH \<Longrightarrow> hash_key h i = Some b \<Longrightarrow>
   hash_ok (add_whowas_to_list b i h) {} (B(b := i # B b))"
  using hash_links.indexed_add [of h "hash_key h" i B b] by (simp add: hash_ok_def)

lemma hash_ok_del:
  "hash_ok h {} B \<Longrightarrow> i < NICKNAMEHISTORYLENGTH \<Longrightarrow> hash_key h i = Some b \<Longrightarrow>
   hash_ok (del_whowas_from_list b i h) {i} (B(b := remove1 i (B b)))"
  using hash_links.indexed_del [of h "hash_key h" B i b] by (simp add: hash_ok_def)

lemma forget_who_ok:
  assumes h: "hash_ok h {} B" "cli_ok h {} C" "entry_ok (wh_tab h i)" "i < NICKNAMEHISTORYLENGTH"
  shows "\<exists>B C. hash_ok (forget_who i h) {i} B \<and> cli_ok (forget_who i h) {i} C"
    and "wh_pos (forget_who i h) = wh_pos h" and "who_data (wh_tab (forget_who i h) j) = who_data (wh_tab h j)"
proof -
  show "wh_pos (forget_who i h) = wh_pos h" "who_data (wh_tab (forget_who i h) j) = who_data (wh_tab h j)"
    by (auto simp: forget_who_def Let_def split: option.split)
  show "\<exists>B C. hash_ok (forget_who i h) {i} B \<and> cli_ok (forget_who i h) {i} C"
  proof (cases "ww_hashv (wh_tab h i) = -1")
    case True
    then have "ww_online (wh_tab h i) = None" using h(3) by (auto simp: entry_ok_def)
    then show ?thesis using h True
      by (auto simp: forget_who_def hash_ok_def cli_ok_def indexed_none hash_key_def)
  next
    case False
    define h' where "h' = (case ww_online (wh_tab h i) of None \<Rightarrow> h | Some cp \<Rightarrow> del_whowas_from_clist cp i h)"
    have c: "\<exists>C. cli_ok h' {i} C"
      using h(2,4) cli_ok_del [of h C i] cli_ok_none [of h i C] by (auto simp: h'_def split: option.split)
    have "hash_ok h' {} B" using h by (simp add: h'_def split: option.split)
    moreover have k: "hash_key h' i = Some (nat (ww_hashv (wh_tab h i)))" "ww_hashv (wh_tab h' i) = ww_hashv (wh_tab h i)"
      using False by (auto simp: h'_def hash_key_def split: option.split)
    ultimately have "\<exists>B. hash_ok (del_whowas_from_list (nat (ww_hashv (wh_tab h i))) i h') {i} B"
      using hash_ok_del [of h' B i] h(4) by auto
    then show ?thesis using c False k by (simp add: forget_who_def h'_def [symmetric])
  qed
qed

lemma add_history_ok:
  assumes ok: "hist_ok h" and r: "add_history cls now cp online h = Some h'"
  shows "hist_ok h'" and "\<exists>c. cls cp = Some c \<and>
      who_data (wh_tab h' (wh_pos h)) = (uint (hash_whowas_name (cl_name c)), cl_name c, now, if online then Some cp else None)"
    and "j \<noteq> wh_pos h \<Longrightarrow> who_data (wh_tab h' j) = who_data (wh_tab h j)"
    and "\<exists>c is. cls cp = Some c \<and> links (hash_next h') (hash_prev h') (wh_hash h' (unat (hash_whowas_name (cl_name c)))) (wh_pos h # is)"
proof -
  define i where "i = wh_pos h"
  define h1 where "h1 = forget_who i h"
  have i: "i < NICKNAMEHISTORYLENGTH" and pos: "wh_pos h1 = i"
    and d1: "who_data (wh_tab h1 j) = who_data (wh_tab h j)" for j
    using ok forget_who_ok(2,3) by (auto simp: hist_ok_def i_def h1_def)
  obtain B C where BC: "hash_ok h1 {i} B" "cli_ok h1 {i} C"
    using ok forget_who_ok(1) [of h _ _ i] i unfolding hist_ok_def h1_def by blast
  obtain c e sp where c: "cls cp = Some c" and e: "who_fields c sp now (wh_tab h1 i) = Some e"
    and h': "h' = enter_who cp online i e h1"
    using r unfolding add_history_def Let_def bind_eq_Some_conv option.inject h1_def i_def by blast
  define h2 where "h2 = set_ww i (\<lambda>e. e\<lparr>ww_online := if online then Some cp else None\<rparr>) (set_ww i (\<lambda>_. e) h1)"
  define h3 where "h3 = (if online then add_whowas_to_clist cp i h2 else h2)"
  define b where "b = unat (hash_whowas_name (cl_name c))"
  have e': "ww_hashv e = int b" "ww_name e = cl_name c" "ww_logoff e = now"
    using e by (auto simp: who_fields_def b_def split: if_splits)
  have h'3: "h' = (add_whowas_to_list b i h3)\<lparr>wh_pos := (if i + 1 = NICKNAMEHISTORYLENGTH then 0 else i + 1)\<rparr>"
    using pos e' by (simp add: h' enter_who_def h3_def h2_def Let_def)
  have c2: "cli_ok h2 {i} C" "hash_ok h2 {i} B" using BC by (simp_all add: h2_def)
  have c3: "\<exists>C. cli_ok h3 {} C"
  proof (cases online)
    case True
    then have "cli_key h2 i = Some cp" by (simp add: h2_def)
    then show ?thesis using cli_ok_add [OF c2(1) i] True by (auto simp: h3_def)
  next
    case False
    then have "cli_key h2 i = None" by (simp add: h2_def)
    then show ?thesis using cli_ok_none [of h2 i C] c2(1) False by (auto simp: h3_def)
  qed
  have "hash_ok h3 {i} B" using c2 by (simp add: h3_def)
  moreover have "hash_key h3 i = Some b" using e' by (simp add: h3_def hash_key_def h2_def)
  ultimately have b3: "hash_ok (add_whowas_to_list b i h3) {} (B(b := i # B b))"
    using i by (intro hash_ok_add)
  have d3: "who_data (wh_tab h3 j) = (if j = i then (int b, cl_name c, now, if online then Some cp else None) else who_data (wh_tab h j))" for j
    using d1 e' by (auto simp: h3_def h2_def) (simp_all add: who_data_def)
  have "entry_ok (wh_tab h3 j)" if "j < NICKNAMEHISTORYLENGTH" for j
    using ok that d3 [of j] who_data_eq(5) [of "wh_tab h3 j" "wh_tab h j"]
    by (cases "j = i") (auto simp: hist_ok_def, auto simp: entry_ok_def who_data_def b_def)
  then show "hist_ok h'" using i b3 c3 by (auto simp: hist_ok_def h'3)
  show "\<exists>c. cls cp = Some c \<and>
      who_data (wh_tab h' (wh_pos h)) = (uint (hash_whowas_name (cl_name c)), cl_name c, now, if online then Some cp else None)"
    using c d3 [of i] by (simp add: h'3 i_def [symmetric] b_def)
  show "j \<noteq> wh_pos h \<Longrightarrow> who_data (wh_tab h' j) = who_data (wh_tab h j)"
    using d3 by (simp add: h'3 i_def)
  show "\<exists>c is. cls cp = Some c \<and> links (hash_next h') (hash_prev h') (wh_hash h' (unat (hash_whowas_name (cl_name c)))) (wh_pos h # is)"
  proof (intro exI conjI)
    show "links (hash_next h') (hash_prev h') (wh_hash h' (unat (hash_whowas_name (cl_name c)))) (wh_pos h # B b)"
      using b3 by (simp add: hash_ok_def indexed_def chains_def h'3 i_def b_def split: if_splits)
  qed (rule c)
qed

section \<open>Looking a nick up\<close>

lemma get_loop_find:
  assumes "linked (hash_next h) (hash_prev h) p is None" "length is \<le> fuel"
  shows "get_loop fuel nick limit (first_of is None) h =
    Some (case find (\<lambda>i. irccmp nick (ww_name (wh_tab h i)) = 0 \<and> \<not> ww_logoff (wh_tab h i) < limit) is of
            None \<Rightarrow> None | Some i \<Rightarrow> ww_online (wh_tab h i))"
  using assms
proof (induction "is" arbitrary: p fuel)
  case (Cons i "is")
  then obtain f where "fuel = Suc f" by (cases fuel) auto
  then show ?case using Cons by (auto simp: Let_def)
qed simp

lemma get_history_find:
  assumes "hist_ok h"
  shows "\<exists>is. set is = {i. i < NICKNAMEHISTORYLENGTH \<and> hash_key h i = Some (unat (hash_whowas_name nick))} \<and>
    links (hash_next h) (hash_prev h) (wh_hash h (unat (hash_whowas_name nick))) is \<and>
    get_history now nick limit h =
      Some (case find (\<lambda>i. irccmp nick (ww_name (wh_tab h i)) = 0 \<and> \<not> ww_logoff (wh_tab h i) < now - limit) is of
            None \<Rightarrow> None | Some i \<Rightarrow> ww_online (wh_tab h i))"
proof -
  obtain B where B: "indexed (wh_hash h) (hash_next h) (hash_prev h) (hash_key h) {} B"
    using assms by (auto simp: hist_ok_def hash_ok_def)
  let ?b = "unat (hash_whowas_name nick)"
  show ?thesis
    using get_loop_find [OF indexed_head(2,4) [OF B], of nick "now - limit" ?b] B indexed_head(1) [OF B, of ?b]
    by (intro exI [of _ "B ?b"] conjI) (simp_all add: get_history_def indexed_def chains_def links_def)
qed

lemma irccmp_hash: "cstring a \<Longrightarrow> cstring b \<Longrightarrow> irccmp a b = 0 \<Longrightarrow> hash_whowas_name a = hash_whowas_name b"
  by (simp add: hash_whowas_name_def fnv_hash_upper_def irccmp_eq_0_iff)

section \<open>Leaving\<close>

lemma off_loop_ok:
  assumes "hist_ok h" "cli_ok h {} C" "length (C cp) \<le> fuel"
  shows "\<exists>h'. off_loop fuel cp (first_of (C cp) None) h = Some h' \<and> hist_ok h' \<and>
    (\<forall>j < NICKNAMEHISTORYLENGTH. ww_online (wh_tab h' j) = (if ww_online (wh_tab h j) = Some cp then None else ww_online (wh_tab h j)))"
  using assms
proof (induction "C cp" arbitrary: C h fuel)
  case Nil
  have "ww_online (wh_tab h j) \<noteq> Some cp" if "j < NICKNAMEHISTORYLENGTH" for j
  proof -
    have "set (C cp) = {j. j < NICKNAMEHISTORYLENGTH \<and> ww_online (wh_tab h j) = Some cp}"
      using Nil(3) by (simp add: cli_ok_def indexed_def)
    then show ?thesis using that unfolding Nil(1) [symmetric] by auto
  qed
  then show ?case using Nil by (metis first_of_simps(1) off_loop.simps(1))
next
  case (Cons i "is")
  then obtain f where f: "fuel = Suc f" by (cases fuel) auto
  note c = Cons.prems(2) [unfolded cli_ok_def]
  have i: "i < NICKNAMEHISTORYLENGTH" "ww_online (wh_tab h i) = Some cp"
  proof -
    have "i \<in> set (C cp)" by (simp flip: Cons.hyps(2))
    then show "i < NICKNAMEHISTORYLENGTH" "ww_online (wh_tab h i) = Some cp" using c by (simp_all add: indexed_def)
  qed
  have nxt: "ww_cnext (wh_tab h i) = first_of is None"
    using indexed_head(2) [OF c, of cp] Cons.hyps(2) [symmetric] by simp
  define h1 where "h1 = set_ww i (\<lambda>e. e\<lparr>ww_online := None\<rparr>) h"
  define h2 where "h2 = del_whowas_from_clist cp i h1"
  have "h2 = set_ww i (\<lambda>e. e\<lparr>ww_online := None\<rparr>) (del_whowas_from_clist cp i h)"
    by (auto simp: h2_def h1_def link_ops fun_eq_iff split: option.split)
  then have "cli_ok h2 {i} (C(cp := is))"
    using cli_ok_del [OF Cons.prems(2) i] Cons.hyps(2) [symmetric] by simp
  moreover have k: "ww_online (wh_tab h2 j) = (if j = i then None else ww_online (wh_tab h j))" for j
    by (simp add: h2_def h1_def)
  ultimately have c2: "cli_ok h2 {} (C(cp := is))"
    using cli_ok_none [of h2 i] by simp
  have "hash_ok h2 {} B = hash_ok h {} B" for B
    unfolding h2_def ok_frame h1_def hash_ok_def set_ww_frame(1) by (rule indexed_cong) (simp add: hash_key_def)
  moreover have "entry_ok (wh_tab h j) \<Longrightarrow> entry_ok (wh_tab h2 j)" for j
    by (auto simp: h2_def h1_def) (auto simp: entry_ok_def)
  ultimately have "hist_ok h2" using Cons.prems(1) c2 by (auto simp: hist_ok_def h2_def h1_def)
  then have "\<exists>h'. off_loop f cp (first_of is None) h2 = Some h' \<and> hist_ok h' \<and>
    (\<forall>j < NICKNAMEHISTORYLENGTH. ww_online (wh_tab h' j) = (if ww_online (wh_tab h2 j) = Some cp then None else ww_online (wh_tab h2 j)))"
    using Cons.hyps(1) [of "C(cp := is)" h2 f] c2 Cons.prems(3) Cons.hyps(2) [symmetric] f by simp
  moreover have "off_loop fuel cp (first_of (C cp) None) h = off_loop f cp (first_of is None) h2"
    using nxt by (simp add: f Cons.hyps(2) [symmetric] h2_def h1_def Let_def)
  ultimately show ?case using k i(2) by auto
qed

lemma off_history_ok:
  assumes "hist_ok h"
  shows "\<exists>h'. off_history cp h = Some h' \<and> hist_ok h' \<and>
    (\<forall>j < NICKNAMEHISTORYLENGTH. ww_online (wh_tab h' j) = (if ww_online (wh_tab h j) = Some cp then None else ww_online (wh_tab h j)))"
proof -
  obtain C where C: "cli_ok h {} C" using assms by (auto simp: hist_ok_def)
  show ?thesis
    using off_loop_ok [OF assms C indexed_head(4) [OF C [unfolded cli_ok_def]], of cp] indexed_head(1) [OF C [unfolded cli_ok_def], of cp]
    by (simp add: off_history_def)
qed

section \<open>Runs\<close>

text \<open>
  The clients come and go: a client is allocated, changes its fields, leaves a nick (\<^verbatim>\<open>add_history\<close>), and is
  released after \<^verbatim>\<open>off_history\<close>.
\<close>

inductive hist_step :: "(ptr \<rightharpoonup> Client) \<times> history \<Rightarrow> (ptr \<rightharpoonup> Client) \<times> history \<Rightarrow> bool" where
  update: "hist_step (cls, h) (cls(cp \<mapsto> c), h)"
| leave: "add_history cls now cp online h = Some h' \<Longrightarrow> hist_step (cls, h) (cls, h')"
| release: "off_history cp h = Some h' \<Longrightarrow> hist_step (cls, h) (cls(cp := None), h')"

definition zero_history :: history where
  "zero_history = \<lparr>wh_tab = (\<lambda>_. zero_Whowas), wh_hash = (\<lambda>_. None), wh_clist = (\<lambda>_. None), wh_pos = 0\<rparr>"

definition hist_init :: "(ptr \<rightharpoonup> Client) \<times> history \<Rightarrow> bool" where
  "hist_init s \<longleftrightarrow> snd s = initwhowas zero_history"

definition hist_inv :: "(ptr \<rightharpoonup> Client) \<times> history \<Rightarrow> bool" where
  "hist_inv s \<longleftrightarrow> hist_ok (snd s) \<and>
     (\<forall>i < NICKNAMEHISTORYLENGTH. \<forall>cp. ww_online (wh_tab (snd s) i) = Some cp \<longrightarrow> fst s cp \<noteq> None)"

lemma hist_length_pos [simp]: "0 < NICKNAMEHISTORYLENGTH"
  by (simp add: NICKNAMEHISTORYLENGTH_def)

lemma init_hist_ok: "hist_ok (initwhowas zero_history)"
proof -
  have e: "wh_tab (initwhowas zero_history) i = zero_Whowas\<lparr>ww_hashv := if i < NICKNAMEHISTORYLENGTH then -1 else 0\<rparr>" for i
    by (simp add: initwhowas_def zero_history_def zero_Whowas_def)
  have "hash_ok (initwhowas zero_history) {} (\<lambda>_. [])"
    by (auto simp: hash_ok_def indexed_def chains_def links_def hash_key_def e zero_Whowas_def)
      (simp add: initwhowas_def zero_history_def)
  moreover have "cli_ok (initwhowas zero_history) {} (\<lambda>_. [])"
    by (auto simp: cli_ok_def indexed_def chains_def links_def e zero_Whowas_def)
      (simp add: initwhowas_def zero_history_def)
  moreover have "wh_pos (initwhowas zero_history) = 0" by (simp add: initwhowas_def zero_history_def)
  ultimately show ?thesis by (auto simp: hist_ok_def entry_ok_def e zero_Whowas_def)
qed

interpretation hist_runs: run_invariant hist_init hist_step hist_inv
proof
  fix s assume "hist_init s"
  then show "hist_inv s" using init_hist_ok
    by (auto simp: hist_inv_def hist_init_def initwhowas_def zero_history_def zero_Whowas_def)
next
  fix s t assume inv: "hist_inv s" and "hist_step s t"
  from this(2) show "hist_inv t"
  proof cases
    case (update cls h cp c)
    then show ?thesis using inv by (auto simp: hist_inv_def)
  next
    case (leave cls now cp online h h')
    have ok: "hist_ok h" using inv leave by (simp add: hist_inv_def)
    note a = add_history_ok [OF ok leave(3)]
    have "cls p \<noteq> None" if "i < NICKNAMEHISTORYLENGTH" "ww_online (wh_tab h' i) = Some p" for i p
    proof (cases "i = wh_pos h")
      case True
      then show ?thesis using a(2) that by (auto simp: who_data_def split: if_splits)
    next
      case False
      then show ?thesis using who_data_eq(4) [OF a(3)] inv that leave by (auto simp: hist_inv_def)
    qed
    then show ?thesis using a(1) leave by (simp add: hist_inv_def)
  next
    case (release cp h h' cls)
    have "hist_ok h" using inv release by (simp add: hist_inv_def)
    from off_history_ok [OF this, of cp] show ?thesis
      using release inv by (auto simp: hist_inv_def split: if_splits)
  qed
qed

lemma get_history_live:
  assumes inv: "hist_inv (cls, h)"
  shows "\<exists>r. get_history now nick limit h = Some r \<and> (\<forall>cp. r = Some cp \<longrightarrow> cls cp \<noteq> None)"
proof -
  have "hist_ok h" using inv by (simp add: hist_inv_def)
  from get_history_find [OF this, of nick now limit] inv show ?thesis
    by (auto simp: hist_inv_def find_Some_iff split: option.split) (metis mem_Collect_eq nth_mem)
qed

section \<open>The history as a sequence\<close>

text \<open>
  The slots of the ring from the newest to the oldest, when the next one to be written is \<open>p\<close>, and the history they hold: for each slot that is
  in use the nick, the time it was left, and the client while it is online.
\<close>

definition ring_order :: "nat \<Rightarrow> nat list" where
  "ring_order p = rev [0..<p] @ rev [p..<NICKNAMEHISTORYLENGTH]"

type_synonym past = "string \<times> int \<times> ptr option"

definition slot_view :: "Whowas \<Rightarrow> past option" where
  "slot_view e = (if ww_hashv e = -1 then None else Some (ww_name e, ww_logoff e, ww_online e))"

definition recent :: "history \<Rightarrow> past option list" where
  "recent h = map (\<lambda>i. slot_view (wh_tab h i)) (ring_order (wh_pos h))"

text \<open>The specification of the lookup: the newest entry with the nick that is not too old.\<close>

definition lookup_past :: "string \<Rightarrow> int \<Rightarrow> past option list \<Rightarrow> ptr option" where
  "lookup_past nick oldest es =
     (case find (\<lambda>e. case e of None \<Rightarrow> False | Some (name, logoff, online) \<Rightarrow> irccmp nick name = 0 \<and> oldest \<le> logoff) es of
        Some (Some (name, logoff, online)) \<Rightarrow> online | _ \<Rightarrow> None)"

definition forget_client :: "ptr \<Rightarrow> past option \<Rightarrow> past option" where
  "forget_client cp = map_option (\<lambda>(name, logoff, online). (name, logoff, if online = Some cp then None else online))"

lemma set_ring_order: "p < NICKNAMEHISTORYLENGTH \<Longrightarrow> set (ring_order p) = {..<NICKNAMEHISTORYLENGTH}"
  by (auto simp: ring_order_def)

lemma ring_order_last:
  assumes "p < NICKNAMEHISTORYLENGTH"
  obtains xs where "ring_order p = xs @ [p]" "p \<notin> set xs"
    "ring_order (if p + 1 = NICKNAMEHISTORYLENGTH then 0 else p + 1) = p # xs"
proof
  let ?xs = "rev [0..<p] @ rev [Suc p..<NICKNAMEHISTORYLENGTH]"
  show "ring_order p = ?xs @ [p]" using assms by (simp add: ring_order_def upt_conv_Cons)
  show "p \<notin> set ?xs" by simp
  show "ring_order (if p + 1 = NICKNAMEHISTORYLENGTH then 0 else p + 1) = p # ?xs"
    using assms by (auto simp: ring_order_def) (metis rev.simps(2) rev_append rev_rev_ident upt_Suc_append zero_le append_Cons append_Nil rev_singleton_conv)
qed

text \<open>Each chain of the hash table has its entries in this order.\<close>

definition hist_order :: "history \<Rightarrow> bool" where
  "hist_order h \<longleftrightarrow> hash_ok h {} (\<lambda>b. filter (\<lambda>i. hash_key h i = Some b) (ring_order (wh_pos h)))"

lemma forget_who_order:
  assumes h: "hash_ok h {} B" "i < NICKNAMEHISTORYLENGTH"
  shows "hash_ok (forget_who i h) {i} (\<lambda>b. remove1 i (B b))"
proof (cases "hash_key h i")
  case None
  then have n: "i \<notin> set (B b)" for b using h by (auto simp: hash_ok_def indexed_def)
  have "hash_ok h {i} B" using h(1) None by (simp add: hash_ok_def indexed_none)
  moreover have "ww_hashv (wh_tab h i) = -1" using None by (auto simp: hash_key_def split: if_split_asm)
  ultimately show ?thesis using n by (simp add: forget_who_def remove1_idem)
next
  case (Some b)
  define h' where "h' = (case ww_online (wh_tab h i) of None \<Rightarrow> h | Some cp \<Rightarrow> del_whowas_from_clist cp i h)"
  have b: "ww_hashv (wh_tab h i) \<noteq> -1" "b = nat (ww_hashv (wh_tab h i))" using Some by (auto simp: hash_key_def split: if_split_asm)
  have "hash_ok h' {} B" "hash_key h' i = Some b" "ww_hashv (wh_tab h' i) = ww_hashv (wh_tab h i)" using h(1) Some by (simp_all add: h'_def split: option.split)
  then have "hash_ok (forget_who i h) {i} (B(b := remove1 i (B b)))"
    using hash_ok_del [of h' B i b] h(2) b by (simp add: forget_who_def h'_def [symmetric])
  moreover have "B(b := remove1 i (B b)) = (\<lambda>b. remove1 i (B b))"
  proof
    fix k
    have "i \<notin> set (B k)" if "k \<noteq> b" using h that Some by (auto simp: hash_ok_def indexed_def)
    then show "(B(b := remove1 i (B b))) k = remove1 i (B k)" by (simp add: remove1_idem)
  qed
  ultimately show ?thesis by simp
qed

lemma hash_key_data: "who_data (wh_tab h' j) = who_data (wh_tab h j) \<Longrightarrow> hash_key h' j = hash_key h j"
  using who_data_eq(1) [of "wh_tab h' j" "wh_tab h j"] by (simp only: hash_key_def)

lemma slot_view_data: "who_data e' = who_data e \<Longrightarrow> slot_view e' = slot_view e"
  using who_data_eq(1-4) [of e' e] by (simp only: slot_view_def)

lemma add_history_order:
  assumes ok: "hist_ok h" "hist_order h" and r: "add_history cls now cp online h = Some h'"
  shows "hist_order h'" and "\<exists>c. cls cp = Some c \<and> recent h' = Some (cl_name c, now, if online then Some cp else None) # butlast (recent h)"
proof -
  define i where "i = wh_pos h"
  define h1 where "h1 = forget_who i h"
  have i: "i < NICKNAMEHISTORYLENGTH" using ok(1) by (simp add: hist_ok_def i_def)
  note d = add_history_ok(2,3) [OF ok(1) r, folded i_def]
  obtain c e sp where c: "cls cp = Some c" and e: "who_fields c sp now (wh_tab h1 i) = Some e"
    and h': "h' = enter_who cp online i e h1"
    using r unfolding add_history_def Let_def bind_eq_Some_conv option.inject h1_def i_def by blast
  define b where "b = unat (hash_whowas_name (cl_name c))"
  define h3 where "h3 = (let h2 = set_ww i (\<lambda>e. e\<lparr>ww_online := if online then Some cp else None\<rparr>) (set_ww i (\<lambda>_. e) h1)
     in if online then add_whowas_to_clist cp i h2 else h2)"
  have e': "ww_hashv e = int b" using e by (auto simp: who_fields_def b_def split: if_splits)
  have p1: "wh_pos h1 = i" by (simp add: h1_def i_def forget_who_def Let_def split: option.split)
  have h'3: "h' = (add_whowas_to_list b i h3)\<lparr>wh_pos := (if i + 1 = NICKNAMEHISTORYLENGTH then 0 else i + 1)\<rparr>"
    using p1 e' by (simp add: h' enter_who_def h3_def Let_def)
  obtain xs where xs: "ring_order i = xs @ [i]" "i \<notin> set xs" "ring_order (if i + 1 = NICKNAMEHISTORYLENGTH then 0 else i + 1) = i # xs"
    using ring_order_last [OF i] by blast
  have new: "who_data (wh_tab h' i) = (int b, cl_name c, now, if online then Some cp else None)" using d(1) c by (auto simp: b_def)
  have old: "who_data (wh_tab h' j) = who_data (wh_tab h j)" if "j \<in> set xs" for j using d(2) [of j] that xs(2) by auto
  have key: "hash_key h' i = Some b" using new by (simp add: hash_key_def who_data_def)
  let ?B = "\<lambda>k. filter (\<lambda>j. hash_key h j = Some k) xs"
  have "hash_ok h1 {i} (\<lambda>k. remove1 i (filter (\<lambda>j. hash_key h j = Some k) (ring_order i)))"
    unfolding h1_def by (rule forget_who_order [OF _ i]) (use ok(2) in \<open>simp add: hist_order_def i_def\<close>)
  moreover have "remove1 i (filter (\<lambda>j. hash_key h j = Some k) (ring_order i)) = ?B k" for k
    using xs(2) by (simp add: xs(1) remove1_append remove1_idem)
  ultimately have "hash_ok h1 {i} ?B" by simp
  then have "hash_ok h3 {i} ?B" by (simp add: h3_def Let_def)
  moreover have "hash_key h3 i = Some b" using e' by (simp add: h3_def hash_key_def Let_def)
  ultimately have hb: "hash_ok h' {} (?B(b := i # ?B b))" using hash_ok_add [of h3 i ?B b] i by (simp add: h'3)
  have p': "ring_order (wh_pos h') = i # xs" using xs(3) by (simp add: h'3)
  moreover have "?B(b := i # ?B b) = (\<lambda>k. filter (\<lambda>j. hash_key h' j = Some k) (ring_order (wh_pos h')))"
  proof
    fix k
    have "filter (\<lambda>j. hash_key h' j = Some k) xs = ?B k" by (rule filter_cong [OF refl]) (simp only: hash_key_data [OF old])
    then show "(?B(b := i # ?B b)) k = filter (\<lambda>j. hash_key h' j = Some k) (ring_order (wh_pos h'))"
      using key unfolding p' by simp
  qed
  ultimately show "hist_order h'" using hb by (simp add: hist_order_def)
  have "map (\<lambda>j. slot_view (wh_tab h' j)) xs = map (\<lambda>j. slot_view (wh_tab h j)) xs"
    by (rule map_cong [OF refl]) (rule slot_view_data [OF old])
  then have "recent h' = slot_view (wh_tab h' i) # map (\<lambda>j. slot_view (wh_tab h j)) xs" unfolding recent_def p' by simp
  moreover have "slot_view (wh_tab h' i) = Some (cl_name c, now, if online then Some cp else None)" using new by (simp add: slot_view_def who_data_def)
  moreover have "butlast (recent h) = map (\<lambda>j. slot_view (wh_tab h j)) xs" by (simp add: recent_def i_def [symmetric] xs(1) butlast_append)
  ultimately show "\<exists>c. cls cp = Some c \<and> recent h' = Some (cl_name c, now, if online then Some cp else None) # butlast (recent h)" using c by auto
qed

lemma off_loop_frame:
  "off_loop fuel cp p h = Some h' \<Longrightarrow> wh_pos h' = wh_pos h \<and> (\<forall>B. hash_ok h' {} B = hash_ok h {} B) \<and>
    (\<forall>j. ww_hashv (wh_tab h' j) = ww_hashv (wh_tab h j) \<and> ww_name (wh_tab h' j) = ww_name (wh_tab h j) \<and> ww_logoff (wh_tab h' j) = ww_logoff (wh_tab h j))"
proof (induction fuel cp p h rule: off_loop.induct)
  case (3 fuel cp i h)
  have "hash_ok (set_ww i (\<lambda>e. e\<lparr>ww_online := None\<rparr>) h) {} B = hash_ok h {} B" for B
    unfolding hash_ok_def set_ww_frame(1) by (rule indexed_cong) (simp add: hash_key_def)
  then show ?case using 3 by (simp add: Let_def)
qed auto

lemma off_history_order:
  assumes ok: "hist_ok h" "hist_order h"
  shows "\<exists>h'. off_history cp h = Some h' \<and> hist_order h' \<and> recent h' = map (forget_client cp) (recent h)"
proof -
  from off_history_ok [OF ok(1), of cp] obtain h' where h': "off_history cp h = Some h'"
    "\<And>j. j < NICKNAMEHISTORYLENGTH \<Longrightarrow> ww_online (wh_tab h' j) = (if ww_online (wh_tab h j) = Some cp then None else ww_online (wh_tab h j))" by blast
  have p: "wh_pos h < NICKNAMEHISTORYLENGTH" using ok(1) by (simp add: hist_ok_def)
  note f = off_loop_frame [OF h'(1) [unfolded off_history_def]]
  have k: "hash_key h' = hash_key h" using f by (simp add: fun_eq_iff hash_key_def)
  have "hist_order h'" using ok(2) f by (simp add: hist_order_def k)
  moreover have "recent h' = map (forget_client cp) (recent h)"
    using f h'(2) set_ring_order [OF p] by (auto simp: recent_def slot_view_def forget_client_def)
  ultimately show ?thesis using h'(1) by blast
qed

lemma get_history_order:
  assumes ok: "hist_ok h" "hist_order h" and nick: "cstring nick" and names: "\<And>name logoff online. Some (name, logoff, online) \<in> set (recent h) \<Longrightarrow> cstring name"
  shows "get_history now nick limit h = Some (lookup_past nick (now - limit) (recent h))"
proof -
  let ?b = "unat (hash_whowas_name nick)" and ?o = "ring_order (wh_pos h)"
  let ?hit = "\<lambda>i. irccmp nick (ww_name (wh_tab h i)) = 0 \<and> \<not> ww_logoff (wh_tab h i) < now - limit"
  let ?P = "\<lambda>e. case e of None \<Rightarrow> False | Some (name, logoff, online) \<Rightarrow> irccmp nick name = 0 \<and> now - limit \<le> logoff"
  have p: "wh_pos h < NICKNAMEHISTORYLENGTH" using ok(1) by (simp add: hist_ok_def)
  note B = ok(2) [unfolded hist_order_def hash_ok_def]
  have g: "get_history now nick limit h = Some (case find ?hit (filter (\<lambda>i. hash_key h i = Some ?b) ?o) of None \<Rightarrow> None | Some i \<Rightarrow> ww_online (wh_tab h i))"
    using get_loop_find [OF indexed_head(2,4) [OF B], of nick "now - limit" ?b] indexed_head(1) [OF B, of ?b] by (simp add: get_history_def)
  have hit: "?P (slot_view (wh_tab h i)) \<longleftrightarrow> hash_key h i = Some ?b \<and> ?hit i" if i: "i \<in> set ?o" for i
  proof -
    have e: "entry_ok (wh_tab h i)" using ok(1) i set_ring_order [OF p] by (simp add: hist_ok_def)
    have "hash_whowas_name nick = hash_whowas_name (ww_name (wh_tab h i))" if "ww_hashv (wh_tab h i) \<noteq> -1" "irccmp nick (ww_name (wh_tab h i)) = 0"
    proof -
      have "Some (ww_name (wh_tab h i), ww_logoff (wh_tab h i), ww_online (wh_tab h i)) \<in> set (recent h)"
        using i that(1) by (auto simp: recent_def slot_view_def image_iff intro!: bexI [of _ i])
      then show ?thesis using irccmp_hash [OF nick names that(2)] by blast
    qed
    then show ?thesis using e by (auto simp: slot_view_def hash_key_def entry_ok_def)
  qed
  have "find ?P (map (\<lambda>i. slot_view (wh_tab h i)) is) =
      map_option (\<lambda>i. slot_view (wh_tab h i)) (find ?hit (filter (\<lambda>i. hash_key h i = Some ?b) is))" if "set is \<subseteq> set ?o" for "is"
    using that
  proof (induction "is")
    case (Cons i "is")
    then show ?case using hit [of i] by auto
  qed simp
  then have f: "find ?P (recent h) = map_option (\<lambda>i. slot_view (wh_tab h i)) (find ?hit (filter (\<lambda>i. hash_key h i = Some ?b) ?o))"
    by (simp add: recent_def)
  show ?thesis
  proof (cases "find ?hit (filter (\<lambda>i. hash_key h i = Some ?b) ?o)")
    case None
    then show ?thesis using g f by (simp add: lookup_past_def)
  next
    case (Some i)
    then have "hash_key h i = Some ?b" by (auto simp: find_Some_iff dest: nth_mem)
    then have "slot_view (wh_tab h i) = Some (ww_name (wh_tab h i), ww_logoff (wh_tab h i), ww_online (wh_tab h i))"
      by (auto simp: hash_key_def slot_view_def split: if_split_asm)
    then show ?thesis using g f Some by (simp add: lookup_past_def)
  qed
qed

lemma init_order: "hist_order (initwhowas zero_history)"
proof -
  have e: "wh_tab (initwhowas zero_history) i = zero_Whowas\<lparr>ww_hashv := if i < NICKNAMEHISTORYLENGTH then -1 else 0\<rparr>" for i
    by (simp add: initwhowas_def zero_history_def zero_Whowas_def)
  have "hash_key (initwhowas zero_history) i = None" if "i \<in> set (ring_order 0)" for i
    using that by (simp add: hash_key_def e set_ring_order)
  then have "filter (\<lambda>i. hash_key (initwhowas zero_history) i = Some b) (ring_order 0) = []" for b by (simp add: filter_empty_conv)
  moreover have "hash_ok (initwhowas zero_history) {} (\<lambda>_. [])"
    by (auto simp: hash_ok_def indexed_def chains_def links_def hash_key_def e zero_Whowas_def) (simp add: initwhowas_def zero_history_def)
  moreover have "wh_pos (initwhowas zero_history) = 0" by (simp add: initwhowas_def zero_history_def)
  ultimately show ?thesis by (simp add: hist_order_def)
qed

interpretation hist_order_runs: run_invariant hist_init hist_step "\<lambda>s. hist_ok (snd s) \<and> hist_order (snd s)"
proof
  fix s assume "hist_init s"
  then show "hist_ok (snd s) \<and> hist_order (snd s)" using init_hist_ok init_order by (simp add: hist_init_def)
next
  fix s t assume inv: "hist_ok (snd s) \<and> hist_order (snd s)" and "hist_step s t"
  from this(2) show "hist_ok (snd t) \<and> hist_order (snd t)"
  proof cases
    case (leave cls now cp online h h')
    then show ?thesis using inv add_history_ok(1) add_history_order(1) by force
  next
    case (release cp h h' cls)
    then show ?thesis using inv off_history_ok [of h cp] off_history_order [of h cp] by auto
  qed (use inv in simp)
qed

lemma add_history_total:
  assumes "cls cp = Some c" "cl_servptr c = Some sp" "who_fits c"
  shows "\<exists>h'. add_history cls now cp online h = Some h'"
  using assms by (simp add: add_history_def Let_def who_fields_def)

text \<open>
  C39: In every state the nick history reaches, its ring with hash and client chains is a sequence
  of NICKNAMEHISTORYLENGTH places, newest first: add_history returns for a client whose texts fit
  the entry, puts its nick in front and drops the oldest place; off_history returns and only
  clears the client out of the places that hold it; and get_history returns what the newest place
  with the nick, in any spelling irccmp calls equal, and inside the time limit says, so that
  recycled entries are gone from every chain and none of the others is lost.
\<close>

theorem history_refines:
  assumes r: "reachable hist_init hist_step (cls, h)"
  shows "length (recent h) = NICKNAMEHISTORYLENGTH \<and>
    (\<forall>now cp online c sp. cls cp = Some c \<longrightarrow> cl_servptr c = Some sp \<longrightarrow> who_fits c \<longrightarrow>
       (\<exists>h'. add_history cls now cp online h = Some h' \<and>
         recent h' = Some (cl_name c, now, if online then Some cp else None) # butlast (recent h))) \<and>
    (\<forall>cp. \<exists>h'. off_history cp h = Some h' \<and> recent h' = map (forget_client cp) (recent h)) \<and>
    (\<forall>now nick limit. cstring nick \<longrightarrow> (\<forall>name logoff online. Some (name, logoff, online) \<in> set (recent h) \<longrightarrow> cstring name) \<longrightarrow>
       get_history now nick limit h = Some (lookup_past nick (now - limit) (recent h)))"
proof -
  have ok: "hist_ok h" "hist_order h" using hist_order_runs.inv_reachable [OF r] by simp_all
  then have "length (recent h) = NICKNAMEHISTORYLENGTH" by (simp add: recent_def ring_order_def hist_ok_def)
  moreover have "\<exists>h'. off_history cp h = Some h' \<and> recent h' = map (forget_client cp) (recent h)" for cp using off_history_order [OF ok, of cp] by blast
  moreover have "\<exists>h'. add_history cls now cp online h = Some h' \<and> recent h' = Some (cl_name c, now, if online then Some cp else None) # butlast (recent h)"
    if c: "cls cp = Some c" "cl_servptr c = Some sp" "who_fits c" for now cp online c sp
    using add_history_total [where cls = cls and cp = cp, OF c, of now online h] add_history_order(2) [OF ok, of cls now cp online] c(1) by force
  ultimately show ?thesis using get_history_order [OF ok] by (intro conjI allI impI) simp_all
qed

section \<open>Finding a person\<close>

definition find_person :: "(ptr \<rightharpoonup> Client) \<Rightarrow> hashtabs \<Rightarrow> string \<Rightarrow> ptr option option" where
  "find_person cls t name = do {
     r \<leftarrow> find_client cls t (Some name);
     case r of None \<Rightarrow> Some None
     | Some p \<Rightarrow> do { c \<leftarrow> cls p; Some (if IsClient c then Some p else None) }
   }"

definition find_named_person :: "(ptr \<rightharpoonup> Client) \<Rightarrow> hashtabs \<Rightarrow> string \<Rightarrow> ptr option option" where
  "find_named_person cls t name = do {
     r \<leftarrow> find_named_client cls t (Some name);
     case r of None \<Rightarrow> Some None
     | Some p \<Rightarrow> do { c \<leftarrow> cls p; Some (if IsClient c then Some p else None) }
   }"

definition KILLCHASETIMELIMIT :: int where "KILLCHASETIMELIMIT = 90"

text \<open>
  The person with a nick, or the one who had it; the results are the client, whether it was found in the
  history (\<^verbatim>\<open>*chasing\<close>), and whether \<^verbatim>\<open>ERR_NOSUCHNICK\<close> is sent to the source.
\<close>

definition find_chasing ::
  "(ptr \<rightharpoonup> Client) \<Rightarrow> hashtabs \<Rightarrow> history \<Rightarrow> int \<Rightarrow> Client \<Rightarrow> string \<Rightarrow> (ptr option \<times> bool \<times> bool) option" where
  "find_chasing cls t h now source_p user = do {
     who \<leftarrow> (if MyClient source_p then find_named_person cls t user else find_person cls t user);
     if who \<noteq> None \<or> IsDigit (headc user) then Some (who, False, False)
     else do {
       who \<leftarrow> get_history now user KILLCHASETIMELIMIT h;
       Some (if who = None then (None, False, True) else (who, True, False))
     }
   }"

lemma foreach_find_total: "set ps \<subseteq> dom st \<Longrightarrow> \<exists>r. foreach_find st P ps = Some r \<and> (\<forall>p. r = Some p \<longrightarrow> st p \<noteq> None)"
  using foreach_find_eq [of ps st P] by (auto simp: find_Some_iff dest!: nth_mem)

lemma find_person_total:
  assumes "\<And>i. set (clientTable t i) \<subseteq> dom cls" "\<And>i. set (idTable t i) \<subseteq> dom cls"
  shows "\<exists>r. find_person cls t name = Some r \<and> (\<forall>p. r = Some p \<longrightarrow> cls p \<noteq> None)"
    and "\<exists>r. find_named_person cls t name = Some r \<and> (\<forall>p. r = Some p \<longrightarrow> cls p \<noteq> None)"
proof -
  have "\<exists>r. find_client cls t (Some name) = Some r \<and> (\<forall>p. r = Some p \<longrightarrow> cls p \<noteq> None)"
    using foreach_find_total [OF assms(1)] foreach_find_total [OF assms(2)]
    by (simp add: find_client_def find_id_def)
  then show "\<exists>r. find_person cls t name = Some r \<and> (\<forall>p. r = Some p \<longrightarrow> cls p \<noteq> None)"
    by (auto simp: find_person_def split: option.split)
  have "\<exists>r. find_named_client cls t (Some name) = Some r \<and> (\<forall>p. r = Some p \<longrightarrow> cls p \<noteq> None)"
    using foreach_find_total [OF assms(1)] by (simp add: find_named_client_def)
  then show "\<exists>r. find_named_person cls t name = Some r \<and> (\<forall>p. r = Some p \<longrightarrow> cls p \<noteq> None)"
    by (auto simp: find_named_person_def split: option.split)
qed

text \<open>
  C40: find_chasing always returns, and the client it returns is allocated, also when it comes
  from the nick history: after off_history no entry of the ring points to a released client.
\<close>

theorem find_chasing_live:
  assumes r: "reachable hist_init hist_step (cls, h)"
    and t: "\<And>i. set (clientTable t i) \<subseteq> dom cls" "\<And>i. set (idTable t i) \<subseteq> dom cls"
  shows "\<exists>who chased err. find_chasing cls t h now source_p user = Some (who, chased, err) \<and>
    (\<forall>p. who = Some p \<longrightarrow> cls p \<noteq> None) \<and> (err \<longrightarrow> who = None)"
proof -
  have "hist_inv (cls, h)" using r by (rule hist_runs.inv_reachable)
  then have "\<exists>r. get_history now user KILLCHASETIMELIMIT h = Some r \<and> (\<forall>cp. r = Some cp \<longrightarrow> cls cp \<noteq> None)"
    by (rule get_history_live)
  then show ?thesis using find_person_total [OF t, of user] by (auto simp: find_chasing_def)
qed

section \<open>Instances\<close>

definition sample_people :: "ptr \<rightharpoonup> Client" where
  "sample_people = [0 \<mapsto> zero_Client\<lparr>cl_name := ''irc.it''\<rparr>,
     1 \<mapsto> zero_Client\<lparr>cl_name := ''Bob'', cl_servptr := Some 0, cl_status := STAT_CLIENT\<rparr>]"

lemma sample_history: "reachable hist_init hist_step (sample_people, initwhowas zero_history)"
  by (rule reachable_init) (simp add: hist_init_def)

theorem find_chasing_live_witness:
  "\<exists>who chased err. find_chasing sample_people zero_tabs (initwhowas zero_history) 100 zero_Client ''x'' = Some (who, chased, err) \<and>
    (who = None \<or> (\<exists>p. who = Some p \<and> sample_people p \<noteq> None)) \<and> (\<not> err \<or> who = None)"
proof -
  have "set (clientTable zero_tabs i) \<subseteq> dom sample_people" "set (idTable zero_tabs i) \<subseteq> dom sample_people" for i
    by (simp_all add: zero_tabs_def)
  from find_chasing_live [OF sample_history this, of 100 zero_Client "''x''"] show ?thesis by (metis not_None_eq)
qed

lemma recent_init: "set (recent (initwhowas zero_history)) \<subseteq> {None}"
proof -
  have "wh_pos (initwhowas zero_history) = 0" by (simp add: initwhowas_def zero_history_def)
  then show ?thesis using set_ring_order [OF hist_length_pos] by (auto simp: recent_def slot_view_def initwhowas_def zero_Whowas_def)
qed

theorem history_refines_witness:
  "\<exists>h'. add_history sample_people 100 1 True (initwhowas zero_history) = Some h' \<and>
    get_history 120 ''bOB'' 90 h' = Some (Some 1)"
proof -
  define c where "c = zero_Client\<lparr>cl_name := ''Bob'', cl_servptr := Some 0, cl_status := STAT_CLIENT\<rparr>"
  have c: "sample_people 1 = Some c" "cl_servptr c = Some 0" "who_fits c" "cl_name c = ''Bob''"
    by (simp_all add: c_def sample_people_def who_fits_def zero_Client_def NICKLEN_def)
  have cs: "cstring ''Bob''" "cstring ''bOB''" by (simp_all add: NUL_def)
  from history_refines [OF sample_history, THEN conjunct2, THEN conjunct1, rule_format, OF c(1-3)] obtain h' where
    h': "add_history sample_people 100 1 True (initwhowas zero_history) = Some h'"
    "recent h' = Some (''Bob'', 100, Some 1) # butlast (recent (initwhowas zero_history))" using c(4) by fastforce
  have "reachable hist_init hist_step (sample_people, h')" by (rule reachable_step [OF sample_history leave [OF h'(1)]])
  moreover have "cstring name" if "Some (name, logoff, online) \<in> set (recent h')" for name logoff online
    using that cs(1) recent_init by (auto simp: h'(2) dest: in_set_butlastD)
  ultimately have "get_history 120 ''bOB'' 90 h' = Some (lookup_past ''bOB'' (120 - 90) (recent h'))"
    using history_refines [of sample_people h'] cs(2) by blast
  moreover have "irccmp ''bOB'' ''Bob'' = 0" by code_simp
  ultimately show ?thesis using h' by (simp add: lookup_past_def)
qed

end
