(* ===== verification/Chan_Mode.thy ===== *)
theory Chan_Mode
  imports Mode_Args Whowas
begin

text \<open>
  The MODE command (\<^verbatim>\<open>modules/core/m_mode.c\<close>): a handler for every mode letter, the table that selects it,
  \<^verbatim>\<open>set_channel_mode\<close> and the command handlers \<^verbatim>\<open>m_mode\<close>, \<^verbatim>\<open>ms_mode\<close>, \<^verbatim>\<open>ms_tmode\<close> and \<^verbatim>\<open>ms_bmask\<close>.

  The statics of the file are the fields of \<open>mstate\<close>: the array \<^verbatim>\<open>mode_changes\<close> with \<^verbatim>\<open>mode_count\<close> as its length,
  \<^verbatim>\<open>mode_limit\<close>, \<^verbatim>\<open>mask_pos\<close>, and the parameters \<^verbatim>\<open>parn\<close> and \<^verbatim>\<open>errors\<close> the handlers update through pointers.  The
  argument of a change may point to storage that later changes overwrite, the channel's key or the static
  \<^verbatim>\<open>limitstr\<close>; such a reference is resolved when the lines are built.
\<close>

section \<open>State\<close>

record menv =
  me_name :: string
  me_now :: int
  me_history :: history
  me_max_bans :: int
  me_use_except :: bool
  me_use_invex :: bool
  me_use_sslonly :: bool
  me_combos :: "ChCapCombo list"
  me_servers :: nat  \<comment> \<open>the length of \<^verbatim>\<open>serv_list\<close>\<close>

datatype arg_ref = Fixed | Key_ref | Limit_ref

text \<open>Replies to the source, by numeric.\<close>

datatype reply = Reply nat "string list"

record mstate =
  st_w :: cworld
  st_changes :: "(arg_ref \<times> ChModeChange) list"
  st_limit :: int
  st_mask_pos :: nat
  st_errors :: "32 word"
  st_parn :: nat
  st_limitstr :: string
  st_out :: "reply list"

definition SM_ERR_NOOPS :: "32 word" where "SM_ERR_NOOPS = 0x2"
definition SM_ERR_UNKNOWN :: "32 word" where "SM_ERR_UNKNOWN = 0x4"
definition SM_ERR_RPL_B :: "32 word" where "SM_ERR_RPL_B = 0x10"
definition SM_ERR_RPL_E :: "32 word" where "SM_ERR_RPL_E = 0x20"
definition SM_ERR_NOTONCHANNEL :: "32 word" where "SM_ERR_NOTONCHANNEL = 0x40"
definition SM_ERR_RPL_I :: "32 word" where "SM_ERR_RPL_I = 0x100"

definition is_deop :: "membership \<Rightarrow> bool" where "is_deop m \<longleftrightarrow> ms_flags m AND CHFL_DEOPPED \<noteq> 0"

definition send_reply :: "nat \<Rightarrow> string list \<Rightarrow> mstate \<Rightarrow> mstate" where
  "send_reply n args st = st\<lparr>st_out := st_out st @ [Reply n args]\<rparr>"

text \<open>\<^verbatim>\<open>mode_changes\<close> has \<^verbatim>\<open>BUFSIZE\<close> entries.\<close>

definition add_change :: "arg_ref \<Rightarrow> ChModeChange \<Rightarrow> mstate \<Rightarrow> mstate option" where
  "add_change r c st =
     (if length (st_changes st) < BUFSIZE then Some (st\<lparr>st_changes := st_changes st @ [(r, c)]\<rparr>) else None)"

definition mk_change :: "char \<Rightarrow> int \<Rightarrow> 32 word \<Rightarrow> 8 word \<Rightarrow> cptr \<Rightarrow> cptr \<Rightarrow> ChModeChange" where
  "mk_change c dir caps mems i a =
     \<lparr>mc_letter = c, mc_arg = a, mc_id = i, mc_dir = dir, mc_caps = caps, mc_nocaps = 0, mc_mems = mems\<rparr>"

definition set_mode :: "ptr \<Rightarrow> (Mode \<Rightarrow> Mode) \<Rightarrow> mstate \<Rightarrow> mstate option" where
  "set_mode chptr f st = do {
     ch \<leftarrow> cw_channels (st_w st) chptr;
     Some (st\<lparr>st_w := set_channel chptr (ch\<lparr>ch_mode := f (ch_mode ch)\<rparr>) (st_w st)\<rparr>)
   }"

definition set_flags :: "ptr \<Rightarrow> (8 word \<Rightarrow> 8 word) \<Rightarrow> mstate \<Rightarrow> mstate option" where
  "set_flags mp f st = do {
     m \<leftarrow> cw_members (st_w st) mp;
     Some (st\<lparr>st_w := (st_w st)\<lparr>cw_members := (cw_members (st_w st))(mp \<mapsto> m\<lparr>ms_flags := f (ms_flags m)\<rparr>)\<rparr>\<rparr>)
   }"

text \<open>\<^verbatim>\<open>++mode_limit > n\<close>, evaluated for local clients only.\<close>

definition over_limit :: "Client \<Rightarrow> int \<Rightarrow> mstate \<Rightarrow> bool \<times> mstate" where
  "over_limit src n st =
     (if MyClient src then (st_limit st + 1 > n, st\<lparr>st_limit := st_limit st + 1\<rparr>) else (False, st))"

text \<open>The refusal the handlers share: \<^verbatim>\<open>ERR_CHANOPRIVSNEEDED\<close>, once per command.\<close>

definition no_privs :: "menv \<Rightarrow> Client \<Rightarrow> Channel \<Rightarrow> mstate \<Rightarrow> mstate" where
  "no_privs env src ch st =
     (let st = (if st_errors st AND SM_ERR_NOOPS = 0
                then send_reply 482 [me_name env, cl_name src, ch_chname ch] st else st)
      in st\<lparr>st_errors := st_errors st OR SM_ERR_NOOPS\<rparr>)"

section \<open>The mode handlers\<close>

text \<open>Every handler gets the source and the channel by address and by content.\<close>

record mcall =
  ca_source :: ptr
  ca_src :: Client
  ca_chptr :: ptr
  ca_alevel :: "8 word"
  ca_parv :: "string list"
  ca_dir :: int
  ca_c :: char
  ca_mode_type :: int
  ca_halfop :: bool

abbreviation ca_parc :: "mcall \<Rightarrow> nat" where "ca_parc ca \<equiv> length (ca_parv ca)"

definition chm_nosuch :: "menv \<Rightarrow> mcall \<Rightarrow> mstate \<Rightarrow> mstate option" where
  "chm_nosuch env ca st =
     (if st_errors st AND SM_ERR_UNKNOWN \<noteq> 0 then Some st
      else Some (send_reply 472 [me_name env, cl_name (ca_src ca), [ca_c ca]]
                  (st\<lparr>st_errors := st_errors st OR SM_ERR_UNKNOWN\<rparr>)))"

definition chm_simple :: "menv \<Rightarrow> mcall \<Rightarrow> mstate \<Rightarrow> mstate option" where
  "chm_simple env ca st = do {
     ch \<leftarrow> cw_channels (st_w st) (ca_chptr ca);
     if ca_alevel ca = CHFL_PEON \<or> \<not> ca_halfop ca \<and> ca_alevel ca = CHFL_HALFOP
     then Some (no_privs env (ca_src ca) ch st)
     else do {
       let (over, st) = over_limit (ca_src ca) (9 + MAXMODEPARAMS) st;
       let m = (word_of_int (ca_mode_type ca) :: 32 word);
       if over then Some st
       else if ca_dir ca = MODE_ADD \<and> md_mode (ch_mode ch) AND m = 0 then do {
         st \<leftarrow> set_mode (ca_chptr ca) (\<lambda>md. md\<lparr>md_mode := md_mode md OR m\<rparr>) st;
         add_change Fixed (mk_change (ca_c ca) MODE_ADD 0 ALL_MEMBERS None None) st
       }
       else if ca_dir ca = MODE_DEL \<and> md_mode (ch_mode ch) AND m \<noteq> 0 then do {
         st \<leftarrow> set_mode (ca_chptr ca) (\<lambda>md. md\<lparr>md_mode := md_mode md AND NOT m\<rparr>) st;
         add_change Fixed (mk_change (ca_c ca) MODE_DEL 0 ALL_MEMBERS None None) st
       }
       else Some st
     }
   }"

text \<open>The lists a ban mode works on, with the error bit, the numerics of the listing and the capability.\<close>

definition ban_kind :: "int \<Rightarrow> (ban_list \<times> 32 word \<times> nat \<times> nat \<times> 32 word) option" where
  "ban_kind mode_type =
     (if mode_type = CHFL_BAN then Some (Banlist, SM_ERR_RPL_B, 367, 368, 0)
      else if mode_type = CHFL_EXCEPTION then Some (Exceptlist, SM_ERR_RPL_E, 348, 349, CAP_EX)
      else if mode_type = CHFL_INVEX then Some (Invexlist, SM_ERR_RPL_I, 346, 347, CAP_IE)
      else None)"

definition ban_mems :: "menv \<Rightarrow> int \<Rightarrow> int \<Rightarrow> 8 word" where
  "ban_mems env mode_type dir =
     (if mode_type = CHFL_BAN then ALL_MEMBERS
      else if mode_type = CHFL_EXCEPTION then (if me_use_except env \<or> dir = MODE_DEL then ONLY_CHANOPS else ONLY_SERVERS)
      else (if me_use_invex env \<or> dir = MODE_DEL then ONLY_CHANOPS else ONLY_SERVERS))"

definition ban_disabled :: "menv \<Rightarrow> mcall \<Rightarrow> mstate \<Rightarrow> bool" where
  "ban_disabled env ca st \<longleftrightarrow> MyClient (ca_src ca) \<and> ca_dir ca = MODE_ADD \<and> ca_parc ca > st_parn st \<and>
     (ca_mode_type ca = CHFL_EXCEPTION \<and> \<not> me_use_except env \<or> ca_mode_type ca = CHFL_INVEX \<and> \<not> me_use_invex env)"

definition list_bans :: "menv \<Rightarrow> Client \<Rightarrow> Channel \<Rightarrow> nat \<Rightarrow> nat \<Rightarrow> Ban list \<Rightarrow> mstate \<Rightarrow> mstate" where
  "list_bans env src ch rpl_list rpl_endlist bs st =
     send_reply rpl_endlist [me_name env, cl_name src, ch_chname ch]
       (foldl (\<lambda>st b. send_reply rpl_list [me_name env, cl_name src, ch_chname ch, ban_banstr b, ban_who b, int_str (ban_when b)] st)
          st bs)"

text \<open>The change of a ban list, once the mask is known; a failed removal is announced all the same.\<close>

definition change_ban ::
  "menv \<Rightarrow> mcall \<Rightarrow> Channel \<Rightarrow> ban_list \<Rightarrow> 32 word \<Rightarrow> string \<Rightarrow> string \<Rightarrow> mstate \<Rightarrow> mstate option" where
  "change_ban env ca ch l caps raw msk st =
     (if ca_dir ca = MODE_ADD then do {
        (r, full, ch') \<leftarrow> add_id (me_max_bans env) (me_now env) (ca_src ca) ch msk l (ca_mode_type ca);
        let st = (if full then send_reply 478 [me_name env, cl_name (ca_src ca), ch_chname ch, msk] st else st);
        if r = 0 then Some st
        else add_change Fixed (mk_change (ca_c ca) MODE_ADD caps (ban_mems env (ca_mode_type ca) MODE_ADD) None (Some msk))
               (st\<lparr>st_w := set_channel (ca_chptr ca) ch' (st_w st)\<rparr>)
      }
      else if ca_dir ca = MODE_DEL then do {
        let (r, ch1) = del_id ch (Some msk) l (ca_mode_type ca);
        let (r2, ch2) = (if r = 0 then del_id ch1 (Some raw) l (ca_mode_type ca) else (0, ch1));
        add_change Fixed (mk_change (ca_c ca) MODE_DEL caps (ban_mems env (ca_mode_type ca) MODE_DEL) None
                            (Some (if r = 0 \<and> r2 \<noteq> 0 then raw else msk)))
          (st\<lparr>st_w := set_channel (ca_chptr ca) ch2 (st_w st)\<rparr>)
      }
      else Some st)"

text \<open>\<^verbatim>\<open>strlen(mask)\<close> on the \<^verbatim>\<open>NULL\<close> that \<^verbatim>\<open>pretty_mask\<close> may return is the fault in this handler.\<close>

definition chm_ban :: "menv \<Rightarrow> mcall \<Rightarrow> mstate \<Rightarrow> mstate option" where
  "chm_ban env ca st =
     (case ban_kind (ca_mode_type ca) of
        None \<Rightarrow> Some st
      | Some (l, errorval, rpl_list, rpl_endlist, caps) \<Rightarrow> do {
          ch \<leftarrow> cw_channels (st_w st) (ca_chptr ca);
          if ban_disabled env ca st then Some st
          else if ca_dir ca = MODE_QUERY \<or> ca_parc ca \<le> st_parn st then
            (if st_errors st AND errorval \<noteq> 0 then Some st
             else let st = st\<lparr>st_errors := st_errors st OR errorval\<rparr>
                  in if ca_alevel ca \<noteq> CHFL_CHANOP \<and> ca_mode_type ca \<noteq> CHFL_BAN
                     then Some (no_privs env (ca_src ca) ch st)
                     else Some (list_bans env (ca_src ca) ch rpl_list rpl_endlist (bans_in l ch) st))
          else if ca_alevel ca \<noteq> CHFL_CHANOP then Some (no_privs env (ca_src ca) ch st)
          else do {
            let (over, st) = over_limit (ca_src ca) MAXMODEPARAMS st;
            if over then Some st
            else do {
              let raw = ca_parv ca ! st_parn st;
              let st = st\<lparr>st_parn := st_parn st + 1\<rparr>;
              if raw = [] \<or> hd raw = CHR '':'' then Some st
              else if \<not> MyClient (ca_src ca) then
                (if CHR '' '' \<in> set raw \<or> length raw > MODEBUFLEN - 2 then Some st
                 else change_ban env ca ch l caps raw raw st)
              else do {
                (msk, pos) \<leftarrow> pretty_mask raw (st_mask_pos st);
                let st = st\<lparr>st_mask_pos := pos\<rparr>;
                if length msk > MODEBUFLEN - 2 then Some st else change_ban env ca ch l caps raw msk st
              }
            }
          }
        })"

text \<open>
  The part \<^verbatim>\<open>chm_op\<close>, \<^verbatim>\<open>chm_halfop\<close> and \<^verbatim>\<open>chm_voice\<close> share: take the nick, chase it and find its membership; the
  result is the target and the address of its membership, or nothing when the handler returns.
\<close>

definition mode_target :: "menv \<Rightarrow> mcall \<Rightarrow> Channel \<Rightarrow> mstate \<Rightarrow> (mstate \<times> (ptr \<times> ptr) option) option" where
  "mode_target env ca ch st = do {
     let opnick = ca_parv ca ! st_parn st;
     let st = st\<lparr>st_parn := st_parn st + 1\<rparr>;
     if opnick = [] then Some (send_reply 401 [''*''] st, None)
     else do {
       (targ_p, chased, err) \<leftarrow> find_chasing (cw_clients (st_w st)) (cw_tabs (st_w st)) (me_history env) (me_now env) (ca_src ca) opnick;
       case targ_p of
         None \<Rightarrow> Some (if err then send_reply 401 [opnick] st else st, None)
       | Some t \<Rightarrow> do {
           mstptr \<leftarrow> find_channel_membership (ca_chptr ca) t (st_w st);
           case mstptr of
             None \<Rightarrow>
               Some ((if st_errors st AND SM_ERR_NOTONCHANNEL = 0 \<and> MyClient (ca_src ca)
                      then send_reply 441 [opnick, ch_chname ch] st else st)
                     \<lparr>st_errors := st_errors st OR SM_ERR_NOTONCHANNEL\<rparr>, None)
           | Some mp \<Rightarrow>
               (case over_limit (ca_src ca) MAXMODEPARAMS st of (over, st) \<Rightarrow> Some (st, if over then None else Some (t, mp)))
         }
     }
   }"

definition chm_op :: "menv \<Rightarrow> mcall \<Rightarrow> mstate \<Rightarrow> mstate option" where
  "chm_op env ca st = do {
     ch \<leftarrow> cw_channels (st_w st) (ca_chptr ca);
     if ca_alevel ca \<noteq> CHFL_CHANOP then Some (no_privs env (ca_src ca) ch st)
     else if ca_dir ca = MODE_QUERY \<or> ca_parc ca \<le> st_parn st then Some st
     else do {
       (st, target) \<leftarrow> mode_target env ca ch st;
       case target of None \<Rightarrow> Some st
       | Some (targ_p, mp) \<Rightarrow> do {
           m \<leftarrow> cw_members (st_w st) mp;
           t \<leftarrow> cw_clients (st_w st) targ_p;
           if ca_dir ca = MODE_ADD then
             (if targ_p = ca_source ca \<or> is_chanop m then Some st
              else do {
                st \<leftarrow> add_change Fixed (mk_change (ca_c ca) MODE_ADD 0 ALL_MEMBERS (Some (cl_id t)) (Some (cl_name t))) st;
                set_flags mp (\<lambda>f. (f OR CHFL_CHANOP) AND NOT CHFL_DEOPPED) st
              })
           else if \<not> is_chanop m then Some st
           else if MyClient (ca_src ca) \<and> IsService t
           then Some (send_reply 484 [me_name env, cl_name (ca_src ca), cl_name t, ch_chname ch] st)
           else do {
             st \<leftarrow> add_change Fixed (mk_change (ca_c ca) MODE_DEL 0 ALL_MEMBERS (Some (cl_id t)) (Some (cl_name t))) st;
             set_flags mp (\<lambda>f. f AND NOT CHFL_CHANOP) st
           }
         }
     }
   }"

definition chm_halfop :: "menv \<Rightarrow> mcall \<Rightarrow> mstate \<Rightarrow> mstate option" where
  "chm_halfop env ca st = do {
     ch \<leftarrow> cw_channels (st_w st) (ca_chptr ca);
     if ca_alevel ca \<noteq> CHFL_CHANOP then Some (no_privs env (ca_src ca) ch st)
     else if ca_dir ca = MODE_QUERY \<or> ca_parc ca \<le> st_parn st then Some st
     else do {
       (st, target) \<leftarrow> mode_target env ca ch st;
       case target of None \<Rightarrow> Some st
       | Some (targ_p, mp) \<Rightarrow> do {
           m \<leftarrow> cw_members (st_w st) mp;
           t \<leftarrow> cw_clients (st_w st) targ_p;
           if ca_dir ca = MODE_ADD then
             (if is_halfop m then Some st
              else do {
                st \<leftarrow> add_change Fixed (mk_change (ca_c ca) MODE_ADD 0 ALL_MEMBERS (Some (cl_id t)) (Some (cl_name t))) st;
                set_flags mp (\<lambda>f. (f OR CHFL_HALFOP) AND NOT CHFL_DEOPPED) st
              })
           else if \<not> is_halfop m then Some st
           else do {
             st \<leftarrow> add_change Fixed (mk_change (ca_c ca) MODE_DEL 0 ALL_MEMBERS (Some (cl_id t)) (Some (cl_name t))) st;
             set_flags mp (\<lambda>f. f AND NOT CHFL_HALFOP) st
           }
         }
     }
   }"

definition chm_voice :: "menv \<Rightarrow> mcall \<Rightarrow> mstate \<Rightarrow> mstate option" where
  "chm_voice env ca st = do {
     ch \<leftarrow> cw_channels (st_w st) (ca_chptr ca);
     if ca_alevel ca \<noteq> CHFL_CHANOP \<and> ca_alevel ca \<noteq> CHFL_HALFOP then Some (no_privs env (ca_src ca) ch st)
     else if ca_dir ca = MODE_QUERY \<or> ca_parc ca \<le> st_parn st then Some st
     else do {
       (st, target) \<leftarrow> mode_target env ca ch st;
       case target of None \<Rightarrow> Some st
       | Some (targ_p, mp) \<Rightarrow> do {
           m \<leftarrow> cw_members (st_w st) mp;
           t \<leftarrow> cw_clients (st_w st) targ_p;
           if ca_dir ca = MODE_ADD then
             (if is_voiced m then Some st
              else do {
                st \<leftarrow> add_change Fixed (mk_change (ca_c ca) MODE_ADD 0 ALL_MEMBERS (Some (cl_id t)) (Some (cl_name t))) st;
                set_flags mp (\<lambda>f. f OR CHFL_VOICE) st
              })
           else if \<not> is_voiced m then Some st
           else do {
             st \<leftarrow> add_change Fixed (mk_change (CHR ''v'') MODE_DEL 0 ALL_MEMBERS (Some (cl_id t)) (Some (cl_name t))) st;
             set_flags mp (\<lambda>f. f AND NOT CHFL_VOICE) st
           }
         }
     }
   }"

text \<open>\<^verbatim>\<open>rb_sprintf\<close> writes the limit into 30 bytes; the ten digits of an \<^verbatim>\<open>int\<close> fit.\<close>

definition chm_limit :: "menv \<Rightarrow> mcall \<Rightarrow> mstate \<Rightarrow> mstate option" where
  "chm_limit env ca st = do {
     ch \<leftarrow> cw_channels (st_w st) (ca_chptr ca);
     if ca_alevel ca \<noteq> CHFL_CHANOP then Some (no_privs env (ca_src ca) ch st)
     else if ca_dir ca = MODE_QUERY then Some st
     else if ca_dir ca = MODE_ADD \<and> ca_parc ca > st_parn st then do {
       let lstr = ca_parv ca ! st_parn st;
       let st = st\<lparr>st_parn := st_parn st + 1\<rparr>;
       if lstr = [] \<or> c_atoi lstr \<le> 0 then Some st
       else do {
         st \<leftarrow> add_change Limit_ref (mk_change (ca_c ca) MODE_ADD 0 ALL_MEMBERS None None)
                (st\<lparr>st_limitstr := int_str (c_atoi lstr)\<rparr>);
         set_mode (ca_chptr ca) (\<lambda>md. md\<lparr>md_limit := c_atoi lstr\<rparr>) st
       }
     }
     else if ca_dir ca = MODE_DEL then
       (if md_limit (ch_mode ch) = 0 then Some st
        else do {
          st \<leftarrow> set_mode (ca_chptr ca) (\<lambda>md. md\<lparr>md_limit := 0\<rparr>) st;
          add_change Fixed (mk_change (ca_c ca) MODE_DEL 0 ALL_MEMBERS None None) st
        })
     else Some st
   }"

text \<open>When a key is removed, the changes that have set one in this command show a star.\<close>

definition splat_keys :: "(arg_ref \<times> ChModeChange) list \<Rightarrow> (arg_ref \<times> ChModeChange) list" where
  "splat_keys cs = map (\<lambda>(r, c). if mc_letter c = CHR ''k'' \<and> mc_dir c = MODE_ADD
                                  then (Fixed, c\<lparr>mc_arg := Some ''*''\<rparr>) else (r, c)) cs"

definition chm_key :: "menv \<Rightarrow> mcall \<Rightarrow> mstate \<Rightarrow> mstate option" where
  "chm_key env ca st = do {
     ch \<leftarrow> cw_channels (st_w st) (ca_chptr ca);
     if ca_alevel ca \<noteq> CHFL_CHANOP then Some (no_privs env (ca_src ca) ch st)
     else if ca_dir ca = MODE_QUERY then Some st
     else if ca_dir ca = MODE_ADD \<and> ca_parc ca > st_parn st then do {
       let arg = ca_parv ca ! st_parn st;
       let st = st\<lparr>st_parn := st_parn st + 1\<rparr>;
       let key = (if MyClient (ca_src ca) then fix_key arg else fix_key_remote arg);
       if key = [] then Some st
       else do {
         st \<leftarrow> set_mode (ca_chptr ca) (\<lambda>md. md\<lparr>md_key := rb_strlcpy key KEYLEN\<rparr>) st;
         add_change Key_ref (mk_change (ca_c ca) MODE_ADD 0 ALL_MEMBERS None None) st
       }
     }
     else if ca_dir ca = MODE_DEL then do {
       let st = (if ca_parc ca > st_parn st then st\<lparr>st_parn := st_parn st + 1\<rparr> else st);
       if md_key (ch_mode ch) = [] then Some st
       else do {
         st \<leftarrow> set_mode (ca_chptr ca) (\<lambda>md. md\<lparr>md_key := []\<rparr>) (st\<lparr>st_changes := splat_keys (st_changes st)\<rparr>);
         add_change Fixed (mk_change (ca_c ca) MODE_DEL 0 ALL_MEMBERS None (Some ''*'')) st
       }
     }
     else Some st
   }"

definition toggle_mode :: "mcall \<Rightarrow> 32 word \<Rightarrow> 32 word \<Rightarrow> mstate \<Rightarrow> mstate option" where
  "toggle_mode ca m caps st = do {
     st \<leftarrow> set_mode (ca_chptr ca)
            (\<lambda>md. md\<lparr>md_mode := (if ca_dir ca = MODE_ADD then md_mode md OR m else md_mode md AND NOT m)\<rparr>) st;
     add_change Fixed (mk_change (ca_c ca) (ca_dir ca) caps ALL_MEMBERS None None) st
   }"

definition has_mode :: "Channel \<Rightarrow> int \<Rightarrow> 32 word \<Rightarrow> bool" where
  "has_mode ch dir m \<longleftrightarrow> dir = MODE_ADD \<and> md_mode (ch_mode ch) AND m \<noteq> 0 \<or> dir = MODE_DEL \<and> md_mode (ch_mode ch) AND m = 0"

definition chm_regonly :: "menv \<Rightarrow> mcall \<Rightarrow> mstate \<Rightarrow> mstate option" where
  "chm_regonly env ca st = do {
     ch \<leftarrow> cw_channels (st_w st) (ca_chptr ca);
     if ca_alevel ca \<noteq> CHFL_CHANOP then Some (no_privs env (ca_src ca) ch st)
     else if ca_dir ca = MODE_QUERY \<or> has_mode ch (ca_dir ca) MODE_REGONLY then Some st
     else toggle_mode ca MODE_REGONLY CAP_SERVICE st
   }"

definition chm_sslonly :: "menv \<Rightarrow> mcall \<Rightarrow> mstate \<Rightarrow> mstate option" where
  "chm_sslonly env ca st = do {
     ch \<leftarrow> cw_channels (st_w st) (ca_chptr ca);
     if ca_alevel ca \<noteq> CHFL_CHANOP then Some (no_privs env (ca_src ca) ch st)
     else if ca_dir ca = MODE_QUERY \<or> has_mode ch (ca_dir ca) MODE_SSLONLY then Some st
     else if ca_dir ca = MODE_ADD \<and> MyClient (ca_src ca) \<and> \<not> me_use_sslonly env then Some st
     else toggle_mode ca MODE_SSLONLY 0 st
   }"

section \<open>The table\<close>

type_synonym handler = "menv \<Rightarrow> mcall \<Rightarrow> mstate \<Rightarrow> mstate option"

definition nosuch_entry :: "handler \<times> int \<times> bool" where "nosuch_entry = (chm_nosuch, 0, False)"

text \<open>Position 0, the letters A to Z, the six characters between the cases, the letters a to z.\<close>

definition ModeTable :: "(handler \<times> int \<times> bool) list" where
  "ModeTable =
     [nosuch_entry] @ replicate 8 nosuch_entry @ [(chm_ban, CHFL_INVEX, False)] @ replicate 9 nosuch_entry @
     [(chm_sslonly, uint MODE_SSLONLY, False)] @ replicate 7 nosuch_entry @ replicate 6 nosuch_entry @
     [nosuch_entry, (chm_ban, CHFL_BAN, False), nosuch_entry, nosuch_entry, (chm_ban, CHFL_EXCEPTION, False),
      nosuch_entry, nosuch_entry, (chm_halfop, 0, False), (chm_simple, uint MODE_INVITEONLY, False), nosuch_entry,
      (chm_key, 0, False), (chm_limit, 0, False), (chm_simple, uint MODE_MODERATED, True),
      (chm_simple, uint MODE_NOPRIVMSGS, True), (chm_op, 0, False), (chm_simple, uint MODE_PRIVATE, False), nosuch_entry,
      (chm_regonly, 0, False), (chm_simple, uint MODE_SECRET, False), (chm_simple, uint MODE_TOPICLIMIT, True),
      nosuch_entry, (chm_voice, 0, False), nosuch_entry, (chm_simple, uint MODE_SPAMPLEASE, False), nosuch_entry, nosuch_entry]"

definition table_position :: "char \<Rightarrow> nat" where
  "table_position c =
     (if (of_char c :: nat) < 65 \<or> (of_char c :: nat) > 122 then 0 else (of_char c :: nat) - 65 + 1)"

definition get_channel_access :: "Client \<Rightarrow> membership option \<Rightarrow> 8 word" where
  "get_channel_access src msptr =
     (if \<not> MyClient src \<or> (case msptr of None \<Rightarrow> False | Some m \<Rightarrow> is_chanop m) then CHFL_CHANOP
      else if (case msptr of None \<Rightarrow> False | Some m \<Rightarrow> is_halfop m) then CHFL_HALFOP
      else CHFL_PEON)"

section \<open>The mode string\<close>

definition mode_char :: "menv \<Rightarrow> mcall \<Rightarrow> mstate \<Rightarrow> mstate option" where
  "mode_char env ca st =
     (case ModeTable ! table_position (ca_c ca) of (func, mode_type, halfop) \<Rightarrow>
        func env (ca\<lparr>ca_mode_type := mode_type, ca_halfop := halfop\<rparr>) st)"

fun mode_loop :: "menv \<Rightarrow> mcall \<Rightarrow> string \<Rightarrow> mstate \<Rightarrow> mstate option" where
  "mode_loop env ca [] st = Some st"
| "mode_loop env ca (c # ml) st =
     (if c = CHR ''+'' then mode_loop env (ca\<lparr>ca_dir := MODE_ADD\<rparr>) ml st
      else if c = CHR ''-'' then mode_loop env (ca\<lparr>ca_dir := MODE_DEL\<rparr>) ml st
      else if c = CHR ''='' then mode_loop env (ca\<lparr>ca_dir := MODE_QUERY\<rparr>) ml st
      else do { st \<leftarrow> mode_char env (ca\<lparr>ca_c := c\<rparr>) st; mode_loop env ca ml st })"

definition resolve :: "Channel \<Rightarrow> string \<Rightarrow> arg_ref \<times> ChModeChange \<Rightarrow> ChModeChange" where
  "resolve ch limitstr rc =
     (case rc of
        (Fixed, c) \<Rightarrow> c
      | (Key_ref, c) \<Rightarrow> c\<lparr>mc_arg := Some (md_key (ch_mode ch))\<rparr>
      | (Limit_ref, c) \<Rightarrow> c\<lparr>mc_arg := Some limitstr\<rparr>)"

definition mode_header :: "Client \<Rightarrow> Channel \<Rightarrow> string" where
  "mode_header src ch =
     (if IsServer src then '':'' @ cl_name src @ '' MODE '' @ ch_chname ch @ '' ''
      else '':'' @ cl_name src @ ''!'' @ cl_username src @ ''@'' @
           (if IsCloaked src then cl_virthost src else cl_host src) @ '' MODE '' @ ch_chname ch @ '' '')"

text \<open>What a command does: the world it leaves, the replies, the lines for all members, for the operators, and for servers.\<close>

record mode_result =
  mr_w :: cworld
  mr_out :: "reply list"
  mr_all :: "string list"
  mr_ops :: "string list"
  mr_servers :: "(32 word \<times> 32 word \<times> string list) list"

definition mode_tell :: "menv \<Rightarrow> Client \<Rightarrow> ptr \<Rightarrow> mstate \<Rightarrow> mode_result option" where
  "mode_tell env src chptr st =
     (if st_changes st = [] then Some \<lparr>mr_w = st_w st, mr_out = st_out st, mr_all = [], mr_ops = [], mr_servers = []\<rparr>
      else do {
        ch \<leftarrow> cw_channels (st_w st) chptr;
        let cs = map (resolve ch (st_limitstr st)) (st_changes st);
        let pre = mode_header src ch;
        if length pre < BUFSIZE then do {
          alls \<leftarrow> local_lines pre ALL_MEMBERS cs;
          ops \<leftarrow> local_lines pre ONLY_CHANOPS cs;
          servs \<leftarrow> (if MyClient src \<or> me_servers env > 1 then send_cap_mode_changes (me_combos env) src ch cs else Some []);
          Some \<lparr>mr_w = st_w st, mr_out = st_out st, mr_all = alls, mr_ops = ops, mr_servers = servs\<rparr>
        } else None
      })"

definition mode_start :: "cworld \<Rightarrow> mstate" where
  "mode_start w = \<lparr>st_w = w, st_changes = [], st_limit = 0, st_mask_pos = 0, st_errors = 0, st_parn = 1,
     st_limitstr = [], st_out = []\<rparr>"

definition mode_call :: "ptr \<Rightarrow> Client \<Rightarrow> ptr \<Rightarrow> membership option \<Rightarrow> string list \<Rightarrow> mcall" where
  "mode_call source_p src chptr msptr parv =
     \<lparr>ca_source = source_p, ca_src = src, ca_chptr = chptr, ca_alevel = get_channel_access src msptr,
      ca_parv = parv, ca_dir = MODE_ADD, ca_c = NUL, ca_mode_type = 0, ca_halfop = False\<rparr>"

definition set_channel_mode ::
  "menv \<Rightarrow> ptr \<Rightarrow> ptr \<Rightarrow> ptr option \<Rightarrow> string list \<Rightarrow> cworld \<Rightarrow> mode_result option" where
  "set_channel_mode env source_p chptr msptr parv w = do {
     src \<leftarrow> cw_clients w source_p;
     m \<leftarrow> (case msptr of None \<Rightarrow> Some None | Some mp \<Rightarrow> map_option Some (cw_members w mp));
     if parv = [] then None
     else do {
       st \<leftarrow> mode_loop env (mode_call source_p src chptr m parv) (hd parv) (mode_start w);
       mode_tell env src chptr st
     }
   }"

section \<open>The commands\<close>

definition MAX_FLOOD :: "16 word" where "MAX_FLOOD = 5"

definition flood_endgrace :: "Client \<Rightarrow> Client option" where
  "flood_endgrace c = do {
     lu \<leftarrow> cl_local c;
     Some (c\<lparr>cl_flags := cl_flags c OR FLAGS_FLOODDONE,
             cl_local := Some (lu\<lparr>lu_allow_read := MAX_FLOOD, lu_sent_parsed := 0\<rparr>)\<rparr>)
   }"

text \<open>
  \<open>Calls_user_mode\<close>: the target is no channel, and the command goes to \<^verbatim>\<open>user_mode\<close>.  \<open>Shown\<close>: the modes are listed,
  with a report to the operators when an operator looks in from outside.
\<close>

datatype mode_cmd = Ignored | Calls_user_mode | Refused reply | Shown bool "reply list" | Changed mode_result

definition m_mode :: "menv \<Rightarrow> ptr \<Rightarrow> string list \<Rightarrow> cworld \<Rightarrow> mode_cmd option" where
  "m_mode env source_p parv w =
     (if length parv < 2 then None
      else do {
        src \<leftarrow> cw_clients w source_p;
        let operspy = (IsOperSpy src \<and> headc (parv ! 1) = CHR ''!'');
        let dest = (if operspy then tl (parv ! 1) else parv ! 1);
        if operspy \<and> dest = [] then Some (Refused (Reply 461 [me_name env, cl_name src, ''MODE'']))
        else if \<not> IsChanPrefix (headc dest) then Some Calls_user_mode
        else if \<not> check_channel_name (Some dest) then Some (Refused (Reply 479 [parv ! 1]))
        else do {
          c \<leftarrow> find_channel (cw_channels w) (cw_tabs w) (Some dest);
          case c of
            None \<Rightarrow> Some (Refused (Reply 403 [parv ! 1]))
          | Some chptr \<Rightarrow>
              if length parv < 3 then do {
                ch \<leftarrow> cw_channels w chptr;
                modes \<leftarrow> channel_modes chptr (if operspy then cw_me w else source_p) w;
                Some (Shown operspy [Reply 324 [me_name env, cl_name src, parv ! 1, modes],
                                     Reply 329 [me_name env, cl_name src, parv ! 1, int_str (ch_channelts ch)]])
              }
              else do {
                msptr \<leftarrow> find_channel_membership chptr source_p w;
                deop \<leftarrow> (case msptr of None \<Rightarrow> Some False | Some mp \<Rightarrow> map_option is_deop (cw_members w mp));
                if deop then Some Ignored
                else do {
                  w \<leftarrow> (if MyClient src \<and> \<not> IsFloodDone src \<and> \<not> (length parv = 3 \<and> parv ! 2 = ''b'')
                        then do { src \<leftarrow> flood_endgrace src; Some (set_client source_p src w) } else Some w);
                  r \<leftarrow> set_channel_mode env source_p chptr msptr (drop 2 parv) w;
                  Some (Changed r)
                }
              }
        }
      })"

definition ms_mode :: "menv \<Rightarrow> ptr \<Rightarrow> string list \<Rightarrow> cworld \<Rightarrow> mode_cmd option" where
  "ms_mode env source_p parv w =
     (if length parv < 2 then None
      else do {
        c \<leftarrow> find_channel (cw_channels w) (cw_tabs w) (Some (parv ! 1));
        case c of
          None \<Rightarrow> Some (Refused (Reply 403 [parv ! 1]))
        | Some chptr \<Rightarrow> do { r \<leftarrow> set_channel_mode env source_p chptr None (drop 2 parv) w; Some (Changed r) }
      })"

definition ms_tmode :: "menv \<Rightarrow> ptr \<Rightarrow> string list \<Rightarrow> cworld \<Rightarrow> mode_cmd option" where
  "ms_tmode env source_p parv w =
     (if length parv < 3 then None
      else if \<not> IsChanPrefix (headc (parv ! 2)) \<or> \<not> check_channel_name (Some (parv ! 2))
      then Some (Refused (Reply 479 [parv ! 2]))
      else do {
        src \<leftarrow> cw_clients w source_p;
        c \<leftarrow> find_channel (cw_channels w) (cw_tabs w) (Some (parv ! 2));
        case c of
          None \<Rightarrow> Some (Refused (Reply 403 [parv ! 2]))
        | Some chptr \<Rightarrow> do {
            ch \<leftarrow> cw_channels w chptr;
            if c_atol (parv ! 1) > ch_channelts ch then Some Ignored
            else do {
              msptr \<leftarrow> (if IsServer src then Some None else find_channel_membership chptr source_p w);
              deop \<leftarrow> (case msptr of None \<Rightarrow> Some False | Some mp \<Rightarrow> map_option is_deop (cw_members w mp));
              if deop then Some Ignored
              else do { r \<leftarrow> set_channel_mode env source_p chptr msptr (drop 3 parv) w; Some (Changed r) }
            }
          }
      })"

section \<open>Ban bursts\<close>

text \<open>The masks of a BMASK line: words between spaces.\<close>

function bmask_words :: "string \<Rightarrow> string list" where
  "bmask_words s =
     (let s = dropWhile (\<lambda>c. c = CHR '' '') s
      in if s = [] then []
         else takeWhile (\<lambda>c. c \<noteq> CHR '' '') s # bmask_words (dropWhile (\<lambda>c. c \<noteq> CHR '' '') s))"
  by pat_completeness auto
termination
proof (relation "measure length", simp)
  fix s x :: string
  assume x: "x = dropWhile (\<lambda>c. c = CHR '' '') s" "x \<noteq> []"
  have "hd x \<noteq> CHR '' ''" using x hd_dropWhile [of "\<lambda>c. c = CHR '' ''" s] by simp
  then have "length (dropWhile (\<lambda>c. c \<noteq> CHR '' '') x) < length x"
    using x(2) by (cases x) (auto simp: length_dropWhile_le less_Suc_eq_le)
  also have "length x \<le> length s" unfolding x(1) by (rule length_dropWhile_le)
  finally show "(dropWhile (\<lambda>c. c \<noteq> CHR '' '') x, s) \<in> measure length" by simp
qed

record bmask_state =
  bm_ch :: Channel
  bm_letters :: string
  bm_para :: string
  bm_count :: nat
  bm_lines :: "string list"

definition bmask_line :: "string \<Rightarrow> bmask_state \<Rightarrow> bmask_state option" where
  "bmask_line pre b =
     (if bm_para b = [] then None
      else Some (b\<lparr>bm_lines := bm_lines b @ [pre @ bm_letters b @ '' '' @ butlast (bm_para b)], bm_letters := [],
                  bm_para := [], bm_count := 0\<rparr>))"

fun bmask_loop ::
  "menv \<Rightarrow> Client \<Rightarrow> string \<Rightarrow> char \<Rightarrow> ban_list \<Rightarrow> int \<Rightarrow> string list \<Rightarrow> bmask_state \<Rightarrow> bmask_state option" where
  "bmask_loop env src pre c l mode_type [] b = Some b"
| "bmask_loop env src pre c l mode_type (s # ss) b =
     (if hd s = CHR '':'' then bmask_loop env src pre c l mode_type ss b
      else if length s > MODEBUFLEN then Some b
      else do {
        (r, full, ch) \<leftarrow> add_id (me_max_bans env) (me_now env) src (bm_ch b) s l mode_type;
        let b = b\<lparr>bm_ch := ch\<rparr>;
        if r = 0 then bmask_loop env src pre c l mode_type ss b
        else do {
          b \<leftarrow> (if length pre + nat MAXMODEPARAMS + length (bm_para b) + length s > BUFSIZE - 5 \<or> bm_count b \<ge> nat MAXMODEPARAMS
                then bmask_line pre b else Some b);
          let b = b\<lparr>bm_letters := bm_letters b @ [c], bm_para := bm_para b @ s @ '' '', bm_count := bm_count b + 1\<rparr>;
          if length (pre @ bm_letters b) < BUFSIZE \<and> length (bm_para b) < BUFSIZE
          then bmask_loop env src pre c l mode_type ss b else None
        }
      })"

text \<open>
  The results: the world, the lines for local members and servers without TS6, which of the members get them and under
  which capability, and the BMASK line for the other servers.
\<close>

definition ms_bmask ::
  "menv \<Rightarrow> ptr \<Rightarrow> string list \<Rightarrow> cworld \<Rightarrow> (cworld \<times> (string list \<times> 8 word \<times> 32 word \<times> string) option) option" where
  "ms_bmask env source_p parv w =
     (if length parv < 5 then None
      else if \<not> IsChanPrefix (headc (parv ! 2)) \<or> \<not> check_channel_name (Some (parv ! 2)) then Some (w, None)
      else do {
        src \<leftarrow> cw_clients w source_p;
        cp \<leftarrow> find_channel (cw_channels w) (cw_tabs w) (Some (parv ! 2));
        case cp of
          None \<Rightarrow> Some (w, None)
        | Some chptr \<Rightarrow> do {
            ch \<leftarrow> cw_channels w chptr;
            if c_atol (parv ! 1) > ch_channelts ch then Some (w, None)
            else case (if headc (parv ! 3) = CHR ''b'' then Some (Banlist, CHFL_BAN, ALL_MEMBERS, 0)
                       else if headc (parv ! 3) = CHR ''e'' then Some (Exceptlist, CHFL_EXCEPTION, ONLY_CHANOPS, CAP_EX)
                       else if headc (parv ! 3) = CHR ''I'' then Some (Invexlist, CHFL_INVEX, ONLY_CHANOPS, CAP_IE)
                       else None) of
                   None \<Rightarrow> Some (w, None)
                 | Some (l, mode_type, mems, needcap) \<Rightarrow> do {
                     let pre = '':'' @ cl_name src @ '' MODE '' @ ch_chname ch @ '' +'';
                     if length pre < BUFSIZE then do {
                       b \<leftarrow> bmask_loop env src pre (headc (parv ! 3)) l mode_type (bmask_words (parv ! 4))
                             \<lparr>bm_ch = ch, bm_letters = [], bm_para = [], bm_count = 0, bm_lines = []\<rparr>;
                       b \<leftarrow> (if bm_count b \<noteq> 0 then bmask_line pre b else Some b);
                       Some (set_channel chptr (bm_ch b) w,
                             Some (bm_lines b, mems, needcap,
                                   '':'' @ cl_id src @ '' BMASK '' @ int_str (ch_channelts ch) @ '' '' @ ch_chname ch @ '' '' @
                                   parv ! 3 @ '' :'' @ parv ! 4))
                     } else None
                   }
          }
      })"

end
