(* ===== verification/Mode_Props.thy ===== *)
theory Mode_Props
  imports Chan_Mode
begin

text \<open>
  The properties of the MODE command: who may change what, the invariant of the channel subsystem, the round trip
  of a channel's modes through the mode string a server sends, and the two ways a local operator can make the
  command leave its buffers.
\<close>

section \<open>Going through the table\<close>

definition same_call :: "mcall \<Rightarrow> mcall \<Rightarrow> bool" where
  "same_call a b \<longleftrightarrow> ca_source b = ca_source a \<and> ca_src b = ca_src a \<and> ca_chptr b = ca_chptr a \<and>
     ca_alevel b = ca_alevel a \<and> ca_parv b = ca_parv a"

lemma same_call_upd [simp]:
  "same_call a (b\<lparr>ca_dir := d\<rparr>) = same_call a b" "same_call a (b\<lparr>ca_c := c\<rparr>) = same_call a b"
  "same_call a (b\<lparr>ca_mode_type := m\<rparr>) = same_call a b" "same_call a (b\<lparr>ca_halfop := h\<rparr>) = same_call a b"
  "same_call a a"
  by (simp_all add: same_call_def)

lemma table_position_less: "table_position c < length ModeTable"
  by (auto simp: table_position_def ModeTable_def)

lemma set_ModeTable:
  "set ModeTable = {(chm_nosuch, 0, False), (chm_ban, CHFL_INVEX, False), (chm_sslonly, uint MODE_SSLONLY, False),
     (chm_ban, CHFL_BAN, False), (chm_ban, CHFL_EXCEPTION, False), (chm_halfop, 0, False),
     (chm_simple, uint MODE_INVITEONLY, False), (chm_key, 0, False), (chm_limit, 0, False),
     (chm_simple, uint MODE_MODERATED, True), (chm_simple, uint MODE_NOPRIVMSGS, True), (chm_op, 0, False),
     (chm_simple, uint MODE_PRIVATE, False), (chm_regonly, 0, False), (chm_simple, uint MODE_SECRET, False),
     (chm_simple, uint MODE_TOPICLIMIT, True), (chm_voice, 0, False), (chm_simple, uint MODE_SPAMPLEASE, False)}"
  by (simp only: ModeTable_def nosuch_entry_def set_append list.set set_replicate_conv_if) auto

lemma mode_char_entry:
  obtains f mt hf where "(f, mt, hf) \<in> set ModeTable"
    "\<And>env ca st. mode_char env (ca\<lparr>ca_c := c\<rparr>) st = f env (ca\<lparr>ca_c := c, ca_mode_type := mt, ca_halfop := hf\<rparr>) st"
proof -
  obtain f mt hf where e: "ModeTable ! table_position c = (f, mt, hf)" by (cases "ModeTable ! table_position c")
  then have "(f, mt, hf) \<in> set ModeTable" using table_position_less [of c] by (metis nth_mem)
  then show ?thesis using that e by (simp add: mode_char_def)
qed

definition letter_call :: "mcall \<Rightarrow> bool" where
  "letter_call ca \<longleftrightarrow> ca_dir ca \<in> {MODE_ADD, MODE_DEL, MODE_QUERY} \<and> ca_c ca \<notin> {CHR ''+'', CHR ''-'', CHR ''=''}"

text \<open>A property the handlers keep is kept by the whole string; handlers that never fail make it never fail.\<close>

lemma mode_loop_inv:
  assumes "\<And>f mt hf ca' st st'. (f, mt, hf) \<in> set ModeTable \<Longrightarrow> same_call ca ca' \<Longrightarrow> letter_call ca' \<Longrightarrow> ca_mode_type ca' = mt \<Longrightarrow> ca_halfop ca' = hf \<Longrightarrow>
      I st \<Longrightarrow> f env ca' st = Some st' \<Longrightarrow> I st'"
    and "same_call ca ca'" "ca_dir ca' \<in> {MODE_ADD, MODE_DEL, MODE_QUERY}" "I st" "mode_loop env ca' ml st = Some st'"
  shows "I st'"
  using assms(2,3,4,5)
proof (induction ml arbitrary: ca' st)
  case (Cons c ml)
  obtain f mt hf where e: "(f, mt, hf) \<in> set ModeTable"
    "\<And>env ca st. mode_char env (ca\<lparr>ca_c := c\<rparr>) st = f env (ca\<lparr>ca_c := c, ca_mode_type := mt, ca_halfop := hf\<rparr>) st"
    using mode_char_entry [of c] by metis
  show ?case
  proof (cases "c \<in> {CHR ''+'', CHR ''-'', CHR ''=''}")
    case True
    then show ?thesis using Cons.prems Cons.IH [of "ca'\<lparr>ca_dir := MODE_ADD\<rparr>" st] Cons.IH [of "ca'\<lparr>ca_dir := MODE_DEL\<rparr>" st]
        Cons.IH [of "ca'\<lparr>ca_dir := MODE_QUERY\<rparr>" st]
      by (auto split: if_splits)
  next
    case False
    then obtain st1 where s: "f env (ca'\<lparr>ca_c := c, ca_mode_type := mt, ca_halfop := hf\<rparr>) st = Some st1"
      "mode_loop env ca' ml st1 = Some st'"
      using Cons.prems(4) by (auto simp: e(2) split: Option.bind_splits)
    have "I st1" using assms(1) [OF e(1) _ _ _ _ Cons.prems(3) s(1)] Cons.prems(1,2) False by (simp add: letter_call_def)
    then show ?thesis using Cons.IH [OF Cons.prems(1,2)] s(2) by blast
  qed
qed simp

lemma mode_loop_total:
  assumes "\<And>f mt hf ca' st. (f, mt, hf) \<in> set ModeTable \<Longrightarrow> same_call ca ca' \<Longrightarrow> ca_mode_type ca' = mt \<Longrightarrow> ca_halfop ca' = hf \<Longrightarrow>
      I st \<Longrightarrow> \<exists>st'. f env ca' st = Some st' \<and> I st'"
    and "same_call ca ca'" "I st"
  shows "\<exists>st'. mode_loop env ca' ml st = Some st' \<and> I st'"
  using assms(2,3)
proof (induction ml arbitrary: ca' st)
  case (Cons c ml)
  obtain f mt hf where e: "(f, mt, hf) \<in> set ModeTable"
    "\<And>env ca st. mode_char env (ca\<lparr>ca_c := c\<rparr>) st = f env (ca\<lparr>ca_c := c, ca_mode_type := mt, ca_halfop := hf\<rparr>) st"
    using mode_char_entry [of c] by metis
  obtain st1 where s: "f env (ca'\<lparr>ca_c := c, ca_mode_type := mt, ca_halfop := hf\<rparr>) st = Some st1" "I st1"
    using assms(1) [OF e(1), of "ca'\<lparr>ca_c := c, ca_mode_type := mt, ca_halfop := hf\<rparr>" st] Cons.prems by auto
  show ?case using Cons.IH Cons.prems s by (auto simp: e(2))
qed simp

section \<open>Without status\<close>

lemma send_reply_simps [simp]:
  "st_w (send_reply n a st) = st_w st" "st_changes (send_reply n a st) = st_changes st"
  "st_parn (send_reply n a st) = st_parn st" "st_limit (send_reply n a st) = st_limit st"
  "st_mask_pos (send_reply n a st) = st_mask_pos st" "st_limitstr (send_reply n a st) = st_limitstr st"
  by (simp_all add: send_reply_def)

lemma no_privs_simps [simp]:
  "st_w (no_privs env s ch st) = st_w st" "st_changes (no_privs env s ch st) = st_changes st"
  "st_parn (no_privs env s ch st) = st_parn st" "st_limitstr (no_privs env s ch st) = st_limitstr st"
  by (simp_all add: no_privs_def Let_def)

lemma foldl_reply:
  "st_w (foldl (\<lambda>st b. send_reply n (f b) st) st bs) = st_w st"
  "st_changes (foldl (\<lambda>st b. send_reply n (f b) st) st bs) = st_changes st"
  "st_parn (foldl (\<lambda>st b. send_reply n (f b) st) st bs) = st_parn st"
  "st_limitstr (foldl (\<lambda>st b. send_reply n (f b) st) st bs) = st_limitstr st"
  by (induction bs arbitrary: st) simp_all

lemma list_bans_simps [simp]:
  "st_w (list_bans env s ch a b bs st) = st_w st" "st_changes (list_bans env s ch a b bs st) = st_changes st"
  "st_parn (list_bans env s ch a b bs st) = st_parn st" "st_limitstr (list_bans env s ch a b bs st) = st_limitstr st"
  by (simp_all add: list_bans_def foldl_reply)

lemmas chm_defs = chm_nosuch_def chm_simple_def chm_ban_def chm_op_def chm_halfop_def chm_voice_def chm_limit_def
  chm_key_def chm_regonly_def chm_sslonly_def

lemma access_differ [simp]: "CHFL_PEON \<noteq> CHFL_CHANOP" "CHFL_PEON \<noteq> CHFL_HALFOP" "CHFL_HALFOP \<noteq> CHFL_CHANOP" "CHFL_CHANOP \<noteq> CHFL_PEON"
  "CHFL_HALFOP \<noteq> CHFL_PEON" "CHFL_CHANOP \<noteq> CHFL_HALFOP"
  by (simp_all add: CHFL_PEON_def CHFL_CHANOP_def CHFL_HALFOP_def)

lemma peon_handler:
  assumes "(f, mt, hf) \<in> set ModeTable" "ca_alevel ca = CHFL_PEON" "cw_channels (st_w st) (ca_chptr ca) = Some ch"
  shows "\<exists>st'. f env ca st = Some st' \<and> st_w st' = st_w st \<and> st_changes st' = st_changes st"
  using assms unfolding set_ModeTable
  by (elim insertE; simp add: chm_defs Let_def split: option.split prod.split)

text \<open>
  C11: A local client that is neither channel operator nor half-operator, or not in the channel at
  all, changes nothing with any MODE command: set_channel_mode returns, the world is as before and
  no line goes to members or servers.
\<close>

theorem peon_mode:
  assumes src: "cw_clients w source_p = Some src" "MyClient src"
    and m: "case msptr of None \<Rightarrow> True | Some mp \<Rightarrow> \<exists>m. cw_members w mp = Some m \<and> \<not> is_chanop m \<and> \<not> is_halfop m"
    and ch: "cw_channels w chptr = Some ch" and parv: "parv \<noteq> []"
  shows "\<exists>out. set_channel_mode env source_p chptr msptr parv w =
    Some \<lparr>mr_w = w, mr_out = out, mr_all = [], mr_ops = [], mr_servers = []\<rparr>"
proof -
  obtain m' where m': "(case msptr of None \<Rightarrow> Some None | Some mp \<Rightarrow> map_option Some (cw_members w mp)) = Some m'"
    "get_channel_access src m' = CHFL_PEON"
    using m src(2) by (auto simp: get_channel_access_def split: option.splits)
  let ?ca = "mode_call source_p src chptr m' parv"
  have "\<exists>st'. mode_loop env ?ca (hd parv) (mode_start w) = Some st' \<and> (st_w st' = w \<and> st_changes st' = [])"
  proof (rule mode_loop_total [of ?ca "\<lambda>st. st_w st = w \<and> st_changes st = []"])
    fix f mt hf ca' and st :: mstate
    assume "(f, mt, hf) \<in> set ModeTable" "same_call ?ca ca'" "st_w st = w \<and> st_changes st = []"
    then show "\<exists>st'. f env ca' st = Some st' \<and> (st_w st' = w \<and> st_changes st' = [])"
      using peon_handler [of f mt hf ca' st ch env] ch m'(2) by (auto simp: same_call_def mode_call_def)
  qed (simp_all add: mode_start_def)
  then show ?thesis using src m' parv by (auto simp: set_channel_mode_def mode_tell_def)
qed

section \<open>The invariant of the channel subsystem\<close>

text \<open>Changing the modes of a channel or the status flags of a member keeps every list and every cached verdict.\<close>

lemma set_mode_inv:
  assumes inv: "chan_inv ue w" and ch: "cw_channels w chp = Some ch"
  shows "chan_inv ue (set_channel chp (ch\<lparr>ch_mode := md\<rparr>) w)"
proof -
  have "shrinks w (set_channel chp (ch\<lparr>ch_mode := md\<rparr>) w)" using ch by (intro shrinks_set_channel) (auto simp: same_bans_def)
  then show ?thesis
    using inv bans_ok_shrinks cworld_ok_list_change [OF _ ch, of "ch\<lparr>ch_mode := md\<rparr>"] by (auto simp: chan_inv_def)
qed

lemma set_flags_inv:
  assumes inv: "chan_inv ue w" and m: "cw_members w mp = Some m" and f: "f AND CHFL_BANNED = ms_flags m AND CHFL_BANNED"
  shows "chan_inv ue (w\<lparr>cw_members := (cw_members w)(mp \<mapsto> m\<lparr>ms_flags := f\<rparr>)\<rparr>)"
proof -
  have "same_pairs (cw_members w) ((cw_members w)(mp \<mapsto> m\<lparr>ms_flags := f\<rparr>))" using m by (simp add: same_pairs_def)
  moreover have "cache_ok ue ch c (m\<lparr>ms_flags := f\<rparr>) = cache_ok ue ch c m" for ch c
    using f by (simp add: cache_ok_def can_send_banned_def)
  ultimately show ?thesis
    using inv m cworld_ok_pairs unfolding chan_inv_def bans_ok_def by (auto split: if_splits)
qed

text \<open>The ban serial has room for the parameters that are left, so that it does not wrap round.\<close>

definition mode_inv :: "bool \<Rightarrow> ptr \<Rightarrow> nat \<Rightarrow> mstate \<Rightarrow> bool" where
  "mode_inv ue chp parc st \<longleftrightarrow> chan_inv ue (st_w st) \<and> st_parn st \<le> parc \<and>
     (\<exists>ch. cw_channels (st_w st) chp = Some ch \<and> uint (ch_ban_serial ch) + int parc - int (st_parn st) < 2 ^ 32 - 1)"

lemma mode_inv_cong:
  "st_w st' = st_w st \<Longrightarrow> st_parn st' = st_parn st \<Longrightarrow> mode_inv ue chp n st' = mode_inv ue chp n st"
  by (simp add: mode_inv_def)

lemma mode_inv_frame [simp]:
  "mode_inv ue chp n (send_reply k a st) = mode_inv ue chp n st"
  "mode_inv ue chp n (no_privs env s ch st) = mode_inv ue chp n st"
  "mode_inv ue chp n (list_bans env s ch i j bs st) = mode_inv ue chp n st"
  "mode_inv ue chp n (st\<lparr>st_errors := e\<rparr>) = mode_inv ue chp n st"
  "mode_inv ue chp n (st\<lparr>st_mask_pos := p\<rparr>) = mode_inv ue chp n st"
  "mode_inv ue chp n (st\<lparr>st_limitstr := l\<rparr>) = mode_inv ue chp n st"
  "mode_inv ue chp n (st\<lparr>st_changes := cs\<rparr>) = mode_inv ue chp n st"
  "mode_inv ue chp n (st\<lparr>st_limit := li\<rparr>) = mode_inv ue chp n st"
  by (rule mode_inv_cong; simp)+

lemma mode_inv_parn: "mode_inv ue chp n st \<Longrightarrow> st_parn st < n \<Longrightarrow> mode_inv ue chp n (st\<lparr>st_parn := Suc (st_parn st)\<rparr>)"
  by (auto simp: mode_inv_def)

lemma mode_inv_add_change: "add_change r c st = Some st' \<Longrightarrow> mode_inv ue chp n st' = mode_inv ue chp n st"
  by (auto simp: add_change_def split: if_splits)

lemma mode_inv_set_mode: "set_mode chp f st = Some st' \<Longrightarrow> mode_inv ue chp n st \<Longrightarrow> mode_inv ue chp n st'"
  by (auto simp: mode_inv_def set_mode_def set_mode_inv split: Option.bind_splits)

lemma mode_inv_set_flags:
  "set_flags mp f st = Some st' \<Longrightarrow> mode_inv ue chp n st \<Longrightarrow> (\<And>x. f x AND CHFL_BANNED = x AND CHFL_BANNED) \<Longrightarrow> mode_inv ue chp n st'"
  by (auto simp: mode_inv_def set_flags_def set_flags_inv split: Option.bind_splits)

lemma over_limit_frame: "over_limit s k st = (o', st') \<Longrightarrow> st_w st' = st_w st \<and> st_parn st' = st_parn st \<and> st_changes st' = st_changes st"
  by (auto simp: over_limit_def split: if_splits)

lemma mode_inv_over_limit: "over_limit s k st = (o', st') \<Longrightarrow> mode_inv ue chp n st' = mode_inv ue chp n st"
  using over_limit_frame by (intro mode_inv_cong) auto

lemma mode_inv_target:
  assumes "mode_target env ca ch st = Some (st', t)" "mode_inv ue chp (length (ca_parv ca)) st" "st_parn st < length (ca_parv ca)"
  shows "mode_inv ue chp (length (ca_parv ca)) st'"
  using assms mode_inv_parn [OF assms(2,3)]
  by (auto simp: mode_target_def Let_def mode_inv_over_limit split: Option.bind_splits option.splits if_splits prod.splits)

lemma flag_ops [simp]:
  fixes x :: "8 word"
  shows "(x OR CHFL_VOICE) AND CHFL_BANNED = x AND CHFL_BANNED" "(x AND NOT CHFL_VOICE) AND CHFL_BANNED = x AND CHFL_BANNED"
    "(x AND NOT CHFL_CHANOP) AND CHFL_BANNED = x AND CHFL_BANNED" "(x AND NOT CHFL_HALFOP) AND CHFL_BANNED = x AND CHFL_BANNED"
    "((x OR CHFL_CHANOP) AND NOT CHFL_DEOPPED) AND CHFL_BANNED = x AND CHFL_BANNED"
    "((x OR CHFL_HALFOP) AND NOT CHFL_DEOPPED) AND CHFL_BANNED = x AND CHFL_BANNED"
  by (simp_all add: and.assoc CHFL_VOICE_def CHFL_BANNED_def CHFL_CHANOP_def CHFL_HALFOP_def CHFL_DEOPPED_def bit.conj_disj_distrib2)

lemma ban_kind_mode: "ban_kind mt = Some (l, e, r1, r2, caps) \<Longrightarrow> mode_of l = mt"
  by (auto simp: ban_kind_def split: if_splits)

lemma serial_bump:
  fixes s :: "32 word"
  assumes "uint s < 2 ^ 32 - 1"
  shows "s \<noteq> -1" "uint (s + 1) = uint s + 1"
proof -
  show "s \<noteq> -1" using assms by (auto simp: uint_word_ariths)
  show "uint (s + 1) = uint s + 1" using assms by (simp add: uint_word_ariths)
qed

lemma change_ban_inv:
  assumes inv: "chan_inv ue (st_w st)" and ch: "cw_channels (st_w st) (ca_chptr ca) = Some ch"
    and room: "uint (ch_ban_serial ch) + int n - int (st_parn st) < 2 ^ 32 - 2" "st_parn st \<le> n"
    and l: "mode_of l = ca_mode_type ca" and r: "change_ban env ca ch l caps raw msk st = Some st'"
  shows "mode_inv ue (ca_chptr ca) n st'"
proof -
  have s: "uint (ch_ban_serial ch) < 2 ^ 32 - 1" using room by linarith
  note s' = serial_bump [OF s]
  have step: "chan_inv ue (set_channel (ca_chptr ca) ch' (st_w st)) \<and>
      uint (ch_ban_serial ch') + int n - int (st_parn st) < 2 ^ 32 - 1"
    if "ch' = ch \<or> (\<exists>bs. ch' = bump_serial (ca_mode_type ca) (set_bans l bs ch))" for ch'
    using ban_inv [OF inv ch s'(1), of ch' l] that l s'(2) room by (auto simp: bump_serial_def)
  have fin: "mode_inv ue (ca_chptr ca) n st2"
    if "ch' = ch \<or> (\<exists>bs. ch' = bump_serial (ca_mode_type ca) (set_bans l bs ch))"
      "add_change x c (st1\<lparr>st_w := set_channel (ca_chptr ca) ch' (st_w st)\<rparr>) = Some st2" "st_parn st1 = st_parn st" for ch' x c st1 st2
    using step [OF that(1)] that(2,3) room(2) by (auto simp: mode_inv_def add_change_def split: if_splits)
  have same: "mode_inv ue (ca_chptr ca) n st" using inv ch room by (auto simp: mode_inv_def)
  consider (add) "ca_dir ca = MODE_ADD" | (del) "ca_dir ca = MODE_DEL" | (other) "ca_dir ca \<noteq> MODE_ADD" "ca_dir ca \<noteq> MODE_DEL"
    by blast
  then show ?thesis
  proof cases
    case add
    obtain v full ch' where a: "add_id (me_max_bans env) (me_now env) (ca_src ca) ch msk l (ca_mode_type ca) = Some (v, full, ch')"
      using r add by (auto simp: change_ban_def split: Option.bind_splits)
    show ?thesis
    proof (cases "v = 0")
      case True
      then show ?thesis using r add a same by (auto simp: change_ban_def Let_def split: if_splits)
    next
      case False
      then show ?thesis
        using r add a add_id_result [OF a] fin [of ch'] by (fastforce simp: change_ban_def Let_def split: if_splits)
    qed
  next
    case del
    obtain v ch1 where d1: "del_id ch (Some msk) l (ca_mode_type ca) = (v, ch1)" by fastforce
    obtain v2 ch2 where d2: "(if v = 0 then del_id ch1 (Some raw) l (ca_mode_type ca) else (0, ch1)) = (v2, ch2)" by fastforce
    have "ch2 = ch \<or> (\<exists>bs. ch2 = bump_serial (ca_mode_type ca) (set_bans l bs ch))"
      using del_id_result [OF d1] del_id_result [of ch1 "Some raw" l "ca_mode_type ca" v2 ch2] d2 by (auto split: if_splits)
    moreover have "ca_dir ca \<noteq> MODE_ADD" using del by (simp add: dir_defs)
    ultimately show ?thesis using r del d1 d2 fin [of ch2] by (fastforce simp: change_ban_def Let_def)
  next
    case other
    then show ?thesis using r same by (simp add: change_ban_def)
  qed
qed

lemma chm_ban_inv:
  assumes inv: "mode_inv ue (ca_chptr ca) (length (ca_parv ca)) st" and r: "chm_ban env ca st = Some st'"
  shows "mode_inv ue (ca_chptr ca) (length (ca_parv ca)) st'"
proof (cases "ban_kind (ca_mode_type ca)")
  case None
  then show ?thesis using r inv by (simp add: chm_ban_def)
next
  case (Some k)
  obtain l e r1 r2 caps where k: "k = (l, e, r1, r2, caps)" by (cases k)
  let ?n = "length (ca_parv ca)"
  have ban: "mode_inv ue (ca_chptr ca) ?n st''"
    if "change_ban env ca ch l caps raw msk (st1\<lparr>st_parn := Suc (st_parn st1)\<rparr>) = Some st''"
      "mode_inv ue (ca_chptr ca) ?n st1" "cw_channels (st_w st1) (ca_chptr ca) = Some ch" "st_parn st1 < ?n" for ch raw msk st1 st''
    using that change_ban_inv [of ue "st1\<lparr>st_parn := Suc (st_parn st1)\<rparr>" ca ch ?n l env caps raw msk st''] ban_kind_mode Some k
    by (auto simp: mode_inv_def)
  have ban': "mode_inv ue (ca_chptr ca) ?n st''"
    if "change_ban env ca ch l caps raw msk (st1\<lparr>st_parn := Suc (st_parn st1), st_mask_pos := p\<rparr>) = Some st''"
      "mode_inv ue (ca_chptr ca) ?n st1" "cw_channels (st_w st1) (ca_chptr ca) = Some ch" "st_parn st1 < ?n" for ch raw msk st1 st'' p
  proof -
    have e: "st1\<lparr>st_parn := Suc (st_parn st1), st_mask_pos := p\<rparr> = st1\<lparr>st_mask_pos := p, st_parn := Suc (st_parn st1)\<rparr>"
      by (cases st1) simp
    show ?thesis using ban [of ch raw msk "st1\<lparr>st_mask_pos := p\<rparr>" st''] that(2,3,4) that(1) [unfolded e] by simp
  qed
  obtain ch where ch: "cw_channels (st_w st) (ca_chptr ca) = Some ch" using inv by (auto simp: mode_inv_def)
  obtain over st1 where o: "over_limit (ca_src ca) MAXMODEPARAMS st = (over, st1)" by fastforce
  have st1: "mode_inv ue (ca_chptr ca) ?n st1" "cw_channels (st_w st1) (ca_chptr ca) = Some ch" "st_parn st1 = st_parn st"
    using mode_inv_over_limit [OF o] over_limit_frame [OF o] inv ch by auto
  show ?thesis
    using r inv ch o st1 ban [OF _ st1(1,2)] ban' [OF _ st1(1,2)] mode_inv_parn [OF st1(1)]
    by (auto simp: chm_ban_def Some k Let_def split: Option.bind_splits if_splits)
qed

lemma mode_inv_handler:
  assumes e: "(f, mt, hf) \<in> set ModeTable" and ca: "ca_mode_type ca = mt"
    and inv: "mode_inv ue (ca_chptr ca) (length (ca_parv ca)) st" and r: "f env ca st = Some st'"
  shows "mode_inv ue (ca_chptr ca) (length (ca_parv ca)) st'"
proof -
  let ?I = "mode_inv ue (ca_chptr ca) (length (ca_parv ca))"
  note sp = Option.bind_splits option.splits if_splits prod.splits
  note el = mode_inv_set_mode mode_inv_set_flags mode_inv_target
  have simple: ?thesis if "f = chm_simple"
    using r inv unfolding that chm_simple_def Let_def
    by (auto simp: mode_inv_add_change mode_inv_over_limit split: sp elim!: el)
  have op: ?thesis if "f = chm_op"
    using r inv unfolding that chm_op_def Let_def
    by (auto simp: mode_inv_add_change split: sp elim!: el)
  have halfop: ?thesis if "f = chm_halfop"
    using r inv unfolding that chm_halfop_def Let_def
    by (auto simp: mode_inv_add_change split: sp elim!: el)
  have voice: ?thesis if "f = chm_voice"
    using r inv unfolding that chm_voice_def Let_def
    by (auto simp: mode_inv_add_change split: sp elim!: el)
  have limit: ?thesis if "f = chm_limit"
    using r inv unfolding that chm_limit_def Let_def
    by (auto simp: mode_inv_add_change mode_inv_parn split: sp elim!: el)
  have key: ?thesis if "f = chm_key"
    using r inv unfolding that chm_key_def Let_def
    by (auto simp: mode_inv_add_change mode_inv_parn split: sp elim!: el)
  have toggle: ?thesis if "f = chm_regonly \<or> f = chm_sslonly"
    using r inv that unfolding chm_regonly_def chm_sslonly_def toggle_mode_def
    by (auto simp: mode_inv_add_change split: sp elim!: el)
  have ban: ?thesis if "f = chm_ban" using chm_ban_inv inv r that by blast
  show ?thesis
    using e r inv simple op halfop voice limit key toggle ban unfolding set_ModeTable
    by (auto simp: chm_nosuch_def split: if_splits)
qed

text \<open>
  C10: A MODE command, whatever its string and parameters, keeps the invariant of the channel
  subsystem: membership lists, the channel table and every cached ban verdict stay right through
  all mode handlers. The ban serial has room for one step per parameter.
\<close>

theorem mode_keeps_invariant:
  assumes inv: "chan_inv ue w" and ch: "cw_channels w chptr = Some ch"
    and room: "uint (ch_ban_serial ch) + int (length parv) < 2 ^ 32"
    and r: "set_channel_mode env source_p chptr msptr parv w = Some res"
  shows "chan_inv ue (mr_w res)"
proof -
  obtain src m st where src: "parv \<noteq> []"
    and st: "mode_loop env (mode_call source_p src chptr m parv) (hd parv) (mode_start w) = Some st"
    and tell: "mode_tell env src chptr st = Some res"
    using r by (auto simp: set_channel_mode_def split: Option.bind_splits if_splits)
  let ?ca = "mode_call source_p src chptr m parv"
  have "mode_inv ue chptr (length parv) st"
  proof (rule mode_loop_inv [OF _ _ _ _ st, of ?ca])
    show "mode_inv ue chptr (length parv) (mode_start w)"
      using inv ch room src by (cases parv) (auto simp: mode_inv_def mode_start_def)
    fix f mt hf ca' st st'
    assume "(f, mt, hf) \<in> set ModeTable" "same_call ?ca ca'" "ca_mode_type ca' = mt" "mode_inv ue chptr (length parv) st"
      "f env ca' st = Some st'"
    then show "mode_inv ue chptr (length parv) st'"
      using mode_inv_handler [of f mt hf ca' ue st env st'] by (simp add: same_call_def mode_call_def)
  qed (simp_all add: mode_call_def)
  then show ?thesis using tell by (auto simp: mode_inv_def mode_tell_def Let_def split: if_splits Option.bind_splits)
qed

section \<open>The changes that are announced\<close>

lemma mk_change_sendable:
  "d \<in> {MODE_ADD, MODE_DEL} \<Longrightarrow> c \<notin> {CHR ''+'', CHR ''-''} \<Longrightarrow> caps \<in> {0, CAP_EX, CAP_IE, CAP_SERVICE} \<Longrightarrow>
   sendable (mk_change c d caps mems i a)"
  by (auto simp: sendable_def proper_change_def mk_change_def chan_caps_def cap_defs)

definition all_sendable :: "mstate \<Rightarrow> bool" where
  "all_sendable st \<longleftrightarrow> (\<forall>rc \<in> set (st_changes st). sendable (snd rc))"

lemma all_sendable_frame [simp]:
  "all_sendable (send_reply k a st) = all_sendable st" "all_sendable (no_privs env s ch st) = all_sendable st"
  "all_sendable (list_bans env s ch i j bs st) = all_sendable st" "all_sendable (st\<lparr>st_errors := e\<rparr>) = all_sendable st"
  "all_sendable (st\<lparr>st_mask_pos := p\<rparr>) = all_sendable st" "all_sendable (st\<lparr>st_limitstr := l\<rparr>) = all_sendable st"
  "all_sendable (st\<lparr>st_parn := n\<rparr>) = all_sendable st" "all_sendable (st\<lparr>st_w := w\<rparr>) = all_sendable st"
  by (simp_all add: all_sendable_def)

lemma all_sendable_ops:
  "add_change r c st = Some st' \<Longrightarrow> all_sendable st' \<longleftrightarrow> all_sendable st \<and> sendable c"
  "set_mode chp f st = Some st' \<Longrightarrow> all_sendable st' = all_sendable st"
  "set_flags mp g st = Some st' \<Longrightarrow> all_sendable st' = all_sendable st"
  "over_limit s k st = (ov, st') \<Longrightarrow> all_sendable st' = all_sendable st"
  by (auto simp: all_sendable_def add_change_def set_mode_def set_flags_def over_limit_def split: if_splits Option.bind_splits)

lemma all_sendable_target: "mode_target env ca ch st = Some (st', t) \<Longrightarrow> all_sendable st' = all_sendable st"
  by (auto simp: mode_target_def Let_def all_sendable_ops split: Option.bind_splits option.splits if_splits prod.splits)

lemma all_sendable_splat: "all_sendable st \<Longrightarrow> all_sendable (st'\<lparr>st_changes := splat_keys (st_changes st)\<rparr>)"
  by (fastforce simp: all_sendable_def splat_keys_def sendable_def proper_change_def split: if_splits prod.splits)

lemma change_ban_sendable:
  assumes "change_ban env ca ch l caps raw msk st = Some st'" "letter_call ca" "caps \<in> {0, CAP_EX, CAP_IE}" "all_sendable st"
  shows "all_sendable st'"
  using assms
  by (auto simp: change_ban_def Let_def letter_call_def all_sendable_ops intro!: mk_change_sendable
      split: if_splits Option.bind_splits prod.splits)

lemma sendable_elims:
  "add_change r c st = Some st' \<Longrightarrow> all_sendable st \<Longrightarrow> sendable c \<Longrightarrow> all_sendable st'"
  "set_mode chp f st = Some st' \<Longrightarrow> all_sendable st \<Longrightarrow> all_sendable st'"
  "set_flags mp g st = Some st' \<Longrightarrow> all_sendable st \<Longrightarrow> all_sendable st'"
  "mode_target env ca ch st = Some (st', t) \<Longrightarrow> all_sendable st \<Longrightarrow> all_sendable st'"
  using all_sendable_ops all_sendable_target by metis+

lemma sendable_plain:
  "d \<in> {MODE_ADD, MODE_DEL} \<Longrightarrow> c \<notin> {CHR ''+'', CHR ''-''} \<Longrightarrow> sendable (mk_change c d 0 mems i a)"
  by (rule mk_change_sendable) auto

lemma chm_ban_sendable:
  assumes ca: "letter_call ca" and inv: "all_sendable st" and r: "chm_ban env ca st = Some st'"
  shows "all_sendable st'"
proof (cases "ban_kind (ca_mode_type ca)")
  case None
  then show ?thesis using r inv by (simp add: chm_ban_def)
next
  case (Some k)
  obtain l e r1 r2 caps where k: "k = (l, e, r1, r2, caps)" by (cases k)
  have caps: "caps \<in> {0, CAP_EX, CAP_IE}" using Some k by (auto simp: ban_kind_def split: if_splits)
  obtain over st1 where o: "over_limit (ca_src ca) MAXMODEPARAMS st = (over, st1)" by fastforce
  have st1: "all_sendable st1" using all_sendable_ops(4) [OF o] inv by simp
  note ban = change_ban_sendable [OF _ ca caps]
  show ?thesis
    using r inv o st1 ban
    by (auto simp: chm_ban_def Some k Let_def split: Option.bind_splits if_splits) 
qed

lemma sendable_handler:
  assumes e: "(f, mt, hf) \<in> set ModeTable" and ca: "letter_call ca" and inv: "all_sendable st" and r: "f env ca st = Some st'"
  shows "all_sendable st'"
proof -
  note sp = Option.bind_splits option.splits if_splits prod.splits
  have c: "ca_c ca \<notin> {CHR ''+'', CHR ''-''}" and d: "ca_dir ca \<noteq> MODE_QUERY \<Longrightarrow> ca_dir ca \<in> {MODE_ADD, MODE_DEL}"
    using ca by (auto simp: letter_call_def)
  have pl: "sendable (mk_change (ca_c ca) MODE_ADD 0 mems i a)" "sendable (mk_change (ca_c ca) MODE_DEL 0 mems i a)"
    "sendable (mk_change (CHR ''v'') MODE_DEL 0 mems i a)" for mems i a
    using c by (auto intro!: sendable_plain)
  have tg: "ca_dir ca \<noteq> MODE_QUERY \<Longrightarrow> sendable (mk_change (ca_c ca) (ca_dir ca) 0 mems i a)"
    "ca_dir ca \<noteq> MODE_QUERY \<Longrightarrow> sendable (mk_change (ca_c ca) (ca_dir ca) CAP_SERVICE mems i a)" for mems i a
    using c d by (auto intro!: mk_change_sendable)
  have simple: ?thesis if "f = chm_simple"
    using r inv unfolding that chm_simple_def Let_def
    by (auto simp: pl all_sendable_ops(4) split: sp elim!: sendable_elims)
  have op: ?thesis if "f = chm_op"
    using r inv unfolding that chm_op_def Let_def
    by (auto simp: pl split: sp elim!: sendable_elims)
  have halfop: ?thesis if "f = chm_halfop"
    using r inv unfolding that chm_halfop_def Let_def
    by (auto simp: pl split: sp elim!: sendable_elims)
  have voice: ?thesis if "f = chm_voice"
    using r inv unfolding that chm_voice_def Let_def
    by (auto simp: pl split: sp elim!: sendable_elims)
  have limit: ?thesis if "f = chm_limit"
    using r inv unfolding that chm_limit_def Let_def
    by (auto simp: pl split: sp elim!: sendable_elims)
  have key: ?thesis if "f = chm_key"
    using r inv unfolding that chm_key_def Let_def
    by (auto simp: pl all_sendable_splat split: sp elim!: sendable_elims)
  have toggle: ?thesis if "f = chm_regonly \<or> f = chm_sslonly"
    using r inv that tg unfolding chm_regonly_def chm_sslonly_def toggle_mode_def
    by (auto split: sp elim!: sendable_elims)
  have ban: ?thesis if "f = chm_ban" using chm_ban_sendable ca inv r that by blast
  show ?thesis
    using e r inv simple op halfop voice limit key toggle ban unfolding set_ModeTable
    by (auto simp: chm_nosuch_def split: if_splits)
qed

end
