(* ===== verification/Mode_Replay.thy ===== *)
theory Mode_Replay
  imports Mode_Props
begin

text \<open>
  The changes the MODE command records are the changes it makes.  What a member sees of a channel's modes is a view: the
  mode bits, limit, key, the masks of the three lists and the nicks that hold a status.  Reading the recorded changes one
  after the other, the way a client or a server reads a MODE line, turns the view before the command into the view after
  it; so no handler changes anything without recording it, and none records what it has not done.
\<close>

section \<open>The view and how a change is read\<close>

definition letter_bit :: "char \<Rightarrow> 32 word" where
  "letter_bit c =
     (if c = CHR ''i'' then MODE_INVITEONLY else if c = CHR ''m'' then MODE_MODERATED else if c = CHR ''n'' then MODE_NOPRIVMSGS
      else if c = CHR ''p'' then MODE_PRIVATE else if c = CHR ''r'' then MODE_REGONLY else if c = CHR ''s'' then MODE_SECRET
      else if c = CHR ''t'' then MODE_TOPICLIMIT else if c = CHR ''x'' then MODE_SPAMPLEASE else if c = CHR ''S'' then MODE_SSLONLY
      else 0)"

definition letter_list :: "char \<Rightarrow> ban_list option" where
  "letter_list c = (if c = CHR ''b'' then Some Banlist else if c = CHR ''e'' then Some Exceptlist
     else if c = CHR ''I'' then Some Invexlist else None)"

definition letter_flag :: "char \<Rightarrow> 8 word" where
  "letter_flag c = (if c = CHR ''o'' then CHFL_CHANOP else if c = CHR ''h'' then CHFL_HALFOP
     else if c = CHR ''v'' then CHFL_VOICE else 0)"

record mode_view =
  vw_bits :: "32 word"
  vw_limit :: string
  vw_key :: string
  vw_masks :: "ban_list \<Rightarrow> string list"
  vw_status :: "char \<Rightarrow> string set"

definition holders :: "ptr \<Rightarrow> cworld \<Rightarrow> char \<Rightarrow> string set" where
  "holders chp w x = {cl_name c | mp m c. cw_members w mp = Some m \<and> ms_chptr m = chp \<and>
     cw_clients w (ms_client_p m) = Some c \<and> ms_flags m AND letter_flag x \<noteq> 0}"

definition view_channel :: "Channel \<Rightarrow> (char \<Rightarrow> string set) \<Rightarrow> mode_view" where
  "view_channel ch st = \<lparr>vw_bits = md_mode (ch_mode ch),
     vw_limit = (if md_limit (ch_mode ch) = 0 then [] else int_str (md_limit (ch_mode ch))),
     vw_key = md_key (ch_mode ch), vw_masks = (\<lambda>l. map ban_banstr (bans_in l ch)), vw_status = st\<rparr>"

definition modes_seen :: "ptr \<Rightarrow> cworld \<Rightarrow> mode_view option" where
  "modes_seen chp w = map_option (\<lambda>ch. view_channel ch (holders chp w)) (cw_channels w chp)"

fun del_mask :: "string \<Rightarrow> string list \<Rightarrow> string list" where
  "del_mask a [] = []"
| "del_mask a (b # bs) = (if irccmp a b = 0 then bs else b # del_mask a bs)"

definition read_change :: "ChModeChange \<Rightarrow> mode_view \<Rightarrow> mode_view" where
  "read_change c v =
     (let x = mc_letter c; add = (mc_dir c = MODE_ADD); a = (case mc_arg c of None \<Rightarrow> [] | Some a \<Rightarrow> a) in
      if letter_bit x \<noteq> 0 then v\<lparr>vw_bits := (if add then vw_bits v OR letter_bit x else vw_bits v AND NOT (letter_bit x))\<rparr>
      else if x = CHR ''l'' then v\<lparr>vw_limit := (if add then a else [])\<rparr>
      else if x = CHR ''k'' then v\<lparr>vw_key := (if add then a else [])\<rparr>
      else case letter_list x of
        Some l \<Rightarrow> v\<lparr>vw_masks := (vw_masks v)(l := (if add then rb_strndup a BANLEN # vw_masks v l
                                                  else if a = [] then vw_masks v l else del_mask a (vw_masks v l)))\<rparr>
      | None \<Rightarrow> if letter_flag x \<noteq> 0
                then v\<lparr>vw_status := (vw_status v)(x := (if add then insert a (vw_status v x) else vw_status v x - {a}))\<rparr>
                else v)"

definition read_changes :: "ChModeChange list \<Rightarrow> mode_view \<Rightarrow> mode_view" where
  "read_changes cs v = foldl (\<lambda>v c. read_change c v) v cs"

section \<open>Arguments that are read when the lines are sent\<close>

text \<open>
  A change of the key or the limit refers to the channel, so that its argument is the value at the end of the command:
  earlier changes of the same mode are then read with another argument, but the last one decides.
\<close>

definition refs_ok :: "(arg_ref \<times> ChModeChange) list \<Rightarrow> bool" where
  "refs_ok cs \<longleftrightarrow> (\<forall>(r, c) \<in> set cs. (r = Key_ref \<longrightarrow> mc_letter c = CHR ''k'') \<and> (r = Limit_ref \<longrightarrow> mc_letter c = CHR ''l''))"

definition recorded_view :: "mode_view \<Rightarrow> Channel \<Rightarrow> string \<Rightarrow> (arg_ref \<times> ChModeChange) list \<Rightarrow> mode_view" where
  "recorded_view v ch lim cs = read_changes (map (resolve ch lim) cs) v"

lemma recorded_view_simps [simp]:
  "recorded_view v ch lim [] = v"
  "recorded_view v ch lim (cs @ [rc]) = read_change (resolve ch lim rc) (recorded_view v ch lim cs)"
  by (simp_all add: recorded_view_def read_changes_def)

lemma letter_k: "letter_bit (CHR ''k'') = 0" and letter_l: "letter_bit (CHR ''l'') = 0"
  by (simp_all add: letter_bit_def)

lemma read_change_limit: "(read_change c v)\<lparr>vw_limit := x\<rparr> = (read_change c (v\<lparr>vw_limit := x\<rparr>))\<lparr>vw_limit := x\<rparr>"
  by (cases v; cases "letter_list (mc_letter c)") (simp_all add: read_change_def Let_def)

lemma read_change_key: "(read_change c v)\<lparr>vw_key := x\<rparr> = (read_change c (v\<lparr>vw_key := x\<rparr>))\<lparr>vw_key := x\<rparr>"
  by (cases v; cases "letter_list (mc_letter c)") (simp_all add: read_change_def Let_def)

lemma read_limit: "mc_letter c = CHR ''l'' \<Longrightarrow> (read_change c v)\<lparr>vw_limit := x\<rparr> = v\<lparr>vw_limit := x\<rparr>"
  by (simp add: read_change_def letter_l)

lemma read_key: "mc_letter c = CHR ''k'' \<Longrightarrow> (read_change c v)\<lparr>vw_key := x\<rparr> = v\<lparr>vw_key := x\<rparr>"
  by (simp add: read_change_def letter_k)

lemma refs_ok_snoc [simp]: "refs_ok (cs @ [(r, c)]) \<longleftrightarrow> refs_ok cs \<and> (r = Key_ref \<longrightarrow> mc_letter c = CHR ''k'') \<and> (r = Limit_ref \<longrightarrow> mc_letter c = CHR ''l'')"
  by (auto simp: refs_ok_def)

lemma resolve_letter [simp]: "mc_letter (resolve ch lim (r, c)) = mc_letter c" "mc_dir (resolve ch lim (r, c)) = mc_dir c"
  by (cases r; simp add: resolve_def)+

lemma resolve_other_limit: "r \<noteq> Limit_ref \<Longrightarrow> resolve ch lim' (r, c) = resolve ch lim (r, c)"
  by (cases r) (simp_all add: resolve_def)

lemma resolve_other_key: "r \<noteq> Key_ref \<or> md_key (ch_mode ch') = md_key (ch_mode ch) \<Longrightarrow> resolve ch' lim (r, c) = resolve ch lim (r, c)"
  by (cases r) (auto simp: resolve_def)

lemma recorded_view_limit:
  "refs_ok cs \<Longrightarrow> (recorded_view v ch lim' cs)\<lparr>vw_limit := x\<rparr> = (recorded_view v ch lim cs)\<lparr>vw_limit := x\<rparr>"
proof (induction cs rule: rev_induct)
  case (snoc rc cs)
  obtain r c where rc: "rc = (r, c)" by (cases rc)
  show ?case
  proof (cases "r = Limit_ref")
    case True
    then show ?thesis using snoc rc by (simp add: read_limit)
  next
    case False
    then show ?thesis
      using snoc rc resolve_other_limit [OF False, of ch lim' c lim]
      by (simp add: read_change_limit [where v = "recorded_view v ch lim' cs"] read_change_limit [where v = "recorded_view v ch lim cs"])
  qed
qed simp

lemma recorded_view_same_key:
  "md_key (ch_mode ch') = md_key (ch_mode ch) \<Longrightarrow> recorded_view v ch' lim cs = recorded_view v ch lim cs"
proof (induction cs rule: rev_induct)
  case (snoc rc cs)
  then show ?case using resolve_other_key [of "fst rc" ch' ch lim "snd rc"] by simp
qed simp

lemma recorded_view_key:
  "refs_ok cs \<Longrightarrow> (recorded_view v ch' lim cs)\<lparr>vw_key := x\<rparr> = (recorded_view v ch lim cs)\<lparr>vw_key := x\<rparr>"
proof (induction cs rule: rev_induct)
  case (snoc rc cs)
  obtain r c where rc: "rc = (r, c)" by (cases rc)
  show ?case
  proof (cases "r = Key_ref")
    case True
    then show ?thesis using snoc rc by (simp add: read_key)
  next
    case False
    then show ?thesis
      using snoc rc resolve_other_key [of r ch' ch lim c]
      by (simp add: read_change_key [where v = "recorded_view v ch' lim cs"] read_change_key [where v = "recorded_view v ch lim cs"])
  qed
qed simp

lemma splat_keys_snoc: "splat_keys (cs @ [(r, c)]) =
    splat_keys cs @ [if mc_letter c = CHR ''k'' \<and> mc_dir c = MODE_ADD then (Fixed, c\<lparr>mc_arg := Some ''*''\<rparr>) else (r, c)]"
  by (simp add: splat_keys_def)

lemma refs_ok_splat: "refs_ok cs \<Longrightarrow> refs_ok (splat_keys cs)"
  by (induction cs rule: rev_induct) (auto simp: splat_keys_snoc split_paired_all, simp add: splat_keys_def)

lemma recorded_view_splat:
  "refs_ok cs \<Longrightarrow> (recorded_view v ch lim (splat_keys cs))\<lparr>vw_key := x\<rparr> = (recorded_view v ch lim cs)\<lparr>vw_key := x\<rparr>"
proof (induction cs rule: rev_induct)
  case (snoc rc cs)
  obtain r c where rc: "rc = (r, c)" by (cases rc)
  show ?case
  proof (cases "mc_letter c = CHR ''k'' \<and> mc_dir c = MODE_ADD")
    case True
    then show ?thesis using snoc rc by (simp add: splat_keys_snoc read_key)
  next
    case False
    then show ?thesis
      using snoc rc
      by (simp add: splat_keys_snoc if_not_P [OF False] read_change_key [where v = "recorded_view v ch lim (splat_keys cs)"]
          read_change_key [where v = "recorded_view v ch lim cs"] del: de_Morgan_conj)
  qed
qed (simp add: splat_keys_def)

section \<open>What a letter does\<close>

text \<open>
  Of the state of the command, the world, the recorded changes and the text of the limit matter.  The outcomes of a
  handler: nothing, or one change together with its record.
\<close>

type_synonym mode_core = "cworld \<times> (arg_ref \<times> ChModeChange) list \<times> string"

definition core :: "mstate \<Rightarrow> mode_core" where
  "core st = (st_w st, st_changes st, st_limitstr st)"

inductive mode_effect :: "ptr \<Rightarrow> mode_core \<Rightarrow> mode_core \<Rightarrow> bool" for chp where
  nothing: "mode_effect chp s s"
| bits: "\<lbrakk>letter_bit x \<noteq> 0; cw_channels w chp = Some ch;
      b = (if d = MODE_ADD then md_mode (ch_mode ch) OR letter_bit x else md_mode (ch_mode ch) AND NOT (letter_bit x))\<rbrakk> \<Longrightarrow>
    mode_effect chp (w, cs, lim) (set_channel chp (ch\<lparr>ch_mode := (ch_mode ch)\<lparr>md_mode := b\<rparr>\<rparr>) w,
      cs @ [(Fixed, mk_change x d caps mems None None)], lim)"
| limit: "\<lbrakk>0 < n; cw_channels w chp = Some ch\<rbrakk> \<Longrightarrow>
    mode_effect chp (w, cs, lim) (set_channel chp (ch\<lparr>ch_mode := (ch_mode ch)\<lparr>md_limit := n\<rparr>\<rparr>) w,
      cs @ [(Limit_ref, mk_change (CHR ''l'') MODE_ADD caps mems None None)], int_str n)"
| unlimit: "cw_channels w chp = Some ch \<Longrightarrow>
    mode_effect chp (w, cs, lim) (set_channel chp (ch\<lparr>ch_mode := (ch_mode ch)\<lparr>md_limit := 0\<rparr>\<rparr>) w,
      cs @ [(Fixed, mk_change (CHR ''l'') MODE_DEL caps mems None None)], lim)"
| key: "cw_channels w chp = Some ch \<Longrightarrow>
    mode_effect chp (w, cs, lim) (set_channel chp (ch\<lparr>ch_mode := (ch_mode ch)\<lparr>md_key := k\<rparr>\<rparr>) w,
      cs @ [(Key_ref, mk_change (CHR ''k'') MODE_ADD caps mems None None)], lim)"
| unkey: "cw_channels w chp = Some ch \<Longrightarrow>
    mode_effect chp (w, cs, lim) (set_channel chp (ch\<lparr>ch_mode := (ch_mode ch)\<lparr>md_key := []\<rparr>\<rparr>) w,
      splat_keys cs @ [(Fixed, mk_change (CHR ''k'') MODE_DEL caps mems None a)], lim)"
| masks: "\<lbrakk>letter_list x = Some l; cw_channels w chp = Some ch; ch' = ch \<or> (\<exists>mt bs. ch' = bump_serial mt (set_bans l bs ch));
      map ban_banstr (bans_in l ch') = (if d = MODE_ADD then rb_strndup a BANLEN # map ban_banstr (bans_in l ch)
        else if a = [] then map ban_banstr (bans_in l ch) else del_mask a (map ban_banstr (bans_in l ch)))\<rbrakk> \<Longrightarrow>
    mode_effect chp (w, cs, lim) (set_channel chp ch' w, cs @ [(Fixed, mk_change x d caps mems None (Some a))], lim)"
| status: "\<lbrakk>x \<in> {CHR ''o'', CHR ''h'', CHR ''v''}; cw_members w mp = Some m; ms_chptr m = chp; cw_channels w chp = Some ch;
      cw_clients w (ms_client_p m) = Some t; f AND letter_flag x \<noteq> 0 \<longleftrightarrow> d = MODE_ADD;
      \<And>y. y \<noteq> x \<Longrightarrow> f AND letter_flag y = ms_flags m AND letter_flag y\<rbrakk> \<Longrightarrow>
    mode_effect chp (w, cs, lim) (w\<lparr>cw_members := (cw_members w)(mp \<mapsto> m\<lparr>ms_flags := f\<rparr>)\<rparr>,
      cs @ [(Fixed, mk_change x d caps mems i (Some (cl_name t)))], lim)"

lemma core_frame [simp]:
  "core (send_reply n a st) = core st" "core (no_privs env s ch st) = core st"
  "core (list_bans env s ch i j bs st) = core st" "core (st\<lparr>st_errors := e\<rparr>) = core st"
  "core (st\<lparr>st_mask_pos := p\<rparr>) = core st" "core (st\<lparr>st_parn := k\<rparr>) = core st" "core (st\<lparr>st_limit := li\<rparr>) = core st"
  by (simp_all add: core_def)

lemma nothing_core [simp]: "mode_effect chp (core st) (core st)"
  by (rule mode_effect.nothing)

lemma core_over_limit: "over_limit s k st = (ov, st') \<Longrightarrow> core st' = core st"
  by (auto simp: over_limit_def split: if_splits)

lemma core_w: "core st' = core st \<Longrightarrow> st_w st' = st_w st"
  by (simp add: core_def)

lemma core_target: "mode_target env ca ch st = Some (st', t) \<Longrightarrow> core st' = core st"
  by (auto simp: mode_target_def Let_def core_over_limit split: Option.bind_splits option.splits if_splits prod.splits)

lemma core_add_change: "add_change r c st = Some st' \<Longrightarrow> core st' = (st_w st, st_changes st @ [(r, c)], st_limitstr st)"
  by (auto simp: core_def add_change_def split: if_splits)

lemma core_set_mode: "set_mode chp f st = Some st' \<Longrightarrow> \<exists>ch. cw_channels (st_w st) chp = Some ch \<and>
    core st' = (set_channel chp (ch\<lparr>ch_mode := f (ch_mode ch)\<rparr>) (st_w st), st_changes st, st_limitstr st)"
  by (auto simp: core_def set_mode_def split: Option.bind_splits)

lemma core_set_flags: "set_flags mp f st = Some st' \<Longrightarrow> \<exists>m. cw_members (st_w st) mp = Some m \<and>
    core st' = ((st_w st)\<lparr>cw_members := (cw_members (st_w st))(mp \<mapsto> m\<lparr>ms_flags := f (ms_flags m)\<rparr>)\<rparr>, st_changes st, st_limitstr st)"
  by (auto simp: core_def set_flags_def split: Option.bind_splits)

lemma simple_effect:
  assumes r: "chm_simple env ca st = Some st'" and x: "letter_bit (ca_c ca) = word_of_int (ca_mode_type ca)" "letter_bit (ca_c ca) \<noteq> 0"
  shows "mode_effect (ca_chptr ca) (core st) (core st')"
proof -
  obtain ch where ch: "cw_channels (st_w st) (ca_chptr ca) = Some ch" using r by (auto simp: chm_simple_def split: Option.bind_splits)
  obtain over st1 where o: "over_limit (ca_src ca) (9 + MAXMODEPARAMS) st = (over, st1)" by fastforce
  have c1: "core st1 = core st" using core_over_limit [OF o] .
  then have w1: "st_w st1 = st_w st" "st_changes st1 = st_changes st" "st_limitstr st1 = st_limitstr st" by (simp_all add: core_def)
  have "core st' = core st \<or> core st' = (set_channel (ca_chptr ca) (ch\<lparr>ch_mode := (ch_mode ch)\<lparr>md_mode :=
      (if ca_dir ca = MODE_ADD then md_mode (ch_mode ch) OR letter_bit (ca_c ca) else md_mode (ch_mode ch) AND NOT (letter_bit (ca_c ca)))\<rparr>\<rparr>) (st_w st),
      st_changes st @ [(Fixed, mk_change (ca_c ca) (ca_dir ca) 0 ALL_MEMBERS None None)], st_limitstr st)"
  proof (cases "ca_alevel ca = CHFL_PEON \<or> \<not> ca_halfop ca \<and> ca_alevel ca = CHFL_HALFOP")
    case True
    then show ?thesis using r ch by (auto simp: chm_simple_def)
  next
    case False
    then show ?thesis using r ch o c1 w1 x(1)
      by (auto simp: chm_simple_def Let_def set_mode_def add_change_def core_def split: if_splits)
        (simp_all add: dir_defs)
  qed
  then show ?thesis
    using mode_effect.bits [OF x(2) ch refl] mode_effect.nothing by (auto simp: core_def)
qed

lemma toggle_effect:
  assumes r: "toggle_mode ca m caps st = Some st'" and x: "letter_bit (ca_c ca) = m" "m \<noteq> 0"
  shows "mode_effect (ca_chptr ca) (core st) (core st')"
proof -
  obtain ch where ch: "cw_channels (st_w st) (ca_chptr ca) = Some ch" using r by (auto simp: toggle_mode_def set_mode_def split: Option.bind_splits)
  have "core st' = (set_channel (ca_chptr ca) (ch\<lparr>ch_mode := (ch_mode ch)\<lparr>md_mode :=
      (if ca_dir ca = MODE_ADD then md_mode (ch_mode ch) OR letter_bit (ca_c ca) else md_mode (ch_mode ch) AND NOT (letter_bit (ca_c ca)))\<rparr>\<rparr>) (st_w st),
      st_changes st @ [(Fixed, mk_change (ca_c ca) (ca_dir ca) caps ALL_MEMBERS None None)], st_limitstr st)"
    using r ch x(1) by (auto simp: toggle_mode_def set_mode_def add_change_def core_def split: if_splits)
  then show ?thesis using mode_effect.bits [OF x(2) [folded x(1)] ch refl] by (simp add: core_def)
qed

lemma regonly_effect:
  assumes "chm_regonly env ca st = Some st'" "ca_c ca = CHR ''r''"
  shows "mode_effect (ca_chptr ca) (core st) (core st')"
proof -
  have x: "letter_bit (ca_c ca) = MODE_REGONLY" "MODE_REGONLY \<noteq> 0" using assms(2) by (simp_all add: letter_bit_def MODE_REGONLY_def)
  show ?thesis
    using assms(1) toggle_effect [OF _ x] by (auto simp: chm_regonly_def split: Option.bind_splits if_splits)
qed

lemma sslonly_effect:
  assumes "chm_sslonly env ca st = Some st'" "ca_c ca = CHR ''S''"
  shows "mode_effect (ca_chptr ca) (core st) (core st')"
proof -
  have x: "letter_bit (ca_c ca) = MODE_SSLONLY" "MODE_SSLONLY \<noteq> 0" using assms(2) by (simp_all add: letter_bit_def MODE_SSLONLY_def)
  show ?thesis
    using assms(1) toggle_effect [OF _ x] by (auto simp: chm_sslonly_def split: Option.bind_splits if_splits)
qed

lemma limit_effect:
  assumes r: "chm_limit env ca st = Some st'" and x: "ca_c ca = CHR ''l''"
  shows "mode_effect (ca_chptr ca) (core st) (core st')"
proof -
  obtain ch where ch: "cw_channels (st_w st) (ca_chptr ca) = Some ch" using r by (auto simp: chm_limit_def split: Option.bind_splits)
  let ?n = "c_atoi (ca_parv ca ! st_parn st)"
  have "core st' = core st \<or>
    (0 < ?n \<and> core st' = (set_channel (ca_chptr ca) (ch\<lparr>ch_mode := (ch_mode ch)\<lparr>md_limit := ?n\<rparr>\<rparr>) (st_w st),
      st_changes st @ [(Limit_ref, mk_change (CHR ''l'') MODE_ADD 0 ALL_MEMBERS None None)], int_str ?n)) \<or>
    core st' = (set_channel (ca_chptr ca) (ch\<lparr>ch_mode := (ch_mode ch)\<lparr>md_limit := 0\<rparr>\<rparr>) (st_w st),
      st_changes st @ [(Fixed, mk_change (CHR ''l'') MODE_DEL 0 ALL_MEMBERS None None)], st_limitstr st)"
    using r ch x by (auto simp: chm_limit_def Let_def set_mode_def add_change_def split: if_splits) (auto simp: core_def)
  then show ?thesis
    using mode_effect.nothing mode_effect.limit [OF _ ch] mode_effect.unlimit [OF ch] unfolding core_def by metis
qed

lemma key_effect:
  assumes r: "chm_key env ca st = Some st'" and x: "ca_c ca = CHR ''k''"
  shows "mode_effect (ca_chptr ca) (core st) (core st')"
proof -
  obtain ch where ch: "cw_channels (st_w st) (ca_chptr ca) = Some ch" using r by (auto simp: chm_key_def split: Option.bind_splits)
  have "core st' = core st \<or>
    (\<exists>k. core st' = (set_channel (ca_chptr ca) (ch\<lparr>ch_mode := (ch_mode ch)\<lparr>md_key := k\<rparr>\<rparr>) (st_w st),
      st_changes st @ [(Key_ref, mk_change (CHR ''k'') MODE_ADD 0 ALL_MEMBERS None None)], st_limitstr st)) \<or>
    core st' = (set_channel (ca_chptr ca) (ch\<lparr>ch_mode := (ch_mode ch)\<lparr>md_key := []\<rparr>\<rparr>) (st_w st),
      splat_keys (st_changes st) @ [(Fixed, mk_change (CHR ''k'') MODE_DEL 0 ALL_MEMBERS None (Some ''*''))], st_limitstr st)"
    using r ch x by (auto simp: chm_key_def Let_def set_mode_def add_change_def split: if_splits) (auto simp: core_def)
  then show ?thesis
    using mode_effect.nothing mode_effect.key [OF ch] mode_effect.unkey [OF ch] unfolding core_def by metis
qed

lemma flag_reads:
  fixes f :: "8 word"
  shows "((f OR CHFL_CHANOP) AND NOT CHFL_DEOPPED) AND CHFL_CHANOP \<noteq> 0" "((f OR CHFL_HALFOP) AND NOT CHFL_DEOPPED) AND CHFL_HALFOP \<noteq> 0"
    "(f OR CHFL_VOICE) AND CHFL_VOICE \<noteq> 0" "(f AND NOT CHFL_CHANOP) AND CHFL_CHANOP = 0" "(f AND NOT CHFL_HALFOP) AND CHFL_HALFOP = 0"
    "(f AND NOT CHFL_VOICE) AND CHFL_VOICE = 0"
    "y \<noteq> CHR ''o'' \<Longrightarrow> ((f OR CHFL_CHANOP) AND NOT CHFL_DEOPPED) AND letter_flag y = f AND letter_flag y"
    "y \<noteq> CHR ''o'' \<Longrightarrow> (f AND NOT CHFL_CHANOP) AND letter_flag y = f AND letter_flag y"
    "y \<noteq> CHR ''h'' \<Longrightarrow> ((f OR CHFL_HALFOP) AND NOT CHFL_DEOPPED) AND letter_flag y = f AND letter_flag y"
    "y \<noteq> CHR ''h'' \<Longrightarrow> (f AND NOT CHFL_HALFOP) AND letter_flag y = f AND letter_flag y"
    "y \<noteq> CHR ''v'' \<Longrightarrow> (f OR CHFL_VOICE) AND letter_flag y = f AND letter_flag y"
    "y \<noteq> CHR ''v'' \<Longrightarrow> (f AND NOT CHFL_VOICE) AND letter_flag y = f AND letter_flag y"
proof -
  have or: "(f OR a) AND b = (f AND b) OR (a AND b)" "((f OR a) AND d) AND b = (f AND (d AND b)) OR (a AND d AND b)" for a b d :: "8 word"
    by (simp_all add: bit.conj_disj_distrib2 and.assoc)
  have ne: "a \<noteq> 0 \<Longrightarrow> x OR a \<noteq> 0" for x a :: "8 word" by (simp add: or_eq_0_iff)
  note d = CHFL_CHANOP_def CHFL_HALFOP_def CHFL_VOICE_def CHFL_DEOPPED_def letter_flag_def
  show "((f OR CHFL_CHANOP) AND NOT CHFL_DEOPPED) AND CHFL_CHANOP \<noteq> 0" "((f OR CHFL_HALFOP) AND NOT CHFL_DEOPPED) AND CHFL_HALFOP \<noteq> 0"
    "(f OR CHFL_VOICE) AND CHFL_VOICE \<noteq> 0" by (simp_all add: d or ne)
  show "(f AND NOT CHFL_CHANOP) AND CHFL_CHANOP = 0" "(f AND NOT CHFL_HALFOP) AND CHFL_HALFOP = 0"
    "(f AND NOT CHFL_VOICE) AND CHFL_VOICE = 0" by (simp_all add: and.assoc)
  show "y \<noteq> CHR ''o'' \<Longrightarrow> ((f OR CHFL_CHANOP) AND NOT CHFL_DEOPPED) AND letter_flag y = f AND letter_flag y"
    "y \<noteq> CHR ''h'' \<Longrightarrow> ((f OR CHFL_HALFOP) AND NOT CHFL_DEOPPED) AND letter_flag y = f AND letter_flag y"
    "y \<noteq> CHR ''v'' \<Longrightarrow> (f OR CHFL_VOICE) AND letter_flag y = f AND letter_flag y"
    by (simp_all add: d and.assoc bit.conj_disj_distrib2)
  show "y \<noteq> CHR ''o'' \<Longrightarrow> (f AND NOT CHFL_CHANOP) AND letter_flag y = f AND letter_flag y"
    "y \<noteq> CHR ''h'' \<Longrightarrow> (f AND NOT CHFL_HALFOP) AND letter_flag y = f AND letter_flag y"
    "y \<noteq> CHR ''v'' \<Longrightarrow> (f AND NOT CHFL_VOICE) AND letter_flag y = f AND letter_flag y" by (simp_all add: d and.assoc)
qed

lemma target_member:
  assumes ok: "cworld_ok (st_w st)" and ch: "cw_channels (st_w st) (ca_chptr ca) = Some ch"
    and r: "mode_target env ca ch0 st = Some (st', Some (t, mp))"
  shows "membership_of (ca_chptr ca) t (st_w st) mp"
proof -
  have f: "find_channel_membership (ca_chptr ca) t (st_w st) = Some (Some mp)"
    using r by (auto simp: mode_target_def Let_def split: Option.bind_splits option.splits if_splits prod.splits)
  then obtain c chans where c: "cw_clients (st_w st) t = Some c" "IsClient c" "cl_user c = Some chans"
    by (auto simp: find_channel_membership_def split: if_splits Option.bind_splits)
  show ?thesis using find_channel_membership_spec [OF ok c ch] f by auto
qed

lemma status_effect:
  assumes ok: "cworld_ok (st_w st)" and ch: "cw_channels (st_w st) (ca_chptr ca) = Some ch"
    and tg: "mode_target env ca ch0 st = Some (st1, Some (t, mp))" and t: "cw_clients (st_w st) t = Some tc"
    and r: "add_change Fixed (mk_change x d caps mems i (Some (cl_name tc))) st1 = Some st2" "set_flags mp g st2 = Some st3"
    and x: "x \<in> {CHR ''o'', CHR ''h'', CHR ''v''}" "\<And>f. g f AND letter_flag x \<noteq> 0 \<longleftrightarrow> d = MODE_ADD"
      "\<And>f y. y \<noteq> x \<Longrightarrow> g f AND letter_flag y = f AND letter_flag y"
  shows "mode_effect (ca_chptr ca) (core st) (core st3)"
proof -
  obtain m where m: "cw_members (st_w st) mp = Some m" "ms_client_p m = t" "ms_chptr m = ca_chptr ca"
    using target_member [OF ok ch tg] by (auto simp: membership_of_def)
  have c1: "core st1 = core st" by (rule core_target [OF tg])
  have "core st3 = ((st_w st)\<lparr>cw_members := (cw_members (st_w st))(mp \<mapsto> m\<lparr>ms_flags := g (ms_flags m)\<rparr>)\<rparr>,
      st_changes st @ [(Fixed, mk_change x d caps mems i (Some (cl_name tc)))], st_limitstr st)"
    using core_add_change [OF r(1)] core_set_flags [OF r(2)] c1 m(1) by (auto simp: core_def)
  then show ?thesis
    using mode_effect.status [OF x(1) m(1,3) ch, of tc "g (ms_flags m)" d] t m(2) x(2,3) by (simp add: core_def)
qed

text \<open>What \<^verbatim>\<open>chm_op\<close>, \<^verbatim>\<open>chm_halfop\<close> and \<^verbatim>\<open>chm_voice\<close> do once the target is accepted.\<close>

definition changes_status :: "menv \<Rightarrow> mcall \<Rightarrow> Channel \<Rightarrow> char \<Rightarrow> int \<Rightarrow> (8 word \<Rightarrow> 8 word) \<Rightarrow> mstate \<Rightarrow> mstate \<Rightarrow> bool" where
  "changes_status env ca ch x d g st st' \<longleftrightarrow> (\<exists>st1 t mp tc st2. mode_target env ca ch st = Some (st1, Some (t, mp)) \<and>
     cw_clients (st_w st1) t = Some tc \<and>
     add_change Fixed (mk_change x d 0 ALL_MEMBERS (Some (cl_id tc)) (Some (cl_name tc))) st1 = Some st2 \<and>
     set_flags mp g st2 = Some st')"

lemma changes_status_effect:
  assumes "cworld_ok (st_w st)" "cw_channels (st_w st) (ca_chptr ca) = Some ch" "changes_status env ca ch x d g st st'"
    and "x \<in> {CHR ''o'', CHR ''h'', CHR ''v''}" "\<And>f. g f AND letter_flag x \<noteq> 0 \<longleftrightarrow> d = MODE_ADD"
      "\<And>f y. y \<noteq> x \<Longrightarrow> g f AND letter_flag y = f AND letter_flag y"
  shows "mode_effect (ca_chptr ca) (core st) (core st')"
proof -
  obtain st1 t mp tc st2 where c: "mode_target env ca ch st = Some (st1, Some (t, mp))" "cw_clients (st_w st1) t = Some tc"
    "add_change Fixed (mk_change x d 0 ALL_MEMBERS (Some (cl_id tc)) (Some (cl_name tc))) st1 = Some st2" "set_flags mp g st2 = Some st'"
    using assms(3) unfolding changes_status_def by blast
  have "cw_clients (st_w st) t = Some tc" using c(2) core_w [OF core_target [OF c(1)]] by simp
  then show ?thesis by (rule status_effect [OF assms(1,2) c(1) _ c(3,4) assms(4-6)])
qed

lemma dirs_differ: "MODE_DEL \<noteq> MODE_ADD" by (simp add: dir_defs)

lemma op_cases:
  assumes "chm_op env ca st = Some st'" "ca_c ca = CHR ''o''"
  shows "core st' = core st \<or>
    (\<exists>ch. cw_channels (st_w st) (ca_chptr ca) = Some ch \<and>
      (changes_status env ca ch (CHR ''o'') MODE_ADD (\<lambda>f. (f OR CHFL_CHANOP) AND NOT CHFL_DEOPPED) st st' \<or>
       changes_status env ca ch (CHR ''o'') MODE_DEL (\<lambda>f. f AND NOT CHFL_CHANOP) st st'))"
  using assms unfolding chm_op_def changes_status_def
  by (auto split: Option.bind_splits option.splits if_splits prod.splits dest: core_target)

lemma halfop_cases:
  assumes "chm_halfop env ca st = Some st'" "ca_c ca = CHR ''h''"
  shows "core st' = core st \<or>
    (\<exists>ch. cw_channels (st_w st) (ca_chptr ca) = Some ch \<and>
      (changes_status env ca ch (CHR ''h'') MODE_ADD (\<lambda>f. (f OR CHFL_HALFOP) AND NOT CHFL_DEOPPED) st st' \<or>
       changes_status env ca ch (CHR ''h'') MODE_DEL (\<lambda>f. f AND NOT CHFL_HALFOP) st st'))"
  using assms unfolding chm_halfop_def changes_status_def
  by (auto split: Option.bind_splits option.splits if_splits prod.splits dest: core_target)

lemma voice_cases:
  assumes "chm_voice env ca st = Some st'" "ca_c ca = CHR ''v''"
  shows "core st' = core st \<or>
    (\<exists>ch. cw_channels (st_w st) (ca_chptr ca) = Some ch \<and>
      (changes_status env ca ch (CHR ''v'') MODE_ADD (\<lambda>f. f OR CHFL_VOICE) st st' \<or>
       changes_status env ca ch (CHR ''v'') MODE_DEL (\<lambda>f. f AND NOT CHFL_VOICE) st st'))"
  using assms unfolding chm_voice_def changes_status_def
  by (auto split: Option.bind_splits option.splits if_splits prod.splits dest: core_target)

lemma letter_flags: "letter_flag (CHR ''o'') = CHFL_CHANOP" "letter_flag (CHR ''h'') = CHFL_HALFOP" "letter_flag (CHR ''v'') = CHFL_VOICE"
  "CHFL_VOICE \<noteq> 0"
  by (simp_all add: letter_flag_def CHFL_VOICE_def)

lemma status_handlers:
  assumes ok: "cworld_ok (st_w st)"
  shows "chm_op env ca st = Some st' \<Longrightarrow> ca_c ca = CHR ''o'' \<Longrightarrow> mode_effect (ca_chptr ca) (core st) (core st')"
    "chm_halfop env ca st = Some st' \<Longrightarrow> ca_c ca = CHR ''h'' \<Longrightarrow> mode_effect (ca_chptr ca) (core st) (core st')"
    "chm_voice env ca st = Some st' \<Longrightarrow> ca_c ca = CHR ''v'' \<Longrightarrow> mode_effect (ca_chptr ca) (core st) (core st')"
proof -
  note e = changes_status_effect [OF ok] and fr = flag_reads dirs_differ letter_flags
  show "chm_op env ca st = Some st' \<Longrightarrow> ca_c ca = CHR ''o'' \<Longrightarrow> mode_effect (ca_chptr ca) (core st) (core st')"
    by (drule (1) op_cases) (elim disjE exE conjE, simp, (erule (1) e, simp_all add: fr)+)
  show "chm_halfop env ca st = Some st' \<Longrightarrow> ca_c ca = CHR ''h'' \<Longrightarrow> mode_effect (ca_chptr ca) (core st) (core st')"
    by (drule (1) halfop_cases) (elim disjE exE conjE, simp, (erule (1) e, simp_all add: fr)+)
  show "chm_voice env ca st = Some st' \<Longrightarrow> ca_c ca = CHR ''v'' \<Longrightarrow> mode_effect (ca_chptr ca) (core st) (core st')"
    by (drule (1) voice_cases) (elim disjE exE conjE, simp, (erule (1) e, simp_all add: fr)+)
qed

lemma del_first_masks: "map ban_banstr (case del_first a bs of None \<Rightarrow> bs | Some bs' \<Rightarrow> bs') = del_mask a (map ban_banstr bs)"
  by (induction bs) (auto split: option.splits)

lemma del_id_masks:
  assumes "del_id ch (Some a) l mt = (r, ch')"
  shows "(ch' = ch \<or> (\<exists>mt bs. ch' = bump_serial mt (set_bans l bs ch))) \<and>
    map ban_banstr (bans_in l ch') = (if a = [] then map ban_banstr (bans_in l ch) else del_mask a (map ban_banstr (bans_in l ch)))"
  using assms del_first_masks [where a = a and bs = "bans_in l ch"] by (auto simp: del_id_def split: if_splits option.splits)

lemma del_id_none: "del_id ch a l mt = (0, ch') \<Longrightarrow> ch' = ch"
  by (auto simp: del_id_def split: if_splits option.splits)

lemma change_ban_effect:
  assumes ch: "cw_channels (st_w st) (ca_chptr ca) = Some ch" and x: "letter_list (ca_c ca) = Some l"
    and r: "change_ban env ca ch l caps raw msk st = Some st'"
  shows "mode_effect (ca_chptr ca) (core st) (core st')"
proof -
  note eff = mode_effect.masks [OF x ch]
  consider (add) "ca_dir ca = MODE_ADD" | (del) "ca_dir ca = MODE_DEL" "ca_dir ca \<noteq> MODE_ADD" | (other) "ca_dir ca \<noteq> MODE_ADD" "ca_dir ca \<noteq> MODE_DEL"
    by blast
  then show ?thesis
  proof cases
    case add
    obtain v full ch' where a: "add_id (me_max_bans env) (me_now env) (ca_src ca) ch msk l (ca_mode_type ca) = Some (v, full, ch')"
      using r add by (auto simp: change_ban_def split: Option.bind_splits)
    show ?thesis
    proof (cases "v = 0")
      case True
      then show ?thesis using r add a by (auto simp: change_ban_def Let_def split: if_splits)
    next
      case False
      then obtain who where ch': "ch' = bump_serial (ca_mode_type ca) (set_bans l ((allocate_ban msk who)\<lparr>ban_when := me_now env\<rparr> # bans_in l ch) ch)"
        using add_id_result [OF a] by auto
      have "core st' = (set_channel (ca_chptr ca) ch' (st_w st), st_changes st @
          [(Fixed, mk_change (ca_c ca) MODE_ADD caps (ban_mems env (ca_mode_type ca) MODE_ADD) None (Some msk))], st_limitstr st)"
        using r add a False by (auto simp: change_ban_def Let_def core_def add_change_def split: if_splits)
      moreover have "map ban_banstr (bans_in l ch') = rb_strndup msk BANLEN # map ban_banstr (bans_in l ch)"
        by (simp add: ch' allocate_ban_def)
      ultimately show ?thesis using eff [of ch' MODE_ADD msk] ch' by (simp add: core_def) blast
    qed
  next
    case del
    obtain v ch1 where d1: "del_id ch (Some msk) l (ca_mode_type ca) = (v, ch1)" by fastforce
    obtain v2 ch2 where d2: "(if v = 0 then del_id ch1 (Some raw) l (ca_mode_type ca) else (0, ch1)) = (v2, ch2)" by fastforce
    let ?a = "if v = 0 \<and> v2 \<noteq> 0 then raw else msk"
    have c: "core st' = (set_channel (ca_chptr ca) ch2 (st_w st), st_changes st @
        [(Fixed, mk_change (ca_c ca) MODE_DEL caps (ban_mems env (ca_mode_type ca) MODE_DEL) None (Some ?a))], st_limitstr st)"
      using r del d1 d2 by (auto simp: change_ban_def Let_def core_def add_change_def split: if_splits)
    have "(ch2 = ch \<or> (\<exists>mt bs. ch2 = bump_serial mt (set_bans l bs ch))) \<and>
        map ban_banstr (bans_in l ch2) = (if ?a = [] then map ban_banstr (bans_in l ch) else del_mask ?a (map ban_banstr (bans_in l ch)))"
    proof (cases "v = 0 \<and> v2 \<noteq> 0")
      case True
      then have "ch1 = ch" using del_id_none d1 by blast
      then show ?thesis using True d2 del_id_masks [of ch raw l "ca_mode_type ca" v2 ch2] by simp
    next
      case False
      then have "ch2 = ch1" using d2 del_id_none by (auto split: if_splits)
      then show ?thesis using False del_id_masks [OF d1] by (simp only: if_False)
    qed
    then show ?thesis using eff [of ch2 MODE_DEL ?a] c dirs_differ unfolding core_def by (simp only: if_False)
  next
    case other
    then show ?thesis using r by (simp add: change_ban_def)
  qed
qed

lemma ban_effect:
  assumes r: "chm_ban env ca st = Some st'" and x: "letter_list (ca_c ca) = Some l" "mode_of l = ca_mode_type ca"
  shows "mode_effect (ca_chptr ca) (core st) (core st')"
proof -
  obtain e r1 r2 caps where k: "ban_kind (ca_mode_type ca) = Some (l, e, r1, r2, caps)"
    using x(2) by (cases l) (auto simp: ban_kind_def CHFL_BAN_def CHFL_EXCEPTION_def CHFL_INVEX_def)
  obtain ch where ch: "cw_channels (st_w st) (ca_chptr ca) = Some ch" using r k by (auto simp: chm_ban_def split: Option.bind_splits)
  obtain over st1 where o: "over_limit (ca_src ca) MAXMODEPARAMS st = (over, st1)" by fastforce
  have c1: "core st1 = core st" by (rule core_over_limit [OF o])
  have "mode_effect (ca_chptr ca) (core st) (core st')" if "change_ban env ca ch l caps raw msk st2 = Some st'" "core st2 = core st" for raw msk st2
    using change_ban_effect [OF _ x(1) that(1)] that(2) ch core_w [OF that(2)] by simp
  then show ?thesis using r k ch o c1 by (auto simp: chm_ban_def Let_def split: Option.bind_splits if_splits)
qed

section \<open>The table by letters\<close>

definition entry_at :: "nat \<Rightarrow> handler \<times> int \<times> bool" where
  "entry_at n =
     (if n = 9 then (chm_ban, CHFL_INVEX, False) else if n = 19 then (chm_sslonly, uint MODE_SSLONLY, False)
      else if n = 34 then (chm_ban, CHFL_BAN, False) else if n = 37 then (chm_ban, CHFL_EXCEPTION, False)
      else if n = 40 then (chm_halfop, 0, False) else if n = 41 then (chm_simple, uint MODE_INVITEONLY, False)
      else if n = 43 then (chm_key, 0, False) else if n = 44 then (chm_limit, 0, False)
      else if n = 45 then (chm_simple, uint MODE_MODERATED, True) else if n = 46 then (chm_simple, uint MODE_NOPRIVMSGS, True)
      else if n = 47 then (chm_op, 0, False) else if n = 48 then (chm_simple, uint MODE_PRIVATE, False)
      else if n = 50 then (chm_regonly, 0, False) else if n = 51 then (chm_simple, uint MODE_SECRET, False)
      else if n = 52 then (chm_simple, uint MODE_TOPICLIMIT, True) else if n = 54 then (chm_voice, 0, False)
      else if n = 56 then (chm_simple, uint MODE_SPAMPLEASE, False) else nosuch_entry)"

lemma ModeTable_entries: "ModeTable = map entry_at [0..<59]"
  by (simp add: ModeTable_def upt_rec entry_at_def numeral_eq_Suc)

lemma table_entry: "ModeTable ! table_position c = entry_at (table_position c)"
  using table_position_less [of c] unfolding ModeTable_entries by simp

lemma position_letter:
  assumes "65 \<le> code d" "code d \<le> 122"
  shows "table_position c = code d - 64 \<longleftrightarrow> c = d"
proof -
  have "(if n < 65 \<or> n > 122 then 0 else n - 65 + 1) = k - 64 \<longleftrightarrow> n = k" if "65 \<le> k" "k \<le> 122" for n k :: nat
    using that by auto
  from this [OF assms, of "code c"] show ?thesis by (simp only: table_position_def char_eq_code)
qed

lemma positions:
  "table_position c = 9 \<longleftrightarrow> c = CHR ''I''" "table_position c = 19 \<longleftrightarrow> c = CHR ''S''" "table_position c = 34 \<longleftrightarrow> c = CHR ''b''"
  "table_position c = 37 \<longleftrightarrow> c = CHR ''e''" "table_position c = 40 \<longleftrightarrow> c = CHR ''h''" "table_position c = 41 \<longleftrightarrow> c = CHR ''i''"
  "table_position c = 43 \<longleftrightarrow> c = CHR ''k''" "table_position c = 44 \<longleftrightarrow> c = CHR ''l''" "table_position c = 45 \<longleftrightarrow> c = CHR ''m''"
  "table_position c = 46 \<longleftrightarrow> c = CHR ''n''" "table_position c = 47 \<longleftrightarrow> c = CHR ''o''" "table_position c = 48 \<longleftrightarrow> c = CHR ''p''"
  "table_position c = 50 \<longleftrightarrow> c = CHR ''r''" "table_position c = 51 \<longleftrightarrow> c = CHR ''s''" "table_position c = 52 \<longleftrightarrow> c = CHR ''t''"
  "table_position c = 54 \<longleftrightarrow> c = CHR ''v''" "table_position c = 56 \<longleftrightarrow> c = CHR ''x''"
  using position_letter [of "CHR ''I''" c] position_letter [of "CHR ''S''" c] position_letter [of "CHR ''b''" c] position_letter [of "CHR ''e''" c] position_letter [of "CHR ''h''" c]
    position_letter [of "CHR ''i''" c] position_letter [of "CHR ''k''" c] position_letter [of "CHR ''l''" c] position_letter [of "CHR ''m''" c] position_letter [of "CHR ''n''" c]
    position_letter [of "CHR ''o''" c] position_letter [of "CHR ''p''" c] position_letter [of "CHR ''r''" c] position_letter [of "CHR ''s''" c] position_letter [of "CHR ''t''" c]
    position_letter [of "CHR ''v''" c] position_letter [of "CHR ''x''" c]
  by simp_all

lemma entry_letters:
  "ModeTable ! table_position c = (f, mt, hf) \<Longrightarrow>
   (f = chm_simple \<and> letter_bit c = word_of_int mt \<and> letter_bit c \<noteq> 0) \<or> (f = chm_ban \<and> (\<exists>l. letter_list c = Some l \<and> mode_of l = mt)) \<or>
   (f = chm_op \<and> c = CHR ''o'') \<or> (f = chm_halfop \<and> c = CHR ''h'') \<or> (f = chm_voice \<and> c = CHR ''v'') \<or> (f = chm_limit \<and> c = CHR ''l'') \<or>
   (f = chm_key \<and> c = CHR ''k'') \<or> (f = chm_regonly \<and> c = CHR ''r'') \<or> (f = chm_sslonly \<and> c = CHR ''S'') \<or> f = chm_nosuch"
  unfolding table_entry entry_at_def positions nosuch_entry_def
  by (auto simp: letter_bit_def letter_list_def MODE_INVITEONLY_def MODE_MODERATED_def MODE_NOPRIVMSGS_def MODE_PRIVATE_def
      MODE_SECRET_def MODE_TOPICLIMIT_def MODE_SPAMPLEASE_def split: if_splits)

lemma mode_char_effect:
  assumes ok: "cworld_ok (st_w st)" and r: "mode_char env ca st = Some st'"
  shows "mode_effect (ca_chptr ca) (core st) (core st')"
proof -
  obtain f mt hf where e: "ModeTable ! table_position (ca_c ca) = (f, mt, hf)" by (cases "ModeTable ! table_position (ca_c ca)")
  let ?ca = "ca\<lparr>ca_mode_type := mt, ca_halfop := hf\<rparr>"
  have f: "f env ?ca st = Some st'" using r e by (simp add: mode_char_def)
  have "chm_nosuch env ?ca st = Some st' \<Longrightarrow> core st' = core st" by (auto simp: chm_nosuch_def split: if_splits)
  then show ?thesis
    using entry_letters [OF e] f simple_effect [of env ?ca st st'] ban_effect [of env ?ca st st'] limit_effect [of env ?ca st st'] key_effect [of env ?ca st st']
      regonly_effect [of env ?ca st st'] sslonly_effect [of env ?ca st st'] status_handlers [OF ok, of env ?ca st']
    by (elim disjE conjE exE) simp_all
qed

section \<open>The recorded changes tell the whole command\<close>

text \<open>No two registered clients have the same nick.\<close>

definition nicks_unique :: "cworld \<Rightarrow> bool" where
  "nicks_unique w \<longleftrightarrow> (\<forall>p q c d. cw_clients w p = Some c \<longrightarrow> cw_clients w q = Some d \<longrightarrow>
     IsClient c \<longrightarrow> IsClient d \<longrightarrow> cl_name c = cl_name d \<longrightarrow> p = q)"

definition told_whole :: "ptr \<Rightarrow> mode_view \<Rightarrow> mode_core \<Rightarrow> bool" where
  "told_whole chp v s \<longleftrightarrow> (case s of (w, cs, lim) \<Rightarrow> cworld_ok w \<and> nicks_unique w \<and> refs_ok cs \<and>
     (\<exists>ch. cw_channels w chp = Some ch \<and> view_channel ch (holders chp w) = recorded_view v ch lim cs))"

lemma view_channel_mode:
  "view_channel (ch\<lparr>ch_mode := (ch_mode ch)\<lparr>md_mode := b\<rparr>\<rparr>) h = (view_channel ch h)\<lparr>vw_bits := b\<rparr>"
  "view_channel (ch\<lparr>ch_mode := (ch_mode ch)\<lparr>md_limit := n\<rparr>\<rparr>) h = (view_channel ch h)\<lparr>vw_limit := if n = 0 then [] else int_str n\<rparr>"
  "view_channel (ch\<lparr>ch_mode := (ch_mode ch)\<lparr>md_key := k\<rparr>\<rparr>) h = (view_channel ch h)\<lparr>vw_key := k\<rparr>"
proof -
  have "bans_in l (ch\<lparr>ch_mode := md\<rparr>) = bans_in l ch" for l md by (cases l) simp_all
  then show "view_channel (ch\<lparr>ch_mode := (ch_mode ch)\<lparr>md_mode := b\<rparr>\<rparr>) h = (view_channel ch h)\<lparr>vw_bits := b\<rparr>"
    "view_channel (ch\<lparr>ch_mode := (ch_mode ch)\<lparr>md_limit := n\<rparr>\<rparr>) h = (view_channel ch h)\<lparr>vw_limit := if n = 0 then [] else int_str n\<rparr>"
    "view_channel (ch\<lparr>ch_mode := (ch_mode ch)\<lparr>md_key := k\<rparr>\<rparr>) h = (view_channel ch h)\<lparr>vw_key := k\<rparr>"
    by (simp_all add: view_channel_def)
qed

lemma view_fields: "vw_bits (view_channel ch h) = md_mode (ch_mode ch)" "vw_masks (view_channel ch h) l = map ban_banstr (bans_in l ch)"
  "vw_status (view_channel ch h) = h"
  by (simp_all add: view_channel_def)

lemma holders_set_channel [simp]: "holders chp (set_channel p ch w) = holders chp w"
  by (simp add: holders_def fun_eq_iff)

lemma nicks_unique_frame [simp]:
  "nicks_unique (set_channel p ch w) = nicks_unique w" "nicks_unique (w\<lparr>cw_members := ms\<rparr>) = nicks_unique w"
  by (simp_all add: nicks_unique_def)

lemma cworld_ok_mode: "cworld_ok w \<Longrightarrow> cw_channels w p = Some ch \<Longrightarrow> cworld_ok (set_channel p (ch\<lparr>ch_mode := md\<rparr>) w)"
  by (rule cworld_ok_list_change) simp_all

lemma view_channel_bans:
  assumes "ch' = ch \<or> (\<exists>mt bs. ch' = bump_serial mt (set_bans l bs ch))"
  shows "view_channel ch' h = (view_channel ch h)\<lparr>vw_masks := (vw_masks (view_channel ch h))(l := map ban_banstr (bans_in l ch'))\<rparr>"
    "cworld_ok w \<Longrightarrow> cw_channels w p = Some ch \<Longrightarrow> cworld_ok (set_channel p ch' w)" "md_key (ch_mode ch') = md_key (ch_mode ch)"
proof -
  have m: "ch_mode ch' = ch_mode ch" using assms by (cases l) (auto simp: bump_serial_def)
  have "bans_in l' ch' = bans_in l' ch" if "l' \<noteq> l" for l' using assms that by auto
  then show "view_channel ch' h = (view_channel ch h)\<lparr>vw_masks := (vw_masks (view_channel ch h))(l := map ban_banstr (bans_in l ch'))\<rparr>"
    using m by (auto simp: view_channel_def fun_eq_iff)
  show "cworld_ok w \<Longrightarrow> cw_channels w p = Some ch \<Longrightarrow> cworld_ok (set_channel p ch' w)"
    using assms by (auto intro!: cworld_ok_list_change [of w p ch])
  show "md_key (ch_mode ch') = md_key (ch_mode ch)" using m by simp
qed

lemma holders_set_flags:
  assumes ok: "cworld_ok w" and u: "nicks_unique w" and m: "cw_members w mp = Some m" "ms_chptr m = chp" and t: "cw_clients w (ms_client_p m) = Some t"
    and f: "f AND letter_flag x \<noteq> 0 \<longleftrightarrow> add" "\<And>y. y \<noteq> x \<Longrightarrow> f AND letter_flag y = ms_flags m AND letter_flag y"
  shows "holders chp (w\<lparr>cw_members := (cw_members w)(mp \<mapsto> m\<lparr>ms_flags := f\<rparr>)\<rparr>) =
    (holders chp w)(x := if add then insert (cl_name t) (holders chp w x) else holders chp w x - {cl_name t})" (is "holders chp ?w = ?h")
proof
  fix y
  have uq: "p = mp" if "cw_members w p = Some m'" "ms_chptr m' = chp" "cw_clients w (ms_client_p m') = Some c" "cl_name c = cl_name t" for p m' c
  proof -
    have "IsClient c" "IsClient t" using membership_live [OF ok that(1)] membership_live [OF ok m(1)] that(3) t by auto
    then have "ms_client_p m' = ms_client_p m" using u t that(3,4) unfolding nicks_unique_def by blast
    then show ?thesis using cworld_okD(4) [OF ok] that(1,2) m unfolding mem_unique_def by metis
  qed
  have mem: "n \<in> holders chp ?w y \<longleftrightarrow> (n = cl_name t \<and> f AND letter_flag y \<noteq> 0) \<or>
      (\<exists>p m' c. p \<noteq> mp \<and> n = cl_name c \<and> cw_members w p = Some m' \<and> ms_chptr m' = chp \<and> cw_clients w (ms_client_p m') = Some c \<and> ms_flags m' AND letter_flag y \<noteq> 0)" for n
    unfolding holders_def using m t by (auto split: if_splits)
  have old: "n \<in> holders chp w y \<longleftrightarrow> (n = cl_name t \<and> ms_flags m AND letter_flag y \<noteq> 0) \<or>
      (\<exists>p m' c. p \<noteq> mp \<and> n = cl_name c \<and> cw_members w p = Some m' \<and> ms_chptr m' = chp \<and> cw_clients w (ms_client_p m') = Some c \<and> ms_flags m' AND letter_flag y \<noteq> 0)" for n
  proof
    assume "n \<in> holders chp w y"
    then obtain p m' c where "n = cl_name c" "cw_members w p = Some m'" "ms_chptr m' = chp" "cw_clients w (ms_client_p m') = Some c"
      "ms_flags m' AND letter_flag y \<noteq> 0" by (auto simp: holders_def)
    then show "(n = cl_name t \<and> ms_flags m AND letter_flag y \<noteq> 0) \<or>
      (\<exists>p m' c. p \<noteq> mp \<and> n = cl_name c \<and> cw_members w p = Some m' \<and> ms_chptr m' = chp \<and> cw_clients w (ms_client_p m') = Some c \<and> ms_flags m' AND letter_flag y \<noteq> 0)"
      using m(1) t by (cases "p = mp") (simp, blast)
  qed (use m t in \<open>auto simp: holders_def\<close>)
  show "holders chp ?w y = ?h y"
  proof (cases "y = x")
    case True
    then show ?thesis using mem old f(1) uq by (auto simp: set_eq_iff)
  next
    case False
    then show ?thesis using mem old f(2) [OF False] by (auto simp: set_eq_iff)
  qed
qed

lemma refs_simps [simp]: "mc_letter (mk_change x d caps mems i a) = x" "mc_dir (mk_change x d caps mems i a) = d" "mc_arg (mk_change x d caps mems i a) = a"
  by (simp_all add: mk_change_def)

lemma told_whole_effect:
  assumes "mode_effect chp s s'" "told_whole chp v s"
  shows "told_whole chp v s'"
  using assms
proof (induction rule: mode_effect.induct)
  case (bits x w ch b d cs lim caps mems)
  then have i: "cworld_ok w" "nicks_unique w" "refs_ok cs" "view_channel ch (holders chp w) = recorded_view v ch lim cs"
    by (auto simp: told_whole_def)
  have k: "recorded_view v (ch\<lparr>ch_mode := (ch_mode ch)\<lparr>md_mode := b\<rparr>\<rparr>) lim cs = recorded_view v ch lim cs" for b
    by (rule recorded_view_same_key) simp
  show ?case
    using bits(1-3) i(1-3) by (auto simp: told_whole_def cworld_ok_mode view_channel_mode k resolve_def read_change_def view_fields simp flip: i(4))
next
  case (limit n w ch cs lim caps mems)
  have "recorded_view v (ch\<lparr>ch_mode := (ch_mode ch)\<lparr>md_limit := n\<rparr>\<rparr>) (int_str n) cs = recorded_view v ch (int_str n) cs"
    by (rule recorded_view_same_key) simp
  then show ?case
    using limit recorded_view_limit [where cs = cs and v = v and ch = ch and lim = lim and lim' = "int_str n" and x = "int_str n"]
    by (auto simp: told_whole_def cworld_ok_mode view_channel_mode resolve_def read_change_def letter_l)
next
  case (unlimit w ch cs lim caps mems)
  then show ?case
    by (auto simp: told_whole_def cworld_ok_mode view_channel_mode recorded_view_same_key [of "ch\<lparr>ch_mode := (ch_mode ch)\<lparr>md_limit := 0\<rparr>\<rparr>" ch] resolve_def read_change_def letter_l dirs_differ)
next
  case (key w ch cs lim k caps mems)
  then show ?case
    using recorded_view_key [where cs = cs and v = v and ch' = "ch\<lparr>ch_mode := (ch_mode ch)\<lparr>md_key := k\<rparr>\<rparr>" and lim = lim and x = k and ch = ch]
    by (auto simp: told_whole_def cworld_ok_mode view_channel_mode resolve_def read_change_def letter_k)
next
  case (unkey w ch cs lim caps mems a)
  then show ?case
    using recorded_view_key [where cs = "splat_keys cs" and v = v and ch' = "ch\<lparr>ch_mode := (ch_mode ch)\<lparr>md_key := []\<rparr>\<rparr>" and lim = lim and x = "[]" and ch = ch]
      recorded_view_splat [where cs = cs and v = v and ch = ch and lim = lim and x = "[]"]
    by (auto simp: told_whole_def cworld_ok_mode view_channel_mode resolve_def read_change_def letter_k refs_ok_splat dirs_differ)
next
  case (masks x l w ch ch' d a cs lim caps mems)
  have x: "letter_bit x = 0" "x \<noteq> CHR ''l''" "x \<noteq> CHR ''k''" using masks(1) by (auto simp: letter_list_def letter_bit_def split: if_splits)
  note v = view_channel_bans [OF masks(3)]
  have i: "cworld_ok w" "nicks_unique w" "refs_ok cs" "recorded_view v ch lim cs = view_channel ch (holders chp w)"
    using masks by (auto simp: told_whole_def)
  have k: "recorded_view v ch' lim cs = view_channel ch (holders chp w)"
    unfolding i(4) [symmetric] by (rule recorded_view_same_key [OF v(3)])
  have "view_channel ch' (holders chp w) = read_change (mk_change x d caps mems None (Some a)) (view_channel ch (holders chp w))"
    using x masks(1,4) by (simp add: v(1) read_change_def view_fields)
  then show ?case
    using masks(1) x i(1-3) v(2) [OF i(1) masks(2)] by (simp add: told_whole_def k resolve_def)
next
  case (status x w mp m ch t f d cs lim caps mems i)
  have x: "letter_bit x = 0" "x \<noteq> CHR ''l''" "x \<noteq> CHR ''k''" "letter_list x = None" "letter_flag x \<noteq> 0"
    using status(1) by (auto simp: letter_list_def letter_bit_def letter_flag_def CHFL_CHANOP_def CHFL_HALFOP_def CHFL_VOICE_def)
  have sp: "same_pairs (cw_members w) ((cw_members w)(mp \<mapsto> m\<lparr>ms_flags := f\<rparr>))" using status(2) by (simp add: same_pairs_def)
  have i: "cworld_ok w" "nicks_unique w" "refs_ok cs" "view_channel ch (holders chp w) = recorded_view v ch lim cs"
    using status by (auto simp: told_whole_def)
  note h = holders_set_flags [OF i(1,2) status(2,3,5,6,7)]
  have "view_channel ch (h(x := s)) = (view_channel ch h)\<lparr>vw_status := (vw_status (view_channel ch h))(x := s)\<rparr>" for h s
    by (simp add: view_channel_def)
  then show ?case
    using status(4) i x cworld_ok_pairs [OF i(1) sp]
    by (auto simp: told_whole_def h resolve_def read_change_def simp flip: i(4)) (auto simp: view_channel_def)
qed simp

lemma mode_loop_told:
  "mode_loop env ca ml st = Some st' \<Longrightarrow> told_whole (ca_chptr ca) v (core st) \<Longrightarrow> told_whole (ca_chptr ca) v (core st')"
proof (induction ml arbitrary: ca st)
  case (Cons c ml)
  show ?case
  proof (cases "c \<in> {CHR ''+'', CHR ''-'', CHR ''=''}")
    case True
    then show ?thesis using Cons.prems Cons.IH [of "ca\<lparr>ca_dir := MODE_ADD\<rparr>" st] Cons.IH [of "ca\<lparr>ca_dir := MODE_DEL\<rparr>" st]
        Cons.IH [of "ca\<lparr>ca_dir := MODE_QUERY\<rparr>" st]
      by (auto split: if_splits)
  next
    case False
    then obtain st1 where s: "mode_char env (ca\<lparr>ca_c := c\<rparr>) st = Some st1" "mode_loop env ca ml st1 = Some st'"
      using Cons.prems(1) by (auto split: Option.bind_splits)
    have "cworld_ok (st_w st)" using Cons.prems(2) by (simp add: told_whole_def core_def)
    from mode_char_effect [OF this s(1)] have "told_whole (ca_chptr ca) v (core st1)" using told_whole_effect Cons.prems(2) by simp
    then show ?thesis using Cons.IH s(2) by blast
  qed
qed simp

lemma mode_changes_told:
  assumes ok: "cworld_ok w" "nicks_unique w" and ch: "cw_channels w chptr = Some ch0"
    and loop: "mode_loop env (mode_call source_p src chptr m parv) modes (mode_start w) = Some st" and ch': "cw_channels (st_w st) chptr = Some ch"
  shows "modes_seen chptr (st_w st) = map_option (read_changes (map (resolve ch (st_limitstr st)) (st_changes st))) (modes_seen chptr w)"
proof -
  let ?v = "view_channel ch0 (holders chptr w)"
  have "told_whole chptr ?v (core (mode_start w))" using ok ch by (simp add: told_whole_def core_def mode_start_def refs_ok_def)
  then have "told_whole chptr ?v (core st)" using mode_loop_told [OF loop] by (simp add: mode_call_def)
  then show ?thesis using ch ch' by (simp add: told_whole_def core_def modes_seen_def recorded_view_def)
qed

end
