(* ===== verification/Mode_Told.thy ===== *)
theory Mode_Told
  imports Mode_Replay
begin

text \<open>
  What \<^verbatim>\<open>set_channel_mode\<close> announces: the changes it has made, no more and no less, reach the members, the channel
  operators and every linked server, each in the form its capabilities ask for.  The second part is a concrete operator
  on which the properties of the MODE command are evaluated.
\<close>

section \<open>The number of changes\<close>

lemma add_change_len: "add_change r c st = Some st' \<Longrightarrow> length (st_changes st') \<le> Suc (length (st_changes st))"
  by (auto simp: add_change_def split: if_splits)

lemma changes_frame:
  "set_mode chp f st = Some st' \<Longrightarrow> st_changes st' = st_changes st"
  "set_flags mp g st = Some st' \<Longrightarrow> st_changes st' = st_changes st"
  "over_limit s k st = (ov, st') \<Longrightarrow> st_changes st' = st_changes st"
  by (auto simp: set_mode_def set_flags_def over_limit_def split: if_splits Option.bind_splits)

lemma target_changes: "mode_target env ca ch st = Some (st', t) \<Longrightarrow> st_changes st' = st_changes st"
  by (auto simp: mode_target_def Let_def changes_frame split: Option.bind_splits option.splits if_splits prod.splits)

lemma grow_handler:
  assumes e: "(f, mt, hf) \<in> set ModeTable" and r: "f env ca st = Some st'"
  shows "length (st_changes st') \<le> Suc (length (st_changes st))"
proof -
  note sp = Option.bind_splits option.splits if_splits prod.splits
  note fr = changes_frame target_changes
  have simple: ?thesis if "f = chm_simple"
    using r unfolding that chm_simple_def Let_def
    by (auto simp: fr split: sp dest!: add_change_len)
  have op: ?thesis if "f = chm_op"
    using r unfolding that chm_op_def Let_def
    by (auto simp: fr split: sp dest!: add_change_len)
  have halfop: ?thesis if "f = chm_halfop"
    using r unfolding that chm_halfop_def Let_def
    by (auto simp: fr split: sp dest!: add_change_len)
  have voice: ?thesis if "f = chm_voice"
    using r unfolding that chm_voice_def Let_def
    by (auto simp: fr split: sp dest!: add_change_len)
  have limit: ?thesis if "f = chm_limit"
    using r unfolding that chm_limit_def Let_def
    by (auto simp: fr split: sp dest!: add_change_len)
  have key: ?thesis if "f = chm_key"
    using r unfolding that chm_key_def Let_def splat_keys_def
    by (auto simp: fr split: sp dest!: add_change_len)
  have toggle: ?thesis if "f = chm_regonly \<or> f = chm_sslonly"
    using r that unfolding chm_regonly_def chm_sslonly_def toggle_mode_def
    by (auto simp: fr split: sp dest!: add_change_len)
  have ban: ?thesis if "f = chm_ban"
    using r unfolding that chm_ban_def change_ban_def Let_def
    by (auto simp: fr split: sp dest!: add_change_len)
  show ?thesis
    using e r simple op halfop voice limit key toggle ban unfolding set_ModeTable
    by (auto simp: chm_nosuch_def split: if_splits)
qed

lemma mode_loop_len:
  "mode_loop env ca ml st = Some st' \<Longrightarrow> length (st_changes st') \<le> length (st_changes st) + length ml"
proof (induction ml arbitrary: ca st)
  case (Cons c ml)
  obtain f mt hf where e: "(f, mt, hf) \<in> set ModeTable"
    "\<And>env ca st. mode_char env (ca\<lparr>ca_c := c\<rparr>) st = f env (ca\<lparr>ca_c := c, ca_mode_type := mt, ca_halfop := hf\<rparr>) st"
    using mode_char_entry [of c] by metis
  show ?case
  proof (cases "c \<in> {CHR ''+'', CHR ''-'', CHR ''=''}")
    case True
    then show ?thesis using Cons by (fastforce split: if_splits)
  next
    case False
    then obtain st1 where s: "f env (ca\<lparr>ca_c := c, ca_mode_type := mt, ca_halfop := hf\<rparr>) st = Some st1"
      "mode_loop env ca ml st1 = Some st'"
      using Cons.prems by (auto simp: e(2) split: Option.bind_splits)
    show ?thesis using grow_handler [OF e(1) s(1)] Cons.IH [OF s(2)] by simp
  qed
qed simp

lemma mode_loop_sendable:
  assumes "mode_loop env (mode_call source_p src chptr m parv) ml (mode_start w) = Some st"
  shows "all_sendable st"
proof (rule mode_loop_inv [OF _ _ _ _ assms, of "mode_call source_p src chptr m parv"])
  show "all_sendable (mode_start w)" by (simp add: all_sendable_def mode_start_def)
  fix f mt hf ca' st st'
  assume "(f, mt, hf) \<in> set ModeTable" "letter_call ca'" "all_sendable st" "f env ca' st = Some st'"
  then show "all_sendable st'" by (rule sendable_handler)
qed (simp_all add: mode_call_def)

lemma resolve_sendable: "sendable (snd rc) \<Longrightarrow> sendable (resolve ch l rc)"
  by (cases rc) (auto simp: resolve_def sendable_def proper_change_def split: arg_ref.splits)

definition announced :: "ptr \<Rightarrow> mstate \<Rightarrow> ChModeChange list" where
  "announced chptr st =
     (case cw_channels (st_w st) chptr of None \<Rightarrow> [] | Some ch \<Rightarrow> map (resolve ch (st_limitstr st)) (st_changes st))"

text \<open>
  C9: What set_channel_mode records is what it changes, and what it announces is what it records.
  When the mode string has been worked through, reading the recorded changes one after the other
  turns the view of the channel before the command (mode bits, limit, key, the masks of the three
  lists, the nicks with each status) into the view after it. The lines to the members, to the
  channel operators and, for a local source, to every linked server then spell exactly the
  recorded changes that group may see, in order, each server's in the form its capabilities ask
  for (ids and TMODE, or names and MODE); none is lost or told twice where lines break. A change
  whose argument is longer than MODEBUFLEN - 5 = 195 bytes is recorded but told to nobody.
  Conditions: the headers have at most 310 bytes and leave two bytes per mode letter below
  BUFSIZE, nicks are unique and the invariant of the channel lists holds.
\<close>

theorem mode_told:
  assumes src: "cw_clients w source_p = Some src"
      "(case msptr of None \<Rightarrow> Some None | Some mp \<Rightarrow> map_option Some (cw_members w mp)) = Some m"
    and loop: "mode_loop env (mode_call source_p src chptr m (modes # args)) modes (mode_start w) = Some st"
    and ok: "cworld_ok w" "nicks_unique w" "cw_channels w chptr = Some ch0"
    and ch: "cw_channels (st_w st) chptr = Some ch"
    and us: "reachable chcap_init chcap_step (us, me_combos env)"
    and hdr: "length (mode_header src ch) \<le> 310" "length (mode_header src ch) + 2 * length modes < BUFSIZE"
      "\<And>cap. length (server_header src ch cap) \<le> 310" "\<And>cap. length (server_header src ch cap) + 2 * length modes < BUFSIZE"
  shows "\<exists>res. set_channel_mode env source_p chptr msptr (modes # args) w = Some res \<and> mr_w res = st_w st \<and>
    modes_seen chptr (mr_w res) = map_option (read_changes (announced chptr st)) (modes_seen chptr w) \<and>
    (\<exists>gs. list_all2 (tells (mode_header src ch)) (mr_all res) gs \<and>
       concat gs = map (\<lambda>c. (c, mc_arg c)) (filter (local_told ALL_MEMBERS) (announced chptr st))) \<and>
    (\<exists>gs. list_all2 (tells (mode_header src ch)) (mr_ops res) gs \<and>
       concat gs = map (\<lambda>c. (c, mc_arg c)) (filter (local_told ONLY_CHANOPS) (announced chptr st))) \<and>
    (MyClient src \<longrightarrow> (\<forall>u \<in> set us. st_changes st \<noteq> [] \<longrightarrow>
       (\<exists>y n ls gs. filter (\<lambda>(y, n, ls). IsCapable u y \<and> NotCapable u n) (mr_servers res) = [(y, n, ls)] \<and>
         list_all2 (tells (server_header src ch (lu_caps u))) ls gs \<and>
         concat gs = map (\<lambda>c. (c, server_arg (lu_caps u) c)) (filter (server_told (lu_caps u) 0) (announced chptr st)))))"
proof (cases "st_changes st = []")
  case True
  then show ?thesis using src loop ch mode_changes_told [OF ok loop ch] by (auto simp: set_channel_mode_def mode_tell_def announced_def)
next
  case False
  let ?cs = "announced chptr st" and ?pre = "mode_header src ch"
  have cs: "?cs = map (resolve ch (st_limitstr st)) (st_changes st)" using ch by (simp add: announced_def)
  have send: "sendable c" if "c \<in> set ?cs" for c
    using that mode_loop_sendable [OF loop] resolve_sendable by (auto simp: cs all_sendable_def)
  have len: "length ?cs \<le> length modes" using mode_loop_len [OF loop] by (simp add: cs mode_start_def)
  have proper: "c \<in> set ?cs \<Longrightarrow> proper_change c" for c using send by (simp add: sendable_def)
  note tell = local_lines_tell [OF hdr(1) _ proper]
  obtain alls ags where a: "local_lines ?pre ALL_MEMBERS ?cs = Some alls" "list_all2 (tells ?pre) alls ags"
    "concat ags = map (\<lambda>c. (c, mc_arg c)) (filter (local_told ALL_MEMBERS) ?cs)"
    using tell [of ?cs ALL_MEMBERS] hdr(2) len by fastforce
  obtain ops ogs where o: "local_lines ?pre ONLY_CHANOPS ?cs = Some ops" "list_all2 (tells ?pre) ops ogs"
    "concat ogs = map (\<lambda>c. (c, mc_arg c)) (filter (local_told ONLY_CHANOPS) ?cs)"
    using tell [of ?cs ONLY_CHANOPS] hdr(2) len by fastforce
  have "length (server_header src ch cap) + 2 * length ?cs < BUFSIZE" for cap using hdr(4) [of cap] len by linarith
  from servers_told [OF us hdr(3) this send] obtain servs where s: "send_cap_mode_changes (me_combos env) src ch ?cs = Some servs"
    "\<forall>u \<in> set us. \<exists>y n ls gs. filter (\<lambda>(y, n, ls). IsCapable u y \<and> NotCapable u n) servs = [(y, n, ls)] \<and>
         list_all2 (tells (server_header src ch (lu_caps u))) ls gs \<and>
         concat gs = map (\<lambda>c. (c, server_arg (lu_caps u) c)) (filter (server_told (lu_caps u) 0) ?cs)"
    by blast
  have "set_channel_mode env source_p chptr msptr (modes # args) w =
      Some \<lparr>mr_w = st_w st, mr_out = st_out st, mr_all = alls, mr_ops = ops,
            mr_servers = (if MyClient src \<or> me_servers env > 1 then servs else [])\<rparr>"
    using src loop ch False hdr(1) a(1) o(1) s(1) by (simp add: set_channel_mode_def mode_tell_def cs BUFSIZE_def)
  then show ?thesis using a o s(2) mode_changes_told [OF ok loop ch] cs by auto
qed

section \<open>A concrete channel operator\<close>

definition sample_link :: LocalUser where "sample_link = zero_LocalUser\<lparr>lu_caps := CAP_TS6\<rparr>"

definition sample_env :: menv where
  "sample_env = \<lparr>me_name = ''irc.it'', me_now = 100, me_history = zero_history, me_max_bans = 25, me_use_except = True,
     me_use_invex = True, me_use_sslonly = True, me_combos = set_chcap_usage_counts sample_link init_chcap_usage_counts,
     me_servers = 1\<rparr>"

abbreviation sample_bob :: Client where "sample_bob \<equiv> sample_user\<lparr>cl_user := Some [7]\<rparr>"
abbreviation sample_it :: Channel where "sample_it \<equiv> sample_chan\<lparr>ch_members := [7], ch_locmembers := [7]\<rparr>"
abbreviation sample_op :: membership where "sample_op \<equiv> sample_member\<lparr>ms_flags := CHFL_CHANOP\<rparr>"

definition sample_opped :: cworld where
  "sample_opped = sample_joined\<lparr>cw_members := [7 \<mapsto> sample_op]\<rparr>"

lemma sample_opped_simps [simp]:
  "cw_clients sample_opped 1 = Some sample_bob" "cw_channels sample_opped 5 = Some sample_it" "cw_members sample_opped 7 = Some sample_op"
  "is_chanop sample_op" "MyClient sample_user" "is_chanop sample_member = False" "is_halfop sample_member = False"
  "md_mode (ch_mode sample_chan) = 0" "ch_chname sample_chan = ''#it''" "ch_ban_serial sample_chan = 0" "ch_channelts sample_chan = 100"
  using sample_user_local
  by (simp_all add: sample_opped_def sample_joined_def is_chanop_def is_halfop_def CHFL_CHANOP_def sample_member_def CHFL_PEON_def
      sample_chan_def allocate_channel_def zero_Channel_def rb_strndup_def rb_strlcpy_def CHANNELLEN_def)

lemma MyClient_user [simp]: "MyClient (c\<lparr>cl_user := u\<rparr>) = MyClient c"
  by (simp add: MyClient_def MyConnect_def IsClient_def)

lemma sample_opped_inv: "chan_inv ue sample_opped"
proof -
  have "chan_inv ue sample_joined" using chan_runs.inv_reachable [OF sample_reachable] by simp
  moreover have "cw_members sample_joined 7 = Some sample_member" by (simp add: sample_joined_def)
  moreover have "CHFL_CHANOP AND CHFL_BANNED = ms_flags sample_member AND CHFL_BANNED"
    by (simp add: sample_member_def CHFL_PEON_def CHFL_CHANOP_def CHFL_BANNED_def)
  ultimately have "chan_inv ue (sample_joined\<lparr>cw_members := (cw_members sample_joined)(7 \<mapsto> sample_op)\<rparr>)"
    by (rule set_flags_inv)
  then show ?thesis by (simp add: sample_opped_def sample_joined_def)
qed

lemma sample_header: "ch_chname ch = ''#it'' \<Longrightarrow> mode_header sample_bob ch = '':bob!b@h.it MODE #it ''"
  by (simp add: mode_header_def IsServer_def IsCloaked_def sample_user_def zero_Client_def STAT_CLIENT_def STAT_SERVER_def)

lemma sample_server_header:
  assumes "ch_chname ch = ''#it''" "ch_channelts ch = 100"
  shows "length (server_header sample_bob ch cap) \<le> 30"
proof -
  have "length (int_str 100) \<le> 3" using nat_str_length [of 100 3] by (simp add: int_str_def)
  then show ?thesis using assms by (simp add: server_header_def sample_user_def use_id_def zero_Client_def)
qed

lemma sample_linked: "reachable chcap_init chcap_step ([sample_link], me_combos sample_env)"
  using reachable_step [of chcap_init chcap_step "([], init_chcap_usage_counts)", OF _ link]
  by (simp add: reachable_init chcap_init_def sample_env_def)

lemma table_n: "ModeTable ! table_position (CHR ''n'') = (chm_simple, uint MODE_NOPRIVMSGS, True)"
  by (simp add: ModeTable_def table_position_def nth_append nosuch_entry_def)

text \<open>\<^verbatim>\<open>MODE #it n\<close>, from the operator.\<close>

definition sample_noext :: ChModeChange where
  "sample_noext = mk_change (CHR ''n'') MODE_ADD 0 ALL_MEMBERS None None"

definition sample_it_n :: Channel where
  "sample_it_n = sample_it\<lparr>ch_mode := (ch_mode sample_chan)\<lparr>md_mode := MODE_NOPRIVMSGS\<rparr>\<rparr>"

definition sample_moded :: mstate where
  "sample_moded = (mode_start (set_channel 5 sample_it_n sample_opped))\<lparr>st_changes := [(Fixed, sample_noext)], st_limit := 1\<rparr>"

lemma sample_loop:
  "mode_loop sample_env (mode_call 1 sample_bob 5 (Some sample_op) [''n'']) ''n'' (mode_start sample_opped) = Some sample_moded"
  by (simp add: mode_char_def table_n chm_simple_def mode_call_def get_channel_access_def mode_start_def over_limit_def MAXMODEPARAMS_def
      set_mode_def add_change_def BUFSIZE_def sample_moded_def sample_noext_def sample_it_n_def dir_defs)

lemma sample_it_n_simps [simp]: "ch_chname sample_it_n = ''#it''" "ch_channelts sample_it_n = 100"
  "cw_channels (st_w sample_moded) 5 = Some sample_it_n" "st_changes sample_moded = [(Fixed, sample_noext)]"
  by (simp_all add: sample_it_n_def sample_moded_def mode_start_def)

lemma sample_lengths:
  "length (mode_header sample_bob sample_it_n) \<le> 310" "length (mode_header sample_bob sample_it_n) + 2 * length ''n'' < BUFSIZE"
  "length (server_header sample_bob sample_it_n cap) \<le> 310" "length (server_header sample_bob sample_it_n cap) + 2 * length ''n'' < BUFSIZE"
  using sample_header [of sample_it_n] sample_server_header [of sample_it_n cap] by (simp_all add: BUFSIZE_def)

lemma sample_set: "\<exists>res. set_channel_mode sample_env 1 5 (Some 7) [''n''] sample_opped = Some res"
proof -
  have s: "sendable sample_noext" "proper_change sample_noext" by (simp_all add: sample_noext_def mk_change_sendable sendable_def proper_change_def mk_change_def)
  obtain a where a: "local_lines (mode_header sample_bob sample_it_n) ALL_MEMBERS [sample_noext] = Some a"
    using local_lines_tell [OF sample_lengths(1), of "[sample_noext]"] sample_lengths(2) s by fastforce
  obtain b where b: "local_lines (mode_header sample_bob sample_it_n) ONLY_CHANOPS [sample_noext] = Some b"
    using local_lines_tell [OF sample_lengths(1), of "[sample_noext]"] sample_lengths(2) s by fastforce
  obtain c where c: "send_cap_mode_changes (me_combos sample_env) sample_bob sample_it_n [sample_noext] = Some c"
    using servers_told [OF sample_linked sample_lengths(3), of "[sample_noext]"] sample_lengths(4) s by fastforce
  have "mode_tell sample_env sample_bob 5 sample_moded \<noteq> None"
    using a b c sample_lengths(1) by (simp add: mode_tell_def resolve_def Let_def BUFSIZE_def)
  then show ?thesis using sample_loop by (auto simp: set_channel_mode_def simp del: One_nat_def mode_loop.simps)
qed

section \<open>Instances\<close>

theorem peon_mode_witness:
  "\<exists>out. set_channel_mode sample_env 1 5 (Some 7) [''+n''] sample_joined =
    Some \<lparr>mr_w = sample_joined, mr_out = out, mr_all = [], mr_ops = [], mr_servers = []\<rparr>"
  by (intro peon_mode [where ch = sample_it and src = sample_bob]) (simp_all add: sample_joined_def)

theorem mode_keeps_invariant_witness:
  "\<exists>res. set_channel_mode sample_env 1 5 (Some 7) [''n''] sample_opped = Some res \<and> chan_inv True (mr_w res)"
proof -
  obtain res where r: "set_channel_mode sample_env 1 5 (Some 7) [''n''] sample_opped = Some res" using sample_set by blast
  have "uint (ch_ban_serial sample_it) + int (length [''n'']) < 2 ^ 32" by simp
  from mode_keeps_invariant [OF sample_opped_inv sample_opped_simps(2) this r] r show ?thesis by blast
qed

lemma sample_opped_nicks: "nicks_unique sample_opped"
  by (auto simp: nicks_unique_def sample_opped_def sample_joined_def sample_created_def sample_start_def split: if_splits)

theorem mode_told_witness:
  "\<exists>res. set_channel_mode sample_env 1 5 (Some 7) [''n''] sample_opped = Some res \<and> mr_w res = st_w sample_moded \<and>
    modes_seen 5 (mr_w res) = map_option (read_change sample_noext) (modes_seen 5 sample_opped) \<and>
    (\<exists>gs. list_all2 (tells '':bob!b@h.it MODE #it '') (mr_all res) gs \<and> concat gs = [(sample_noext, None)])"
proof -
  have a: "announced 5 sample_moded = [sample_noext]" by (simp add: announced_def resolve_def)
  moreover have "read_changes [sample_noext] = read_change sample_noext" by (simp add: read_changes_def fun_eq_iff)
  moreover have "local_told ALL_MEMBERS sample_noext" "mc_arg sample_noext = None"
    by (simp_all add: local_told_def sample_noext_def mk_change_def arglen_def NUL_def)
  moreover have "(case Some (7 :: nat) of None \<Rightarrow> Some None | Some mp \<Rightarrow> map_option Some (cw_members sample_opped mp)) = Some (Some sample_op)"
    by simp
  moreover have "cworld_ok sample_opped" using sample_opped_inv by (simp add: chan_inv_def)
  ultimately show ?thesis
    using mode_told [OF sample_opped_simps(1) _ sample_loop _ sample_opped_nicks sample_opped_simps(2) sample_it_n_simps(3) sample_linked sample_lengths, of "Some 7"]
      sample_header [of sample_it_n] by auto
qed

end
