(* ===== verification/Mode_Faults.thy ===== *)
theory Mode_Faults
  imports Mode_Told
begin

text \<open>
  Two lines of input on which \<^verbatim>\<open>set_channel_mode\<close> leaves its buffers; a local channel operator can send either.
\<close>

section \<open>Toggling without a limit\<close>

text \<open>\<^verbatim>\<open>chm_regonly\<close> does not count against \<^verbatim>\<open>mode_limit\<close>, and \<open>line_full\<close> looks at changes with a parameter only.\<close>

definition reg_change :: "int \<Rightarrow> arg_ref \<times> ChModeChange" where
  "reg_change d = (Fixed, mk_change (CHR ''r'') d CAP_SERVICE ALL_MEMBERS None None)"

fun toggles :: "nat \<Rightarrow> (arg_ref \<times> ChModeChange) list" where
  "toggles 0 = []"
| "toggles (Suc k) = reg_change MODE_ADD # reg_change MODE_DEL # toggles k"

fun toggle_string :: "nat \<Rightarrow> string" where
  "toggle_string 0 = []"
| "toggle_string (Suc k) = ''+r-r'' @ toggle_string k"

lemma toggle_facts: "length (toggle_string k) = 4 * k" "length (toggles k) = 2 * k"
  by (induction k) auto

lemma table_r: "ModeTable ! table_position (CHR ''r'') = (chm_regonly, 0, False)"
  by (simp add: ModeTable_def table_position_def nth_append nosuch_entry_def)

lemma regonly_step:
  assumes "cw_channels (st_w st) chp = Some ch" "ca_chptr ca = chp" "ca_alevel ca = CHFL_CHANOP" "ca_dir ca = d"
    and d: "d = MODE_ADD \<and> md_mode (ch_mode ch) AND MODE_REGONLY = 0 \<or> d = MODE_DEL \<and> md_mode (ch_mode ch) AND MODE_REGONLY \<noteq> 0"
    and "length (st_changes st) < BUFSIZE"
  obtains st' ch' where "mode_char env (ca\<lparr>ca_c := CHR ''r''\<rparr>) st = Some st'" "cw_channels (st_w st') chp = Some ch'"
    "md_mode (ch_mode ch') AND MODE_REGONLY = (if d = MODE_ADD then MODE_REGONLY else 0)"
    "st_changes st' = st_changes st @ [reg_change d]" "ch_chname ch' = ch_chname ch"
  using assms
  by (auto simp: mode_char_def table_r chm_regonly_def has_mode_def dir_defs toggle_mode_def set_mode_def add_change_def reg_change_def
      and.assoc bit.conj_disj_distrib2)

lemma toggle_run:
  assumes "cw_channels (st_w st) chp = Some ch" "ca_chptr ca = chp" "ca_alevel ca = CHFL_CHANOP"
    "md_mode (ch_mode ch) AND MODE_REGONLY = 0" "length (st_changes st) + 2 * k \<le> BUFSIZE"
  shows "\<exists>st' ch'. mode_loop env ca (toggle_string k) st = Some st' \<and> cw_channels (st_w st') chp = Some ch' \<and>
       ch_chname ch' = ch_chname ch \<and> st_changes st' = st_changes st @ toggles k"
  using assms
proof (induction k arbitrary: st ch ca)
  case (Suc k)
  let ?a = "ca\<lparr>ca_dir := MODE_ADD\<rparr>" and ?d = "ca\<lparr>ca_dir := MODE_DEL\<rparr>"
  obtain st1 ch1 where s1: "mode_char env (?a\<lparr>ca_c := CHR ''r''\<rparr>) st = Some st1" "cw_channels (st_w st1) chp = Some ch1"
    "md_mode (ch_mode ch1) AND MODE_REGONLY = MODE_REGONLY" "st_changes st1 = st_changes st @ [reg_change MODE_ADD]"
    "ch_chname ch1 = ch_chname ch"
    using Suc.prems regonly_step [of st chp ch ?a MODE_ADD env thesis] by (simp add: dir_defs)
  obtain st2 ch2 where s2: "mode_char env (?d\<lparr>ca_c := CHR ''r''\<rparr>) st1 = Some st2" "cw_channels (st_w st2) chp = Some ch2"
    "md_mode (ch_mode ch2) AND MODE_REGONLY = 0" "st_changes st2 = st_changes st1 @ [reg_change MODE_DEL]"
    "ch_chname ch2 = ch_chname ch1"
    using Suc.prems s1 regonly_step [of st1 chp ch1 ?d MODE_DEL env thesis] by (simp add: dir_defs MODE_REGONLY_def)
  show ?case using Suc.IH [of st2 ch2 ?d] Suc.prems s1 s2 by (auto simp: Let_def)
qed simp

lemma toggle_letters:
  "length (letters d (map (\<lambda>c. (c, None)) (map snd (toggles k)))) = (if d = MODE_ADD \<and> k \<noteq> 0 then 4 * k - 1 else 4 * k)"
  by (induction k arbitrary: d) (auto simp: reg_change_def mk_change_def dir_defs)

lemma toggles_told: "c \<in> set (map snd (toggles k)) \<Longrightarrow> local_told ALL_MEMBERS c \<and> mc_arg c = None"
  by (induction k) (auto simp: reg_change_def mk_change_def local_told_def NUL_def arglen_def)

lemma resolve_toggles: "map (resolve ch l) (toggles k) = map snd (toggles k)"
  by (induction k) (simp_all add: resolve_def reg_change_def)

lemma mode_header_name: "ch_chname ch' = ch_chname ch \<Longrightarrow> mode_header src ch' = mode_header src ch"
  by (simp add: mode_header_def)

text \<open>
  C28: MODE +r-r+r-r... from a channel operator writes past the end of modebuf: the toggles count
  against no limit and lines are broken only before changes with a parameter. The line is short
  enough for a client to send.
\<close>

theorem toggle_overflow:
  assumes src: "cw_clients w source_p = Some src" and m: "cw_members w mp = Some m" "is_chanop m"
    and ch: "cw_channels w chptr = Some ch" "md_mode (ch_mode ch) AND MODE_REGONLY = 0"
    and k: "BUFSIZE \<le> length (mode_header src ch) + 4 * k" "2 * k \<le> BUFSIZE" "0 < k"
  shows "set_channel_mode env source_p chptr (Some mp) [toggle_string k] w = None"
proof -
  let ?ca = "mode_call source_p src chptr (Some m) [toggle_string k]" and ?pre = "mode_header src ch"
  have "ca_alevel ?ca = CHFL_CHANOP" "ca_chptr ?ca = chptr" using m(2) by (simp_all add: mode_call_def get_channel_access_def)
  then obtain st ch' where st: "mode_loop env ?ca (toggle_string k) (mode_start w) = Some st"
    "cw_channels (st_w st) chptr = Some ch'" "ch_chname ch' = ch_chname ch" "st_changes st = toggles k"
    using toggle_run [of "mode_start w" chptr ch ?ca k env] ch k(2) by (auto simp: mode_start_def)
  let ?cs = "map snd (toggles k)"
  have len: "length (letters MODE_QUERY ([] @ map (\<lambda>c. (c, None)) ?cs)) = 4 * k"
    using toggle_letters [of MODE_QUERY k] by (simp add: dir_defs)
  have "local_changes ?pre ALL_MEMBERS ?cs (fresh_line ?pre []) = None"
  proof (rule argless_overflow [OF packed_fresh])
    show "c \<in> set ?cs \<Longrightarrow> local_told ALL_MEMBERS c \<and> mc_arg c = None" for c by (rule toggles_told)
    show "BUFSIZE \<le> length ?pre + length (letters MODE_QUERY ([] @ map (\<lambda>c. (c, None)) ?cs))" using len k(1) by simp
    show "?cs \<noteq> []" using k(3) by (cases k) auto
  qed (simp add: params_def BUFSIZE_def)
  then have "local_lines ?pre ALL_MEMBERS ?cs = None" by (simp add: local_lines_def)
  moreover have "st_changes st \<noteq> []" using st(4) k(3) by (cases k) auto
  ultimately have "mode_tell env src chptr st = None"
    using st(2,4) mode_header_name [OF st(3)] by (simp add: mode_tell_def resolve_toggles Let_def)
  then show ?thesis using src m(1) st(1) by (simp add: set_channel_mode_def)
qed

section \<open>Masks that are too long together\<close>

lemma table_b: "ModeTable ! table_position (CHR ''b'') = (chm_ban, CHFL_BAN, False)"
  by (simp add: ModeTable_def table_position_def nth_append nosuch_entry_def)

text \<open>One letter as a mask takes six bytes of \<^verbatim>\<open>mask_buf\<close>.\<close>

definition plain_char :: "char \<Rightarrow> bool" where
  "plain_char x \<longleftrightarrow> \<not> IsSpace x \<and> x \<notin> {CHR ''*'', CHR ''@'', CHR ''!'', CHR ''.'', CHR '':''}"

lemma pretty_letter:
  assumes "plain_char x" "pos + 6 \<le> BUFSIZE"
  shows "pretty_mask [x] pos = Some (x # ''!*@*'', pos + 6)"
proof -
  have "strchr_split c [x] = None" if "x \<noteq> c" for c using that by (simp add: strchr_split_def)
  then have "mask_parts [x] = ([x], ''*'', ''*'')"
    using assms(1) by (auto simp: mask_parts_def star_if_empty_def plain_char_def)
  moreover have "collapse (check_string (Some [x])) = [x]"
    using assms(1) by (simp add: check_string_def collapse_def plain_char_def)
  ultimately show ?thesis using assms(2) by (simp add: pretty_mask_def NICKLEN_def USERLEN_def HOSTLEN_def)
qed

lemma change_ban_del:
  assumes "ca_dir ca = MODE_DEL"
  obtains c ch' where "change_ban env ca ch l caps raw msk st = add_change Fixed c (st\<lparr>st_w := set_channel (ca_chptr ca) ch' (st_w st)\<rparr>)"
proof -
  obtain r ch1 where d1: "del_id ch (Some msk) l (ca_mode_type ca) = (r, ch1)" by fastforce
  obtain r2 ch2 where d2: "(if r = 0 then del_id ch1 (Some raw) l (ca_mode_type ca) else (0, ch1)) = (r2, ch2)" by fastforce
  have "MODE_DEL \<noteq> MODE_ADD" by (simp add: dir_defs)
  then show thesis using that assms d1 d2 by (simp add: change_ban_def Let_def)
qed

lemma unban_step:
  assumes "cw_channels (st_w st) chp = Some ch" "ca_chptr ca = chp" "ca_alevel ca = CHFL_CHANOP" "ca_dir ca = MODE_DEL"
    and "MyClient (ca_src ca)" "ca_parv ca ! st_parn st = [x]" "plain_char x" "st_parn st < ca_parc ca"
    and "st_mask_pos st + 6 \<le> BUFSIZE" "st_limit st < MAXMODEPARAMS" "length (st_changes st) < BUFSIZE"
  obtains st' ch' where "mode_char env (ca\<lparr>ca_c := CHR ''b''\<rparr>) st = Some st'" "cw_channels (st_w st') chp = Some ch'"
    "st_mask_pos st' = st_mask_pos st + 6" "st_limit st' = st_limit st + 1" "st_parn st' = st_parn st + 1"
    "length (st_changes st') = Suc (length (st_changes st))"
proof -
  have b: "ban_kind CHFL_BAN = Some (Banlist, SM_ERR_RPL_B, 367, 368, 0)" by (simp add: ban_kind_def)
  let ?ca = "ca\<lparr>ca_c := CHR ''b'', ca_mode_type := CHFL_BAN, ca_halfop := False\<rparr>"
  let ?st = "st\<lparr>st_limit := st_limit st + 1, st_parn := Suc (st_parn st), st_mask_pos := st_mask_pos st + 6\<rparr>"
  have "x \<noteq> CHR '':''" using assms(7) by (simp add: plain_char_def)
  then have "chm_ban env ?ca st = change_ban env ?ca ch Banlist 0 [x] (x # ''!*@*'') ?st"
    using assms pretty_letter [OF assms(7,9)] b
    by (simp add: chm_ban_def ban_disabled_def over_limit_def dir_defs MODEBUFLEN_def)
  moreover obtain ch2 r where "change_ban env ?ca ch Banlist 0 [x] (x # ''!*@*'') ?st =
      add_change Fixed r (?st\<lparr>st_w := set_channel chp ch2 (st_w st)\<rparr>)"
    using assms(2,4) change_ban_del [of ?ca env ch Banlist 0 "[x]" "x # ''!*@*''" ?st] by auto
  ultimately show thesis using that assms(1,11) by (simp add: mode_char_def table_b add_change_def)
qed

lemma no_star: "CHR ''*'' \<notin> set m \<Longrightarrow> no_double_star m"
  by (induction m) (auto simp: no_double_star_Cons)

lemma long_mask_null:
  assumes "\<forall>c \<in> set m. \<not> IsSpace c \<and> c \<noteq> CHR ''*''" "m \<noteq> []" "BUFSIZE < pos + length m + 5"
  shows "pretty_mask m pos = None"
proof -
  have "check_string (Some m) = m" using assms(1,2) by (simp add: check_string_def takeWhile_eq_all_conv)
  moreover have "collapse m = m" unfolding collapse_def
    by (intro collapse_loop_fix no_star) (use assms(1) in blast, simp)
  moreover have "BUFSIZE - pos < length m + 5" using assms(2,3) by (cases m) simp_all
  ultimately show ?thesis by (simp add: pretty_mask_def)
qed

text \<open>
  C29: MODE -bbbb with three one-letter masks and a fourth one of 490 bytes makes pretty_mask
  return NULL, which chm_ban passes to strlen.
\<close>

theorem long_masks_fault:
  assumes src: "cw_clients w source_p = Some src" "MyClient src" and m: "cw_members w mp = Some m" "is_chanop m"
    and ch: "cw_channels w chptr = Some ch" and abc: "plain_char a" "plain_char b" "plain_char c"
    and msk: "\<forall>x \<in> set msk. \<not> IsSpace x \<and> x \<noteq> CHR ''*''" "length msk = 490" "hd msk \<noteq> CHR '':''"
  shows "set_channel_mode env source_p chptr (Some mp) [''-bbbb'', [a], [b], [c], msk] w = None"
proof -
  let ?ca = "mode_call source_p src chptr (Some m) [''-bbbb'', [a], [b], [c], msk]\<lparr>ca_dir := MODE_DEL\<rparr>"
  have ca: "ca_alevel ?ca = CHFL_CHANOP" "ca_chptr ?ca = chptr" "ca_dir ?ca = MODE_DEL" "ca_src ?ca = src"
    "ca_parv ?ca = [''-bbbb'', [a], [b], [c], msk]"
    using m(2) by (simp_all add: mode_call_def get_channel_access_def)
  note step = unban_step [OF _ ca(2,1,3), unfolded ca(4,5), OF _ src(2)]
  obtain st1 ch1 where s1: "mode_char env (?ca\<lparr>ca_c := CHR ''b''\<rparr>) (mode_start w) = Some st1" "cw_channels (st_w st1) chptr = Some ch1"
    "st_mask_pos st1 = 6" "st_limit st1 = 1" "st_parn st1 = 2" "length (st_changes st1) = 1"
    by (rule step [of "mode_start w" ch a env]) (simp_all add: ch abc mode_start_def BUFSIZE_def MAXMODEPARAMS_def)
  obtain st2 ch2 where s2: "mode_char env (?ca\<lparr>ca_c := CHR ''b''\<rparr>) st1 = Some st2" "cw_channels (st_w st2) chptr = Some ch2"
    "st_mask_pos st2 = 12" "st_limit st2 = 2" "st_parn st2 = 3" "length (st_changes st2) = 2"
    by (rule step [of st1 ch1 b env]) (simp_all add: s1 abc BUFSIZE_def MAXMODEPARAMS_def)
  obtain st3 ch3 where s3: "mode_char env (?ca\<lparr>ca_c := CHR ''b''\<rparr>) st2 = Some st3" "cw_channels (st_w st3) chptr = Some ch3"
    "st_mask_pos st3 = 18" "st_limit st3 = 3" "st_parn st3 = 4"
    by (rule step [of st2 ch2 c env]) (simp_all add: s2 abc BUFSIZE_def MAXMODEPARAMS_def)
  have "msk \<noteq> []" using msk(2) by auto
  then have "pretty_mask msk 18 = None" using msk by (intro long_mask_null) (simp_all add: BUFSIZE_def)
  then have "mode_char env (?ca\<lparr>ca_c := CHR ''b''\<rparr>) st3 = None"
    using s3 ca src(2) msk(3) \<open>msk \<noteq> []\<close>
    by (simp add: mode_char_def table_b chm_ban_def ban_kind_def ban_disabled_def dir_defs over_limit_def MAXMODEPARAMS_def)
  then have "mode_loop env (mode_call source_p src chptr (Some m) [''-bbbb'', [a], [b], [c], msk]) ''-bbbb'' (mode_start w) = None"
    using s1(1) s2(1) s3(1) by simp
  then show ?thesis using src(1) m(1) by (simp add: set_channel_mode_def del: mode_loop.simps)
qed

section \<open>Instances\<close>

theorem toggle_overflow_witness:
  "set_channel_mode sample_env 1 5 (Some 7) [toggle_string 125] sample_opped = None \<and>
   length (''MODE #it '' @ toggle_string 125) \<le> 510"
proof -
  have "BUFSIZE \<le> length (mode_header sample_bob sample_it) + 4 * 125" "2 * 125 \<le> BUFSIZE"
    using sample_header [of sample_it] by (simp_all add: BUFSIZE_def)
  then show ?thesis
    using toggle_overflow [OF sample_opped_simps(1,3,4,2), of 125 sample_env] by (simp add: toggle_facts)
qed

theorem long_masks_fault_witness:
  "set_channel_mode sample_env 1 5 (Some 7) [''-bbbb'', ''a'', ''b'', ''c'', replicate 490 (CHR ''d'')] sample_opped = None"
proof -
  have s: "\<not> IsSpace (CHR ''a'')" "\<not> IsSpace (CHR ''b'')" "\<not> IsSpace (CHR ''c'')" "\<not> IsSpace (CHR ''d'')" by code_simp+
  have "plain_char (CHR ''a'')" "plain_char (CHR ''b'')" "plain_char (CHR ''c'')" using s by (simp_all add: plain_char_def)
  from long_masks_fault [OF sample_opped_simps(1) _ sample_opped_simps(3,4,2) this, of "replicate 490 (CHR ''d'')" sample_env] s
  show ?thesis by simp
qed

end
