(* ===== verification/Join.thy ===== *)
theory Join
  imports Chan_Mode Tools
begin

text \<open>
  Joining channels (\<^verbatim>\<open>modules/core/m_join.c\<close>): JOIN from local users, JOIN and SJOIN from servers with the rule
  that the older channel wins, and the loss of local status and modes that goes with it.

  Lines go out through \<^verbatim>\<open>sendto_channel_local\<close> and \<^verbatim>\<open>sendto_server\<close>; an output is a line with the clients or servers it is
  queued for, in order.  The allocator hands out addresses one after the other (\<open>js_next\<close>).
\<close>

section \<open>State and output\<close>

datatype jout =
    Sent "ptr list" string
  | To_source reply
  | To_opers string  \<comment> \<open>\<^verbatim>\<open>sendto_realops_flags\<close>\<close>

record jenv =
  je_servers :: "(ptr \<times> LocalUser) list"  \<comment> \<open>\<^verbatim>\<open>serv_list\<close>\<close>
  je_now :: int
  je_mem :: stack_mem
  je_use_except :: bool
  je_use_invex :: bool
  je_use_sslonly :: bool
  je_disable_fake_channels :: bool
  je_splitmode :: bool
  je_no_join_on_split :: bool
  je_no_create_on_split :: bool
  je_max_chans_per_user :: nat
  je_spam_num :: int
  je_spam_time :: int

record jstate =
  js_w :: cworld
  js_next :: ptr
  js_out :: "jout list"

definition put_out :: "jout \<Rightarrow> jstate \<Rightarrow> jstate" where
  "put_out o1 st = st\<lparr>js_out := js_out st @ [o1]\<rparr>"

definition CAP_SSJOIN :: "32 word" where "CAP_SSJOIN = 0x100000"
definition NOCAPS :: "32 word" where "NOCAPS = 0"
definition LOC_CHANNELLEN :: nat where "LOC_CHANNELLEN = 50"
definition IDLEN :: nat where "IDLEN = 10"

definition IsChannelName :: "string \<Rightarrow> bool" where
  "IsChannelName name \<longleftrightarrow> headc name = CHR ''#'' \<or> headc name = CHR ''&''"

text \<open>The local members \<^verbatim>\<open>sendto_channel_local\<close> (\<^verbatim>\<open>send.c\<close>) queues a line for.\<close>

fun local_targets :: "8 word \<Rightarrow> cworld \<Rightarrow> ptr list \<Rightarrow> ptr list option" where
  "local_targets type w [] = Some []"
| "local_targets type w (mp # mps) = do {
     m \<leftarrow> cw_members w mp;
     target \<leftarrow> cw_clients w (ms_client_p m);
     rest \<leftarrow> local_targets type w mps;
     Some (if IsIOError target \<or> type \<noteq> 0 \<and> ms_flags m AND type = 0 then rest else ms_client_p m # rest)
   }"

definition sendto_channel_local :: "8 word \<Rightarrow> ptr \<Rightarrow> string \<Rightarrow> jstate \<Rightarrow> jstate option" where
  "sendto_channel_local type chptr line st = do {
     ch \<leftarrow> cw_channels (js_w st) chptr;
     ps \<leftarrow> local_targets type (js_w st) (ch_locmembers ch);
     Some (put_out (Sent ps line) st)
   }"

definition to_servers :: "jenv \<Rightarrow> ptr option \<Rightarrow> cptr \<Rightarrow> 32 word \<Rightarrow> 32 word \<Rightarrow> string \<Rightarrow> jstate \<Rightarrow> jstate" where
  "to_servers env one chname caps nocaps line st =
     put_out (Sent (sendto_server (je_servers env) one chname caps nocaps) line) st"

definition to_source :: "nat \<Rightarrow> string list \<Rightarrow> jstate \<Rightarrow> jstate" where
  "to_source n args st = put_out (To_source (Reply n args)) st"

definition upd_channel :: "ptr \<Rightarrow> (Channel \<Rightarrow> Channel) \<Rightarrow> jstate \<Rightarrow> jstate option" where
  "upd_channel chptr f st = do {
     ch \<leftarrow> cw_channels (js_w st) chptr;
     Some (st\<lparr>js_w := set_channel chptr (f ch) (js_w st)\<rparr>)
   }"

definition upd_local :: "ptr \<Rightarrow> (LocalUser \<Rightarrow> LocalUser) \<Rightarrow> jstate \<Rightarrow> jstate option" where
  "upd_local p f st = do {
     c \<leftarrow> cw_clients (js_w st) p;
     lu \<leftarrow> cl_local c;
     Some (st\<lparr>js_w := set_client p (c\<lparr>cl_local := Some (f lu)\<rparr>) (js_w st)\<rparr>)
   }"

definition usermask :: "Client \<Rightarrow> string" where
  "usermask c = cl_name c @ ''!'' @ cl_username c @ ''@'' @ (if IsCloaked c then cl_virthost c else cl_host c)"

definition me_client :: "jstate \<Rightarrow> Client option" where
  "me_client st = cw_clients (js_w st) (cw_me (js_w st))"

section \<open>Leaving every channel\<close>

text \<open>The loop takes the head of the list until it is empty; the fuel is the length of the list.\<close>

fun join_0_loop :: "nat \<Rightarrow> ptr \<Rightarrow> jstate \<Rightarrow> jstate option" where
  "join_0_loop 0 source_p st = do {
     src \<leftarrow> cw_clients (js_w st) source_p;
     chans \<leftarrow> cl_user src;
     if chans = [] then Some st else None
   }"
| "join_0_loop (Suc n) source_p st = do {
     src \<leftarrow> cw_clients (js_w st) source_p;
     chans \<leftarrow> cl_user src;
     if chans = [] then Some st
     else do {
       let mp = hd chans;
       m \<leftarrow> cw_members (js_w st) mp;
       ch \<leftarrow> cw_channels (js_w st) (ms_chptr m);
       st \<leftarrow> sendto_channel_local ALL_MEMBERS (ms_chptr m) ('':'' @ usermask src @ '' PART '' @ ch_chname ch) st;
       w \<leftarrow> remove_user_from_channel (Some mp) (js_w st);
       join_0_loop n source_p (st\<lparr>js_w := w\<rparr>)
     }
   }"

text \<open>The warning about a user that joins and leaves too often.\<close>

definition spambot_check :: "jenv \<Rightarrow> ptr \<Rightarrow> cptr \<Rightarrow> jstate \<Rightarrow> jstate option" where
  "spambot_check env source_p name st = do {
     src \<leftarrow> cw_clients (js_w st) source_p;
     lu \<leftarrow> cl_local src;
     let (lu', warn) = check_spambot_warning (je_spam_num env) (je_spam_time env) (je_now env) (name \<noteq> None) lu;
     st \<leftarrow> upd_local source_p (\<lambda>_. lu') st;
     let who = ''User '' @ cl_name src @ '' ('' @ cl_username src @ ''@'' @ cl_host src @ '')'';
     Some (if warn then put_out (To_opers (case name of Some n \<Rightarrow> who @ '' trying to join '' @ n @ '' is a possible spambot''
                                          | None \<Rightarrow> who @ '' is a possible spambot'')) st
           else st)
   }"

definition do_join_0 :: "jenv \<Rightarrow> ptr \<Rightarrow> ptr \<Rightarrow> jstate \<Rightarrow> jstate option" where
  "do_join_0 env client_p source_p st = do {
     src \<leftarrow> cw_clients (js_w st) source_p;
     c \<leftarrow> cw_clients (js_w st) client_p;
     st \<leftarrow> (if MyClient src \<and> \<not> IsFloodDone src
            then do { src \<leftarrow> flood_endgrace src; Some (st\<lparr>js_w := set_client source_p src (js_w st)\<rparr>) } else Some st);
     let st = to_servers env (Some (cl_from c)) None CAP_TS6 NOCAPS ('':'' @ use_id src @ '' JOIN 0'') st;
     let st = to_servers env (Some (cl_from c)) None NOCAPS CAP_TS6 ('':'' @ cl_name src @ '' JOIN 0'') st;
     chans \<leftarrow> cl_user src;
     st \<leftarrow> (if chans \<noteq> [] \<and> MyConnect src \<and> \<not> IsOper src \<and> \<not> IsExemptSpambot src
            then spambot_check env source_p None st else Some st);
     join_0_loop (length chans) source_p st
   }"

section \<open>Who may join\<close>

definition check_channel_name_loc :: "jenv \<Rightarrow> Client \<Rightarrow> string \<Rightarrow> bool" where
  "check_channel_name_loc env src name \<longleftrightarrow> name \<noteq> [] \<and>
     (if je_disable_fake_channels env \<and> \<not> IsOper src
      then list_all (\<lambda>c. IsChanChar c \<and> \<not> IsFakeChanChar c) name
      else list_all IsChanChar name)"

definition ERR_BANNEDFROMCHAN :: nat where "ERR_BANNEDFROMCHAN = 474"
definition ERR_INVITEONLYCHAN :: nat where "ERR_INVITEONLYCHAN = 473"
definition ERR_BADCHANNELKEY :: nat where "ERR_BADCHANNELKEY = 475"
definition ERR_CHANNELISFULL :: nat where "ERR_CHANNELISFULL = 471"
definition ERR_NEEDREGGEDNICK :: nat where "ERR_NEEDREGGEDNICK = 477"
definition ERR_SSLONLYCHAN :: nat where "ERR_SSLONLYCHAN = 480"

text \<open>The members of a channel are counted against its limit as an \<^verbatim>\<open>unsigned long\<close>.\<close>

definition over_limit_members :: "Channel \<Rightarrow> bool" where
  "over_limit_members ch \<longleftrightarrow> md_limit (ch_mode ch) \<noteq> 0 \<and>
     int (length (ch_members ch)) \<ge> uint (word_of_int (md_limit (ch_mode ch)) :: 64 word)"

definition invited_in :: "jenv \<Rightarrow> ptr \<Rightarrow> Channel \<Rightarrow> LocalUser \<Rightarrow> string \<times> string \<times> string \<Rightarrow> bool option" where
  "invited_in env chptr ch lu ss =
     (if md_mode (ch_mode ch) AND MODE_INVITEONLY = 0 \<or> chptr \<in> set (lu_invited lu) then Some True
      else if \<not> je_use_invex env then Some False
      else ban_loop (je_mem env) ss (ch_invexlist ch))"

definition can_join :: "jenv \<Rightarrow> ptr \<Rightarrow> ptr \<Rightarrow> cptr \<Rightarrow> cworld \<Rightarrow> nat option" where
  "can_join env source_p chptr key w = do {
     src \<leftarrow> cw_clients w source_p;
     ch \<leftarrow> cw_channels w chptr;
     lu \<leftarrow> cl_local src;
     ss \<leftarrow> src_masks src;
     (b, _) \<leftarrow> is_banned (je_mem env) (je_use_except env) ch src None (Some ss);
     if b = CHFL_BAN then Some ERR_BANNEDFROMCHAN
     else do {
       inv \<leftarrow> invited_in env chptr ch lu ss;
       let md = ch_mode ch;
       if \<not> inv then Some ERR_INVITEONLYCHAN
       else if md_key md \<noteq> [] \<and> (EmptyString key \<or> irccmp (md_key md) (the key) \<noteq> 0) then Some ERR_BADCHANNELKEY
       else if over_limit_members ch then Some ERR_CHANNELISFULL
       else if md_mode md AND MODE_REGONLY \<noteq> 0 \<and> cl_suser src = [] then Some ERR_NEEDREGGEDNICK
       else if je_use_sslonly env \<and> md_mode md AND MODE_SSLONLY \<noteq> 0 \<and> \<not> IsSSL lu then Some ERR_SSLONLYCHAN
       else Some 0
     }
   }"

section \<open>JOIN from a local user\<close>

text \<open>\<^verbatim>\<open>rb_strtok_r\<close>: the pieces between the separators that are not empty.\<close>

fun split_on :: "char \<Rightarrow> string \<Rightarrow> string list" where
  "split_on d [] = [[]]"
| "split_on d (x # xs) =
     (if x = d then [] # split_on d xs else (case split_on d xs of [] \<Rightarrow> [[x]] | t # ts \<Rightarrow> (x # t) # ts))"

definition strtok_list :: "char \<Rightarrow> string \<Rightarrow> string list" where
  "strtok_list d s = filter (\<lambda>t. t \<noteq> []) (split_on d s)"

text \<open>The first loop: which of the names may be tried at all.  \<open>lead\<close>: the name begins the list (\<^verbatim>\<open>name == chanlist\<close>).\<close>

definition juped :: "Client \<Rightarrow> string \<Rightarrow> ptr \<Rightarrow> jstate \<Rightarrow> jstate option" where
  "juped src name confp st = do {
     aconf \<leftarrow> cw_confs (js_w st) confp;
     let st = to_source 479 [name] st;
     Some (if \<not> IsExemptJupe src \<and> \<not> IsOper src
           then put_out (To_opers (''User '' @ cl_name src @ '' ('' @ cl_username src @ ''@'' @ cl_host src @
                  '') is attempting to join locally juped channel '' @ name @ '' ('' @ conf_passwd aconf @ '')'')) st
           else if IsExemptJupe src
           then st\<lparr>js_w := (js_w st)\<lparr>cw_confs := (cw_confs (js_w st))(confp \<mapsto> aconf\<lparr>conf_port := conf_port aconf - 1\<rparr>)\<rparr>\<rparr>
           else st)
   }"

definition add_name :: "string \<Rightarrow> string \<Rightarrow> string option" where
  "add_name jbuf name = do {
     jbuf \<leftarrow> (if jbuf = [] then Some [] else if length jbuf + 1 < BUFSIZE then Some (jbuf @ '','') else None);
     (r, _) \<leftarrow> rb_strlcat jbuf name (of_nat BUFSIZE);
     Some r
   }"

fun join_names :: "jenv \<Rightarrow> ptr \<Rightarrow> bool \<Rightarrow> string list \<Rightarrow> string \<Rightarrow> jstate \<Rightarrow> (string \<times> jstate) option" where
  "join_names env source_p lead [] jbuf st = Some (jbuf, st)"
| "join_names env source_p lead (name # names) jbuf st = do {
     src \<leftarrow> cw_clients (js_w st) source_p;
     me \<leftarrow> me_client st;
     if \<not> check_channel_name_loc env src name \<or> length name > LOC_CHANNELLEN
     then join_names env source_p False names jbuf (to_source 479 [name] st)
     else if name = ''0'' \<and> lead then join_names env source_p False names ''0'' st
     else if \<not> IsChannelName name then join_names env source_p False names jbuf (to_source 403 [name] st)
     else do {
       (aconf, confs) \<leftarrow> (if IsExemptResv src then Some (None, cw_confs (js_w st))
                          else hash_find_resv (Some name) (cw_confs (js_w st)) (cw_tabs (js_w st)));
       let st = st\<lparr>js_w := (js_w st)\<lparr>cw_confs := confs\<rparr>\<rparr>;
       case aconf of
         Some confp \<Rightarrow> do { st \<leftarrow> juped src name confp st; join_names env source_p False names jbuf st }
       | None \<Rightarrow>
           if je_splitmode env \<and> \<not> IsOper src \<and> headc name \<noteq> CHR ''&'' \<and> je_no_join_on_split env
           then join_names env source_p False names jbuf (to_source 437 [cl_name me, cl_name src, name] st)
           else do { jbuf \<leftarrow> add_name jbuf name; join_names env source_p False names jbuf st }
     }
   }"

text \<open>\<^verbatim>\<open>get_or_create_channel\<close> with the notice about a long name from a server.\<close>

definition open_channel :: "jenv \<Rightarrow> Client \<Rightarrow> string \<Rightarrow> jstate \<Rightarrow> ((ptr \<times> bool) option \<times> jstate) option" where
  "open_channel env c name st = do {
     (r, notice, chs, gl, t) \<leftarrow> get_or_create_channel (js_next st) (je_now env) c (Some name) (cw_channels (js_w st))
        (cw_glist (js_w st)) (cw_tabs (js_w st));
     let st = (if notice then put_out (To_opers (''*** Long channel name from '' @ cl_name c @ '' ('' @ nat_str (length name) @
                 '' > '' @ nat_str CHANNELLEN @ ''): '' @ name)) st else st);
     Some (r, st\<lparr>js_w := (js_w st)\<lparr>cw_channels := chs, cw_glist := gl, cw_tabs := t\<rparr>, js_next := Suc (js_next st)\<rparr>)
   }"

definition add_member :: "ptr \<Rightarrow> ptr \<Rightarrow> 8 word \<Rightarrow> jstate \<Rightarrow> jstate option" where
  "add_member chptr client_p flags st = do {
     w \<leftarrow> add_user_to_channel (js_next st) chptr client_p flags (js_w st);
     Some (st\<lparr>js_w := w, js_next := Suc (js_next st)\<rparr>)
   }"

definition announce_join :: "ptr \<Rightarrow> Client \<Rightarrow> string \<Rightarrow> jstate \<Rightarrow> jstate option" where
  "announce_join chptr c chname st = sendto_channel_local ALL_MEMBERS chptr ('':'' @ usermask c @ '' JOIN :'' @ chname) st"

text \<open>A new channel gets its time and the modes +nt and is burst; otherwise the servers are told of the user.\<close>

definition join_new :: "jenv \<Rightarrow> ptr \<Rightarrow> ptr \<Rightarrow> Client \<Rightarrow> jstate \<Rightarrow> jstate option" where
  "join_new env from chptr src st = do {
     me \<leftarrow> me_client st;
     st \<leftarrow> upd_channel chptr (\<lambda>ch. ch\<lparr>ch_channelts := je_now env,
             ch_mode := (ch_mode ch)\<lparr>md_mode := md_mode (ch_mode ch) OR MODE_TOPICLIMIT OR MODE_NOPRIVMSGS\<rparr>\<rparr>) st;
     ch \<leftarrow> cw_channels (js_w st) chptr;
     st \<leftarrow> sendto_channel_local ONLY_CHANOPS chptr ('':'' @ cl_name me @ '' MODE '' @ ch_chname ch @ '' +nt'') st;
     let tail = int_str (ch_channelts ch) @ '' '' @ ch_chname ch @ '' +nt :@'';
     Some (if headc (ch_chname ch) = CHR ''#''
           then to_servers env (Some from) (Some (ch_chname ch)) NOCAPS CAP_TS6 ('':'' @ cl_name me @ '' SJOIN '' @ tail @ cl_name src)
                 (to_servers env (Some from) (Some (ch_chname ch)) CAP_TS6 NOCAPS ('':'' @ cl_id me @ '' SJOIN '' @ tail @ cl_id src) st)
           else st)
   }"

definition join_old :: "jenv \<Rightarrow> ptr \<Rightarrow> ptr \<Rightarrow> Client \<Rightarrow> jstate \<Rightarrow> jstate option" where
  "join_old env from chptr src st = do {
     me \<leftarrow> me_client st;
     ch \<leftarrow> cw_channels (js_w st) chptr;
     let ts = int_str (ch_channelts ch) @ '' '' @ ch_chname ch;
     let st = to_servers env (Some from) (Some (ch_chname ch)) CAP_TS6 NOCAPS ('':'' @ use_id src @ '' JOIN '' @ ts @ '' +'') st;
     let st = to_servers env (Some from) (Some (ch_chname ch)) CAP_SSJOIN CAP_TS6 ('':'' @ cl_name src @ '' SJOIN '' @ ts) st;
     Some (to_servers env (Some from) (Some (ch_chname ch)) NOCAPS (CAP_TS6 OR CAP_SSJOIN)
             ('':'' @ cl_name me @ '' SJOIN '' @ ts @ '' + :'' @ cl_name src) st)
   }"

definition greet :: "jenv \<Rightarrow> ptr \<Rightarrow> ptr \<Rightarrow> jstate \<Rightarrow> jstate option" where
  "greet env chptr source_p st = do {
     src \<leftarrow> cw_clients (js_w st) source_p;
     me \<leftarrow> me_client st;
     ch \<leftarrow> cw_channels (js_w st) chptr;
     let st = (case ch_topic ch of None \<Rightarrow> st
               | Some t \<Rightarrow> to_source 333 [cl_name me, cl_name src, ch_chname ch, tp_topic_info t, int_str (tp_topic_time t)]
                            (to_source 332 [cl_name me, cl_name src, ch_chname ch, tp_topic t] st));
     ls \<leftarrow> channel_member_names (cl_name me) chptr source_p True (js_w st);
     Some (foldl (\<lambda>st l. put_out (Sent [source_p] l) st) st ls)
   }"

definition note_join :: "jenv \<Rightarrow> ptr \<Rightarrow> nat \<Rightarrow> jstate \<Rightarrow> jstate option" where
  "note_join env source_p cnt st =
     (if cnt \<noteq> 0 then upd_local source_p (\<lambda>lu. lu\<lparr>lu_last_join_time := je_now env\<rparr>) st else Some st)"

text \<open>The end of an attempt, once the channel exists.\<close>

definition join_channel ::
  "jenv \<Rightarrow> ptr \<Rightarrow> ptr \<Rightarrow> string \<Rightarrow> cptr \<Rightarrow> 8 word \<Rightarrow> ptr \<Rightarrow> nat \<Rightarrow> jstate \<Rightarrow> (nat \<times> jstate) option" where
  "join_channel env client_p source_p name key flags chptr cnt st = do {
     src \<leftarrow> cw_clients (js_w st) source_p;
     me \<leftarrow> me_client st;
     c \<leftarrow> cw_clients (js_w st) client_p;
     st \<leftarrow> (if \<not> IsOper src \<and> \<not> IsExemptSpambot src then spambot_check env source_p (Some name) st else Some st);
     i \<leftarrow> can_join env source_p chptr key (js_w st);
     if i \<noteq> 0 then Some (cnt - 1, to_source i [cl_name me, cl_name src, name] st)
     else do {
       st \<leftarrow> add_member chptr source_p flags st;
       ch \<leftarrow> cw_channels (js_w st) chptr;
       st \<leftarrow> announce_join chptr src (ch_chname ch) st;
       st \<leftarrow> (if flags AND CHFL_CHANOP \<noteq> 0 then join_new env (cl_from c) chptr src st else join_old env (cl_from c) chptr src st);
       w \<leftarrow> del_invite chptr source_p (js_w st);
       st \<leftarrow> greet env chptr source_p (st\<lparr>js_w := w\<rparr>);
       st \<leftarrow> note_join env source_p cnt st;
       Some (cnt, st)
     }
   }"

text \<open>One turn of the second loop; \<open>False\<close>: the command returns.\<close>

definition join_one ::
  "jenv \<Rightarrow> ptr \<Rightarrow> ptr \<Rightarrow> string \<Rightarrow> cptr \<Rightarrow> nat \<Rightarrow> jstate \<Rightarrow> (bool \<times> nat \<times> jstate) option" where
  "join_one env client_p source_p name key cnt st = do {
     src \<leftarrow> cw_clients (js_w st) source_p;
     chans \<leftarrow> cl_user src;
     me \<leftarrow> me_client st;
     if headc name = CHR ''0'' \<and> c_atoi name = 0 then
       (if chans = [] then Some (True, cnt, st)
        else do { st \<leftarrow> do_join_0 env (cw_me (js_w st)) source_p st; Some (True, cnt, st) })
     else do {
       chp \<leftarrow> find_channel (cw_channels (js_w st)) (cw_tabs (js_w st)) (Some name);
       member \<leftarrow> (case chp of None \<Rightarrow> Some False | Some p \<Rightarrow> IsMember source_p p (js_w st));
       if member then Some (True, cnt, st)
       else if chp = None \<and> je_splitmode env \<and> \<not> IsOper src \<and> headc name \<noteq> CHR ''&'' \<and> je_no_create_on_split env
       then Some (True, cnt, to_source 437 [cl_name me, cl_name src, name] st)
       else do {
         flags \<leftarrow> (case chp of None \<Rightarrow> Some CHFL_CHANOP
                    | Some p \<Rightarrow> map_option (\<lambda>ch. if ch_members ch = [] then CHFL_CHANOP else 0) (cw_channels (js_w st) p));
         if length chans \<ge> je_max_chans_per_user env \<and> (\<not> IsOper src \<or> length chans \<ge> je_max_chans_per_user env * 3)
         then do { st \<leftarrow> note_join env source_p cnt (to_source 405 [cl_name me, cl_name src, name] st); Some (False, cnt, st) }
         else do {
           let cnt = (if flags = 0 then cnt + 1 else cnt);
           (r, st) \<leftarrow> (case chp of Some p \<Rightarrow> Some (Some (p, False), st) | None \<Rightarrow> open_channel env src name st);
           case r of
             None \<Rightarrow> Some (True, cnt - 1, to_source 437 [cl_name me, cl_name src, name] st)
           | Some (chptr, _) \<Rightarrow> do {
               (cnt, st) \<leftarrow> join_channel env client_p source_p name key flags chptr cnt st;
               Some (True, cnt, st)
             }
         }
       }
     }
   }"

fun join_loop :: "jenv \<Rightarrow> ptr \<Rightarrow> ptr \<Rightarrow> string list \<Rightarrow> string list \<Rightarrow> nat \<Rightarrow> jstate \<Rightarrow> jstate option" where
  "join_loop env client_p source_p [] keys cnt st = Some st"
| "join_loop env client_p source_p (name # names) keys cnt st = do {
     (go, cnt, st) \<leftarrow> join_one env client_p source_p name (case keys of [] \<Rightarrow> None | k # _ \<Rightarrow> Some k) cnt st;
     if go then join_loop env client_p source_p names (tl keys) cnt st else Some st
   }"

definition m_join :: "jenv \<Rightarrow> ptr \<Rightarrow> ptr \<Rightarrow> string list \<Rightarrow> jstate \<Rightarrow> jstate option" where
  "m_join env client_p source_p parv st =
     (if length parv < 2 then None
      else do {
        let chanlist = parv ! 1;
        (jbuf, st) \<leftarrow> join_names env source_p (headc chanlist \<noteq> CHR '','') (strtok_list (CHR '','') chanlist) [] st;
        let keys = (if length parv > 2 then strtok_list (CHR '','') (parv ! 2) else []);
        join_loop env client_p source_p (strtok_list (CHR '','') jbuf) keys 0 st
      })"

end
