(* ===== verification/Sjoin.thy ===== *)
theory Sjoin
  imports Join
begin

text \<open>
  JOIN and SJOIN from other servers (\<^verbatim>\<open>modules/core/m_join.c\<close>).  Every channel has the time it was created; of two
  copies of a channel the older one keeps its modes and status, and of two equally old ones both are kept.
\<close>

section \<open>The time rule\<close>

text \<open>The new time of the channel, whether our modes stay and whether theirs are taken.\<close>

definition ts_rule :: "bool \<Rightarrow> int \<Rightarrow> int \<Rightarrow> int \<times> bool \<times> bool" where
  "ts_rule isnew newts oldts =
     (if isnew then (newts, True, True)
      else if newts = 0 \<or> oldts = 0 then (0, True, True)
      else if newts = oldts then (oldts, True, True)
      else if newts < oldts then (newts, False, True)
      else (oldts, True, False))"

definition ts_notice :: "ptr \<Rightarrow> int \<Rightarrow> int \<Rightarrow> jstate \<Rightarrow> jstate option" where
  "ts_notice chptr oldts newts st = do {
     me \<leftarrow> me_client st;
     ch \<leftarrow> cw_channels (js_w st) chptr;
     sendto_channel_local ALL_MEMBERS chptr ('':'' @ cl_name me @ '' NOTICE '' @ ch_chname ch @ '' :*** Notice -- TS for '' @
       ch_chname ch @ '' changed from '' @ int_str oldts @ '' to '' @ int_str newts) st
   }"

text \<open>A channel that is made older than time itself is reported.\<close>

definition ts_zero :: "ptr \<Rightarrow> Client \<Rightarrow> bool \<Rightarrow> int \<Rightarrow> int \<Rightarrow> jstate \<Rightarrow> jstate option" where
  "ts_zero chptr src isnew newts oldts st =
     (if \<not> isnew \<and> newts = 0 \<and> oldts \<noteq> 0 then do {
        ch \<leftarrow> cw_channels (js_w st) chptr;
        st \<leftarrow> ts_notice chptr oldts 0 st;
        Some (put_out (To_opers (''Server '' @ cl_name src @ '' changing TS on '' @ ch_chname ch @ '' from '' @
                int_str oldts @ '' to 0'')) st)
      } else Some st)"

section \<open>Telling the final mode\<close>

definition mode_flags :: "(32 word \<times> char) list" where
  "mode_flags = [(MODE_NOPRIVMSGS, CHR ''n''), (MODE_TOPICLIMIT, CHR ''t''), (MODE_SECRET, CHR ''s''), (MODE_MODERATED, CHR ''m''),
     (MODE_INVITEONLY, CHR ''i''), (MODE_PRIVATE, CHR ''p''), (MODE_REGONLY, CHR ''r''), (MODE_SSLONLY, CHR ''S'')]"

text \<open>The letters written so far, the parameters, and the last sign.\<close>

type_synonym fbuf = "string \<times> string \<times> int"

definition final_letter :: "int \<Rightarrow> char \<Rightarrow> string \<Rightarrow> fbuf \<Rightarrow> fbuf" where
  "final_letter d c arg b =
     (case b of (m, p, dir) \<Rightarrow>
        (m @ (if dir \<noteq> d then (if d = MODE_ADD then ''+'' else ''-'') else []) @ [c], p @ arg, d))"

definition final_modes :: "Mode \<Rightarrow> Mode \<Rightarrow> fbuf" where
  "final_modes md old =
     (let b = foldl (\<lambda>b (m, c). if md_mode md AND m \<noteq> 0 \<and> md_mode old AND m = 0 then final_letter MODE_ADD c [] b else b)
                ([], [], MODE_QUERY) mode_flags;
          b = foldl (\<lambda>b (m, c). if md_mode old AND m \<noteq> 0 \<and> md_mode md AND m = 0 then final_letter MODE_DEL c [] b else b)
                b mode_flags;
          b = (if md_limit old \<noteq> 0 \<and> md_limit md = 0 then final_letter MODE_DEL (CHR ''l'') [] b else b);
          b = (if md_key old \<noteq> [] \<and> md_key md = [] then final_letter MODE_DEL (CHR ''k'') (md_key old @ '' '') b else b);
          b = (if md_limit md \<noteq> 0 \<and> md_limit old \<noteq> md_limit md
               then final_letter MODE_ADD (CHR ''l'') (int_str (md_limit md) @ '' '') b else b)
      in (if md_key md \<noteq> [] \<and> md_key old \<noteq> md_key md then final_letter MODE_ADD (CHR ''k'') (md_key md @ '' '') b else b))"

definition set_final_mode :: "string \<Rightarrow> ptr \<Rightarrow> Mode \<Rightarrow> Mode \<Rightarrow> jstate \<Rightarrow> jstate option" where
  "set_final_mode source_name chptr md old st =
     (case final_modes md old of (m, p, _) \<Rightarrow>
        if length m < MODEBUFLEN \<and> length p < MODEBUFLEN then
          if m = [] then Some st
          else do {
            ch \<leftarrow> cw_channels (js_w st) chptr;
            sendto_channel_local ALL_MEMBERS chptr ('':'' @ source_name @ '' MODE '' @ ch_chname ch @ '' '' @ m @
              (if p \<noteq> [] then '' '' @ butlast p else [])) st
          }
        else None)"

section \<open>Losing status\<close>

text \<open>
  Status changes are told four at a time, in a line with room for four parameters.  The buffer is the letters after
  the sign and the parameters; it is sent when it is full, before the next letter and after the last letter of a member.
  (\<^verbatim>\<open>remove_our_modes\<close> clears a member's flags one by one in between; nothing reads them there.)
\<close>

type_synonym status_buf = "string \<times> string list"

definition status_line :: "string \<Rightarrow> string \<Rightarrow> char \<Rightarrow> status_buf \<Rightarrow> string" where
  "status_line source_name chname sign_c b =
     '':'' @ source_name @ '' MODE '' @ chname @ '' '' @ sign_c # fst b @
       concat (map (\<lambda>i. '' '' @ (if i < length (snd b) then snd b ! i else [])) [0..<4])"

definition flush_status :: "string \<Rightarrow> ptr \<Rightarrow> char \<Rightarrow> status_buf \<Rightarrow> jstate \<Rightarrow> (status_buf \<times> jstate) option" where
  "flush_status source_name chptr sign_c b st =
     (if int (length (snd b)) \<ge> MAXMODEPARAMS then do {
        ch \<leftarrow> cw_channels (js_w st) chptr;
        st \<leftarrow> sendto_channel_local ALL_MEMBERS chptr (status_line source_name (ch_chname ch) sign_c b) st;
        Some (([], []), st)
      } else Some (b, st))"

definition status_letter ::
  "string \<Rightarrow> ptr \<Rightarrow> char \<Rightarrow> string \<Rightarrow> bool \<Rightarrow> char \<Rightarrow> status_buf \<Rightarrow> jstate \<Rightarrow> (status_buf \<times> jstate) option" where
  "status_letter source_name chptr sign_c nick on c b st =
     (if on then do {
        ((ls, ps), st) \<leftarrow> flush_status source_name chptr sign_c b st;
        Some ((ls @ [c], ps @ [nick]), st)
      } else Some (b, st))"

definition tell_status ::
  "string \<Rightarrow> ptr \<Rightarrow> char \<Rightarrow> string \<Rightarrow> 8 word \<Rightarrow> status_buf \<Rightarrow> jstate \<Rightarrow> (status_buf \<times> jstate) option" where
  "tell_status source_name chptr sign_c nick flags b st = do {
     (b, st) \<leftarrow> status_letter source_name chptr sign_c nick (flags AND CHFL_CHANOP \<noteq> 0) (CHR ''o'') b st;
     (b, st) \<leftarrow> status_letter source_name chptr sign_c nick (flags AND CHFL_HALFOP \<noteq> 0) (CHR ''h'') b st;
     (b, st) \<leftarrow> status_letter source_name chptr sign_c nick (flags AND CHFL_VOICE \<noteq> 0) (CHR ''v'') b st;
     flush_status source_name chptr sign_c b st
   }"

definition end_status :: "string \<Rightarrow> ptr \<Rightarrow> char \<Rightarrow> status_buf \<Rightarrow> jstate \<Rightarrow> jstate option" where
  "end_status source_name chptr sign_c b st =
     (if snd b \<noteq> [] then do {
        ch \<leftarrow> cw_channels (js_w st) chptr;
        sendto_channel_local ALL_MEMBERS chptr (status_line source_name (ch_chname ch) sign_c b) st
      } else Some st)"

definition STATUS_FLAGS :: "8 word" where "STATUS_FLAGS = CHFL_CHANOP OR CHFL_HALFOP OR CHFL_VOICE"

fun deop_loop :: "string \<Rightarrow> ptr \<Rightarrow> ptr list \<Rightarrow> status_buf \<Rightarrow> jstate \<Rightarrow> (status_buf \<times> jstate) option" where
  "deop_loop source_name chptr [] b st = Some (b, st)"
| "deop_loop source_name chptr (mp # mps) b st = do {
     m \<leftarrow> cw_members (js_w st) mp;
     c \<leftarrow> cw_clients (js_w st) (ms_client_p m);
     if ms_flags m AND STATUS_FLAGS = 0 then deop_loop source_name chptr mps b st
     else do {
       (b, st) \<leftarrow> tell_status source_name chptr (CHR ''-'') (cl_name c) (ms_flags m) b
          (st\<lparr>js_w := (js_w st)\<lparr>cw_members := (cw_members (js_w st))(mp \<mapsto> m\<lparr>ms_flags := ms_flags m AND NOT STATUS_FLAGS\<rparr>)\<rparr>\<rparr>);
       deop_loop source_name chptr mps b st
     }
   }"

definition remove_our_modes :: "ptr \<Rightarrow> jstate \<Rightarrow> jstate option" where
  "remove_our_modes chptr st = do {
     me \<leftarrow> me_client st;
     ch \<leftarrow> cw_channels (js_w st) chptr;
     (b, st) \<leftarrow> deop_loop (cl_name me) chptr (ch_members ch) ([], []) st;
     end_status (cl_name me) chptr (CHR ''-'') b st
   }"

section \<open>Removing ban lists\<close>

record rbuf =
  rb_letters :: string
  rb_para :: string
  rb_count :: nat
  rb_cur_len :: nat

definition send_bans ::
  "jenv \<Rightarrow> Client \<Rightarrow> ptr \<Rightarrow> string \<Rightarrow> 32 word \<Rightarrow> 8 word \<Rightarrow> rbuf \<Rightarrow> jstate \<Rightarrow> jstate option" where
  "send_bans env src chptr pre cap mems b st =
     (if rb_para b = [] then None
      else do {
        ch \<leftarrow> cw_channels (js_w st) chptr;
        let line = pre @ rb_letters b @ '' '' @ butlast (rb_para b);
        st \<leftarrow> sendto_channel_local mems chptr line st;
        Some (to_servers env (Some (cl_from src)) (Some (ch_chname ch)) cap CAP_TS6 line st)
      })"

fun rban_loop ::
  "jenv \<Rightarrow> Client \<Rightarrow> ptr \<Rightarrow> string \<Rightarrow> char \<Rightarrow> 32 word \<Rightarrow> 8 word \<Rightarrow> Ban list \<Rightarrow> rbuf \<Rightarrow> jstate \<Rightarrow> (rbuf \<times> jstate) option" where
  "rban_loop env src chptr pre c cap mems [] b st = Some (b, st)"
| "rban_loop env src chptr pre c cap mems (ban # bans) b st = do {
     let plen = length (ban_banstr ban) + 2;
     (b, st) \<leftarrow> (if int (rb_count b) \<ge> MAXMODEPARAMS \<or> rb_cur_len b + plen > BUFSIZE - 4 then do {
         st \<leftarrow> send_bans env src chptr pre cap mems b st;
         Some (\<lparr>rb_letters = [], rb_para = [], rb_count = 0, rb_cur_len = length pre\<rparr>, st)
       } else Some (b, st));
     let b = b\<lparr>rb_letters := rb_letters b @ [c], rb_cur_len := rb_cur_len b + plen,
               rb_para := rb_para b @ ban_banstr ban @ '' '', rb_count := rb_count b + 1\<rparr>;
     if length (pre @ rb_letters b) < BUFSIZE \<and> length (rb_para b) < BUFSIZE
     then rban_loop env src chptr pre c cap mems bans b st else None
   }"

definition remove_ban_list ::
  "jenv \<Rightarrow> ptr \<Rightarrow> Client \<Rightarrow> ban_list \<Rightarrow> char \<Rightarrow> 32 word \<Rightarrow> 8 word \<Rightarrow> jstate \<Rightarrow> jstate option" where
  "remove_ban_list env chptr src l c cap mems st = do {
     ch \<leftarrow> cw_channels (js_w st) chptr;
     let pre = '':'' @ cl_name src @ '' MODE '' @ ch_chname ch @ '' -'';
     if length pre < BUFSIZE then do {
       (b, st) \<leftarrow> rban_loop env src chptr pre c cap mems (bans_in l ch)
          \<lparr>rb_letters = [], rb_para = [], rb_count = 0, rb_cur_len = length pre\<rparr> st;
       st \<leftarrow> send_bans env src chptr pre cap mems b st;
       upd_channel chptr (set_bans l []) st
     } else None
   }"

section \<open>JOIN and SJOIN of one user\<close>

text \<open>
  What \<^verbatim>\<open>ms_join\<close> and \<^verbatim>\<open>mc_sjoin\<close> share: the time rule, the loss of our modes and the new member.  The result is the
  channel and whether the other side's modes count, or nothing when the command is dropped.
\<close>

definition lose_modes :: "ptr \<Rightarrow> string \<Rightarrow> int \<Rightarrow> int \<Rightarrow> jstate \<Rightarrow> jstate option" where
  "lose_modes chptr server_name oldts newts st = do {
     st \<leftarrow> remove_our_modes chptr st;
     st \<leftarrow> ts_notice chptr oldts newts st;
     ch \<leftarrow> cw_channels (js_w st) chptr;
     let md = \<lparr>md_mode = 0, md_limit = 0, md_key = []\<rparr>;
     st \<leftarrow> set_final_mode server_name chptr md (ch_mode ch) st;
     upd_channel chptr (\<lambda>ch. ch\<lparr>ch_mode := md\<rparr>) st
   }"

definition remote_join :: "jenv \<Rightarrow> ptr \<Rightarrow> string list \<Rightarrow> jstate \<Rightarrow> ((ptr \<times> bool) option \<times> jstate) option" where
  "remote_join env source_p parv st =
     (if \<not> IsChannelName (parv ! 2) \<or> \<not> check_channel_name (Some (parv ! 2)) \<or> headc (parv ! 2) = CHR ''&'' then Some (None, st)
      else do {
        src \<leftarrow> cw_clients (js_w st) source_p;
        (r, st) \<leftarrow> open_channel env src (parv ! 2) st;
        case r of
          None \<Rightarrow> Some (None, st)
        | Some (chptr, isnew) \<Rightarrow> do {
            ch \<leftarrow> cw_channels (js_w st) chptr;
            servp \<leftarrow> cl_servptr src;
            server \<leftarrow> cw_clients (js_w st) servp;
            let newts = c_atol (parv ! 1);
            let oldts = ch_channelts ch;
            st \<leftarrow> ts_zero chptr src isnew newts oldts st;
            let (ts, keep_our, keep_new) = ts_rule isnew newts oldts;
            st \<leftarrow> upd_channel chptr (\<lambda>ch. ch\<lparr>ch_channelts := ts\<rparr>) st;
            st \<leftarrow> (if keep_our then Some st else lose_modes chptr (cl_name server) oldts newts st);
            member \<leftarrow> IsMember source_p chptr (js_w st);
            st \<leftarrow> (if member then Some st
                   else do { st \<leftarrow> add_member chptr source_p CHFL_PEON st; announce_join chptr src (ch_chname ch) st });
            Some (Some (chptr, keep_new), st)
          }
      })"

definition sjoin_plain :: "string \<Rightarrow> Channel \<Rightarrow> bool \<Rightarrow> string \<Rightarrow> string" where
  "sjoin_plain server_name ch keep_new nick =
     '':'' @ server_name @ '' SJOIN '' @ int_str (ch_channelts ch) @ '' '' @ ch_chname ch @
     (if keep_new then '' + :'' else '' 0 :'') @ nick"

definition ms_join :: "jenv \<Rightarrow> ptr \<Rightarrow> ptr \<Rightarrow> string list \<Rightarrow> jstate \<Rightarrow> jstate option" where
  "ms_join env client_p source_p parv st =
     (if length parv < 2 then None
      else if parv ! 1 = ''0'' \<and> length parv = 2 then do_join_0 env client_p source_p st
      else if length parv < 4 then Some st
      else do {
        (r, st) \<leftarrow> remote_join env source_p parv st;
        case r of
          None \<Rightarrow> Some st
        | Some (chptr, keep_new) \<Rightarrow> do {
            src \<leftarrow> cw_clients (js_w st) source_p;
            c \<leftarrow> cw_clients (js_w st) client_p;
            servp \<leftarrow> cl_servptr src;
            server \<leftarrow> cw_clients (js_w st) servp;
            ch \<leftarrow> cw_channels (js_w st) chptr;
            let ts = int_str (ch_channelts ch) @ '' '' @ ch_chname ch;
            let st = to_servers env (Some (cl_from c)) (Some (ch_chname ch)) CAP_TS6 NOCAPS ('':'' @ cl_id src @ '' JOIN '' @ ts @ '' +'') st;
            let st = to_servers env (Some (cl_from c)) (Some (ch_chname ch)) CAP_SSJOIN CAP_TS6 ('':'' @ cl_name src @ '' SJOIN '' @ ts) st;
            Some (to_servers env (Some (cl_from c)) (Some (ch_chname ch)) NOCAPS CAP_TS6
                    (sjoin_plain (cl_name server) ch keep_new (cl_name src)) st)
          }
      })"

definition mc_sjoin :: "jenv \<Rightarrow> ptr \<Rightarrow> ptr \<Rightarrow> string list \<Rightarrow> jstate \<Rightarrow> jstate option" where
  "mc_sjoin env client_p source_p parv st =
     (if length parv < 3 then Some st
      else do {
        (r, st) \<leftarrow> remote_join env source_p parv st;
        case r of
          None \<Rightarrow> Some st
        | Some (chptr, keep_new) \<Rightarrow> do {
            src \<leftarrow> cw_clients (js_w st) source_p;
            c \<leftarrow> cw_clients (js_w st) client_p;
            servp \<leftarrow> cl_servptr src;
            server \<leftarrow> cw_clients (js_w st) servp;
            ch \<leftarrow> cw_channels (js_w st) chptr;
            let st = to_servers env (Some (cl_from c)) (Some (ch_chname ch)) CAP_SSJOIN NOCAPS
              ('':'' @ cl_name src @ '' SJOIN '' @ int_str (ch_channelts ch) @ '' '' @ ch_chname ch) st;
            Some (to_servers env (Some (cl_from c)) (Some (ch_chname ch)) NOCAPS CAP_SSJOIN
                    (sjoin_plain (cl_name server) ch keep_new (cl_name src)) st)
          }
      })"

section \<open>SJOIN of a server\<close>

text \<open>The modes of the line; \<open>args\<close> counts the parameters they have taken.  \<^term>\<open>None\<close>: the line is too short and is dropped.\<close>

definition sjoin_bits :: "char \<Rightarrow> 32 word" where
  "sjoin_bits c =
     (if c = CHR ''i'' then MODE_INVITEONLY else if c = CHR ''n'' then MODE_NOPRIVMSGS else if c = CHR ''p'' then MODE_PRIVATE
      else if c = CHR ''s'' then MODE_SECRET else if c = CHR ''m'' then MODE_MODERATED else if c = CHR ''t'' then MODE_TOPICLIMIT
      else if c = CHR ''r'' then MODE_REGONLY else if c = CHR ''S'' then MODE_SSLONLY else 0)"

fun sjoin_modes :: "string list \<Rightarrow> string \<Rightarrow> nat \<Rightarrow> Mode \<Rightarrow> (nat \<times> Mode) option" where
  "sjoin_modes parv [] args md = Some (args, md)"
| "sjoin_modes parv (c # s) args md =
     (if c = CHR ''k'' then
        (if length parv < 6 + args then None
         else sjoin_modes parv s (Suc args) (md\<lparr>md_key := rb_strlcpy (parv ! (4 + args)) KEYLEN\<rparr>))
      else if c = CHR ''l'' then
        (if length parv < 6 + args then None
         else sjoin_modes parv s (Suc args) (md\<lparr>md_limit := c_atoi (parv ! (4 + args))\<rparr>))
      else sjoin_modes parv s args (md\<lparr>md_mode := md_mode md OR sjoin_bits c\<rparr>))"

fun strcmp_less :: "string \<Rightarrow> string \<Rightarrow> bool" where
  "strcmp_less s [] = False"
| "strcmp_less [] (y # ys) = True"
| "strcmp_less (x # xs) (y # ys) = ((of_char x :: nat) < of_char y \<or> x = y \<and> strcmp_less xs ys)"

definition merge_modes :: "bool \<Rightarrow> bool \<Rightarrow> Mode \<Rightarrow> Mode \<Rightarrow> Mode" where
  "merge_modes keep_our keep_new md old =
     (if \<not> keep_new then old
      else if keep_our then
        \<lparr>md_mode = md_mode md OR md_mode old,
         md_limit = (if md_limit old > md_limit md then md_limit old else md_limit md),
         md_key = (if strcmp_less (md_key md) (md_key old) then md_key old else md_key md)\<rparr>
      else md)"

text \<open>The nicks of the last parameter, at single spaces; what follows a last space is dropped.\<close>

function sjoin_nicks :: "string \<Rightarrow> string list" where
  "sjoin_nicks s = (case strchr_split (CHR '' '') s of None \<Rightarrow> [s] | Some (a, b) \<Rightarrow> a # (if b = [] then [] else sjoin_nicks b))"
  by pat_completeness auto
termination
  by (relation "measure length") (auto dest: strchr_split_Some)

declare sjoin_nicks.simps [simp del]

fun nick_flags :: "nat \<Rightarrow> string \<Rightarrow> 8 word \<Rightarrow> 8 word \<times> string" where
  "nick_flags 0 s fl = (fl, s)"
| "nick_flags (Suc n) s fl =
     (if headc s = CHR ''@'' then nick_flags n (tl s) (fl OR CHFL_CHANOP)
      else if headc s = CHR ''%'' then nick_flags n (tl s) (fl OR CHFL_HALFOP)
      else if headc s = CHR ''+'' then nick_flags n (tl s) (fl OR CHFL_VOICE)
      else nick_flags n s fl)"

record sjbuf =
  sj_nick :: string  \<comment> \<open>the text after the header in \<^verbatim>\<open>buf_nick\<close>\<close>
  sj_uid :: string
  sj_status :: status_buf
  sj_joins :: nat

text \<open>
  Sending a full buffer cuts its trailing space.  That there is room for one nick behind the header is assumed in the
  source (``we can fit at least one nick'').
\<close>

definition sjoin_room :: "jenv \<Rightarrow> ptr option \<Rightarrow> 32 word \<Rightarrow> 32 word \<Rightarrow> nat \<Rightarrow> string \<Rightarrow> string \<Rightarrow> jstate \<Rightarrow> (string \<times> jstate) option" where
  "sjoin_room env from caps nocaps len pre buf st =
     (if length pre + length buf + len + 3 > BUFSIZE - 3 then
        (if buf = [] then None else Some ([], to_servers env from None caps nocaps (pre @ butlast buf) st))
      else Some (buf, st))"

definition prefix_chars :: "8 word \<Rightarrow> string" where
  "prefix_chars fl = (if fl AND CHFL_CHANOP \<noteq> 0 then ''@'' else []) @ (if fl AND CHFL_HALFOP \<noteq> 0 then ''%'' else []) @
     (if fl AND CHFL_VOICE \<noteq> 0 then ''+'' else [])"

definition sjoin_one ::
  "jenv \<Rightarrow> ptr \<Rightarrow> ptr option \<Rightarrow> Client \<Rightarrow> ptr \<Rightarrow> string \<Rightarrow> string \<Rightarrow> string \<Rightarrow> bool \<Rightarrow> string \<Rightarrow> sjbuf \<Rightarrow> jstate \<Rightarrow> (sjbuf \<times> jstate) option" where
  "sjoin_one env client_p from src chptr chname pre_nick pre_uid keep_new tok b st = do {
     let (fl, nick) = nick_flags 3 tok 0;
     t \<leftarrow> find_client (cw_clients (js_w st)) (cw_tabs (js_w st)) (Some nick);
     case t of
       None \<Rightarrow> Some (b, st)
     | Some target_p \<Rightarrow> do {
         target \<leftarrow> cw_clients (js_w st) target_p;
         if cl_from target \<noteq> client_p \<or> \<not> IsClient target then Some (b, st)
         else do {
           (bn, st) \<leftarrow> sjoin_room env from NOCAPS CAP_TS6 NICKLEN pre_nick (sj_nick b) st;
           (bu, st) \<leftarrow> sjoin_room env from CAP_TS6 NOCAPS IDLEN pre_uid (sj_uid b) st;
           let px = (if keep_new then prefix_chars fl else []);
           let bn = bn @ px @ cl_name target @ '' '';
           let bu = bu @ px @ use_id target @ '' '';
           if length (pre_nick @ bn) < BUFSIZE \<and> length (pre_uid @ bu) < BUFSIZE then do {
             let fl = (if keep_new then fl else if fl AND (CHFL_CHANOP OR CHFL_HALFOP) \<noteq> 0 then CHFL_DEOPPED else 0);
             member \<leftarrow> IsMember target_p chptr (js_w st);
             st \<leftarrow> (if member then Some st
                    else do { st \<leftarrow> add_member chptr target_p fl st; announce_join chptr target chname st });
             (sb, st) \<leftarrow> tell_status (cl_name src) chptr (CHR ''+'') (cl_name target) fl (sj_status b) st;
             Some (\<lparr>sj_nick = bn, sj_uid = bu, sj_status = sb, sj_joins = sj_joins b + (if member then 0 else 1)\<rparr>, st)
           } else None
         }
       }
   }"

fun sjoin_loop ::
  "jenv \<Rightarrow> ptr \<Rightarrow> ptr option \<Rightarrow> Client \<Rightarrow> ptr \<Rightarrow> string \<Rightarrow> string \<Rightarrow> string \<Rightarrow> bool \<Rightarrow> string list \<Rightarrow> sjbuf \<Rightarrow> jstate \<Rightarrow> (sjbuf \<times> jstate) option" where
  "sjoin_loop env client_p from src chptr chname pre_nick pre_uid keep_new [] b st = Some (b, st)"
| "sjoin_loop env client_p from src chptr chname pre_nick pre_uid keep_new (tok # toks) b st = do {
     (b, st) \<leftarrow> sjoin_one env client_p from src chptr chname pre_nick pre_uid keep_new tok b st;
     sjoin_loop env client_p from src chptr chname pre_nick pre_uid keep_new toks b st
   }"

text \<open>The time rule for a whole channel: the merged modes, told to the members.\<close>

definition sjoin_merge :: "ptr \<Rightarrow> Client \<Rightarrow> bool \<Rightarrow> int \<Rightarrow> Mode \<Rightarrow> jstate \<Rightarrow> (bool \<times> bool \<times> jstate) option" where
  "sjoin_merge chptr src isnew newts md st = do {
     ch \<leftarrow> cw_channels (js_w st) chptr;
     let oldts = ch_channelts ch;
     st \<leftarrow> ts_zero chptr src isnew newts oldts st;
     let (ts, keep_our, keep_new) = ts_rule isnew newts oldts;
     st \<leftarrow> upd_channel chptr (\<lambda>ch. ch\<lparr>ch_channelts := ts\<rparr>) st;
     let md = merge_modes keep_our keep_new md (ch_mode ch);
     st \<leftarrow> (if keep_our then Some st else do { st \<leftarrow> remove_our_modes chptr st; ts_notice chptr oldts newts st });
     st \<leftarrow> set_final_mode (cl_name src) chptr md (ch_mode ch) st;
     st \<leftarrow> upd_channel chptr (\<lambda>ch. ch\<lparr>ch_mode := md\<rparr>) st;
     Some (keep_our, keep_new, st)
   }"

definition lose_bans :: "jenv \<Rightarrow> ptr \<Rightarrow> Client \<Rightarrow> jstate \<Rightarrow> jstate option" where
  "lose_bans env chptr src st = do {
     ch \<leftarrow> cw_channels (js_w st) chptr;
     st \<leftarrow> (if ch_banlist ch \<noteq> [] then remove_ban_list env chptr src Banlist (CHR ''b'') NOCAPS ALL_MEMBERS st else Some st);
     st \<leftarrow> (if ch_exceptlist ch \<noteq> [] then remove_ban_list env chptr src Exceptlist (CHR ''e'') CAP_EX ONLY_CHANOPS st else Some st);
     st \<leftarrow> (if ch_invexlist ch \<noteq> [] then remove_ban_list env chptr src Invexlist (CHR ''I'') CAP_IE ONLY_CHANOPS st else Some st);
     upd_channel chptr (\<lambda>ch. ch\<lparr>ch_ban_serial := ch_ban_serial ch + 1\<rparr>) st
   }"

definition sjoin_header :: "string \<Rightarrow> Channel \<Rightarrow> string \<Rightarrow> string \<Rightarrow> string" where
  "sjoin_header source ch chname modes = '':'' @ source @ '' SJOIN '' @ int_str (ch_channelts ch) @ '' '' @ chname @ '' '' @ modes @ '' :''"

text \<open>After the merge: the users are joined and the line is passed on.\<close>

definition sjoin_users ::
  "jenv \<Rightarrow> ptr \<Rightarrow> ptr option \<Rightarrow> ptr \<Rightarrow> Client \<Rightarrow> ptr \<Rightarrow> bool \<Rightarrow> bool \<Rightarrow> bool \<Rightarrow> string list \<Rightarrow> string \<Rightarrow> jstate \<Rightarrow> jstate option" where
  "sjoin_users env client_p from source_p src chptr isnew keep_our keep_new parv s st = do {
     ch \<leftarrow> cw_channels (js_w st) chptr;
     modes \<leftarrow> (if headc (parv ! 3) \<noteq> CHR ''0'' \<and> keep_new then channel_modes chptr source_p (js_w st) else Some ''0'');
     let pre_nick = sjoin_header (cl_name src) ch (parv ! 2) modes;
     let pre_uid = sjoin_header (use_id src) ch (parv ! 2) modes;
     if length pre_nick < BUFSIZE \<and> length pre_uid < BUFSIZE then do {
       (b, st) \<leftarrow> sjoin_loop env client_p from src chptr (parv ! 2) pre_nick pre_uid keep_new (sjoin_nicks s)
          \<lparr>sj_nick = [], sj_uid = [], sj_status = ([], []), sj_joins = 0\<rparr> st;
       st \<leftarrow> end_status (cl_name src) chptr (CHR ''+'') (sj_status b) st;
       if sj_joins b = 0 then
         (if isnew then do { w \<leftarrow> destroy_channel chptr (js_w st); Some (st\<lparr>js_w := w\<rparr>) } else Some st)
       else do {
         let st = to_servers env from None CAP_TS6 NOCAPS (pre_uid @ butlast (sj_uid b)) st;
         let st = to_servers env from None NOCAPS CAP_TS6 (pre_nick @ butlast (sj_nick b)) st;
         if \<not> keep_our \<and> cl_id src \<noteq> [] then lose_bans env chptr src st else Some st
       }
     } else None
   }"

definition ms_sjoin :: "jenv \<Rightarrow> ptr \<Rightarrow> ptr \<Rightarrow> string list \<Rightarrow> jstate \<Rightarrow> jstate option" where
  "ms_sjoin env client_p source_p parv st =
     (if length parv < 5 \<or> parv ! 4 = [] then Some st
      else if \<not> IsChannelName (parv ! 2) \<or> \<not> check_channel_name (Some (parv ! 2)) \<or> headc (parv ! 2) = CHR ''&'' then Some st
      else case sjoin_modes parv (parv ! 3) 0 \<lparr>md_mode = 0, md_limit = 0, md_key = []\<rparr> of
        None \<Rightarrow> Some st
      | Some (args, md) \<Rightarrow> do {
          let s = dropWhile (\<lambda>c. c = CHR '' '') (parv ! (args + 4));
          if s = [] then Some st
          else do {
            src \<leftarrow> cw_clients (js_w st) source_p;
            c \<leftarrow> cw_clients (js_w st) client_p;
            fr \<leftarrow> cw_clients (js_w st) (cl_from c);
            (r, st) \<leftarrow> open_channel env src (parv ! 2) st;
            case r of
              None \<Rightarrow> Some st
            | Some (chptr, isnew) \<Rightarrow> do {
                (keep_our, keep_new, st) \<leftarrow> sjoin_merge chptr src isnew (c_atol (parv ! 1)) md st;
                sjoin_users env client_p (Some (cl_from fr)) source_p src chptr isnew keep_our keep_new parv s st
              }
          }
        })"

end
