(* ===== verification/Sjoin_Modes.thy ===== *)
theory Sjoin_Modes
  imports Sjoin
begin

text \<open>
  The modes of a channel travel in the SJOIN line: \<^verbatim>\<open>channel_modes\<close> writes them and \<^verbatim>\<open>ms_sjoin\<close> reads them.  What is
  read is what was written, but for the mode +x, which \<^verbatim>\<open>ms_sjoin\<close> does not know.  The merge of two sets of modes
  depends on the two sides only, not on which of them does it.
\<close>

section \<open>Writing and reading modes\<close>

definition SJOIN_BITS :: "32 word" where
  "SJOIN_BITS = MODE_SECRET OR MODE_PRIVATE OR MODE_MODERATED OR MODE_TOPICLIMIT OR MODE_INVITEONLY OR MODE_NOPRIVMSGS OR
     MODE_REGONLY OR MODE_SSLONLY"

lemmas mode_bit_defs = MODE_SECRET_def MODE_PRIVATE_def MODE_MODERATED_def MODE_TOPICLIMIT_def MODE_INVITEONLY_def
  MODE_NOPRIVMSGS_def MODE_REGONLY_def MODE_SSLONLY_def MODE_SPAMPLEASE_def

definition legal_mode :: "Mode \<Rightarrow> bool" where
  "legal_mode md \<longleftrightarrow> 0 \<le> md_limit md \<and> md_limit md < 2 ^ 31 \<and> length (md_key md) < KEYLEN \<and>
     CHR '' '' \<notin> set (md_key md) \<and> CHR '':'' \<notin> set (md_key md)"

definition mode_args :: "Mode \<Rightarrow> string list" where
  "mode_args md = (if md_limit md \<noteq> 0 then [int_str (md_limit md)] else []) @ (if md_key md \<noteq> [] then [md_key md] else [])"

definition mode_word :: "Mode \<Rightarrow> string" where
  "mode_word md = ''+'' @ mode_letters (md_mode md) @ (if md_limit md \<noteq> 0 then ''l'' else []) @ (if md_key md \<noteq> [] then ''k'' else [])"

lemma mode_letters_set: "set (mode_letters m) \<subseteq> set ''spmtinrSx''"
  by (auto simp: mode_letters_def split: if_splits)

lemma mode_letters_length: "length (mode_letters m) \<le> 9"
  by (simp add: mode_letters_def)

lemma single_bit:
  fixes m :: "32 word"
  shows "(if m AND 2 ^ n \<noteq> 0 then 2 ^ n else 0) = m AND 2 ^ n"
proof -
  have "m AND 2 ^ n = (if bit m n then 2 ^ n else 0)"
    by (rule bit_word_eqI) (auto simp: bit_and_iff bit_exp_iff)
  then show ?thesis by auto
qed

lemma one_bits:
  fixes m :: "32 word"
  shows "(if m AND MODE_SECRET \<noteq> 0 then MODE_SECRET else 0) = m AND MODE_SECRET"
    "(if m AND MODE_PRIVATE \<noteq> 0 then MODE_PRIVATE else 0) = m AND MODE_PRIVATE"
    "(if m AND MODE_MODERATED \<noteq> 0 then MODE_MODERATED else 0) = m AND MODE_MODERATED"
    "(if m AND MODE_TOPICLIMIT \<noteq> 0 then MODE_TOPICLIMIT else 0) = m AND MODE_TOPICLIMIT"
    "(if m AND MODE_INVITEONLY \<noteq> 0 then MODE_INVITEONLY else 0) = m AND MODE_INVITEONLY"
    "(if m AND MODE_NOPRIVMSGS \<noteq> 0 then MODE_NOPRIVMSGS else 0) = m AND MODE_NOPRIVMSGS"
    "(if m AND MODE_REGONLY \<noteq> 0 then MODE_REGONLY else 0) = m AND MODE_REGONLY"
    "(if m AND MODE_SSLONLY \<noteq> 0 then MODE_SSLONLY else 0) = m AND MODE_SSLONLY"
proof -
  have b: "(if m AND b \<noteq> 0 then b else 0) = m AND b" if "b = 2 ^ n" for b n unfolding that by (rule single_bit)
  show "(if m AND MODE_SECRET \<noteq> 0 then MODE_SECRET else 0) = m AND MODE_SECRET" by (rule b [of _ 1]) (simp add: mode_bit_defs)
  show "(if m AND MODE_PRIVATE \<noteq> 0 then MODE_PRIVATE else 0) = m AND MODE_PRIVATE" by (rule b [of _ 0]) (simp add: mode_bit_defs)
  show "(if m AND MODE_MODERATED \<noteq> 0 then MODE_MODERATED else 0) = m AND MODE_MODERATED" by (rule b [of _ 2]) (simp add: mode_bit_defs)
  show "(if m AND MODE_TOPICLIMIT \<noteq> 0 then MODE_TOPICLIMIT else 0) = m AND MODE_TOPICLIMIT" by (rule b [of _ 3]) (simp add: mode_bit_defs)
  show "(if m AND MODE_INVITEONLY \<noteq> 0 then MODE_INVITEONLY else 0) = m AND MODE_INVITEONLY" by (rule b [of _ 4]) (simp add: mode_bit_defs)
  show "(if m AND MODE_NOPRIVMSGS \<noteq> 0 then MODE_NOPRIVMSGS else 0) = m AND MODE_NOPRIVMSGS" by (rule b [of _ 5]) (simp add: mode_bit_defs)
  show "(if m AND MODE_REGONLY \<noteq> 0 then MODE_REGONLY else 0) = m AND MODE_REGONLY" by (rule b [of _ 6]) (simp add: mode_bit_defs)
  show "(if m AND MODE_SSLONLY \<noteq> 0 then MODE_SSLONLY else 0) = m AND MODE_SSLONLY" by (rule b [of _ 7]) (simp add: mode_bit_defs)
qed

lemma sjoin_modes_bit:
  assumes "c \<noteq> CHR ''k''" "c \<noteq> CHR ''l''"
  shows "sjoin_modes parv ((if P then [c] else []) @ s) a md =
    sjoin_modes parv s a (md\<lparr>md_mode := md_mode md OR (if P then sjoin_bits c else 0)\<rparr>)"
  using assms by simp

lemma sjoin_modes_letters:
  "sjoin_modes parv (mode_letters m @ s) a md = sjoin_modes parv s a (md\<lparr>md_mode := md_mode md OR (m AND SJOIN_BITS)\<rparr>)"
proof -
  note bits = one_bits [of m]
  have sb: "sjoin_bits (CHR ''s'') = MODE_SECRET" "sjoin_bits (CHR ''p'') = MODE_PRIVATE" "sjoin_bits (CHR ''m'') = MODE_MODERATED"
    "sjoin_bits (CHR ''t'') = MODE_TOPICLIMIT" "sjoin_bits (CHR ''i'') = MODE_INVITEONLY" "sjoin_bits (CHR ''n'') = MODE_NOPRIVMSGS"
    "sjoin_bits (CHR ''r'') = MODE_REGONLY" "sjoin_bits (CHR ''S'') = MODE_SSLONLY" "sjoin_bits (CHR ''x'') = 0"
    by (simp_all add: sjoin_bits_def)
  show ?thesis
    unfolding mode_letters_def append_assoc
    by ((subst sjoin_modes_bit, simp, simp)+, simp only: sb bits if_cancel)
      (simp add: SJOIN_BITS_def bit.conj_disj_distrib or.assoc)
qed

section \<open>Decimal numbers\<close>

lemma atoi_int_str:
  assumes "0 \<le> n"
  shows "atoi (int_str n) = n"
proof -
  obtain c cs where c: "nat_str (nat n) = c # cs" by (cases "nat_str (nat n)") auto
  have "digit_char c" using nat_str_digits c by (metis list.set_intros(1))
  then have "atoi (nat_str (nat n)) = atoi_digits 0 (nat_str (nat n))" unfolding c
    by (auto simp: atoi_def digit_char_def)
  then show ?thesis using assms by (simp add: int_str_def atoi_nat_str)
qed

lemma c_atoi_str: "0 \<le> n \<Longrightarrow> n < 2 ^ 31 \<Longrightarrow> c_atoi (int_str n) = n"
  by (simp add: c_atoi_def c_atol_def atoi_int_str sint_sbintrunc' signed_take_bit_int_eq_self)

lemma c_atol_str: "0 \<le> n \<Longrightarrow> n < 2 ^ 63 \<Longrightarrow> c_atol (int_str n) = n"
  by (simp add: c_atol_def atoi_int_str)

lemma int_str_no_space: "0 \<le> n \<Longrightarrow> CHR '' '' \<notin> set (int_str n)"
  using nat_str_digits [of "CHR '' ''"] by (auto simp: int_str_def digit_char_def)

section \<open>The round trip\<close>

lemma channel_modes_full:
  assumes ch: "cw_channels w chp = Some ch" and c: "cw_clients w p = Some c" "\<not> MyClient c" and legal: "legal_mode (ch_mode ch)"
  shows "channel_modes chp p w = Some (concat (map (\<lambda>x. x @ '' '') (butlast (mode_word (ch_mode ch) # mode_args (ch_mode ch)))) @
    last (mode_word (ch_mode ch) # mode_args (ch_mode ch)))"
proof -
  let ?md = "ch_mode ch"
  have n: "nat (md_limit ?md) < 10 ^ 10" using legal by (auto simp: legal_mode_def)
  have "length (int_str (md_limit ?md)) \<le> 10" using nat_str_length [OF n] legal by (simp add: int_str_def legal_mode_def)
  moreover have "length (md_key ?md) < 24" using legal by (simp add: legal_mode_def KEYLEN_def)
  ultimately show ?thesis
    using ch c mode_letters_length [of "md_mode ?md"]
    by (simp add: channel_modes_def mode_word_def mode_args_def Let_def BUFSIZE_def)
qed

lemma sjoin_modes_roundtrip:
  assumes "legal_mode md" "length parv = 5 + length (mode_args md)" "take (length (mode_args md)) (drop 4 parv) = mode_args md"
  shows "sjoin_modes parv (mode_word md) 0 \<lparr>md_mode = 0, md_limit = 0, md_key = []\<rparr> =
    Some (length (mode_args md), md\<lparr>md_mode := md_mode md AND SJOIN_BITS\<rparr>)"
proof -
  have key: "rb_strlcpy (md_key md) KEYLEN = md_key md" using assms(1) by (auto simp: rb_strlcpy_def legal_mode_def)
  have lim: "c_atoi (int_str (md_limit md)) = md_limit md" using assms(1) by (intro c_atoi_str) (auto simp: legal_mode_def)
  have nth: "parv ! (4 + i) = mode_args md ! i" if "i < length (mode_args md)" for i
    using that assms(2) by (subst assms(3) [symmetric]) simp
  have w: "sjoin_modes parv (mode_word md) 0 \<lparr>md_mode = 0, md_limit = 0, md_key = []\<rparr> =
    sjoin_modes parv ((if md_limit md \<noteq> 0 then ''l'' else []) @ (if md_key md \<noteq> [] then ''k'' else [])) 0
      \<lparr>md_mode = md_mode md AND SJOIN_BITS, md_limit = 0, md_key = []\<rparr>"
    using sjoin_modes_letters [of parv "md_mode md" _ 0 "\<lparr>md_mode = 0, md_limit = 0, md_key = []\<rparr>"]
    by (simp add: mode_word_def sjoin_bits_def)
  have "md\<lparr>md_mode := md_mode md AND SJOIN_BITS\<rparr> = \<lparr>md_mode = md_mode md AND SJOIN_BITS, md_limit = md_limit md, md_key = md_key md\<rparr>"
    by (cases md) simp
  then show ?thesis unfolding w using key lim nth [of 0] nth [of 1] assms(2)
    by (cases "md_limit md = 0"; cases "md_key md = []") (simp_all add: mode_args_def)
qed

section \<open>The merge\<close>

lemma strcmp_less_asym: "strcmp_less a b \<Longrightarrow> \<not> strcmp_less b a"
  by (induction a b rule: strcmp_less.induct) auto

lemma strcmp_less_linear: "\<not> strcmp_less a b \<Longrightarrow> \<not> strcmp_less b a \<Longrightarrow> a = b"
proof (induction a b rule: strcmp_less.induct)
  case (1 s)
  then show ?case by (cases s) auto
next
  case (3 x xs y ys)
  then have "(of_char x :: nat) = of_char y" by auto
  then have "x = y" by (simp add: inj_on_eq_iff)
  then show ?case using 3 by auto
qed simp

definition outcome :: "int \<Rightarrow> Mode \<Rightarrow> int \<Rightarrow> Mode \<Rightarrow> int \<times> Mode" where
  "outcome newts md oldts old =
     (case ts_rule False newts oldts of (ts, keep_our, keep_new) \<Rightarrow> (ts, merge_modes keep_our keep_new md old))"

lemma outcome_comm: "outcome a m b n = outcome b n a m"
  using strcmp_less_asym [of "md_key m" "md_key n"] strcmp_less_linear [of "md_key m" "md_key n"]
  by (auto simp: outcome_def ts_rule_def merge_modes_def or.commute)

section \<open>What happens to the modes of a channel in the rest of SJOIN\<close>

definition keeps_modes :: "jstate \<Rightarrow> jstate \<Rightarrow> bool" where
  "keeps_modes st st' \<longleftrightarrow> (\<forall>p ch. cw_channels (js_w st) p = Some ch \<longrightarrow>
     (\<exists>ch'. cw_channels (js_w st') p = Some ch' \<and> ch_mode ch' = ch_mode ch \<and> ch_channelts ch' = ch_channelts ch))"

lemma keeps_modes_refl [simp]: "js_w st' = js_w st \<Longrightarrow> keeps_modes st st'"
  by (simp add: keeps_modes_def)

lemma keeps_modes_trans: "keeps_modes a b \<Longrightarrow> keeps_modes b c \<Longrightarrow> keeps_modes a c"
  unfolding keeps_modes_def by metis

lemma out_simps [simp]:
  "js_w (put_out x st) = js_w st" "js_next (put_out x st) = js_next st"
  "js_w (to_servers env o1 c ca nc l st) = js_w st" "js_next (to_servers env o1 c ca nc l st) = js_next st"
  "js_w (to_source n a st) = js_w st" "js_next (to_source n a st) = js_next st"
  by (simp_all add: put_out_def to_servers_def to_source_def)

lemma sendto_channel_local_w:
  "sendto_channel_local ty chp l st = Some st' \<Longrightarrow> js_w st' = js_w st \<and> js_next st' = js_next st"
  by (auto simp: sendto_channel_local_def split: Option.bind_splits)

lemma flush_status_w: "flush_status n chp g b st = Some (b', st') \<Longrightarrow> js_w st' = js_w st \<and> js_next st' = js_next st"
  by (auto simp: flush_status_def dest: sendto_channel_local_w split: Option.bind_splits if_splits)

lemma status_letter_w: "status_letter n chp g k on c b st = Some (b', st') \<Longrightarrow> js_w st' = js_w st \<and> js_next st' = js_next st"
  by (auto simp: status_letter_def dest!: flush_status_w split: Option.bind_splits if_splits)

lemma tell_status_w: "tell_status n chp g k fl b st = Some (b', st') \<Longrightarrow> js_w st' = js_w st \<and> js_next st' = js_next st"
  by (auto simp: tell_status_def dest!: flush_status_w status_letter_w split: Option.bind_splits)

lemma end_status_w: "end_status n chp g b st = Some st' \<Longrightarrow> js_w st' = js_w st \<and> js_next st' = js_next st"
  by (auto simp: end_status_def dest: sendto_channel_local_w split: Option.bind_splits if_splits)

lemma ts_notice_w: "ts_notice chp a b st = Some st' \<Longrightarrow> js_w st' = js_w st \<and> js_next st' = js_next st"
  by (auto simp: ts_notice_def dest: sendto_channel_local_w split: Option.bind_splits)

lemma ts_zero_w: "ts_zero chp c n a b st = Some st' \<Longrightarrow> js_w st' = js_w st \<and> js_next st' = js_next st"
  by (auto simp: ts_zero_def dest!: ts_notice_w split: Option.bind_splits if_splits)

lemma set_final_mode_w: "set_final_mode n chp a b st = Some st' \<Longrightarrow> js_w st' = js_w st \<and> js_next st' = js_next st"
  by (auto simp: set_final_mode_def dest: sendto_channel_local_w split: Option.bind_splits if_splits prod.splits)

lemma sjoin_room_w: "sjoin_room env fr x y n pre b st = Some (b', st') \<Longrightarrow> js_w st' = js_w st \<and> js_next st' = js_next st"
  by (auto simp: sjoin_room_def split: if_splits)

lemma announce_join_w: "announce_join chp c n st = Some st' \<Longrightarrow> js_w st' = js_w st \<and> js_next st' = js_next st"
  by (auto simp: announce_join_def dest: sendto_channel_local_w)

lemmas frame_w = sendto_channel_local_w flush_status_w status_letter_w tell_status_w end_status_w ts_notice_w ts_zero_w set_final_mode_w
  sjoin_room_w announce_join_w

lemma add_member_modes: "add_member chp cp fl st = Some st' \<Longrightarrow> keeps_modes st st'"
  by (auto simp: add_member_def add_user_to_channel_def keeps_modes_def Let_def split: Option.bind_splits option.splits)

lemma sjoin_one_modes:
  assumes "sjoin_one env cp fr src chp n pn pu kn tok b st = Some (b', st')"
  shows "keeps_modes st st'"
  using assms add_member_modes
  by (fastforce simp: sjoin_one_def Let_def keeps_modes_def dest!: frame_w split: Option.bind_splits option.splits if_splits prod.splits)

lemma sjoin_loop_modes:
  "sjoin_loop env cp fr src chp n pn pu kn toks b st = Some (b', st') \<Longrightarrow> keeps_modes st st'"
proof (induction toks arbitrary: b st)
  case (Cons tok toks)
  then obtain b1 st1 where "sjoin_one env cp fr src chp n pn pu kn tok b st = Some (b1, st1)"
    "sjoin_loop env cp fr src chp n pn pu kn toks b1 st1 = Some (b', st')"
    by (auto split: Option.bind_splits)
  then show ?case using Cons.IH sjoin_one_modes keeps_modes_trans by blast
qed simp

lemma upd_channel_modes:
  "upd_channel chp f st = Some st' \<Longrightarrow> (\<And>ch. ch_mode (f ch) = ch_mode ch \<and> ch_channelts (f ch) = ch_channelts ch) \<Longrightarrow> keeps_modes st st'"
  by (auto simp: upd_channel_def keeps_modes_def split: Option.bind_splits)

lemma send_bans_w: "send_bans env src chp pre cap mems b st = Some st' \<Longrightarrow> js_w st' = js_w st \<and> js_next st' = js_next st"
  by (auto simp: send_bans_def Let_def dest!: frame_w split: Option.bind_splits if_splits)

lemma rban_loop_w: "rban_loop env src chp pre c cap mems bans b st = Some (b', st') \<Longrightarrow> js_w st' = js_w st \<and> js_next st' = js_next st"
proof (induction bans arbitrary: b st)
  case (Cons ban bans)
  then show ?case by (fastforce simp: Let_def dest: send_bans_w split: Option.bind_splits if_splits)
qed simp

lemma set_bans_modes [simp]: "ch_mode (set_bans l bs ch) = ch_mode ch" "ch_channelts (set_bans l bs ch) = ch_channelts ch"
  by (cases l; simp)+

lemma remove_ban_list_modes: "remove_ban_list env chp src l c cap mems st = Some st' \<Longrightarrow> keeps_modes st st'"
  by (auto simp: remove_ban_list_def Let_def upd_channel_def keeps_modes_def dest!: rban_loop_w send_bans_w
      split: Option.bind_splits if_splits)

lemma lose_bans_modes:
  assumes "lose_bans env chp src st = Some st'"
  shows "keeps_modes st st'"
proof -
  from assms obtain ch st1 st2 st3 where s: "keeps_modes st st1" "keeps_modes st1 st2" "keeps_modes st2 st3"
    "upd_channel chp (\<lambda>ch. ch\<lparr>ch_ban_serial := ch_ban_serial ch + 1\<rparr>) st3 = Some st'"
    unfolding lose_bans_def
    by (clarsimp split: Option.bind_splits) (metis (no_types, lifting) keeps_modes_refl option.inject remove_ban_list_modes)
  have "keeps_modes st3 st'" by (rule upd_channel_modes [OF s(4)]) simp
  then show ?thesis using s keeps_modes_trans by blast
qed

lemma deop_loop_channels:
  "deop_loop n chp mps b st = Some (b', st') \<Longrightarrow> cw_channels (js_w st') = cw_channels (js_w st)"
proof (induction mps arbitrary: b st)
  case (Cons mp mps)
  show ?case using Cons.prems by (auto simp: Let_def dest!: tell_status_w Cons.IH split: Option.bind_splits if_splits)
qed simp

lemma remove_our_modes_channels: "remove_our_modes chp st = Some st' \<Longrightarrow> cw_channels (js_w st') = cw_channels (js_w st)"
  by (auto simp: remove_our_modes_def dest!: deop_loop_channels end_status_w split: Option.bind_splits)

lemma sjoin_merge_outcome:
  assumes r: "sjoin_merge chp src False newts md st = Some (ko, kn, st')" and ch: "cw_channels (js_w st) chp = Some ch"
  shows "\<exists>ch'. cw_channels (js_w st') chp = Some ch' \<and> (ch_channelts ch', ch_mode ch') = outcome newts md (ch_channelts ch) (ch_mode ch)"
proof -
  obtain ts keep_our keep_new where t: "ts_rule False newts (ch_channelts ch) = (ts, keep_our, keep_new)"
    by (cases "ts_rule False newts (ch_channelts ch)")
  show ?thesis
    using r ch t
    by (cases keep_our) (auto simp: sjoin_merge_def Let_def outcome_def upd_channel_def
        dest!: ts_zero_w set_final_mode_w remove_our_modes_channels ts_notice_w split: Option.bind_splits)
qed

lemma open_channel_found:
  assumes "find_channel (cw_channels (js_w st)) (cw_tabs (js_w st)) (Some name) = Some (Some p)" "name \<noteq> []" "length name \<le> CHANNELLEN"
    "open_channel env c name st = Some (r, st')"
  shows "r = Some (p, False)" "js_w st' = js_w st"
  using assms by (auto simp: open_channel_def get_or_create_eq find_channel_def chan_request_def split: Option.bind_splits)

lemma keeps_modes_out [simp]:
  "keeps_modes (to_servers env o1 c ca nc l st) st' = keeps_modes st st'"
  "keeps_modes st (to_servers env o1 c ca nc l st') = keeps_modes st st'"
  by (simp_all add: keeps_modes_def)

lemma keeps_modes_w: "keeps_modes a b \<Longrightarrow> js_w c = js_w b \<and> n \<Longrightarrow> keeps_modes a c"
  by (simp add: keeps_modes_def)

lemma sjoin_users_modes:
  assumes r: "sjoin_users env client_p fr source_p src chp False ko kn parv s st = Some st'"
  shows "keeps_modes st st'"
proof -
  obtain pn pu b st1 where l: "sjoin_loop env client_p fr src chp (parv ! 2) pn pu kn (sjoin_nicks s)
          \<lparr>sj_nick = [], sj_uid = [], sj_status = ([], []), sj_joins = 0\<rparr> st = Some (b, st1)"
    and r1: "do { st \<leftarrow> end_status (cl_name src) chp (CHR ''+'') (sj_status b) st1;
       if sj_joins b = 0 then Some st
       else do {
         let st = to_servers env fr None CAP_TS6 NOCAPS (pu @ butlast (sj_uid b)) st;
         let st = to_servers env fr None NOCAPS CAP_TS6 (pn @ butlast (sj_nick b)) st;
         if \<not> ko \<and> cl_id src \<noteq> [] then lose_bans env chp src st else Some st
       } } = Some st'"
    using r by (auto simp: sjoin_users_def Let_def bind_eq_Some_conv split: if_split_asm)
  then obtain st2 where e: "end_status (cl_name src) chp (CHR ''+'') (sj_status b) st1 = Some st2" by (auto simp: bind_eq_Some_conv)
  have k: "keeps_modes st st2" by (rule keeps_modes_w [OF sjoin_loop_modes [OF l] end_status_w [OF e]])
  have "keeps_modes st2 st'" using r1 e by (auto simp: Let_def split: if_split_asm dest!: lose_bans_modes)
  then show ?thesis using k keeps_modes_trans by blast
qed

lemma ms_sjoin_outcome:
  assumes r: "ms_sjoin env client_p source_p parv st = Some st'"
    and parv: "length parv \<ge> 5" "parv ! 4 \<noteq> []" "IsChannelName (parv ! 2)" "check_channel_name (Some (parv ! 2))" "headc (parv ! 2) \<noteq> CHR ''&''"
      "sjoin_modes parv (parv ! 3) 0 \<lparr>md_mode = 0, md_limit = 0, md_key = []\<rparr> = Some (args, md)"
      "dropWhile (\<lambda>c. c = CHR '' '') (parv ! (args + 4)) \<noteq> []"
    and name: "parv ! 2 \<noteq> []" "length (parv ! 2) \<le> CHANNELLEN"
    and found: "find_channel (cw_channels (js_w st)) (cw_tabs (js_w st)) (Some (parv ! 2)) = Some (Some p)"
    and ch: "cw_channels (js_w st) p = Some ch"
  shows "\<exists>ch'. cw_channels (js_w st') p = Some ch' \<and> (ch_channelts ch', ch_mode ch') = outcome (c_atol (parv ! 1)) md (ch_channelts ch) (ch_mode ch)"
proof -
  from r parv obtain src o1 st1 where src: "cw_clients (js_w st) source_p = Some src"
    and o: "open_channel env src (parv ! 2) st = Some (o1, st1)"
    by (auto simp: ms_sjoin_def Let_def split: Option.bind_splits if_splits)
  note f = open_channel_found [OF found name o]
  from r parv f o src obtain ko kn st2 fr s where
    m: "sjoin_merge p src False (c_atol (parv ! 1)) md st1 = Some (ko, kn, st2)"
    and u: "sjoin_users env client_p fr source_p src p False ko kn parv s st2 = Some st'"
    by (auto simp: ms_sjoin_def Let_def bind_eq_Some_conv split: if_splits)
  from sjoin_merge_outcome [OF m] ch f(2) obtain ch2 where
    "cw_channels (js_w st2) p = Some ch2" "(ch_channelts ch2, ch_mode ch2) = outcome (c_atol (parv ! 1)) md (ch_channelts ch) (ch_mode ch)"
    by auto
  then show ?thesis using sjoin_users_modes [OF u] unfolding keeps_modes_def by (metis prod.inject)
qed

section \<open>Words of the line\<close>

lemma split_on_ne [simp]: "split_on d s \<noteq> []"
  by (induction s) (auto split: list.splits)

lemma split_on_none: "d \<notin> set s \<Longrightarrow> split_on d s = [s]"
  by (induction s) auto

lemma split_on_append: "split_on d (a @ d # b) = split_on d a @ split_on d b"
  by (induction a) (auto split: list.splits)

lemma split_on_join:
  assumes "ws \<noteq> []" "\<forall>x \<in> set ws. d \<notin> set x"
  shows "split_on d (concat (map (\<lambda>x. x @ [d]) (butlast ws)) @ last ws) = ws"
  using assms
proof (induction ws)
  case (Cons x ws)
  then show ?case by (cases ws) (auto simp: split_on_none split_on_append)
qed simp

lemma mode_words:
  assumes "legal_mode md"
  shows "\<forall>x \<in> set (mode_word md # mode_args md). CHR '' '' \<notin> set x"
  using assms int_str_no_space [of "md_limit md"] mode_letters_set [of "md_mode md"]
  by (auto simp: mode_word_def mode_args_def legal_mode_def split: if_splits)

lemma channel_modes_words:
  assumes "cw_channels w chp = Some ch" "cw_clients w p = Some c" "\<not> MyClient c" "legal_mode (ch_mode ch)"
  shows "\<exists>s. channel_modes chp p w = Some s \<and> split_on (CHR '' '') s = mode_word (ch_mode ch) # mode_args (ch_mode ch)"
  using channel_modes_full [OF assms] split_on_join [OF _ mode_words [OF assms(4)]] by simp

section \<open>Two servers agree\<close>

definition sjoin_parv :: "string \<Rightarrow> int \<Rightarrow> string \<Rightarrow> string \<Rightarrow> string \<Rightarrow> string list" where
  "sjoin_parv prefix ts name modes nicks = [prefix, int_str ts, name] @ split_on (CHR '' '') modes @ [nicks]"

definition burst_channel :: "Channel \<Rightarrow> bool" where
  "burst_channel ch \<longleftrightarrow> legal_mode (ch_mode ch) \<and> 0 \<le> ch_channelts ch \<and> ch_channelts ch < 2 ^ 63"

text \<open>What SJOIN carries of the modes: all but +x, which is written and not read.\<close>

definition carried :: "Mode \<Rightarrow> Mode" where
  "carried md = md\<lparr>md_mode := md_mode md AND SJOIN_BITS\<rparr>"

lemma carried_fields [simp]: "md_limit (carried md) = md_limit md" "md_key (carried md) = md_key md" "md_mode (carried md) = md_mode md AND SJOIN_BITS"
  by (simp_all add: carried_def)

lemma sjoin_bits_whole:
  assumes "md_mode md AND NOT SJOIN_BITS = 0"
  shows "carried md = md"
proof -
  have "md_mode md AND (SJOIN_BITS OR NOT SJOIN_BITS) = md_mode md AND SJOIN_BITS"
    using assms by (simp only: bit.conj_disj_distrib or.right_neutral)
  then have "md_mode md AND SJOIN_BITS = md_mode md" by simp
  then show ?thesis by (cases md) (simp add: carried_def)
qed

lemma carried_outcome: "map_prod id carried (outcome a (carried m) b n) = outcome a (carried m) b (carried n)"
  by (auto simp: outcome_def ts_rule_def merge_modes_def carried_def bit.conj_disj_distrib2 and.assoc)

lemma carried_outcome_comm:
  "map_prod id carried (outcome a (carried m) b n) = map_prod id carried (outcome b (carried n) a m)"
  unfolding carried_outcome by (rule outcome_comm)

lemma sjoin_parv_outcome:
  assumes b: "burst_channel chB" and s: "split_on (CHR '' '') s = mode_word (ch_mode chB) # mode_args (ch_mode chB)"
    and name: "IsChannelName name" "check_channel_name (Some name)" "headc name \<noteq> CHR ''&''" "length name \<le> CHANNELLEN" "name \<noteq> []"
    and nicks: "dropWhile (\<lambda>c. c = CHR '' '') nicks \<noteq> []"
    and found: "find_channel (cw_channels (js_w st)) (cw_tabs (js_w st)) (Some name) = Some (Some p)"
    and ch: "cw_channels (js_w st) p = Some ch"
    and r: "ms_sjoin env client_p source_p (sjoin_parv prefix (ch_channelts chB) name s nicks) st = Some st'"
  shows "\<exists>ch'. cw_channels (js_w st') p = Some ch' \<and>
    (ch_channelts ch', ch_mode ch') = outcome (ch_channelts chB) (carried (ch_mode chB)) (ch_channelts ch) (ch_mode ch)"
proof -
  let ?md = "ch_mode chB"
  let ?parv = "sjoin_parv prefix (ch_channelts chB) name s nicks"
  have parv: "?parv = [prefix, int_str (ch_channelts chB), name, mode_word ?md] @ mode_args ?md @ [nicks]"
    by (simp add: sjoin_parv_def s)
  have legal: "legal_mode ?md" using b by (simp add: burst_channel_def)
  have m: "sjoin_modes ?parv (?parv ! 3) 0 \<lparr>md_mode = 0, md_limit = 0, md_key = []\<rparr> = Some (length (mode_args ?md), carried ?md)"
    using sjoin_modes_roundtrip [OF legal, of ?parv] by (simp add: parv carried_def)
  have n: "?parv ! (length (mode_args ?md) + 4) = nicks" by (simp add: parv nth_append)
  have "?parv ! 4 \<noteq> []"
    using nicks by (auto simp: parv mode_args_def int_str_def nth_Cons nth_append split: if_splits)
  moreover have "c_atol (?parv ! 1) = ch_channelts chB" using b by (simp add: parv c_atol_str burst_channel_def)
  ultimately show ?thesis
    using ms_sjoin_outcome [OF r _ _ _ _ _ m, of p ch] name nicks n found ch by (simp add: parv)
qed

text \<open>
  C12: Two servers that hold the same channel and send each other their SJOIN end with the same
  creation time and the same modes in everything SJOIN carries, that is limit, key and all mode
  letters but x, whatever the times (0 included) and whatever legal modes they start with; when
  neither side has +x their modes are equal altogether. (channel_modes writes x and ms_sjoin does
  not read it.) Both lines are processed to the end and name at least one user.
\<close>

theorem sjoin_converges:
  assumes A: "find_channel (cw_channels (js_w stA)) (cw_tabs (js_w stA)) (Some name) = Some (Some pA)"
      "cw_channels (js_w stA) pA = Some chA" "burst_channel chA"
      "cw_clients (js_w stA) linkA = Some lA" "\<not> MyClient lA" "channel_modes pA linkA (js_w stA) = Some modesA"
    and B: "find_channel (cw_channels (js_w stB)) (cw_tabs (js_w stB)) (Some name) = Some (Some pB)"
      "cw_channels (js_w stB) pB = Some chB" "burst_channel chB"
      "cw_clients (js_w stB) linkB = Some lB" "\<not> MyClient lB" "channel_modes pB linkB (js_w stB) = Some modesB"
    and name: "IsChannelName name" "check_channel_name (Some name)" "headc name \<noteq> CHR ''&''" "length name \<le> CHANNELLEN" "name \<noteq> []"
    and nicks: "dropWhile (\<lambda>c. c = CHR '' '') nicksA \<noteq> []" "dropWhile (\<lambda>c. c = CHR '' '') nicksB \<noteq> []"
    and rA: "ms_sjoin envA clA srcA (sjoin_parv prefixB (ch_channelts chB) name modesB nicksB) stA = Some stA'"
    and rB: "ms_sjoin envB clB srcB (sjoin_parv prefixA (ch_channelts chA) name modesA nicksA) stB = Some stB'"
  shows "\<exists>cA cB. cw_channels (js_w stA') pA = Some cA \<and> cw_channels (js_w stB') pB = Some cB \<and>
    ch_channelts cA = ch_channelts cB \<and> carried (ch_mode cA) = carried (ch_mode cB) \<and>
    (md_mode (ch_mode chA) AND NOT SJOIN_BITS = 0 \<longrightarrow> md_mode (ch_mode chB) AND NOT SJOIN_BITS = 0 \<longrightarrow> ch_mode cA = ch_mode cB)"
proof -
  have sA: "split_on (CHR '' '') modesA = mode_word (ch_mode chA) # mode_args (ch_mode chA)"
    using channel_modes_words [OF A(2,4,5)] A(3,6) by (auto simp: burst_channel_def)
  have sB: "split_on (CHR '' '') modesB = mode_word (ch_mode chB) # mode_args (ch_mode chB)"
    using channel_modes_words [OF B(2,4,5)] B(3,6) by (auto simp: burst_channel_def)
  from sjoin_parv_outcome [OF B(3) sB name nicks(2) A(1,2) rA] obtain cA where
    cA: "cw_channels (js_w stA') pA = Some cA" "(ch_channelts cA, ch_mode cA) = outcome (ch_channelts chB) (carried (ch_mode chB)) (ch_channelts chA) (ch_mode chA)" by blast
  from sjoin_parv_outcome [OF A(3) sA name nicks(1) B(1,2) rB] obtain cB where
    cB: "cw_channels (js_w stB') pB = Some cB" "(ch_channelts cB, ch_mode cB) = outcome (ch_channelts chA) (carried (ch_mode chA)) (ch_channelts chB) (ch_mode chB)" by blast
  have "map_prod id carried (ch_channelts cA, ch_mode cA) = map_prod id carried (ch_channelts cB, ch_mode cB)"
    unfolding cA(2) cB(2) by (rule carried_outcome_comm)
  moreover have "ch_mode cA = ch_mode cB" if "md_mode (ch_mode chA) AND NOT SJOIN_BITS = 0" "md_mode (ch_mode chB) AND NOT SJOIN_BITS = 0"
    using cA(2) cB(2) outcome_comm [of "ch_channelts chA" "ch_mode chA" "ch_channelts chB" "ch_mode chB"]
    unfolding sjoin_bits_whole [OF that(1)] sjoin_bits_whole [OF that(2)] by (metis prod.inject)
  ultimately show ?thesis using cA(1) cB(1) by auto
qed

end
