(* ===== verification/Join_Inv.thy ===== *)
theory Join_Inv
  imports Sjoin_Modes Mode_Props
begin

text \<open>
  JOIN and SJOIN keep the channel subsystem right: whatever line arrives, the membership lists, the channel table and
  the cached ban verdicts stay consistent, and JOIN 0 leaves every channel.
\<close>

section \<open>The invariant\<close>

text \<open>
  Besides the invariant of the channel subsystem: the allocator's addresses are free, every user has its list of
  channels, no ban serial has reached its last value, and the clients in \<open>U\<close> are users.
\<close>

definition jinv :: "bool \<Rightarrow> ptr set \<Rightarrow> jstate \<Rightarrow> bool" where
  "jinv ue U st \<longleftrightarrow> chan_inv ue (js_w st) \<and>
     (\<forall>p \<ge> js_next st. cw_channels (js_w st) p = None \<and> cw_members (js_w st) p = None) \<and>
     (\<forall>p c. cw_clients (js_w st) p = Some c \<longrightarrow> IsClient c \<longrightarrow> cl_user c \<noteq> None) \<and>
     (\<forall>p ch. cw_channels (js_w st) p = Some ch \<longrightarrow> ch_ban_serial ch \<noteq> -1) \<and>
     (\<forall>p \<in> U. \<exists>c. cw_clients (js_w st) p = Some c \<and> IsClient c)"

lemma jinvD:
  assumes "jinv ue U st"
  shows "chan_inv ue (js_w st)" "p \<ge> js_next st \<Longrightarrow> cw_channels (js_w st) p = None \<and> cw_members (js_w st) p = None"
    "cw_clients (js_w st) p = Some c \<Longrightarrow> IsClient c \<Longrightarrow> \<exists>l. cl_user c = Some l"
    "cw_channels (js_w st) p = Some ch \<Longrightarrow> ch_ban_serial ch \<noteq> -1"
    "p \<in> U \<Longrightarrow> \<exists>c. cw_clients (js_w st) p = Some c \<and> IsClient c"
  using assms unfolding jinv_def by auto

lemma jinv_cong: "js_w st' = js_w st \<and> js_next st' = js_next st \<Longrightarrow> jinv ue U st' = jinv ue U st"
  by (simp add: jinv_def)

lemma jinv_out [simp]:
  "jinv ue U (put_out o1 st) = jinv ue U st" "jinv ue U (to_servers env o2 c ca nc l st) = jinv ue U st"
  "jinv ue U (to_source n args st) = jinv ue U st"
  by (simp_all add: jinv_def put_out_def to_servers_def to_source_def)

lemma touch_client_inv:
  assumes inv: "chan_inv ue w" and c: "cw_clients w p = Some c" and s: "same_user c c'" "src_masks c' = src_masks c"
  shows "chan_inv ue (set_client p c' w)"
proof -
  have "users_sim (cw_clients w) (cw_clients (set_client p c' w))" using users_sim_upd [of "cw_clients w" "cw_clients w" p c c'] c s(1) by simp
  then have "cworld_ok (set_client p c' w)"
    using inv cworld_okD(7) [of w] cworld_ok_users_sim [of w "set_client p c' w"] by (simp add: chan_inv_def)
  moreover have "shrinks w (set_client p c' w)" using c s by (intro shrinks_set_client) (auto simp: same_masks_def same_user_def)
  ultimately show ?thesis using inv bans_ok_shrinks by (auto simp: chan_inv_def)
qed

lemma touch_channel_inv:
  assumes inv: "chan_inv ue w" and ch: "cw_channels w p = Some ch"
    and same: "same_bans ch ch'" "ch_members ch' = ch_members ch" "ch_locmembers ch' = ch_locmembers ch" "ch_chname ch' = ch_chname ch"
      "ch_invites ch' = ch_invites ch"
  shows "chan_inv ue (set_channel p ch' w)"
  using inv bans_ok_shrinks [OF _ shrinks_set_channel [OF ch same(1)]] cworld_ok_list_change [OF _ ch same(2-5)]
  by (auto simp: chan_inv_def)

lemma jinv_set_client:
  assumes inv: "jinv ue U st" and c: "cw_clients (js_w st) p = Some c" and s: "same_user c c'" "src_masks c' = src_masks c"
  shows "jinv ue U (st\<lparr>js_w := set_client p c' (js_w st)\<rparr>)"
  using inv touch_client_inv [OF _ c s] c s(1) unfolding jinv_def same_user_def by auto

lemma jinv_upd_local:
  assumes "jinv ue U st" "upd_local p f st = Some st'"
  shows "jinv ue U st'"
  using assms jinv_set_client by (auto simp: upd_local_def same_user_def split: Option.bind_splits)

lemma jinv_upd_channel:
  assumes inv: "jinv ue U st" and r: "upd_channel p f st = Some st'"
    and f: "\<And>ch. same_bans ch (f ch) \<and> ch_members (f ch) = ch_members ch \<and> ch_locmembers (f ch) = ch_locmembers ch \<and>
      ch_chname (f ch) = ch_chname ch \<and> ch_invites (f ch) = ch_invites ch"
  shows "jinv ue U st'"
proof -
  obtain ch where ch: "cw_channels (js_w st) p = Some ch" "st' = st\<lparr>js_w := set_channel p (f ch) (js_w st)\<rparr>"
    using r by (auto simp: upd_channel_def split: Option.bind_splits)
  have "chan_inv ue (set_channel p (f ch) (js_w st))" using touch_channel_inv [OF jinvD(1) [OF inv] ch(1)] f by blast
  moreover have "js_next st > p" using jinvD(2) [OF inv] ch(1) by (metis leI option.distinct(1))
  ultimately show ?thesis using inv ch f [of ch] unfolding jinv_def same_bans_def by auto
qed

lemma jinv_frames:
  "sendto_channel_local t p l st = Some st' \<Longrightarrow> jinv ue U st' = jinv ue U st"
  "ts_notice p ots nts st = Some st' \<Longrightarrow> jinv ue U st' = jinv ue U st"
  "ts_zero p src isn nts ots st = Some st' \<Longrightarrow> jinv ue U st' = jinv ue U st"
  "set_final_mode n p md old st = Some st' \<Longrightarrow> jinv ue U st' = jinv ue U st"
  "tell_status n p sg nick fl b st = Some (b', st') \<Longrightarrow> jinv ue U st' = jinv ue U st"
  "end_status n p sg b st = Some st' \<Longrightarrow> jinv ue U st' = jinv ue U st"
  "announce_join p c n st = Some st' \<Longrightarrow> jinv ue U st' = jinv ue U st"
  by (auto intro!: jinv_cong dest: frame_w)

lemma jinv_spambot: "jinv ue U st \<Longrightarrow> spambot_check env p n st = Some st' \<Longrightarrow> jinv ue U st'"
  by (auto simp: spambot_check_def Let_def split: Option.bind_splits if_splits prod.splits option.splits dest: jinv_upd_local)

lemma jinv_note: "jinv ue U st \<Longrightarrow> note_join env p k st = Some st' \<Longrightarrow> jinv ue U st'"
  by (auto simp: note_join_def split: if_splits dest: jinv_upd_local)

section \<open>Channels and members\<close>

lemma open_channel_result:
  assumes r: "open_channel env c name st = Some (r, st')" and name: "name \<noteq> []"
  obtains (found) p where "r = Some (p, False)" "js_w st' = js_w st" "js_next st' = Suc (js_next st)"
  | (created) gl t where "r = Some (js_next st, True)" "js_next st' = Suc (js_next st)"
      "js_w st' = (js_w st)\<lparr>cw_channels := (cw_channels (js_w st))(js_next st \<mapsto> (allocate_channel (chan_request name))\<lparr>ch_channelts := je_now env\<rparr>),
         cw_glist := gl, cw_tabs := t\<rparr>"
  using r name by (auto simp: open_channel_def get_or_create_eq put_out_def split: option.splits if_splits)

lemma new_channel_simps [simp]:
  "ch_members (allocate_channel s) = []" "ch_ban_serial (allocate_channel s) = 0" "ch_locmembers (allocate_channel s) = []"
  by (simp_all add: allocate_channel_def zero_Channel_def)

lemma jinv_open:
  assumes inv: "jinv ue U st" and r: "open_channel env c name st = Some (r, st')" and name: "name \<noteq> []" "cstring name"
  shows "jinv ue U st'"
proof -
  have i: "chan_inv ue (js_w st')"
  proof -
    obtain r1 n chs gl t where g: "get_or_create_channel (js_next st) (je_now env) c (Some name) (cw_channels (js_w st))
        (cw_glist (js_w st)) (cw_tabs (js_w st)) = Some (r1, n, chs, gl, t)"
      "js_w st' = (js_w st)\<lparr>cw_channels := chs, cw_glist := gl, cw_tabs := t\<rparr>"
      using r by (auto simp: open_channel_def put_out_def split: Option.bind_splits if_splits)
    then show ?thesis using create_inv [OF jinvD(1) [OF inv] name _ g(1)] jinvD(2) [OF inv] by simp
  qed
  from r name(1) show ?thesis
    by (rule open_channel_result) (use inv i in \<open>auto simp: jinv_def\<close>)
qed

definition outsider :: "ptr \<Rightarrow> ptr \<Rightarrow> jstate \<Rightarrow> bool" where
  "outsider chp cp st \<longleftrightarrow> (\<forall>mp. \<not> membership_of chp cp (js_w st) mp)"

lemma outsider_not_member:
  assumes inv: "jinv ue U st" and c: "cw_clients (js_w st) cp = Some c" "IsClient c"
    and r: "IsMember cp chp (js_w st) = Some False" and ch: "cw_channels (js_w st) chp = Some ch"
  shows "outsider chp cp st"
proof -
  obtain l where l: "cl_user c = Some l" using jinvD(3) [OF inv c] by blast
  have ok: "cworld_ok (js_w st)" using jinvD(1) [OF inv] by (simp add: chan_inv_def)
  from find_channel_membership_spec [OF ok c l ch] obtain r where
    "find_channel_membership chp cp (js_w st) = Some r" "\<forall>mp. r = Some mp \<longleftrightarrow> membership_of chp cp (js_w st) mp" by blast
  with r c l show ?thesis by (auto simp: IsMember_def outsider_def split: if_splits)
qed

lemma outsider_cong: "cw_members (js_w st') = cw_members (js_w st) \<Longrightarrow> outsider chp cp st' = outsider chp cp st"
  by (simp add: outsider_def membership_of_def)

lemma outsider_new:
  assumes inv: "jinv ue U st" and r: "cw_channels (js_w st) chp = None"
  shows "outsider chp cp st"
proof -
  have ok: "cworld_ok (js_w st)" using jinvD(1) [OF inv] by (simp add: chan_inv_def)
  have False if "cw_members (js_w st) mp = Some m" "ms_chptr m = chp" for mp m
    using membership_live [OF ok that(1)] that(2) r by auto
  then show ?thesis by (auto simp: outsider_def membership_of_def)
qed

lemma add_member_next: "add_member chp cp fl st = Some st' \<Longrightarrow> js_next st' = Suc (js_next st)"
  by (auto simp: add_member_def split: Option.bind_splits)

lemma jinv_add_member:
  assumes inv: "jinv ue U st" and c: "cw_clients (js_w st) cp = Some c" "IsClient c"
    and o: "outsider chp cp st" and ch: "cw_channels (js_w st) chp = Some ch"
    and fl: "fl AND CHFL_BANNED = 0" and r: "add_member chp cp fl st = Some st'"
  shows "jinv ue U st'"
proof -
  obtain l where l: "cl_user c = Some l" using jinvD(3) [OF inv c] by blast
  have ok: "cworld_ok (js_w st)" using jinvD(1) [OF inv] by (simp add: chan_inv_def)
  have n: "find_channel_membership chp cp (js_w st) = Some None"
    using find_channel_membership_spec [OF ok c l ch] o unfolding outsider_def by (metis option.exhaust)
  obtain w where w: "add_user_to_channel (js_next st) chp cp fl (js_w st) = Some w" "st' = st\<lparr>js_w := w, js_next := Suc (js_next st)\<rparr>"
    using r by (auto simp: add_member_def split: Option.bind_splits)
  have "chan_inv ue w" using join_inv [OF jinvD(1) [OF inv] c l ch n _ fl w(1)] jinvD(2) [OF inv] by simp
  moreover have "chp < js_next st" using jinvD(2) [OF inv] ch by (metis leI option.distinct(1))
  ultimately show ?thesis using inv w c l ch unfolding jinv_def
    by (auto simp: add_user_to_channel_def Let_def split: if_split_asm)
qed


section \<open>JOIN 0\<close>

lemma local_targets_total:
  assumes "\<forall>mp \<in> set mps. \<exists>m c. cw_members w mp = Some m \<and> cw_clients w (ms_client_p m) = Some c"
  shows "\<exists>ps. local_targets t w mps = Some ps"
  using assms by (induction mps) auto

lemma sendto_channel_local_total:
  assumes inv: "chan_inv ue (js_w st)" and ch: "cw_channels (js_w st) chp = Some ch"
  shows "\<exists>st'. sendto_channel_local t chp l st = Some st' \<and> js_w st' = js_w st \<and> js_next st' = js_next st"
proof -
  have ok: "cworld_ok (js_w st)" using inv by (simp add: chan_inv_def)
  have "is_list_of (ch_locmembers ch) (mems_local (cw_members (js_w st)) (local_user (js_w st)) chp)"
    using cworld_okD(3) [OF ok, of chp] ch by (simp add: locals_of_def)
  then have "\<exists>m c. cw_members (js_w st) mp = Some m \<and> cw_clients (js_w st) (ms_client_p m) = Some c" if "mp \<in> set (ch_locmembers ch)" for mp
    using that membership_live [OF ok] by (auto simp: is_list_of_def mems_local_def) metis
  then obtain ps where "local_targets t (js_w st) (ch_locmembers ch) = Some ps" using local_targets_total by blast
  then show ?thesis using ch by (simp add: sendto_channel_local_def put_out_def)
qed

lemma jinv_part:
  assumes inv: "jinv ue U st" and m: "cw_members (js_w st) mp = Some m"
  obtains w where "remove_user_from_channel (Some mp) (js_w st) = Some w" "jinv ue U (st\<lparr>js_w := w\<rparr>)"
    "\<exists>c'. cw_clients w (ms_client_p m) = Some c' \<and> cl_user c' = Some (remove1 mp (chans_of (js_w st) (ms_client_p m)))"
proof -
  have ok: "cworld_ok (js_w st)" using jinvD(1) [OF inv] by (simp add: chan_inv_def)
  let ?f = "(cw_clients (js_w st))(ms_client_p m := map_option
       (\<lambda>c. c\<lparr>cl_user := Some (remove1 mp (chans_of (js_w st) (ms_client_p m)))\<rparr>) (cw_clients (js_w st) (ms_client_p m)))"
  from remove_user_from_channel_ok [OF ok m] obtain w where r: "remove_user_from_channel (Some mp) (js_w st) = Some w"
    and w: "cw_members w = (cw_members (js_w st))(mp := None)" "\<forall>p. p \<noteq> ms_chptr m \<longrightarrow> cw_channels w p = cw_channels (js_w st) p"
    and u: "users_sim ?f (cw_clients w)" by blast
  from membership_live [OF ok m] obtain c ch where c: "cw_clients (js_w st) (ms_client_p m) = Some c" "IsClient c"
    and ch: "cw_channels (js_w st) (ms_chptr m) = Some ch" by metis
  have i: "chan_inv ue w" using chan_runs.inv_step [OF jinvD(1) [OF inv] chan_step.part [OF m r]] .
  have fr: "cw_channels w p = None \<and> cw_members w p = None" if "p \<ge> js_next st" for p
    using w jinvD(2) [OF inv that] ch by (metis fun_upd_def option.distinct(1))
  have us: "cl_user c' \<noteq> None" if c': "cw_clients w p = Some c'" "IsClient c'" for p c'
  proof -
    from users_sim_Some [OF u c'(1)] obtain c1 where c1: "?f p = Some c1" "same_user c1 c'" by blast
    show ?thesis
    proof (cases "p = ms_client_p m")
      case True
      then show ?thesis using c1 c by (auto simp: same_user_def)
    next
      case False
      then show ?thesis using c1 c'(2) jinvD(3) [OF inv, of p c1] by (auto simp: same_user_def)
    qed
  qed
  have se: "ch_ban_serial ch' \<noteq> -1" if "cw_channels w p = Some ch'" for p ch'
  proof -
    from shrinksD(2) [OF remove_user_from_channel_shrinks [OF r] that] obtain ch1 where
      "cw_channels (js_w st) p = Some ch1" "ch_ban_serial ch' = ch_ban_serial ch1" by (auto simp: same_bans_def)
    then show ?thesis using jinvD(4) [OF inv, of p ch1] by simp
  qed
  have li: "\<exists>c. cw_clients w p = Some c \<and> IsClient c" if "p \<in> U" for p
  proof -
    from jinvD(5) [OF inv that] obtain c1 where "cw_clients (js_w st) p = Some c1" "IsClient c1" by blast
    then obtain c2 where "?f p = Some c2" "IsClient c2" using c by (cases "p = ms_client_p m") auto
    then show ?thesis using users_sim_Some1 [OF u, of p c2] by (auto simp: same_user_def)
  qed
  have "jinv ue U (st\<lparr>js_w := w\<rparr>)" unfolding jinv_def using i fr us se li by simp
  moreover have "\<exists>c'. cw_clients w (ms_client_p m) = Some c' \<and> cl_user c' = Some (remove1 mp (chans_of (js_w st) (ms_client_p m)))"
    using users_sim_Some1 [OF u, of "ms_client_p m"] c by (auto simp: same_user_def)
  ultimately show thesis using that r by blast
qed

text \<open>The loop leaves one channel after the other and ends with none.\<close>

lemma join_0_loop_leaves:
  assumes "jinv ue U st" "cw_clients (js_w st) cp = Some c" "cl_user c = Some chans"
  shows "\<exists>st'. join_0_loop (length chans) cp st = Some st' \<and> jinv ue U st' \<and> chans_of (js_w st') cp = []"
  using assms
proof (induction "length chans" arbitrary: st c chans)
  case 0
  then show ?case by (auto simp: chans_of_def)
next
  case (Suc n)
  then obtain mp mps where chans: "chans = mp # mps" by (metis length_Suc_conv)
  have ok: "cworld_ok (js_w st)" using jinvD(1) [OF Suc.prems(1)] by (simp add: chan_inv_def)
  have l: "chans_of (js_w st) cp = mp # mps" using Suc.prems chans by (simp add: chans_of_def)
  then obtain m where m: "cw_members (js_w st) mp = Some m" "ms_client_p m = cp"
    using cworld_okD(1) [OF ok, of cp] by (auto simp: is_list_of_def mems_user_def)
  from membership_live [OF ok m(1)] obtain ch where ch: "cw_channels (js_w st) (ms_chptr m) = Some ch" by metis
  obtain st1 where s: "sendto_channel_local ALL_MEMBERS (ms_chptr m) ('':'' @ usermask c @ '' PART '' @ ch_chname ch) st = Some st1"
    "js_w st1 = js_w st" "js_next st1 = js_next st"
    using sendto_channel_local_total [OF jinvD(1) [OF Suc.prems(1)] ch] by blast
  have i1: "jinv ue U st1" using Suc.prems(1) s jinv_cong by blast
  have m1: "cw_members (js_w st1) mp = Some m" using m s(2) by simp
  from jinv_part [OF i1 m1] obtain w where w: "remove_user_from_channel (Some mp) (js_w st1) = Some w" "jinv ue U (st1\<lparr>js_w := w\<rparr>)"
    "\<exists>c'. cw_clients w (ms_client_p m) = Some c' \<and> cl_user c' = Some (remove1 mp (chans_of (js_w st1) (ms_client_p m)))" by blast
  then obtain c' where c': "cw_clients w cp = Some c'" "cl_user c' = Some mps" using l s(2) m(2) by auto
  have "join_0_loop (length chans) cp st = join_0_loop (length mps) cp (st1\<lparr>js_w := w\<rparr>)"
    using Suc.prems(2,3) m(1) ch s w(1) chans by simp
  then show ?case using Suc.hyps(1) [of mps "st1\<lparr>js_w := w\<rparr>" c'] Suc.hyps(2) w(2) c' chans by simp
qed

lemma flood_endgrace_same:
  assumes "flood_endgrace c = Some c'"
  shows "same_user c c'" "src_masks c' = src_masks c"
proof -
  have "(cl_flags c OR FLAGS_FLOODDONE) AND FLAGS_MYCONNECT = cl_flags c AND FLAGS_MYCONNECT"
    by (simp add: FLAGS_FLOODDONE_def FLAGS_MYCONNECT_def bit.conj_disj_distrib2)
  then show "same_user c c'" "src_masks c' = src_masks c"
    using assms by (auto simp: flood_endgrace_def same_user_def MyClient_def IsClient_def MyConnect_def src_masks_def src_mask_def split: Option.bind_splits)
qed

lemma grace_over:
  assumes inv: "jinv ue U st" and c: "cw_clients (js_w st) cp = Some c" "cl_user c = Some l"
    and r: "(if P then do { src \<leftarrow> flood_endgrace c; Some (st\<lparr>js_w := set_client cp src (js_w st)\<rparr>) } else Some st) = Some st1"
  shows "jinv ue U st1 \<and> (\<exists>c1. cw_clients (js_w st1) cp = Some c1 \<and> cl_user c1 = Some l \<and> same_user c c1)"
  using r c inv jinv_set_client [OF inv c(1)] flood_endgrace_same [of c]
  by (auto simp: same_user_def split: if_splits Option.bind_splits)

lemma spambot_keeps:
  assumes "spambot_check env p n st = Some st'" "cw_clients (js_w st) q = Some c"
  shows "\<exists>c'. cw_clients (js_w st') q = Some c' \<and> same_user c c'"
  using assms
  by (auto simp: spambot_check_def upd_local_def Let_def put_out_def same_user_def split: Option.bind_splits if_splits prod.splits option.splits)

lemma jinv_join_0:
  assumes inv: "jinv ue U st" and r: "do_join_0 env client_p cp st = Some st'"
  shows "jinv ue U st' \<and> chans_of (js_w st') cp = []"
proof -
  from r obtain c and cl :: Client and l st1 st2 where c: "cw_clients (js_w st) cp = Some c" "cl_user c = Some l"
    and g: "(if MyClient c \<and> \<not> IsFloodDone c then do { src \<leftarrow> flood_endgrace c; Some (st\<lparr>js_w := set_client cp src (js_w st)\<rparr>) } else Some st) = Some st1"
    and s: "(if l \<noteq> [] \<and> MyConnect c \<and> \<not> IsOper c \<and> \<not> IsExemptSpambot c
        then spambot_check env cp None (to_servers env (Some (cl_from cl)) None NOCAPS CAP_TS6 ('':'' @ cl_name c @ '' JOIN 0'')
          (to_servers env (Some (cl_from cl)) None CAP_TS6 NOCAPS ('':'' @ use_id c @ '' JOIN 0'') st1))
        else Some (to_servers env (Some (cl_from cl)) None NOCAPS CAP_TS6 ('':'' @ cl_name c @ '' JOIN 0'')
          (to_servers env (Some (cl_from cl)) None CAP_TS6 NOCAPS ('':'' @ use_id c @ '' JOIN 0'') st1))) = Some st2"
    and l: "join_0_loop (length l) cp st2 = Some st'"
    unfolding do_join_0_def Let_def bind_eq_Some_conv by blast
  note g1 = grace_over [OF inv c g]
  let ?o = "to_servers env (Some (cl_from cl)) None NOCAPS CAP_TS6 ('':'' @ cl_name c @ '' JOIN 0'')
          (to_servers env (Some (cl_from cl)) None CAP_TS6 NOCAPS ('':'' @ use_id c @ '' JOIN 0'') st1)"
  from g1 obtain c1 where c1: "cw_clients (js_w ?o) cp = Some c1" "cl_user c1 = Some l" "jinv ue U ?o"
    by (auto simp: to_servers_def put_out_def jinv_def)
  have "jinv ue U st2 \<and> (\<exists>c2. cw_clients (js_w st2) cp = Some c2 \<and> cl_user c2 = Some l)"
  proof (cases "l \<noteq> [] \<and> MyConnect c \<and> \<not> IsOper c \<and> \<not> IsExemptSpambot c")
    case True
    then have sp: "spambot_check env cp None ?o = Some st2" using s by presburger
    show ?thesis using jinv_spambot [OF c1(3) sp] spambot_keeps [OF sp c1(1)] c1(2) by (auto simp: same_user_def)
  next
    case False
    then have "st2 = ?o" using s by (simp only: if_False option.inject)
    then show ?thesis using c1 by blast
  qed
  then show ?thesis using join_0_loop_leaves [of ue U st2 cp] l by fastforce
qed


section \<open>Losing status and modes\<close>

lemma jinv_set_flags:
  assumes inv: "jinv ue U st" and m: "cw_members (js_w st) mp = Some m" and f: "f AND CHFL_BANNED = ms_flags m AND CHFL_BANNED"
  shows "jinv ue U (st\<lparr>js_w := (js_w st)\<lparr>cw_members := (cw_members (js_w st))(mp \<mapsto> m\<lparr>ms_flags := f\<rparr>)\<rparr>\<rparr>)"
proof -
  have "mp < js_next st" using jinvD(2) [OF inv] m by (metis leI option.distinct(1))
  then show ?thesis using inv set_flags_inv [OF jinvD(1) [OF inv] m f] unfolding jinv_def by auto
qed

lemma status_not_banned: "(x AND NOT STATUS_FLAGS) AND CHFL_BANNED = x AND CHFL_BANNED"
  by (simp add: STATUS_FLAGS_def CHFL_CHANOP_def CHFL_HALFOP_def CHFL_VOICE_def CHFL_BANNED_def and.assoc)

lemma jinv_deop_loop:
  "deop_loop n chp mps b st = Some (b', st') \<Longrightarrow> jinv ue U st \<Longrightarrow> jinv ue U st'"
proof (induction mps arbitrary: b st)
  case (Cons mp mps)
  from Cons.prems(1) obtain m c where m: "cw_members (js_w st) mp = Some m" "cw_clients (js_w st) (ms_client_p m) = Some c"
    by (auto split: Option.bind_splits)
  show ?case
  proof (cases "ms_flags m AND STATUS_FLAGS = 0")
    case True
    then show ?thesis using Cons m by simp
  next
    case False
    let ?st = "st\<lparr>js_w := (js_w st)\<lparr>cw_members := (cw_members (js_w st))(mp \<mapsto> m\<lparr>ms_flags := ms_flags m AND NOT STATUS_FLAGS\<rparr>)\<rparr>\<rparr>"
    from Cons.prems(1) m False obtain b1 st1 where t: "tell_status n chp (CHR ''-'') (cl_name c) (ms_flags m) b ?st = Some (b1, st1)"
      "deop_loop n chp mps b1 st1 = Some (b', st')" by (auto split: Option.bind_splits)
    have "jinv ue U ?st" by (rule jinv_set_flags [OF Cons.prems(2) m(1) status_not_banned])
    then show ?thesis using Cons.IH [OF t(2)] jinv_frames(5) [OF t(1)] by blast
  qed
qed simp

lemma jinv_remove_our_modes: "remove_our_modes chp st = Some st' \<Longrightarrow> jinv ue U st \<Longrightarrow> jinv ue U st'"
  by (auto simp: remove_our_modes_def bind_eq_Some_conv jinv_frames(6) dest: jinv_deop_loop)

lemma jinv_set_ts: "upd_channel chp (\<lambda>ch. ch\<lparr>ch_channelts := ts\<rparr>) st = Some st' \<Longrightarrow> jinv ue U st \<Longrightarrow> jinv ue U st'"
  using jinv_upd_channel [of ue U st chp "\<lambda>ch. ch\<lparr>ch_channelts := ts\<rparr>"] by (simp add: same_bans_def)

lemma jinv_set_modes: "upd_channel chp (\<lambda>ch. ch\<lparr>ch_mode := md\<rparr>) st = Some st' \<Longrightarrow> jinv ue U st \<Longrightarrow> jinv ue U st'"
  using jinv_upd_channel [of ue U st chp "\<lambda>ch. ch\<lparr>ch_mode := md\<rparr>"] by (simp add: same_bans_def)

lemma jinv_lose_modes: "lose_modes chp n ots nts st = Some st' \<Longrightarrow> jinv ue U st \<Longrightarrow> jinv ue U st'"
  by (auto simp: lose_modes_def Let_def bind_eq_Some_conv jinv_frames dest!: jinv_remove_our_modes jinv_set_modes)

lemma upd_channel_keeps:
  "upd_channel chp f st = Some st' \<Longrightarrow> cw_members (js_w st') = cw_members (js_w st) \<and> cw_clients (js_w st') = cw_clients (js_w st) \<and>
     dom (cw_channels (js_w st')) = dom (cw_channels (js_w st))"
  by (auto simp: upd_channel_def split: Option.bind_splits if_splits)

section \<open>Remote joins\<close>

lemma jinv_enter:
  assumes inv: "jinv ue U st" and c: "cw_clients (js_w st) cp = Some c" "IsClient c"
    and ch: "cw_channels (js_w st) chp = Some ch" and fl: "fl AND CHFL_BANNED = 0"
    and m: "IsMember cp chp (js_w st) = Some member"
    and r: "(if member then Some st else do { st \<leftarrow> add_member chp cp fl st; announce_join chp c1 n st }) = Some st'"
  shows "jinv ue U st'"
proof (cases member)
  case True
  then show ?thesis using r inv by simp
next
  case False
  then obtain st1 where s: "add_member chp cp fl st = Some st1" "announce_join chp c1 n st1 = Some st'"
    using r by (auto split: Option.bind_splits)
  have "jinv ue U st1" using jinv_add_member [OF inv c outsider_not_member [OF inv c _ ch] ch fl s(1)] m False by simp
  then show ?thesis using jinv_frames(7) [OF s(2)] by simp
qed

lemma jinv_remote_join:
  assumes inv: "jinv ue {cp} st" and name: "cstring (parv ! 2)"
    and r: "remote_join env cp parv st = Some (res, st')"
  shows "jinv ue {cp} st'"
proof (cases "\<not> IsChannelName (parv ! 2) \<or> \<not> check_channel_name (Some (parv ! 2)) \<or> headc (parv ! 2) = CHR ''&''")
  case True
  then show ?thesis using r inv by (auto simp: remote_join_def)
next
  case False
  then obtain src r1 st1 where src: "cw_clients (js_w st) cp = Some src" and o: "open_channel env src (parv ! 2) st = Some (r1, st1)"
    and r1: "(case r1 of None \<Rightarrow> Some (None, st1) | Some (chptr, isnew) \<Rightarrow> do {
            ch \<leftarrow> cw_channels (js_w st1) chptr;
            servp \<leftarrow> cl_servptr src;
            server \<leftarrow> cw_clients (js_w st1) servp;
            let newts = c_atol (parv ! 1);
            let oldts = ch_channelts ch;
            st \<leftarrow> ts_zero chptr src isnew newts oldts st1;
            let (ts, keep_our, keep_new) = ts_rule isnew newts oldts;
            st \<leftarrow> upd_channel chptr (\<lambda>ch. ch\<lparr>ch_channelts := ts\<rparr>) st;
            st \<leftarrow> (if keep_our then Some st else lose_modes chptr (cl_name server) oldts newts st);
            member \<leftarrow> IsMember cp chptr (js_w st);
            st \<leftarrow> (if member then Some st
                   else do { st \<leftarrow> add_member chptr cp CHFL_PEON st; announce_join chptr src (ch_chname ch) st });
            Some (Some (chptr, keep_new), st)
          }) = Some (res, st')"
    using r by (auto simp: remote_join_def bind_eq_Some_conv)
  have i1: "jinv ue {cp} st1" using jinv_open [OF inv o _ name] False by (cases "parv ! 2") (auto simp: IsChannelName_def NUL_def)
  show ?thesis
  proof (cases r1)
    case None
    then show ?thesis using r1 i1 by simp
  next
    case (Some pi)
    obtain p isnew where pi: "pi = (p, isnew)" by (cases pi)
    obtain ts ko kn where t: "ts_rule isnew (c_atol (parv ! 1)) (ch_channelts (the (cw_channels (js_w st1) p))) = (ts, ko, kn)"
      by (metis prod_cases3)
    from r1 Some pi t obtain ch servp and server :: Client and st2 st3 st4 member where ch: "cw_channels (js_w st1) p = Some ch"
      and z: "ts_zero p src isnew (c_atol (parv ! 1)) (ch_channelts ch) st1 = Some st2"
      and u: "upd_channel p (\<lambda>ch. ch\<lparr>ch_channelts := ts\<rparr>) st2 = Some st3"
      and l: "(if ko then Some st3 else lose_modes p (cl_name server) (ch_channelts ch) (c_atol (parv ! 1)) st3) = Some st4"
      and m: "IsMember cp p (js_w st4) = Some member"
      and e: "(if member then Some st4 else do { st \<leftarrow> add_member p cp CHFL_PEON st4; announce_join p src (ch_chname ch) st }) = Some st'"
      by (auto simp: Let_def bind_eq_Some_conv simp del: One_nat_def)
    have i4: "jinv ue {cp} st4"
      using i1 l jinv_frames(3) [OF z] jinv_set_ts [OF u] jinv_lose_modes by (metis option.inject)
    then obtain c where c: "cw_clients (js_w st4) cp = Some c" "IsClient c" using jinvD(5) by blast
    show ?thesis
    proof (cases member)
      case True
      then show ?thesis using e i4 by simp
    next
      case False
      with e obtain st5 where "add_member p cp CHFL_PEON st4 = Some st5" by (auto split: Option.bind_splits)
      then obtain ch4 where ch4: "cw_channels (js_w st4) p = Some ch4"
        using c jinvD(3) [OF i4 c] by (auto simp: add_member_def add_user_to_channel_def split: Option.bind_splits)
      show ?thesis using jinv_enter [OF i4 c ch4 _ m e] by (simp add: CHFL_PEON_def)
    qed
  qed
qed

lemma jinv_ms_join:
  assumes inv: "jinv ue {cp} st" and parv: "\<And>s. s \<in> set parv \<Longrightarrow> cstring s" and r: "ms_join env client_p cp parv st = Some st'"
  shows "jinv ue {cp} st'"
proof (cases "length parv < 4")
  case True
  then show ?thesis using r inv jinv_join_0 by (auto simp: ms_join_def split: if_split_asm)
next
  case False
  then obtain r1 st1 where j: "remote_join env cp parv st = Some (r1, st1)" and i: "jinv ue {cp} st1 \<Longrightarrow> jinv ue {cp} st'"
    using r by (auto simp: ms_join_def Let_def bind_eq_Some_conv split: option.split_asm)
  have "cstring (parv ! 2)" using parv [of "parv ! 2"] False by simp
  then show ?thesis using i inv jinv_remote_join [OF inv _ j] by blast
qed

lemma jinv_mc_sjoin:
  assumes inv: "jinv ue {cp} st" and parv: "\<And>s. s \<in> set parv \<Longrightarrow> cstring s" and r: "mc_sjoin env client_p cp parv st = Some st'"
  shows "jinv ue {cp} st'"
proof (cases "length parv < 3")
  case True
  then show ?thesis using r inv by (simp add: mc_sjoin_def)
next
  case False
  then obtain r1 st1 where j: "remote_join env cp parv st = Some (r1, st1)" and i: "jinv ue {cp} st1 \<Longrightarrow> jinv ue {cp} st'"
    using r by (auto simp: mc_sjoin_def Let_def bind_eq_Some_conv split: option.split_asm)
  have "cstring (parv ! 2)" using parv [of "parv ! 2"] False by simp
  then show ?thesis using i inv jinv_remote_join [OF inv _ j] by blast
qed


section \<open>SJOIN\<close>

lemma sjoin_merge_cases:
  assumes r: "sjoin_merge chp src isnew nts md st = Some (ko, kn, st')"
  obtains ch ts st1 st2 st3 st4 where "cw_channels (js_w st) chp = Some ch" "ts_rule isnew nts (ch_channelts ch) = (ts, ko, kn)"
    "ts_zero chp src isnew nts (ch_channelts ch) st = Some st1"
    "upd_channel chp (\<lambda>ch. ch\<lparr>ch_channelts := ts\<rparr>) st1 = Some st2"
    "(if ko then Some st2 else do { st \<leftarrow> remove_our_modes chp st2; ts_notice chp (ch_channelts ch) nts st }) = Some st3"
    "set_final_mode (cl_name src) chp (merge_modes ko kn md (ch_mode ch)) (ch_mode ch) st3 = Some st4"
    "upd_channel chp (\<lambda>c. c\<lparr>ch_mode := merge_modes ko kn md (ch_mode ch)\<rparr>) st4 = Some st'"
proof -
  obtain ch where ch: "cw_channels (js_w st) chp = Some ch" using r by (auto simp: sjoin_merge_def split: Option.bind_splits)
  obtain ts k1 k2 where t: "ts_rule isnew nts (ch_channelts ch) = (ts, k1, k2)" by (metis prod_cases3)
  then have "k1 = ko" "k2 = kn" using r ch by (auto simp: sjoin_merge_def Let_def bind_eq_Some_conv)
  then show thesis using that [OF ch] r ch t by (auto simp: sjoin_merge_def Let_def bind_eq_Some_conv)
qed

lemma jinv_sjoin_merge:
  assumes r: "sjoin_merge chp src isnew nts md st = Some (ko, kn, st')" and inv: "jinv ue U st"
  shows "jinv ue U st'"
  using r
proof (cases rule: sjoin_merge_cases)
  case (1 ch ts st1 st2 st3 st4)
  have i2: "jinv ue U st2" using inv jinv_frames(3) [OF 1(3)] jinv_set_ts [OF 1(4)] by blast
  have "jinv ue U st3" using 1(5) i2 by (auto split: if_split_asm Option.bind_splits simp: jinv_frames(2) dest: jinv_remove_our_modes)
  then show ?thesis using jinv_frames(4) [OF 1(6)] jinv_set_modes [OF 1(7)] by blast
qed

lemma nick_flags_not_banned: "fl AND CHFL_BANNED = 0 \<Longrightarrow> nick_flags n s fl = (fl', s') \<Longrightarrow> fl' AND CHFL_BANNED = 0"
proof (induction n arbitrary: s fl)
  case (Suc n)
  have "CHFL_CHANOP AND CHFL_BANNED = 0" "CHFL_HALFOP AND CHFL_BANNED = 0" "CHFL_VOICE AND CHFL_BANNED = 0"
    by (simp_all add: CHFL_CHANOP_def CHFL_HALFOP_def CHFL_VOICE_def CHFL_BANNED_def)
  then have "(fl OR x) AND CHFL_BANNED = 0" if "x \<in> {CHFL_CHANOP, CHFL_HALFOP, CHFL_VOICE}" for x
    using Suc.prems(1) that by (auto simp: bit.conj_disj_distrib2)
  then show ?case using Suc.prems Suc.IH by (auto split: if_split_asm)
qed simp

text \<open>One word of the list: nothing happens, or the client it names is joined unless it is in the channel already.\<close>

definition sjoin_status :: "bool \<Rightarrow> 8 word \<Rightarrow> 8 word" where
  "sjoin_status kn fl = (if kn then fl else if fl AND (CHFL_CHANOP OR CHFL_HALFOP) \<noteq> 0 then CHFL_DEOPPED else 0)"

lemma sjoin_one_cases:
  assumes r: "sjoin_one env client_p fr src chp n pn pu kn tok b st = Some (b', st')"
  obtains (skip) "b' = b" "st' = st"
  | (user) fl nick tp target st2 st3 member sb where "nick_flags 3 tok 0 = (fl, nick)"
      "cw_clients (js_w st) tp = Some target" "IsClient target" "js_w st2 = js_w st" "js_next st2 = js_next st"
      "IsMember tp chp (js_w st2) = Some member"
      "(if member then Some st2 else do { st \<leftarrow> add_member chp tp (sjoin_status kn fl) st2; announce_join chp target n st }) = Some st3"
      "tell_status (cl_name src) chp (CHR ''+'') (cl_name target) (sjoin_status kn fl) (sj_status b) st3 = Some (sb, st')"
      "sj_joins b' = sj_joins b + (if member then 0 else 1)"
proof (cases "b' = b \<and> st' = st")
  case False
  obtain fl nick where f: "nick_flags 3 tok 0 = (fl, nick)" by fastforce
  obtain t where t: "find_client (cw_clients (js_w st)) (cw_tabs (js_w st)) (Some nick) = Some t"
    using r f by (auto simp: sjoin_one_def split: Option.bind_splits)
  with r f False obtain tp target where tp: "t = Some tp" and target: "cw_clients (js_w st) tp = Some target" "IsClient target"
    by (auto simp: sjoin_one_def bind_eq_Some_conv split: option.split_asm if_split_asm)
  from r f t tp target False obtain bn bu st1 st2 st3 member sb where
    s: "sjoin_room env fr NOCAPS CAP_TS6 NICKLEN pn (sj_nick b) st = Some (bn, st1)"
      "sjoin_room env fr CAP_TS6 NOCAPS IDLEN pu (sj_uid b) st1 = Some (bu, st2)"
    and m: "IsMember tp chp (js_w st2) = Some member"
    and e: "(if member then Some st2 else do { st \<leftarrow> add_member chp tp (sjoin_status kn fl) st2; announce_join chp target n st }) = Some st3"
    and ts: "tell_status (cl_name src) chp (CHR ''+'') (cl_name target) (sjoin_status kn fl) (sj_status b) st3 = Some (sb, st')"
    and b': "sj_joins b' = sj_joins b + (if member then 0 else 1)"
    by (auto simp: sjoin_one_def sjoin_status_def Let_def bind_eq_Some_conv split: option.split_asm if_split_asm)
  have "js_w st2 = js_w st" "js_next st2 = js_next st" using s by (auto dest!: sjoin_room_w)
  then show thesis using user [OF f target _ _ m e ts b'] by blast
qed (use skip in blast)

lemma jinv_sjoin_one:
  assumes r: "sjoin_one env client_p fr src chp n pn pu kn tok b st = Some (b', st')" and inv: "jinv ue U st"
    and ch: "cw_channels (js_w st) chp = Some ch"
  shows "jinv ue U st' \<and> (\<exists>ch'. cw_channels (js_w st') chp = Some ch') \<and> sj_joins b \<le> sj_joins b' \<and>
    (sj_joins b' = sj_joins b \<longrightarrow> js_w st' = js_w st)"
  using r
proof (cases rule: sjoin_one_cases)
  case skip
  then show ?thesis using inv ch by simp
next
  case (user fl nick tp target st2 st3 member sb)
  have i2: "jinv ue U st2" using inv user(4,5) jinv_cong by blast
  have "sjoin_status kn fl AND CHFL_BANNED = 0"
    using nick_flags_not_banned [OF _ user(1)] by (simp add: sjoin_status_def CHFL_DEOPPED_def CHFL_BANNED_def)
  then have "jinv ue U st3" using jinv_enter [OF i2 _ user(3) _ _ user(6,7)] user(2,4) ch by simp
  moreover have "\<exists>ch'. cw_channels (js_w st') chp = Some ch'"
    using user(2,4,7) ch tell_status_w [OF user(8)]
    by (auto simp: add_member_def add_user_to_channel_def Let_def dest!: announce_join_w split: if_split_asm Option.bind_splits option.split_asm)
  ultimately show ?thesis
    using jinv_frames(5) [OF user(8)] user(4,7,9) tell_status_w [OF user(8)] by (auto split: if_split_asm)
qed

lemma jinv_sjoin_loop:
  "sjoin_loop env client_p fr src chp n pn pu kn toks b st = Some (b', st') \<Longrightarrow> jinv ue U st \<Longrightarrow> cw_channels (js_w st) chp = Some ch \<Longrightarrow>
   jinv ue U st' \<and> sj_joins b \<le> sj_joins b' \<and> (sj_joins b' = sj_joins b \<longrightarrow> js_w st' = js_w st)"
proof (induction toks arbitrary: b st ch)
  case (Cons tok toks)
  then obtain b1 st1 where o: "sjoin_one env client_p fr src chp n pn pu kn tok b st = Some (b1, st1)"
    and l: "sjoin_loop env client_p fr src chp n pn pu kn toks b1 st1 = Some (b', st')" by (auto split: Option.bind_splits)
  from jinv_sjoin_one [OF o Cons.prems(2,3)] obtain ch1 where
    1: "jinv ue U st1" "cw_channels (js_w st1) chp = Some ch1" "sj_joins b \<le> sj_joins b1" "sj_joins b1 = sj_joins b \<longrightarrow> js_w st1 = js_w st" by blast
  show ?case using Cons.IH [OF l 1(1,2)] 1 by auto
qed simp


lemma jinv_destroy:
  assumes inv: "jinv ue U st" and ch: "cw_channels (js_w st) chp = Some ch" "ch_members ch = []"
    and r: "destroy_channel chp (js_w st) = Some w"
  shows "jinv ue U (st\<lparr>js_w := w\<rparr>)"
proof -
  have ok: "cworld_ok (js_w st)" using jinvD(1) [OF inv] by (simp add: chan_inv_def)
  from destroy_channel_ok [OF ok ch] r have w: "cworld_ok w" "cw_members w = cw_members (js_w st)"
    "cw_channels w = (cw_channels (js_w st))(chp := None)" and u: "users_sim (cw_clients (js_w st)) (cw_clients w)" by auto
  have "bans_ok ue w" using bans_ok_shrinks [OF _ destroy_channel_shrinks [OF r]] jinvD(1) [OF inv] by (simp add: chan_inv_def)
  then have i: "chan_inv ue w" using w by (simp add: chan_inv_def)
  have us: "cl_user c' \<noteq> None" if c': "cw_clients w p = Some c'" "IsClient c'" for p c'
    using users_sim_Some [OF u c'(1)] c'(2) jinvD(3) [OF inv, of p] by (auto simp: same_user_def)
  have li: "\<exists>c. cw_clients w p = Some c \<and> IsClient c" if p: "p \<in> U" for p
  proof -
    from jinvD(5) [OF inv p] obtain c where c: "cw_clients (js_w st) p = Some c" "IsClient c" by blast
    show ?thesis using users_sim_Some1 [OF u c(1)] c(2) by (auto simp: same_user_def)
  qed
  show ?thesis using inv i us li w unfolding jinv_def by simp
qed

lemma remove_ban_list_effect:
  assumes r: "remove_ban_list env chp src l c cap mems st = Some st'" and ch: "cw_channels (js_w st) chp = Some ch"
  shows "js_w st' = set_channel chp (set_bans l [] ch) (js_w st) \<and> js_next st' = js_next st"
  using r ch by (auto simp: remove_ban_list_def Let_def upd_channel_def bind_eq_Some_conv dest!: rban_loop_w send_bans_w split: if_split_asm)

text \<open>All three lists go, and the serial counts up once, so that every cached verdict is stale.\<close>

lemma lose_bans_effect:
  assumes r: "lose_bans env chp src st = Some st'" and ch: "cw_channels (js_w st) chp = Some ch"
  shows "js_next st' = js_next st \<and> (\<exists>ch'. js_w st' = set_channel chp ch' (js_w st) \<and> ch_ban_serial ch' = ch_ban_serial ch + 1 \<and>
    ch_members ch' = ch_members ch \<and> ch_locmembers ch' = ch_locmembers ch \<and> ch_chname ch' = ch_chname ch \<and> ch_invites ch' = ch_invites ch \<and>
    ch_banlist ch' = [] \<and> ch_exceptlist ch' = [] \<and> ch_invexlist ch' = [])"
proof -
  define step where "step l c cap mems bs st0 = (if bs \<noteq> [] then remove_ban_list env chp src l c cap mems st0 else Some st0)"
    for l c cap mems and bs :: "Ban list" and st0
  have s: "js_next st2 = js_next st1 \<and> js_w st2 = set_channel chp (set_bans l [] ch1) (js_w st1)"
    if "step l c cap mems (bans_in l ch1) st1 = Some st2" "cw_channels (js_w st1) chp = Some ch1" for l c cap mems st1 st2 ch1
  proof (cases "bans_in l ch1 = []")
    case True
    then have "set_bans l [] ch1 = ch1" by (cases l) simp_all
    then show ?thesis using that True by (simp add: step_def set_channel_def fun_upd_idem)
  next
    case False
    then show ?thesis using that remove_ban_list_effect by (auto simp: step_def)
  qed
  from r ch obtain st1 st2 st3 where
    1: "step Banlist (CHR ''b'') NOCAPS ALL_MEMBERS (bans_in Banlist ch) st = Some st1"
    and 2: "step Exceptlist (CHR ''e'') CAP_EX ONLY_CHANOPS (bans_in Exceptlist ch) st1 = Some st2"
    and 3: "step Invexlist (CHR ''I'') CAP_IE ONLY_CHANOPS (bans_in Invexlist ch) st2 = Some st3"
    and 4: "upd_channel chp (\<lambda>ch. ch\<lparr>ch_ban_serial := ch_ban_serial ch + 1\<rparr>) st3 = Some st'"
    by (auto simp: lose_bans_def step_def bind_eq_Some_conv)
  let ?c1 = "set_bans Banlist [] ch" and ?c2 = "set_bans Exceptlist [] (set_bans Banlist [] ch)"
  note e1 = s [OF 1 ch]
  have "step Exceptlist (CHR ''e'') CAP_EX ONLY_CHANOPS (bans_in Exceptlist ?c1) st1 = Some st2" using 2 by simp
  note e2 = s [OF this]
  have "step Invexlist (CHR ''I'') CAP_IE ONLY_CHANOPS (bans_in Invexlist ?c2) st2 = Some st3" using 3 by simp
  note e3 = s [OF this]
  have "js_next st3 = js_next st" "js_w st3 = set_channel chp (set_bans Invexlist [] ?c2) (js_w st)"
    using e1 e2 e3 by (simp_all add: set_channel_def)
  then show ?thesis using 4 by (auto simp: upd_channel_def set_channel_def)
qed


definition alloc_free :: "jstate \<Rightarrow> bool" where
  "alloc_free st \<longleftrightarrow> (\<forall>p \<ge> js_next st. cw_channels (js_w st) p = None \<and> cw_members (js_w st) p = None)"

lemma jinv_alloc: "jinv ue U st \<Longrightarrow> chan_inv ue (js_w st) \<and> alloc_free st"
  by (simp add: jinv_def alloc_free_def)

lemma lose_bans_inv:
  assumes inv: "jinv ue U st" and r: "lose_bans env chp src st = Some st'"
  shows "chan_inv ue (js_w st') \<and> alloc_free st'"
proof -
  obtain ch where ch: "cw_channels (js_w st) chp = Some ch" using r by (auto simp: lose_bans_def split: Option.bind_splits)
  from lose_bans_effect [OF r ch] obtain ch' where e: "js_next st' = js_next st" "js_w st' = set_channel chp ch' (js_w st)"
    "ch_ban_serial ch' = ch_ban_serial ch + 1" "ch_members ch' = ch_members ch" "ch_locmembers ch' = ch_locmembers ch"
    "ch_chname ch' = ch_chname ch" "ch_invites ch' = ch_invites ch" by blast
  have n: "ch_ban_serial ch \<noteq> -1" by (rule jinvD(4) [OF inv ch])
  have "bans_ok ue (js_w st')" unfolding e(2)
    by (rule bans_ok_channel [OF _ ch]) (use jinvD(1) [OF inv] serial_nonzero [OF n] e(3) cache_ok_bumped n in \<open>auto simp: chan_inv_def\<close>)
  moreover have "cworld_ok (js_w st')" unfolding e(2)
    by (rule cworld_ok_list_change [OF _ ch]) (use jinvD(1) [OF inv] e in \<open>auto simp: chan_inv_def\<close>)
  moreover have "chp < js_next st" using jinvD(2) [OF inv] ch by (metis leI option.distinct(1))
  ultimately show ?thesis using jinv_alloc [OF inv] e by (auto simp: chan_inv_def alloc_free_def)
qed

lemma sjoin_users_inv:
  assumes inv: "jinv ue U st" and r: "sjoin_users env client_p fr source_p src chp isnew ko kn parv s st = Some st'"
    and new: "isnew \<Longrightarrow> \<exists>ch. cw_channels (js_w st) chp = Some ch \<and> ch_members ch = []"
  shows "chan_inv ue (js_w st') \<and> alloc_free st'"
proof -
  obtain ch pn pu b st1 st2 where ch: "cw_channels (js_w st) chp = Some ch"
    and l: "sjoin_loop env client_p fr src chp (parv ! 2) pn pu kn (sjoin_nicks s)
          \<lparr>sj_nick = [], sj_uid = [], sj_status = ([], []), sj_joins = 0\<rparr> st = Some (b, st1)"
    and e: "end_status (cl_name src) chp (CHR ''+'') (sj_status b) st1 = Some st2"
    and r2: "(if sj_joins b = 0 then
         (if isnew then do { w \<leftarrow> destroy_channel chp (js_w st2); Some (st2\<lparr>js_w := w\<rparr>) } else Some st2)
       else do {
         let st = to_servers env fr None CAP_TS6 NOCAPS (pu @ butlast (sj_uid b)) st2;
         let st = to_servers env fr None NOCAPS CAP_TS6 (pn @ butlast (sj_nick b)) st;
         if \<not> ko \<and> cl_id src \<noteq> [] then lose_bans env chp src st else Some st
       }) = Some st'"
    using r by (auto simp: sjoin_users_def Let_def bind_eq_Some_conv split: if_split_asm)
  from jinv_sjoin_loop [OF l inv ch] have 1: "jinv ue U st1" "sj_joins b = 0 \<Longrightarrow> js_w st1 = js_w st" by auto
  have i2: "jinv ue U st2" and w2: "js_w st2 = js_w st1" using 1(1) jinv_frames(6) [OF e] end_status_w [OF e] by auto
  show ?thesis
  proof (cases "sj_joins b = 0")
    case True
    have "jinv ue U st'"
    proof (cases isnew)
      case True
      with r2 \<open>sj_joins b = 0\<close> obtain w where w: "destroy_channel chp (js_w st2) = Some w" "st' = st2\<lparr>js_w := w\<rparr>"
        by (auto split: Option.bind_splits)
      then show ?thesis using jinv_destroy [OF i2 _ _ w(1)] new [OF True] 1(2) w2 \<open>sj_joins b = 0\<close> by auto
    qed (use r2 True i2 in simp)
    then show ?thesis by (rule jinv_alloc)
  next
    case False
    let ?o = "to_servers env fr None NOCAPS CAP_TS6 (pn @ butlast (sj_nick b)) (to_servers env fr None CAP_TS6 NOCAPS (pu @ butlast (sj_uid b)) st2)"
    have "jinv ue U ?o" using i2 by simp
    then show ?thesis
      using r2 False jinv_alloc [of ue U ?o] lose_bans_inv [of ue U ?o env chp src st'] by (auto simp: Let_def split: if_split_asm)
  qed
qed

lemma sjoin_merge_new:
  assumes r: "sjoin_merge chp src True nts md st = Some (ko, kn, st')" and ch: "cw_channels (js_w st) chp = Some ch"
  shows "\<exists>ch'. cw_channels (js_w st') chp = Some ch' \<and> ch_members ch' = ch_members ch"
  using r ch by (auto simp: sjoin_merge_def Let_def ts_rule_def upd_channel_def dest!: ts_zero_w set_final_mode_w split: Option.bind_splits)

lemma ms_sjoin_inv:
  assumes inv: "jinv ue U st" and parv: "\<And>s. s \<in> set parv \<Longrightarrow> cstring s" and r: "ms_sjoin env client_p source_p parv st = Some st'"
  shows "chan_inv ue (js_w st') \<and> alloc_free st'"
proof (cases "st' = st")
  case True
  then show ?thesis using jinv_alloc [OF inv] by simp
next
  case False
  obtain args md where a: "sjoin_modes parv (parv ! 3) 0 \<lparr>md_mode = 0, md_limit = 0, md_key = []\<rparr> = Some (args, md)"
    using r False by (auto simp: ms_sjoin_def split: if_split_asm option.split_asm)
  from r False a obtain src fr r1 st1 where len: "length parv \<ge> 5" and name: "IsChannelName (parv ! 2)"
    and o: "open_channel env src (parv ! 2) st = Some (r1, st1)"
    and k: "(case r1 of None \<Rightarrow> Some st1 | Some (chptr, isnew) \<Rightarrow> do {
                (keep_our, keep_new, st) \<leftarrow> sjoin_merge chptr src isnew (c_atol (parv ! 1)) md st1;
                sjoin_users env client_p fr source_p src chptr isnew keep_our keep_new parv (dropWhile (\<lambda>c. c = CHR '' '') (parv ! (args + 4))) st
              }) = Some st'"
    by (auto simp: ms_sjoin_def Let_def bind_eq_Some_conv simp del: One_nat_def split: if_split_asm)
  have ne: "parv ! 2 \<noteq> []" using name by (cases "parv ! 2") (auto simp: IsChannelName_def NUL_def)
  have cs: "cstring (parv ! 2)" using parv [of "parv ! 2"] len by simp
  have i1: "jinv ue U st1" by (rule jinv_open [OF inv o ne cs])
  show ?thesis
  proof (cases r1)
    case None
    then show ?thesis using k jinv_alloc [OF i1] by simp
  next
    case (Some pi)
    obtain p isnew where pi: "pi = (p, isnew)" by (cases pi)
    from k Some pi obtain ko kn st2 where m: "sjoin_merge p src isnew (c_atol (parv ! 1)) md st1 = Some (ko, kn, st2)"
      and u: "sjoin_users env client_p fr source_p src p isnew ko kn parv (dropWhile (\<lambda>c. c = CHR '' '') (parv ! (args + 4))) st2 = Some st'"
      by (auto simp: bind_eq_Some_conv)
    have "\<exists>ch. cw_channels (js_w st2) p = Some ch \<and> ch_members ch = []" if "isnew"
      using open_channel_result [OF o ne] sjoin_merge_new [of p src "c_atol (parv ! 1)" md st1 ko kn st2] m that Some pi by fastforce
    then show ?thesis using sjoin_users_inv [OF jinv_sjoin_merge [OF m i1] u] by blast
  qed
qed


section \<open>JOIN of a local user\<close>

text \<open>The names that reach the second loop: proper strings of at most \<^const>\<open>LOC_CHANNELLEN\<close> bytes.\<close>

definition good_names :: "string \<Rightarrow> bool" where
  "good_names jbuf \<longleftrightarrow> (\<forall>t \<in> set (split_on (CHR '','') jbuf). length t \<le> LOC_CHANNELLEN \<and> cstring t)"

lemma split_on_chars: "t \<in> set (split_on d s) \<Longrightarrow> set t \<subseteq> set s - {d}"
proof (induction s arbitrary: t)
  case (Cons x s)
  then show ?case by (cases "split_on d s") (fastforce split: if_splits)+
qed simp

lemma good_names_add:
  assumes j: "good_names jbuf" and n: "length name \<le> LOC_CHANNELLEN" "cstring name" "CHR '','' \<notin> set name"
    and r: "add_name jbuf name = Some jbuf'"
  shows "good_names jbuf'"
proof -
  have t: "good_names (take k name)" for k
    using n by (subst good_names_def, subst split_on_none) (auto simp: cstring_def dest: in_set_takeD)
  obtain p l where p: "p = [] \<and> jbuf = [] \<or> p = jbuf @ '','' \<and> length p < BUFSIZE" and s: "rb_strlcat p name (of_nat BUFSIZE) = Some (jbuf', l)"
    using r by (auto simp: add_name_def split: Option.bind_splits if_splits)
  have "jbuf' = take 511 (p @ name)"
    using s rb_strlcat_fits [of p "of_nat BUFSIZE" name] p n(1) by (auto simp: BUFSIZE_def LOC_CHANNELLEN_def)
  then have "jbuf' = p @ take (511 - length p) name" using p by (auto simp: BUFSIZE_def)
  with p consider "jbuf' = take (511 - length p) name" | "jbuf' = jbuf @ CHR '','' # take (511 - length p) name" by auto
  then show ?thesis
  proof cases
    case 1
    then show ?thesis using t by simp
  next
    case 2
    then show ?thesis using t [of "511 - length p"] j by (auto simp: good_names_def split_on_append)
  qed
qed

lemma jinv_confs: "jinv ue U st \<Longrightarrow> jinv ue U (st\<lparr>js_w := (js_w st)\<lparr>cw_confs := x\<rparr>\<rparr>)"
  by (simp add: jinv_def chan_inv_confs)

lemma jinv_juped: "juped src name p st = Some st' \<Longrightarrow> jinv ue U st \<Longrightarrow> jinv ue U st'"
  by (auto simp: juped_def Let_def to_source_def put_out_def jinv_def chan_inv_confs split: Option.bind_splits if_splits)

lemma join_names_inv:
  "join_names env cp lead names jbuf st = Some (jbuf', st') \<Longrightarrow> jinv ue U st \<Longrightarrow> good_names jbuf \<Longrightarrow>
   (\<And>n. n \<in> set names \<Longrightarrow> cstring n \<and> CHR '','' \<notin> set n) \<Longrightarrow> jinv ue U st' \<and> good_names jbuf'"
proof (induction names arbitrary: lead jbuf st)
  case (Cons name names)
  have name: "cstring name" "CHR '','' \<notin> set name" using Cons.prems(4) by auto
  note IH = Cons.IH [OF _ _ _ Cons.prems(4)]
  obtain src me where c: "cw_clients (js_w st) cp = Some src" "me_client st = Some me"
    using Cons.prems(1) by (auto split: Option.bind_splits)
  have z: "good_names ''0''" by code_simp
  consider (bad) st1 where "jinv ue U st1" "join_names env cp False names jbuf st1 = Some (jbuf', st')"
    | (zero) "join_names env cp False names ''0'' st = Some (jbuf', st')"
    | (ok) jbuf1 st1 where "jinv ue U st1" "length name \<le> LOC_CHANNELLEN" "add_name jbuf name = Some jbuf1"
        "join_names env cp False names jbuf1 st1 = Some (jbuf', st')"
  proof (cases "\<not> check_channel_name_loc env src name \<or> length name > LOC_CHANNELLEN \<or> name = ''0'' \<and> lead \<or> \<not> IsChannelName name")
    case True
    then show thesis
      using Cons.prems(1,2) c that(1) [of "to_source 479 [name] st"] that(1) [of "to_source 403 [name] st"] that(2)
      by (auto split: if_split_asm)
  next
    case False
    with Cons.prems(1) c obtain aconf confs where
      k: "(case aconf of Some confp \<Rightarrow> do { st \<leftarrow> juped src name confp (st\<lparr>js_w := (js_w st)\<lparr>cw_confs := confs\<rparr>\<rparr>); join_names env cp False names jbuf st }
       | None \<Rightarrow>
           if je_splitmode env \<and> \<not> IsOper src \<and> headc name \<noteq> CHR ''&'' \<and> je_no_join_on_split env
           then join_names env cp False names jbuf (to_source 437 [cl_name me, cl_name src, name] (st\<lparr>js_w := (js_w st)\<lparr>cw_confs := confs\<rparr>\<rparr>))
           else do { jbuf \<leftarrow> add_name jbuf name; join_names env cp False names jbuf (st\<lparr>js_w := (js_w st)\<lparr>cw_confs := confs\<rparr>\<rparr>) }) = Some (jbuf', st')"
      by (auto simp: Let_def bind_eq_Some_conv)
    have i: "jinv ue U (st\<lparr>js_w := (js_w st)\<lparr>cw_confs := confs\<rparr>\<rparr>)" by (rule jinv_confs [OF Cons.prems(2)])
    then have i2: "jinv ue U (to_source 437 [cl_name me, cl_name src, name] (st\<lparr>js_w := (js_w st)\<lparr>cw_confs := confs\<rparr>\<rparr>))" by simp
    show thesis
    proof (cases aconf)
      case None
      then show thesis using k that(1) [OF i2] that(3) [OF i] False by (auto simp: bind_eq_Some_conv not_less split: if_split_asm)
    next
      case (Some confp)
      then obtain st1 where "juped src name confp (st\<lparr>js_w := (js_w st)\<lparr>cw_confs := confs\<rparr>\<rparr>) = Some st1"
        "join_names env cp False names jbuf st1 = Some (jbuf', st')" using k by (auto simp: bind_eq_Some_conv)
      then show thesis using that(1) jinv_juped [OF _ i] by blast
    qed
  qed
  then show ?case
    using IH Cons.prems(2,3) z good_names_add [OF Cons.prems(3) _ name] by cases auto
qed simp


lemma jinv_del_invite:
  assumes inv: "jinv ue U st" and r: "del_invite chp cp (js_w st) = Some w"
  shows "jinv ue U (st\<lparr>js_w := w\<rparr>)"
proof -
  obtain ch c l where ch: "cw_channels (js_w st) chp = Some ch" and c: "cw_clients (js_w st) cp = Some c" "cl_local c = Some l"
    and w: "w = set_client cp (c\<lparr>cl_local := Some (l\<lparr>lu_invited := remove1 chp (lu_invited l)\<rparr>)\<rparr>)
            (set_channel chp (ch\<lparr>ch_invites := remove1 cp (ch_invites ch)\<rparr>) (js_w st))"
    using r by (auto simp: del_invite_def split: Option.bind_splits)
  have ok: "cworld_ok (js_w st)" using jinvD(1) [OF inv] by (simp add: chan_inv_def)
  have u: "users_sim (cw_clients (js_w st)) (cw_clients w)"
    using w users_sim_upd [of "cw_clients (js_w st)" "cw_clients (js_w st)" cp c] c same_user_local by simp
  have "members_of w = members_of (js_w st)" "locals_of w = locals_of (js_w st)"
    using w ch by (auto simp: fun_eq_iff members_of_def locals_of_def)
  then have "cworld_ok w"
    using ok u w ch cworld_okD(7) [OF ok] chan_tab_ok_update [of "cw_channels (js_w st)" chp ch] set_remove1_subset [of cp "ch_invites ch"]
    by (intro cworld_ok_users_sim [OF ok u]) (auto split: if_split_asm)
  then have i: "chan_inv ue w" using bans_ok_shrinks [OF _ del_invite_shrinks [OF r]] jinvD(1) [OF inv] by (simp add: chan_inv_def)
  have "chp < js_next st" using jinvD(2) [OF inv] ch by (metis leI option.distinct(1))
  then show ?thesis using inv i w ch c unfolding jinv_def by auto
qed

lemma jinv_greet: "greet env chp cp st = Some st' \<Longrightarrow> jinv ue U st \<Longrightarrow> jinv ue U st'"
proof -
  have f: "jinv ue U (foldl (\<lambda>st l. put_out (Sent [cp] l) st) st ls) = jinv ue U st" for ls and st :: jstate
    by (induction ls arbitrary: st) simp_all
  assume "greet env chp cp st = Some st'" "jinv ue U st"
  then show ?thesis by (auto simp: greet_def Let_def f split: Option.bind_splits option.splits)
qed

lemma jinv_join_new: "join_new env fr chp src st = Some st' \<Longrightarrow> jinv ue U st \<Longrightarrow> jinv ue U st'"
proof -
  let ?f = "\<lambda>ch. ch\<lparr>ch_channelts := je_now env, ch_mode := (ch_mode ch)\<lparr>md_mode := md_mode (ch_mode ch) OR MODE_TOPICLIMIT OR MODE_NOPRIVMSGS\<rparr>\<rparr>"
  have u: "upd_channel chp ?f st = Some st1 \<Longrightarrow> jinv ue U st \<Longrightarrow> jinv ue U st1" for st1
    using jinv_upd_channel [of ue U st chp ?f st1] by (simp add: same_bans_def)
  assume "join_new env fr chp src st = Some st'" "jinv ue U st"
  then obtain st1 st2 t p l where "upd_channel chp ?f st = Some st1" "sendto_channel_local t p l st1 = Some st2" "jinv ue U st2 \<Longrightarrow> jinv ue U st'"
    by (auto simp: join_new_def Let_def bind_eq_Some_conv split: if_split_asm)
  then show ?thesis using u \<open>jinv ue U st\<close> jinv_frames(1) by blast
qed

lemma jinv_join_old: "join_old env fr chp src st = Some st' \<Longrightarrow> jinv ue U st \<Longrightarrow> jinv ue U st'"
  by (auto simp: join_old_def Let_def split: Option.bind_splits)


lemma join_channel_inv:
  assumes inv: "jinv ue {cp} st" and out: "outsider chp cp st" and fl: "fl AND CHFL_BANNED = 0"
    and r: "join_channel env client_p cp name key fl chp cnt st = Some (cnt', st')"
  shows "jinv ue {cp} st'"
proof -
  from r obtain src and me :: Client and c :: Client and st1 i where src: "cw_clients (js_w st) cp = Some src"
    and sp: "(if \<not> IsOper src \<and> \<not> IsExemptSpambot src then spambot_check env cp (Some name) st else Some st) = Some st1"
    and j: "can_join env cp chp key (js_w st1) = Some i"
    and k: "(if i \<noteq> 0 then Some (cnt - 1, to_source i [cl_name me, cl_name src, name] st1)
     else do {
       st \<leftarrow> add_member chp cp fl st1;
       ch \<leftarrow> cw_channels (js_w st) chp;
       st \<leftarrow> announce_join chp src (ch_chname ch) st;
       st \<leftarrow> (if fl AND CHFL_CHANOP \<noteq> 0 then join_new env (cl_from c) chp src st else join_old env (cl_from c) chp src st);
       w \<leftarrow> del_invite chp cp (js_w st);
       st \<leftarrow> greet env chp cp (st\<lparr>js_w := w\<rparr>);
       st \<leftarrow> note_join env cp cnt st;
       Some (cnt, st)
     }) = Some (cnt', st')"
    by (auto simp: join_channel_def bind_eq_Some_conv)
  have i1: "jinv ue {cp} st1" using sp inv jinv_spambot by (auto split: if_split_asm)
  have "cw_members (js_w st1) = cw_members (js_w st)"
    using sp by (auto simp: spambot_check_def upd_local_def Let_def put_out_def split: if_split_asm Option.bind_splits prod.split_asm option.split_asm)
  then have o1: "outsider chp cp st1" using out outsider_cong by blast
  show ?thesis
  proof (cases "i = 0")
    case False
    then show ?thesis using k i1 by auto
  next
    case True
    obtain ch where ch: "cw_channels (js_w st1) chp = Some ch" using j by (auto simp: can_join_def split: Option.bind_splits)
    from i1 obtain c1 where c1: "cw_clients (js_w st1) cp = Some c1" "IsClient c1" using jinvD(5) by blast
    from k True obtain st2 and ch2 :: Channel and st3 st4 w st5 where 2: "add_member chp cp fl st1 = Some st2"
      and 3: "announce_join chp src (ch_chname ch2) st2 = Some st3"
      and 4: "(if fl AND CHFL_CHANOP \<noteq> 0 then join_new env (cl_from c) chp src st3 else join_old env (cl_from c) chp src st3) = Some st4"
      and 5: "del_invite chp cp (js_w st4) = Some w" "greet env chp cp (st4\<lparr>js_w := w\<rparr>) = Some st5" "note_join env cp cnt st5 = Some st'"
      by (auto simp: bind_eq_Some_conv)
    have "jinv ue {cp} st3" using jinv_add_member [OF i1 c1 o1 ch fl 2] jinv_frames(7) [OF 3] by simp
    then have "jinv ue {cp} st4" using 4 jinv_join_new jinv_join_old by (auto split: if_split_asm)
    then show ?thesis using jinv_del_invite [OF _ 5(1)] jinv_greet [OF 5(2)] jinv_note [OF _ 5(3)] by blast
  qed
qed

lemma open_outsider:
  assumes inv: "jinv ue {cp} st" and name: "name \<noteq> []" "cstring name" "length name \<le> LOC_CHANNELLEN"
    and f: "find_channel (cw_channels (js_w st)) (cw_tabs (js_w st)) (Some name) = Some chp"
    and m: "(case chp of None \<Rightarrow> Some False | Some p \<Rightarrow> IsMember cp p (js_w st)) = Some False"
    and live: "\<And>p. chp = Some p \<Longrightarrow> \<exists>ch. cw_channels (js_w st) p = Some ch"
    and o: "(case chp of Some p \<Rightarrow> Some (Some (p, False), st) | None \<Rightarrow> open_channel env src name st) = Some (r, st1)"
  shows "\<exists>p b. r = Some (p, b) \<and> jinv ue {cp} st1 \<and> outsider p cp st1"
proof (cases chp)
  case None
  then have o: "open_channel env src name st = Some (r, st1)" using o by simp
  from o name(1) show ?thesis
  proof (cases rule: open_channel_result)
    case (found p)
    then show ?thesis using o f None name
      by (auto simp: open_channel_def get_or_create_eq find_channel_def chan_request_def LOC_CHANNELLEN_def CHANNELLEN_def split: Option.bind_splits)
  next
    case (created gl t)
    have "outsider (js_next st) cp st" using outsider_new [OF inv] jinvD(2) [OF inv] by simp
    then show ?thesis using created outsider_cong [of st1 st] jinv_open [OF inv o name(1,2)] by auto
  qed
next
  case (Some p)
  obtain c where c: "cw_clients (js_w st) cp = Some c" "IsClient c" using jinvD(5) [OF inv] by blast
  obtain ch where "cw_channels (js_w st) p = Some ch" using live Some by blast
  then have "outsider p cp st" using outsider_not_member [OF inv c] m Some by auto
  then show ?thesis using o Some inv by auto
qed

lemma join_one_inv:
  assumes inv: "jinv ue {cp} st" and name: "name \<noteq> []" "cstring name" "length name \<le> LOC_CHANNELLEN"
    and r: "join_one env client_p cp name key cnt st = Some (go, cnt', st')"
  shows "jinv ue {cp} st'"
proof (cases "headc name = CHR ''0'' \<and> c_atoi name = 0")
  case True
  then show ?thesis using r inv jinv_join_0 by (auto simp: join_one_def bind_eq_Some_conv split: if_split_asm)
next
  case False
  with r obtain src and chans :: "ptr list" and me :: Client and chp member where src: "cw_clients (js_w st) cp = Some src"
    and f: "find_channel (cw_channels (js_w st)) (cw_tabs (js_w st)) (Some name) = Some chp"
    and m: "(case chp of None \<Rightarrow> Some False | Some p \<Rightarrow> IsMember cp p (js_w st)) = Some member"
    and k: "(if member then Some (True, cnt, st)
       else if chp = None \<and> je_splitmode env \<and> \<not> IsOper src \<and> headc name \<noteq> CHR ''&'' \<and> je_no_create_on_split env
       then Some (True, cnt, to_source 437 [cl_name me, cl_name src, name] st)
       else do {
         flags \<leftarrow> (case chp of None \<Rightarrow> Some CHFL_CHANOP
                    | Some p \<Rightarrow> map_option (\<lambda>ch. if ch_members ch = [] then CHFL_CHANOP else 0) (cw_channels (js_w st) p));
         if length chans \<ge> je_max_chans_per_user env \<and> (\<not> IsOper src \<or> length chans \<ge> je_max_chans_per_user env * 3)
         then do { st \<leftarrow> note_join env cp cnt (to_source 405 [cl_name me, cl_name src, name] st); Some (False, cnt, st) }
         else do {
           let cnt = (if flags = 0 then cnt + 1 else cnt);
           (r, st) \<leftarrow> (case chp of Some p \<Rightarrow> Some (Some (p, False), st) | None \<Rightarrow> open_channel env src name st);
           case r of
             None \<Rightarrow> Some (True, cnt - 1, to_source 437 [cl_name me, cl_name src, name] st)
           | Some (chptr, _) \<Rightarrow> do {
               (cnt, st) \<leftarrow> join_channel env client_p cp name key flags chptr cnt st;
               Some (True, cnt, st)
             }
         }
       }) = Some (go, cnt', st')"
    unfolding join_one_def bind_eq_Some_conv if_not_P [OF False] by blast
  have fl: "CHFL_CHANOP AND CHFL_BANNED = 0" by (simp add: CHFL_CHANOP_def CHFL_BANNED_def)
  from jinvD(5) [OF inv] src have c: "IsClient src" by auto
  show ?thesis
  proof (cases "member \<or> chp = None \<and> je_splitmode env \<and> \<not> IsOper src \<and> headc name \<noteq> CHR ''&'' \<and> je_no_create_on_split env")
    case True
    then show ?thesis using k inv by (auto split: if_split_asm)
  next
    case nm: False
    with k obtain flags where flags: "(case chp of None \<Rightarrow> Some CHFL_CHANOP
         | Some p \<Rightarrow> map_option (\<lambda>ch. if ch_members ch = [] then CHFL_CHANOP else 0) (cw_channels (js_w st) p)) = Some flags"
      by (auto split: Option.bind_splits if_split_asm)
    then have fb: "flags AND CHFL_BANNED = 0" using fl by (auto split: option.split_asm if_split_asm)
    show ?thesis
    proof (cases "length chans \<ge> je_max_chans_per_user env \<and> (\<not> IsOper src \<or> length chans \<ge> je_max_chans_per_user env * 3)")
      case True
      then show ?thesis using k nm flags inv
        using jinv_note [of ue "{cp}" "to_source 405 [cl_name me, cl_name src, name] st"] by (auto simp: bind_eq_Some_conv split: if_split_asm)
    next
      case False
      with k nm flags obtain r1 st1 where
        o: "(case chp of Some p \<Rightarrow> Some (Some (p, False), st) | None \<Rightarrow> open_channel env src name st) = Some (r1, st1)"
        by (auto simp: Let_def bind_eq_Some_conv split: if_split_asm)
      have "(case chp of None \<Rightarrow> Some False | Some p \<Rightarrow> IsMember cp p (js_w st)) = Some False" using m nm by auto
      moreover have "\<exists>ch. cw_channels (js_w st) p = Some ch" if "chp = Some p" for p using flags that by auto
      ultimately obtain p b where 1: "r1 = Some (p, b)" "jinv ue {cp} st1" "outsider p cp st1"
        using open_outsider [OF inv name f _ _ o] by blast
      from k nm flags False o 1(1) obtain n where "\<exists>cnt0. join_channel env client_p cp name key flags p cnt0 st1 = Some (n, st')"
        by (auto simp: Let_def bind_eq_Some_conv split: if_split_asm)
      then show ?thesis using join_channel_inv [OF 1(2,3) fb] by blast
    qed
  qed
qed

lemma join_loop_inv:
  "join_loop env client_p cp names keys cnt st = Some st' \<Longrightarrow> jinv ue {cp} st \<Longrightarrow>
   (\<And>n. n \<in> set names \<Longrightarrow> n \<noteq> [] \<and> cstring n \<and> length n \<le> LOC_CHANNELLEN) \<Longrightarrow> jinv ue {cp} st'"
proof (induction names arbitrary: keys cnt st)
  case (Cons name names)
  then obtain go cnt1 st1 where o: "join_one env client_p cp name (case keys of [] \<Rightarrow> None | k # _ \<Rightarrow> Some k) cnt st = Some (go, cnt1, st1)"
    and l: "(if go then join_loop env client_p cp names (tl keys) cnt1 st1 else Some st1) = Some st'"
    by (auto simp: bind_eq_Some_conv)
  have "jinv ue {cp} st1" using join_one_inv [OF Cons.prems(2) _ _ _ o] Cons.prems(3) by simp
  then show ?case using l Cons.IH Cons.prems(3) by (auto split: if_split_asm)
qed simp

lemma m_join_inv:
  assumes inv: "jinv ue {cp} st" and parv: "\<And>s. s \<in> set parv \<Longrightarrow> cstring s" and r: "m_join env client_p cp parv st = Some st'"
  shows "jinv ue {cp} st'"
proof -
  let ?names = "strtok_list (CHR '','') (parv ! 1)"
  from r obtain jbuf st1 keys where len: "\<not> length parv < 2"
    and n: "join_names env cp (headc (parv ! 1) \<noteq> CHR '','') ?names [] st = Some (jbuf, st1)"
    and l: "join_loop env client_p cp (strtok_list (CHR '','') jbuf) keys 0 st1 = Some st'"
    by (auto simp: m_join_def Let_def bind_eq_Some_conv split: if_split_asm)
  have "cstring (parv ! 1)" using parv [of "parv ! 1"] len by simp
  then have "cstring n \<and> CHR '','' \<notin> set n" if "n \<in> set ?names" for n
    using that split_on_chars [of n] by (auto simp: strtok_list_def cstring_def)
  then have j: "jinv ue {cp} st1 \<and> good_names jbuf"
    by (intro join_names_inv [OF n inv]) (auto simp: good_names_def cstring_def)
  show ?thesis
    by (rule join_loop_inv [OF l]) (use j in \<open>auto simp: strtok_list_def good_names_def\<close>)
qed

text \<open>
  C15: JOIN from a user, JOIN and SJOIN from a remote user and SJOIN from a server, with any
  parameters, keep the invariant of the channel subsystem (membership lists, channel table, cached
  ban verdicts) and never reuse an address that is in use.
\<close>

theorem joins_keep_invariant:
  assumes inv: "jinv ue U st" and parv: "\<And>s. s \<in> set parv \<Longrightarrow> cstring s"
    and run: "source_p \<in> U \<and> (m_join env client_p source_p parv st = Some st' \<or> ms_join env client_p source_p parv st = Some st' \<or>
        mc_sjoin env client_p source_p parv st = Some st') \<or> ms_sjoin env client_p source_p parv st = Some st'"
  shows "chan_inv ue (js_w st') \<and> alloc_free st'"
proof (cases "ms_sjoin env client_p source_p parv st = Some st'")
  case True
  then show ?thesis using ms_sjoin_inv [OF inv] parv by blast
next
  case False
  have i: "jinv ue {source_p} st" using inv run False by (auto simp: jinv_def)
  have "jinv ue {source_p} st'"
    using run False m_join_inv [OF i, of parv env client_p st'] jinv_ms_join [OF i, of parv env client_p st']
      jinv_mc_sjoin [OF i, of parv env client_p st'] parv by blast
  then show ?thesis by (rule jinv_alloc)
qed

lemma do_join_0_total:
  assumes inv: "jinv ue {source_p} st" and src: "cw_clients (js_w st) source_p = Some src" "MyConnect src \<Longrightarrow> cl_local src \<noteq> None"
    and c: "cw_clients (js_w st) client_p = Some c"
  shows "\<exists>st'. do_join_0 env client_p source_p st = Some st' \<and> chan_inv ue (js_w st') \<and> chans_of (js_w st') source_p = []"
proof -
  obtain l where l: "cl_user src = Some l" using jinvD(3,5) [OF inv] src(1) by fastforce
  let ?g = "if MyClient src \<and> \<not> IsFloodDone src then do { s \<leftarrow> flood_endgrace src; Some (st\<lparr>js_w := set_client source_p s (js_w st)\<rparr>) } else Some st"
  have "\<exists>st1. ?g = Some st1" using src(2) by (cases "cl_local src") (auto simp: flood_endgrace_def MyClient_def)
  then obtain st1 where g: "?g = Some st1" by blast
  obtain c1 where c1: "jinv ue {source_p} st1" "cw_clients (js_w st1) source_p = Some c1" "cl_user c1 = Some l" "same_user src c1"
    using grace_over [OF inv src(1) l g] by blast
  define st2 where "st2 = to_servers env (Some (cl_from c)) None NOCAPS CAP_TS6 ('':'' @ cl_name src @ '' JOIN 0'')
          (to_servers env (Some (cl_from c)) None CAP_TS6 NOCAPS ('':'' @ use_id src @ '' JOIN 0'') st1)"
  have 2: "jinv ue {source_p} st2" "cw_clients (js_w st2) source_p = Some c1" using c1 by (simp_all add: st2_def to_servers_def put_out_def jinv_def)
  let ?s = "if l \<noteq> [] \<and> MyConnect src \<and> \<not> IsOper src \<and> \<not> IsExemptSpambot src then spambot_check env source_p None st2 else Some st2"
  have "\<exists>st3. ?s = Some st3"
    using 2(2) c1(4) src(2) by (cases "cl_local c1") (auto simp: spambot_check_def upd_local_def same_user_def Let_def split: prod.splits)
  then obtain st3 where 3: "?s = Some st3" by blast
  have "do_join_0 env client_p source_p st = join_0_loop (length l) source_p st3"
    by (simp only: do_join_0_def Let_def src(1) c g l 3 [unfolded st2_def] Option.bind.simps)
  moreover obtain c3 where "jinv ue {source_p} st3" "cw_clients (js_w st3) source_p = Some c3" "cl_user c3 = Some l"
    using 2 3 c1(3) jinv_spambot [OF 2(1), of env source_p None st3] spambot_keeps [of env source_p None st2 st3 source_p c1] by (auto simp: same_user_def split: if_split_asm)
  ultimately show ?thesis using join_0_loop_leaves [of ue "{source_p}" st3 source_p c3 l] jinvD(1) by fastforce
qed


text \<open>
  C16: JOIN 0 always returns: the loop over the channels of the user ends with no channel left,
  and the invariant of the channel subsystem holds.
\<close>

theorem join_0_leaves:
  assumes "jinv ue {source_p} st" "cw_clients (js_w st) source_p = Some src" "MyConnect src \<Longrightarrow> cl_local src \<noteq> None"
    and "cw_clients (js_w st) client_p = Some c"
  shows "\<exists>st'. do_join_0 env client_p source_p st = Some st' \<and> chan_inv ue (js_w st') \<and> chans_of (js_w st') source_p = []"
  by (rule do_join_0_total [OF assms])

definition sample_jst :: jstate where "sample_jst = \<lparr>js_w = sample_joined, js_next = 10, js_out = []\<rparr>"

definition sample_je :: jenv where
  "sample_je = \<lparr>je_servers = [], je_now = 200, je_mem = (\<lambda>_ _. (\<lambda>_. [], \<lambda>_. [])), je_use_except = True, je_use_invex = True,
     je_use_sslonly = False, je_disable_fake_channels = False, je_splitmode = False, je_no_join_on_split = False,
     je_no_create_on_split = False, je_max_chans_per_user = 10, je_spam_num = 0, je_spam_time = 60\<rparr>"

lemma sample_jst_inv: "jinv True {1} sample_jst"
  using chan_runs.inv_reachable [OF sample_reachable, of True] sample_user_local
  by (auto simp: jinv_def sample_jst_def sample_joined_def sample_created_def sample_start_def sample_chan_def split: if_split_asm)

lemma sample_jst_user: "cw_clients (js_w sample_jst) 1 = Some (sample_user\<lparr>cl_user := Some [7]\<rparr>)" "cl_local sample_user \<noteq> None"
  by (simp_all add: sample_jst_def sample_joined_def sample_user_def)

theorem join_0_leaves_witness:
  "\<exists>st. do_join_0 sample_je 1 1 sample_jst = Some st \<and> chan_inv True (js_w st) \<and> chans_of (js_w st) 1 = []"
  using join_0_leaves [OF sample_jst_inv sample_jst_user(1) _ sample_jst_user(1)] sample_jst_user(2) by simp

theorem joins_keep_invariant_witness:
  "\<exists>st. ms_join sample_je 1 1 [''bob'', ''0''] sample_jst = Some st \<and> chan_inv True (js_w st) \<and> alloc_free st"
proof -
  obtain st where j: "do_join_0 sample_je 1 1 sample_jst = Some st"
    using do_join_0_total [OF sample_jst_inv sample_jst_user(1) _ sample_jst_user(1)] sample_jst_user(2) by auto
  then have "ms_join sample_je 1 1 [''bob'', ''0''] sample_jst = Some st" by (simp add: ms_join_def)
  moreover have "cstring s" if "s \<in> set [''bob'', ''0'']" for s using that by (auto simp: cstring_def NUL_def)
  ultimately show ?thesis using joins_keep_invariant [OF sample_jst_inv, of "[''bob'', ''0'']" 1 sample_je 1 st] by auto
qed

end
