(* ===== verification/Chan_Cmds.thy ===== *)
theory Chan_Cmds
  imports Join_Inv Whowas Parse
begin

text \<open>
  The other commands on channels: PART (\<^verbatim>\<open>modules/core/m_part.c\<close>), KICK (\<^verbatim>\<open>modules/core/m_kick.c\<close>), TOPIC
  (\<^verbatim>\<open>modules/m_topic.c\<close>) and INVITE (\<^verbatim>\<open>modules/m_invite.c\<close>), on the state of \<open>Join\<close>.
\<close>

section \<open>Surroundings\<close>

record cenv =
  ce_j :: jenv
  ce_history :: history
  ce_quiet_on_ban :: bool
  ce_exit_message_time :: int  \<comment> \<open>\<^verbatim>\<open>anti_spam_exit_message_time\<close>\<close>
  ce_invite_ops_only :: bool
  ce_topiclen :: nat

definition REASONLEN :: nat where "REASONLEN = 120"

definition has_op :: "membership option \<Rightarrow> bool" where
  "has_op m = (case m of None \<Rightarrow> False | Some m \<Rightarrow> is_chanop m)"

definition has_half :: "membership option \<Rightarrow> bool" where
  "has_half m = (case m of None \<Rightarrow> False | Some m \<Rightarrow> is_halfop m)"

text \<open>The end of the flood grace, at the start of every command.\<close>

definition finish_grace :: "ptr \<Rightarrow> jstate \<Rightarrow> jstate option" where
  "finish_grace source_p st = do {
     src \<leftarrow> cw_clients (js_w st) source_p;
     if MyClient src \<and> \<not> IsFloodDone src
     then do { src \<leftarrow> flood_endgrace src; Some (st\<lparr>js_w := set_client source_p src (js_w st)\<rparr>) } else Some st
   }"

text \<open>A line for one client goes to the link it is reached through (\<^verbatim>\<open>sendto_one\<close>, \<^verbatim>\<open>sendto_one_prefix\<close>).\<close>

definition sendto_one :: "Client \<Rightarrow> string \<Rightarrow> jstate \<Rightarrow> jstate option" where
  "sendto_one target line st = do {
     d \<leftarrow> cw_clients (js_w st) (cl_from target);
     Some (if IsIOError d then st else put_out (Sent [cl_from target] line) st)
   }"

definition sendto_one_prefix :: "Client \<Rightarrow> Client \<Rightarrow> string \<Rightarrow> string \<Rightarrow> jstate \<Rightarrow> jstate option" where
  "sendto_one_prefix target src command text st = do {
     d \<leftarrow> cw_clients (js_w st) (cl_from target);
     if IsIOError d then Some st
     else if IsMe d then Some (put_out (To_opers ''Trying to send to myself!'') st)
     else do {
       s \<leftarrow> get_id (cw_clients (js_w st)) src target;
       t \<leftarrow> get_id (cw_clients (js_w st)) target target;
       Some (put_out (Sent [cl_from target] ('':'' @ s @ '' '' @ command @ '' '' @ t @ '' '' @ text)) st)
     }
   }"

section \<open>PART\<close>

text \<open>A reason is shown for operators, remote users, and those who may speak and are connected long enough.\<close>

definition part_reason :: "cenv \<Rightarrow> ptr \<Rightarrow> ptr \<Rightarrow> ptr \<Rightarrow> membership \<Rightarrow> cptr \<Rightarrow> jstate \<Rightarrow> (bool \<times> jstate) option" where
  "part_reason env source_p chptr mp m reason st = do {
     src \<leftarrow> cw_clients (js_w st) source_p;
     if EmptyString reason then Some (False, st)
     else if is_chanop m \<or> \<not> MyConnect src then Some (True, st)
     else do {
       (r, w) \<leftarrow> can_send (je_mem (ce_j env)) (je_use_except (ce_j env)) (ce_quiet_on_ban env) chptr source_p (Some mp) (js_w st);
       let st = st\<lparr>js_w := w\<rparr>;
       if r > 0 then do { lu \<leftarrow> cl_local src; Some (lu_firsttime lu + ce_exit_message_time env < je_now (ce_j env), st) }
       else Some (False, st)
     }
   }"

definition part_one_client :: "cenv \<Rightarrow> ptr \<Rightarrow> ptr \<Rightarrow> string \<Rightarrow> cptr \<Rightarrow> jstate \<Rightarrow> jstate option" where
  "part_one_client env client_p source_p name reason st = do {
     src \<leftarrow> cw_clients (js_w st) source_p;
     c \<leftarrow> cw_clients (js_w st) client_p;
     chp \<leftarrow> find_channel (cw_channels (js_w st)) (cw_tabs (js_w st)) (Some name);
     case chp of
       None \<Rightarrow> Some (to_source 403 [name] st)
     | Some chptr \<Rightarrow> do {
         ms \<leftarrow> find_channel_membership chptr source_p (js_w st);
         case ms of
           None \<Rightarrow> Some (to_source 442 [name] st)
         | Some mp \<Rightarrow> do {
             st \<leftarrow> (if MyConnect src \<and> \<not> IsOper src \<and> \<not> IsExemptSpambot src
                    then spambot_check (ce_j env) source_p None st else Some st);
             m \<leftarrow> cw_members (js_w st) mp;
             (shown, st) \<leftarrow> part_reason env source_p chptr mp m reason st;
             ch \<leftarrow> cw_channels (js_w st) chptr;
             let tail = '' PART '' @ ch_chname ch @ (if shown then '' :'' @ the reason else []);
             let st = to_servers (ce_j env) (Some (cl_from c)) (Some (ch_chname ch)) CAP_TS6 NOCAPS ('':'' @ use_id src @ tail) st;
             let st = to_servers (ce_j env) (Some (cl_from c)) (Some (ch_chname ch)) NOCAPS CAP_TS6 ('':'' @ cl_name src @ tail) st;
             st \<leftarrow> sendto_channel_local ALL_MEMBERS chptr ('':'' @ usermask src @ tail) st;
             w \<leftarrow> remove_user_from_channel (Some mp) (js_w st);
             Some (st\<lparr>js_w := w\<rparr>)
           }
       }
   }"

fun part_loop :: "cenv \<Rightarrow> ptr \<Rightarrow> ptr \<Rightarrow> string list \<Rightarrow> cptr \<Rightarrow> jstate \<Rightarrow> jstate option" where
  "part_loop env client_p source_p [] reason st = Some st"
| "part_loop env client_p source_p (name # names) reason st = do {
     st \<leftarrow> part_one_client env client_p source_p name reason st;
     part_loop env client_p source_p names reason st
   }"

definition m_part :: "cenv \<Rightarrow> ptr \<Rightarrow> ptr \<Rightarrow> string list \<Rightarrow> jstate \<Rightarrow> jstate option" where
  "m_part env client_p source_p parv st =
     (if length parv < 2 then None
      else do {
        let reason = (if length parv > 2 then Some (take REASONLEN (parv ! 2)) else None);
        st \<leftarrow> finish_grace source_p st;
        part_loop env client_p source_p (strtok_list (CHR '','') (parv ! 1)) reason st
      })"

section \<open>KICK\<close>

definition kick_user :: "cenv \<Rightarrow> ptr \<Rightarrow> Client \<Rightarrow> Client \<Rightarrow> ptr \<Rightarrow> ptr \<Rightarrow> string \<Rightarrow> string \<Rightarrow> jstate \<Rightarrow> jstate option" where
  "kick_user env client_p src who chptr mp name comment st = do {
     c \<leftarrow> cw_clients (js_w st) client_p;
     ch \<leftarrow> cw_channels (js_w st) chptr;
     st \<leftarrow> sendto_channel_local ALL_MEMBERS chptr ('':'' @ (if IsServer src then cl_name src else usermask src) @ '' KICK '' @ name @
        '' '' @ cl_name who @ '' :'' @ comment) st;
     let st = to_servers (ce_j env) (Some (cl_from c)) (Some (ch_chname ch)) CAP_TS6 NOCAPS
        ('':'' @ use_id src @ '' KICK '' @ ch_chname ch @ '' '' @ use_id who @ '' :'' @ comment) st;
     let st = to_servers (ce_j env) (Some (cl_from c)) (Some (ch_chname ch)) NOCAPS CAP_TS6
        ('':'' @ cl_name src @ '' KICK '' @ ch_chname ch @ '' '' @ cl_name who @ '' :'' @ comment) st;
     w \<leftarrow> remove_user_from_channel (Some mp) (js_w st);
     Some (st\<lparr>js_w := w\<rparr>)
   }"

text \<open>The refusal of a source without the status it needs: for our own users, and for remote ones on a channel without time.\<close>

definition kick_refused :: "Client \<Rightarrow> Channel \<Rightarrow> string \<Rightarrow> jstate \<Rightarrow> jstate option option" where
  "kick_refused src ch name st = do {
     me \<leftarrow> me_client st;
     if MyConnect src then Some (Some (to_source 482 [cl_name me, cl_name src, name] st))
     else if ch_channelts ch = 0 then do {
       m \<leftarrow> get_id (cw_clients (js_w st)) me src;
       s \<leftarrow> get_id (cw_clients (js_w st)) src src;
       Some (Some (to_source 482 [m, s, name] st))
     }
     else Some None
   }"

definition kick_target :: "cenv \<Rightarrow> ptr \<Rightarrow> Client \<Rightarrow> ptr \<Rightarrow> bool \<Rightarrow> string \<Rightarrow> string \<Rightarrow> cptr \<Rightarrow> jstate \<Rightarrow> jstate option" where
  "kick_target env client_p src chptr halfop name user comment st = do {
     me \<leftarrow> me_client st;
     ch \<leftarrow> cw_channels (js_w st) chptr;
     (who_p, chasing, unknown) \<leftarrow> find_chasing (cw_clients (js_w st)) (cw_tabs (js_w st)) (ce_history env) (je_now (ce_j env)) src user;
     case who_p of
       None \<Rightarrow> Some (if unknown then to_source 401 [user] st else st)
     | Some wp \<Rightarrow> do {
         who \<leftarrow> cw_clients (js_w st) wp;
         ms \<leftarrow> find_channel_membership chptr wp (js_w st);
         case ms of
           None \<Rightarrow> Some (if MyClient src then to_source 441 [user, name] st else st)
         | Some mp \<Rightarrow> do {
             m \<leftarrow> cw_members (js_w st) mp;
             let comment = take REASONLEN (if EmptyString comment then cl_name who else the comment);
             if MyClient src \<and> IsService who then Some (to_source 484 [cl_name me, cl_name src, cl_name who, ch_chname ch] st)
             else do {
               refused \<leftarrow> (if halfop \<and> (is_chanop m \<or> is_halfop m) then kick_refused src ch name st else Some None);
               case refused of Some st \<Rightarrow> Some st
               | None \<Rightarrow> kick_user env client_p src who chptr mp name comment st
             }
           }
       }
   }"

definition m_kick :: "cenv \<Rightarrow> ptr \<Rightarrow> ptr \<Rightarrow> string list \<Rightarrow> jstate \<Rightarrow> jstate option" where
  "m_kick env client_p source_p parv st =
     (if length parv < 3 then None
      else do {
        st \<leftarrow> finish_grace source_p st;
        src \<leftarrow> cw_clients (js_w st) source_p;
        let name = takeWhile (\<lambda>c. c \<noteq> CHR '','') (parv ! 1);
        let user = takeWhile (\<lambda>c. c \<noteq> CHR '','') (parv ! 2);
        let comment = (if length parv > 3 then Some (parv ! 3) else None);
        chp \<leftarrow> find_channel (cw_channels (js_w st)) (cw_tabs (js_w st)) (Some name);
        case chp of
          None \<Rightarrow> Some (to_source 403 [name] st)
        | Some chptr \<Rightarrow>
            if IsServer src then kick_target env client_p src chptr False name user comment st
            else do {
              ch \<leftarrow> cw_channels (js_w st) chptr;
              ms \<leftarrow> find_channel_membership chptr source_p (js_w st);
              m \<leftarrow> (case ms of None \<Rightarrow> Some None | Some mp \<Rightarrow> map_option Some (cw_members (js_w st) mp));
              if ms = None \<and> MyConnect src then Some (to_source 442 [name] st)
              else do {
                refused \<leftarrow> (if \<not> has_op m \<and> \<not> has_half m then kick_refused src ch name st else Some None);
                case refused of Some st \<Rightarrow> Some st
                | None \<Rightarrow> kick_target env client_p src chptr (\<not> has_op m \<and> has_half m) name user comment st
              }
            }
      })"

section \<open>TOPIC\<close>

definition topic_text :: "Channel \<Rightarrow> string" where
  "topic_text ch = (case ch_topic ch of None \<Rightarrow> [] | Some t \<Rightarrow> tp_topic t)"

definition set_topic :: "cenv \<Rightarrow> ptr \<Rightarrow> Client \<Rightarrow> ptr \<Rightarrow> string \<Rightarrow> jstate \<Rightarrow> jstate option" where
  "set_topic env client_p src chptr topic st =
     (if length (usermask src) < USERHOST_REPLYLEN then do {
        c \<leftarrow> cw_clients (js_w st) client_p;
        ch \<leftarrow> cw_channels (js_w st) chptr;
        ch \<leftarrow> set_channel_topic (ce_topiclen env) ch topic (usermask src) (je_now (ce_j env));
        let st = st\<lparr>js_w := set_channel chptr ch (js_w st)\<rparr>;
        let tail = '' TOPIC '' @ ch_chname ch @ '' :'' @ topic_text ch;
        let st = to_servers (ce_j env) (Some (cl_from c)) (Some (ch_chname ch)) CAP_TS6 NOCAPS ('':'' @ use_id src @ tail) st;
        let st = to_servers (ce_j env) (Some (cl_from c)) (Some (ch_chname ch)) NOCAPS CAP_TS6 ('':'' @ cl_name src @ tail) st;
        sendto_channel_local ALL_MEMBERS chptr ('':'' @ usermask src @ tail) st
      } else None)"

definition show_topic :: "Client \<Rightarrow> ptr \<Rightarrow> ptr \<Rightarrow> string \<Rightarrow> jstate \<Rightarrow> jstate option" where
  "show_topic src source_p chptr name st = do {
     me \<leftarrow> me_client st;
     ch \<leftarrow> cw_channels (js_w st) chptr;
     member \<leftarrow> IsMember source_p chptr (js_w st);
     Some (if \<not> member \<and> SecretChannel ch then to_source 442 [name] st
           else case ch_topic ch of
             None \<Rightarrow> to_source 331 [cl_name me, cl_name src, name] st
           | Some t \<Rightarrow> to_source 333 [cl_name me, cl_name src, ch_chname ch, tp_topic_info t, int_str (tp_topic_time t)]
                (to_source 332 [cl_name me, cl_name src, ch_chname ch, tp_topic t] st))
   }"

definition m_topic :: "cenv \<Rightarrow> ptr \<Rightarrow> ptr \<Rightarrow> string list \<Rightarrow> jstate \<Rightarrow> jstate option" where
  "m_topic env client_p source_p parv st =
     (if length parv < 2 then None
      else do {
        st \<leftarrow> finish_grace source_p st;
        src \<leftarrow> cw_clients (js_w st) source_p;
        me \<leftarrow> me_client st;
        let name = takeWhile (\<lambda>c. c \<noteq> CHR '','') (parv ! 1);
        if \<not> IsChannelName name then Some (to_source 403 [name] st)
        else do {
          chp \<leftarrow> find_channel (cw_channels (js_w st)) (cw_tabs (js_w st)) (Some name);
          case chp of
            None \<Rightarrow> Some (to_source 403 [name] st)
          | Some chptr \<Rightarrow>
              if length parv > 2 then do {
                ch \<leftarrow> cw_channels (js_w st) chptr;
                ms \<leftarrow> find_channel_membership chptr source_p (js_w st);
                case ms of
                  None \<Rightarrow> Some (to_source 442 [name] st)
                | Some mp \<Rightarrow> do {
                    m \<leftarrow> cw_members (js_w st) mp;
                    if md_mode (ch_mode ch) AND MODE_TOPICLIMIT = 0 \<or> is_chanop m \<or> is_halfop m
                    then set_topic env client_p src chptr (parv ! 2) st
                    else Some (to_source 482 [cl_name me, cl_name src, name] st)
                  }
              }
              else if MyClient src then show_topic src source_p chptr name st
              else Some st
        }
      })"

section \<open>INVITE\<close>

text \<open>An invitation is kept at both ends; when the user has too many, the oldest one goes.\<close>

definition add_invite :: "cenv \<Rightarrow> ptr \<Rightarrow> ptr \<Rightarrow> cworld \<Rightarrow> cworld option" where
  "add_invite env chptr who w = do {
     c \<leftarrow> cw_clients w who;
     lu \<leftarrow> cl_local c;
     if chptr \<in> set (lu_invited lu) then Some w
     else do {
       w \<leftarrow> (if length (lu_invited lu) \<ge> je_max_chans_per_user (ce_j env)
              then (if lu_invited lu = [] then None else del_invite (last (lu_invited lu)) who w)
              else Some w);
       c \<leftarrow> cw_clients w who;
       lu \<leftarrow> cl_local c;
       ch \<leftarrow> cw_channels w chptr;
       Some (set_client who (c\<lparr>cl_local := Some (lu\<lparr>lu_invited := chptr # lu_invited lu\<rparr>)\<rparr>)
              (set_channel chptr (ch\<lparr>ch_invites := who # ch_invites ch\<rparr>) w))
     }
   }"

definition do_invite :: "cenv \<Rightarrow> ptr \<Rightarrow> Client \<Rightarrow> ptr \<Rightarrow> Client \<Rightarrow> ptr \<Rightarrow> string \<Rightarrow> bool \<Rightarrow> jstate \<Rightarrow> jstate option" where
  "do_invite env client_p src target_p target chptr name store_invite st = do {
     me \<leftarrow> me_client st;
     ch \<leftarrow> cw_channels (js_w st) chptr;
     let st = (if MyConnect src
               then (let st = to_source 341 [cl_name me, cl_name src, cl_name target, name] st
                     in (case cl_away target of None \<Rightarrow> st | Some a \<Rightarrow> to_source 301 [cl_name target, a] st))
               else st);
     if MyConnect target then do {
       st \<leftarrow> sendto_one target ('':'' @ usermask src @ '' INVITE '' @ cl_name target @ '' :'' @ ch_chname ch) st;
       if store_invite then do { w \<leftarrow> add_invite env chptr target_p (js_w st); Some (st\<lparr>js_w := w\<rparr>) } else Some st
     }
     else if cl_from target \<noteq> client_p then sendto_one_prefix target src ''INVITE'' ('':'' @ ch_chname ch) st
     else Some st
   }"

definition m_invite :: "cenv \<Rightarrow> ptr \<Rightarrow> ptr \<Rightarrow> string list \<Rightarrow> jstate \<Rightarrow> jstate option" where
  "m_invite env client_p source_p parv st =
     (if length parv < 3 then None
      else do {
        st \<leftarrow> finish_grace source_p st;
        src \<leftarrow> cw_clients (js_w st) source_p;
        me \<leftarrow> me_client st;
        let name = parv ! 2;
        t \<leftarrow> (if MyClient src then find_named_person (cw_clients (js_w st)) (cw_tabs (js_w st)) (parv ! 1)
              else find_person (cw_clients (js_w st)) (cw_tabs (js_w st)) (parv ! 1));
        case t of
          None \<Rightarrow> Some (to_source 401 [if IsDigit (headc (parv ! 1)) then ''*'' else parv ! 1] st)
        | Some target_p \<Rightarrow> do {
            target \<leftarrow> cw_clients (js_w st) target_p;
            if \<not> check_channel_name (Some name) then Some (to_source 479 [name] st)
            else if \<not> IsChannelName name then Some (if MyClient src then to_source 403 [name] st else st)
            else if headc name = CHR ''&'' \<and> \<not> MyConnect target
            then Some (to_source 504 [cl_name me, cl_name src, cl_name target] st)
            else do {
              chp \<leftarrow> find_channel (cw_channels (js_w st)) (cw_tabs (js_w st)) (Some name);
              case chp of
                None \<Rightarrow> Some (to_source 403 [name] st)
              | Some chptr \<Rightarrow> do {
                  ch \<leftarrow> cw_channels (js_w st) chptr;
                  ms \<leftarrow> find_channel_membership chptr source_p (js_w st);
                  m \<leftarrow> (case ms of None \<Rightarrow> Some None | Some mp \<Rightarrow> map_option Some (cw_members (js_w st) mp));
                  there \<leftarrow> IsMember target_p chptr (js_w st);
                  if MyClient src \<and> ms = None then Some (to_source 442 [name] st)
                  else if there then Some (to_source 443 [cl_name target, name] st)
                  else if (ce_invite_ops_only env \<or> md_mode (ch_mode ch) AND MODE_INVITEONLY \<noteq> 0) \<and> MyClient src \<and> \<not> has_op m
                  then Some (to_source 482 [cl_name me, cl_name src, name] st)
                  else do_invite env client_p src target_p target chptr name (md_mode (ch_mode ch) AND MODE_INVITEONLY \<noteq> 0) st
                }
            }
          }
      })"


section \<open>The invariant\<close>

lemma finish_grace_inv:
  assumes "finish_grace p st = Some st'" "jinv ue U st"
  shows "jinv ue U st' \<and> cw_channels (js_w st') = cw_channels (js_w st) \<and> cw_members (js_w st') = cw_members (js_w st) \<and>
    users_sim (cw_clients (js_w st)) (cw_clients (js_w st'))"
proof -
  obtain c where c: "cw_clients (js_w st) p = Some c" using assms(1) by (auto simp: finish_grace_def split: Option.bind_splits)
  show ?thesis
  proof (cases "MyClient c \<and> \<not> IsFloodDone c")
    case True
    then obtain c' where f: "flood_endgrace c = Some c'" "st' = st\<lparr>js_w := set_client p c' (js_w st)\<rparr>"
      using assms(1) c by (auto simp: finish_grace_def split: Option.bind_splits)
    have "users_sim (cw_clients (js_w st)) ((cw_clients (js_w st))(p \<mapsto> c'))"
      using users_sim_upd [of "cw_clients (js_w st)" "cw_clients (js_w st)" p c c'] c flood_endgrace_same [OF f(1)] by simp
    then show ?thesis using jinv_set_client [OF assms(2) c flood_endgrace_same [OF f(1)]] f(2) by simp
  qed (use assms c in \<open>auto simp: finish_grace_def\<close>)
qed

lemma jinv_remove:
  assumes inv: "jinv ue U st" and m: "cw_members (js_w st) mp = Some m" and r: "remove_user_from_channel (Some mp) (js_w st) = Some w"
  shows "jinv ue U (st\<lparr>js_w := w\<rparr>)"
  using jinv_part [OF inv m] r by (metis option.inject)

lemma can_send_frame:
  assumes r: "can_send mem ue q chp cp (Some mp) w = Some (x, w')" and c: "cw_clients w cp = Some c"
  shows "cw_clients w' = cw_clients w \<and> cw_channels w' = cw_channels w \<and> dom (cw_members w') = dom (cw_members w)"
  using r c
proof (cases rule: can_send_cases)
  case (member y mp')
  then show ?thesis by (auto simp: can_send_member_def split: Option.bind_splits if_split_asm)
qed simp_all

lemma jinv_can_send:
  assumes inv: "jinv ue U st" and r: "can_send mem ue q chp cp (Some mp) (js_w st) = Some (x, w')" and mo: "membership_of chp cp (js_w st) mp"
  shows "jinv ue U (st\<lparr>js_w := w'\<rparr>)"
proof -
  obtain c where c: "cw_clients (js_w st) cp = Some c" using r by (auto simp: can_send_def split: Option.bind_splits)
  have "chan_inv ue w'" using speak_inv [OF jinvD(1) [OF inv] _ r] mo by blast
  moreover have "cw_members w' p = None \<longleftrightarrow> cw_members (js_w st) p = None" for p
    using can_send_frame [OF r c] by (metis domIff)
  ultimately show ?thesis using inv can_send_frame [OF r c] unfolding jinv_def by simp
qed

lemma find_membership:
  assumes inv: "jinv ue U st" and f: "find_channel_membership chp cp (js_w st) = Some (Some mp)"
  shows "membership_of chp cp (js_w st) mp"
proof -
  have ok: "cworld_ok (js_w st)" using jinvD(1) [OF inv] by (simp add: chan_inv_def)
  obtain c ch l where "cw_clients (js_w st) cp = Some c" "IsClient c" "cl_user c = Some l" "cw_channels (js_w st) chp = Some ch"
    using f by (auto simp: find_channel_membership_def split: Option.bind_splits if_split_asm)
  then show ?thesis using find_channel_membership_spec [OF ok] f by fastforce
qed

lemma part_reason_inv:
  assumes r: "part_reason env cp chp mp m reason st = Some (b, st')" and inv: "jinv (je_use_except (ce_j env)) U st"
    and mo: "membership_of chp cp (js_w st) mp"
  shows "jinv (je_use_except (ce_j env)) U st' \<and> (\<exists>m. cw_members (js_w st') mp = Some m)"
proof -
  obtain m0 where m0: "cw_members (js_w st) mp = Some m0" using mo by (auto simp: membership_of_def)
  consider "st' = st" | x w where "can_send (je_mem (ce_j env)) (je_use_except (ce_j env)) (ce_quiet_on_ban env) chp cp (Some mp) (js_w st) = Some (x, w)"
      "st' = st\<lparr>js_w := w\<rparr>"
    using r by (auto simp: part_reason_def Let_def bind_eq_Some_conv split: if_split_asm)
  then show ?thesis
  proof cases
    case 2
    obtain c where c: "cw_clients (js_w st) cp = Some c" using 2(1) by (auto simp: can_send_def split: Option.bind_splits)
    show ?thesis using jinv_can_send [OF inv 2(1) mo] can_send_frame [OF 2(1) c] m0 2(2) by auto
  qed (use inv m0 in auto)
qed

lemma spambot_members: "spambot_check env p n st = Some st' \<Longrightarrow> cw_members (js_w st') = cw_members (js_w st)"
  by (auto simp: spambot_check_def upd_local_def Let_def put_out_def split: Option.bind_splits prod.split_asm option.split_asm if_split_asm)

lemma part_one_inv:
  assumes r: "part_one_client env client_p cp name reason st = Some st'" and inv: "jinv (je_use_except (ce_j env)) U st"
  shows "jinv (je_use_except (ce_j env)) U st'"
proof (cases "\<exists>n args. st' = to_source n args st")
  case True
  then show ?thesis using inv by auto
next
  case False
  from r obtain src c chp where c: "cw_clients (js_w st) cp = Some src" "cw_clients (js_w st) client_p = Some c"
    and f: "find_channel (cw_channels (js_w st)) (cw_tabs (js_w st)) (Some name) = Some chp"
    by (auto simp: part_one_client_def split: Option.bind_splits)
  with r False obtain p ms where p: "chp = Some p" and ms: "find_channel_membership p cp (js_w st) = Some ms"
    by (auto simp: part_one_client_def split: option.split_asm Option.bind_splits)
  with r False c f obtain mp where mp: "ms = Some mp" by (auto simp: part_one_client_def split: option.split_asm)
  from r c f p ms mp obtain st1 m b st2 ch l1 l2 l3 st3 w where
    s: "(if MyConnect src \<and> \<not> IsOper src \<and> \<not> IsExemptSpambot src then spambot_check (ce_j env) cp None st else Some st) = Some st1"
    and pr: "part_reason env cp p mp m reason st1 = Some (b, st2)"
    and l: "sendto_channel_local ALL_MEMBERS p l3 (to_servers (ce_j env) (Some (cl_from c)) (Some ch) NOCAPS CAP_TS6 l2
        (to_servers (ce_j env) (Some (cl_from c)) (Some ch) CAP_TS6 NOCAPS l1 st2)) = Some st3"
    and w: "remove_user_from_channel (Some mp) (js_w st3) = Some w" "st' = st3\<lparr>js_w := w\<rparr>"
    by (auto simp: part_one_client_def Let_def bind_eq_Some_conv)
  have i1: "jinv (je_use_except (ce_j env)) U st1" using s inv jinv_spambot by (auto split: if_split_asm)
  have "cw_members (js_w st1) = cw_members (js_w st)" using s spambot_members by (auto split: if_split_asm)
  then have mo: "membership_of p cp (js_w st1) mp" using find_membership [OF inv] ms mp by (simp add: membership_of_def)
  note i2 = part_reason_inv [OF pr i1 mo]
  have i3: "jinv (je_use_except (ce_j env)) U st3" using i2 jinv_frames(1) [OF l] by simp
  have "js_w st3 = js_w st2" using sendto_channel_local_w [OF l] by (simp add: to_servers_def put_out_def)
  then show ?thesis using jinv_remove [OF i3 _ w(1)] i2 w(2) by auto
qed

lemma part_loop_inv:
  "part_loop env client_p cp names reason st = Some st' \<Longrightarrow> jinv (je_use_except (ce_j env)) U st \<Longrightarrow> jinv (je_use_except (ce_j env)) U st'"
  by (induction env client_p cp names reason st rule: part_loop.induct) (auto simp: bind_eq_Some_conv dest: part_one_inv)

lemma m_part_inv:
  assumes "m_part env client_p cp parv st = Some st'" "jinv (je_use_except (ce_j env)) U st"
  shows "jinv (je_use_except (ce_j env)) U st'"
  using assms part_loop_inv finish_grace_inv by (auto simp: m_part_def bind_eq_Some_conv split: if_split_asm)

lemma kick_user_inv:
  assumes r: "kick_user env client_p src who chp mp name comment st = Some st'" and inv: "jinv ue U st"
    and m: "cw_members (js_w st) mp = Some m"
  shows "jinv ue U st'"
proof -
  from r obtain c ch l1 l2 l3 st1 w where
    l: "sendto_channel_local ALL_MEMBERS chp l1 st = Some st1"
    and w: "remove_user_from_channel (Some mp) (js_w (to_servers (ce_j env) (Some c) (Some ch) NOCAPS CAP_TS6 l2
        (to_servers (ce_j env) (Some c) (Some ch) CAP_TS6 NOCAPS l3 st1))) = Some w"
      "st' = to_servers (ce_j env) (Some c) (Some ch) NOCAPS CAP_TS6 l2 (to_servers (ce_j env) (Some c) (Some ch) CAP_TS6 NOCAPS l3 st1)\<lparr>js_w := w\<rparr>"
    unfolding kick_user_def Let_def bind_eq_Some_conv by blast
  have i: "jinv ue U st1" using jinv_frames(1) [OF l] inv by simp
  have "cw_members (js_w st1) mp = Some m" using m sendto_channel_local_w [OF l] by simp
  then show ?thesis using jinv_remove [OF _ _ w(1), of ue U m] w(2) i by simp
qed

lemma kick_refused_out:
  assumes "kick_refused src ch name st = Some (Some st')"
  obtains args where "st' = to_source 482 args st"
  using assms by (auto simp: kick_refused_def bind_eq_Some_conv split: if_split_asm)

text \<open>KICK answers with at most an error, or removes a membership of the channel.\<close>

lemma kick_target_cases:
  assumes "kick_target env client_p src chp half name user comment st = Some st'"
  obtains "st' = st" | n args where "st' = to_source n args st"
  | wp who mp m comment where "find_channel_membership chp wp (js_w st) = Some (Some mp)" "cw_members (js_w st) mp = Some m"
      "kick_user env client_p src who chp mp name comment st = Some st'"
  using assms unfolding kick_target_def
  by (auto simp: Let_def split: Option.bind_split_asm option.split_asm if_split_asm prod.split_asm elim!: kick_refused_out)

lemma kick_target_inv:
  assumes "kick_target env client_p src chp half name user comment st = Some st'" "jinv ue U st"
  shows "jinv ue U st'"
  using assms(1)
proof (cases rule: kick_target_cases)
  case (3 wp who mp m comment)
  then show ?thesis using kick_user_inv assms(2) by blast
qed (use assms(2) in auto)

lemma m_kick_cases:
  assumes "m_kick env client_p cp parv st = Some st'"
  obtains n args st1 where "finish_grace cp st = Some st1" "st' = to_source n args st1"
  | src chp half name user comment st1 where "finish_grace cp st = Some st1"
      "kick_target env client_p src chp half name user comment st1 = Some st'"
  using assms unfolding m_kick_def
  by (auto simp: Let_def split: Option.bind_split_asm option.split_asm if_split_asm prod.split_asm elim!: kick_refused_out)

lemma m_kick_inv:
  assumes "m_kick env client_p cp parv st = Some st'" "jinv ue U st"
  shows "jinv ue U st'"
  using assms(1)
proof (cases rule: m_kick_cases)
  case (2 src chp half name user comment st1)
  then show ?thesis using assms(2) finish_grace_inv kick_target_inv by blast
qed (use assms(2) finish_grace_inv in auto)

lemma jinv_set_channel:
  assumes inv: "jinv ue U st" and ch: "cw_channels (js_w st) p = Some ch"
    and same: "same_bans ch ch'" "ch_members ch' = ch_members ch" "ch_locmembers ch' = ch_locmembers ch" "ch_chname ch' = ch_chname ch"
      "ch_invites ch' = ch_invites ch"
  shows "jinv ue U (st\<lparr>js_w := set_channel p ch' (js_w st)\<rparr>)"
proof -
  have "js_next st > p" using jinvD(2) [OF inv] ch by (metis leI option.distinct(1))
  then show ?thesis using inv ch same(1) touch_channel_inv [OF jinvD(1) [OF inv] ch same] unfolding jinv_def same_bans_def by auto
qed

lemma set_channel_topic_same:
  assumes "set_channel_topic n ch t info ts = Some ch'"
  shows "same_bans ch ch' \<and> ch_members ch' = ch_members ch \<and> ch_locmembers ch' = ch_locmembers ch \<and> ch_chname ch' = ch_chname ch \<and>
    ch_invites ch' = ch_invites ch \<and> ch_mode ch' = ch_mode ch"
  using assms by (auto simp: set_channel_topic_def allocate_topic_def free_topic_def same_bans_def Let_def split: if_split_asm)

lemma set_topic_run:
  assumes "set_topic env client_p src chp topic st = Some st'"
  obtains ch ch' where "cw_channels (js_w st) chp = Some ch"
    "set_channel_topic (ce_topiclen env) ch topic (usermask src) (je_now (ce_j env)) = Some ch'"
    "js_w st' = set_channel chp ch' (js_w st)" "js_next st' = js_next st"
  using assms
  by (auto simp: set_topic_def bind_eq_Some_conv Let_def to_servers_def put_out_def split: if_split_asm dest!: sendto_channel_local_w)

lemma m_topic_cases:
  assumes "m_topic env client_p cp parv st = Some st'"
  obtains st1 where "finish_grace cp st = Some st1" "js_w st' = js_w st1" "js_next st' = js_next st1"
  | src chp topic st1 where "finish_grace cp st = Some st1" "set_topic env client_p src chp topic st1 = Some st'"
  using assms unfolding m_topic_def
  by (auto simp: Let_def show_topic_def to_source_def put_out_def split: Option.bind_split_asm option.split_asm if_split_asm)

lemma m_topic_inv:
  assumes "m_topic env client_p cp parv st = Some st'" "jinv ue U st"
  shows "jinv ue U st'"
  using assms(1)
proof (cases rule: m_topic_cases)
  case (1 st1)
  then show ?thesis using finish_grace_inv [OF 1(1) assms(2)] jinv_cong [of st' st1] by simp
next
  case (2 src chp topic st1)
  then have i: "jinv ue U st1" using finish_grace_inv assms(2) by blast
  from 2(2) show ?thesis
  proof (cases rule: set_topic_run)
    case (1 ch ch')
    then have "jinv ue U (st1\<lparr>js_w := set_channel chp ch' (js_w st1)\<rparr>)" using jinv_set_channel [OF i] set_channel_topic_same by blast
    then show ?thesis using 1(3,4) jinv_cong [of st' "st1\<lparr>js_w := set_channel chp ch' (js_w st1)\<rparr>"] by simp
  qed
qed

text \<open>Noting an invitation at both ends.\<close>

lemma invites_ok_add:
  assumes "invites_ok w" "cw_clients w who = Some c" "cl_local c \<noteq> None" "cw_channels w chp = Some ch"
  shows "invites_ok (set_channel chp (ch\<lparr>ch_invites := who # ch_invites ch\<rparr>) w)"
  using assms unfolding invites_ok_def by auto

lemma jinv_invite:
  assumes inv: "jinv ue U st" and c: "cw_clients (js_w st) who = Some c" "cl_local c = Some l" and ch: "cw_channels (js_w st) chp = Some ch"
  shows "jinv ue U (st\<lparr>js_w := set_client who (c\<lparr>cl_local := Some (l\<lparr>lu_invited := chp # lu_invited l\<rparr>)\<rparr>)
              (set_channel chp (ch\<lparr>ch_invites := who # ch_invites ch\<rparr>) (js_w st))\<rparr>)"
proof -
  let ?w = "set_channel chp (ch\<lparr>ch_invites := who # ch_invites ch\<rparr>) (js_w st)"
  have ok: "cworld_ok (js_w st)" using jinvD(1) [OF inv] by (simp add: chan_inv_def)
  have "members_of ?w = members_of (js_w st)" "locals_of ?w = locals_of (js_w st)"
    using ch by (auto simp: fun_eq_iff members_of_def locals_of_def)
  moreover have "chan_tab_ok (cw_channels ?w) (cw_glist ?w) (cw_tabs ?w)"
    using cworld_okD(7) [OF ok] chan_tab_ok_update [of "cw_channels (js_w st)" chp ch] ch by simp
  moreover have "invites_ok ?w" using invites_ok_add [OF cworld_okD(6) [OF ok] c(1) _ ch] c(2) by simp
  ultimately have "cworld_ok ?w" using ok unfolding cworld_ok_def mem_lists_def mem_unique_def users_ok_def by simp
  moreover have "shrinks (js_w st) ?w" using shrinks_set_channel [OF ch] by (simp add: same_bans_def)
  ultimately have "chan_inv ue ?w" using jinvD(1) [OF inv] bans_ok_shrinks by (auto simp: chan_inv_def)
  moreover have "chp < js_next st" using jinvD(2) [OF inv] ch by (metis leI option.distinct(1))
  ultimately have j: "jinv ue U (st\<lparr>js_w := ?w\<rparr>)" using inv ch unfolding jinv_def by auto
  then show ?thesis using jinv_set_client [OF j, of who c] c same_user_local by (simp add: same_user_def src_masks_def src_mask_def)
qed

lemma add_invite_inv:
  assumes r: "add_invite env chp who (js_w st) = Some w" and inv: "jinv ue U st"
  shows "jinv ue U (st\<lparr>js_w := w\<rparr>)"
proof -
  from r obtain c l where c: "cw_clients (js_w st) who = Some c" "cl_local c = Some l"
    by (auto simp: add_invite_def bind_eq_Some_conv)
  show ?thesis
  proof (cases "chp \<in> set (lu_invited l)")
    case True
    then show ?thesis using r c inv jinv_cong [of "st\<lparr>js_w := w\<rparr>" st ue U] by (simp add: add_invite_def)
  next
    case False
    then obtain w1 c1 l1 ch1 where w1: "w1 = js_w st \<or> del_invite (last (lu_invited l)) who (js_w st) = Some w1"
      and c1: "cw_clients w1 who = Some c1" "cl_local c1 = Some l1" and ch1: "cw_channels w1 chp = Some ch1"
      and w: "w = set_client who (c1\<lparr>cl_local := Some (l1\<lparr>lu_invited := chp # lu_invited l1\<rparr>)\<rparr>)
              (set_channel chp (ch1\<lparr>ch_invites := who # ch_invites ch1\<rparr>) w1)"
      using r c by (auto simp: add_invite_def bind_eq_Some_conv split: if_split_asm)
    have i: "jinv ue U (st\<lparr>js_w := w1\<rparr>)" using w1 jinv_del_invite [OF inv] inv jinv_cong [of "st\<lparr>js_w := js_w st\<rparr>" st ue U] by auto
    show ?thesis using jinv_invite [OF i, of who c1 l1 chp ch1] c1 ch1 w by simp
  qed
qed

lemma sendto_one_w:
  "sendto_one target l st = Some st' \<Longrightarrow> js_w st' = js_w st \<and> js_next st' = js_next st"
  "sendto_one_prefix target src cmd txt st = Some st' \<Longrightarrow> js_w st' = js_w st \<and> js_next st' = js_next st"
  by (auto simp: sendto_one_def sendto_one_prefix_def put_out_def bind_eq_Some_conv split: if_split_asm)

lemma do_invite_cases:
  assumes "do_invite env client_p src tp target chp name store st = Some st'"
  obtains "js_w st' = js_w st" "js_next st' = js_next st" "\<not> (MyConnect target \<and> store)"
  | w where "MyConnect target" store "add_invite env chp tp (js_w st) = Some w" "js_w st' = w" "js_next st' = js_next st"
  using assms unfolding do_invite_def
  by (auto simp: Let_def to_source_def put_out_def split: Option.bind_split_asm option.split_asm if_split_asm dest!: sendto_one_w)

lemma m_invite_cases:
  assumes "m_invite env client_p cp parv st = Some st'"
  obtains st1 where "finish_grace cp st = Some st1" "js_w st' = js_w st1" "js_next st' = js_next st1"
  | src tp target chp name store st1 where "finish_grace cp st = Some st1"
      "do_invite env client_p src tp target chp name store st1 = Some st'"
  using assms unfolding m_invite_def
  by (auto simp: Let_def to_source_def put_out_def split: Option.bind_split_asm option.split_asm if_split_asm)

lemma m_invite_inv:
  assumes "m_invite env client_p cp parv st = Some st'" "jinv ue U st"
  shows "jinv ue U st'"
  using assms(1)
proof (cases rule: m_invite_cases)
  case (1 st1)
  then show ?thesis using finish_grace_inv [OF 1(1) assms(2)] jinv_cong [of st' st1] by simp
next
  case (2 src tp target chp name store st1)
  then have i: "jinv ue U st1" using finish_grace_inv assms(2) by blast
  from 2(2) show ?thesis
  proof (cases rule: do_invite_cases)
    case 1
    then show ?thesis using i jinv_cong [of st' st1] by simp
  next
    case (2 w)
    then show ?thesis using add_invite_inv [OF 2(3) i] jinv_cong [of st' "st1\<lparr>js_w := w\<rparr>"] by simp
  qed
qed

section \<open>Runs of commands\<close>

text \<open>The time and the settings may change from one command to the next; only the use of ban exceptions is fixed.\<close>

inductive chan_cmd :: "bool \<Rightarrow> jstate \<Rightarrow> jstate \<Rightarrow> bool" for ue where
  PART: "je_use_except (ce_j env) = ue \<Longrightarrow> m_part env client_p source_p parv st = Some st' \<Longrightarrow> chan_cmd ue st st'"
| KICK: "m_kick env client_p source_p parv st = Some st' \<Longrightarrow> chan_cmd ue st st'"
| TOPIC: "m_topic env client_p source_p parv st = Some st' \<Longrightarrow> chan_cmd ue st st'"
| INVITE: "m_invite env client_p source_p parv st = Some st' \<Longrightarrow> chan_cmd ue st st'"

lemma chan_cmd_inv: "chan_cmd ue st st' \<Longrightarrow> jinv ue U st \<Longrightarrow> jinv ue U st'"
  by (induction rule: chan_cmd.induct) (auto intro: m_part_inv m_kick_inv m_topic_inv m_invite_inv)

text \<open>
  C17: Any sequence of PART, KICK, TOPIC and INVITE commands, with any sources, parameters, times
  and settings of the server, keeps the invariant of the channel subsystem (membership lists,
  channel table, invitations, cached ban verdicts), leaves the unused addresses free and releases
  no user.
\<close>

theorem channel_commands_keep_invariant:
  assumes "(chan_cmd ue)\<^sup>*\<^sup>* st st'" "jinv ue U st"
  shows "chan_inv ue (js_w st') \<and> alloc_free st' \<and> (\<forall>p \<in> U. \<exists>c. cw_clients (js_w st') p = Some c \<and> IsClient c)"
proof -
  have "jinv ue U st'" using assms by (induction rule: rtranclp_induct) (auto intro: chan_cmd_inv)
  then show ?thesis using jinv_alloc jinvD(5) by blast
qed

end
