(* ===== verification/Join_Samples.thy ===== *)
theory Join_Samples
  imports Join_Inv
begin

section \<open>A concrete exchange\<close>

definition sample_hub :: Client where
  "sample_hub = zero_Client\<lparr>cl_name := ''hub.it'', cl_status := STAT_SERVER, cl_from := 9\<rparr>"

definition sample_me :: Client where
  "sample_me = zero_Client\<lparr>cl_name := ''irc.it'', cl_status := STAT_ME\<rparr>"

abbreviation sample_ch :: "int \<Rightarrow> Mode \<Rightarrow> Channel" where
  "sample_ch ts md \<equiv> sample_chan\<lparr>ch_members := [7], ch_locmembers := [7], ch_channelts := ts, ch_mode := md\<rparr>"

definition sample_net :: "Mode \<Rightarrow> jstate" where
  "sample_net md = \<lparr>js_w = sample_joined\<lparr>cw_clients := (cw_clients sample_joined)(9 \<mapsto> sample_hub, 0 \<mapsto> sample_me),
       cw_channels := [5 \<mapsto> sample_ch 100 md]\<rparr>, js_next = 10, js_out = []\<rparr>"

definition mode_n :: Mode where "mode_n = \<lparr>md_mode = MODE_NOPRIVMSGS, md_limit = 0, md_key = []\<rparr>"
definition mode_tl :: Mode where "mode_tl = \<lparr>md_mode = MODE_TOPICLIMIT, md_limit = 5, md_key = ''x''\<rparr>"

lemma sample_net_simps [simp]:
  "cw_channels (js_w (sample_net md)) = [5 \<mapsto> sample_ch 100 md]"
  "cw_clients (js_w (sample_net md)) 9 = Some sample_hub"
  "cw_clients (js_w (sample_net md)) (Suc 0) = Some (sample_user\<lparr>cl_user := Some [7]\<rparr>)"
  "cw_members (js_w (sample_net md)) = [7 \<mapsto> sample_member]" "clientTable (cw_tabs (js_w (sample_net md))) = (\<lambda>_. [])"
  "js_next (sample_net md) = 10" "channelTable (cw_tabs (js_w (sample_net md))) = bucket_add (hash_channel ''#it'') 5 (\<lambda>_. [])"
  by (simp_all add: sample_net_def sample_joined_def sample_created_def sample_start_def zero_tabs_def)

lemma sample_hub_simps [simp]: "MyClient sample_hub = False" "IsMe sample_hub = False" "cl_from sample_hub = 9" "cl_name sample_hub = ''hub.it''"
  "cl_id sample_hub = []" "use_id sample_hub = ''hub.it''"
  by (simp_all add: sample_hub_def MyClient_def IsClient_def IsMe_def status_defs use_id_def zero_Client_def)

lemma sample_chan_simps [simp]: "ch_chname sample_chan = ''#it''" "ch_channelts sample_chan = 100"
  by (simp_all add: sample_chan_def allocate_channel_def zero_Channel_def rb_strndup_def rb_strlcpy_def CHANNELLEN_def)

lemma irccmp_refl0 [simp]: "irccmp ''#it'' ''#it'' = 0" by code_simp

lemma sample_found:
  "find_channel (cw_channels (js_w (sample_net md))) (cw_tabs (js_w (sample_net md))) (Some ''#it'') = Some (Some 5)"
  by (simp add: find_channel_def bucket_add_def)

lemma sample_open:
  "open_channel sample_je c ''#it'' (sample_net md) = Some (Some (5, False), sample_net md\<lparr>js_next := 11\<rparr>)"
  by (simp add: open_channel_def get_or_create_eq chan_request_def CHANNELLEN_def bucket_add_def) (simp add: sample_net_def)

lemma sample_local: "IsIOError (sample_user\<lparr>cl_user := Some [7]\<rparr>) = False"
  by (simp add: IsIOError_def sample_user_def zero_Client_def FLAGS_MYCONNECT_def FLAGS_IOERROR_def)

lemma sample_targets:
  "cw_clients w 1 = Some (sample_user\<lparr>cl_user := Some [7]\<rparr>) \<Longrightarrow> cw_members w 7 = Some sample_member \<Longrightarrow>
   local_targets ALL_MEMBERS w [7] = Some [1]"
  by (simp add: sample_member_def sample_local ALL_MEMBERS_def CHFL_PEON_def)

lemma sample_net_targets: "local_targets ALL_MEMBERS (set_channel 5 ch (js_w (sample_net old))) [7] = Some [1]"
  by (rule sample_targets) simp_all

lemma sample_merge:
  assumes "final_modes (merge_modes True True md old) old = (m, p, d)" "length m < MODEBUFLEN" "length p < MODEBUFLEN"
  shows "\<exists>st. sjoin_merge 5 sample_hub False 100 md (sample_net old\<lparr>js_next := 11\<rparr>) = Some (True, True, st) \<and>
    js_w st = set_channel 5 (sample_ch 100 (merge_modes True True md old)) (js_w (sample_net old))"
  using assms sample_net_targets
  by (simp add: sjoin_merge_def ts_zero_def ts_rule_def upd_channel_def set_final_mode_def sendto_channel_local_def put_out_def
      set_channel_def)

lemma sample_users:
  assumes w: "js_w st = set_channel 5 (sample_ch ts md) (js_w (sample_net old))" and ts: "0 \<le> ts" "ts < 1000"
    and md: "legal_mode md" and parv: "parv ! 2 = ''#it''"
  shows "\<exists>st'. sjoin_users sample_je 9 fr 9 sample_hub 5 False ko kn parv ''nobody'' st = Some st'"
proof -
  obtain s where s: "channel_modes 5 9 (js_w st) = Some s" "length s \<le> 60"
  proof -
    have "length (int_str (md_limit md)) \<le> 10" "length (md_key md) \<le> 23"
      using md nat_str_length [of "nat (md_limit md)" 10] by (auto simp: legal_mode_def int_str_def KEYLEN_def)
    then have "length (concat (map (\<lambda>x. x @ '' '') (butlast (mode_word md # mode_args md))) @ last (mode_word md # mode_args md)) \<le> 60"
      using mode_letters_length [of "md_mode md"] by (simp add: mode_word_def mode_args_def)
    then show thesis using that channel_modes_full [of "js_w st" 5 "sample_ch ts md" 9 sample_hub] md w by simp
  qed
  have l: "length (int_str ts) \<le> 3" using ts nat_str_length [of "nat ts" 3] by (simp add: int_str_def)
  have h: "length (sjoin_header ''hub.it'' (sample_ch ts md) ''#it'' m) < BUFSIZE" if "length m \<le> 60" for m
    using l that by (simp add: sjoin_header_def BUFSIZE_def)
  have n: "sjoin_nicks ''nobody'' = [''nobody'']" by (subst sjoin_nicks.simps) (simp add: strchr_split_def)
  have f: "find_client (cw_clients (js_w (sample_net old))) (cw_tabs (js_w (sample_net old))) (Some ''nobody'') = Some None"
  proof -
    have "\<not> IsDigit (CHR ''n'')" by code_simp
    then show ?thesis by (simp add: find_client_def)
  qed
  have nf: "nick_flags 3 ''nobody'' 0 = (0, ''nobody'')" by (simp add: numeral_3_eq_3)
  show ?thesis
    using s h [of s] h [of "''0''"] w parv
    by (cases "headc (parv ! 3) \<noteq> CHR ''0'' \<and> kn")
      (auto simp: sjoin_users_def Let_def n sjoin_one_def nf f end_status_def simp del: sjoin_nicks.simps)
qed

lemma sample_name: "IsChannelName ''#it''" "check_channel_name (Some ''#it'')" "headc ''#it'' \<noteq> CHR ''&''" "length ''#it'' \<le> CHANNELLEN" "''#it'' \<noteq> []"
  by (simp_all add: IsChannelName_def CHANNELLEN_def) code_simp+

lemma sample_sjoin:
  assumes sp: "split_on (CHR '' '') modes = mode_word md # mode_args md" and md: "legal_mode md" "md_mode md AND NOT SJOIN_BITS = 0"
    and m: "sjoin_merge 5 sample_hub False ts md (sample_net old\<lparr>js_next := 11\<rparr>) = Some (ko, kn, st)"
      "js_w st = set_channel 5 (sample_ch t m) (js_w (sample_net old))" "0 \<le> t" "t < 1000" "legal_mode m"
    and ts: "0 \<le> ts" "ts < 2 ^ 63"
  shows "\<exists>st. ms_sjoin sample_je 9 9 (sjoin_parv ''hub.it'' ts ''#it'' modes ''nobody'') (sample_net old) = Some st"
proof -
  let ?parv = "sjoin_parv ''hub.it'' ts ''#it'' modes ''nobody''"
  have parv: "?parv = [''hub.it'', int_str ts, ''#it'', mode_word md] @ mode_args md @ [''nobody'']"
    by (simp add: sjoin_parv_def sp)
  have "sjoin_modes ?parv (?parv ! 3) 0 \<lparr>md_mode = 0, md_limit = 0, md_key = []\<rparr> = Some (length (mode_args md), md)"
    using sjoin_modes_roundtrip [OF md(1), of ?parv] sjoin_bits_whole [OF md(2)] by (simp add: parv carried_def)
  moreover have "?parv ! (length (mode_args md) + 4) = ''nobody''" by (simp add: parv nth_append)
  moreover have "?parv ! 4 \<noteq> []"
    by (auto simp: parv mode_args_def int_str_def nth_Cons nth_append split: if_splits)
  moreover have "c_atol (int_str ts) = ts" using ts by (simp add: c_atol_str)
  moreover obtain st' where "sjoin_users sample_je 9 (Some 9) 9 sample_hub 5 False ko kn ?parv ''nobody'' st = Some st'"
    using sample_users [OF m(2-5), of ?parv "Some 9"] by (auto simp: parv)
  ultimately show ?thesis using sample_name sample_open [of sample_hub old] m(1) by (simp add: ms_sjoin_def parv)
qed

lemma modes_n: "mode_word mode_n = ''+n''" "mode_args mode_n = []" "legal_mode mode_n" "md_mode mode_n AND NOT SJOIN_BITS = 0"
  by code_simp+

lemma modes_tl: "mode_word mode_tl = ''+tlk''" "mode_args mode_tl = [''5'', ''x'']" "legal_mode mode_tl" "md_mode mode_tl AND NOT SJOIN_BITS = 0"
  by code_simp+

lemma modes_merged:
  "merge_modes True True mode_tl mode_n = \<lparr>md_mode = MODE_NOPRIVMSGS OR MODE_TOPICLIMIT, md_limit = 5, md_key = ''x''\<rparr>"
  "merge_modes True True mode_n mode_tl = \<lparr>md_mode = MODE_NOPRIVMSGS OR MODE_TOPICLIMIT, md_limit = 5, md_key = ''x''\<rparr>"
  by code_simp+

lemma sample_word:
  assumes "legal_mode md"
  shows "\<exists>s. channel_modes 5 9 (js_w (sample_net md)) = Some s \<and> split_on (CHR '' '') s = mode_word md # mode_args md"
  using channel_modes_words [of "js_w (sample_net md)" 5 "sample_ch 100 md" 9 sample_hub]
    assms by simp

lemma sample_final:
  "\<exists>a b d. final_modes (merge_modes True True mode_tl mode_n) mode_n = (a, b, d) \<and> length a < MODEBUFLEN \<and> length b < MODEBUFLEN"
  "\<exists>a b d. final_modes (merge_modes True True mode_n mode_tl) mode_tl = (a, b, d) \<and> length a < MODEBUFLEN \<and> length b < MODEBUFLEN"
  "legal_mode (merge_modes True True mode_tl mode_n)" "legal_mode (merge_modes True True mode_n mode_tl)"
proof -
  have "final_modes (merge_modes True True mode_tl mode_n) mode_n = (''+tlk'', ''5 x '', MODE_ADD)"
    "length ''+tlk'' < MODEBUFLEN" "length ''5 x '' < MODEBUFLEN" by code_simp+
  then show "\<exists>a b d. final_modes (merge_modes True True mode_tl mode_n) mode_n = (a, b, d) \<and> length a < MODEBUFLEN \<and> length b < MODEBUFLEN" by blast
  have "final_modes (merge_modes True True mode_n mode_tl) mode_tl = (''+n'', [], MODE_ADD)" "length ''+n'' < MODEBUFLEN" "length [] < MODEBUFLEN"
    by code_simp+
  then show "\<exists>a b d. final_modes (merge_modes True True mode_n mode_tl) mode_tl = (a, b, d) \<and> length a < MODEBUFLEN \<and> length b < MODEBUFLEN" by blast
  show "legal_mode (merge_modes True True mode_tl mode_n)" "legal_mode (merge_modes True True mode_n mode_tl)" by code_simp+
qed

theorem sjoin_converges_witness:
  "\<exists>modesA modesB stA stB cA cB.
     channel_modes 5 9 (js_w (sample_net mode_n)) = Some modesA \<and> channel_modes 5 9 (js_w (sample_net mode_tl)) = Some modesB \<and>
     ms_sjoin sample_je 9 9 (sjoin_parv ''hub.it'' 100 ''#it'' modesB ''nobody'') (sample_net mode_n) = Some stA \<and>
     ms_sjoin sample_je 9 9 (sjoin_parv ''hub.it'' 100 ''#it'' modesA ''nobody'') (sample_net mode_tl) = Some stB \<and>
     cw_channels (js_w stA) 5 = Some cA \<and> cw_channels (js_w stB) 5 = Some cB \<and>
     ch_channelts cA = ch_channelts cB \<and> ch_mode cA = ch_mode cB"
proof -
  have l: "legal_mode mode_n" "legal_mode mode_tl" by code_simp+
  from sample_word [OF l(1)] obtain sA where sA: "channel_modes 5 9 (js_w (sample_net mode_n)) = Some sA"
    "split_on (CHR '' '') sA = mode_word mode_n # mode_args mode_n" by blast
  from sample_word [OF l(2)] obtain sB where sB: "channel_modes 5 9 (js_w (sample_net mode_tl)) = Some sB"
    "split_on (CHR '' '') sB = mode_word mode_tl # mode_args mode_tl" by blast
  from sample_final(1) sample_merge obtain s1 where "sjoin_merge 5 sample_hub False 100 mode_tl (sample_net mode_n\<lparr>js_next := 11\<rparr>) = Some (True, True, s1)"
    "js_w s1 = set_channel 5 (sample_ch 100 (merge_modes True True mode_tl mode_n)) (js_w (sample_net mode_n))" by blast
  from sample_sjoin [OF sB(2) modes_tl(3,4) this] sample_final(3) obtain stA where
    rA: "ms_sjoin sample_je 9 9 (sjoin_parv ''hub.it'' 100 ''#it'' sB ''nobody'') (sample_net mode_n) = Some stA" by auto
  from sample_final(2) sample_merge obtain s2 where "sjoin_merge 5 sample_hub False 100 mode_n (sample_net mode_tl\<lparr>js_next := 11\<rparr>) = Some (True, True, s2)"
    "js_w s2 = set_channel 5 (sample_ch 100 (merge_modes True True mode_n mode_tl)) (js_w (sample_net mode_tl))" by blast
  from sample_sjoin [OF sA(2) modes_n(3,4) this] sample_final(4) obtain stB where
    rB: "ms_sjoin sample_je 9 9 (sjoin_parv ''hub.it'' 100 ''#it'' sA ''nobody'') (sample_net mode_tl) = Some stB" by auto
  let ?ch = "sample_ch 100"
  have b: "burst_channel (?ch mode_n)" "burst_channel (?ch mode_tl)" using modes_n(3) modes_tl(3) by (simp_all add: burst_channel_def)
  show ?thesis
    using sjoin_converges [of "sample_net mode_n" "''#it''" 5 "?ch mode_n" 9 sample_hub sA "sample_net mode_tl" 5 "?ch mode_tl" 9 sample_hub sB
        "''nobody''" "''nobody''" sample_je 9 9 "''hub.it''" stA sample_je 9 9 "''hub.it''" stB]
      sample_found sample_name b sA(1) sB(1) rA rB modes_n(4) modes_tl(4) by auto
qed

end
