(* ===== verification/Sjoin_Ops.thy ===== *)
theory Sjoin_Ops
  imports Join_Samples
begin

text \<open>
  What the time rule of SJOIN protects: a channel copy that is newer than ours cannot bring operators or modes into it,
  and an older one takes the status of everybody who was in ours.
\<close>

section \<open>Members through an SJOIN\<close>

definition no_new_status :: "jstate \<Rightarrow> jstate \<Rightarrow> bool" where
  "no_new_status st st' \<longleftrightarrow> (\<forall>mp m. cw_members (js_w st') mp = Some m \<longrightarrow> ms_flags m AND STATUS_FLAGS \<noteq> 0 \<longrightarrow> cw_members (js_w st) mp = Some m)"

definition keeps_members :: "jstate \<Rightarrow> jstate \<Rightarrow> bool" where
  "keeps_members st st' \<longleftrightarrow> cw_members (js_w st) \<subseteq>\<^sub>m cw_members (js_w st')"

lemma no_new_status_same: "cw_members (js_w st') = cw_members (js_w st) \<Longrightarrow> no_new_status st st'"
  by (simp add: no_new_status_def)

lemma no_new_status_trans: "no_new_status st st1 \<Longrightarrow> no_new_status st1 st2 \<Longrightarrow> no_new_status st st2"
  by (simp add: no_new_status_def)

lemma keeps_members_trans: "keeps_members st st1 \<Longrightarrow> keeps_members st1 st2 \<Longrightarrow> keeps_members st st2"
  unfolding keeps_members_def by (rule map_le_trans)

lemma add_member_members:
  assumes "add_member chp cp fl st = Some st'"
  shows "cw_members (js_w st') = cw_members (js_w st) \<or>
    cw_members (js_w st') = (cw_members (js_w st))(js_next st \<mapsto> \<lparr>ms_chptr = chp, ms_client_p = cp, ms_flags = fl, ms_ban_serial = 0\<rparr>)"
  using assms by (auto simp: add_member_def add_user_to_channel_def Let_def split: Option.bind_splits option.split_asm)

lemma sjoin_one_members:
  assumes r: "sjoin_one env client_p fr src chp n pn pu kn tok b st = Some (b', st')"
  shows "cw_members (js_w st') = cw_members (js_w st) \<or>
    (\<exists>m. cw_members (js_w st') = (cw_members (js_w st))(js_next st \<mapsto> m) \<and> (\<not> kn \<longrightarrow> ms_flags m AND STATUS_FLAGS = 0))"
  using r
proof (cases rule: sjoin_one_cases)
  case (user fl nick tp target st2 st3 member sb)
  have z: "\<not> kn \<Longrightarrow> sjoin_status kn fl AND STATUS_FLAGS = 0"
    by (simp add: sjoin_status_def STATUS_FLAGS_def CHFL_DEOPPED_def CHFL_CHANOP_def CHFL_HALFOP_def CHFL_VOICE_def)
  have w: "js_w st' = js_w st3" using tell_status_w [OF user(8)] by simp
  show ?thesis
  proof (cases member)
    case True
    then show ?thesis using user(4,7) w by simp
  next
    case False
    with user(7) obtain st4 where "add_member chp tp (sjoin_status kn fl) st2 = Some st4" "js_w st3 = js_w st4"
      by (auto dest!: announce_join_w split: Option.bind_splits)
    then show ?thesis using add_member_members user(4,5) w z by fastforce
  qed
qed simp

lemma sjoin_loop_no_status:
  "sjoin_loop env client_p fr src chp n pn pu False toks b st = Some (b', st') \<Longrightarrow> no_new_status st st'"
proof (induction toks arbitrary: b st)
  case (Cons tok toks)
  then obtain b1 st1 where o: "sjoin_one env client_p fr src chp n pn pu False tok b st = Some (b1, st1)"
    and l: "sjoin_loop env client_p fr src chp n pn pu False toks b1 st1 = Some (b', st')" by (auto split: Option.bind_splits)
  have "no_new_status st st1" using sjoin_one_members [OF o] by (auto simp: no_new_status_def split: if_split_asm)
  then show ?case using Cons.IH [OF l] no_new_status_trans by blast
qed (simp add: no_new_status_def)

lemma sjoin_loop_keeps:
  "sjoin_loop env client_p fr src chp n pn pu kn toks b st = Some (b', st') \<Longrightarrow> jinv ue U st \<Longrightarrow> cw_channels (js_w st) chp = Some ch \<Longrightarrow>
   keeps_members st st'"
proof (induction toks arbitrary: b st ch)
  case (Cons tok toks)
  then obtain b1 st1 where o: "sjoin_one env client_p fr src chp n pn pu kn tok b st = Some (b1, st1)"
    and l: "sjoin_loop env client_p fr src chp n pn pu kn toks b1 st1 = Some (b', st')" by (auto split: Option.bind_splits)
  from jinv_sjoin_one [OF o Cons.prems(2,3)] obtain ch1 where 1: "jinv ue U st1" "cw_channels (js_w st1) chp = Some ch1" by blast
  have "keeps_members st st1" using sjoin_one_members [OF o] jinvD(2) [OF Cons.prems(2), of "js_next st"]
    unfolding keeps_members_def map_le_def by (metis domIff fun_upd_other order_refl)
  then show ?case using Cons.IH [OF l 1] keeps_members_trans by blast
qed (simp add: keeps_members_def)


section \<open>The merge\<close>

text \<open>When our side loses, everybody in the channel loses the status, and nothing else about a member changes.\<close>

lemma deop_loop_status:
  assumes "deop_loop n chp mps b st = Some (b', st')" "distinct mps"
  shows "\<forall>mp. cw_members (js_w st') mp = (if mp \<in> set mps then map_option (\<lambda>m. m\<lparr>ms_flags := ms_flags m AND NOT STATUS_FLAGS\<rparr>) (cw_members (js_w st) mp)
     else cw_members (js_w st) mp)"
  using assms
proof (induction mps arbitrary: b st)
  case (Cons mp mps)
  from Cons.prems(1) obtain m c where m: "cw_members (js_w st) mp = Some m" "cw_clients (js_w st) (ms_client_p m) = Some c"
    by (auto split: Option.bind_splits)
  have nf: "ms_flags m AND STATUS_FLAGS = 0 \<Longrightarrow> ms_flags m AND NOT STATUS_FLAGS = ms_flags m"
  proof -
    assume z: "ms_flags m AND STATUS_FLAGS = 0"
    have "ms_flags m AND (STATUS_FLAGS OR NOT STATUS_FLAGS) = ms_flags m AND NOT STATUS_FLAGS"
      using z by (simp only: bit.conj_disj_distrib or.left_neutral)
    then show ?thesis by simp
  qed
  show ?case
  proof (cases "ms_flags m AND STATUS_FLAGS = 0")
    case True
    then show ?thesis using Cons m nf by (cases m) auto
  next
    case False
    let ?st = "st\<lparr>js_w := (js_w st)\<lparr>cw_members := (cw_members (js_w st))(mp \<mapsto> m\<lparr>ms_flags := ms_flags m AND NOT STATUS_FLAGS\<rparr>)\<rparr>\<rparr>"
    from Cons.prems(1) m False obtain b1 st1 where t: "tell_status n chp (CHR ''-'') (cl_name c) (ms_flags m) b ?st = Some (b1, st1)"
      "deop_loop n chp mps b1 st1 = Some (b', st')" by (auto split: Option.bind_splits)
    show ?thesis using Cons.IH [OF t(2)] Cons.prems(2) tell_status_w [OF t(1)] m(1) by auto
  qed
qed simp

lemma sjoin_merge_members:
  assumes r: "sjoin_merge chp src False nts md st = Some (ko, kn, st')" and inv: "chan_inv ue (js_w st)"
  shows "if ko then cw_members (js_w st') = cw_members (js_w st)
     else (\<forall>mp m. cw_members (js_w st') mp = Some m \<longrightarrow> ms_chptr m = chp \<longrightarrow> ms_flags m AND STATUS_FLAGS = 0) \<and>
       (\<forall>mp m. cw_members (js_w st) mp = Some m \<longrightarrow> (\<exists>f. cw_members (js_w st') mp = Some (m\<lparr>ms_flags := f\<rparr>)))"
  using r
proof (cases rule: sjoin_merge_cases)
  case (1 ch ts st1 st2 st3 st4)
  have w2: "cw_members (js_w st2) = cw_members (js_w st)" using ts_zero_w [OF 1(3)] upd_channel_keeps [OF 1(4)] by simp
  have w': "cw_members (js_w st') = cw_members (js_w st3)" using set_final_mode_w [OF 1(6)] upd_channel_keeps [OF 1(7)] by simp
  show ?thesis
  proof (cases ko)
    case True
    then show ?thesis using 1(5) w2 w' by simp
  next
    case False
    with 1(5) obtain st5 where d: "remove_our_modes chp st2 = Some st5" "ts_notice chp (ch_channelts ch) nts st5 = Some st3"
      by (auto split: Option.bind_splits)
    then obtain ch2 b st6 and me :: Client where ch2: "cw_channels (js_w st2) chp = Some ch2"
      and l: "deop_loop (cl_name me) chp (ch_members ch2) ([], []) st2 = Some (b, st6)"
      and e: "end_status (cl_name me) chp (CHR ''-'') b st6 = Some st5"
      by (auto simp: remove_our_modes_def bind_eq_Some_conv)
    have w3: "cw_members (js_w st') = cw_members (js_w st6)" using ts_notice_w [OF d(2)] end_status_w [OF e] w' by simp
    have "ch_members ch2 = ch_members ch" using ch2 1(1,4) ts_zero_w [OF 1(3)] by (auto simp: upd_channel_def split: Option.bind_splits)
    then have ml: "distinct (ch_members ch2)" "set (ch_members ch2) = mems_chan (cw_members (js_w st)) chp"
      using cworld_okD(2) [of "js_w st" chp] inv 1(1) by (auto simp: chan_inv_def members_of_def is_list_of_def)
    note dl = deop_loop_status [OF l ml(1)]
    have "ms_flags m AND STATUS_FLAGS = 0" if "cw_members (js_w st') mp = Some m" "ms_chptr m = chp" for mp m
      using that dl w2 w3 ml(2) by (auto simp: mems_chan_def and.assoc split: if_split_asm)
    moreover have "\<exists>f. cw_members (js_w st') mp = Some (m\<lparr>ms_flags := f\<rparr>)" if "cw_members (js_w st) mp = Some m" for mp m
      using that dl w2 w3 by (cases m) auto
    ultimately show ?thesis using False by auto
  qed
qed

section \<open>Who wins\<close>

text \<open>An SJOIN for a channel that exists: the merge, then the users.\<close>

lemma ms_sjoin_cases:
  assumes r: "ms_sjoin env client_p source_p parv st = Some st'"
    and found: "find_channel (cw_channels (js_w st)) (cw_tabs (js_w st)) (Some (parv ! 2)) = Some (Some p)"
    and len: "length (parv ! 2) \<le> CHANNELLEN"
  obtains (ignored) "js_w st' = js_w st" "js_out st' = js_out st"
  | (merged) src args md st1 st2 ko kn fr s where
      "sjoin_modes parv (parv ! 3) 0 \<lparr>md_mode = 0, md_limit = 0, md_key = []\<rparr> = Some (args, md)"
      "js_w st1 = js_w st" "js_next st1 = Suc (js_next st)"
      "sjoin_merge p src False (c_atol (parv ! 1)) md st1 = Some (ko, kn, st2)"
      "sjoin_users env client_p fr source_p src p False ko kn parv s st2 = Some st'"
proof (cases "st' = st")
  case False
  obtain args md where a: "sjoin_modes parv (parv ! 3) 0 \<lparr>md_mode = 0, md_limit = 0, md_key = []\<rparr> = Some (args, md)"
    using r False by (auto simp: ms_sjoin_def split: if_split_asm option.split_asm)
  from r False a obtain src fr r1 st1 where name: "IsChannelName (parv ! 2)" and o: "open_channel env src (parv ! 2) st = Some (r1, st1)"
    and k: "(case r1 of None \<Rightarrow> Some st1 | Some (chptr, isnew) \<Rightarrow> do {
                (keep_our, keep_new, st) \<leftarrow> sjoin_merge chptr src isnew (c_atol (parv ! 1)) md st1;
                sjoin_users env client_p fr source_p src chptr isnew keep_our keep_new parv (dropWhile (\<lambda>c. c = CHR '' '') (parv ! (args + 4))) st
              }) = Some st'"
    by (auto simp: ms_sjoin_def Let_def bind_eq_Some_conv simp del: One_nat_def split: if_split_asm)
  have ne: "parv ! 2 \<noteq> []" using name by (cases "parv ! 2") (auto simp: IsChannelName_def NUL_def)
  note f = open_channel_found [OF found ne len o]
  from o ne have n: "js_next st1 = Suc (js_next st)" by (cases rule: open_channel_result) auto
  from k f(1) obtain ko kn st2 where "sjoin_merge p src False (c_atol (parv ! 1)) md st1 = Some (ko, kn, st2)"
    "sjoin_users env client_p fr source_p src p False ko kn parv (dropWhile (\<lambda>c. c = CHR '' '') (parv ! (args + 4))) st2 = Some st'"
    by (auto simp: bind_eq_Some_conv)
  then show thesis using merged [OF a f(2) n] by blast
qed (use ignored in blast)

lemma sjoin_users_loop:
  assumes r: "sjoin_users env client_p fr source_p src chp False ko kn parv s st = Some st'"
  obtains pn pu b b' st1 where "sjoin_loop env client_p fr src chp (parv ! 2) pn pu kn (sjoin_nicks s) b st = Some (b', st1)"
    "cw_members (js_w st') = cw_members (js_w st1)" "\<exists>ch. cw_channels (js_w st) chp = Some ch"
proof -
  obtain ch pn pu b st1 st2 where ch: "cw_channels (js_w st) chp = Some ch"
    and l: "sjoin_loop env client_p fr src chp (parv ! 2) pn pu kn (sjoin_nicks s)
          \<lparr>sj_nick = [], sj_uid = [], sj_status = ([], []), sj_joins = 0\<rparr> st = Some (b, st1)"
    and e: "end_status (cl_name src) chp (CHR ''+'') (sj_status b) st1 = Some st2"
    and r2: "(if sj_joins b = 0 then Some st2
       else do {
         let st = to_servers env fr None CAP_TS6 NOCAPS (pu @ butlast (sj_uid b)) st2;
         let st = to_servers env fr None NOCAPS CAP_TS6 (pn @ butlast (sj_nick b)) st;
         if \<not> ko \<and> cl_id src \<noteq> [] then lose_bans env chp src st else Some st
       }) = Some st'"
    using r by (auto simp: sjoin_users_def Let_def bind_eq_Some_conv split: if_split_asm)
  have lb: "cw_members (js_w st') = cw_members (js_w st0)" if lost: "lose_bans env chp src st0 = Some st'" for st0
  proof -
    obtain c0 where "cw_channels (js_w st0) chp = Some c0" using lost by (auto simp: lose_bans_def split: Option.bind_splits)
    then show ?thesis using lose_bans_effect [OF lost] by auto
  qed
  have "cw_members (js_w st') = cw_members (js_w st2)"
    using r2 by (auto simp: Let_def to_servers_def put_out_def dest!: lb split: if_split_asm)
  then show thesis using that [OF l] end_status_w [OF e] ch by simp
qed


text \<open>
  C13: An SJOIN with a later time than our channel's, when ours is positive (a time of 0 makes the
  server merge both sides), changes neither the time nor the modes of the channel, and brings no
  status into it: every member with operator, half-operator or voice flags afterwards had exactly
  this membership before.
\<close>

theorem sjoin_newer_ignored:
  assumes inv: "jinv ue U st" and r: "ms_sjoin env client_p source_p parv st = Some st'"
    and found: "find_channel (cw_channels (js_w st)) (cw_tabs (js_w st)) (Some (parv ! 2)) = Some (Some p)" "length (parv ! 2) \<le> CHANNELLEN"
    and ch: "cw_channels (js_w st) p = Some ch" and ts: "0 < ch_channelts ch" "ch_channelts ch < c_atol (parv ! 1)"
  shows "(\<exists>ch'. cw_channels (js_w st') p = Some ch' \<and> ch_channelts ch' = ch_channelts ch \<and> ch_mode ch' = ch_mode ch) \<and>
    (\<forall>mp m. cw_members (js_w st') mp = Some m \<longrightarrow> ms_flags m AND STATUS_FLAGS \<noteq> 0 \<longrightarrow> cw_members (js_w st) mp = Some m)"
  using r found
proof (cases rule: ms_sjoin_cases)
  case ignored
  then show ?thesis using ch by simp
next
  case (merged src args md st1 st2 ko kn fr s)
  have k: "ts_rule False (c_atol (parv ! 1)) (ch_channelts ch) = (ch_channelts ch, True, False)" using ts by (simp add: ts_rule_def)
  from merged(4) have "ko" "\<not> kn" using k ch merged(2) by (cases rule: sjoin_merge_cases, simp)+
  have "cw_members (js_w st2) = cw_members (js_w st)"
    using sjoin_merge_members [OF merged(4), of ue] merged(2) jinvD(1) [OF inv] \<open>ko\<close> by simp
  moreover have "no_new_status st2 st'"
    using merged(5) \<open>\<not> kn\<close> by (cases rule: sjoin_users_loop) (auto dest!: sjoin_loop_no_status simp: no_new_status_def)
  moreover obtain ch2 where ch2: "cw_channels (js_w st2) p = Some ch2" "ch_channelts ch2 = ch_channelts ch" "ch_mode ch2 = ch_mode ch"
    using sjoin_merge_outcome [OF merged(4)] ch merged(2) k by (auto simp: outcome_def merge_modes_def)
  have "\<exists>ch'. cw_channels (js_w st') p = Some ch' \<and> ch_channelts ch' = ch_channelts ch \<and> ch_mode ch' = ch_mode ch"
    using sjoin_users_modes [OF merged(5)] ch2 unfolding keeps_modes_def by metis
  ultimately show ?thesis by (simp add: no_new_status_def)
qed

text \<open>
  C14: An SJOIN that passes the checks of the line (channel name, modes, a user to add) with an
  earlier, positive time than our channel's (a time of 0 makes the server merge both sides) takes
  over: the channel gets the time and the modes of the line, and everybody who was in it before
  has lost operator, half-operator and voice status.
\<close>

theorem sjoin_older_wins:
  assumes inv: "jinv ue U st" and r: "ms_sjoin env client_p source_p parv st = Some st'"
    and parv: "length parv \<ge> 5" "parv ! 4 \<noteq> []" "IsChannelName (parv ! 2)" "check_channel_name (Some (parv ! 2))" "headc (parv ! 2) \<noteq> CHR ''&''"
      "sjoin_modes parv (parv ! 3) 0 \<lparr>md_mode = 0, md_limit = 0, md_key = []\<rparr> = Some (args, md)"
      "dropWhile (\<lambda>c. c = CHR '' '') (parv ! (args + 4)) \<noteq> []"
    and found: "find_channel (cw_channels (js_w st)) (cw_tabs (js_w st)) (Some (parv ! 2)) = Some (Some p)" "length (parv ! 2) \<le> CHANNELLEN"
    and ch: "cw_channels (js_w st) p = Some ch" and ts: "0 < c_atol (parv ! 1)" "c_atol (parv ! 1) < ch_channelts ch"
  shows "(\<exists>ch'. cw_channels (js_w st') p = Some ch' \<and> ch_channelts ch' = c_atol (parv ! 1) \<and> ch_mode ch' = md) \<and>
    (\<forall>mp m. cw_members (js_w st) mp = Some m \<longrightarrow> ms_chptr m = p \<longrightarrow>
       (\<exists>m'. cw_members (js_w st') mp = Some m' \<and> ms_flags m' AND STATUS_FLAGS = 0))"
proof -
  have ne: "parv ! 2 \<noteq> []" using parv(3) by (cases "parv ! 2") (auto simp: IsChannelName_def NUL_def)
  have k: "ts_rule False (c_atol (parv ! 1)) (ch_channelts ch) = (c_atol (parv ! 1), False, True)" using ts by (simp add: ts_rule_def)
  have o: "\<exists>ch'. cw_channels (js_w st') p = Some ch' \<and> ch_channelts ch' = c_atol (parv ! 1) \<and> ch_mode ch' = md"
    using ms_sjoin_outcome [OF r parv ne found(2,1) ch] k by (auto simp: outcome_def merge_modes_def)
  from r found have m: "\<exists>m'. cw_members (js_w st') mp = Some m' \<and> ms_flags m' AND STATUS_FLAGS = 0"
    if m: "cw_members (js_w st) mp = Some m" "ms_chptr m = p" for mp m
  proof (cases rule: ms_sjoin_cases)
    case ignored
    then show ?thesis using o ch ts by auto
  next
    case (merged src args md st1 st2 ko kn fr s)
    have i1: "jinv ue U st1" using inv merged(2,3) by (auto simp: jinv_def)
    from merged(4) have "\<not> ko" using k ch merged(2) by (cases rule: sjoin_merge_cases) simp
    then obtain m2 where m2: "cw_members (js_w st2) mp = Some m2" "ms_flags m2 AND STATUS_FLAGS = 0"
      using sjoin_merge_members [OF merged(4) jinvD(1) [OF i1]] m merged(2) by fastforce
    have "keeps_members st2 st'"
      using merged(5) jinv_sjoin_merge [OF merged(4) i1]
      by (cases rule: sjoin_users_loop) (auto dest!: sjoin_loop_keeps simp: keeps_members_def)
    then show ?thesis using m2 by (auto simp: keeps_members_def map_le_def dom_def)
  qed
  then show ?thesis using o by blast
qed

section \<open>Concrete runs\<close>

lemma new_client_inv:
  assumes inv: "chan_inv ue w" and c: "cw_clients w p = None" "cl_user c = None \<or> cl_user c = Some []" "\<not> MyClient c"
    "IsClient c \<Longrightarrow> cl_servptr c \<noteq> Some (cw_me w)"
  shows "chan_inv ue (set_client p c w)"
proof -
  have ok: "cworld_ok w" using inv by (simp add: chan_inv_def)
  have v: "chans_of (set_client p c w) = chans_of w" "local_user (set_client p c w) = local_user w"
    using c by (auto simp: fun_eq_iff chans_of_def local_user_def)
  have n: "ms_client_p m \<noteq> p" if "cw_members w mp = Some m" for mp m
    using membership_live [OF ok that] c(1) by (metis option.distinct(1))
  have pc: "chans_of w p = []" using c by (simp add: chans_of_def)
  have "invites_ok (set_client p c w)"
    using cworld_okD(6) [OF ok] c(1) unfolding invites_ok_def set_client_fields by (metis fun_upd_other option.distinct(1))
  moreover have "users_ok (set_client p c w)"
    using cworld_okD(5) [OF ok] c pc unfolding users_ok_def v by auto
  ultimately have "cworld_ok (set_client p c w)"
    using ok unfolding cworld_ok_def mem_lists_def mem_unique_def v by (auto simp: v)
  moreover have "bans_ok ue (set_client p c w)" using inv n unfolding chan_inv_def bans_ok_def by (auto split: if_split_asm)
  ultimately show ?thesis by (simp add: chan_inv_def)
qed

lemma sample_net_inv: "jinv ue {} (sample_net md)"
proof -
  have j: "chan_inv ue sample_joined" using chan_runs.inv_reachable [OF sample_reachable] by simp
  let ?w = "set_client 0 sample_me (set_client 9 sample_hub sample_joined)"
  have u: "cl_user sample_hub = None" "\<not> IsClient sample_hub" "cl_user sample_me = None" "\<not> IsClient sample_me"
    by (simp_all add: sample_hub_def sample_me_def zero_Client_def IsClient_def status_defs)
  have n: "cw_clients sample_joined 9 = None" "cw_clients sample_joined 0 = None"
    by (simp_all add: sample_joined_def sample_created_def sample_start_def)
  have "chan_inv ue ?w" using n u by (intro new_client_inv j) (simp_all add: MyClient_def)
  moreover have ch: "cw_channels ?w 5 = Some (sample_chan\<lparr>ch_members := [7], ch_locmembers := [7]\<rparr>)" by (simp add: sample_joined_def)
  ultimately have "chan_inv ue (set_channel 5 (sample_ch 100 md) ?w)"
    by (rule touch_channel_inv) (simp_all add: same_bans_def)
  moreover have "js_w (sample_net md) = set_channel 5 (sample_ch 100 md) ?w"
    by (simp add: sample_net_def set_client_def set_channel_def sample_joined_def sample_created_def sample_start_def fun_eq_iff)
  ultimately show ?thesis using u
    by (auto simp: jinv_def sample_joined_def sample_created_def sample_start_def sample_chan_def sample_user_def split: if_split_asm)
qed


abbreviation sample_line :: "int \<Rightarrow> string list" where
  "sample_line ts \<equiv> sjoin_parv ''hub.it'' ts ''#it'' ''+n'' ''nobody''"

lemma sample_n_words: "split_on (CHR '' '') ''+n'' = mode_word mode_n # mode_args mode_n"
  by code_simp

lemma final_modes_refl: "final_modes mode_tl mode_tl = ([], [], MODE_QUERY)"
  by code_simp

text \<open>A user of the other side, who comes with operator status in a line for a newer channel.\<close>

definition sample_ada :: Client where
  "sample_ada = zero_Client\<lparr>cl_name := ''ada'', cl_status := STAT_CLIENT, cl_from := 9, cl_servptr := Some 9, cl_user := Some []\<rparr>"

definition sample_net_ada :: jstate where
  "sample_net_ada = (sample_net mode_tl)\<lparr>js_w := (set_client 3 sample_ada (js_w (sample_net mode_tl)))
     \<lparr>cw_tabs := add_to_hash HASH_CLIENT (Some ''ada'') (Some 3) (cw_tabs (js_w (sample_net mode_tl)))\<rparr>\<rparr>"

lemma sample_net_ada_inv: "jinv ue {} sample_net_ada"
proof -
  let ?w = "js_w (sample_net mode_tl)"
  have i: "jinv ue {} (sample_net mode_tl)" by (rule sample_net_inv)
  have u: "cl_user sample_ada = Some []" "\<not> MyClient sample_ada" "cl_servptr sample_ada = Some 9"
    by (simp_all add: sample_ada_def zero_Client_def MyClient_def MyConnect_def)
  have n: "cw_clients ?w 3 = None" "cw_me ?w = 0" by (simp_all add: sample_net_def sample_joined_def sample_created_def sample_start_def)
  have "chan_inv ue (set_client 3 sample_ada ?w)" using u n by (intro new_client_inv jinvD(1) [OF i]) simp_all
  moreover have "chan_inv ue (w\<lparr>cw_tabs := t\<rparr>) = chan_inv ue w" if "channelTable t = channelTable (cw_tabs w)" for w t
  proof -
    have "chans_of (w\<lparr>cw_tabs := t\<rparr>) = chans_of w" "members_of (w\<lparr>cw_tabs := t\<rparr>) = members_of w" "locals_of (w\<lparr>cw_tabs := t\<rparr>) = locals_of w"
      "local_user (w\<lparr>cw_tabs := t\<rparr>) = local_user w" by (simp_all add: fun_eq_iff chans_of_def members_of_def locals_of_def local_user_def)
    then show ?thesis using that
      by (simp add: chan_inv_def cworld_ok_def mem_lists_def mem_unique_def users_ok_def invites_ok_def bans_ok_def chan_tab_ok_def)
  qed
  ultimately have "chan_inv ue (js_w sample_net_ada)" by (simp add: sample_net_ada_def add_to_hash_def)
  then show ?thesis using i u unfolding jinv_def sample_net_ada_def by simp
qed

lemma sample_newer:
  "case ms_sjoin sample_je 9 9 (sjoin_parv ''hub.it'' 200 ''#it'' ''+n'' ''@ada'') sample_net_ada of
     None \<Rightarrow> False | Some st \<Rightarrow> map_option (\<lambda>m. (ms_client_p m, ms_flags m)) (cw_members (js_w st) 11) = Some (3, CHFL_DEOPPED)"
  by code_simp

lemma sample_older:
  "\<exists>st. ms_sjoin sample_je 9 9 (sample_line 50) (sample_net mode_tl) = Some st"
proof -
  have f: "final_modes mode_n mode_tl = (''+n-tlk'', ''x '', MODE_DEL)" by code_simp
  have z: "ms_flags sample_member AND STATUS_FLAGS = 0" "ms_client_p sample_member = Suc 0" "cw_me (js_w (sample_net mode_tl)) = 0"
    "cw_clients (js_w (sample_net mode_tl)) 0 = Some sample_me"
    by (simp_all add: sample_member_def CHFL_PEON_def sample_net_def sample_joined_def sample_created_def sample_start_def)
  have "\<exists>st. sjoin_merge 5 sample_hub False 50 mode_n (sample_net mode_tl\<lparr>js_next := 11\<rparr>) = Some (False, True, st) \<and>
    js_w st = set_channel 5 (sample_ch 50 mode_n) (js_w (sample_net mode_tl))"
    using sample_net_targets z
    by (simp add: sjoin_merge_def ts_zero_def ts_rule_def upd_channel_def merge_modes_def set_final_mode_def f MODEBUFLEN_def set_channel_def
        remove_our_modes_def end_status_def ts_notice_def sendto_channel_local_def put_out_def me_client_def)
  then obtain st where m: "sjoin_merge 5 sample_hub False 50 mode_n (sample_net mode_tl\<lparr>js_next := 11\<rparr>) = Some (False, True, st)"
    "js_w st = set_channel 5 (sample_ch 50 mode_n) (js_w (sample_net mode_tl))" by blast
  have "legal_mode mode_n" by code_simp
  then show ?thesis using sample_sjoin [OF sample_n_words modes_n(3,4) m] by simp
qed


lemma sample_line_simps [simp]:
  "sample_line ts ! 1 = int_str ts" "sample_line ts ! 2 = ''#it''" "sample_line ts ! 3 = ''+n''" "sample_line ts ! 4 = ''nobody''"
  "sample_line ts ! Suc 0 = int_str ts" "length (sample_line ts) = 5"
  by (simp_all add: sjoin_parv_def)

theorem sjoin_newer_ignored_witness:
  "\<exists>st ch m. ms_sjoin sample_je 9 9 (sjoin_parv ''hub.it'' 200 ''#it'' ''+n'' ''@ada'') sample_net_ada = Some st \<and> cw_channels (js_w st) 5 = Some ch \<and>
     ch_channelts ch = 100 \<and> ch_mode ch = mode_tl \<and> cw_members (js_w st) 11 = Some m \<and> ms_client_p m = 3 \<and> ms_flags m AND STATUS_FLAGS = 0"
proof -
  let ?parv = "sjoin_parv ''hub.it'' 200 ''#it'' ''+n'' ''@ada''"
  obtain st m where r: "ms_sjoin sample_je 9 9 ?parv sample_net_ada = Some st" and m: "cw_members (js_w st) 11 = Some m" "ms_client_p m = 3"
    using sample_newer by (auto split: option.split_asm)
  have w: "cw_channels (js_w sample_net_ada) 5 = Some (sample_ch 100 mode_tl)" "cw_members (js_w sample_net_ada) 11 = None"
    "find_channel (cw_channels (js_w sample_net_ada)) (cw_tabs (js_w sample_net_ada)) (Some ''#it'') = Some (Some 5)"
    using sample_found [of mode_tl] by (simp_all add: sample_net_ada_def find_channel_def add_to_hash_def)
  have p: "?parv ! 1 = int_str 200" "?parv ! 2 = ''#it''" "c_atol (int_str 200) = 200" by (simp_all add: sjoin_parv_def c_atol_str)
  note newer = sjoin_newer_ignored [OF sample_net_ada_inv [of True] r, of 5 "sample_ch 100 mode_tl", unfolded p, OF w(3) _ w(1)]
  have len: "length ''#it'' \<le> CHANNELLEN" by (simp add: CHANNELLEN_def)
  have "ms_flags m AND STATUS_FLAGS = 0" using newer [OF len, THEN conjunct2] m(1) w(2) by (simp add: p) (metis option.distinct(1))
  moreover obtain ch where "cw_channels (js_w st) 5 = Some ch" "ch_channelts ch = 100" "ch_mode ch = mode_tl"
    using newer [OF len, THEN conjunct1] by (auto simp: p)
  ultimately show ?thesis using r m by blast
qed

theorem sjoin_older_wins_witness:
  "\<exists>st ch m. ms_sjoin sample_je 9 9 (sample_line 50) (sample_net mode_tl) = Some st \<and> cw_channels (js_w st) 5 = Some ch \<and>
     ch_channelts ch = 50 \<and> ch_mode ch = mode_n \<and> cw_members (js_w st) 7 = Some m \<and> ms_flags m AND STATUS_FLAGS = 0"
proof -
  obtain st where r: "ms_sjoin sample_je 9 9 (sample_line 50) (sample_net mode_tl) = Some st" using sample_older by blast
  have "c_atol (int_str 50) = 50" by (simp add: c_atol_str)
  moreover have "sjoin_modes (sample_line 50) ''+n'' 0 \<lparr>md_mode = 0, md_limit = 0, md_key = []\<rparr> = Some (0, mode_n)" 
    by (simp add: sjoin_bits_def mode_n_def)
  moreover have "ms_chptr sample_member = 5" by (simp add: sample_member_def)
  ultimately show ?thesis
    using sjoin_older_wins [OF sample_net_inv [of True] r, of 0 mode_n 5 "sample_ch 100 mode_tl"] sample_found sample_name r by simp
qed

end
