(* ===== verification/Cmd_Props.thy ===== *)
theory Cmd_Props
  imports Chan_Cmds Sjoin_Ops
begin

text \<open>
  What PART, KICK, TOPIC and INVITE do to the channels and memberships, who may do it, and a concrete network on which the
  commands run.
\<close>

section \<open>What the commands do\<close>

text \<open>A user of ours with neither operator nor half-operator status removes nobody.\<close>

lemma lists_of_grace: "finish_grace cp st = Some st' \<Longrightarrow> cw_tabs (js_w st') = cw_tabs (js_w st) \<and> cw_channels (js_w st') = cw_channels (js_w st) \<and> cw_members (js_w st') = cw_members (js_w st)"
  by (auto simp: finish_grace_def bind_eq_Some_conv split: if_split_asm)

lemma grace_source:
  assumes g: "finish_grace cp st = Some st1" and c: "cw_clients (js_w st) cp = Some c"
  shows "\<exists>c1. cw_clients (js_w st1) = (cw_clients (js_w st))(cp \<mapsto> c1) \<and> MyConnect c1 = MyConnect c \<and> cl_status c1 = cl_status c \<and>
    cl_name c1 = cl_name c \<and> IsService c1 = IsService c"
proof (cases "MyClient c \<and> \<not> IsFloodDone c")
  case True
  with g c obtain lu where "cl_local c = Some lu" and
    st1: "st1 = st\<lparr>js_w := set_client cp (c\<lparr>cl_flags := cl_flags c OR FLAGS_FLOODDONE,
             cl_local := Some (lu\<lparr>lu_allow_read := MAX_FLOOD, lu_sent_parsed := 0\<rparr>)\<rparr>) (js_w st)\<rparr>"
    by (auto simp: finish_grace_def flood_endgrace_def bind_eq_Some_conv)
  have "(cl_flags c OR FLAGS_FLOODDONE) AND FLAGS_MYCONNECT = cl_flags c AND FLAGS_MYCONNECT"
    by (simp add: FLAGS_FLOODDONE_def FLAGS_MYCONNECT_def bit.conj_disj_distrib2)
  then show ?thesis using st1
    by (intro exI [of _ "c\<lparr>cl_flags := cl_flags c OR FLAGS_FLOODDONE,
             cl_local := Some (lu\<lparr>lu_allow_read := MAX_FLOOD, lu_sent_parsed := 0\<rparr>)\<rparr>"]) (simp add: MyConnect_def IsService_def)
next
  case False
  with g c have "st1 = st" by (auto simp: finish_grace_def)
  then show ?thesis using c by (intro exI [of _ c]) (simp add: fun_upd_idem)
qed

lemma kick_user_effect:
  assumes r: "kick_user env client_p src who chp mp name comment st = Some st'" and inv: "jinv ue U st"
    and m: "cw_members (js_w st) mp = Some m"
  shows "cw_members (js_w st') = (cw_members (js_w st))(mp := None)"
proof -
  from r obtain l st1 w where l: "sendto_channel_local ALL_MEMBERS chp l st = Some st1"
    and w: "remove_user_from_channel (Some mp) (js_w st1) = Some w" "js_w st' = w"
    unfolding kick_user_def Let_def bind_eq_Some_conv by (auto simp: to_servers_def put_out_def)
  have "cworld_ok (js_w st)" using jinvD(1) [OF inv] by (simp add: chan_inv_def)
  from remove_user_from_channel_ok [OF this m] show ?thesis using w sendto_channel_local_w [OF l] by auto
qed

definition kick_allowed :: "ptr \<Rightarrow> string \<Rightarrow> cworld \<Rightarrow> ptr \<Rightarrow> bool" where
  "kick_allowed source_p name w mp \<longleftrightarrow> (\<exists>chp smp sm m who.
     find_channel (cw_channels w) (cw_tabs w) (Some name) = Some (Some chp) \<and>
     cw_members w smp = Some sm \<and> ms_client_p sm = source_p \<and> ms_chptr sm = chp \<and>
     cw_members w mp = Some m \<and> ms_chptr m = chp \<and> cw_clients w (ms_client_p m) = Some who \<and> \<not> IsService who \<and>
     (is_chanop sm \<or> is_halfop sm \<and> \<not> is_chanop m \<and> \<not> is_halfop m))"

lemma kick_target_allowed:
  assumes r: "kick_target env client_p src chp half name user comment st = Some st'" and inv: "jinv ue U st"
    and src: "MyClient src" "MyConnect src"
  shows "cw_members (js_w st') = cw_members (js_w st) \<or>
    (\<exists>mp m who. cw_members (js_w st) mp = Some m \<and> ms_chptr m = chp \<and> cw_clients (js_w st) (ms_client_p m) = Some who \<and> \<not> IsService who \<and>
       (half \<longrightarrow> \<not> is_chanop m \<and> \<not> is_halfop m) \<and> cw_members (js_w st') = (cw_members (js_w st))(mp := None))"
proof (cases "js_w st' = js_w st")
  case False
  from r obtain w2 chased unknown where w2: "find_chasing (cw_clients (js_w st)) (cw_tabs (js_w st)) (ce_history env) (je_now (ce_j env)) src user =
      Some (w2, chased, unknown)" by (auto simp: kick_target_def split: Option.bind_split_asm)
  with r False obtain wp who ms where wp: "w2 = Some wp" "cw_clients (js_w st) wp = Some who" "find_channel_membership chp wp (js_w st) = Some ms"
    by (auto simp: kick_target_def to_source_def put_out_def split: Option.bind_split_asm option.split_asm)
  with r w2 False obtain mp m where mp: "ms = Some mp" "cw_members (js_w st) mp = Some m"
    by (auto simp: kick_target_def to_source_def put_out_def split: Option.bind_split_asm option.split_asm if_split_asm)
  have mo: "membership_of chp wp (js_w st) mp" using find_membership [OF inv] wp mp by blast
  from r w2 wp mp False src obtain cm where k: "kick_user env client_p src who chp mp name cm st = Some st'" and a: "\<not> IsService who"
      "half \<longrightarrow> \<not> is_chanop m \<and> \<not> is_halfop m"
    by (auto simp: kick_target_def kick_refused_def to_source_def put_out_def Let_def split: Option.bind_split_asm option.split_asm if_split_asm)
  show ?thesis using kick_user_effect [OF k inv mp(2)] mo mp wp a by (auto simp: membership_of_def)
qed simp

text \<open>
  C18: A KICK from a user of ours removes at most one membership, of the channel named: the source
  is an operator there, or a half-operator and the victim has neither status; the victim is no
  service. Otherwise no membership changes.
\<close>

theorem kick_authorised:
  assumes inv: "jinv ue U st" and src: "cw_clients (js_w st) source_p = Some src" "MyClient src"
    and r: "m_kick env client_p source_p parv st = Some st'"
  shows "cw_members (js_w st') = cw_members (js_w st) \<or>
    (\<exists>mp. kick_allowed source_p (takeWhile (\<lambda>c. c \<noteq> CHR '','') (parv ! 1)) (js_w st) mp \<and>
       cw_members (js_w st') = (cw_members (js_w st))(mp := None))"
proof (cases "cw_members (js_w st') = cw_members (js_w st)")
  case False
  let ?name = "takeWhile (\<lambda>c. c \<noteq> CHR '','') (parv ! 1)"
  from r obtain st1 where g: "finish_grace source_p st = Some st1" by (auto simp: m_kick_def split: if_split_asm Option.bind_split_asm)
  note l = lists_of_grace [OF g]
  have i1: "jinv ue U st1" using finish_grace_inv [OF g inv] by blast
  from grace_source [OF g src(1)] obtain c1 where c1: "cw_clients (js_w st1) = (cw_clients (js_w st))(source_p \<mapsto> c1)"
      "MyConnect c1 = MyConnect src" "cl_status c1 = cl_status src" "IsService c1 = IsService src" by blast
  have my: "MyClient c1" "MyConnect c1" "\<not> IsServer c1" using src(2) c1 by (auto simp: MyClient_def IsClient_def IsServer_def STAT_CLIENT_def STAT_SERVER_def)
  have out: "cw_members (js_w (to_source n args st1)) = cw_members (js_w st)" for n args using l by (simp add: to_source_def put_out_def)
  from r g c1(1) obtain q where q: "find_channel (cw_channels (js_w st1)) (cw_tabs (js_w st1)) (Some ?name) = Some q"
    by (auto simp: m_kick_def Let_def split: if_split_asm Option.bind_split_asm)
  obtain chp where chp: "q = Some chp" using r g c1(1) q False out by (cases q) (auto simp: m_kick_def Let_def split: if_split_asm)
  from r g c1(1) q chp my obtain ms where ms: "find_channel_membership chp source_p (js_w st1) = Some ms"
    by (auto simp: m_kick_def Let_def split: if_split_asm Option.bind_split_asm)
  obtain smp where smp: "ms = Some smp" using r g c1(1) q chp my ms False out
    by (cases ms) (auto simp: m_kick_def Let_def split: if_split_asm Option.bind_split_asm)
  from find_membership [OF i1, of chp source_p smp] ms smp obtain sm where sm: "cw_members (js_w st1) smp = Some sm" "ms_client_p sm = source_p" "ms_chptr sm = chp"
    by (auto simp: membership_of_def)
  have op: "is_chanop sm \<or> is_halfop sm"
    using r g c1(1) q chp my ms smp sm(1) False out
    by (auto simp: m_kick_def Let_def has_op_def has_half_def kick_refused_def split: if_split_asm Option.bind_split_asm option.split_asm)
  with r g c1(1) q chp my ms smp sm(1) False out obtain user comment where
    k: "kick_target env client_p c1 chp (\<not> is_chanop sm) ?name user comment st1 = Some st'"
    by (auto simp: m_kick_def Let_def has_op_def has_half_def split: if_split_asm Option.bind_split_asm)
  from kick_target_allowed [OF k i1 my(1,2)] False l obtain mp m who where
    m: "cw_members (js_w st) mp = Some m" "ms_chptr m = chp" "cw_clients (js_w st1) (ms_client_p m) = Some who" "\<not> IsService who"
      "\<not> is_chanop sm \<longrightarrow> \<not> is_chanop m \<and> \<not> is_halfop m" "cw_members (js_w st') = (cw_members (js_w st))(mp := None)" by auto
  have "\<exists>who. cw_clients (js_w st) (ms_client_p m) = Some who \<and> \<not> IsService who"
    using m(3,4) c1 src(1) by (auto split: if_split_asm)
  then have "kick_allowed source_p ?name (js_w st) mp" using q chp sm m op l unfolding kick_allowed_def by auto
  then show ?thesis using m(6) by blast
qed simp

text \<open>When TOPIC changes the state, every check on the way has passed.\<close>

lemma m_topic_run:
  assumes r: "m_topic env client_p source_p parv st = Some st'" and g: "finish_grace source_p st = Some st1" and ne: "js_w st' \<noteq> js_w st1"
  obtains src chp ch mp m where "find_channel (cw_channels (js_w st1)) (cw_tabs (js_w st1)) (Some (takeWhile (\<lambda>c. c \<noteq> CHR '','') (parv ! 1))) = Some (Some chp)"
    "cw_channels (js_w st1) chp = Some ch" "find_channel_membership chp source_p (js_w st1) = Some (Some mp)" "cw_members (js_w st1) mp = Some m"
    "md_mode (ch_mode ch) AND MODE_TOPICLIMIT = 0 \<or> is_chanop m \<or> is_halfop m" "set_topic env client_p src chp (parv ! 2) st1 = Some st'"
proof -
  let ?name = "takeWhile (\<lambda>c. c \<noteq> CHR '','') (parv ! 1)"
  have out: "js_w (to_source n args st2) = js_w st2" for n args st2 by (simp add: to_source_def put_out_def)
  have sh: "show_topic src source_p q n st1 = Some st2 \<Longrightarrow> js_w st2 = js_w st1" for src q n st2
    by (auto simp: show_topic_def out split: Option.bind_split_asm option.split_asm if_split_asm)
  from r g obtain src me where src: "cw_clients (js_w st1) source_p = Some src" "me_client st1 = Some me"
    by (auto simp: m_topic_def split: Option.bind_split_asm if_split_asm)
  have cn: "IsChannelName ?name" using r g src ne out by (auto simp: m_topic_def Let_def split: if_split_asm)
  from r g src cn obtain q where q: "find_channel (cw_channels (js_w st1)) (cw_tabs (js_w st1)) (Some ?name) = Some q"
    by (auto simp: m_topic_def Let_def split: Option.bind_split_asm if_split_asm)
  obtain chp where chp: "q = Some chp" using r g src cn q ne out by (cases q) (auto simp: m_topic_def Let_def split: if_split_asm)
  have p: "length parv > 2"
    using r g src cn q chp ne sh by (cases "length parv > 2") (auto simp: m_topic_def Let_def split: if_split_asm)
  from r g src cn q chp p obtain ch ms where ch: "cw_channels (js_w st1) chp = Some ch"
    and ms0: "find_channel_membership chp source_p (js_w st1) = Some ms"
    by (auto simp: m_topic_def Let_def split: Option.bind_split_asm)
  obtain mp where mp: "ms = Some mp" using r g src cn q chp p ch ms0 ne out by (cases ms) (auto simp: m_topic_def Let_def)
  have ms: "find_channel_membership chp source_p (js_w st1) = Some (Some mp)" using ms0 mp by simp
  from r g src cn q chp p ch ms obtain m where m: "cw_members (js_w st1) mp = Some m"
    by (auto simp: m_topic_def Let_def split: Option.bind_split_asm)
  have op: "md_mode (ch_mode ch) AND MODE_TOPICLIMIT = 0 \<or> is_chanop m \<or> is_halfop m"
    and s: "set_topic env client_p src chp (parv ! 2) st1 = Some st'"
    using r g src cn q chp p ch ms m ne out by (auto simp: m_topic_def Let_def split: if_split_asm)
  have f: "find_channel (cw_channels (js_w st1)) (cw_tabs (js_w st1)) (Some ?name) = Some (Some chp)" using q chp by simp
  show thesis using that f ch ms m op s by blast
qed

text \<open>
  C19: TOPIC changes no membership, and a channel only when the source is a member of it and the
  channel is not +t or the source is operator or half-operator; then the channel named, and no
  other one, gets the topic of the line.
\<close>

theorem topic_authorised:
  assumes inv: "jinv ue U st" and r: "m_topic env client_p source_p parv st = Some st'"
  shows "cw_members (js_w st') = cw_members (js_w st) \<and>
    (cw_channels (js_w st') = cw_channels (js_w st) \<or>
     (\<exists>chp ch ch' mp m info. find_channel (cw_channels (js_w st)) (cw_tabs (js_w st)) (Some (takeWhile (\<lambda>c. c \<noteq> CHR '','') (parv ! 1))) = Some (Some chp) \<and>
        cw_channels (js_w st) chp = Some ch \<and> cw_members (js_w st) mp = Some m \<and> ms_client_p m = source_p \<and> ms_chptr m = chp \<and>
        (md_mode (ch_mode ch) AND MODE_TOPICLIMIT = 0 \<or> is_chanop m \<or> is_halfop m) \<and>
        set_channel_topic (ce_topiclen env) ch (parv ! 2) info (je_now (ce_j env)) = Some ch' \<and>
        cw_channels (js_w st') = (cw_channels (js_w st))(chp \<mapsto> ch')))"
proof -
  let ?name = "takeWhile (\<lambda>c. c \<noteq> CHR '','') (parv ! 1)"
  from r obtain st1 where g: "finish_grace source_p st = Some st1" by (auto simp: m_topic_def split: if_split_asm Option.bind_split_asm)
  note l = lists_of_grace [OF g]
  have i1: "jinv ue U st1" using finish_grace_inv [OF g inv] by blast
  show ?thesis
  proof (cases "js_w st' = js_w st1")
    case False
    from r g False obtain src chp ch mp m where f: "find_channel (cw_channels (js_w st1)) (cw_tabs (js_w st1)) (Some ?name) = Some (Some chp)"
      and ch: "cw_channels (js_w st1) chp = Some ch" and ms: "find_channel_membership chp source_p (js_w st1) = Some (Some mp)"
      and m: "cw_members (js_w st1) mp = Some m" and op: "md_mode (ch_mode ch) AND MODE_TOPICLIMIT = 0 \<or> is_chanop m \<or> is_halfop m"
      and s: "set_topic env client_p src chp (parv ! 2) st1 = Some st'" by (rule m_topic_run)
    from s show ?thesis
      by (cases rule: set_topic_run) (use find_membership [OF i1 ms] l f ch m op in \<open>auto simp: membership_of_def\<close>)
  qed (use l in simp)
qed

text \<open>When INVITE changes the state, the invitation is noted and every check has passed.\<close>

lemma m_invite_run:
  assumes r: "m_invite env client_p source_p parv st = Some st'" and g: "finish_grace source_p st = Some st1" and ne: "js_w st' \<noteq> js_w st1"
    and src: "cw_clients (js_w st1) source_p = Some src" "MyClient src"
  obtains tp target chp ch mp m where "find_named_person (cw_clients (js_w st1)) (cw_tabs (js_w st1)) (parv ! 1) = Some (Some tp)"
    "cw_clients (js_w st1) tp = Some target" "MyConnect target"
    "find_channel (cw_channels (js_w st1)) (cw_tabs (js_w st1)) (Some (parv ! 2)) = Some (Some chp)" "cw_channels (js_w st1) chp = Some ch"
    "find_channel_membership chp source_p (js_w st1) = Some (Some mp)" "cw_members (js_w st1) mp = Some m" "is_chanop m"
    "IsMember tp chp (js_w st1) = Some False" "md_mode (ch_mode ch) AND MODE_INVITEONLY \<noteq> 0" "add_invite env chp tp (js_w st1) = Some (js_w st')"
proof -
  have out: "js_w (to_source n args st2) = js_w st2" for n args st2 by (simp add: to_source_def put_out_def)
  have len: "\<not> length parv < 3" using r by (auto simp: m_invite_def)
  from r g src obtain me t where me: "me_client st1 = Some me"
    and t: "find_named_person (cw_clients (js_w st1)) (cw_tabs (js_w st1)) (parv ! 1) = Some t"
    by (auto simp: m_invite_def Let_def split: Option.bind_split_asm if_split_asm)
  note a = r [unfolded m_invite_def Let_def] g src len me t ne out
  obtain tp where tp: "t = Some tp" using a by (cases t) auto
  from a tp obtain target where target: "cw_clients (js_w st1) tp = Some target" by (auto split: Option.bind_split_asm)
  have nm: "check_channel_name (Some (parv ! 2))" "IsChannelName (parv ! 2)" "\<not> (headc (parv ! 2) = CHR ''&'' \<and> \<not> MyConnect target)"
    using a tp target by (auto split: if_split_asm)
  from a tp target nm obtain q where q: "find_channel (cw_channels (js_w st1)) (cw_tabs (js_w st1)) (Some (parv ! 2)) = Some q"
    by (auto split: Option.bind_split_asm)
  obtain chp where chp: "q = Some chp" using a tp target nm q by (cases q) auto
  from a tp target nm q chp obtain ch ms there where ch: "cw_channels (js_w st1) chp = Some ch"
    and ms: "find_channel_membership chp source_p (js_w st1) = Some ms" and th: "IsMember tp chp (js_w st1) = Some there"
    by (auto split: Option.bind_split_asm)
  note b = a tp target nm q chp ch ms th
  from b obtain mp where mp: "ms = Some mp" by (cases ms) auto
  from b mp obtain m where m: "cw_members (js_w st1) mp = Some m" by (auto split: Option.bind_split_asm)
  have no: "\<not> there" using b mp m by (auto split: if_split_asm)
  have d: "do_invite env client_p src tp target chp (parv ! 2) (md_mode (ch_mode ch) AND MODE_INVITEONLY \<noteq> 0) st1 = Some st'"
    and o: "(ce_invite_ops_only env \<or> md_mode (ch_mode ch) AND MODE_INVITEONLY \<noteq> 0) \<longrightarrow> is_chanop m"
    using b mp m no by (auto simp: has_op_def split: if_split_asm)
  from d show thesis
  proof (cases rule: do_invite_cases)
    case 1
    then show ?thesis using ne by simp
  next
    case (2 w)
    then show ?thesis using t tp target q chp ch ms mp m no th o by (intro that [of tp target chp ch mp m]) (simp_all del: One_nat_def)
  qed
qed

lemma add_invite_noted:
  assumes "add_invite env chp tp w = Some w'"
  shows "cw_members w' = cw_members w \<and> (\<exists>c lu. cw_clients w' tp = Some c \<and> cl_local c = Some lu \<and> chp \<in> set (lu_invited lu))"
proof -
  from assms obtain c lu where c: "cw_clients w tp = Some c" "cl_local c = Some lu" by (auto simp: add_invite_def bind_eq_Some_conv)
  show ?thesis
    using assms c by (cases "chp \<in> set (lu_invited lu)") (auto simp: add_invite_def del_invite_def bind_eq_Some_conv split: if_split_asm)
qed

lemma not_member:
  assumes inv: "jinv ue U st" and no: "IsMember cp chp (js_w st) = Some False" and ch: "cw_channels (js_w st) chp = Some ch"
  shows "\<not> membership_of chp cp (js_w st) mp"
proof
  assume mo: "membership_of chp cp (js_w st) mp"
  have ok: "cworld_ok (js_w st)" using jinvD(1) [OF inv] by (simp add: chan_inv_def)
  from mo obtain m where m: "cw_members (js_w st) mp = Some m" "ms_client_p m = cp" "ms_chptr m = chp" by (auto simp: membership_of_def)
  from membership_live [OF ok m(1)] m obtain c where c: "cw_clients (js_w st) cp = Some c" "IsClient c" by metis
  with jinvD(3) [OF inv] obtain chans where u: "cl_user c = Some chans" by blast
  from find_channel_membership_spec [OF ok c u ch] mo show False using no c u by (auto simp: IsMember_def)
qed

text \<open>The invitations a client holds.\<close>

definition invited_of :: "cworld \<Rightarrow> ptr \<Rightarrow> ptr list" where
  "invited_of w p = (case cw_clients w p of None \<Rightarrow> [] | Some c \<Rightarrow> (case cl_local c of None \<Rightarrow> [] | Some lu \<Rightarrow> lu_invited lu))"

lemma foreach_find_upd: "st p = Some c \<Longrightarrow> P c' = P c \<Longrightarrow> foreach_find (st(p \<mapsto> c')) P ps = foreach_find st P ps"
  by (induction ps) (auto split: option.split)

lemma find_named_person_upd:
  assumes "cls p = Some c" "cl_name c' = cl_name c" "cl_status c' = cl_status c"
  shows "find_named_person (cls(p \<mapsto> c')) t name = find_named_person cls t name"
proof -
  have "find_named_client (cls(p \<mapsto> c')) t (Some name) = find_named_client cls t (Some name)"
    using assms(2) by (simp add: find_named_client_def foreach_find_upd [where st = cls, OF assms(1)])
  then show ?thesis using assms by (auto simp: find_named_person_def IsClient_def split: option.split Option.bind_split)
qed

lemma grace_invited: "finish_grace cp st = Some st1 \<Longrightarrow> invited_of (js_w st1) = invited_of (js_w st)"
  by (rule ext) (auto simp: finish_grace_def flood_endgrace_def invited_of_def bind_eq_Some_conv split: if_split_asm)

text \<open>What \<^verbatim>\<open>add_invite\<close> does to the lists at both ends.\<close>

definition invite_noted :: "cenv \<Rightarrow> ptr \<Rightarrow> ptr \<Rightarrow> cworld \<Rightarrow> cworld \<Rightarrow> bool" where
  "invite_noted env chp tp w w' \<longleftrightarrow>
     (let old = invited_of w tp; gone = (if length old \<ge> je_max_chans_per_user (ce_j env) then {last old} else {}) in
      chp \<notin> set old \<and> invited_of w' = (invited_of w)(tp := chp # (if gone = {} then old else remove1 (last old) old)) \<and>
      (\<forall>q. cw_channels w' q = map_option (\<lambda>ch. ch\<lparr>ch_invites :=
        if q = chp then tp # ch_invites ch else if q \<in> gone then remove1 tp (ch_invites ch) else ch_invites ch\<rparr>) (cw_channels w q)))"

lemma add_invite_effect:
  assumes a: "add_invite env chp tp w = Some w'" and ne: "w' \<noteq> w"
  shows "invite_noted env chp tp w w'"
proof -
  from a obtain c lu where c: "cw_clients w tp = Some c" "cl_local c = Some lu" by (auto simp: add_invite_def bind_eq_Some_conv)
  have old: "invited_of w tp = lu_invited lu" using c by (simp add: invited_of_def)
  have new: "chp \<notin> set (lu_invited lu)" using a c ne by (auto simp: add_invite_def)
  have ext: "(\<lambda>q. map_option (\<lambda>ch. ch\<lparr>ch_invites := ch_invites ch\<rparr>) (f q)) = f" for f :: "ptr \<rightharpoonup> Channel" by (simp add: fun_eq_iff option.map_ident)
  show ?thesis
  proof (cases "length (lu_invited lu) \<ge> je_max_chans_per_user (ce_j env)")
    case False
    with a c new obtain ch where ch: "cw_channels w chp = Some ch" and w':
      "w' = set_client tp (c\<lparr>cl_local := Some (lu\<lparr>lu_invited := chp # lu_invited lu\<rparr>)\<rparr>) (set_channel chp (ch\<lparr>ch_invites := tp # ch_invites ch\<rparr>) w)"
      by (auto simp: add_invite_def bind_eq_Some_conv)
    have "invited_of w' = (invited_of w)(tp := chp # lu_invited lu)" by (auto simp: fun_eq_iff invited_of_def w')
    moreover have "cw_channels w' q = map_option (\<lambda>ch. ch\<lparr>ch_invites := if q = chp then tp # ch_invites ch else ch_invites ch\<rparr>) (cw_channels w q)" for q
      using ch by (auto simp: w' option.map_ident)
    ultimately show ?thesis using False new old by (simp add: invite_noted_def cong: if_cong)
  next
    case True
    let ?l = "last (lu_invited lu)"
    from a c new True obtain ch0 ch where l: "lu_invited lu \<noteq> []" and ch0: "cw_channels w ?l = Some ch0" and ch: "cw_channels w chp = Some ch" and w':
      "w' = set_client tp (c\<lparr>cl_local := Some (lu\<lparr>lu_invited := chp # remove1 ?l (lu_invited lu)\<rparr>)\<rparr>)
        (set_channel chp (ch\<lparr>ch_invites := tp # ch_invites ch\<rparr>) (set_channel ?l (ch0\<lparr>ch_invites := remove1 tp (ch_invites ch0)\<rparr>) w))"
    proof -
      from a c new True obtain w1 where l: "lu_invited lu \<noteq> []" and d: "del_invite ?l tp w = Some w1"
        and a1: "do { c \<leftarrow> cw_clients w1 tp; lu \<leftarrow> cl_local c; ch \<leftarrow> cw_channels w1 chp;
          Some (set_client tp (c\<lparr>cl_local := Some (lu\<lparr>lu_invited := chp # lu_invited lu\<rparr>)\<rparr>)
            (set_channel chp (ch\<lparr>ch_invites := tp # ch_invites ch\<rparr>) w1)) } = Some w'"
        by (auto simp: add_invite_def bind_eq_Some_conv split: if_split_asm)
      have ne: "?l \<noteq> chp" using new l last_in_set by metis
      from d c obtain ch0 where ch0: "cw_channels w ?l = Some ch0" and w1:
        "w1 = set_client tp (c\<lparr>cl_local := Some (lu\<lparr>lu_invited := remove1 ?l (lu_invited lu)\<rparr>)\<rparr>) (set_channel ?l (ch0\<lparr>ch_invites := remove1 tp (ch_invites ch0)\<rparr>) w)"
        by (auto simp: del_invite_def bind_eq_Some_conv)
      from a1 ne obtain ch where "cw_channels w chp = Some ch"
        "w' = set_client tp (c\<lparr>cl_local := Some (lu\<lparr>lu_invited := chp # remove1 ?l (lu_invited lu)\<rparr>)\<rparr>) (set_channel chp (ch\<lparr>ch_invites := tp # ch_invites ch\<rparr>) w1)"
        by (auto simp: w1 bind_eq_Some_conv)
      then show ?thesis using that [OF l ch0] by (simp add: w1 set_client_def set_channel_def)
    qed
    have ne: "?l \<noteq> chp" using new l last_in_set by metis
    have "invited_of w' = (invited_of w)(tp := chp # remove1 ?l (lu_invited lu))" by (auto simp: fun_eq_iff invited_of_def w')
    moreover have "cw_channels w' q = map_option (\<lambda>ch. ch\<lparr>ch_invites :=
        if q = chp then tp # ch_invites ch else if q = ?l then remove1 tp (ch_invites ch) else ch_invites ch\<rparr>) (cw_channels w q)" for q
      using ch ch0 ne by (auto simp: w' option.map_ident)
    ultimately show ?thesis using True new old by (simp add: invite_noted_def cong: if_cong)
  qed
qed

lemma invite_admitted:
  assumes "invite_noted env chp tp w w'" "cw_clients w' tp = Some target" "cl_local target = Some lu"
  shows "invited_in env' chp ch lu ss = Some True"
  using assms by (auto simp: invite_noted_def invited_of_def invited_in_def Let_def dest: fun_cong [of _ _ tp])

text \<open>
  C20: INVITE from a user of ours changes no membership, and no channel and no list of invitations
  either unless the channel named is invite-only, the source is an operator of it and the person
  named by the first parameter is not in it; then exactly that person gets the invitation at the
  head of the list (its oldest one goes when the list is full) and, on the other side, the channel
  notes that person, and that person passes the invite-only test of can_join.
\<close>

theorem invite_authorised:
  assumes inv: "jinv ue U st" and src: "cw_clients (js_w st) source_p = Some src" "MyClient src"
    and r: "m_invite env client_p source_p parv st = Some st'"
  shows "cw_members (js_w st') = cw_members (js_w st) \<and>
    (cw_channels (js_w st') = cw_channels (js_w st) \<and> invited_of (js_w st') = invited_of (js_w st) \<or>
     (\<exists>chp ch mp m tp. find_channel (cw_channels (js_w st)) (cw_tabs (js_w st)) (Some (parv ! 2)) = Some (Some chp) \<and>
        find_named_person (cw_clients (js_w st)) (cw_tabs (js_w st)) (parv ! 1) = Some (Some tp) \<and>
        cw_channels (js_w st) chp = Some ch \<and> md_mode (ch_mode ch) AND MODE_INVITEONLY \<noteq> 0 \<and>
        cw_members (js_w st) mp = Some m \<and> ms_client_p m = source_p \<and> ms_chptr m = chp \<and> is_chanop m \<and>
        \<not> (\<exists>mp'. membership_of chp tp (js_w st) mp') \<and> invite_noted env chp tp (js_w st) (js_w st') \<and>
        (\<exists>target lu. cw_clients (js_w st') tp = Some target \<and> cl_local target = Some lu \<and> (\<forall>env ch ss. invited_in env chp ch lu ss = Some True))))"
proof -
  from r obtain st1 where g: "finish_grace source_p st = Some st1" by (cases rule: m_invite_cases)
  note l = lists_of_grace [OF g] and gi = grace_invited [OF g]
  have i1: "jinv ue U st1" using finish_grace_inv [OF g inv] by blast
  from grace_source [OF g src(1)] src(2) obtain c1 where c1: "cw_clients (js_w st1) source_p = Some c1" "MyClient c1"
    and cl: "cw_clients (js_w st1) = (cw_clients (js_w st))(source_p \<mapsto> c1)" "cl_name c1 = cl_name src" "cl_status c1 = cl_status src"
    by (auto simp: MyClient_def IsClient_def)
  show ?thesis
  proof (cases "js_w st' = js_w st1")
    case False
    from r g False c1 obtain tp target chp ch mp m where fp: "find_named_person (cw_clients (js_w st1)) (cw_tabs (js_w st1)) (parv ! 1) = Some (Some tp)"
      and f: "find_channel (cw_channels (js_w st1)) (cw_tabs (js_w st1)) (Some (parv ! 2)) = Some (Some chp)" and ch: "cw_channels (js_w st1) chp = Some ch"
      and ms: "find_channel_membership chp source_p (js_w st1) = Some (Some mp)" and m: "cw_members (js_w st1) mp = Some m" "is_chanop m"
      and no: "IsMember tp chp (js_w st1) = Some False" and i: "md_mode (ch_mode ch) AND MODE_INVITEONLY \<noteq> 0"
      and a: "add_invite env chp tp (js_w st1) = Some (js_w st')" by (rule m_invite_run)
    from add_invite_noted [OF a] obtain target' lu where n: "cw_members (js_w st') = cw_members (js_w st1)" "cw_clients (js_w st') tp = Some target'"
      "cl_local target' = Some lu" by blast
    have note1: "invite_noted env chp tp (js_w st1) (js_w st')" by (rule add_invite_effect [OF a False])
    then have noted: "invite_noted env chp tp (js_w st) (js_w st')" using l gi by (simp add: invite_noted_def)
    have "\<not> membership_of chp tp (js_w st1) mp'" for mp' using not_member [OF i1 no ch] .
    then have "\<not> (\<exists>mp'. membership_of chp tp (js_w st) mp')" using l by (simp add: membership_of_def)
    moreover have "ms_client_p m = source_p \<and> ms_chptr m = chp" using find_membership [OF i1 ms] m(1) by (auto simp: membership_of_def)
    moreover have "find_named_person (cw_clients (js_w st)) (cw_tabs (js_w st)) (parv ! 1) = Some (Some tp)"
      using fp l find_named_person_upd [of "cw_clients (js_w st)", OF src(1) cl(2,3)] by (simp add: cl(1))
    moreover have "\<forall>env ch ss. invited_in env chp ch lu ss = Some True" using invite_admitted [OF noted n(2,3)] by blast
    ultimately show ?thesis using f ch i m n l noted
      by (intro conjI disjI2 exI [of _ chp] exI [of _ ch] exI [of _ mp] exI [of _ m] exI [of _ tp] exI [of _ target'] exI [of _ lu]) simp_all
  qed (use l gi in simp)
qed

section \<open>PART always returns\<close>

lemma finish_grace_total:
  assumes "cw_clients (js_w st) cp = Some c" "MyConnect c \<Longrightarrow> cl_local c \<noteq> None"
  shows "\<exists>st'. finish_grace cp st = Some st'"
  using assms by (cases "cl_local c") (auto simp: finish_grace_def flood_endgrace_def MyClient_def)

lemma spambot_total:
  assumes "cw_clients (js_w st) cp = Some c" "cl_local c \<noteq> None"
  shows "\<exists>st'. spambot_check env cp n st = Some st'"
  using assms by (auto simp: spambot_check_def upd_local_def Let_def split: prod.splits option.splits)

lemma finish_grace_keeps:
  assumes "finish_grace cp st = Some st1" "cw_clients (js_w st) q = Some c" "MyConnect c \<Longrightarrow> cl_local c \<noteq> None"
  shows "\<exists>c1. cw_clients (js_w st1) q = Some c1 \<and> same_user c c1 \<and> (MyConnect c1 \<longrightarrow> cl_local c1 \<noteq> None)"
proof -
  have "same_user c c" by (simp add: same_user_def)
  then show ?thesis using assms flood_endgrace_same [of c]
    by (auto simp: finish_grace_def flood_endgrace_def bind_eq_Some_conv split: if_split_asm)
qed

lemma spambot_check_conn:
  assumes "spambot_check env cp n st = Some st'" "cw_clients (js_w st) cp = Some c"
  shows "\<exists>c'. cw_clients (js_w st') cp = Some c' \<and> MyConnect c' = MyConnect c"
  using assms by (auto simp: spambot_check_def upd_local_def Let_def put_out_def MyConnect_def split: prod.split_asm option.split_asm if_split_asm Option.bind_split_asm)

lemma part_one_total:
  assumes inv: "jinv (je_use_except (ce_j env)) U st" and src: "cw_clients (js_w st) cp = Some src" "MyConnect src \<Longrightarrow> cl_local src \<noteq> None"
    and c: "cw_clients (js_w st) client_p = Some c" and f: "find_channel (cw_channels (js_w st)) (cw_tabs (js_w st)) (Some name) = Some (Some chp)"
    and m: "cw_members (js_w st) mp = Some m" "ms_client_p m = cp" "ms_chptr m = chp" and why: "EmptyString reason \<or> is_chanop m \<or> \<not> MyConnect src"
  shows "\<exists>st'. part_one_client env client_p cp name reason st = Some st' \<and> cw_members (js_w st') = (cw_members (js_w st))(mp := None)"
proof -
  let ?ue = "je_use_except (ce_j env)"
  have ok: "cworld_ok (js_w st)" using jinvD(1) [OF inv] by (simp add: chan_inv_def)
  from membership_live [OF ok m(1)] m src(1) obtain ch where live: "IsClient src" and ch: "cw_channels (js_w st) chp = Some ch" by (metis option.inject)
  with jinvD(3) [OF inv src(1)] obtain chans where u: "cl_user src = Some chans" by blast
  have ms: "find_channel_membership chp cp (js_w st) = Some (Some mp)"
    using find_channel_membership_spec [OF ok src(1) live u ch] m by (auto simp: membership_of_def)
  have "\<exists>st1. (if MyConnect src \<and> \<not> IsOper src \<and> \<not> IsExemptSpambot src then spambot_check (ce_j env) cp None st else Some st) = Some st1"
    using spambot_total [OF src(1)] src(2) by auto
  then obtain st1 where s: "(if MyConnect src \<and> \<not> IsOper src \<and> \<not> IsExemptSpambot src then spambot_check (ce_j env) cp None st else Some st) = Some st1" ..
  have i1: "jinv ?ue U st1" using s inv jinv_spambot by (auto split: if_split_asm)
  have mem: "cw_members (js_w st1) = cw_members (js_w st)" using s spambot_members by (auto split: if_split_asm)
  have "\<exists>c1. cw_clients (js_w st1) cp = Some c1 \<and> MyConnect c1 = MyConnect src"
    using s src(1) spambot_check_conn [of "ce_j env" cp None st st1 src] by (auto split: if_split_asm)
  then obtain c1 where c1: "cw_clients (js_w st1) cp = Some c1" "MyConnect c1 = MyConnect src" by blast
  have pr: "\<exists>b. part_reason env cp chp mp m reason st1 = Some (b, st1)" using c1 why by (auto simp: part_reason_def)
  then obtain b where b: "part_reason env cp chp mp m reason st1 = Some (b, st1)" ..
  have ok1: "cworld_ok (js_w st1)" using jinvD(1) [OF i1] by (simp add: chan_inv_def)
  have m1: "cw_members (js_w st1) mp = Some m" using mem m(1) by simp
  from membership_live [OF ok1 m1] m(3) obtain ch1 where ch1: "cw_channels (js_w st1) chp = Some ch1" by metis
  define tail where "tail = '' PART '' @ ch_chname ch1 @ (if b then '' :'' @ the reason else [])"
  define st2 where "st2 = to_servers (ce_j env) (Some (cl_from c)) (Some (ch_chname ch1)) NOCAPS CAP_TS6 ('':'' @ cl_name src @ tail)
     (to_servers (ce_j env) (Some (cl_from c)) (Some (ch_chname ch1)) CAP_TS6 NOCAPS ('':'' @ use_id src @ tail) st1)"
  have w2: "js_w st2 = js_w st1" by (simp add: st2_def to_servers_def put_out_def)
  obtain st3 where st3: "sendto_channel_local ALL_MEMBERS chp ('':'' @ usermask src @ tail) st2 = Some st3" "js_w st3 = js_w st1"
    using sendto_channel_local_total [of ?ue st2 chp ch1] jinvD(1) [OF i1] ch1 w2 by auto
  obtain w where w: "remove_user_from_channel (Some mp) (js_w st1) = Some w" "cw_members w = (cw_members (js_w st1))(mp := None)"
    using remove_user_from_channel_ok [OF ok1 m1] by blast
  have "part_one_client env client_p cp name reason st = Some (st3\<lparr>js_w := w\<rparr>)"
    using src(1) c f ms s m1 b ch1 st3 w(1) by (simp add: part_one_client_def Let_def tail_def st2_def)
  then show ?thesis using w(2) mem by simp
qed

lemma m_part_total:
  assumes inv: "jinv (je_use_except (ce_j env)) U st" and src: "cw_clients (js_w st) source_p = Some src" "MyConnect src \<Longrightarrow> cl_local src \<noteq> None"
    and c: "cw_clients (js_w st) client_p = Some c"
    and parv: "length parv \<ge> 2" "strtok_list (CHR '','') (parv ! 1) = [name]"
    and f: "find_channel (cw_channels (js_w st)) (cw_tabs (js_w st)) (Some name) = Some (Some chp)"
    and m: "cw_members (js_w st) mp = Some m" "ms_client_p m = source_p" "ms_chptr m = chp"
    and why: "length parv = 2 \<or> is_chanop m \<or> \<not> MyConnect src"
  shows "\<exists>st'. m_part env client_p source_p parv st = Some st' \<and> cw_members (js_w st') = (cw_members (js_w st))(mp := None) \<and>
    chan_inv (je_use_except (ce_j env)) (js_w st')"
proof -
  obtain st1 where g: "finish_grace source_p st = Some st1" using finish_grace_total [OF src] by blast
  note l = lists_of_grace [OF g]
  have i1: "jinv (je_use_except (ce_j env)) U st1" using finish_grace_inv [OF g inv] by blast
  obtain c1 where c1: "cw_clients (js_w st1) = (cw_clients (js_w st))(source_p \<mapsto> c1)" "MyConnect c1 = MyConnect src"
    using grace_source [OF g src(1)] by blast
  have s1: "cw_clients (js_w st1) source_p = Some c1" "MyConnect c1 \<Longrightarrow> cl_local c1 \<noteq> None"
    using finish_grace_keeps [OF g src] c1 by auto
  obtain c2 where c2: "cw_clients (js_w st1) client_p = Some c2" using c1(1) c by (cases "client_p = source_p") auto
  define reason where "reason = (if length parv > 2 then Some (take REASONLEN (parv ! 2)) else None)"
  have y: "EmptyString reason \<or> is_chanop m \<or> \<not> MyConnect c1" using why c1(2) by (auto simp: reason_def EmptyString_def)
  obtain st' where st': "part_one_client env client_p source_p name reason st1 = Some st'"
      "cw_members (js_w st') = (cw_members (js_w st1))(mp := None)"
    using part_one_total [OF i1 s1 c2 _ _ m(2,3) y, of name] f m(1) l by auto
  have "m_part env client_p source_p parv st = Some st'"
    using parv g st'(1) by (simp add: m_part_def reason_def del: One_nat_def)
  then show ?thesis using st'(2) l part_one_inv [OF st'(1) i1] jinvD(1) by auto
qed

text \<open>
  C21: PART with the name of a channel the user is in returns and removes exactly that membership,
  for a user who gives no reason, is an operator of the channel or is remote.
\<close>

theorem part_leaves:
  assumes inv: "jinv (je_use_except (ce_j env)) U st" and src: "cw_clients (js_w st) source_p = Some src" "MyConnect src \<Longrightarrow> cl_local src \<noteq> None"
    and c: "cw_clients (js_w st) client_p = Some c"
    and parv: "length parv \<ge> 2" "strtok_list (CHR '','') (parv ! 1) = [name]"
    and f: "find_channel (cw_channels (js_w st)) (cw_tabs (js_w st)) (Some name) = Some (Some chp)"
    and m: "cw_members (js_w st) mp = Some m" "ms_client_p m = source_p" "ms_chptr m = chp"
    and why: "length parv = 2 \<or> is_chanop m \<or> \<not> MyConnect src"
  shows "\<exists>st'. m_part env client_p source_p parv st = Some st' \<and> cw_members (js_w st') = (cw_members (js_w st))(mp := None) \<and>
    chan_inv (je_use_except (ce_j env)) (js_w st')"
  by (rule m_part_total [OF assms])

section \<open>Concrete runs\<close>

text \<open>Two users of ours: bob is the operator of \<^verbatim>\<open>#it\<close>, which is invite-only; al is on no channel.\<close>

definition cmd_al :: Client where
  "cmd_al = sample_user\<lparr>cl_name := ''al'', cl_from := 2\<rparr>"

definition cmd_start :: cworld where
  "cmd_start = sample_start\<lparr>cw_clients := [1 \<mapsto> sample_user, 2 \<mapsto> cmd_al, 0 \<mapsto> sample_me],
     cw_tabs := zero_tabs\<lparr>clientTable := (\<lambda>_. [2, 1])\<rparr>\<rparr>"

definition cmd_created :: cworld where
  "cmd_created = cmd_start\<lparr>cw_channels := [5 \<mapsto> sample_chan], cw_glist := [5],
     cw_tabs := (cw_tabs cmd_start)\<lparr>channelTable := bucket_add (hash_channel ''#it'') 5 (channelTable zero_tabs)\<rparr>\<rparr>"

definition cmd_op :: membership where
  "cmd_op = \<lparr>ms_chptr = 5, ms_client_p = 1, ms_flags = CHFL_CHANOP, ms_ban_serial = 0\<rparr>"

definition cmd_joined :: cworld where
  "cmd_joined = set_client 1 (sample_user\<lparr>cl_user := Some [7]\<rparr>)
     (set_channel 5 (sample_chan\<lparr>ch_members := [7], ch_locmembers := [7]\<rparr>) (cmd_created\<lparr>cw_members := [7 \<mapsto> cmd_op]\<rparr>))"

definition mode_it :: Mode where "mode_it = \<lparr>md_mode = MODE_INVITEONLY OR MODE_TOPICLIMIT, md_limit = 0, md_key = []\<rparr>"

definition cmd_st :: jstate where
  "cmd_st = \<lparr>js_w = set_channel 5 (sample_ch 100 mode_it) cmd_joined, js_next = 10, js_out = []\<rparr>"

definition cmd_env :: cenv where
  "cmd_env = \<lparr>ce_j = sample_je, ce_history = zero_history, ce_quiet_on_ban = True, ce_exit_message_time = 300,
     ce_invite_ops_only = False, ce_topiclen = 160\<rparr>"

lemma cmd_reachable: "reachable chan_init (chan_step ue) cmd_joined"
proof -
  have me: "\<not> IsClient sample_me" "cl_user sample_me = None" "cl_local sample_me = None"
    by (simp_all add: sample_me_def IsClient_def status_defs zero_Client_def)
  have al: "IsClient cmd_al" "MyClient cmd_al" "cl_servptr cmd_al = Some 0" "cl_user cmd_al = Some []"
    using sample_user_local by (simp_all add: cmd_al_def IsClient_def MyClient_def MyConnect_def) (simp_all add: sample_user_def)
  have 0: "chan_init cmd_start"
    using sample_user_local me al
    by (simp add: chan_init_def cmd_start_def sample_start_def zero_tabs_def chans_of_def users_ok_def) (simp add: sample_user_def)
  have 1: "chan_step ue cmd_start cmd_created"
  proof -
    have "get_or_create_channel 5 100 zero_Client (Some ''#it'') (cw_channels cmd_start) (cw_glist cmd_start) (cw_tabs cmd_start) =
      Some (Some (5, True), False, [5 \<mapsto> sample_chan], [5],
        (cw_tabs cmd_start)\<lparr>channelTable := bucket_add (hash_channel ''#it'') 5 (channelTable zero_tabs)\<rparr>)"
      by (simp add: get_or_create_eq cmd_start_def sample_start_def zero_tabs_def chan_request_def CHANNELLEN_def sample_chan_def)
    from chan_step.create [OF _ _ _ this] show ?thesis
      by (simp add: cstring_def NUL_def cmd_start_def sample_start_def cmd_created_def)
  qed
  have 2: "chan_step ue cmd_created cmd_joined"
  proof (rule chan_step.join)
    show "cw_clients cmd_created 1 = Some sample_user" "cl_user sample_user = Some []"
      "cw_channels cmd_created 5 = Some sample_chan" "cw_members cmd_created 7 = None"
      "find_channel_membership 5 1 cmd_created = Some None"
      by (simp_all add: cmd_created_def cmd_start_def sample_start_def find_channel_membership_def sample_user_local)
        (simp_all add: sample_user_def)
    show "IsClient sample_user" by (rule sample_user_local)
    show "add_user_to_channel 7 5 1 CHFL_CHANOP cmd_created = Some cmd_joined"
      using sample_user_local
      by (simp add: add_user_to_channel_def cmd_joined_def cmd_created_def cmd_start_def sample_start_def cmd_op_def Let_def)
        (simp add: sample_user_def sample_chan_def allocate_channel_def zero_Channel_def)
  qed (simp add: CHFL_CHANOP_def CHFL_BANNED_def)
  show ?thesis using 0 1 2 by (blast intro: reachable.intros)
qed

lemma cmd_st_inv: "jinv ue {1} cmd_st"
proof -
  have "chan_inv ue cmd_joined" using chan_runs.inv_reachable [OF cmd_reachable] .
  moreover have "cw_channels cmd_joined 5 = Some (sample_chan\<lparr>ch_members := [7], ch_locmembers := [7]\<rparr>)" by (simp add: cmd_joined_def)
  ultimately have "chan_inv ue (js_w cmd_st)" unfolding cmd_st_def jstate.simps
    by (rule touch_channel_inv) (simp_all add: same_bans_def)
  moreover have "cl_user cmd_al \<noteq> None" "\<not> IsClient sample_me"
    by (simp_all add: cmd_al_def sample_user_def sample_me_def IsClient_def status_defs zero_Client_def)
  ultimately show ?thesis using sample_user_local
    by (auto simp: jinv_def cmd_st_def cmd_joined_def cmd_created_def cmd_start_def sample_start_def sample_chan_def allocate_channel_def
        zero_Channel_def split: if_split_asm)
qed

lemma cmd_st_simps [simp]:
  "cw_clients (js_w cmd_st) = [1 \<mapsto> sample_user\<lparr>cl_user := Some [7]\<rparr>, 2 \<mapsto> cmd_al, 0 \<mapsto> sample_me]"
  "cw_channels (js_w cmd_st) = [5 \<mapsto> sample_ch 100 mode_it]" "cw_members (js_w cmd_st) = [7 \<mapsto> cmd_op]" "cw_me (js_w cmd_st) = 0"
  "clientTable (cw_tabs (js_w cmd_st)) = (\<lambda>_. [2, 1])" "channelTable (cw_tabs (js_w cmd_st)) = bucket_add (hash_channel ''#it'') 5 (\<lambda>_. [])"
  by (auto simp: cmd_st_def cmd_joined_def cmd_created_def cmd_start_def sample_start_def zero_tabs_def)

lemma cmd_op_simps [simp]: "ms_client_p cmd_op = 1" "ms_chptr cmd_op = 5" "is_chanop cmd_op"
  by (simp_all add: cmd_op_def is_chanop_def CHFL_CHANOP_def)

lemma cmd_found: "find_channel (cw_channels (js_w cmd_st)) (cw_tabs (js_w cmd_st)) (Some ''#it'') = Some (Some 5)"
  by (simp add: find_channel_def bucket_add_def)

lemma cmd_part: "\<exists>st. m_part cmd_env 1 1 [''PART'', ''#it''] cmd_st = Some st \<and> cw_members (js_w st) = (cw_members (js_w cmd_st))(7 := None) \<and>
    chan_inv True (js_w st)"
proof -
  have "je_use_except (ce_j cmd_env) = True" by (simp add: cmd_env_def sample_je_def)
  moreover have "strtok_list (CHR '','') ''#it'' = [''#it'']" by code_simp
  ultimately show ?thesis
    using m_part_total [OF cmd_st_inv _ _ _ _ _ cmd_found, of 1 "sample_user\<lparr>cl_user := Some [7]\<rparr>" 1 _ "[''PART'', ''#it'']" 7 cmd_op, where env = cmd_env]
      sample_jst_user(2) by simp
qed

lemma cmd_bob [simp]: "MyClient (sample_user\<lparr>cl_user := Some [7]\<rparr>)" "MyConnect (sample_user\<lparr>cl_user := Some [7]\<rparr>)"
    "\<not> IsServer (sample_user\<lparr>cl_user := Some [7]\<rparr>)" "IsClient (sample_user\<lparr>cl_user := Some [7]\<rparr>)"
  using sample_user_local by (auto simp: MyClient_def IsClient_def IsServer_def status_defs MyConnect_def)

theorem part_leaves_witness:
  "\<exists>st. m_part cmd_env 1 1 [''PART'', ''#it''] cmd_st = Some st \<and> cw_members (js_w st) = (\<lambda>_. None) \<and> chan_inv True (js_w st)"
proof -
  have "je_use_except (ce_j cmd_env) = True" by (simp add: cmd_env_def sample_je_def)
  moreover have "strtok_list (CHR '','') ''#it'' = [''#it'']" by code_simp
  ultimately show ?thesis
    using part_leaves [OF cmd_st_inv _ _ _ _ _ cmd_found, of 1 "sample_user\<lparr>cl_user := Some [7]\<rparr>" 1 _ "[''PART'', ''#it'']" 7 cmd_op, where env = cmd_env]
      sample_jst_user(2) by simp
qed

theorem channel_commands_keep_invariant_witness:
  "\<exists>st. chan_cmd True cmd_st st \<and> cw_members (js_w st) = (\<lambda>_. None) \<and> chan_inv True (js_w st) \<and> alloc_free st"
proof -
  obtain st where st: "m_part cmd_env 1 1 [''PART'', ''#it''] cmd_st = Some st" "cw_members (js_w st) = (\<lambda>_. None)"
    using cmd_part by auto
  have c: "chan_cmd True cmd_st st" using chan_cmd.PART [OF _ st(1)] by (simp add: cmd_env_def sample_je_def)
  then show ?thesis using channel_commands_keep_invariant [OF r_into_rtranclp [of "chan_cmd True"] cmd_st_inv] st(2) by blast
qed

definition cmd_bob1 :: Client where
  "cmd_bob1 = sample_user\<lparr>cl_user := Some [7], cl_flags := FLAGS_MYCONNECT OR FLAGS_FLOODDONE,
     cl_local := Some (zero_LocalUser\<lparr>lu_allow_read := MAX_FLOOD, lu_sent_parsed := 0\<rparr>)\<rparr>"

definition cmd_st1 :: jstate where
  "cmd_st1 = cmd_st\<lparr>js_w := set_client 1 cmd_bob1 (js_w cmd_st)\<rparr>"

lemma cmd_grace: "finish_grace 1 cmd_st = Some cmd_st1"
proof -
  have "\<not> IsFloodDone (sample_user\<lparr>cl_user := Some [7]\<rparr>)"
    by (simp add: IsFloodDone_def sample_user_def FLAGS_MYCONNECT_def FLAGS_FLOODDONE_def)
  moreover have "flood_endgrace (sample_user\<lparr>cl_user := Some [7]\<rparr>) = Some cmd_bob1" by (simp add: flood_endgrace_def cmd_bob1_def sample_user_def)
  ultimately show ?thesis using sample_user_local by (simp add: finish_grace_def cmd_st1_def)
qed

lemma cmd_st1_simps [simp]:
  "cw_clients (js_w cmd_st1) = [1 \<mapsto> cmd_bob1, 2 \<mapsto> cmd_al, 0 \<mapsto> sample_me]"
  "cw_channels (js_w cmd_st1) = [5 \<mapsto> sample_ch 100 mode_it]" "cw_members (js_w cmd_st1) = [7 \<mapsto> cmd_op]" "cw_me (js_w cmd_st1) = 0"
  "clientTable (cw_tabs (js_w cmd_st1)) = (\<lambda>_. [2, 1])" "channelTable (cw_tabs (js_w cmd_st1)) = bucket_add (hash_channel ''#it'') 5 (\<lambda>_. [])"
  by (auto simp: cmd_st1_def)

lemma cmd_bob1_simps [simp]: "MyClient cmd_bob1" "MyConnect cmd_bob1" "\<not> IsServer cmd_bob1" "IsClient cmd_bob1" "\<not> IsIOError cmd_bob1"
  "\<not> IsService cmd_bob1" "cl_user cmd_bob1 = Some [7]" "cl_name cmd_bob1 = ''bob''"
  by (simp_all add: cmd_bob1_def sample_user_def MyClient_def MyConnect_def IsServer_def IsClient_def IsIOError_def IsService_def status_defs
      FLAGS_MYCONNECT_def FLAGS_FLOODDONE_def FLAGS_IOERROR_def zero_Client_def)

lemma cmd_found1: "find_channel (cw_channels (js_w cmd_st1)) (cw_tabs (js_w cmd_st1)) (Some ''#it'') = Some (Some 5)"
  by (simp add: find_channel_def bucket_add_def)

lemma cmd_member1: "find_channel_membership 5 1 (js_w cmd_st1) = Some (Some 7)" "me_client cmd_st1 = Some sample_me"
  "local_targets ALL_MEMBERS (set_channel 5 ch (js_w cmd_st1)) [7] = Some [1]" "local_targets ALL_MEMBERS (js_w cmd_st1) [7] = Some [1]"
  by (simp_all add: find_channel_membership_def me_client_def ALL_MEMBERS_def CHFL_PEON_def)

theorem topic_authorised_witness:
  "\<exists>st. m_topic cmd_env 1 1 [''TOPIC'', ''#it'', ''ciao''] cmd_st = Some st \<and> cw_channels (js_w st) \<noteq> cw_channels (js_w cmd_st) \<and>
    cw_members (js_w st) = cw_members (js_w cmd_st)"
proof -
  have u: "length (usermask cmd_bob1) < USERHOST_REPLYLEN"
    by (simp add: usermask_def USERHOST_REPLYLEN_def) (simp add: cmd_bob1_def sample_user_def NICKLEN_def USERLEN_def HOSTLEN_def)
  obtain ch where ch: "set_channel_topic (ce_topiclen cmd_env) (sample_ch 100 mode_it) ''ciao'' (usermask cmd_bob1) (je_now (ce_j cmd_env)) = Some ch"
      "ch_topic ch \<noteq> None" "ch_locmembers ch = [7]" "ch_topic sample_chan = None"
    by (simp add: set_channel_topic_def allocate_topic_def sample_chan_def allocate_channel_def zero_Channel_def)
  have "\<exists>st. set_topic cmd_env 1 cmd_bob1 5 ''ciao'' cmd_st1 = Some st \<and> cw_channels (js_w st) = [5 \<mapsto> ch]"
    using ch(1,3) u cmd_member1(3) by (simp add: set_topic_def Let_def sendto_channel_local_def to_servers_def put_out_def)
  then obtain st where st: "set_topic cmd_env 1 cmd_bob1 5 ''ciao'' cmd_st1 = Some st" "cw_channels (js_w st) = [5 \<mapsto> ch]" by blast
  have r: "m_topic cmd_env 1 1 [''TOPIC'', ''#it'', ''ciao''] cmd_st = Some st"
    using st(1) cmd_found1 cmd_member1 cmd_grace sample_name(1) by (simp add: m_topic_def)
  have "ch \<noteq> sample_ch 100 mode_it" using ch(2,4) by auto
  then have "cw_channels (js_w st) \<noteq> cw_channels (js_w cmd_st)" using st(2) by (simp add: fun_eq_iff)
  then show ?thesis using topic_authorised [OF cmd_st_inv r] r by blast
qed

lemma cmd_names: "irccmp ''al'' ''al'' = 0" "irccmp ''bob'' ''al'' \<noteq> 0" "irccmp ''bob'' ''bob'' = 0"
  by code_simp+

lemma cmd_al_simps [simp]: "MyConnect cmd_al" "IsClient cmd_al" "cl_name cmd_al = ''al''" "cl_from cmd_al = 2" "cl_user cmd_al = Some []"
  "cl_local cmd_al = Some zero_LocalUser" "\<not> IsIOError cmd_al" "cl_away cmd_al = None"
  by (simp_all add: cmd_al_def sample_user_def MyConnect_def IsClient_def IsIOError_def zero_Client_def FLAGS_MYCONNECT_def FLAGS_IOERROR_def)

lemma cmd_persons: "find_named_person (cw_clients (js_w cmd_st1)) (cw_tabs (js_w cmd_st1)) ''al'' = Some (Some 2)"
  "find_named_person (cw_clients (js_w cmd_st1)) (cw_tabs (js_w cmd_st1)) ''bob'' = Some (Some 1)"
  by (simp_all add: find_named_person_def find_named_client_def EmptyString_def cmd_names)

theorem kick_authorised_witness:
  "\<exists>st. m_kick cmd_env 1 1 [''KICK'', ''#it'', ''bob''] cmd_st = Some st \<and> cw_members (js_w st) = (\<lambda>_. None) \<and>
    kick_allowed 1 ''#it'' (js_w cmd_st) 7"
proof -
  have ok: "cworld_ok (js_w cmd_st1)" using finish_grace_inv [OF cmd_grace cmd_st_inv] jinvD(1) by (auto simp: chan_inv_def)
  obtain w where w: "remove_user_from_channel (Some 7) (js_w cmd_st1) = Some w" "cw_members w = (\<lambda>_. None)"
    using remove_user_from_channel_ok [OF ok, of 7 cmd_op] by auto
  have "\<exists>st. kick_user cmd_env 1 cmd_bob1 cmd_bob1 5 7 ''#it'' (take REASONLEN ''bob'') cmd_st1 = Some st \<and> js_w st = w"
    using w(1) cmd_member1(4) by (simp add: kick_user_def sendto_channel_local_def Let_def to_servers_def put_out_def)
  then obtain st where st: "kick_user cmd_env 1 cmd_bob1 cmd_bob1 5 7 ''#it'' (take REASONLEN ''bob'') cmd_st1 = Some st" "js_w st = w" by blast
  have "find_chasing (cw_clients (js_w cmd_st1)) (cw_tabs (js_w cmd_st1)) (ce_history cmd_env) (je_now (ce_j cmd_env)) cmd_bob1 ''bob'' = Some (Some 1, False, False)"
    using cmd_persons(2) by (simp add: find_chasing_def)
  then have k: "kick_target cmd_env 1 cmd_bob1 5 False ''#it'' ''bob'' None cmd_st1 = Some st"
    using st(1) cmd_member1 by (simp add: kick_target_def EmptyString_def)
  have r: "m_kick cmd_env 1 1 [''KICK'', ''#it'', ''bob''] cmd_st = Some st"
    using k cmd_found1 cmd_member1 cmd_grace by (simp add: m_kick_def has_op_def)
  have "cw_members (js_w st) \<noteq> cw_members (js_w cmd_st)" using w(2) st(2) by (simp add: fun_eq_iff)
  then obtain mp where mp: "kick_allowed 1 (takeWhile (\<lambda>c. c \<noteq> CHR '','') ([''KICK'', ''#it'', ''bob''] ! 1)) (js_w cmd_st) mp"
    using kick_authorised [OF cmd_st_inv _ cmd_bob(1) r] by auto
  then have "mp = 7" by (auto simp: kick_allowed_def split: if_split_asm)
  then show ?thesis using mp r w(2) st(2) by simp
qed

theorem invite_authorised_witness:
  "\<exists>st. m_invite cmd_env 1 1 [''INVITE'', ''al'', ''#it''] cmd_st = Some st \<and> cw_members (js_w st) = cw_members (js_w cmd_st) \<and>
    (\<exists>chp tp. invite_noted cmd_env chp tp (js_w cmd_st) (js_w st))"
proof -
  have i: "lu_invited zero_LocalUser = []" "je_max_chans_per_user (ce_j cmd_env) = 10" "ch_invites (sample_ch 100 mode_it) = []"
    by (simp_all add: zero_LocalUser_def cmd_env_def sample_je_def sample_chan_def allocate_channel_def zero_Channel_def)
  have "\<exists>w. add_invite cmd_env 5 2 (js_w cmd_st1) = Some w \<and> cw_channels w = [5 \<mapsto> (sample_ch 100 mode_it)\<lparr>ch_invites := [2]\<rparr>]"
    using i by (simp add: add_invite_def)
  then obtain w where w: "add_invite cmd_env 5 2 (js_w cmd_st1) = Some w" "cw_channels w = [5 \<mapsto> (sample_ch 100 mode_it)\<lparr>ch_invites := [2]\<rparr>]" by blast
  have "\<exists>st. do_invite cmd_env 1 cmd_bob1 2 cmd_al 5 ''#it'' True cmd_st1 = Some st \<and> js_w st = w"
    using w(1) cmd_member1(2) by (simp add: do_invite_def sendto_one_def to_source_def put_out_def Let_def)
  then obtain st where st: "do_invite cmd_env 1 cmd_bob1 2 cmd_al 5 ''#it'' True cmd_st1 = Some st" "js_w st = w" by blast
  have no: "IsMember 2 5 (js_w cmd_st1) = Some False" by (simp add: IsMember_def find_channel_membership_def)
  have md: "md_mode mode_it AND MODE_INVITEONLY \<noteq> 0" by (simp add: mode_it_def MODE_INVITEONLY_def MODE_TOPICLIMIT_def)
  have r: "m_invite cmd_env 1 1 [''INVITE'', ''al'', ''#it''] cmd_st = Some st"
    using st(1) cmd_found1 cmd_member1 cmd_grace cmd_persons(1) sample_name no md by (simp add: m_invite_def has_op_def)
  have "ch_invites ((sample_ch 100 mode_it)\<lparr>ch_invites := [2]\<rparr>) \<noteq> ch_invites (sample_ch 100 mode_it)" using i(3) by simp
  then have "(sample_ch 100 mode_it)\<lparr>ch_invites := [2]\<rparr> \<noteq> sample_ch 100 mode_it" by metis
  then have ne: "cw_channels (js_w st) \<noteq> cw_channels (js_w cmd_st)"
    unfolding st(2) w(2) cmd_st_simps by (metis fun_upd_same option.inject)
  have "cw_clients (js_w cmd_st) 1 = Some (sample_user\<lparr>cl_user := Some [7]\<rparr>)" by simp
  from invite_authorised [OF cmd_st_inv this cmd_bob(1) r] ne r show ?thesis by metis
qed

end
