(* ===== verification/Packet.thy ===== *)
theory Packet
  imports Parse Linebuf Chan_Mode
begin

text \<open>
  \<^verbatim>\<open>packet.c\<close>: the bytes read from a connection go into its receive queue (\<open>Linebuf\<close>), and the lines of the queue are parsed
  (\<open>Parse\<close>) as fast as the flood control allows.
\<close>

section \<open>State\<close>

definition FLAGS_EXEMPTFLOOD :: "32 word" where "FLAGS_EXEMPTFLOOD = 0x00020000"
definition FLAGS_PINGSENT :: "32 word" where "FLAGS_PINGSENT = 0x00000001"
definition IsExemptFlood :: "Client \<Rightarrow> bool" where "IsExemptFlood c \<longleftrightarrow> cl_flags c AND FLAGS_EXEMPTFLOOD \<noteq> 0"
definition READBUF_SIZE :: nat where "READBUF_SIZE = 16384"

text \<open>What packet.c asks of other parts and does not look at again: the end of a client, and to be called for more input.\<close>

datatype pevent = Ev_error_exit ptr int | Ev_exit ptr string | Ev_setselect ptr

record pstate =
  pk_w :: pworld
  pk_recvq :: "ptr \<Rightarrow> buf_head"  \<comment> \<open>\<^verbatim>\<open>localClient->buf_recvq\<close>\<close>
  pk_lines :: lstate
  pk_readBuf :: string
  pk_events :: "pevent list"

record penv =
  pe_run :: handler_call
  pe_fresh :: "lstore \<Rightarrow> lptr"
  pe_no_oper_flood :: bool
  pe_post_registration_delay :: int
  pe_client_flood :: int

definition pclient :: "ptr \<Rightarrow> pstate \<Rightarrow> Client option" where
  "pclient p st = pw_clients (pk_w st) p"

definition set_lu :: "ptr \<Rightarrow> (LocalUser \<Rightarrow> LocalUser) \<Rightarrow> pstate \<Rightarrow> pstate option" where
  "set_lu p f st = do {
     c \<leftarrow> pclient p st;
     lu \<leftarrow> cl_local c;
     Some (st\<lparr>pk_w := (pk_w st)\<lparr>pw_clients := (pw_clients (pk_w st))(p \<mapsto> c\<lparr>cl_local := Some (f lu)\<rparr>)\<rparr>\<rparr>)
   }"

text \<open>One line of the queue is copied into \<^verbatim>\<open>readBuf\<close>, with a terminator; without a complete line nothing is written.\<close>

definition get_line :: "ptr \<Rightarrow> pstate \<Rightarrow> (nat \<times> pstate) option" where
  "get_line p st = do {
     (bytes, n, h, ls) \<leftarrow> rb_linebuf_get (pk_recvq st p) READBUF_SIZE False False (pk_lines st);
     Some (n, st\<lparr>pk_recvq := (pk_recvq st)(p := h), pk_lines := ls,
        pk_readBuf := (if bh_list h = bh_list (pk_recvq st p) then pk_readBuf st else bytes @ NUL # drop (Suc n) (pk_readBuf st))\<rparr>)
   }"

section \<open>Handing lines to the parser\<close>

definition receive :: "nat \<Rightarrow> LocalUser \<Rightarrow> LocalUser" where
  "receive n lu = lu\<lparr>lu_receiveM := lu_receiveM lu + 1, lu_receiveB := lu_receiveB lu + of_nat n\<rparr>"

definition client_dopacket :: "penv \<Rightarrow> ptr \<Rightarrow> nat \<Rightarrow> pstate \<Rightarrow> pstate option" where
  "client_dopacket env client_p len st = do {
     c \<leftarrow> pclient client_p st;
     if IsAnyDead c then Some st
     else do {
       me_lu \<leftarrow> cl_local (pw_me (pk_w st));
       let st = st\<lparr>pk_w := (pk_w st)\<lparr>pw_me := (pw_me (pk_w st))\<lparr>cl_local := Some (receive len me_lu)\<rparr>\<rparr>\<rparr>;
       st \<leftarrow> set_lu client_p (receive len) st;
       let line = takeWhile (\<lambda>c. c \<noteq> NUL) (pk_readBuf st);
       w \<leftarrow> parse (pe_run env) (drop (Suc (length line)) (pk_readBuf st)) client_p line (pk_w st);
       Some (st\<lparr>pk_w := w\<rparr>)
     }
   }"

definition count_parsed :: "LocalUser \<Rightarrow> LocalUser" where
  "count_parsed lu = lu\<lparr>lu_sent_parsed := lu_sent_parsed lu + 1\<rparr>"

section \<open>The queue of a client\<close>

text \<open>A connection that is not registered yet.  The first component says that the function returns at once: the client is dead.\<close>

fun unknown_loop :: "nat \<Rightarrow> penv \<Rightarrow> ptr \<Rightarrow> pstate \<Rightarrow> (bool \<times> pstate) option" where
  "unknown_loop 0 env client_p st = None"
| "unknown_loop (Suc k) env client_p st = do {
     c \<leftarrow> pclient client_p st;
     lu \<leftarrow> cl_local c;
     if sint (lu_sent_parsed lu) \<ge> uint (lu_allow_read lu) then Some (False, st)
     else do {
       (dolen, st) \<leftarrow> get_line client_p st;
       if dolen = 0 \<or> IsDead c then Some (False, st)
       else do {
         st \<leftarrow> client_dopacket env client_p dolen st;
         st \<leftarrow> set_lu client_p count_parsed st;
         c \<leftarrow> pclient client_p st;
         if IsAnyDead c then Some (True, st)
         else if \<not> IsUnknown c then do {
           st \<leftarrow> set_lu client_p (\<lambda>lu. lu\<lparr>lu_sent_parsed := 0\<rparr>) st;
           Some (False, st)
         }
         else unknown_loop k env client_p st
       }
     }
   }"

fun server_loop :: "nat \<Rightarrow> penv \<Rightarrow> ptr \<Rightarrow> pstate \<Rightarrow> pstate option" where
  "server_loop 0 env client_p st = None"
| "server_loop (Suc k) env client_p st = do {
     c \<leftarrow> pclient client_p st;
     if IsAnyDead c then Some st
     else do {
       (dolen, st) \<leftarrow> get_line client_p st;
       if dolen = 0 then Some st
       else do {
         st \<leftarrow> client_dopacket env client_p dolen st;
         server_loop k env client_p st
       }
     }
   }"

definition flood_limit :: "bool \<Rightarrow> LocalUser \<Rightarrow> int" where
  "flood_limit checkflood lu = (if checkflood then uint (lu_allow_read lu) else 4 * uint (lu_allow_read lu))"

fun client_loop :: "nat \<Rightarrow> penv \<Rightarrow> bool \<Rightarrow> ptr \<Rightarrow> bool \<Rightarrow> pstate \<Rightarrow> pstate option" where
  "client_loop 0 env checkflood client_p tested st = None"
| "client_loop (Suc k) env checkflood client_p tested st = do {
     c \<leftarrow> pclient client_p st;
     lu \<leftarrow> cl_local c;
     if \<not> tested \<and> lu_firsttime lu + pe_post_registration_delay env > pw_now (pk_w st) then Some st
     else if sint (lu_sent_parsed lu) \<ge> flood_limit checkflood lu then Some st
     else do {
       (dolen, st) \<leftarrow> get_line client_p st;
       if dolen = 0 then Some st
       else do {
         st \<leftarrow> client_dopacket env client_p dolen st;
         c \<leftarrow> pclient client_p st;
         if IsAnyDead c then Some st
         else do {
           st \<leftarrow> set_lu client_p count_parsed st;
           client_loop k env checkflood client_p True st
         }
       }
     }
   }"

text \<open>Every turn takes a line out of the queue, so the number of lines there are turns enough.\<close>

definition turns :: "ptr \<Rightarrow> pstate \<Rightarrow> nat" where
  "turns p st = Suc (length (bh_list (pk_recvq st p)))"

definition parse_client_queued :: "penv \<Rightarrow> ptr \<Rightarrow> pstate \<Rightarrow> pstate option" where
  "parse_client_queued env client_p st = do {
     c \<leftarrow> pclient client_p st;
     if IsAnyDead c then Some st
     else do {
       (dead, st) \<leftarrow> (if IsUnknown c then unknown_loop (turns client_p st) env client_p st else Some (False, st));
       if dead then Some st
       else do {
         c \<leftarrow> pclient client_p st;
         if IsAnyServer c \<or> IsExemptFlood c then server_loop (turns client_p st) env client_p st
         else if IsClient c
         then client_loop (turns client_p st) env (\<not> (IsOper c \<and> pe_no_oper_flood env)) client_p False st
         else Some st
       }
     }
   }"

section \<open>Every second\<close>

definition less_read :: "LocalUser \<Rightarrow> LocalUser" where
  "less_read lu = lu\<lparr>lu_actually_read := (if sint (lu_actually_read lu - 1) < 0 then 0 else lu_actually_read lu - 1)\<rparr>"

definition forgive :: "16 word \<Rightarrow> LocalUser \<Rightarrow> LocalUser" where
  "forgive n lu = lu\<lparr>lu_sent_parsed := (if sint (lu_sent_parsed lu - n) < 0 then 0 else lu_sent_parsed lu - n)\<rparr>"

text \<open>The body of the loop over the registered connections, and of the one over the others.\<close>

definition recalc_client :: "penv \<Rightarrow> ptr \<Rightarrow> pstate \<Rightarrow> pstate option" where
  "recalc_client env client_p st = do {
     c \<leftarrow> pclient client_p st;
     if IsMe c \<or> cl_local c = None then Some st
     else do {
       st \<leftarrow> set_lu client_p (if IsFloodDone c then forgive 2 else (\<lambda>lu. lu\<lparr>lu_sent_parsed := 0\<rparr>)) st;
       st \<leftarrow> set_lu client_p less_read st;
       st \<leftarrow> parse_client_queued env client_p st;
       c \<leftarrow> pclient client_p st;
       if IsAnyDead c then Some st
       else do {
         lu \<leftarrow> cl_local c;
         if \<not> IsFloodDone c \<and> lu_firsttime lu + 30 < pw_now (pk_w st) then do {
           c \<leftarrow> flood_endgrace c;
           Some (st\<lparr>pk_w := (pk_w st)\<lparr>pw_clients := (pw_clients (pk_w st))(client_p \<mapsto> c)\<rparr>\<rparr>)
         }
         else Some st
       }
     }
   }"

definition recalc_unknown :: "penv \<Rightarrow> ptr \<Rightarrow> pstate \<Rightarrow> pstate option" where
  "recalc_unknown env client_p st = do {
     c \<leftarrow> pclient client_p st;
     if cl_local c = None then Some st
     else do {
       st \<leftarrow> set_lu client_p (forgive 1) st;
       st \<leftarrow> set_lu client_p less_read st;
       parse_client_queued env client_p st
     }
   }"

fun recalc_all :: "(ptr \<Rightarrow> pstate \<Rightarrow> pstate option) \<Rightarrow> ptr list \<Rightarrow> pstate \<Rightarrow> pstate option" where
  "recalc_all f [] st = Some st"
| "recalc_all f (p # ps) st = do { st \<leftarrow> f p st; recalc_all f ps st }"

definition flood_recalc :: "penv \<Rightarrow> ptr list \<Rightarrow> ptr list \<Rightarrow> pstate \<Rightarrow> pstate option" where
  "flood_recalc env lclient_list unknown_list st = do {
     st \<leftarrow> recalc_all (recalc_client env) lclient_list st;
     recalc_all (recalc_unknown env) unknown_list st
   }"

section \<open>Reading\<close>

text \<open>The answer of \<^verbatim>\<open>rb_read\<close>: an error, which may be one to ignore, or the bytes, none at the end of the stream.\<close>

datatype read_result = Read_error bool int | Read_bytes string

text \<open>
  One turn of the loop.  \<open>binary\<close>, once set, stays set; the first component of the result is its value when there is to be another
  turn, after a read that filled the buffer.
\<close>

definition read_one :: "penv \<Rightarrow> ptr \<Rightarrow> bool \<Rightarrow> read_result \<Rightarrow> pstate \<Rightarrow> (bool option \<times> pstate) option" where
  "read_one env client_p binary r st = do {
     c \<leftarrow> pclient client_p st;
     if IsAnyDead c then Some (None, st)
     else case r of
       Read_error ignore n \<Rightarrow>
         Some (None, st\<lparr>pk_events := pk_events st @ [if ignore then Ev_setselect client_p else Ev_error_exit client_p n]\<rparr>)
     | Read_bytes bytes \<Rightarrow>
         if bytes = [] then Some (None, st\<lparr>pk_events := pk_events st @ [Ev_error_exit client_p 0]\<rparr>)
         else if length bytes > READBUF_SIZE then None
         else do {
           let st = st\<lparr>pk_readBuf := bytes @ drop (length bytes) (pk_readBuf st)\<rparr>;
           st \<leftarrow> set_lu client_p (\<lambda>lu. lu\<lparr>lu_lasttime := max (lu_lasttime lu) (pw_now (pk_w st))\<rparr>) st;
           c \<leftarrow> pclient client_p st;
           let c = c\<lparr>cl_flags := cl_flags c AND NOT FLAGS_PINGSENT\<rparr>;
           let st = st\<lparr>pk_w := (pk_w st)\<lparr>pw_clients := (pw_clients (pk_w st))(client_p \<mapsto> c)\<rparr>\<rparr>;
           let binary = (binary \<or> IsHandshake c \<or> IsUnknown c);
           (n, h, ls) \<leftarrow> rb_linebuf_parse (pe_fresh env) (pk_recvq st client_p) bytes binary (pk_lines st);
           let st = st\<lparr>pk_recvq := (pk_recvq st)(client_p := h), pk_lines := ls\<rparr>;
           st \<leftarrow> set_lu client_p (\<lambda>lu. lu\<lparr>lu_actually_read := lu_actually_read lu + of_int n\<rparr>) st;
           st \<leftarrow> parse_client_queued env client_p st;
           c \<leftarrow> pclient client_p st;
           if IsAnyDead c then Some (None, st)
           else if \<not> IsAnyServer c \<and> bh_alloclen (pk_recvq st client_p) > pe_client_flood env \<and> \<not> (pe_no_oper_flood env \<and> IsOper c)
           then Some (None, st\<lparr>pk_events := pk_events st @ [Ev_exit client_p ''Excess Flood'']\<rparr>)
           else if length bytes < READBUF_SIZE
           then Some (None, st\<lparr>pk_events := pk_events st @ [Ev_setselect client_p]\<rparr>)
           else Some (Some binary, st)
         }
   }"

text \<open>The loop over the answers of \<^verbatim>\<open>rb_read\<close>, one for every call.\<close>

fun read_loop :: "penv \<Rightarrow> ptr \<Rightarrow> bool \<Rightarrow> read_result list \<Rightarrow> pstate \<Rightarrow> pstate option" where
  "read_loop env client_p binary [] st = None"
| "read_loop env client_p binary (r # rs) st = do {
     (more, st) \<leftarrow> read_one env client_p binary r st;
     case more of None \<Rightarrow> Some st | Some binary \<Rightarrow> read_loop env client_p binary rs st
   }"

definition read_packet :: "penv \<Rightarrow> ptr \<Rightarrow> read_result list \<Rightarrow> pstate \<Rightarrow> pstate option" where
  "read_packet env client_p rs st = read_loop env client_p False rs st"

section \<open>What a parsed line changes\<close>

definition pframe :: "pworld \<Rightarrow> pworld \<Rightarrow> bool" where
  "pframe w w' \<longleftrightarrow> pw_clients w' = pw_clients w \<and> pw_tabs w' = pw_tabs w \<and> pw_channels w' = pw_channels w \<and> pw_me w' = pw_me w \<and>
     pw_cmds w' = pw_cmds w \<and> pw_now w' = pw_now w \<and> (\<forall>p. map_option m_handlers (pw_msgs w' p) = map_option m_handlers (pw_msgs w p))"

lemma pframe_refl [simp]: "pframe w w" by (simp add: pframe_def)

lemma pframe_trans: "pframe w w1 \<Longrightarrow> pframe w1 w2 \<Longrightarrow> pframe w w2" by (simp add: pframe_def)

lemma pframe_emit [simp]: "pframe w (emit es w') = pframe w w'" by (simp add: pframe_def emit_def)

lemma pframe_counters [simp]: "pframe w (w'\<lparr>pw_is_unpf := x1\<rparr>) = pframe w w'" "pframe w (w'\<lparr>pw_is_wrdi := x2\<rparr>) = pframe w w'"
  "pframe w (w'\<lparr>pw_is_empt := x3\<rparr>) = pframe w w'" "pframe w (w'\<lparr>pw_is_num := x4\<rparr>) = pframe w w'" "pframe w (w'\<lparr>pw_is_unco := x5\<rparr>) = pframe w w'"
  by (simp_all add: pframe_def)

lemma pframe_msg: "pw_msgs w p = Some m \<Longrightarrow> m_handlers m' = m_handlers m \<Longrightarrow> pframe w (w\<lparr>pw_msgs := (pw_msgs w)(p \<mapsto> m')\<rparr>)"
  by (simp add: pframe_def)

text \<open>A line changes counters and output, or it runs one handler.\<close>

definition ran :: "handler_call \<Rightarrow> ptr \<Rightarrow> pworld \<Rightarrow> pworld \<Rightarrow> bool" where
  "ran run p w w' \<longleftrightarrow> (\<exists>h from i hpara cmd w1. pframe w w1 \<and> uncork_check p cmd (run h p from i hpara w1) = Some w')"

lemma ranI: "uncork_check p cmd (run h p from i hpara w1) = Some w' \<Longrightarrow> pframe w w1 \<Longrightarrow> ran run p w w'"
  unfolding ran_def by blast

lemma ran_frame: "pframe w w1 \<Longrightarrow> ran run p w1 w' \<Longrightarrow> ran run p w w'"
  unfolding ran_def by (blast intro: pframe_trans)

lemma handle_command_frame:
  assumes r: "handle_command run mp p from i hpara w = Some (r, w')"
  shows "pframe w w' \<or> ran run p w w'"
proof -
  obtain c where c: "pw_clients w p = Some c" using r by (auto simp: handle_command_def split: Option.bind_split_asm)
  show ?thesis
  proof (cases "IsAnyDead c")
    case False
    from r c False obtain m where m: "pw_msgs w mp = Some m" by (auto simp: handle_command_def split: Option.bind_split_asm)
    define m1 where "m1 = (if IsServer c then m\<lparr>m_rcount := m_rcount m + 1\<rparr> else m)"
    define m2 where "m2 = m1\<lparr>m_count := m_count m1 + 1\<rparr>"
    define w1 where "w1 = w\<lparr>pw_msgs := (pw_msgs w)(mp \<mapsto> m2)\<rparr>"
    have f: "pframe w w1" unfolding w1_def by (rule pframe_msg [OF m]) (simp add: m1_def m2_def)
    show ?thesis
      using r unfolding handle_command_def Let_def c m Option.bind.simps m1_def [symmetric]
      unfolding m2_def [symmetric] w1_def [symmetric] if_not_P [OF False]
      using f by (auto split: Option.bind_split_asm if_split_asm simp del: not_None_eq intro: ranI)
  qed (use r c in \<open>simp add: handle_command_def\<close>)
qed

lemma do_numeric_frame: "do_numeric num p q ps w = Some w' \<Longrightarrow> pframe w w'"
  unfolding do_numeric_def by (auto simp: Let_def split: Option.bind_split_asm option.split_asm if_split_asm)

lemma remove_unknown_frame: "remove_unknown p s l w = Some w' \<Longrightarrow> pframe w w'"
  unfolding remove_unknown_def by (auto split: Option.bind_split_asm if_split_asm)

lemma parse_command_frame:
  assumes r: "parse_command run mem p q ch w = Some w'"
  shows "pframe w w' \<or> ran run p w w'"
proof -
  obtain f where f: "pw_clients w q = Some f" using r by (auto simp: parse_command_def split: Option.bind_split_asm)
  consider "ch = []" | "ch \<noteq> []" "is_numeric mem ch" | "ch \<noteq> []" "\<not> is_numeric mem ch" by blast
  then show ?thesis
  proof cases
    case 2
    then show ?thesis using r f do_numeric_frame [of "take 3 ch" p q _ "w\<lparr>pw_is_num := pw_is_num w + 1\<rparr>" w'] pframe_trans [of w "w\<lparr>pw_is_num := pw_is_num w + 1\<rparr>" w']
      by (auto simp: parse_command_def)
  next
    case 3
    define cs where "cs = (case strchr_split CHR '' '' ch of None \<Rightarrow> (ch, None) | Some (a, b) \<Rightarrow> (a, Some b))"
    obtain cmd s where cs1: "cs = (cmd, s)" by force
    note r1 = r [unfolded parse_command_def f Option.bind.simps if_not_P [OF 3(1)] if_not_P [OF 3(2)] Let_def cs_def [symmetric] cs1 prod.case]
    show ?thesis
    proof (cases "hash_parse (pw_cmds w) cmd")
      case None
      then show ?thesis using r1 by (auto split: if_split_asm)
    next
      case (Some mp)
      then obtain m where m: "pw_msgs w mp = Some m" using r1 by (auto split: Option.bind_split_asm)
      show ?thesis
      proof (cases "m_cmd m")
        case None
        then show ?thesis using r1 Some m by (auto split: if_split_asm)
      next
        case (Some c)
        let ?m = "m\<lparr>m_bytes := m_bytes m + of_nat (case s of None \<Rightarrow> length cmd | Some b \<Rightarrow> length b)\<rparr>"
        let ?w = "w\<lparr>pw_msgs := (pw_msgs w)(mp \<mapsto> ?m)\<rparr>"
        have fr: "pframe w ?w" by (rule pframe_msg [OF m]) simp
        from r1 \<open>hash_parse (pw_cmds w) cmd = Some mp\<close> m Some obtain rr ii hp where
          "handle_command run mp p q ii hp ?w = Some (rr, w')"
          by (auto split: Option.bind_split_asm)
        from handle_command_frame [OF this] show ?thesis using pframe_trans [OF fr] ran_frame [OF fr] by blast
      qed
    qed
  qed (use r f in \<open>auto simp: parse_command_def\<close>)
qed

lemma parse_frame:
  assumes r: "parse run mem p s w = Some w'"
  shows "pframe w w' \<or> ran run p w w'"
proof -
  obtain c where c: "pw_clients w p = Some c" using r by (auto simp: parse_def split: Option.bind_split_asm)
  obtain a b where ab: "split_prefix (skip_spaces s) = (a, b)" by force
  have u: "pframe w (w\<lparr>pw_is_unpf := pw_is_unpf w + 1\<rparr>)" "pframe w (w\<lparr>pw_is_wrdi := pw_is_wrdi w + 1\<rparr>)" by simp_all
  show ?thesis using r c ab unfolding parse_def
    by (auto split: option.split_asm if_split_asm Option.bind_split_asm dest!: cancel_clients_keeps
        dest: parse_command_frame pframe_trans [OF u(1) remove_unknown_frame])
qed

section \<open>The rate of lines\<close>

text \<open>An ordinary user after the grace: what the handlers leave of the counters of its flood control.\<close>

definition settled :: "Client \<Rightarrow> bool" where
  "settled c \<longleftrightarrow> IsClient c \<and> IsFloodDone c \<and> \<not> IsExemptFlood c"

definition flood_counters :: "LocalUser \<Rightarrow> 16 word \<times> 16 word \<times> 32 word" where
  "flood_counters lu = (lu_sent_parsed lu, lu_allow_read lu, lu_receiveM lu)"

definition same_flood :: "Client \<Rightarrow> Client \<Rightarrow> bool" where
  "same_flood c c' \<longleftrightarrow> settled c' = settled c \<and> (IsAnyDead c \<longrightarrow> IsAnyDead c') \<and>
     map_option flood_counters (cl_local c') = map_option flood_counters (cl_local c)"

definition handler_settled :: "handler_call \<Rightarrow> ptr \<Rightarrow> bool" where
  "handler_settled run p \<longleftrightarrow> (\<forall>h from i hpara w c. pw_clients w p = Some c \<and> settled c \<longrightarrow>
     (\<exists>c'. pw_clients (run h p from i hpara w) p = Some c' \<and> same_flood c c'))"

lemma same_flood_refl [simp]: "same_flood c c" by (simp add: same_flood_def)

lemma same_flood_trans: "same_flood a b \<Longrightarrow> same_flood b c \<Longrightarrow> same_flood a c" by (simp add: same_flood_def)

lemma dead_local [simp]: "IsAnyDead (c\<lparr>cl_local := l\<rparr>) = IsAnyDead c" "settled (c\<lparr>cl_local := l\<rparr>) = settled c"
  by (simp_all add: IsAnyDead_def IsIOError_def IsDead_def IsClosing_def settled_def IsClient_def IsFloodDone_def IsExemptFlood_def)

lemma uncork_flood:
  assumes "uncork_check p cmd w = Some w'" "pw_clients w p = Some c"
  shows "\<exists>c'. pw_clients w' p = Some c' \<and> same_flood c c'"
  using assms
  by (auto simp: uncork_check_def Let_def emit_def same_flood_def flood_counters_def split: Option.bind_split_asm if_split_asm)

lemma parse_flood:
  assumes r: "parse run mem p s w = Some w'" and c: "pw_clients w p = Some c" "settled c" and h: "handler_settled run p"
  shows "\<exists>c'. pw_clients w' p = Some c' \<and> same_flood c c'"
  using parse_frame [OF r]
proof
  assume "ran run p w w'"
  then obtain hh q i hpara cmd w1 where w1: "pframe w w1" "uncork_check p cmd (run hh p q i hpara w1) = Some w'" by (auto simp: ran_def)
  have "pw_clients w1 p = Some c" using w1(1) c(1) by (simp add: pframe_def)
  then obtain c1 where "pw_clients (run hh p q i hpara w1) p = Some c1" "same_flood c c1" using h c(2) unfolding handler_settled_def by blast
  then show ?thesis using uncork_flood [OF w1(2)] same_flood_trans by blast
qed (use c in \<open>simp add: pframe_def\<close>)

text \<open>
  \<open>k\<close> lines have been parsed, and \<open>n\<close> seconds have passed, since the counter was \<open>m\<close>; \<open>e\<close> lines are not counted in \<^verbatim>\<open>sent_parsed\<close> yet.
\<close>

definition flood_inv :: "ptr \<Rightarrow> 16 word \<Rightarrow> 32 word \<Rightarrow> int \<Rightarrow> nat \<Rightarrow> nat \<Rightarrow> int \<Rightarrow> pstate \<Rightarrow> bool" where
  "flood_inv p a m b n k e st \<longleftrightarrow> (\<exists>c lu. pclient p st = Some c \<and> settled c \<and> cl_local c = Some lu \<and> lu_allow_read lu = a \<and>
     lu_receiveM lu = m + of_nat k \<and> 0 \<le> sint (lu_sent_parsed lu) \<and>
     sint (lu_sent_parsed lu) \<le> b \<and>
     int k \<le> sint (lu_sent_parsed lu) + 2 * int n + e)"

lemma flood_inv_cong:
  assumes "pclient p st = Some c" "pclient p st' = Some c'" "same_flood c c'"
  shows "flood_inv p a m b n k e st = flood_inv p a m b n k e st'"
  using assms by (cases "cl_local c"; cases "cl_local c'") (auto simp: flood_inv_def same_flood_def flood_counters_def)

lemma set_lu_client: "set_lu p f st = Some st' \<Longrightarrow> \<exists>c lu. pclient p st = Some c \<and> cl_local c = Some lu \<and> pclient p st' = Some (c\<lparr>cl_local := Some (f lu)\<rparr>)"
  by (auto simp: set_lu_def pclient_def split: Option.bind_split_asm)

lemma set_lu_flood:
  assumes "set_lu p f st = Some st'" "\<And>lu. flood_counters (f lu) = flood_counters lu"
  shows "flood_inv p a m b n k e st' = flood_inv p a m b n k e st"
  using set_lu_client [OF assms(1)] assms(2) flood_inv_cong [of p st _ st'] by (auto simp: same_flood_def)

lemma get_line_world: "get_line p st = Some (n, st') \<Longrightarrow> pk_w st' = pk_w st"
  by (auto simp: get_line_def split: Option.bind_split_asm prod.split_asm)

lemma flood_inv_world: "pk_w st' = pk_w st \<Longrightarrow> flood_inv p a m b n k e st' = flood_inv p a m b n k e st"
  by (simp add: flood_inv_def pclient_def)

lemma sint_small_16: "0 \<le> sint (x :: 16 word) \<Longrightarrow> sint x < 2 ^ 15 - 1 \<Longrightarrow> sint (x + 1) = sint x + 1"
  by (simp add: sint_word_ariths(1) signed_take_bit_int_eq_self)

lemma dopacket_flood:
  assumes inv: "flood_inv p a m b n k e st" and r: "client_dopacket env p len st = Some st'"
    and h: "handler_settled (pe_run env) p" and c: "pclient p st = Some c" "\<not> IsAnyDead c"
  shows "flood_inv p a m b n (Suc k) (e + 1) st'"
proof -
  from r c obtain ml st1 line mem w where
    s: "set_lu p (receive len) (st\<lparr>pk_w := (pk_w st)\<lparr>pw_me := (pw_me (pk_w st))\<lparr>cl_local := Some (receive len ml)\<rparr>\<rparr>\<rparr>) = Some st1"
    and w: "parse (pe_run env) mem p line (pk_w st1) = Some w" "st' = st1\<lparr>pk_w := w\<rparr>"
    by (auto simp: client_dopacket_def Let_def split: Option.bind_split_asm)
  have c0: "pclient p (st\<lparr>pk_w := (pk_w st)\<lparr>pw_me := (pw_me (pk_w st))\<lparr>cl_local := Some (receive len ml)\<rparr>\<rparr>\<rparr>) = Some c"
    using c(1) by (simp add: pclient_def)
  from set_lu_client [OF s] c0 obtain lu where lu: "cl_local c = Some lu" "pclient p st1 = Some (c\<lparr>cl_local := Some (receive len lu)\<rparr>)" by auto
  have i1: "flood_inv p a m b n (Suc k) (e + 1) st1" using inv c(1) lu by (auto simp: flood_inv_def receive_def)
  then have "settled (c\<lparr>cl_local := Some (receive len lu)\<rparr>)" using lu(2) by (auto simp: flood_inv_def)
  from parse_flood [OF w(1) _ this h] lu(2) obtain c' where "pw_clients w p = Some c'" "same_flood (c\<lparr>cl_local := Some (receive len lu)\<rparr>) c'"
    by (auto simp: pclient_def)
  then show ?thesis using flood_inv_cong [OF lu(2), of st' c'] i1 w(2) by (simp add: pclient_def)
qed

lemma count_flood:
  assumes inv: "flood_inv p a m b n k (e + 1) st" and r: "set_lu p count_parsed st = Some st'" and b: "b < 2 ^ 15 - 1"
  shows "flood_inv p a m (b + 1) n k e st'"
proof -
  from set_lu_client [OF r] obtain c lu where c: "pclient p st = Some c" "cl_local c = Some lu" "pclient p st' = Some (c\<lparr>cl_local := Some (count_parsed lu)\<rparr>)" by auto
  have i: "settled c" "lu_allow_read lu = a" "lu_receiveM lu = m + of_nat k" "0 \<le> sint (lu_sent_parsed lu)" "sint (lu_sent_parsed lu) \<le> b"
    "int k \<le> sint (lu_sent_parsed lu) + 2 * int n + (e + 1)" using inv c by (auto simp: flood_inv_def)
  then have s: "sint (lu_sent_parsed lu + 1) = sint (lu_sent_parsed lu) + 1" using sint_small_16 b by auto
  show ?thesis unfolding flood_inv_def using c(3) i s by (auto simp: count_parsed_def)
qed

text \<open>After a line that ended the client, one line more has been parsed than is counted.\<close>

definition finv :: "ptr \<Rightarrow> 16 word \<Rightarrow> 32 word \<Rightarrow> int \<Rightarrow> nat \<Rightarrow> nat \<Rightarrow> pstate \<Rightarrow> bool" where
  "finv p a m b n k st \<longleftrightarrow> flood_inv p a m b n k 0 st \<or> flood_inv p a m b n k 1 st \<and> (\<exists>c. pclient p st = Some c \<and> IsAnyDead c)"

lemma client_loop_flood:
  assumes "client_loop t env cf p tested st = Some st'" "flood_inv p a m b n k 0 st" "\<exists>c. pclient p st = Some c \<and> \<not> IsAnyDead c"
    and "handler_settled (pe_run env) p" "(if cf then 1 else 4) * uint a \<le> b" "b < 2 ^ 15"
  shows "\<exists>k'. finv p a m b n k' st'"
  using assms
proof (induction t env cf p tested st arbitrary: k rule: client_loop.induct)
  case (2 t env cf p tested st)
  from "2.prems"(2) obtain c lu where c: "pclient p st = Some c" "settled c" "cl_local c = Some lu" "lu_allow_read lu = a"
    "lu_receiveM lu = m + of_nat k" "0 \<le> sint (lu_sent_parsed lu)" "int k \<le> sint (lu_sent_parsed lu) + 2 * int n + 0" by (auto simp: flood_inv_def)
  have nd: "\<not> IsAnyDead c" using "2.prems"(3) c(1) by simp
  have f0: "finv p a m b n k st" using "2.prems"(2) by (simp add: finv_def)
  show ?case
  proof (cases "(\<not> tested \<and> lu_firsttime lu + pe_post_registration_delay env > pw_now (pk_w st)) \<or> sint (lu_sent_parsed lu) \<ge> flood_limit cf lu")
    case True
    then have "st' = st" using "2.prems"(1) c by (auto split: if_split_asm)
    then show ?thesis using f0 by blast
  next
    case False
    with "2.prems"(1) c obtain dolen st1 where g: "get_line p st = Some (dolen, st1)" by (auto split: Option.bind_split_asm)
    note w1 = get_line_world [OF g]
    show ?thesis
    proof (cases "dolen = 0")
      case True
      then have "st' = st1" using "2.prems"(1) c False g by auto
      then show ?thesis using "2.prems"(2) flood_inv_world [OF w1] by (auto simp: finv_def)
    next
      case d: False
      with "2.prems"(1) c False g obtain st2 c2 where s2: "client_dopacket env p dolen st1 = Some st2" and c2: "pclient p st2 = Some c2"
        by (auto split: Option.bind_split_asm)
      have "sint (lu_sent_parsed lu) \<le> b - 1" using False c(4) "2.prems"(5) by (auto simp: flood_limit_def split: if_split_asm)
      then have "flood_inv p a m (b - 1) n k 0 st" using c by (auto simp: flood_inv_def)
      then have "flood_inv p a m (b - 1) n k 0 st1" using flood_inv_world [OF w1] by blast
      from dopacket_flood [OF this s2 "2.prems"(4)] c(1) nd w1 have i2: "flood_inv p a m (b - 1) n (Suc k) 1 st2" by (simp add: pclient_def)
      show ?thesis
      proof (cases "IsAnyDead c2")
        case True
        then have "st' = st2" using "2.prems"(1) c False g d s2 c2 by auto
        moreover have "flood_inv p a m b n (Suc k) 1 st2" using i2 by (auto simp: flood_inv_def)
        ultimately show ?thesis using True c2 by (auto simp: finv_def)
      next
        case nd2: False
        with "2.prems"(1) c False g d s2 c2 obtain st3 where s3: "set_lu p count_parsed st2 = Some st3"
          and l: "client_loop t env cf p True st3 = Some st'" by (auto split: Option.bind_split_asm)
        have i3: "flood_inv p a m b n (Suc k) 0 st3" using count_flood [of p a m "b - 1" n "Suc k" 0 st2 st3] i2 s3 "2.prems"(6) by simp
        have "\<exists>c. pclient p st3 = Some c \<and> \<not> IsAnyDead c" using set_lu_client [OF s3] c2 nd2 by auto
        from "2.IH" [OF c(1) c(3) _ _ g _ _ s2 c2 nd2 s3 l i3 this "2.prems"(4-6)] show ?thesis using False d by auto
      qed
    qed
  qed
qed simp

definition max_burst :: "penv \<Rightarrow> 16 word \<Rightarrow> int" where
  "max_burst env a = (if pe_no_oper_flood env then 4 else 1) * uint a"

lemma finvD:
  assumes "finv p a m b n k st"
  obtains c lu where "pclient p st = Some c" "settled c" "cl_local c = Some lu" "lu_allow_read lu = a" "lu_receiveM lu = m + of_nat k"
    "int k \<le> b + 2 * int n + 1"
  using assms unfolding finv_def flood_inv_def by fastforce

lemma parse_queued_flood:
  assumes r: "parse_client_queued env p st = Some st'" and inv: "finv p a m (max_burst env a) n k st" and h: "handler_settled (pe_run env) p"
    and a: "max_burst env a < 2 ^ 15"
  shows "\<exists>k'. finv p a m (max_burst env a) n k' st'"
proof -
  obtain c where c: "pclient p st = Some c" "settled c" using inv by (rule finvD)
  show ?thesis
  proof (cases "IsAnyDead c")
    case True
    then have "st' = st" using r c by (simp add: parse_client_queued_def)
    then show ?thesis using inv by blast
  next
    case False
    have s: "\<not> IsUnknown c" "\<not> IsAnyServer c" "\<not> IsExemptFlood c" "IsClient c"
      using c(2) by (auto simp: settled_def IsClient_def IsUnknown_def IsAnyServer_def IsServer_def IsHandshake_def IsConnecting_def status_defs)
    then have l: "client_loop (turns p st) env (\<not> (IsOper c \<and> pe_no_oper_flood env)) p False st = Some st'"
      using r c False by (simp add: parse_client_queued_def)
    have i: "flood_inv p a m (max_burst env a) n k 0 st" using inv c(1) False by (auto simp: finv_def)
    show ?thesis using client_loop_flood [OF l i _ h _ a] c(1) False by (auto simp: max_burst_def)
  qed
qed

lemma finv_set_lu:
  assumes "set_lu p f st = Some st'" "\<And>lu. flood_counters (f lu) = flood_counters lu"
  shows "finv p a m b n k st' = finv p a m b n k st"
  using set_lu_flood [OF assms] set_lu_client [OF assms(1)] by (auto simp: finv_def)

lemma forgive_sint:
  assumes "0 \<le> sint (x :: 16 word)"
  shows "0 \<le> sint (if sint (x - 2) < 0 then 0 else x - 2)" "sint (if sint (x - 2) < 0 then 0 else x - 2) \<le> sint x"
    "sint x \<le> sint (if sint (x - 2) < 0 then 0 else x - 2) + 2"
proof -
  have "sint x < 2 ^ 15" using sint_lt [of x] by simp
  then have "sint (x - 2) = sint x - 2" using assms by (simp add: sint_word_ariths(2) signed_take_bit_int_eq_self)
  then show "0 \<le> sint (if sint (x - 2) < 0 then 0 else x - 2)" "sint (if sint (x - 2) < 0 then 0 else x - 2) \<le> sint x"
    "sint x \<le> sint (if sint (x - 2) < 0 then 0 else x - 2) + 2" using assms by auto
qed

lemma forgive_flood:
  assumes r: "set_lu p (forgive 2) st = Some st'" and inv: "flood_inv p a m b n k e st"
  shows "flood_inv p a m b (Suc n) k e st'"
proof -
  from set_lu_client [OF r] obtain c lu where c: "pclient p st = Some c" "cl_local c = Some lu" "pclient p st' = Some (c\<lparr>cl_local := Some (forgive 2 lu)\<rparr>)" by auto
  have i: "settled c" "lu_allow_read lu = a" "lu_receiveM lu = m + of_nat k" "0 \<le> sint (lu_sent_parsed lu)" "sint (lu_sent_parsed lu) \<le> b"
    "int k \<le> sint (lu_sent_parsed lu) + 2 * int n + e" using inv c by (auto simp: flood_inv_def)
  have s: "lu_sent_parsed (forgive 2 lu) = (if sint (lu_sent_parsed lu - 2) < 0 then 0 else lu_sent_parsed lu - 2)"
    "lu_allow_read (forgive 2 lu) = lu_allow_read lu" "lu_receiveM (forgive 2 lu) = lu_receiveM lu" by (simp_all add: forgive_def)
  show ?thesis unfolding flood_inv_def
    by (intro exI [of _ "c\<lparr>cl_local := Some (forgive 2 lu)\<rparr>"] exI [of _ "forgive 2 lu"], unfold s) (use c(3) i forgive_sint [OF i(4)] in auto)
qed

lemma recalc_flood:
  assumes r: "recalc_client env p st = Some st'" and inv: "finv p a m (max_burst env a) n k st" and h: "handler_settled (pe_run env) p"
    and a: "max_burst env a < 2 ^ 15"
  shows "\<exists>k'. finv p a m (max_burst env a) (Suc n) k' st'"
proof -
  obtain c lu where c: "pclient p st = Some c" "settled c" "cl_local c = Some lu" using inv by (rule finvD)
  have s: "\<not> IsMe c" "IsFloodDone c" using c(2) by (auto simp: settled_def IsClient_def IsMe_def status_defs)
  with r c obtain st1 st2 st3 c3 where r1: "set_lu p (forgive 2) st = Some st1" and r2: "set_lu p less_read st1 = Some st2"
    and r3: "parse_client_queued env p st2 = Some st3" and c3: "pclient p st3 = Some c3"
    by (auto simp: recalc_client_def split: Option.bind_split_asm)
  have "finv p a m (max_burst env a) (Suc n) k st1"
    using inv forgive_flood [OF r1] set_lu_client [OF r1] by (auto simp: finv_def)
  then have "finv p a m (max_burst env a) (Suc n) k st2" using finv_set_lu [OF r2] by (auto simp: less_read_def flood_counters_def)
  from parse_queued_flood [OF r3 this h a] obtain k' where k': "finv p a m (max_burst env a) (Suc n) k' st3" by blast
  have "settled c3" using finvD [OF k'] c3 by auto
  then have "st' = st3" using r c s r1 r2 r3 c3 by (auto simp: recalc_client_def settled_def split: Option.bind_split_asm if_split_asm)
  then show ?thesis using k' by blast
qed

lemma finv_same:
  assumes "pclient p st = Some c" "pclient p st' = Some c'" "same_flood c c'" "finv p a m b n k st"
  shows "finv p a m b n k st'"
  using assms flood_inv_cong [OF assms(1-3)] by (auto simp: finv_def same_flood_def)

lemma ping_same: "same_flood c (c\<lparr>cl_flags := cl_flags c AND NOT FLAGS_PINGSENT\<rparr>)"
  by (simp add: same_flood_def settled_def IsClient_def IsFloodDone_def IsExemptFlood_def IsAnyDead_def IsIOError_def IsDead_def IsClosing_def
      FLAGS_PINGSENT_def FLAGS_FLOODDONE_def FLAGS_EXEMPTFLOOD_def FLAGS_IOERROR_def FLAGS_DEAD_def FLAGS_CLOSING_def and.assoc)

lemma read_one_flood:
  assumes r: "read_one env p bin rr st = Some (mo, st')" and inv: "finv p a m (max_burst env a) n k st" and h: "handler_settled (pe_run env) p"
    and a: "max_burst env a < 2 ^ 15"
  shows "\<exists>k'. finv p a m (max_burst env a) n k' st'"
proof -
  obtain c lu where c: "pclient p st = Some c" using inv by (rule finvD)
  have ev: "finv p a m b n k (s\<lparr>pk_events := e\<rparr>) = finv p a m b n k s" for b n k s e by (simp add: finv_def flood_inv_def pclient_def)
  show ?thesis
  proof (cases "IsAnyDead c \<or> (\<forall>bytes. rr = Read_bytes bytes \<longrightarrow> bytes = [])")
    case True
    then have "st' = st \<or> (\<exists>e. st' = st\<lparr>pk_events := e\<rparr>)" using r c by (cases rr) (auto simp: read_one_def split: if_split_asm)
    then show ?thesis using inv ev by auto
  next
    case False
    then obtain bytes where b: "rr = Read_bytes bytes" "bytes \<noteq> []" and nd: "\<not> IsAnyDead c" by blast
    define st0 where "st0 = st\<lparr>pk_readBuf := bytes @ drop (length bytes) (pk_readBuf st)\<rparr>"
    from r c b nd obtain st1 c1 where r1: "set_lu p (\<lambda>lu. lu\<lparr>lu_lasttime := max (lu_lasttime lu) (pw_now (pk_w st0))\<rparr>) st0 = Some st1"
      and c1: "pclient p st1 = Some c1"
      by (auto simp: read_one_def Let_def st0_def split: Option.bind_split_asm if_split_asm)
    define c2 where "c2 = c1\<lparr>cl_flags := cl_flags c1 AND NOT FLAGS_PINGSENT\<rparr>"
    define st2 where "st2 = st1\<lparr>pk_w := (pk_w st1)\<lparr>pw_clients := (pw_clients (pk_w st1))(p \<mapsto> c2)\<rparr>\<rparr>"
    have "finv p a m (max_burst env a) n k st0" using inv by (simp add: st0_def finv_def flood_inv_def pclient_def)
    then have i1: "finv p a m (max_burst env a) n k st1" using finv_set_lu [OF r1] by (auto simp: flood_counters_def)
    then have i2: "finv p a m (max_burst env a) n k st2" using finv_same [OF c1, of st2 c2] ping_same [of c1] by (simp add: st2_def c2_def pclient_def)
    note e = r [unfolded read_one_def Let_def c b(1) Option.bind.simps if_not_P [OF nd] read_result.case if_not_P [OF b(2)] st0_def [symmetric]]
    have nl: "\<not> READBUF_SIZE < length bytes" using e by (rule contrapos_pn) simp
    note e = e [unfolded if_not_P [OF nl] r1 c1 Option.bind.simps c2_def [symmetric] st2_def [symmetric]]
    from e obtain nn hh ls st3 st4 c4 where
      r3: "set_lu p (\<lambda>lu. lu\<lparr>lu_actually_read := lu_actually_read lu + of_int nn\<rparr>) (st2\<lparr>pk_recvq := hh, pk_lines := ls\<rparr>) = Some st3"
      and r4: "parse_client_queued env p st3 = Some st4"
      and l: "(if IsAnyDead c4 then Some (None, st4)
         else if \<not> IsAnyServer c4 \<and> bh_alloclen (pk_recvq st4 p) > pe_client_flood env \<and> \<not> (pe_no_oper_flood env \<and> IsOper c4)
           then Some (None, st4\<lparr>pk_events := pk_events st4 @ [Ev_exit p ''Excess Flood'']\<rparr>)
           else if length bytes < READBUF_SIZE
           then Some (None, st4\<lparr>pk_events := pk_events st4 @ [Ev_setselect p]\<rparr>)
           else Some (Some (bin \<or> IsHandshake c2 \<or> IsUnknown c2), st4)) = Some (mo, st')"
      by (auto split: Option.bind_split_asm prod.split_asm)
    have l: "st' = st4 \<or> (\<exists>ev. st' = st4\<lparr>pk_events := ev\<rparr>)" using l by (auto split: if_split_asm)
    have "finv p a m (max_burst env a) n k (st2\<lparr>pk_recvq := hh, pk_lines := ls\<rparr>)" using i2 by (simp add: finv_def flood_inv_def pclient_def)
    then have "finv p a m (max_burst env a) n k st3" using finv_set_lu [OF r3] by (auto simp: flood_counters_def)
    then show ?thesis using parse_queued_flood [OF r4 _ h a] l ev by auto
  qed
qed

lemma read_loop_flood:
  assumes "read_loop env p bin rs st = Some st'" "finv p a m (max_burst env a) n k st" "handler_settled (pe_run env) p" "max_burst env a < 2 ^ 15"
  shows "\<exists>k'. finv p a m (max_burst env a) n k' st'"
  using assms
proof (induction env p bin rs st arbitrary: k rule: read_loop.induct)
  case (2 env p bin r rs st)
  then obtain mo st1 where r1: "read_one env p bin r st = Some (mo, st1)" by (auto split: Option.bind_split_asm)
  from read_one_flood [OF r1 "2.prems"(2-4)] obtain k1 where "finv p a m (max_burst env a) n k1 st1" by blast
  then show ?case using "2.prems" r1 "2.IH" [OF r1 refl] by (auto split: option.split_asm)
qed simp

text \<open>The life of a connection, as far as its flood control goes: reads, seconds, and whatever else leaves its counters.\<close>

inductive flood_run :: "penv \<Rightarrow> ptr \<Rightarrow> nat \<Rightarrow> pstate \<Rightarrow> pstate \<Rightarrow> bool" for env p where
  start: "flood_run env p 0 st st"
| read: "flood_run env p n st st1 \<Longrightarrow> read_packet env p rs st1 = Some st2 \<Longrightarrow> flood_run env p n st st2"
| second: "flood_run env p n st st1 \<Longrightarrow> recalc_client env p st1 = Some st2 \<Longrightarrow> flood_run env p (Suc n) st st2"
| other: "flood_run env p n st st1 \<Longrightarrow> pclient p st1 = Some c1 \<Longrightarrow> pclient p st2 = Some c2 \<Longrightarrow> same_flood c1 c2 \<Longrightarrow> flood_run env p n st st2"

text \<open>
  C5: The flood control holds: over any interleaving of reads, seconds and other events, a
  registered user after the grace gets at most its burst (allow_read lines, four times as many
  when opers are let off with no_oper_flood) plus two lines for each second parsed, and one line
  that ends it, as long as the handlers leave its flood counters alone.
\<close>

theorem flood_rate:
  assumes run: "flood_run env p n st st'" and h: "handler_settled (pe_run env) p" and a: "max_burst env (lu_allow_read lu) < 2 ^ 15"
    and c: "pclient p st = Some c" "settled c" "cl_local c = Some lu"
    and s: "0 \<le> sint (lu_sent_parsed lu)" "sint (lu_sent_parsed lu) \<le> max_burst env (lu_allow_read lu)"
  shows "\<exists>c' lu' k. pclient p st' = Some c' \<and> cl_local c' = Some lu' \<and> lu_receiveM lu' = lu_receiveM lu + of_nat k \<and>
    int k \<le> max_burst env (lu_allow_read lu) + 2 * int n + 1"
proof -
  have "\<exists>k. finv p (lu_allow_read lu) (lu_receiveM lu) (max_burst env (lu_allow_read lu)) n k st'"
    using run c
  proof (induction rule: flood_run.induct)
    case (start st)
    then have "finv p (lu_allow_read lu) (lu_receiveM lu) (max_burst env (lu_allow_read lu)) 0 0 st"
      using s by (auto simp: finv_def flood_inv_def)
    then show ?case ..
  next
    case (read n st st1 rs st2)
    then show ?case using read_loop_flood [OF _ _ h a] unfolding read_packet_def by blast
  next
    case (second n st st1 st2)
    then show ?case using recalc_flood [OF _ _ h a] by blast
  next
    case (other n st st1 c1 st2 c2)
    then show ?case using finv_same by blast
  qed
  then show ?thesis by (metis finvD)
qed

section \<open>The queue is worked off\<close>

text \<open>What the rest of the server guarantees, and every handler keeps.\<close>

definition served_world :: "ptr \<Rightarrow> pworld \<Rightarrow> bool" where
  "served_world p w \<longleftrightarrow> pworld_ok w \<and> connected w p \<and> cl_local (pw_me w) \<noteq> None"

definition handler_serves :: "handler_call \<Rightarrow> ptr \<Rightarrow> bool" where
  "handler_serves run p \<longleftrightarrow> (\<forall>h from i hpara w. served_world p w \<longrightarrow> served_world p (run h p from i hpara w)) \<and> handler_keeps run p"

definition served :: "ptr \<Rightarrow> pstate \<Rightarrow> bool" where
  "served p st \<longleftrightarrow> served_world p (pk_w st) \<and> (\<exists>hs. refs_ok (pk_recvq st p # hs) (pk_lines st)) \<and> lines_ok (ls_lines (pk_lines st))"

lemma served_frame: "pframe w w' \<Longrightarrow> served_world p w \<Longrightarrow> served_world p w'"
proof -
  assume f: "pframe w w'" and s: "served_world p w"
  have "\<exists>m'. pw_msgs w' q = Some m' \<and> m_handlers m' = m_handlers m" if "pw_msgs w q = Some m" for q m
  proof -
    have "map_option m_handlers (pw_msgs w' q) = map_option m_handlers (pw_msgs w q)" using f by (simp add: pframe_def)
    then show ?thesis using that by auto
  qed
  then have "\<forall>i. \<forall>e \<in> set (pw_cmds w' i). \<exists>m. pw_msgs w' (snd e) = Some m \<and> length (m_handlers m) = 6"
    using f s unfolding served_world_def pworld_ok_def pframe_def by metis
  then show ?thesis using f s unfolding served_world_def pworld_ok_def pframe_def connected_def by simp
qed

lemma served_client:
  assumes s: "served_world p w" and c: "pw_clients w p = Some c"
    and same: "cl_from c' = cl_from c" "cl_handler c' = cl_handler c" "MyConnect c' = MyConnect c" "cl_local c' \<noteq> None"
  shows "served_world p (w\<lparr>pw_clients := (pw_clients w)(p \<mapsto> c')\<rparr>)"
  using assms unfolding served_world_def pworld_ok_def connected_def by auto

lemma my_local [simp]: "MyConnect (c\<lparr>cl_local := l\<rparr>) = MyConnect c" by (simp add: MyConnect_def)

lemma uncork_served:
  assumes "uncork_check p cmd w = Some w'" "served_world p w"
  shows "served_world p w'"
proof -
  obtain c where c: "pw_clients w p = Some c" using assms(1) by (auto simp: uncork_check_def split: Option.bind_split_asm)
  show ?thesis
  proof (cases "w' = w")
    case False
    with assms(1) c obtain l where l: "cl_local c = Some l"
      "pw_clients w' = (pw_clients w)(p \<mapsto> c\<lparr>cl_local := Some (l\<lparr>lu_cork_count := 0\<rparr>)\<rparr>)" "pw_me w' = pw_me w" "pw_tabs w' = pw_tabs w"
      "pw_channels w' = pw_channels w" "pw_cmds w' = pw_cmds w" "pw_msgs w' = pw_msgs w"
      by (auto simp: uncork_check_def Let_def emit_def split: Option.bind_split_asm if_split_asm)
    show ?thesis using assms(2) c l unfolding served_world_def pworld_ok_def connected_def by auto
  qed (use assms in simp)
qed

lemma parse_served:
  assumes s: "served_world p w" and h: "handler_serves run p"
  shows "\<exists>w'. parse run mem p line w = Some w' \<and> served_world p w'"
proof -
  from s obtain c where c: "pw_clients w p = Some c" by (auto simp: served_world_def connected_def)
  have "parse run mem p line w \<noteq> None" using parse_returns [OF _ c] s h unfolding served_world_def handler_serves_def by blast
  then obtain w' where w': "parse run mem p line w = Some w'" by blast
  from parse_frame [OF w'] have "served_world p w'"
    using served_frame [OF _ s] served_frame uncork_served s h unfolding ran_def handler_serves_def by blast
  then show ?thesis using w' by blast
qed

lemma set_lu_served:
  assumes "served p st"
  shows "\<exists>st'. set_lu p f st = Some st' \<and> served p st' \<and> pk_recvq st' = pk_recvq st"
proof -
  from assms obtain c lu where c: "pw_clients (pk_w st) p = Some c" "cl_local c = Some lu" by (auto simp: served_def served_world_def connected_def)
  have "served_world p ((pk_w st)\<lparr>pw_clients := (pw_clients (pk_w st))(p \<mapsto> c\<lparr>cl_local := Some (f lu)\<rparr>)\<rparr>)"
    using assms c by (intro served_client) (auto simp: served_def)
  then show ?thesis using assms c by (auto simp: set_lu_def pclient_def served_def)
qed

lemma done_line_ok: "lines_ok (ls_lines st) \<Longrightarrow> rb_linebuf_done_line h st = Some (h', st') \<Longrightarrow> lines_ok (ls_lines st')"
  by (auto simp: rb_linebuf_done_line_def lines_ok_def line_ok_def line_data_def Let_def split: list.split_asm Option.bind_split_asm if_split_asm)

lemma get_line_served:
  assumes s: "served p st"
  shows "\<exists>n st'. get_line p st = Some (n, st') \<and> served p st' \<and> pk_w st' = pk_w st \<and>
    (n > 0 \<longrightarrow> length (bh_list (pk_recvq st' p)) < length (bh_list (pk_recvq st p)))"
proof (cases "bh_list (pk_recvq st p)")
  case Nil
  then show ?thesis using s by (auto simp: get_line_def rb_linebuf_get_def served_def)
next
  case (Cons q qs)
  from s obtain hs where hs: "refs_ok (pk_recvq st p # hs) (pk_lines st)" by (auto simp: served_def)
  from refs_ok_live [OF hs, of q] Cons obtain l where l: "ls_lines (pk_lines st) q = Some l" by auto
  have lo: "line_ok l" using s l by (auto simp: served_def lines_ok_def)
  show ?thesis
  proof (cases "bl_terminated l")
    case False
    then show ?thesis using s Cons l by (auto simp: get_line_def rb_linebuf_get_def served_def)
  next
    case True
    from done_line_spec [OF Cons l] obtain h' st1 where d: "rb_linebuf_done_line (pk_recvq st p) (pk_lines st) = Some (h', st1)" "bh_list h' = qs"
      by blast
    have len: "bl_len l < READBUF_SIZE" using lo by (simp add: line_ok_def BUF_DATA_SIZE_def READBUF_SIZE_def)
    have sh: "length (rev (dropWhile P (rev (dropWhile P xs)))) \<le> length xs" for P and xs :: string
      by (metis length_rev length_dropWhile_le le_trans)
    have "\<exists>bytes. rb_linebuf_get (pk_recvq st p) READBUF_SIZE False False (pk_lines st) = Some (bytes, length bytes, h', st1)"
      using Cons l True d(1) len sh [of is_crlf "take (bl_len l) (bl_buf l)"]
      by (auto simp: rb_linebuf_get_def Let_def not_less)
    then obtain bytes where g: "rb_linebuf_get (pk_recvq st p) READBUF_SIZE False False (pk_lines st) = Some (bytes, length bytes, h', st1)" ..
    have "refs_ok (h' # hs) st1" using done_line_refs [OF hs d(1)] .
    moreover have "lines_ok (ls_lines st1)" using done_line_ok [OF _ d(1)] s by (simp add: served_def)
    ultimately show ?thesis using g s d(2) Cons by (auto simp: get_line_def served_def)
  qed
qed

lemma dopacket_served:
  assumes s: "served p st" and h: "handler_serves (pe_run env) p"
  shows "\<exists>st'. client_dopacket env p n st = Some st' \<and> served p st' \<and> pk_recvq st' = pk_recvq st"
proof -
  from s obtain c ml where c: "pclient p st = Some c" "cl_local (pw_me (pk_w st)) = Some ml" by (auto simp: served_def served_world_def connected_def pclient_def)
  show ?thesis
  proof (cases "IsAnyDead c")
    case False
    let ?st = "st\<lparr>pk_w := (pk_w st)\<lparr>pw_me := (pw_me (pk_w st))\<lparr>cl_local := Some (receive n ml)\<rparr>\<rparr>\<rparr>"
    have "served p ?st" using s by (simp add: served_def served_world_def pworld_ok_def connected_def)
    from set_lu_served [OF this] obtain st1 where st1: "set_lu p (receive n) ?st = Some st1" "served p st1" "pk_recvq st1 = pk_recvq st" by auto
    define line where "line = takeWhile (\<lambda>c. c \<noteq> NUL) (pk_readBuf st1)"
    from parse_served [of p "pk_w st1", OF _ h] st1(2) obtain w' where
      "parse (pe_run env) (drop (Suc (length line)) (pk_readBuf st1)) p line (pk_w st1) = Some w'" "served_world p w'"
      by (auto simp: served_def)
    then show ?thesis using st1 c False by (auto simp: client_dopacket_def Let_def served_def line_def)
  qed (use s c in \<open>simp add: client_dopacket_def\<close>)
qed

lemma served_live: "served p st \<Longrightarrow> \<exists>c lu. pclient p st = Some c \<and> cl_local c = Some lu"
  by (auto simp: served_def served_world_def connected_def pclient_def)

lemma client_loop_served:
  assumes "served p st" "handler_serves (pe_run env) p" "length (bh_list (pk_recvq st p)) < t"
  shows "\<exists>st'. client_loop t env cf p tested st = Some st' \<and> served p st'"
  using assms
proof (induction t arbitrary: tested st)
  case (Suc t)
  obtain c lu where c: "pclient p st = Some c" "cl_local c = Some lu" using served_live [OF Suc.prems(1)] by blast
  obtain n st1 where g: "get_line p st = Some (n, st1)" "served p st1" "n > 0 \<longrightarrow> length (bh_list (pk_recvq st1 p)) < length (bh_list (pk_recvq st p))"
    using get_line_served [OF Suc.prems(1)] by blast
  obtain st2 where d: "client_dopacket env p n st1 = Some st2" "served p st2" "pk_recvq st2 = pk_recvq st1" using dopacket_served [OF g(2) Suc.prems(2)] by blast
  obtain c2 where c2: "pclient p st2 = Some c2" using served_live [OF d(2)] by blast
  obtain st3 where s3: "set_lu p count_parsed st2 = Some st3" "served p st3" "pk_recvq st3 = pk_recvq st2" using set_lu_served [OF d(2)] by blast
  have "n > 0 \<Longrightarrow> length (bh_list (pk_recvq st3 p)) < t" using g(3) d(3) s3(3) Suc.prems(3) by simp
  then show ?case using c g d c2 s3 Suc.prems(1) Suc.IH [OF s3(2) Suc.prems(2)] by auto
qed simp

lemma server_loop_served:
  assumes "served p st" "handler_serves (pe_run env) p" "length (bh_list (pk_recvq st p)) < t"
  shows "\<exists>st'. server_loop t env p st = Some st' \<and> served p st'"
  using assms
proof (induction t arbitrary: st)
  case (Suc t)
  obtain c where c: "pclient p st = Some c" using served_live [OF Suc.prems(1)] by blast
  obtain n st1 where g: "get_line p st = Some (n, st1)" "served p st1" "n > 0 \<longrightarrow> length (bh_list (pk_recvq st1 p)) < length (bh_list (pk_recvq st p))"
    using get_line_served [OF Suc.prems(1)] by blast
  obtain st2 where d: "client_dopacket env p n st1 = Some st2" "served p st2" "pk_recvq st2 = pk_recvq st1" using dopacket_served [OF g(2) Suc.prems(2)] by blast
  have "n > 0 \<Longrightarrow> length (bh_list (pk_recvq st2 p)) < t" using g(3) d(3) Suc.prems(3) by simp
  then show ?case using c g d Suc.prems(1) Suc.IH [OF d(2) Suc.prems(2)] by auto
qed simp

lemma unknown_loop_served:
  assumes "served p st" "handler_serves (pe_run env) p" "length (bh_list (pk_recvq st p)) < t"
  shows "\<exists>b st'. unknown_loop t env p st = Some (b, st') \<and> served p st'"
  using assms
proof (induction t arbitrary: st)
  case (Suc t)
  obtain c lu where c: "pclient p st = Some c" "cl_local c = Some lu" using served_live [OF Suc.prems(1)] by blast
  obtain n st1 where g: "get_line p st = Some (n, st1)" "served p st1" "n > 0 \<longrightarrow> length (bh_list (pk_recvq st1 p)) < length (bh_list (pk_recvq st p))"
    using get_line_served [OF Suc.prems(1)] by blast
  obtain st2 where d: "client_dopacket env p n st1 = Some st2" "served p st2" "pk_recvq st2 = pk_recvq st1" using dopacket_served [OF g(2) Suc.prems(2)] by blast
  obtain st3 where s3: "set_lu p count_parsed st2 = Some st3" "served p st3" "pk_recvq st3 = pk_recvq st2" using set_lu_served [OF d(2)] by blast
  obtain c3 where c3: "pclient p st3 = Some c3" using served_live [OF s3(2)] by blast
  obtain st4 where s4: "set_lu p (\<lambda>lu. lu\<lparr>lu_sent_parsed := 0\<rparr>) st3 = Some st4" "served p st4" using set_lu_served [OF s3(2)] by blast
  have "n > 0 \<Longrightarrow> length (bh_list (pk_recvq st3 p)) < t" using g(3) d(3) s3(3) Suc.prems(3) by simp
  then show ?case using c g d c3 s3 s4 Suc.prems(1) Suc.IH [OF s3(2) Suc.prems(2)] by auto
qed simp

lemma queued_served:
  assumes s: "served p st" and h: "handler_serves (pe_run env) p"
  shows "\<exists>st'. parse_client_queued env p st = Some st' \<and> served p st'"
proof -
  have t: "length (bh_list (pk_recvq st p)) < turns p st" for st by (simp add: turns_def)
  obtain c where c: "pclient p st = Some c" using served_live [OF s] by blast
  have "\<exists>b st1. (if IsUnknown c then unknown_loop (turns p st) env p st else Some (False, st)) = Some (b, st1) \<and> served p st1"
    using unknown_loop_served [OF s h t] s by auto
  then obtain b st1 where s1: "(if IsUnknown c then unknown_loop (turns p st) env p st else Some (False, st)) = Some (b, st1)" "served p st1" by blast
  obtain c1 where c1: "pclient p st1 = Some c1" using served_live [OF s1(2)] by blast
  show ?thesis
    using c s1 c1 s server_loop_served [OF s1(2) h t] client_loop_served [OF s1(2) h t]
    by (auto simp: parse_client_queued_def)
qed

text \<open>
  C6: parse_client_queued always returns: every turn of its three loops takes a line out of the
  receive queue, the lines are alive and fit into readBuf, and parse() returns on each of them;
  what the parser and the queue rely on still holds afterwards.
\<close>

theorem parse_client_queued_total:
  assumes "served p st" "handler_serves (pe_run env) p"
  shows "\<exists>st'. parse_client_queued env p st = Some st' \<and> served p st'"
  by (rule queued_served [OF assms])

lemma recalc_served:
  assumes s: "served p st" and h: "handler_serves (pe_run env) p"
  shows "\<exists>st'. recalc_client env p st = Some st'"
proof -
  obtain c lu where c: "pclient p st = Some c" "cl_local c = Some lu" using served_live [OF s] by blast
  obtain st1 where s1: "set_lu p (if IsFloodDone c then forgive 2 else (\<lambda>lu. lu\<lparr>lu_sent_parsed := 0\<rparr>)) st = Some st1" "served p st1"
    using set_lu_served [OF s] by blast
  obtain st2 where s2: "set_lu p less_read st1 = Some st2" "served p st2" using set_lu_served [OF s1(2)] by blast
  obtain st3 where s3: "parse_client_queued env p st2 = Some st3" "served p st3" using queued_served [OF s2(2) h] by blast
  obtain c3 lu3 where c3: "pclient p st3 = Some c3" "cl_local c3 = Some lu3" using served_live [OF s3(2)] by blast
  show ?thesis using c s1(1) s2(1) s3(1) c3 by (auto simp: recalc_client_def flood_endgrace_def)
qed

section \<open>A concrete connection\<close>

definition flood_bob :: Client where
  "flood_bob = zero_Client\<lparr>cl_name := ''bob'', cl_status := STAT_CLIENT, cl_flags := FLAGS_MYCONNECT OR FLAGS_FLOODDONE, cl_from := 1,
     cl_handler := 1, cl_local := Some (zero_LocalUser\<lparr>lu_allow_read := MAX_FLOOD\<rparr>)\<rparr>"

definition flood_st :: pstate where
  "flood_st = \<lparr>pk_w = zero_pworld\<lparr>pw_clients := [1 \<mapsto> flood_bob], pw_me := zero_Client\<lparr>cl_local := Some zero_LocalUser\<rparr>\<rparr>,
     pk_recvq = (\<lambda>_. rb_linebuf_newbuf)(1 := rb_linebuf_newbuf\<lparr>bh_list := [0]\<rparr>),
     pk_lines = \<lparr>ls_lines = [0 \<mapsto> sent_line ''PING''], ls_bufline_count = 1\<rparr>, pk_readBuf = replicate READBUF_SIZE NUL, pk_events = []\<rparr>"

definition flood_env :: penv where
  "flood_env = \<lparr>pe_run = (\<lambda>_ _ _ _ _ w. w), pe_fresh = (\<lambda>_. 1), pe_no_oper_flood = True, pe_post_registration_delay = 0, pe_client_flood = 20\<rparr>"

lemma flood_handlers: "handler_serves (pe_run flood_env) p" "handler_settled (pe_run flood_env) p"
  by (simp_all add: handler_serves_def handler_settled_def handler_keeps_def flood_env_def)

lemma flood_st_served: "served 1 flood_st"
proof -
  have "refs_ok [rb_linebuf_newbuf\<lparr>bh_list := [0]\<rparr>] (pk_lines flood_st)"
    by (simp add: flood_st_def refs_ok_def refs_def sent_line_facts BUF_DATA_SIZE_def)
  then have "\<exists>hs. refs_ok (pk_recvq flood_st 1 # hs) (pk_lines flood_st)" by (intro exI [of _ "[]"]) (simp add: flood_st_def)
  then show ?thesis
    by (simp add: served_def served_world_def pworld_ok_def connected_def flood_st_def zero_pworld_def zero_tabs_def lines_ok_def sent_line_facts
        BUF_DATA_SIZE_def) (simp add: flood_bob_def MyConnect_def FLAGS_MYCONNECT_def FLAGS_FLOODDONE_def clear_hash_parse_def)
qed

theorem parse_client_queued_total_witness:
  "\<exists>st. parse_client_queued flood_env 1 flood_st = Some st \<and> served 1 st"
  by (rule parse_client_queued_total [OF flood_st_served flood_handlers(1)])

theorem flood_rate_witness:
  "\<exists>st c lu k. flood_run flood_env 1 1 flood_st st \<and> pclient 1 st = Some c \<and> cl_local c = Some lu \<and> lu_receiveM lu = of_nat k \<and> int k \<le> 23"
proof -
  obtain st where "recalc_client flood_env 1 flood_st = Some st" using recalc_served [OF flood_st_served flood_handlers(1)] by blast
  then have run: "flood_run flood_env 1 1 flood_st st" using flood_run.second [OF flood_run.start] by (simp add: One_nat_def)
  have c: "pclient 1 flood_st = Some flood_bob" "settled flood_bob" "cl_local flood_bob = Some (zero_LocalUser\<lparr>lu_allow_read := MAX_FLOOD\<rparr>)"
    by (simp_all add: pclient_def flood_st_def flood_bob_def settled_def IsClient_def IsFloodDone_def IsExemptFlood_def FLAGS_MYCONNECT_def
        FLAGS_FLOODDONE_def FLAGS_EXEMPTFLOOD_def)
  have m: "max_burst flood_env MAX_FLOOD = 20" by (simp add: max_burst_def flood_env_def MAX_FLOOD_def)
  show ?thesis using flood_rate [OF run flood_handlers(2) _ c] m run by (auto simp: zero_LocalUser_def)
qed

end
