(* ===== verification/Monitor.thy ===== *)
theory Monitor
  imports Whowas Chan_Mode
begin

text \<open>
  Notify lists: \<^verbatim>\<open>monitor.c\<close> and the MONITOR command (\<^verbatim>\<open>m_monitor.c\<close>).  A \<^verbatim>\<open>struct monitor\<close> stands for a nick that is watched;
  it lists the clients that watch it, and each client lists the monitors it has.
\<close>

section \<open>State\<close>

record monitor =
  mon_name :: string
  mon_users :: "ptr list"

record notify_state =
  mo_clients :: "ptr \<rightharpoonup> Client"
  mo_tabs :: hashtabs
  mo_me :: string  \<comment> \<open>\<^verbatim>\<open>me.name\<close>\<close>
  mo_max :: int  \<comment> \<open>\<^verbatim>\<open>ConfigFileEntry.max_monitor\<close>\<close>
  mo_list :: "ptr \<Rightarrow> ptr list"  \<comment> \<open>\<^verbatim>\<open>localClient->monitor_list\<close>\<close>
  mo_mons :: "ptr \<rightharpoonup> monitor"
  mo_table :: "32 word \<Rightarrow> ptr list"  \<comment> \<open>\<^verbatim>\<open>monitorTable\<close>, the chains over \<^verbatim>\<open>hnext\<close>\<close>
  mo_next :: ptr
  mo_out :: "(ptr \<times> string) list"

definition MONITOR_HASH_BITS :: nat where "MONITOR_HASH_BITS = 16"
definition MONITOR_HASH_SIZE :: nat where "MONITOR_HASH_SIZE = 2 ^ MONITOR_HASH_BITS"

definition hash_monitor_nick :: "string \<Rightarrow> 32 word" where
  "hash_monitor_nick name = fnv_hash_upper name MONITOR_HASH_BITS 0"

definition find_monitor :: "string \<Rightarrow> bool \<Rightarrow> notify_state \<Rightarrow> (ptr option \<times> notify_state) option" where
  "find_monitor name add st = do {
     let hashv = hash_monitor_nick name;
     r \<leftarrow> foreach_find (mo_mons st) (\<lambda>m. irccmp (mon_name m) name = 0) (mo_table st hashv);
     Some (if r = None \<and> add
       then (Some (mo_next st), st\<lparr>mo_next := Suc (mo_next st), mo_table := bucket_add hashv (mo_next st) (mo_table st),
               mo_mons := (mo_mons st)(mo_next st \<mapsto> \<lparr>mon_name = rb_strlcpy name NICKLEN, mon_users = []\<rparr>)\<rparr>)
       else (r, st))
   }"

section \<open>Telling the watchers\<close>

text \<open>
  \<^verbatim>\<open>sendto_monitor()\<close> of \<^verbatim>\<open>send.c\<close>.  The output is what is handed to \<^verbatim>\<open>_send_linebuf()\<close>, client by client; what that function
  does with a line (it drops it for a dead link or a full send queue) is not part of this model.
\<close>

definition sendto_monitor :: "ptr \<Rightarrow> string \<Rightarrow> notify_state \<Rightarrow> notify_state option" where
  "sendto_monitor monptr line st = do {
     m \<leftarrow> mo_mons st monptr;
     ps \<leftarrow> those (map (\<lambda>p. map_option (\<lambda>c. (p, c)) (mo_clients st p)) (mon_users m));
     Some (st\<lparr>mo_out := mo_out st @ map (\<lambda>(p, c). (p, line)) (filter (\<lambda>(p, c). \<not> IsIOError c) ps)\<rparr>)
   }"

definition monitor_signon :: "ptr \<Rightarrow> notify_state \<Rightarrow> notify_state option" where
  "monitor_signon client_p st = do {
     c \<leftarrow> mo_clients st client_p;
     (mp, st) \<leftarrow> find_monitor (cl_name c) False st;
     case mp of None \<Rightarrow> Some st
     | Some monptr \<Rightarrow>
         sendto_monitor monptr ('':'' @ mo_me st @ '' 730 * :'' @ rb_strlcpy (cl_name c @ ''!'' @ cl_username c @ ''@'' @
           (if IsCloaked c then cl_virthost c else cl_host c)) USERHOST_REPLYLEN) st
   }"

definition monitor_signoff :: "ptr \<Rightarrow> notify_state \<Rightarrow> notify_state option" where
  "monitor_signoff client_p st = do {
     c \<leftarrow> mo_clients st client_p;
     (mp, st) \<leftarrow> find_monitor (cl_name c) False st;
     case mp of None \<Rightarrow> Some st
     | Some monptr \<Rightarrow> sendto_monitor monptr ('':'' @ mo_me st @ '' 731 * :'' @ cl_name c) st
   }"

definition upd_mon :: "ptr \<Rightarrow> (ptr list \<Rightarrow> ptr list) \<Rightarrow> notify_state \<Rightarrow> notify_state option" where
  "upd_mon mp f st = do {
     m \<leftarrow> mo_mons st mp;
     Some (st\<lparr>mo_mons := (mo_mons st)(mp \<mapsto> m\<lparr>mon_users := f (mon_users m)\<rparr>)\<rparr>)
   }"

fun clear_loop :: "ptr \<Rightarrow> ptr list \<Rightarrow> notify_state \<Rightarrow> notify_state option" where
  "clear_loop client_p [] st = Some st"
| "clear_loop client_p (mp # mps) st = do {
     st \<leftarrow> upd_mon mp (remove1 client_p) st;
     clear_loop client_p mps st
   }"

definition clear_monitor :: "ptr \<Rightarrow> notify_state \<Rightarrow> notify_state option" where
  "clear_monitor client_p st = do {
     st \<leftarrow> clear_loop client_p (mo_list st client_p) st;
     Some (st\<lparr>mo_list := (mo_list st)(client_p := [])\<rparr>)
   }"

section \<open>Lists of nicks\<close>

text \<open>The tokens of \<^verbatim>\<open>rb_strtok_r\<close>, each with what the saved pointer shows after it.\<close>

definition strtok :: "char \<Rightarrow> string \<Rightarrow> (string \<times> string) option" where
  "strtok d s =
     (let s = dropWhile (\<lambda>c. c = d) s; token = takeWhile (\<lambda>c. c \<noteq> d) s
      in if s = [] then None else Some (token, drop (Suc (length token)) s))"

lemma strtok_shorter: "strtok d s = Some (t, r) \<Longrightarrow> length r < length s"
proof -
  assume a: "strtok d s = Some (t, r)"
  then have "dropWhile (\<lambda>c. c = d) s \<noteq> []" "r = drop (Suc (length t)) (dropWhile (\<lambda>c. c = d) s)"
    by (auto simp: strtok_def Let_def split: if_split_asm)
  then have "length r < length (dropWhile (\<lambda>c. c = d) s)" by simp
  then show ?thesis using length_dropWhile_le [of "\<lambda>c. c = d" s] by linarith
qed

function tokens :: "char \<Rightarrow> string \<Rightarrow> (string \<times> string) list" where
  "tokens d s = (case strtok d s of None \<Rightarrow> [] | Some (t, r) \<Rightarrow> (t, r) # tokens d r)"
  by pat_completeness auto
termination by (relation "measure (\<lambda>(d, s). length s)") (auto dest: strtok_shorter)

declare tokens.simps [simp del]

text \<open>
  A line of nicks in a buffer of \<^verbatim>\<open>BUFSIZE\<close> bytes: \<open>base\<close> is its head, and an item that may not fit any more sends the line and starts a
  new one.  The results are the line to send, if any, and the new contents; a write past the buffer is \<^term>\<open>None\<close>.
\<close>

definition put_item :: "string \<Rightarrow> string \<Rightarrow> string \<Rightarrow> (string option \<times> string) option" where
  "put_item base item cur =
     (let full = (length cur + Suc (length item) \<ge> BUFSIZE - 3);
          cur1 = (if full then base else cur);
          cur2 = (if length cur1 \<noteq> length base then cur1 @ '','' else cur1) @ item
      in if length cur2 < BUFSIZE then Some (if full then Some cur else None, cur2) else None)"

definition sendto_one_buffer :: "ptr \<Rightarrow> string \<Rightarrow> notify_state \<Rightarrow> notify_state option" where
  "sendto_one_buffer target_p line st = do {
     c \<leftarrow> mo_clients st target_p;
     d \<leftarrow> mo_clients st (cl_from c);
     Some (if IsIOError d then st else st\<lparr>mo_out := mo_out st @ [(cl_from c, line)]\<rparr>)
   }"

definition send_opt :: "ptr \<Rightarrow> string option \<Rightarrow> notify_state \<Rightarrow> notify_state option" where
  "send_opt p line st = (case line of None \<Rightarrow> Some st | Some l \<Rightarrow> sendto_one_buffer p l st)"

text \<open>The head of a numeric, and both buffers with the heads in them.\<close>

definition mon_head :: "string \<Rightarrow> ptr \<Rightarrow> notify_state \<Rightarrow> string option" where
  "mon_head num p st = do {
     c \<leftarrow> mo_clients st p;
     let head = '':'' @ mo_me st @ '' '' @ num @ '' '' @ cl_name c @ '' :'';
     if length head < BUFSIZE then Some head else None
   }"

definition status_item :: "string \<Rightarrow> notify_state \<Rightarrow> (bool \<times> string) option" where
  "status_item name st = do {
     t \<leftarrow> find_named_person (mo_clients st) (mo_tabs st) name;
     case t of
       None \<Rightarrow> Some (False, name)
     | Some tp \<Rightarrow> do {
         target \<leftarrow> mo_clients st tp;
         Some (True, cl_name target @ ''!'' @ cl_username target @ ''@'' @ (if IsCloaked target then cl_virthost target else cl_host target))
       }
   }"

text \<open>The state of a nick goes into the buffer of those online or of those offline.\<close>

definition put_status :: "ptr \<Rightarrow> string \<Rightarrow> string \<Rightarrow> string \<Rightarrow> string \<times> string \<Rightarrow> notify_state \<Rightarrow> ((string \<times> string) \<times> notify_state) option" where
  "put_status p on_head off_head name bufs st = do {
     (online, item) \<leftarrow> status_item name st;
     (sent, cur) \<leftarrow> (if online then put_item on_head item (fst bufs) else put_item off_head item (snd bufs));
     st \<leftarrow> send_opt p sent st;
     Some (if online then (cur, snd bufs) else (fst bufs, cur), st)
   }"

definition flush_bufs :: "ptr \<Rightarrow> string \<Rightarrow> string \<Rightarrow> string \<times> string \<Rightarrow> notify_state \<Rightarrow> notify_state option" where
  "flush_bufs p on_head off_head bufs st = do {
     st \<leftarrow> send_opt p (if length (fst bufs) \<noteq> length on_head then Some (fst bufs) else None) st;
     send_opt p (if length (snd bufs) \<noteq> length off_head then Some (snd bufs) else None) st
   }"

section \<open>The command\<close>

fun add_loop :: "ptr \<Rightarrow> string \<Rightarrow> string \<Rightarrow> (string \<times> string) list \<Rightarrow> string \<times> string \<Rightarrow> notify_state \<Rightarrow> notify_state option" where
  "add_loop client_p on_head off_head [] bufs st = flush_bufs client_p on_head off_head bufs st"
| "add_loop client_p on_head off_head ((name, rest) # ts) bufs st =
     (if name = [] \<or> length name > NICKLEN - 1 then add_loop client_p on_head off_head ts bufs st
      else if int (length (mo_list st client_p)) \<ge> mo_max st then do {
        c \<leftarrow> mo_clients st client_p;
        st \<leftarrow> flush_bufs client_p on_head off_head bufs st;
        sendto_one_buffer client_p ('':'' @ mo_me st @ '' 734 '' @ cl_name c @ '' '' @ int_str (mo_max st) @ '' '' @
          rb_strlcpy (name @ '','' @ rest) 100 @ '' :Monitor list is full'') st
      }
      else do {
        (mp, st) \<leftarrow> find_monitor name True st;
        monptr \<leftarrow> mp;
        m \<leftarrow> mo_mons st monptr;
        if client_p \<in> set (mon_users m) then add_loop client_p on_head off_head ts bufs st
        else do {
          st \<leftarrow> upd_mon monptr (\<lambda>us. client_p # us) st;
          let st = st\<lparr>mo_list := (mo_list st)(client_p := monptr # mo_list st client_p)\<rparr>;
          (bufs, st) \<leftarrow> put_status client_p on_head off_head name bufs st;
          add_loop client_p on_head off_head ts bufs st
        }
      })"

definition add_monitor :: "ptr \<Rightarrow> string \<Rightarrow> notify_state \<Rightarrow> notify_state option" where
  "add_monitor client_p nicks st = do {
     on_head \<leftarrow> mon_head ''730'' client_p st;
     off_head \<leftarrow> mon_head ''731'' client_p st;
     add_loop client_p on_head off_head (tokens (CHR '','') nicks) (on_head, off_head) st
   }"

fun del_loop :: "ptr \<Rightarrow> (string \<times> string) list \<Rightarrow> notify_state \<Rightarrow> notify_state option" where
  "del_loop client_p [] st = Some st"
| "del_loop client_p ((name, rest) # ts) st =
     (if name = [] then del_loop client_p ts st
      else do {
        (mp, st) \<leftarrow> find_monitor name False st;
        case mp of
          None \<Rightarrow> del_loop client_p ts st
        | Some monptr \<Rightarrow> do {
            st \<leftarrow> upd_mon monptr (remove1 client_p) st;
            del_loop client_p ts (st\<lparr>mo_list := (mo_list st)(client_p := remove1 monptr (mo_list st client_p))\<rparr>)
          }
      })"

definition del_monitor :: "ptr \<Rightarrow> string \<Rightarrow> notify_state \<Rightarrow> notify_state option" where
  "del_monitor client_p nicks st =
     (if mo_list st client_p = [] then Some st else del_loop client_p (tokens (CHR '','') nicks) st)"

fun list_loop :: "ptr \<Rightarrow> string \<Rightarrow> ptr list \<Rightarrow> string \<Rightarrow> notify_state \<Rightarrow> (string \<times> notify_state) option" where
  "list_loop client_p head [] buf st = Some (buf, st)"
| "list_loop client_p head (mp # mps) buf st = do {
     m \<leftarrow> mo_mons st mp;
     (sent, buf) \<leftarrow> put_item head (mon_name m) buf;
     st \<leftarrow> send_opt client_p sent st;
     list_loop client_p head mps buf st
   }"

definition end_of_list :: "ptr \<Rightarrow> notify_state \<Rightarrow> notify_state option" where
  "end_of_list client_p st = do {
     c \<leftarrow> mo_clients st client_p;
     sendto_one_buffer client_p ('':'' @ mo_me st @ '' 733 '' @ cl_name c @ '' :End of MONITOR list'') st
   }"

text \<open>The corks around the lines are set and taken off again, and are left out.\<close>

definition list_monitor :: "ptr \<Rightarrow> notify_state \<Rightarrow> notify_state option" where
  "list_monitor client_p st =
     (if mo_list st client_p = [] then end_of_list client_p st
      else do {
        head \<leftarrow> mon_head ''732'' client_p st;
        (buf, st) \<leftarrow> list_loop client_p head (mo_list st client_p) head st;
        st \<leftarrow> sendto_one_buffer client_p buf st;
        end_of_list client_p st
      })"

fun status_loop :: "ptr \<Rightarrow> string \<Rightarrow> string \<Rightarrow> ptr list \<Rightarrow> string \<times> string \<Rightarrow> notify_state \<Rightarrow> notify_state option" where
  "status_loop client_p on_head off_head [] bufs st = flush_bufs client_p on_head off_head bufs st"
| "status_loop client_p on_head off_head (mp # mps) bufs st = do {
     m \<leftarrow> mo_mons st mp;
     (bufs, st) \<leftarrow> put_status client_p on_head off_head (mon_name m) bufs st;
     status_loop client_p on_head off_head mps bufs st
   }"

definition show_monitor_status :: "ptr \<Rightarrow> notify_state \<Rightarrow> notify_state option" where
  "show_monitor_status client_p st = do {
     on_head \<leftarrow> mon_head ''730'' client_p st;
     off_head \<leftarrow> mon_head ''731'' client_p st;
     status_loop client_p on_head off_head (mo_list st client_p) (on_head, off_head) st
   }"

definition m_monitor :: "ptr \<Rightarrow> ptr \<Rightarrow> string list \<Rightarrow> notify_state \<Rightarrow> notify_state option" where
  "m_monitor client_p source_p parv st =
     (if length parv < 2 then None
      else let what = headc (parv ! 1) in
        if what = CHR ''+'' \<or> what = CHR ''-'' then
          if length parv < 3 \<or> parv ! 2 = [] then do {
            s \<leftarrow> mo_clients st source_p;
            sendto_one_buffer client_p ('':'' @ mo_me st @ '' 461 '' @ cl_name s @ '' MONITOR :Not enough parameters'') st
          }
          else if what = CHR ''+'' then add_monitor source_p (parv ! 2) st
          else del_monitor source_p (parv ! 2) st
        else if what = CHR ''C'' \<or> what = CHR ''c'' then clear_monitor source_p st
        else if what = CHR ''L'' \<or> what = CHR ''l'' then list_monitor source_p st
        else if what = CHR ''S'' \<or> what = CHR ''s'' then show_monitor_status source_p st
        else Some st)"

section \<open>Cleaning up\<close>

text \<open>A chain loses the entries nobody watches any more.\<close>

fun cleanup_chain :: "ptr list \<Rightarrow> (ptr \<rightharpoonup> monitor) \<Rightarrow> (ptr list \<times> (ptr \<rightharpoonup> monitor)) option" where
  "cleanup_chain [] mons = Some ([], mons)"
| "cleanup_chain (p # ps) mons = do {
     m \<leftarrow> mons p;
     if mon_users m = [] then cleanup_chain ps (mons(p := None))
     else do { (qs, mons) \<leftarrow> cleanup_chain ps mons; Some (p # qs, mons) }
   }"

fun cleanup_loop :: "32 word list \<Rightarrow> notify_state \<Rightarrow> notify_state option" where
  "cleanup_loop [] st = Some st"
| "cleanup_loop (i # is) st = do {
     (ps, mons) \<leftarrow> cleanup_chain (mo_table st i) (mo_mons st);
     cleanup_loop is (st\<lparr>mo_table := (mo_table st)(i := ps), mo_mons := mons\<rparr>)
   }"

definition cleanup_monitor :: "notify_state \<Rightarrow> notify_state option" where
  "cleanup_monitor st = cleanup_loop (map of_nat [0..<MONITOR_HASH_SIZE]) st"

section \<open>The invariant\<close>

abbreviation (input) mon_key :: "(ptr \<rightharpoonup> monitor) \<Rightarrow> ptr \<rightharpoonup> string" where
  "mon_key ms p \<equiv> map_option mon_name (ms p)"

definition nick_same :: "string \<Rightarrow> string \<Rightarrow> bool" where
  "nick_same k k' \<longleftrightarrow> irccmp k' k = 0"

lemma nick_same_iff: "cstring k \<Longrightarrow> cstring k' \<Longrightarrow> nick_same k k' \<longleftrightarrow> map ToUpper k = map ToUpper k'"
  by (auto simp: nick_same_def irccmp_eq_0_iff)

lemma hash_monitor_less: "hash_monitor_nick name < 2 ^ MONITOR_HASH_BITS"
  unfolding hash_monitor_nick_def fnv_hash_upper_def by (rule fnv_fold_less) (simp_all add: MONITOR_HASH_BITS_def)

interpretation mons: chained_table hash_monitor_nick nick_same cstring "2 ^ MONITOR_HASH_BITS"
  by unfold_locales
    (simp_all only: hash_monitor_less, simp_all add: nick_same_iff, simp_all add: nick_same_def hash_monitor_nick_def fnv_hash_upper_def)

definition mon_tab_ok :: "(ptr \<rightharpoonup> monitor) \<Rightarrow> table \<Rightarrow> bool" where
  "mon_tab_ok ms b \<longleftrightarrow> tab_ok hash_monitor_nick (mon_key ms) b \<and> tab_set b = dom ms \<and> (\<forall>p m. ms p = Some m \<longrightarrow> cstring (mon_name m) \<and> length (mon_name m) < NICKLEN) \<and>
     keys_unique nick_same (mon_key ms) b"

text \<open>A client is in the list of a monitor exactly when the monitor is in the list of the client.\<close>

definition mon_links :: "(ptr \<Rightarrow> ptr list) \<Rightarrow> (ptr \<rightharpoonup> monitor) \<Rightarrow> bool" where
  "mon_links ls ms \<longleftrightarrow> (\<forall>cp. distinct (ls cp)) \<and> (\<forall>mp m. ms mp = Some m \<longrightarrow> distinct (mon_users m)) \<and>
     (\<forall>cp mp. mp \<in> set (ls cp) \<longleftrightarrow> (\<exists>m. ms mp = Some m \<and> cp \<in> set (mon_users m)))"

definition mon_ok :: "notify_state \<Rightarrow> bool" where
  "mon_ok st \<longleftrightarrow> mon_tab_ok (mo_mons st) (mo_table st) \<and> mon_links (mo_list st) (mo_mons st) \<and> (\<forall>p \<ge> mo_next st. mo_mons st p = None)"

definition watched :: "notify_state \<Rightarrow> string \<Rightarrow> ptr \<Rightarrow> bool" where
  "watched st name mp \<longleftrightarrow> (\<exists>m. mo_mons st mp = Some m \<and> nick_same name (mon_name m))"

text \<open>The specification: which client watches which nick.\<close>

definition watching :: "notify_state \<Rightarrow> ptr \<Rightarrow> string \<Rightarrow> bool" where
  "watching st cp name \<longleftrightarrow> (\<exists>mp \<in> set (mo_list st cp). watched st name mp)"

lemma mon_tabD:
  assumes "mon_tab_ok ms b"
  shows "tab_ok hash_monitor_nick (mon_key ms) b" "tab_set b = dom ms" "mons.keys_valid (mon_key ms) b" "keys_unique nick_same (mon_key ms) b"
    "ms p = Some m \<Longrightarrow> cstring (mon_name m)" "ms p = Some m \<Longrightarrow> length (mon_name m) < NICKLEN"
  using assms by (auto simp: mon_tab_ok_def mons.keys_valid_def)

lemma find_monitor_False:
  assumes ok: "mon_ok st" and n: "cstring name"
  shows "\<exists>r. find_monitor name False st = Some (r, st) \<and> (\<forall>mp. r = Some mp \<longleftrightarrow> watched st name mp)"
proof -
  have tab: "mon_tab_ok (mo_mons st) (mo_table st)" using ok by (simp add: mon_ok_def)
  note t = mon_tabD [OF tab]
  let ?r = "tab_find hash_monitor_nick nick_same (mon_key (mo_mons st)) (mo_table st) name"
  have f: "find_monitor name False st = Some (?r, st)"
    using foreach_tab_find [OF t(1), of nick_same name] by (simp add: find_monitor_def Let_def nick_same_def)
  have "?r = Some mp \<longleftrightarrow> watched st name mp" for mp
  proof
    assume "?r = Some mp"
    then show "watched st name mp" using mons.find_sound [OF t(1)] by (fastforce simp: watched_def)
  next
    assume "watched st name mp"
    then obtain m where m: "mo_mons st mp = Some m" "nick_same name (mon_name m)" by (auto simp: watched_def)
    then have "mp \<in> tab_set (mo_table st)" using t(2) by auto
    then show "?r = Some mp" using mons.find_unique [OF t(1,3,4), of mp "mon_name m" name] m n by simp
  qed
  then show ?thesis using f by blast
qed

text \<open>What none of the operations on monitors touches.\<close>

definition mo_frame :: "notify_state \<Rightarrow> notify_state \<Rightarrow> bool" where
  "mo_frame st st' \<longleftrightarrow> mo_clients st' = mo_clients st \<and> mo_tabs st' = mo_tabs st \<and> mo_me st' = mo_me st \<and> mo_max st' = mo_max st"

lemma mon_tab_new:
  assumes ok: "mon_tab_ok ms b" and n: "cstring name" "\<And>p m. ms p = Some m \<Longrightarrow> \<not> nick_same name (mon_name m)" "length name < NICKLEN"
    and new: "ms new = None"
  shows "mon_tab_ok (ms(new \<mapsto> \<lparr>mon_name = name, mon_users = []\<rparr>)) (bucket_add (hash_monitor_nick name) new b)"
proof -
  note t = mon_tabD [OF ok]
  let ?ms = "ms(new \<mapsto> \<lparr>mon_name = name, mon_users = []\<rparr>)"
  have k: "mon_key ?ms = (mon_key ms)(new \<mapsto> name)" by (rule ext) simp
  have fresh: "new \<notin> tab_set b" using t(2) new by auto
  have "tab_ok hash_monitor_nick (mon_key ?ms) b" unfolding k using tab_ok_fresh_key [OF t(1) fresh] .
  then have "tab_ok hash_monitor_nick (mon_key ?ms) (bucket_add (hash_monitor_nick name) new b)" by (rule mons.add_ok) (simp_all add: fresh)
  moreover have "keys_unique nick_same (mon_key ?ms) (bucket_add (hash_monitor_nick name) new b)"
    unfolding keys_unique_def tab_set_add
  proof (intro ballI impI)
    fix p q assume pq: "p \<in> insert new (tab_set b)" "q \<in> insert new (tab_set b)" "nick_same (the (mon_key ?ms p)) (the (mon_key ?ms q))"
    have other: "\<not> nick_same name (the (mon_key ms x)) \<and> \<not> nick_same (the (mon_key ms x)) name" if "x \<in> tab_set b" for x
    proof -
      from that t(2,5) obtain m where m: "ms x = Some m" "cstring (mon_name m)" by auto
      then show ?thesis using n(2) [OF m(1)] n(1) by (simp add: nick_same_iff)
    qed
    show "p = q"
    proof (cases "p = new \<or> q = new")
      case True
      then show ?thesis using pq other fresh by (auto split: if_split_asm)
    next
      case False
      then show ?thesis using pq t(4) by (auto simp: keys_unique_def)
    qed
  qed
  ultimately show ?thesis using t(2,5,6) n(1,3) unfolding mon_tab_ok_def tab_set_add by (auto split: if_split_asm)
qed

lemma find_monitor_True:
  assumes ok: "mon_ok st" and n: "cstring name" "length name < NICKLEN"
  shows "\<exists>mp st'. find_monitor name True st = Some (Some mp, st') \<and> mon_ok st' \<and> watched st' name mp \<and> watching st' = watching st \<and>
    mo_frame st st' \<and> mo_list st' = mo_list st"
proof -
  from find_monitor_False [OF ok n(1)] obtain r where r: "find_monitor name False st = Some (r, st)" "\<And>mp. r = Some mp \<longleftrightarrow> watched st name mp" by blast
  show ?thesis
  proof (cases r)
    case (Some mp)
    then have "find_monitor name True st = Some (Some mp, st)" using r(1) by (auto simp: find_monitor_def Let_def split: Option.bind_split_asm)
    then show ?thesis using ok r(2) Some by (auto simp: mo_frame_def)
  next
    case None
    let ?m = "\<lparr>mon_name = name, mon_users = []\<rparr>"
    let ?st = "st\<lparr>mo_next := Suc (mo_next st), mo_table := bucket_add (hash_monitor_nick name) (mo_next st) (mo_table st),
               mo_mons := (mo_mons st)(mo_next st \<mapsto> ?m)\<rparr>"
    have cut: "rb_strlcpy name NICKLEN = name" using n(2) by (simp add: rb_strlcpy_def)
    have f: "find_monitor name True st = Some (Some (mo_next st), ?st)"
      using r(1) None cut by (auto simp: find_monitor_def Let_def split: Option.bind_split_asm)
    have new: "mo_mons st (mo_next st) = None" and tab: "mon_tab_ok (mo_mons st) (mo_table st)" and li: "mon_links (mo_list st) (mo_mons st)"
      using ok by (auto simp: mon_ok_def)
    have no: "\<not> nick_same name (mon_name m)" if "mo_mons st p = Some m" for p m using r(2) None that by (auto simp: watched_def)
    have "mon_links (mo_list st) (mo_mons ?st)" using li new by (auto simp: mon_links_def)
    moreover have nl: "mo_next st \<notin> set (mo_list st cp)" for cp using li new by (auto simp: mon_links_def)
    ultimately have "mon_ok ?st" using mon_tab_new [OF tab n(1) no n(2) new] ok by (auto simp: mon_ok_def)
    moreover have "watching ?st = watching st"
    proof (intro ext)
      fix cp nn
      have "watched ?st nn mp = watched st nn mp" if "mp \<in> set (mo_list st cp)" for mp
        using that nl [of cp] by (auto simp: watched_def)
      then show "watching ?st cp nn = watching st cp nn" by (simp add: watching_def)
    qed
    moreover have "watched ?st name (mo_next st)" by (simp add: watched_def nick_same_def)
    ultimately show ?thesis using f by (auto simp: mo_frame_def)
  qed
qed

lemma mon_tab_users:
  assumes "mon_tab_ok ms b" "ms mp = Some m"
  shows "mon_tab_ok (ms(mp \<mapsto> m\<lparr>mon_users := us\<rparr>)) b"
proof -
  have "mon_key (ms(mp \<mapsto> m\<lparr>mon_users := us\<rparr>)) = mon_key ms" using assms(2) by (auto simp: fun_eq_iff)
  then show ?thesis using assms unfolding mon_tab_ok_def by (auto split: if_split_asm)
qed

lemma watched_users: "mo_mons st mp = Some m \<Longrightarrow>
    watched (st\<lparr>mo_mons := (mo_mons st)(mp \<mapsto> m\<lparr>mon_users := us\<rparr>), mo_list := ls\<rparr>) nn q = watched st nn q"
  by (auto simp: watched_def)

lemma watched_unique:
  assumes ok: "mon_ok st" and "watched st nn mp" "watched st nn mq" "cstring nn"
  shows "mp = mq"
proof -
  have tab: "mon_tab_ok (mo_mons st) (mo_table st)" using ok by (simp add: mon_ok_def)
  note t = mon_tabD [OF tab]
  from assms(2,3) obtain m m' where m: "mo_mons st mp = Some m" "mo_mons st mq = Some m'" "nick_same nn (mon_name m)" "nick_same nn (mon_name m')"
    by (auto simp: watched_def)
  then have "nick_same (mon_name m) (mon_name m')" using t(5) assms(4) by (auto simp: nick_same_iff)
  then show ?thesis using t(2,4) m(1,2) unfolding keys_unique_def by force
qed

text \<open>Putting a nick on the list of a client, and taking it off.\<close>

lemma mon_link:
  assumes ok: "mon_ok st" and m: "mo_mons st mp = Some m" "cp \<notin> set (mon_users m)"
  defines "st' \<equiv> st\<lparr>mo_mons := (mo_mons st)(mp \<mapsto> m\<lparr>mon_users := cp # mon_users m\<rparr>), mo_list := (mo_list st)(cp := mp # mo_list st cp)\<rparr>"
  shows "mon_ok st'" "watching st' q nn \<longleftrightarrow> watching st q nn \<or> q = cp \<and> watched st nn mp"
proof -
  have tab: "mon_tab_ok (mo_mons st) (mo_table st)" and li: "mon_links (mo_list st) (mo_mons st)" using ok by (auto simp: mon_ok_def)
  have "mp \<notin> set (mo_list st cp)" using li m by (auto simp: mon_links_def)
  then have "mon_links (mo_list st') (mo_mons st')" using li m unfolding mon_links_def st'_def by auto
  moreover have "mp < mo_next st" using ok m(1) unfolding mon_ok_def by (metis leI option.distinct(1))
  ultimately show "mon_ok st'" using mon_tab_users [OF tab m(1), of "cp # mon_users m"] ok by (auto simp: mon_ok_def st'_def)
  show "watching st' q nn \<longleftrightarrow> watching st q nn \<or> q = cp \<and> watched st nn mp"
    unfolding watching_def st'_def using watched_users [OF m(1), where us = "cp # mon_users m"] by (auto split: if_split_asm)
qed

lemma mon_unlink:
  fixes cp :: ptr
  assumes ok: "mon_ok st" and m: "mo_mons st mp = Some m"
  defines "st' \<equiv> st\<lparr>mo_mons := (mo_mons st)(mp \<mapsto> m\<lparr>mon_users := remove1 cp (mon_users m)\<rparr>), mo_list := (mo_list st)(cp := remove1 mp (mo_list st cp))\<rparr>"
  shows "mon_ok st'" "cstring nn \<Longrightarrow> watching st' q nn \<longleftrightarrow> watching st q nn \<and> \<not> (q = cp \<and> watched st nn mp)"
proof -
  have tab: "mon_tab_ok (mo_mons st) (mo_table st)" and li: "mon_links (mo_list st) (mo_mons st)" using ok by (auto simp: mon_ok_def)
  have d: "distinct (mo_list st cp)" "distinct (mon_users m)" using li m by (auto simp: mon_links_def)
  then have "mon_links (mo_list st') (mo_mons st')" using li m unfolding mon_links_def st'_def by auto
  moreover have "mp < mo_next st" using ok m(1) unfolding mon_ok_def by (metis leI option.distinct(1))
  ultimately show "mon_ok st'" using mon_tab_users [OF tab m, of "remove1 cp (mon_users m)"] ok by (auto simp: mon_ok_def st'_def)
  assume nn: "cstring nn"
  have "\<not> watched st nn mq" if "watched st nn mp" "mq \<noteq> mp" for mq using watched_unique [OF ok that(1) _ nn] that by blast
  then show "watching st' q nn \<longleftrightarrow> watching st q nn \<and> \<not> (q = cp \<and> watched st nn mp)"
    unfolding watching_def st'_def using watched_users [OF m, where us = "remove1 cp (mon_users m)"] d(1) by (auto split: if_split_asm)
qed

section \<open>The lines\<close>

lemma sendto_one_buffer_frame:
  "sendto_one_buffer p l st = Some st' \<Longrightarrow> mo_frame st st' \<and> mo_list st' = mo_list st \<and> mo_mons st' = mo_mons st \<and> mo_table st' = mo_table st \<and> mo_next st' = mo_next st"
  by (auto simp: sendto_one_buffer_def mo_frame_def split: Option.bind_split_asm)

definition only_out :: "notify_state \<Rightarrow> notify_state \<Rightarrow> bool" where
  "only_out st st' \<longleftrightarrow> mo_frame st st' \<and> mo_list st' = mo_list st \<and> mo_mons st' = mo_mons st \<and> mo_table st' = mo_table st \<and> mo_next st' = mo_next st"

lemma only_out_refl [simp]: "only_out st st" by (simp add: only_out_def mo_frame_def)

lemma only_out_trans: "only_out st st1 \<Longrightarrow> only_out st1 st2 \<Longrightarrow> only_out st st2" by (simp add: only_out_def mo_frame_def)

lemma only_out_send: "sendto_one_buffer p l st = Some st' \<Longrightarrow> only_out st st'"
  by (simp add: only_out_def sendto_one_buffer_frame)

lemma only_out_opt: "send_opt p l st = Some st' \<Longrightarrow> only_out st st'"
  by (auto simp: send_opt_def only_out_send split: option.split_asm)

lemma only_out_flush: "flush_bufs p a b bufs st = Some st' \<Longrightarrow> only_out st st'"
  unfolding flush_bufs_def by (auto split: Option.bind_split_asm dest!: only_out_opt intro: only_out_trans)

lemma only_out_status: "put_status p a b n bufs st = Some (bufs', st') \<Longrightarrow> only_out st st'"
  unfolding put_status_def by (auto split: Option.bind_split_asm prod.split_asm if_split_asm dest!: only_out_opt)

lemma only_out_mon:
  assumes "only_out st st'"
  shows "mon_ok st' = mon_ok st" "watching st' = watching st" "mo_list st' = mo_list st" "mo_max st' = mo_max st"
proof -
  have e: "mo_list st' = mo_list st" "mo_mons st' = mo_mons st" "mo_table st' = mo_table st" "mo_next st' = mo_next st" "mo_max st' = mo_max st"
    using assms by (simp_all add: only_out_def mo_frame_def)
  then show "mon_ok st' = mon_ok st" "watching st' = watching st" "mo_list st' = mo_list st" "mo_max st' = mo_max st"
    by (simp_all add: mon_ok_def watching_def [abs_def] watched_def)
qed

section \<open>What the commands do\<close>

text \<open>The client watches more nicks, all of them in \<open>N\<close>, within the limit; nobody else watches more or less.\<close>

definition grows :: "ptr \<Rightarrow> (string \<Rightarrow> bool) \<Rightarrow> notify_state \<Rightarrow> notify_state \<Rightarrow> bool" where
  "grows cp N st st' \<longleftrightarrow> mo_max st' = mo_max st \<and> (\<forall>q. q \<noteq> cp \<longrightarrow> mo_list st' q = mo_list st q) \<and>
    (\<forall>q nn. cstring nn \<and> watching st q nn \<longrightarrow> watching st' q nn) \<and>
    (\<forall>q nn. cstring nn \<and> watching st' q nn \<longrightarrow> watching st q nn \<or> q = cp \<and> N nn) \<and>
    (int (length (mo_list st cp)) \<le> mo_max st \<longrightarrow> int (length (mo_list st' cp)) \<le> mo_max st)"

lemma grows_same: "watching st' = watching st \<Longrightarrow> mo_list st' = mo_list st \<Longrightarrow> mo_max st' = mo_max st \<Longrightarrow> grows cp N st st'"
  by (simp add: grows_def)

lemma grows_trans:
  assumes "grows cp N st st1" "grows cp N' st1 st2"
  shows "grows cp (\<lambda>nn. N nn \<or> N' nn) st st2"
proof -
  have "watching st q nn \<or> q = cp \<and> (N nn \<or> N' nn)" if "cstring nn" "watching st2 q nn" for q nn
    using assms that unfolding grows_def by metis
  then show ?thesis using assms unfolding grows_def by metis
qed

lemma grows_mono: "grows cp N st st' \<Longrightarrow> (\<And>nn. N nn \<Longrightarrow> N' nn) \<Longrightarrow> grows cp N' st st'"
  unfolding grows_def by metis

definition listed :: "(string \<times> string) list \<Rightarrow> string \<Rightarrow> bool" where
  "listed ts nn \<longleftrightarrow> (\<exists>(t, r) \<in> set ts. t \<noteq> [] \<and> length t < NICKLEN \<and> nick_same t nn)"

lemma add_loop_spec:
  assumes "add_loop cp a b ts bufs st = Some st'" "mon_ok st" "\<forall>(t, r) \<in> set ts. cstring t"
  shows "mon_ok st' \<and> grows cp (listed ts) st st'"
  using assms
proof (induction cp a b ts bufs st rule: add_loop.induct)
  case (1 cp a b bufs st)
  then have "only_out st st'" using only_out_flush by simp
  then show ?case using only_out_mon [of st st'] 1(2) by (auto intro!: grows_same)
next
  case (2 cp a b name rest ts bufs st)
  have mono: "listed ts nn \<Longrightarrow> listed ((name, rest) # ts) nn" for nn by (auto simp: listed_def)
  have ts: "\<forall>(t, r) \<in> set ts. cstring t" using "2.prems"(3) by auto
  show ?case
  proof (cases "name = [] \<or> length name > NICKLEN - 1")
    case True
    then have "add_loop cp a b ts bufs st = Some st'" using "2.prems"(1) by auto
    from "2.IH"(1) [OF True this "2.prems"(2) ts] show ?thesis using grows_mono mono by blast
  next
    case big: False
    show ?thesis
    proof (cases "int (length (mo_list st cp)) \<ge> mo_max st")
      case True
      with "2.prems"(1) big obtain st1 l where "flush_bufs cp a b bufs st = Some st1" "sendto_one_buffer cp l st1 = Some st'"
        by (auto split: Option.bind_split_asm if_split_asm)
      then have "only_out st st'" using only_out_flush only_out_send only_out_trans by blast
      then show ?thesis using only_out_mon [of st st'] "2.prems"(2) by (auto intro!: grows_same)
    next
      case room: False
      have nm: "cstring name" "length name < NICKLEN" using "2.prems"(3) big by (auto simp: NICKLEN_def)
      from find_monitor_True [OF "2.prems"(2) nm] obtain mp st1 where f: "find_monitor name True st = Some (Some mp, st1)" and o1: "mon_ok st1"
        and w1: "watched st1 name mp" "watching st1 = watching st" and fr: "mo_frame st st1" "mo_list st1 = mo_list st" by blast
      from w1(1) obtain m where m: "mo_mons st1 mp = Some m" "nick_same name (mon_name m)" by (auto simp: watched_def)
      have g1: "grows cp N st st1" for N using w1(2) fr by (intro grows_same) (auto simp: mo_frame_def)
      show ?thesis
      proof (cases "cp \<in> set (mon_users m)")
        case True
        then have l: "add_loop cp a b ts bufs st1 = Some st'" using "2.prems"(1) big room f m by auto
        have "mon_ok st' \<and> grows cp (listed ts) st1 st'" using "2.IH"(2) [OF big room f refl _ m(1) True l o1 ts] by auto
        then show ?thesis using grows_mono [OF grows_trans [OF g1 [of "listed ts"]]] mono by blast
      next
        case new: False
        let ?st2 = "st1\<lparr>mo_mons := (mo_mons st1)(mp \<mapsto> m\<lparr>mon_users := cp # mon_users m\<rparr>), mo_list := (mo_list st1)(cp := mp # mo_list st1 cp)\<rparr>"
        have u: "upd_mon mp (\<lambda>us. cp # us) st1 = Some (st1\<lparr>mo_mons := (mo_mons st1)(mp \<mapsto> m\<lparr>mon_users := cp # mon_users m\<rparr>)\<rparr>)" using m by (simp add: upd_mon_def)
        from "2.prems"(1) big room f m new u obtain bufs3 st3 where p3: "put_status cp a b name bufs ?st2 = Some (bufs3, st3)"
          and l: "add_loop cp a b ts bufs3 st3 = Some st'" by (auto split: Option.bind_split_asm)
        note o2 = mon_link [OF o1 m(1) new] and o3 = only_out_mon [OF only_out_status [OF p3]]
        have "nick_same name nn" if "cstring nn" "watched st1 nn mp" for nn
          using that m nm(1) o1 mon_tabD(5) [of "mo_mons st1" "mo_table st1" mp m] by (auto simp: watched_def nick_same_iff mon_ok_def)
        then have "grows cp (nick_same name) st1 ?st2" using o2(2) room fr unfolding grows_def by (auto simp: mo_frame_def)
        moreover have "grows cp (\<lambda>_. False) ?st2 st3" using o3 by (intro grows_same) auto
        moreover have "mon_ok st' \<and> grows cp (listed ts) st3 st'"
        proof -
          let ?s = "st1\<lparr>mo_mons := (mo_mons st1)(mp \<mapsto> m\<lparr>mon_users := cp # mon_users m\<rparr>)\<rparr>"
          have p3': "put_status cp a b name bufs (?s\<lparr>mo_list := (mo_list ?s)(cp := mp # mo_list ?s cp)\<rparr>) = Some (bufs3, st3)" using p3 by simp
          show ?thesis using "2.IH"(3) [OF big room f refl refl m(1) new u refl p3' refl l _ ts] o2(1) o3(1) by auto
        qed
        ultimately have "mon_ok st'" "grows cp (\<lambda>nn. (nick_same name nn \<or> False) \<or> listed ts nn) st1 st'" using grows_trans by blast+
        then show ?thesis using grows_mono [OF grows_trans [OF g1 [of "listed ts"]]] mono big nm(2) by (fastforce simp: listed_def)
      qed
    qed
  qed
qed

text \<open>MONITOR - takes exactly the nicks of the list off what the client watches.\<close>

lemma del_loop_spec:
  assumes "mon_ok st" "\<forall>(t, r) \<in> set ts. cstring t"
  shows "\<exists>st'. del_loop cp ts st = Some st' \<and> mon_ok st' \<and> mo_max st' = mo_max st \<and> (\<forall>q. length (mo_list st' q) \<le> length (mo_list st q)) \<and>
    (\<forall>q nn. cstring nn \<longrightarrow> watching st' q nn = (watching st q nn \<and> \<not> (q = cp \<and> (\<exists>(t, r) \<in> set ts. t \<noteq> [] \<and> nick_same t nn))))"
  using assms
proof (induction cp ts st rule: del_loop.induct)
  case (2 cp name rest ts st)
  have ts: "\<forall>(t, r) \<in> set ts. cstring t" and nm: "cstring name" using "2.prems"(2) by auto
  from find_monitor_False [OF "2.prems"(1) nm] obtain r where r: "find_monitor name False st = Some (r, st)" "\<And>mp. r = Some mp \<longleftrightarrow> watched st name mp" by blast
  show ?case
  proof (cases "name = []")
    case True
    then show ?thesis using "2.IH"(1) [OF True "2.prems"(1) ts] by simp
  next
    case name: False
    show ?thesis
    proof (cases r)
      case None
      have "\<not> watching st q nn" if "cstring nn" "nick_same name nn" for q nn
      proof
        assume "watching st q nn"
        then obtain mp m where m: "mo_mons st mp = Some m" "nick_same nn (mon_name m)" by (auto simp: watching_def watched_def)
        then have "cstring (mon_name m)" using "2.prems"(1) mon_tabD(5) by (auto simp: mon_ok_def)
        then have "watched st name mp" using m that nm by (auto simp: watched_def nick_same_iff)
        then show False using r(2) None by simp
      qed
      then show ?thesis using "2.IH"(2) [OF name r(1) refl None "2.prems"(1) ts] r(1) name None by auto
    next
      case (Some mp)
      then obtain m where m: "mo_mons st mp = Some m" "nick_same name (mon_name m)" using r(2) by (auto simp: watched_def)
      let ?st1 = "st\<lparr>mo_mons := (mo_mons st)(mp \<mapsto> m\<lparr>mon_users := remove1 cp (mon_users m)\<rparr>)\<rparr>"
      let ?st2 = "st\<lparr>mo_mons := (mo_mons st)(mp \<mapsto> m\<lparr>mon_users := remove1 cp (mon_users m)\<rparr>), mo_list := (mo_list st)(cp := remove1 mp (mo_list st cp))\<rparr>"
      have u: "upd_mon mp (remove1 cp) st = Some ?st1" using m by (simp add: upd_mon_def)
      note o2 = mon_unlink [OF "2.prems"(1) m(1), where cp = cp]
      have w: "watched st nn mp = nick_same name nn" if "cstring nn" for nn
        using that m nm "2.prems"(1) mon_tabD(5) [of "mo_mons st" "mo_table st" mp m] by (auto simp: watched_def nick_same_iff mon_ok_def)
      have len: "length (mo_list ?st2 q) \<le> length (mo_list st q)" for q by (simp add: length_remove1)
      have "\<exists>st'. del_loop cp ts ?st2 = Some st' \<and> mon_ok st' \<and> mo_max st' = mo_max ?st2 \<and> (\<forall>q. length (mo_list st' q) \<le> length (mo_list ?st2 q)) \<and>
        (\<forall>q nn. cstring nn \<longrightarrow> watching st' q nn = (watching ?st2 q nn \<and> \<not> (q = cp \<and> (\<exists>(t, r) \<in> set ts. t \<noteq> [] \<and> nick_same t nn))))"
        using "2.IH"(3) [OF name r(1) refl Some u _ ts] o2(1) by simp
      then obtain st' where st': "del_loop cp ts ?st2 = Some st'" "mon_ok st'" "mo_max st' = mo_max st" "\<And>q. length (mo_list st' q) \<le> length (mo_list ?st2 q)"
        "\<And>q nn. cstring nn \<Longrightarrow> watching st' q nn = (watching ?st2 q nn \<and> \<not> (q = cp \<and> (\<exists>(t, r) \<in> set ts. t \<noteq> [] \<and> nick_same t nn)))" by auto
      have "del_loop cp ((name, rest) # ts) st = Some st'" using st'(1) r(1) Some u name by simp
      moreover have "length (mo_list st' q) \<le> length (mo_list st q)" for q using st'(4) [of q] len [of q] by linarith
      moreover have "watching st' q nn = (watching st q nn \<and> \<not> (q = cp \<and> (\<exists>(t, r) \<in> set ((name, rest) # ts). t \<noteq> [] \<and> nick_same t nn)))" if "cstring nn" for q nn
        using st'(5) [OF that, of q] o2(2) [OF that, of q] w [OF that] name by auto
      ultimately show ?thesis using st'(2,3) by blast
    qed
  qed
qed simp

text \<open>MONITOR C: one after the other, every monitor of the client is left.\<close>

lemma clear_loop_eq:
  assumes "distinct mps" "\<And>mp. mp \<in> set mps \<Longrightarrow> mo_mons st mp \<noteq> None"
  shows "clear_loop cp mps st = Some (st\<lparr>mo_mons := (\<lambda>p. if p \<in> set mps then map_option (\<lambda>m. m\<lparr>mon_users := remove1 cp (mon_users m)\<rparr>) (mo_mons st p) else mo_mons st p)\<rparr>)"
  using assms
proof (induction mps arbitrary: st)
  case (Cons mp mps)
  then obtain m where m: "mo_mons st mp = Some m" by fastforce
  let ?st = "st\<lparr>mo_mons := (mo_mons st)(mp \<mapsto> m\<lparr>mon_users := remove1 cp (mon_users m)\<rparr>)\<rparr>"
  have "mo_mons ?st q \<noteq> None" if "q \<in> set mps" for q using Cons.prems(2) that by auto
  from Cons.IH [OF _ this] Cons.prems(1) show ?case using m by (auto simp: upd_mon_def fun_eq_iff intro!: arg_cong [where f = "\<lambda>x. st\<lparr>mo_mons := x\<rparr>"])
qed simp

lemma clear_monitor_spec:
  assumes ok: "mon_ok st"
  shows "\<exists>st'. clear_monitor cp st = Some st' \<and> mon_ok st' \<and> mo_max st' = mo_max st \<and> mo_list st' = (mo_list st)(cp := []) \<and>
    (\<forall>q nn. watching st' q nn = (watching st q nn \<and> q \<noteq> cp))"
proof -
  have tab: "mon_tab_ok (mo_mons st) (mo_table st)" and li: "mon_links (mo_list st) (mo_mons st)" using ok by (auto simp: mon_ok_def)
  define ms where "ms = (\<lambda>p. if p \<in> set (mo_list st cp) then map_option (\<lambda>m. m\<lparr>mon_users := remove1 cp (mon_users m)\<rparr>) (mo_mons st p) else mo_mons st p)"
  let ?st = "st\<lparr>mo_mons := ms, mo_list := (mo_list st)(cp := [])\<rparr>"
  have live: "mo_mons st mp \<noteq> None" if "mp \<in> set (mo_list st cp)" for mp using li that by (auto simp: mon_links_def)
  have r: "clear_monitor cp st = Some ?st"
    using clear_loop_eq [of "mo_list st cp" st cp] live li by (simp add: clear_monitor_def mon_links_def ms_def)
  have k: "mon_key ms = mon_key (mo_mons st)" by (auto simp: fun_eq_iff ms_def option.map_comp comp_def)
  have d: "dom ms = dom (mo_mons st)" by (auto simp: ms_def dom_def)
  have nm: "\<exists>m'. mo_mons st p = Some m' \<and> mon_name m' = mon_name m" if "ms p = Some m" for p m using that by (auto simp: ms_def split: if_split_asm)
  have "mon_tab_ok ms (mo_table st)" using tab nm unfolding mon_tab_ok_def k d by metis
  moreover have "mon_links (mo_list ?st) ms"
  proof -
    have u: "(\<exists>m. ms mp = Some m \<and> q \<in> set (mon_users m)) \<longleftrightarrow> q \<noteq> cp \<and> (\<exists>m. mo_mons st mp = Some m \<and> q \<in> set (mon_users m))" for q mp
    proof (cases "mp \<in> set (mo_list st cp)")
      case True
      then obtain m where m: "mo_mons st mp = Some m" "distinct (mon_users m)" using live li by (fastforce simp: mon_links_def)
      then show ?thesis using True by (auto simp: ms_def)
    next
      case False
      then have "\<not> (\<exists>m. mo_mons st mp = Some m \<and> cp \<in> set (mon_users m))" using li by (auto simp: mon_links_def)
      then show ?thesis using False by (auto simp: ms_def)
    qed
    have "distinct (mon_users m)" if "ms mp = Some m" for mp m using that li by (auto simp: ms_def mon_links_def split: if_split_asm)
    moreover have "distinct (mo_list ?st q)" for q using li by (simp add: mon_links_def)
    moreover have "mp \<in> set (mo_list ?st q) \<longleftrightarrow> (\<exists>m. ms mp = Some m \<and> q \<in> set (mon_users m))" for q mp
      unfolding u using li by (simp add: mon_links_def)
    ultimately show ?thesis unfolding mon_links_def by blast
  qed
  ultimately have "mon_ok ?st" using ok by (auto simp: mon_ok_def ms_def)
  moreover have "watched ?st nn mp = watched st nn mp" for nn mp by (auto simp: watched_def ms_def)
  then have "watching ?st q nn = (watching st q nn \<and> q \<noteq> cp)" for q nn by (auto simp: watching_def)
  ultimately show ?thesis using r by auto
qed

section \<open>Cleaning up keeps what is watched\<close>

lemma cleanup_chain_eq:
  assumes "distinct ps" "set ps \<subseteq> dom ms"
  shows "cleanup_chain ps ms = Some (filter (\<lambda>p. mon_users (the (ms p)) \<noteq> []) ps, (\<lambda>p. if p \<in> set ps \<and> mon_users (the (ms p)) = [] then None else ms p))"
  using assms
proof (induction ps arbitrary: ms)
  case (Cons p ps)
  then obtain m where m: "ms p = Some m" by auto
  show ?case
  proof (cases "mon_users m = []")
    case True
    have d: "distinct ps" and s: "set ps \<subseteq> dom (ms(p := None))" using Cons.prems by auto
    have f: "filter (\<lambda>q. mon_users (the ((ms(p := None)) q)) \<noteq> []) ps = filter (\<lambda>q. mon_users (the (ms q)) \<noteq> []) ps"
      using Cons.prems by (intro filter_cong) auto
    have e: "(\<lambda>q. if q \<in> set ps \<and> mon_users (the ((ms(p := None)) q)) = [] then None else (ms(p := None)) q) =
        (\<lambda>q. if q \<in> set (p # ps) \<and> mon_users (the (ms q)) = [] then None else ms q)" using m True by (intro ext) auto
    have "cleanup_chain ps (ms(p := None)) = Some (filter (\<lambda>q. mon_users (the (ms q)) \<noteq> []) ps,
        (\<lambda>q. if q \<in> set (p # ps) \<and> mon_users (the (ms q)) = [] then None else ms q))" by (simp only: Cons.IH [OF d s] f e)
    then show ?thesis using m True by simp
  next
    case False
    then show ?thesis using Cons.IH [of ms] Cons.prems m by (auto simp: fun_eq_iff)
  qed
qed simp

lemma cleanup_bucket:
  assumes ok: "mon_ok st"
  shows "\<exists>ps ms. cleanup_chain (mo_table st i) (mo_mons st) = Some (ps, ms) \<and>
    mon_ok (st\<lparr>mo_table := (mo_table st)(i := ps), mo_mons := ms\<rparr>) \<and> watching (st\<lparr>mo_table := (mo_table st)(i := ps), mo_mons := ms\<rparr>) = watching st"
proof -
  have tab: "mon_tab_ok (mo_mons st) (mo_table st)" and li: "mon_links (mo_list st) (mo_mons st)" using ok by (auto simp: mon_ok_def)
  note t = mon_tabD [OF tab]
  let ?keep = "\<lambda>p. mon_users (the (mo_mons st p)) \<noteq> []"
  define ps where "ps = filter ?keep (mo_table st i)"
  define ms where "ms = (\<lambda>p. if p \<in> set (mo_table st i) \<and> mon_users (the (mo_mons st p)) = [] then None else mo_mons st p)"
  let ?b = "(mo_table st)(i := ps)"
  let ?st = "st\<lparr>mo_table := ?b, mo_mons := ms\<rparr>"
  have i: "distinct (mo_table st j)" "set (mo_table st j) \<subseteq> dom (mo_mons st)" for j using t(1,2) by (auto simp: tab_ok_def tab_set_def)
  have c: "cleanup_chain (mo_table st i) (mo_mons st) = Some (ps, ms)" using cleanup_chain_eq [OF i] by (simp add: ps_def ms_def)
  have sub: "ms p = Some m \<Longrightarrow> mo_mons st p = Some m" for p m by (auto simp: ms_def split: if_split_asm)
  have home: "j = i" if "p \<in> set (mo_table st j)" "p \<in> set (mo_table st i)" for p j using t(1) that unfolding tab_ok_def by (metis option.inject)
  have kept: "p \<in> set (?b j) \<longleftrightarrow> p \<in> set (mo_table st j) \<and> ms p \<noteq> None" for p j
    using home [of p j] i(2) [of j] by (auto simp: ps_def ms_def)
  have key: "mon_key ms p = mon_key (mo_mons st) p" if "ms p \<noteq> None" for p using that by (auto simp: ms_def split: if_split_asm)
  have "tab_ok hash_monitor_nick (mon_key ms) ?b"
    unfolding tab_ok_def
  proof (intro allI conjI ballI)
    fix j show "distinct (?b j)" using i(1) by (simp add: ps_def)
    fix p assume "p \<in> set (?b j)"
    then show "\<exists>k. mon_key ms p = Some k \<and> hash_monitor_nick k = j" using kept [of p j] key [of p] t(1) unfolding tab_ok_def by metis
  qed
  moreover have ts: "tab_set ?b = dom ms"
  proof -
    have "p \<in> tab_set ?b \<longleftrightarrow> p \<in> tab_set (mo_table st) \<and> ms p \<noteq> None" for p unfolding tab_set_def using kept by blast
    then show ?thesis using t(2) sub by (auto simp: dom_def)
  qed
  moreover have "keys_unique nick_same (mon_key ms) ?b"
    using t(4) key unfolding keys_unique_def ts t(2) by (metis (no_types, lifting) domIff domI not_None_eq sub)
  moreover have "cstring (mon_name m) \<and> length (mon_name m) < NICKLEN" if "ms p = Some m" for p m using t(5,6) sub that by blast
  ultimately have "mon_tab_ok ms ?b" by (simp add: mon_tab_ok_def)
  moreover have "mon_links (mo_list st) ms" using li unfolding mon_links_def ms_def by (auto split: if_split_asm)
  ultimately have "mon_ok ?st" using ok by (auto simp: mon_ok_def ms_def)
  moreover have "watching ?st = watching st"
  proof (intro ext)
    fix cp nn
    have "ms mp = mo_mons st mp" if "mp \<in> set (mo_list st cp)" for mp using li that by (force simp: mon_links_def ms_def)
    then show "watching ?st cp nn = watching st cp nn" by (auto simp: watching_def watched_def)
  qed
  ultimately show ?thesis using c by blast
qed

lemma cleanup_loop_spec:
  "mon_ok st \<Longrightarrow> \<exists>st'. cleanup_loop is st = Some st' \<and> mon_ok st' \<and> watching st' = watching st \<and> mo_list st' = mo_list st \<and> mo_max st' = mo_max st"
proof (induction "is" arbitrary: st)
  case (Cons i "is")
  from cleanup_bucket [OF Cons.prems, of i] obtain ps ms where c: "cleanup_chain (mo_table st i) (mo_mons st) = Some (ps, ms)"
    "mon_ok (st\<lparr>mo_table := (mo_table st)(i := ps), mo_mons := ms\<rparr>)" "watching (st\<lparr>mo_table := (mo_table st)(i := ps), mo_mons := ms\<rparr>) = watching st" by blast
  from Cons.IH [OF c(2)] show ?case using c by simp
qed simp

section \<open>Runs\<close>

lemma only_out_lists:
  "list_loop cp h mps buf st = Some (buf', st') \<Longrightarrow> only_out st st'"
  "status_loop cp a b mps bufs st = Some st' \<Longrightarrow> only_out st st'"
proof (induction mps arbitrary: buf bufs st)
  case (Cons mp mps)
  {
    case 1
    then obtain st1 s b1 where "send_opt cp s st = Some st1" "list_loop cp h mps b1 st1 = Some (buf', st')" by (auto split: Option.bind_split_asm prod.split_asm)
    then show ?case using Cons.IH(1) only_out_opt only_out_trans by blast
  next
    case 2
    then obtain m :: monitor and x where x: "put_status cp a b (mon_name m) bufs st = Some x" "(case x of (bufs, st) \<Rightarrow> status_loop cp a b mps bufs st) = Some st'"
      by (auto split: Option.bind_split_asm)
    obtain bufs1 st1 where "x = (bufs1, st1)" by (cases x) blast
    with x have "put_status cp a b (mon_name m) bufs st = Some (bufs1, st1)" "status_loop cp a b mps bufs1 st1 = Some st'" by simp_all
    then show ?case using Cons.IH(2) only_out_status only_out_trans by blast
  }
qed (auto intro: only_out_flush)

lemma only_out_end: "end_of_list cp st = Some st' \<Longrightarrow> only_out st st'"
  by (auto simp: end_of_list_def only_out_send split: Option.bind_split_asm)

lemma only_out_list: "list_monitor cp st = Some st' \<Longrightarrow> only_out st st'"
  unfolding list_monitor_def
  by (auto split: Option.bind_split_asm prod.split_asm if_split_asm dest!: only_out_end only_out_send only_out_lists(1) intro: only_out_trans)

lemma only_out_show: "show_monitor_status cp st = Some st' \<Longrightarrow> only_out st st'"
  unfolding show_monitor_status_def by (auto split: Option.bind_split_asm dest!: only_out_lists(2))

lemma only_out_monitor: "sendto_monitor mp l st = Some st' \<Longrightarrow> only_out st st'"
  by (auto simp: sendto_monitor_def only_out_def mo_frame_def split: Option.bind_split_asm)

lemma tokens_cstring: "cstring s \<Longrightarrow> (t, r) \<in> set (tokens d s) \<Longrightarrow> cstring t"
proof (induction d s rule: tokens.induct)
  case (1 d s)
  show ?case
  proof (cases "strtok d s")
    case None
    then show ?thesis using "1.prems"(2) by (subst (asm) tokens.simps) simp
  next
    case (Some tr)
    obtain t1 r1 where tr: "tr = (t1, r1)" by force
    have "t1 = takeWhile (\<lambda>c. c \<noteq> d) (dropWhile (\<lambda>c. c = d) s)" "r1 = drop (Suc (length t1)) (dropWhile (\<lambda>c. c = d) s)"
      using Some tr by (auto simp: strtok_def Let_def split: if_split_asm)
    then have "set t1 \<subseteq> set s" "set r1 \<subseteq> set s" by (auto dest!: set_takeWhileD in_set_dropD set_dropWhileD)
    then have "cstring t1" "cstring r1" using "1.prems"(1) by (auto simp: cstring_def)
    moreover have "(t, r) = (t1, r1) \<or> (t, r) \<in> set (tokens d r1)" using "1.prems"(2) Some tr by (subst (asm) tokens.simps) auto
    ultimately show ?thesis using "1.IH" [OF Some] tr by auto
  qed
qed

text \<open>
  Everything that happens to notify lists: commands, the end of a client, the cleaning, and the news of a nick; the other parts of the
  state may change in between.
\<close>

inductive mon_step :: "notify_state \<Rightarrow> notify_state \<Rightarrow> bool" where
  command: "\<lbrakk>\<And>s. s \<in> set parv \<Longrightarrow> cstring s; m_monitor client_p source_p parv st = Some st'\<rbrakk> \<Longrightarrow> mon_step st st'"
| clear: "clear_monitor client_p st = Some st' \<Longrightarrow> mon_step st st'"
| cleanup: "cleanup_monitor st = Some st' \<Longrightarrow> mon_step st st'"
| signon: "\<lbrakk>mo_clients st client_p = Some c; cstring (cl_name c); monitor_signon client_p st = Some st'\<rbrakk> \<Longrightarrow> mon_step st st'"
| signoff: "\<lbrakk>mo_clients st client_p = Some c; cstring (cl_name c); monitor_signoff client_p st = Some st'\<rbrakk> \<Longrightarrow> mon_step st st'"
| other: "mon_step st (st\<lparr>mo_clients := cls, mo_tabs := t, mo_me := name\<rparr>)"

definition mon_inv :: "int \<Rightarrow> notify_state \<Rightarrow> bool" where
  "mon_inv lim st \<longleftrightarrow> mon_ok st \<and> mo_max st = lim \<and> (\<forall>cp. int (length (mo_list st cp)) \<le> lim)"

lemma mon_inv_out: "only_out st st' \<Longrightarrow> mon_inv lim st \<Longrightarrow> mon_inv lim st'"
  using only_out_mon [of st st'] by (simp add: mon_inv_def)

lemma news_out:
  assumes "mon_ok st" "mo_clients st cp = Some c" "cstring (cl_name c)" "monitor_signon cp st = Some st' \<or> monitor_signoff cp st = Some st'"
  shows "only_out st st'"
  using assms(2,4) find_monitor_False [OF assms(1,3)]
  by (auto simp: monitor_signon_def monitor_signoff_def dest!: only_out_monitor split: option.split_asm)

lemma add_monitor_spec:
  assumes r: "add_monitor cp nicks st = Some st'" and ok: "mon_ok st" and n: "cstring nicks"
  shows "mon_ok st' \<and> grows cp (listed (tokens (CHR '','') nicks)) st st'"
  using r add_loop_spec [OF _ ok] tokens_cstring [OF n] unfolding add_monitor_def by (fastforce split: Option.bind_split_asm)

lemma m_monitor_cases:
  assumes "m_monitor client_p cp parv st = Some st'"
  obtains l where "sendto_one_buffer client_p l st = Some st'" | "length parv \<ge> 3" "add_monitor cp (parv ! 2) st = Some st'"
    | "length parv \<ge> 3" "del_monitor cp (parv ! 2) st = Some st'" | "clear_monitor cp st = Some st'" | "list_monitor cp st = Some st'"
    | "show_monitor_status cp st = Some st'" | "st' = st"
proof -
  have len: "\<not> length parv < 2" using assms by (auto simp: m_monitor_def)
  note r = assms [unfolded m_monitor_def Let_def if_not_P [OF len]]
  show thesis
  proof (cases "headc (parv ! 1) = CHR ''+'' \<or> headc (parv ! 1) = CHR ''-''")
    case True
    note r1 = r [unfolded if_P [OF True]]
    show thesis
    proof (cases "length parv < 3 \<or> parv ! 2 = []")
      case short: True
      from r1 [unfolded if_P [OF short]] obtain l where "sendto_one_buffer client_p l st = Some st'" unfolding bind_eq_Some_conv by blast
      then show thesis by (rule that(1))
    next
      case False
      then have "length parv \<ge> 3" by simp
      then show thesis using r1 [unfolded if_not_P [OF False]] that(2,3) by presburger
    qed
  next
    case False
    show thesis using r [unfolded if_not_P [OF False]] that(4-7) by (metis option.inject)
  qed
qed

lemma m_monitor_inv:
  assumes r: "m_monitor client_p cp parv st = Some st'" and inv: "mon_inv lim st" and parv: "\<And>s. s \<in> set parv \<Longrightarrow> cstring s"
  shows "mon_inv lim st'"
proof -
  have ok: "mon_ok st" and b: "mo_max st = lim" "\<And>q. int (length (mo_list st q)) \<le> lim" using inv by (auto simp: mon_inv_def)
  have p2: "length parv \<ge> 3 \<Longrightarrow> cstring (parv ! 2)" using parv by simp
  from r show ?thesis
  proof (cases rule: m_monitor_cases)
    case (1 l)
    then show ?thesis using mon_inv_out [OF only_out_send] inv by blast
  next
    case 2
    from add_monitor_spec [OF 2(2) ok p2 [OF 2(1)]] have s: "mon_ok st'" "grows cp (listed (tokens (CHR '','') (parv ! 2))) st st'" by auto
    have "int (length (mo_list st' q)) \<le> lim" for q using s(2) b(1) b(2) [of cp] b(2) [of q] unfolding grows_def by (cases "q = cp") auto
    then show ?thesis using s b by (simp add: mon_inv_def grows_def)
  next
    case 3
    have ts: "\<forall>(t, r) \<in> set (tokens (CHR '','') (parv ! 2)). cstring t" using tokens_cstring [OF p2 [OF 3(1)]] by auto
    show ?thesis
    proof (cases "mo_list st cp = []")
      case False
      from del_loop_spec [OF ok ts, of cp] 3(2) False have s: "mon_ok st'" "mo_max st' = mo_max st" "\<And>q. length (mo_list st' q) \<le> length (mo_list st q)"
        by (auto simp: del_monitor_def)
      have "int (length (mo_list st' q)) \<le> lim" for q using s(3) [of q] b(2) [of q] by linarith
      then show ?thesis using s b by (simp add: mon_inv_def)
    qed (use 3 inv in \<open>simp add: del_monitor_def\<close>)
  next
    case 4
    from clear_monitor_spec [OF ok, of cp] 4 have s: "mon_ok st'" "mo_max st' = mo_max st" "mo_list st' = (mo_list st)(cp := [])" by auto
    have "0 \<le> lim" using b(2) [of cp] by simp
    then show ?thesis using s b by (simp add: mon_inv_def)
  next
    case 5
    then show ?thesis using mon_inv_out [OF only_out_list] inv by blast
  next
    case 6
    then show ?thesis using mon_inv_out [OF only_out_show] inv by blast
  qed (use inv in simp)
qed

lemma mon_step_inv: "mon_step st st' \<Longrightarrow> mon_inv lim st \<Longrightarrow> mon_inv lim st'"
proof (induction rule: mon_step.induct)
  case (command parv client_p source_p st st')
  then show ?case using m_monitor_inv by blast
next
  case (clear cp st st')
  then have ok: "mon_ok st" and b: "mo_max st = lim" "\<And>q. int (length (mo_list st q)) \<le> lim" by (auto simp: mon_inv_def)
  from clear_monitor_spec [OF ok, of cp] clear(1) have s: "mon_ok st'" "mo_max st' = mo_max st" "mo_list st' = (mo_list st)(cp := [])" by auto
  have "0 \<le> lim" using b(2) [of cp] by simp
  then show ?case using s b by (simp add: mon_inv_def)
next
  case (cleanup st st')
  then have ok: "mon_ok st" by (simp add: mon_inv_def)
  from cleanup_loop_spec [OF ok] cleanup show ?case unfolding cleanup_monitor_def by (metis mon_inv_def option.inject)
next
  case (signon st cp c st')
  then show ?case using news_out mon_inv_out by (metis mon_inv_def)
next
  case (signoff st cp c st')
  then show ?case using news_out mon_inv_out by (metis mon_inv_def)
next
  case (other st cls t name)
  then show ?case by (simp add: mon_inv_def mon_ok_def)
qed

definition mon_start :: "int \<Rightarrow> notify_state \<Rightarrow> bool" where
  "mon_start lim st \<longleftrightarrow> mo_max st = lim \<and> 0 \<le> lim \<and> mo_list st = (\<lambda>_. []) \<and> mo_mons st = (\<lambda>_. None) \<and> mo_table st = (\<lambda>_. [])"

lemma mon_start_inv: "mon_start lim st \<Longrightarrow> mon_inv lim st"
  by (auto simp: mon_start_def mon_inv_def mon_ok_def mon_tab_ok_def mon_links_def tab_ok_def tab_set_def keys_unique_def)

interpretation mon_runs: run_invariant "mon_start lim" mon_step "mon_inv lim"
  by unfold_locales (auto intro: mon_start_inv mon_step_inv)

section \<open>Who is told\<close>

lemma those_clients:
  assumes "\<forall>p \<in> set ps. cls p \<noteq> None"
  shows "those (map (\<lambda>p. map_option (\<lambda>c. (p, c)) (cls p)) ps) = Some (map (\<lambda>p. (p, the (cls p))) ps)"
  using assms by (induction ps) auto

lemma sendto_monitor_told:
  assumes "mo_mons st mp = Some m" "\<forall>p \<in> set (mon_users m). mo_clients st p \<noteq> None"
  shows "sendto_monitor mp line st =
    Some (st\<lparr>mo_out := mo_out st @ map (\<lambda>p. (p, line)) (filter (\<lambda>p. \<not> IsIOError (the (mo_clients st p))) (mon_users m))\<rparr>)"
proof -
  have "map (\<lambda>(p, c). (p, line)) (filter (\<lambda>(p, c). \<not> IsIOError c) (map (\<lambda>p. (p, the (mo_clients st p))) us)) =
      map (\<lambda>p. (p, line)) (filter (\<lambda>p. \<not> IsIOError (the (mo_clients st p))) us)" for us by (induction us) auto
  then show ?thesis using assms by (simp add: sendto_monitor_def those_clients)
qed

text \<open>The lines that a step adds to the output for the watchers of a nick.\<close>

definition told :: "notify_state \<Rightarrow> string \<Rightarrow> string \<Rightarrow> notify_state \<Rightarrow> bool" where
  "told st nick line st' \<longleftrightarrow> (\<exists>ps. st' = st\<lparr>mo_out := mo_out st @ map (\<lambda>p. (p, line)) ps\<rparr> \<and> distinct ps \<and>
     set ps = {p. watching st p nick \<and> (\<exists>c. mo_clients st p = Some c \<and> \<not> IsIOError c)})"

lemma monitor_told:
  assumes ok: "mon_ok st" and nick: "cstring nick" and live: "\<And>p. watching st p nick \<Longrightarrow> mo_clients st p \<noteq> None"
  shows "\<exists>mp st'. find_monitor nick False st = Some (mp, st) \<and> (case mp of None \<Rightarrow> Some st | Some monptr \<Rightarrow> sendto_monitor monptr line st) = Some st' \<and> told st nick line st'"
proof -
  from find_monitor_False [OF ok nick] obtain r where r: "find_monitor nick False st = Some (r, st)" "\<And>mp. r = Some mp \<longleftrightarrow> watched st nick mp" by blast
  have li: "mon_links (mo_list st) (mo_mons st)" using ok by (simp add: mon_ok_def)
  show ?thesis
  proof (cases r)
    case None
    then have "\<not> watching st p nick" for p using r(2) by (auto simp: watching_def)
    then show ?thesis using r(1) None by (auto simp: told_def intro!: exI [of _ "[]"])
  next
    case (Some mp)
    then obtain m where m: "mo_mons st mp = Some m" "watched st nick mp" using r(2) by (auto simp: watched_def)
    have w: "watching st p nick \<longleftrightarrow> p \<in> set (mon_users m)" for p
    proof -
      have "watched st nick mq \<longleftrightarrow> mq = mp" for mq using watched_unique [OF ok m(2) _ nick, of mq] m(2) by blast
      then have "watching st p nick \<longleftrightarrow> mp \<in> set (mo_list st p)" by (simp add: watching_def)
      then show ?thesis using li m(1) by (auto simp: mon_links_def)
    qed
    let ?ps = "filter (\<lambda>p. \<not> IsIOError (the (mo_clients st p))) (mon_users m)"
    have al: "\<forall>p \<in> set (mon_users m). mo_clients st p \<noteq> None" using live w by blast
    have s: "sendto_monitor mp line st = Some (st\<lparr>mo_out := mo_out st @ map (\<lambda>p. (p, line)) ?ps\<rparr>)" by (rule sendto_monitor_told [OF m(1) al])
    have d: "distinct ?ps" using li m(1) by (auto simp: mon_links_def)
    have e: "set ?ps = {p. watching st p nick \<and> (\<exists>c. mo_clients st p = Some c \<and> \<not> IsIOError c)}" using al by (auto simp: w)
    have "told st nick line (st\<lparr>mo_out := mo_out st @ map (\<lambda>p. (p, line)) ?ps\<rparr>)"
      unfolding told_def by (rule exI [of _ ?ps]) (simp only: d e simp_thms)
    then show ?thesis using r(1) Some s by (intro exI [of _ r] exI) auto
  qed
qed

text \<open>
  C22: In every state a run of MONITOR commands, sign-ons, sign-offs and clean-ups reaches, a
  client that signs on or off is announced, with its mask or its nick, exactly once to each client
  that watches the nick in any spelling irccmp calls equal and has no I/O error, and to nobody
  else.
\<close>

theorem signon_tells_watchers:
  assumes run: "reachable (mon_start lim) mon_step st" and c: "mo_clients st cp = Some c" "cstring (cl_name c)"
    and live: "\<And>p. watching st p (cl_name c) \<Longrightarrow> mo_clients st p \<noteq> None"
  shows "(\<exists>st'. monitor_signon cp st = Some st' \<and>
      told st (cl_name c) ('':'' @ mo_me st @ '' 730 * :'' @ rb_strlcpy (cl_name c @ ''!'' @ cl_username c @ ''@'' @
        (if IsCloaked c then cl_virthost c else cl_host c)) USERHOST_REPLYLEN) st') \<and>
    (\<exists>st'. monitor_signoff cp st = Some st' \<and> told st (cl_name c) ('':'' @ mo_me st @ '' 731 * :'' @ cl_name c) st')"
proof -
  have ok: "mon_ok st" using mon_runs.inv_reachable [OF run] by (simp add: mon_inv_def)
  have tell: "\<exists>mp st'. find_monitor (cl_name c) False st = Some (mp, st) \<and> (case mp of None \<Rightarrow> Some st | Some monptr \<Rightarrow> sendto_monitor monptr line st) = Some st' \<and>
      told st (cl_name c) line st'" for line using monitor_told [OF ok c(2) live] .
  show ?thesis unfolding monitor_signon_def monitor_signoff_def using tell c(1) by fastforce
qed

text \<open>
  C27: In every state a run of MONITOR commands, sign-ons, sign-offs and clean-ups reaches,
  MONITOR - with a list of nicks returns and takes exactly the nicks of the list, in any spelling
  irccmp calls equal, off the source's own list; what it watches otherwise, and what everybody
  else watches, stays.
\<close>

theorem monitor_minus:
  assumes run: "reachable (mon_start lim) mon_step st" and n: "cstring nicks" "nicks \<noteq> []"
  shows "\<exists>st'. m_monitor client_p cp [c, ''-'', nicks] st = Some st' \<and>
    (\<forall>q nn. cstring nn \<longrightarrow> watching st' q nn = (watching st q nn \<and> \<not> (q = cp \<and> (\<exists>(t, r) \<in> set (tokens (CHR '','') nicks). t \<noteq> [] \<and> nick_same t nn))))"
proof -
  have ok: "mon_ok st" using mon_runs.inv_reachable [OF run] by (simp add: mon_inv_def)
  have ts: "\<forall>(t, r) \<in> set (tokens (CHR '','') nicks). cstring t" using tokens_cstring [OF n(1)] by auto
  have m: "m_monitor client_p cp [c, ''-'', nicks] st = del_monitor cp nicks st" using n(2) by (simp add: m_monitor_def)
  show ?thesis
  proof (cases "mo_list st cp = []")
    case True
    then show ?thesis using m by (auto simp: del_monitor_def watching_def)
  next
    case False
    then show ?thesis using m del_loop_spec [OF ok ts, of cp] by (auto simp: del_monitor_def)
  qed
qed

section \<open>No buffer overflows\<close>

text \<open>What the rest of the server guarantees: live pointers, and names within their arrays.\<close>

definition client_fits :: "Client \<Rightarrow> bool" where
  "client_fits c \<longleftrightarrow> length (cl_name c) < NICKLEN \<and> length (cl_username c) \<le> USERLEN \<and> length (cl_host c) \<le> HOSTLEN \<and> length (cl_virthost c) \<le> HOSTLEN"

definition mon_world :: "notify_state \<Rightarrow> bool" where
  "mon_world st \<longleftrightarrow> (\<forall>i. set (clientTable (mo_tabs st) i) \<subseteq> dom (mo_clients st)) \<and> (\<forall>i. set (idTable (mo_tabs st) i) \<subseteq> dom (mo_clients st)) \<and>
     (\<forall>p c. mo_clients st p = Some c \<longrightarrow> client_fits c \<and> mo_clients st (cl_from c) \<noteq> None) \<and> length (mo_me st) \<le> HOSTLEN"

lemma mon_world_frame: "mo_frame st st' \<Longrightarrow> mon_world st' = mon_world st"
  by (simp add: mo_frame_def mon_world_def)

lemma mon_world_keeps:
  assumes "mo_frame st st'" "mon_world st" "mo_clients st p \<noteq> None"
  shows "mon_world st'" "mo_clients st' p \<noteq> None"
  using assms mon_world_frame [OF assms(1)] by (simp_all add: mo_frame_def)

lemma only_out_frame: "only_out st st' \<Longrightarrow> mo_frame st st'" by (simp add: only_out_def)

lemma send_total:
  assumes "mon_world st" "mo_clients st p \<noteq> None"
  shows "\<exists>st'. sendto_one_buffer p l st = Some st'" "\<exists>st'. send_opt p l1 st = Some st'"
  using assms by (auto simp: sendto_one_buffer_def send_opt_def mon_world_def split: option.split) fastforce+

definition short_head :: "string \<Rightarrow> bool" where "short_head h \<longleftrightarrow> length h \<le> HOSTLEN + NICKLEN + 10"

lemma mon_head_total:
  assumes "mon_world st" "mo_clients st p \<noteq> None" "length num = 3"
  shows "\<exists>h. mon_head num p st = Some h \<and> short_head h"
proof -
  from assms(2) obtain c where c: "mo_clients st p = Some c" by blast
  have "length (cl_name c) < NICKLEN" "length (mo_me st) \<le> HOSTLEN" using assms(1) c by (auto simp: mon_world_def client_fits_def)
  then show ?thesis using c assms(3) by (simp add: mon_head_def short_head_def BUFSIZE_def NICKLEN_def HOSTLEN_def)
qed

lemma put_item_total: "length base + length item < BUFSIZE \<Longrightarrow> \<exists>r. put_item base item cur = Some r"
  by (auto simp: put_item_def Let_def BUFSIZE_def)

lemma put_status_total:
  assumes w: "mon_world st" and p: "mo_clients st p \<noteq> None" and h: "short_head a" "short_head b" and n: "length name < NICKLEN"
  shows "\<exists>bufs' st'. put_status p a b name bufs st = Some (bufs', st')"
proof -
  have t: "\<And>i. set (clientTable (mo_tabs st) i) \<subseteq> dom (mo_clients st)" "\<And>i. set (idTable (mo_tabs st) i) \<subseteq> dom (mo_clients st)" using w by (auto simp: mon_world_def)
  from find_person_total(2) [OF t, of name] obtain r where r: "find_named_person (mo_clients st) (mo_tabs st) name = Some r"
    "\<And>q. r = Some q \<Longrightarrow> mo_clients st q \<noteq> None" by blast
  have "\<exists>on item. status_item name st = Some (on, item) \<and> length item \<le> NICKLEN + USERLEN + HOSTLEN + 2"
  proof (cases r)
    case None
    then show ?thesis using r(1) n by (intro exI [of _ False] exI [of _ name]) (simp add: status_item_def)
  next
    case (Some q)
    then obtain c where c: "mo_clients st q = Some c" using r(2) by blast
    then have "client_fits c" using w by (auto simp: mon_world_def)
    then show ?thesis using r(1) Some c by (auto simp: status_item_def client_fits_def)
  qed
  then obtain on item where i: "status_item name st = Some (on, item)" "length item \<le> NICKLEN + USERLEN + HOSTLEN + 2" by blast
  have "length a + length item < BUFSIZE" "length b + length item < BUFSIZE" using i(2) h by (auto simp: short_head_def BUFSIZE_def NICKLEN_def USERLEN_def HOSTLEN_def)
  then have "\<exists>x. (if on then put_item a item (fst bufs) else put_item b item (snd bufs)) = Some x" using put_item_total by auto
  then obtain sent cur where "(if on then put_item a item (fst bufs) else put_item b item (snd bufs)) = Some (sent, cur)" by force
  moreover obtain st1 where "send_opt p sent st = Some st1" using send_total(2) [OF w p] by blast
  ultimately show ?thesis using i(1) by (simp add: put_status_def)
qed

lemma flush_total:
  assumes "mon_world st" "mo_clients st p \<noteq> None"
  shows "\<exists>st'. flush_bufs p a b bufs st = Some st'"
proof -
  from send_total(2) [OF assms] obtain st1 where s: "send_opt p (if length (fst bufs) \<noteq> length a then Some (fst bufs) else None) st = Some st1" by blast
  note k = mon_world_keeps [OF only_out_frame [OF only_out_opt [OF s]] assms]
  obtain st2 where "send_opt p (if length (snd bufs) \<noteq> length b then Some (snd bufs) else None) st1 = Some st2" using send_total(2) [OF k] by blast
  then show ?thesis using s by (simp add: flush_bufs_def)
qed

lemma add_loop_total:
  assumes "mon_ok st" "mon_world st" "mo_clients st cp \<noteq> None" "\<forall>(t, r) \<in> set ts. cstring t" "short_head a" "short_head b"
  shows "\<exists>st'. add_loop cp a b ts bufs st = Some st'"
  using assms
proof (induction ts arbitrary: bufs st)
  case Nil
  then show ?case using flush_total by simp
next
  case (Cons tr ts)
  obtain name rest where tr: "tr = (name, rest)" by force
  have ts: "\<forall>(t, r) \<in> set ts. cstring t" and nm: "cstring name" using Cons.prems(4) tr by auto
  consider "name = [] \<or> length name > NICKLEN - 1" | "\<not> (name = [] \<or> length name > NICKLEN - 1)" "int (length (mo_list st cp)) \<ge> mo_max st"
    | "\<not> (name = [] \<or> length name > NICKLEN - 1)" "\<not> int (length (mo_list st cp)) \<ge> mo_max st" by blast
  then show ?case
  proof cases
    case 1
    then show ?thesis using Cons.IH [OF Cons.prems(1-3) ts Cons.prems(5,6)] tr by simp
  next
    case 2
    obtain st1 where s: "flush_bufs cp a b bufs st = Some st1" using flush_total [OF Cons.prems(2,3)] by blast
    note k = mon_world_keeps [OF only_out_frame [OF only_out_flush [OF s]] Cons.prems(2,3)]
    from Cons.prems(3) obtain c where "mo_clients st cp = Some c" by blast
    then show ?thesis using 2 s tr send_total(1) [OF k] by simp
  next
    case 3
    have len: "length name < NICKLEN" using 3 by (auto simp: NICKLEN_def)
    from find_monitor_True [OF Cons.prems(1) nm len] obtain mp st1 where f: "find_monitor name True st = Some (Some mp, st1)" and o1: "mon_ok st1"
      and w1: "watched st1 name mp" and fr: "mo_frame st st1" by blast
    note w = mon_world_keeps [OF fr Cons.prems(2,3)]
    from w1 obtain m where m: "mo_mons st1 mp = Some m" by (auto simp: watched_def)
    show ?thesis
    proof (cases "cp \<in> set (mon_users m)")
      case True
      then show ?thesis using 3 f m tr Cons.IH [OF o1 w ts Cons.prems(5,6)] by simp
    next
      case False
      let ?st2 = "st1\<lparr>mo_mons := (mo_mons st1)(mp \<mapsto> m\<lparr>mon_users := cp # mon_users m\<rparr>), mo_list := (mo_list st1)(cp := mp # mo_list st1 cp)\<rparr>"
      have o2: "mon_ok ?st2" by (rule mon_link(1) [OF o1 m False])
      have w2: "mon_world ?st2" "mo_clients ?st2 cp \<noteq> None" by (rule mon_world_keeps [OF _ w], simp add: mo_frame_def)+
      obtain bufs3 st3 where p3: "put_status cp a b name bufs ?st2 = Some (bufs3, st3)" using put_status_total [OF w2 Cons.prems(5,6) len] by blast
      note oo = only_out_status [OF p3]
      have "mon_ok st3" using only_out_mon(1) [OF oo] o2 by simp
      from Cons.IH [OF this mon_world_keeps [OF only_out_frame [OF oo] w2] ts Cons.prems(5,6)] show ?thesis using 3 f m tr False p3 by (simp add: upd_mon_def)
    qed
  qed
qed

lemma mon_live:
  assumes "mon_ok st" "mp \<in> set (mo_list st cp)"
  shows "\<exists>m. mo_mons st mp = Some m \<and> length (mon_name m) < NICKLEN"
  using assms mon_tabD(6) by (fastforce simp: mon_ok_def mon_links_def)

lemma lists_total:
  assumes "mon_world st" "mo_clients st cp \<noteq> None" "\<forall>mp \<in> set mps. \<exists>m. mo_mons st mp = Some m \<and> length (mon_name m) < NICKLEN" "short_head a" "short_head b"
  shows "\<exists>buf' st'. list_loop cp a mps buf st = Some (buf', st')" "\<exists>st'. status_loop cp a b mps bufs st = Some st'"
  using assms
proof (induction mps arbitrary: buf bufs st)
  case Nil
  { case 1 then show ?case by simp }
  { case 2 then show ?case using flush_total by simp }
next
  case (Cons mp mps)
  {
    case 1
    then obtain m where m: "mo_mons st mp = Some m" "length (mon_name m) < NICKLEN" by auto
    have "length a + length (mon_name m) < BUFSIZE" using m(2) 1(4) by (simp add: short_head_def BUFSIZE_def NICKLEN_def HOSTLEN_def)
    then obtain sent cur where p: "put_item a (mon_name m) buf = Some (sent, cur)" using put_item_total by force
    obtain st1 where s: "send_opt cp sent st = Some st1" using send_total(2) [OF 1(1,2)] by blast
    note oo = only_out_opt [OF s]
    have e: "\<forall>mp \<in> set mps. \<exists>m. mo_mons st1 mp = Some m \<and> length (mon_name m) < NICKLEN" using 1(3) oo by (simp add: only_out_def)
    from Cons.IH(1) [OF mon_world_keeps [OF only_out_frame [OF oo] 1(1,2)] e 1(4,5), of cur] show ?case using m p s by simp
  next
    case 2
    then obtain m where m: "mo_mons st mp = Some m" "length (mon_name m) < NICKLEN" by auto
    obtain bufs1 st1 where p: "put_status cp a b (mon_name m) bufs st = Some (bufs1, st1)" using put_status_total [OF 2(1,2,4,5) m(2)] by blast
    note oo = only_out_status [OF p]
    have e: "\<forall>mp \<in> set mps. \<exists>m. mo_mons st1 mp = Some m \<and> length (mon_name m) < NICKLEN" using 2(3) oo by (simp add: only_out_def)
    from Cons.IH(2) [OF mon_world_keeps [OF only_out_frame [OF oo] 2(1,2)] e 2(4,5), of bufs1] show ?case using m p by simp
  }
qed

lemma end_total: "mon_world st \<Longrightarrow> mo_clients st cp \<noteq> None \<Longrightarrow> \<exists>st'. end_of_list cp st = Some st'"
  using send_total(1) [of st cp] by (auto simp: end_of_list_def)

lemma list_monitor_total:
  assumes ok: "mon_ok st" and w: "mon_world st" "mo_clients st cp \<noteq> None"
  shows "\<exists>st'. list_monitor cp st = Some st'" "\<exists>st'. show_monitor_status cp st = Some st'"
proof -
  obtain h where h: "mon_head ''732'' cp st = Some h" "short_head h" using mon_head_total [OF w, of "''732''"] by auto
  obtain a where a: "mon_head ''730'' cp st = Some a" "short_head a" using mon_head_total [OF w, of "''730''"] by auto
  obtain b where b: "mon_head ''731'' cp st = Some b" "short_head b" using mon_head_total [OF w, of "''731''"] by auto
  have live: "\<forall>mp \<in> set (mo_list st cp). \<exists>m. mo_mons st mp = Some m \<and> length (mon_name m) < NICKLEN" using mon_live [OF ok] by blast
  obtain buf st1 where l: "list_loop cp h (mo_list st cp) h st = Some (buf, st1)" using lists_total(1) [OF w live h(2) h(2)] by blast
  note k1 = mon_world_keeps [OF only_out_frame [OF only_out_lists(1) [OF l]] w]
  obtain st2 where s: "sendto_one_buffer cp buf st1 = Some st2" using send_total(1) [OF k1] by blast
  show "\<exists>st'. list_monitor cp st = Some st'"
    using h(1) l s end_total [OF mon_world_keeps [OF only_out_frame [OF only_out_send [OF s]] k1]] end_total [OF w] by (auto simp: list_monitor_def)
  show "\<exists>st'. show_monitor_status cp st = Some st'"
    using a b lists_total(2) [OF w live a(2) b(2), of "(a, b)"] by (simp add: show_monitor_status_def)
qed

lemma m_monitor_total:
  assumes inv: "mon_inv lim st" and w: "mon_world st" "mo_clients st source_p \<noteq> None" "mo_clients st client_p \<noteq> None"
    and parv: "length parv \<ge> 2" "\<And>s. s \<in> set parv \<Longrightarrow> cstring s"
  shows "\<exists>st'. m_monitor client_p source_p parv st = Some st' \<and> (\<forall>cp. int (length (mo_list st' cp)) \<le> lim)"
proof -
  have ok: "mon_ok st" using inv by (simp add: mon_inv_def)
  have ts: "\<forall>(t, r) \<in> set (tokens (CHR '','') (parv ! 2)). cstring t" if "\<not> (length parv < 3 \<or> parv ! 2 = [])"
    using that tokens_cstring parv(2) [of "parv ! 2"] by auto
  obtain a where a: "mon_head ''730'' source_p st = Some a" "short_head a" using mon_head_total [OF w(1,2), of "''730''"] by auto
  obtain b where b: "mon_head ''731'' source_p st = Some b" "short_head b" using mon_head_total [OF w(1,2), of "''731''"] by auto
  have plus: "\<exists>st'. add_monitor source_p (parv ! 2) st = Some st'" if "\<not> (length parv < 3 \<or> parv ! 2 = [])"
    using add_loop_total [OF ok w(1,2) ts [OF that] a(2) b(2)] a b by (simp add: add_monitor_def)
  have minus: "\<exists>st'. del_monitor source_p (parv ! 2) st = Some st'" if "\<not> (length parv < 3 \<or> parv ! 2 = [])"
    using del_loop_spec [OF ok ts [OF that], of source_p] by (auto simp: del_monitor_def)
  have clear: "\<exists>st'. clear_monitor source_p st = Some st'" using clear_monitor_spec [OF ok] by blast
  obtain s where s: "mo_clients st source_p = Some s" using w(2) by blast
  have "\<exists>st'. m_monitor client_p source_p parv st = Some st'"
    using parv(1) plus minus clear s list_monitor_total [OF ok w(1,2)] send_total(1) [OF w(1,3)]
    unfolding m_monitor_def Let_def by (simp del: One_nat_def)
  then show ?thesis using m_monitor_inv [OF _ inv parv(2)] unfolding mon_inv_def by blast
qed

text \<open>
  C24: MONITOR returns for every subcommand and list of nicks, so that no reply leaves its buffer
  of BUFSIZE bytes and no entry is used after it was freed, and no client watches more nicks than
  max_monitor afterwards.
\<close>

theorem m_monitor_returns:
  assumes run: "reachable (mon_start lim) mon_step st" and w: "mon_world st" "mo_clients st source_p \<noteq> None" "mo_clients st client_p \<noteq> None"
    and parv: "length parv \<ge> 2" "\<And>s. s \<in> set parv \<Longrightarrow> cstring s"
  shows "\<exists>st'. m_monitor client_p source_p parv st = Some st' \<and> (\<forall>cp. int (length (mo_list st' cp)) \<le> lim)"
  by (rule m_monitor_total [OF mon_runs.inv_reachable [OF run] w parv])

lemma add_loop_room:
  assumes "add_loop cp a b ts bufs st = Some st'" "mon_ok st" "\<forall>(t, r) \<in> set ts. cstring t"
    "int (length (mo_list st cp) + length ts) \<le> mo_max st" "cstring nn" "listed ts nn"
  shows "watching st' cp nn"
  using assms
proof (induction ts arbitrary: bufs st)
  case Nil
  then show ?case by (simp add: listed_def)
next
  case (Cons tr ts)
  obtain name rest where tr: "tr = (name, rest)" by force
  have ts: "\<forall>(t, r) \<in> set ts. cstring t" and nm: "cstring name" using Cons.prems(3) tr by auto
  show ?case
  proof (cases "name = [] \<or> length name > NICKLEN - 1")
    case True
    have "add_loop cp a b ts bufs st = Some st'" using Cons.prems(1) True tr by simp
    moreover have "listed ts nn" using Cons.prems(6) True tr by (auto simp: listed_def)
    ultimately show ?thesis using Cons.IH [of bufs st] Cons.prems(2,4,5) ts by simp
  next
    case False
    have room: "\<not> int (length (mo_list st cp)) \<ge> mo_max st" using Cons.prems(4) by simp
    have len: "length name < NICKLEN" using False by (auto simp: NICKLEN_def)
    from find_monitor_True [OF Cons.prems(2) nm len] obtain mp st1 where f: "find_monitor name True st = Some (Some mp, st1)" and o1: "mon_ok st1"
      and w1: "watched st1 name mp" and fr: "mo_frame st st1" "mo_list st1 = mo_list st" by blast
    from w1 obtain m where m: "mo_mons st1 mp = Some m" "nick_same name (mon_name m)" by (auto simp: watched_def)
    have mx: "mo_max st1 = mo_max st" using fr(1) by (simp add: mo_frame_def)
    have here: "watched st1 nn mp" if "nick_same name nn"
      using that m nm Cons.prems(5) o1 mon_tabD(5) [of "mo_mons st1" "mo_table st1" mp m] by (auto simp: watched_def nick_same_iff mon_ok_def)
    have split: "nick_same name nn \<or> listed ts nn" using Cons.prems(6) tr by (auto simp: listed_def)
    have li: "mon_links (mo_list st1) (mo_mons st1)" using o1 by (simp add: mon_ok_def)
    show ?thesis
    proof (cases "cp \<in> set (mon_users m)")
      case True
      then have l: "add_loop cp a b ts bufs st1 = Some st'" using Cons.prems(1) False room f m tr by simp
      have "watching st1 cp nn" if "nick_same name nn" using li m(1) True here [OF that] by (auto simp: watching_def mon_links_def)
      moreover have "watching st' cp nn" if "watching st1 cp nn" using add_loop_spec [OF l o1 ts] that Cons.prems(5) by (auto simp: grows_def)
      ultimately show ?thesis using split Cons.IH [OF l o1 ts _ Cons.prems(5)] Cons.prems(4) fr(2) mx by auto
    next
      case new: False
      let ?st2 = "st1\<lparr>mo_mons := (mo_mons st1)(mp \<mapsto> m\<lparr>mon_users := cp # mon_users m\<rparr>), mo_list := (mo_list st1)(cp := mp # mo_list st1 cp)\<rparr>"
      from Cons.prems(1) False room f m tr new obtain x where x: "put_status cp a b name bufs ?st2 = Some x"
        "(case x of (bufs, st) \<Rightarrow> add_loop cp a b ts bufs st) = Some st'" by (auto simp: upd_mon_def split: Option.bind_split_asm)
      obtain bufs3 st3 where x3: "x = (bufs3, st3)" by (cases x) blast
      with x have p3: "put_status cp a b name bufs ?st2 = Some (bufs3, st3)" and l: "add_loop cp a b ts bufs3 st3 = Some st'" by simp_all
      note o2 = mon_link [OF o1 m(1) new] and o3 = only_out_mon [OF only_out_status [OF p3]]
      have ok3: "mon_ok st3" using o3(1) o2(1) by simp
      have "watching st3 cp nn" if "nick_same name nn" using o3(2) o2(2) [of cp nn] here [OF that] by simp
      moreover have "watching st' cp nn" if "watching st3 cp nn" using add_loop_spec [OF l ok3 ts] that Cons.prems(5) by (auto simp: grows_def)
      moreover have "int (length (mo_list st3 cp) + length ts) \<le> mo_max st3" using o3(3,4) Cons.prems(4) fr(2) mx by simp
      ultimately show ?thesis using split Cons.IH [OF l ok3 ts _ Cons.prems(5)] by auto
    qed
  qed
qed

lemma plus_spec:
  assumes ok: "mon_ok st" and n: "cstring nicks" "nicks \<noteq> []" and r: "m_monitor client_p cp [c, ''+'', nicks] st = Some st'"
  shows "(\<forall>q nn. cstring nn \<longrightarrow> (watching st q nn \<longrightarrow> watching st' q nn) \<and>
      (watching st' q nn \<longrightarrow> watching st q nn \<or> q = cp \<and> listed (tokens (CHR '','') nicks) nn)) \<and>
    (int (length (mo_list st cp) + length (tokens (CHR '','') nicks)) \<le> mo_max st \<longrightarrow>
      (\<forall>nn. cstring nn \<longrightarrow> listed (tokens (CHR '','') nicks) nn \<longrightarrow> watching st' cp nn))"
proof -
  have a: "add_monitor cp nicks st = Some st'" using r n(2) by (simp add: m_monitor_def)
  have ts: "\<forall>(t, r) \<in> set (tokens (CHR '','') nicks). cstring t" using tokens_cstring [OF n(1)] by auto
  from a obtain h1 h2 where l: "add_loop cp h1 h2 (tokens (CHR '','') nicks) (h1, h2) st = Some st'" by (auto simp: add_monitor_def split: Option.bind_split_asm)
  show ?thesis using add_monitor_spec [OF a ok n(1)] add_loop_room [OF l ok ts] by (simp add: grows_def)
qed

text \<open>
  C23: MONITOR + returns and, seen as a relation of clients and watched nicks, takes nothing away
  and adds only pairs of the source and a nick of the list; when the list has room for all of
  them, every nick of the list that is not too long is watched afterwards.
\<close>

theorem monitor_plus:
  assumes run: "reachable (mon_start lim) mon_step st" and n: "cstring c" "cstring nicks" "nicks \<noteq> []"
    and w: "mon_world st" "mo_clients st cp \<noteq> None" "mo_clients st client_p \<noteq> None"
  shows "\<exists>st'. m_monitor client_p cp [c, ''+'', nicks] st = Some st' \<and>
    (\<forall>q nn. cstring nn \<longrightarrow> (watching st q nn \<longrightarrow> watching st' q nn) \<and>
      (watching st' q nn \<longrightarrow> watching st q nn \<or> q = cp \<and> listed (tokens (CHR '','') nicks) nn)) \<and>
    (int (length (mo_list st cp) + length (tokens (CHR '','') nicks)) \<le> mo_max st \<longrightarrow>
      (\<forall>nn. cstring nn \<longrightarrow> listed (tokens (CHR '','') nicks) nn \<longrightarrow> watching st' cp nn))"
proof -
  have inv: "mon_inv lim st" by (rule mon_runs.inv_reachable [OF run])
  have "cstring s" if "s \<in> set [c, ''+'', nicks]" for s using that n(1,2) by (auto simp: cstring_def NUL_def)
  then obtain st' where r: "m_monitor client_p cp [c, ''+'', nicks] st = Some st'" using m_monitor_total [OF inv w, of "[c, ''+'', nicks]"] by auto
  then show ?thesis using plus_spec [OF _ n(2,3) r] inv by (auto simp: mon_inv_def)
qed

section \<open>A concrete list\<close>

definition mon_bob :: Client where
  "mon_bob = zero_Client\<lparr>cl_name := ''bob'', cl_status := STAT_CLIENT, cl_from := 1\<rparr>"

definition mon_al :: Client where
  "mon_al = zero_Client\<lparr>cl_name := ''Al'', cl_status := STAT_CLIENT, cl_from := 2\<rparr>"

definition mon_st :: notify_state where
  "mon_st = \<lparr>mo_clients = [1 \<mapsto> mon_bob, 2 \<mapsto> mon_al], mo_tabs = zero_tabs, mo_me = ''irc.it'', mo_max = 60, mo_list = (\<lambda>_. []),
     mo_mons = (\<lambda>_. None), mo_table = (\<lambda>_. []), mo_next = 1, mo_out = []\<rparr>"

lemma mon_st_start: "mon_start 60 mon_st" by (simp add: mon_start_def mon_st_def)

lemma mon_st_run: "reachable (mon_start 60) mon_step mon_st" by (rule reachable.intros(1)) (rule mon_st_start)

lemma mon_st_world: "mon_world mon_st" "mo_clients mon_st 1 = Some mon_bob" "mo_clients mon_st 2 = Some mon_al"
  by (auto simp: mon_world_def mon_st_def zero_tabs_def client_fits_def mon_bob_def mon_al_def zero_Client_def NICKLEN_def HOSTLEN_def)

lemma al_tokens: "tokens (CHR '','') ''al'' = [(''al'', [])]"
  by (simp add: tokens.simps strtok_def Let_def)

lemma al_listed: "listed [(''al'', [])] ''Al''"
proof -
  have "irccmp ''Al'' ''al'' = 0" by code_simp
  then show ?thesis by (simp add: listed_def nick_same_def NICKLEN_def)
qed

lemma cstrings: "cstring ''MONITOR''" "cstring ''+''" "cstring ''-''" "cstring ''al''" "cstring ''Al''" by (simp_all add: cstring_def NUL_def)

lemma mon_st_nobody: "\<not> watching mon_st q nn" by (simp add: watching_def mon_st_def)

text \<open>The list of bob after it asked for al, in a state that a run reaches.\<close>

lemma mon_added:
  obtains st where "reachable (mon_start 60) mon_step st" "mo_clients st = mo_clients mon_st" "mo_tabs st = mo_tabs mon_st" "mo_me st = mo_me mon_st"
    "watching st 1 ''Al''" "\<And>q. watching st q ''Al'' \<Longrightarrow> q = 1"
proof -
  have p: "cstring s" if "s \<in> set [''MONITOR'', ''+'', ''al'']" for s using that cstrings by auto
  have inv: "mon_inv 60 mon_st" by (rule mon_start_inv [OF mon_st_start])
  from m_monitor_total [OF inv mon_st_world(1), of 1 1 "[''MONITOR'', ''+'', ''al'']"] mon_st_world(2) p obtain st where
    st: "m_monitor 1 1 [''MONITOR'', ''+'', ''al''] mon_st = Some st" by auto
  let ?st = "st\<lparr>mo_clients := mo_clients mon_st, mo_tabs := mo_tabs mon_st, mo_me := mo_me mon_st\<rparr>"
  have "reachable (mon_start 60) mon_step st" by (rule reachable.intros(2) [OF mon_st_run mon_step.command [OF p st]])
  then have run: "reachable (mon_start 60) mon_step ?st" by (rule reachable.intros(2)) (rule mon_step.other)
  have same: "watching ?st = watching st" by (intro ext) (simp add: watching_def watched_def)
  have ok: "mon_ok mon_st" using inv by (simp add: mon_inv_def)
  have "int (length (mo_list mon_st 1) + length (tokens (CHR '','') ''al'')) \<le> mo_max mon_st" by (simp add: al_tokens mon_st_def)
  moreover have "''al'' \<noteq> []" by simp
  note spec = plus_spec [OF ok cstrings(4) this st]
  ultimately have w: "watching st 1 ''Al''" using spec [THEN conjunct2] al_listed cstrings(5) unfolding al_tokens by blast
  have o: "q = 1" if "watching st q ''Al''" for q using spec [THEN conjunct1, rule_format, OF cstrings(5), of q] that mon_st_nobody [of q "''Al''"] by blast
  have mo: "mo_clients ?st = mo_clients mon_st" "mo_tabs ?st = mo_tabs mon_st" "mo_me ?st = mo_me mon_st" by simp_all
  show ?thesis by (rule that [OF run mo]) (unfold same, rule w, rule o)
qed

theorem signon_tells_watchers_witness:
  "\<exists>st st' line. watching st 1 ''Al'' \<and> monitor_signon 2 st = Some st' \<and> told st ''Al'' line st' \<and> (1, line) \<in> set (mo_out st')"
proof -
  obtain st where run: "reachable (mon_start 60) mon_step st" and cl: "mo_clients st = mo_clients mon_st"
    and w: "watching st 1 ''Al''" and only: "\<And>q. watching st q ''Al'' \<Longrightarrow> q = 1" by (rule mon_added) blast
  have c: "mo_clients st 2 = Some mon_al" "cl_name mon_al = ''Al''" "mo_clients st 1 = Some mon_bob" "\<not> IsIOError mon_bob"
    using mon_st_world(2,3) cl by (simp_all add: mon_al_def mon_bob_def zero_Client_def IsIOError_def)
  have live: "mo_clients st p \<noteq> None" if "watching st p (cl_name mon_al)" for p using only [of p] that c(2,3) by simp
  from signon_tells_watchers [OF run c(1) _ live] c(2) cstrings(5) obtain st' line where t: "monitor_signon 2 st = Some st'" "told st ''Al'' line st'" by auto
  then have "(1, line) \<in> set (mo_out st')" using w c(3,4) by (auto simp: told_def)
  then show ?thesis using w t by blast
qed

theorem monitor_minus_witness:
  "\<exists>st st'. watching st 1 ''Al'' \<and> m_monitor 1 1 [''MONITOR'', ''-'', ''al''] st = Some st' \<and> \<not> watching st' 1 ''Al''"
proof -
  obtain st where run: "reachable (mon_start 60) mon_step st" and w: "watching st 1 ''Al''" by (rule mon_added) blast
  have "\<exists>(t, r) \<in> set (tokens (CHR '','') ''al''). t \<noteq> [] \<and> nick_same t ''Al''" using al_listed by (simp add: al_tokens listed_def)
  moreover have "''al'' \<noteq> []" by simp
  from monitor_minus [OF run cstrings(4) this, of 1 1 "''MONITOR''"] obtain st' where "m_monitor 1 1 [''MONITOR'', ''-'', ''al''] st = Some st'"
    "\<And>q nn. cstring nn \<Longrightarrow> watching st' q nn = (watching st q nn \<and> \<not> (q = 1 \<and> (\<exists>(t, r) \<in> set (tokens (CHR '','') ''al''). t \<noteq> [] \<and> nick_same t nn)))" by blast
  ultimately show ?thesis using w cstrings(5) by blast
qed

theorem monitor_plus_witness: "\<exists>st. m_monitor 1 1 [''MONITOR'', ''+'', ''al''] mon_st = Some st \<and> watching st 1 ''Al''"
proof -
  note run = mon_st_run
  have len: "int (length (mo_list mon_st 1) + length (tokens (CHR '','') ''al'')) \<le> mo_max mon_st" by (simp add: al_tokens mon_st_def)
  have l: "''al'' \<noteq> []" and c: "mo_clients mon_st 1 \<noteq> None" using mon_st_world(2) by simp_all
  from monitor_plus [OF run cstrings(1,4) l mon_st_world(1) c c] obtain st where "m_monitor 1 1 [''MONITOR'', ''+'', ''al''] mon_st = Some st"
    "int (length (mo_list mon_st 1) + length (tokens (CHR '','') ''al'')) \<le> mo_max mon_st \<longrightarrow>
      (\<forall>nn. cstring nn \<longrightarrow> listed (tokens (CHR '','') ''al'') nn \<longrightarrow> watching st 1 nn)" by blast
  then show ?thesis using len al_listed cstrings(5) unfolding al_tokens by blast
qed

theorem m_monitor_returns_witness: "\<exists>st. m_monitor 1 1 [''MONITOR'', ''+'', ''al''] mon_st = Some st \<and> length (mo_list st 1) \<le> 60"
proof -
  note run = mon_st_run
  have p: "cstring s" if "s \<in> set [''MONITOR'', ''+'', ''al'']" for s using that cstrings by auto
  have c: "mo_clients mon_st 1 \<noteq> None" and two: "length [''MONITOR'', ''+'', ''al''] \<ge> 2" using mon_st_world(2) by simp_all
  from m_monitor_returns [OF run mon_st_world(1) c c two p] obtain st where "m_monitor 1 1 [''MONITOR'', ''+'', ''al''] mon_st = Some st"
    "\<forall>cp. int (length (mo_list st cp)) \<le> 60" by blast
  then show ?thesis by (intro exI [of _ st] conjI) (simp_all del: One_nat_def)
qed

end
