(* ===== verification/Spec2Isabelle.thy ===== *)
theory Spec2Isabelle
  imports Glob_Esc Inet6 Dlink Tools Hash Parse Linebuf Mode_Faults Cmd_Props Packet Monitor
begin

text \<open>
  A verification of the core of the \<^verbatim>\<open>bluebox\<close> IRC daemon (ircd-ratbox): the path of a line from the socket buffer
  to the command handler, the tables that find clients and channels, the channel subsystem with its bans and modes,
  and the text routines below them.

  \<^bold>\<open>The parts and how they meet.\<close>  \<^verbatim>\<open>libratbox\<close> reads bytes and cuts them into lines (\<^verbatim>\<open>linebuf.c\<close>); \<^verbatim>\<open>packet.c\<close> hands them on under flood control.  \<^verbatim>\<open>parse.c\<close> splits
  a line into prefix, command and parameters, finds the source in the client tables (\<^verbatim>\<open>hash.c\<close>) and the handler in the
  command table, and calls it.  The handlers work on clients, channels and memberships (\<^verbatim>\<open>channel.c\<close>): they join and leave,
  test bans with the matchers (\<^verbatim>\<open>match.c\<close>), change modes (\<^verbatim>\<open>m_mode.c\<close>), join (\<^verbatim>\<open>m_join.c\<close>), kick, invite, set topics and queue lines for members and servers, which
  the line buffers send out again.  The nick history (\<^verbatim>\<open>whowas.c\<close>) lets a command find a client under the nick it had; notify lists
  (\<^verbatim>\<open>monitor.c\<close>) tell users when a nick comes or goes.

  \<^bold>\<open>The theories.\<close>
    \<^item> \<open>Prelude\<close>: C strings and bounds-checked reads, splitting at a character, the locale of invariants over runs
      (\<open>run_invariant\<close>) and the collections of simplification rules.
    \<^item> \<open>Char_Tables\<close>: the case and attribute tables of \<^verbatim>\<open>match.c\<close> and the class macros of \<^verbatim>\<open>match.h\<close>.
    \<^item> \<open>Glob\<close>, \<open>Glob_Esc\<close>: the matchers \<^verbatim>\<open>match\<close> and \<^verbatim>\<open>match_esc\<close> as step functions on their cursors; an access outside a
      string is \<^term>\<open>None\<close>.  They return on every input, answer rightly, and \<^verbatim>\<open>match\<close> decides the glob relation within its turns.
    \<^item> \<open>Ident\<close>: \<^verbatim>\<open>collapse\<close>, \<^verbatim>\<open>irccmp\<close>, \<^verbatim>\<open>ircncmp\<close> and the validity tests of names.
    \<^item> \<open>Inet\<close>, \<open>Inet6\<close>: address text of \<^verbatim>\<open>commio.c\<close> and the CIDR tests of \<^verbatim>\<open>match.c\<close>.
    \<^item> \<open>Dlink\<close>: the doubly linked lists of \<^verbatim>\<open>rb_tools.h\<close> on an explicit heap, refining sequences, the empty one included.
    \<^item> \<open>Tools\<close>: the string tools of \<^verbatim>\<open>tools.c\<close>.
    \<^item> \<open>Structs\<close>: \<^verbatim>\<open>struct Client\<close>, \<^verbatim>\<open>Channel\<close>, \<^verbatim>\<open>membership\<close>, \<^verbatim>\<open>Ban\<close> and the flag macros, as records with the fields the
      modelled code uses.  Pointers are natural numbers; a store maps them to records.
    \<^item> \<open>Hash\<close>: the hash functions and tables of \<^verbatim>\<open>hash.c\<close> with every insertion, removal and lookup, against the locale of a
      chained table.
    \<^item> \<open>Parse\<close>: \<^verbatim>\<open>parse.c\<close>; the handlers of the modules are a parameter.
    \<^item> \<open>Linebuf\<close>: the queues of reference-counted lines of \<^verbatim>\<open>linebuf.c\<close>; \<^verbatim>\<open>rb_vsnprintf\<close> and the kernel's writes are parameters.
      Parsed input is cut into the lines of the text (\<open>text_lines\<close>, which reads it byte by byte); a flush gives the kernel a
      prefix of the pending bytes and takes off what was accepted.
    \<^item> \<open>Packet\<close>: \<^verbatim>\<open>packet.c\<close>, which puts the two together: bytes into the receive queue, lines out of it to the parser, under the
      flood limits.  The queue is worked off, and a user gets its burst and two lines a second.
    \<^item> \<open>Channel\<close>: joining, leaving and destroying channels (\<^verbatim>\<open>channel.c\<close>), the state \<open>cworld\<close> and its invariant \<open>cworld_ok\<close>.
    \<^item> \<open>Bans\<close>: \<^verbatim>\<open>is_banned\<close>, \<^verbatim>\<open>can_send\<close>, \<^verbatim>\<open>add_id\<close>, \<^verbatim>\<open>del_id\<close>, the ban cache, and the runs of the channel subsystem: a
      channel that loses its last member is released, and a cached verdict is right also after a nick changes case.
    \<^item> \<open>Chan_Info\<close>: NAMES, topics, the mode summary, the spambot and split counters and the capability counts of \<^verbatim>\<open>channel.c\<close>.
    \<^item> \<open>Whowas\<close>: the ring of \<^verbatim>\<open>whowas.c\<close> with its hash and client chains, which refines a sequence of past nicks, newest first
      (\<open>recent\<close>), and \<^verbatim>\<open>find_chasing\<close> (\<^verbatim>\<open>client.c\<close>).
    \<^item> \<open>Mode_Lines\<close>: how recorded changes become lines, for members (\<^verbatim>\<open>set_channel_mode\<close>) and servers
      (\<^verbatim>\<open>send_cap_mode_changes\<close>); one locale carries both loops.
    \<^item> \<open>Mode_Args\<close>: the parameters of mode changes, \<^verbatim>\<open>pretty_mask\<close> and \<^verbatim>\<open>fix_key\<close>.
    \<^item> \<open>Chan_Mode\<close>: the mode handlers, \<^verbatim>\<open>ModeTable\<close>, \<^verbatim>\<open>set_channel_mode\<close> and the commands MODE, TMODE and BMASK.
    \<^item> \<open>Mode_Props\<close>: who may change what, and the invariant.  \<open>Mode_Replay\<close>: reading the recorded changes one after the
      other turns the modes before the command into the modes after it.  \<open>Mode_Told\<close>: the lines spell the recorded changes.
      \<open>Mode_Faults\<close>: two commands that leave the buffers.
    \<^item> \<open>Join\<close>: JOIN from a local user, JOIN 0 and the tests of \<^verbatim>\<open>can_join\<close> (\<^verbatim>\<open>m_join.c\<close>), with \<^verbatim>\<open>sendto_channel_local\<close> (\<^verbatim>\<open>send.c\<close>).
    \<^item> \<open>Sjoin\<close>: JOIN and SJOIN from other servers, the time rule, the loss of modes, status and bans (\<^verbatim>\<open>m_join.c\<close>).
    \<^item> \<open>Sjoin_Modes\<close>, \<open>Join_Inv\<close>, \<open>Join_Samples\<close>, \<open>Sjoin_Ops\<close>: two servers that exchange their SJOIN agree, but for +x, which the
      code writes and does not read; all four commands keep
      the invariant of the channel subsystem; a newer channel brings nothing in and an older one takes all status.
    \<^item> \<open>Chan_Cmds\<close>: PART, KICK, TOPIC and INVITE (\<^verbatim>\<open>m_part.c\<close>, \<^verbatim>\<open>m_kick.c\<close>, \<^verbatim>\<open>m_topic.c\<close>, \<^verbatim>\<open>m_invite.c\<close>); any sequence of them keeps the
      invariant.  \<open>Cmd_Props\<close>: who may do what with them, and what they change.
    \<^item> \<open>Monitor\<close>: the table of watched nicks (\<^verbatim>\<open>monitor.c\<close>) and the MONITOR command (\<^verbatim>\<open>m_monitor.c\<close>), against the relation
      \<open>watching\<close> of clients and nicks: both sides of the links agree in every run, the watchers of a nick are told once
      when it comes or goes, MONITOR + and - change the relation as they say, and no list grows past its limit.

  \<^bold>\<open>Conventions.\<close>  A C string is the list of its bytes before the terminator; \<open>cptr\<close> is a string pointer that may be
  \<^verbatim>\<open>NULL\<close>.  An operation that would read or write outside its object, use a released record or dereference \<^verbatim>\<open>NULL\<close>
  is \<^term>\<open>None\<close>; refusals and error replies are ordinary results.  Machine words keep their width where it matters: flags,
  hashes, the ban serial and the flood counters; times and limits are integers.

  \<^bold>\<open>Bounds and fuel.\<close>  \<^verbatim>\<open>match\<close> gives up after \<^verbatim>\<open>MATCH_MAX_CALLS\<close> = 512 turns, as in the source, so its loop needs no other fuel.
  \<open>parse_loop\<close> runs on the length of its data, which every turn shortens.  Walks over linked structures have as fuel the
  number of nodes: the length field for \<open>dlink_walk\<close>, the number of queued lines for \<open>donebuf_loop\<close>, the size of the ring
  for the chains of the history, the number of channels of a user for \<open>join_0_loop\<close>, the lines of the
  receive queue for the loops of \<open>Packet\<close>; the invariants give that this is enough.

  \<^bold>\<open>Not modelled.\<close>  The life of a connection (\<^verbatim>\<open>client.c\<close>, \<^verbatim>\<open>s_user.c\<close>, \<^verbatim>\<open>s_serv.c\<close>, \<^verbatim>\<open>s_auth.c\<close>), the configuration
  (\<^verbatim>\<open>newconf.c\<close>, \<^verbatim>\<open>s_conf.c\<close>, \<^verbatim>\<open>hostmask.c\<close>, \<^verbatim>\<open>class.c\<close>, \<^verbatim>\<open>reject.c\<close>), most fan-out functions of \<^verbatim>\<open>send.c\<close> and its send path (what
  \<^verbatim>\<open>_send_linebuf\<close> does with a line handed to it), the other command
  modules, the block heap, raw buffers and patricia trees of \<^verbatim>\<open>libratbox\<close>.  Sockets, event loops, TLS and
  cryptographic glue, the helper processes and the bundled SQLite are system calls or code of other projects; the
  configuration lexer and parser are generated.
\<close>

end
